(* ===== verification/North_Prelude.thy ===== *)
theory North_Prelude
  imports Main "HOL-Library.Word" "HOL-Library.Char_ord" "HOL-Library.List_Lexorder" "HOL-Library.Multiset"
begin

text \<open>
  The part of the Rust language and of its standard library that the North sources use,
  as HOL functions, and the generic lemmas the component theories share.

  \<^item> A Rust \<open>Result<T, E>\<close> is the sum \<open>'e + 'a\<close>: \<open>Inl\<close> is \<open>Err\<close>, \<open>Inr\<close> is \<open>Ok\<close>; the
    \<open>?\<close> operator is \<open>and_then\<close>.
  \<^item> \<open>u16\<close>, \<open>u64\<close> are machine words, with \<open>saturating_add(1)\<close> and \<open>checked_add(1)\<close>.
  \<^item> A Rust \<open>str\<close> is its UTF-8 byte sequence, a \<open>char list\<close>: \<open>len()\<close> is \<open>length\<close>, and
    trimming removes the UTF-8 encodings of the characters with the Unicode property
    \<open>White_Space\<close>, as \<open>str::trim\<close> does.
  \<^item> \<open>iter_mut().find(p)\<close> followed by an assignment is \<open>update_first\<close>.
\<close>

named_theorems result_simps \<open>evaluation of the question mark operator\<close>
named_theorems u64_simps \<open>saturating and checked increments of 64-bit words\<close>

type_synonym u8 = "8 word"
type_synonym u16 = "16 word"
type_synonym u32 = "32 word"
type_synonym u64 = "64 word"

section \<open>Results\<close>

definition and_then :: "'e + 'a \<Rightarrow> ('a \<Rightarrow> 'e + 'b) \<Rightarrow> 'e + 'b" where
  "and_then r k = (case r of Inl e \<Rightarrow> Inl e | Inr a \<Rightarrow> k a)"

definition map_err :: "('e \<Rightarrow> 'f) \<Rightarrow> 'e + 'a \<Rightarrow> 'f + 'a" where
  "map_err g r = (case r of Inl e \<Rightarrow> Inl (g e) | Inr a \<Rightarrow> Inr a)"

text \<open>A loop over a slice whose body may return an error: \<open>for x in xs { f(x)?; }\<close>.\<close>

fun for_each :: "('a \<Rightarrow> 'e + unit) \<Rightarrow> 'a list \<Rightarrow> 'e + unit" where
  "for_each f [] = Inr ()"
| "for_each f (x # xs) = and_then (f x) (\<lambda>_. for_each f xs)"

section \<open>Machine integers\<close>

definition u64_max :: u64 where
  "u64_max = - 1"

definition sat_inc :: "u64 \<Rightarrow> u64" where
  "sat_inc x = (if x = u64_max then u64_max else x + 1)"

definition checked_inc :: "u64 \<Rightarrow> u64 option" where
  "checked_inc x = (if x = u64_max then None else Some (x + 1))"

section \<open>Byte strings\<close>

text \<open>UTF-8 encodings of the characters with the property \<open>White_Space\<close>.\<close>

definition str_ws :: "string list" where
  "str_ws =
     [[CHR 0x09], [CHR 0x0A], [CHR 0x0B], [CHR 0x0C], [CHR 0x0D], [CHR 0x20],
      [CHR 0xC2, CHR 0x85], [CHR 0xC2, CHR 0xA0], [CHR 0xE1, CHR 0x9A, CHR 0x80],
      [CHR 0xE2, CHR 0x80, CHR 0x80], [CHR 0xE2, CHR 0x80, CHR 0x81],
      [CHR 0xE2, CHR 0x80, CHR 0x82], [CHR 0xE2, CHR 0x80, CHR 0x83],
      [CHR 0xE2, CHR 0x80, CHR 0x84], [CHR 0xE2, CHR 0x80, CHR 0x85],
      [CHR 0xE2, CHR 0x80, CHR 0x86], [CHR 0xE2, CHR 0x80, CHR 0x87],
      [CHR 0xE2, CHR 0x80, CHR 0x88], [CHR 0xE2, CHR 0x80, CHR 0x89],
      [CHR 0xE2, CHR 0x80, CHR 0x8A], [CHR 0xE2, CHR 0x80, CHR 0xA8],
      [CHR 0xE2, CHR 0x80, CHR 0xA9], [CHR 0xE2, CHR 0x80, CHR 0xAF],
      [CHR 0xE2, CHR 0x81, CHR 0x9F], [CHR 0xE3, CHR 0x80, CHR 0x80]]"

definition starts_with :: "string \<Rightarrow> string \<Rightarrow> bool" where
  "starts_with p s \<longleftrightarrow> take (length p) s = p"

definition strip_prefix :: "string \<Rightarrow> string \<Rightarrow> string option" where
  "strip_prefix p s = (if starts_with p s then Some (drop (length p) s) else None)"

function trim_by :: "string list \<Rightarrow> string \<Rightarrow> string" where
  "trim_by ps s =
     (case find (\<lambda>p. p \<noteq> [] \<and> starts_with p s) ps of
        None \<Rightarrow> s
      | Some p \<Rightarrow> trim_by ps (drop (length p) s))"
  by pat_completeness auto
termination
proof (relation "measure (\<lambda>(ps, s). length s)")
  fix ps s p
  assume "find (\<lambda>p. p \<noteq> [] \<and> starts_with p s) ps = Some p"
  then have p: "p \<noteq> []" "take (length p) s = p"
    by (auto simp: find_Some_iff starts_with_def)
  then have "s \<noteq> []" by auto
  with p(1) show "((ps, drop (length p) s), (ps, s)) \<in> measure (\<lambda>(ps, s). length s)"
    by (simp add: length_greater_0_conv)
qed simp

declare trim_by.simps [simp del]

definition trim_start :: "string \<Rightarrow> string" where
  "trim_start s = trim_by str_ws s"

definition trim_end :: "string \<Rightarrow> string" where
  "trim_end s = rev (trim_by (map rev str_ws) (rev s))"

definition trim :: "string \<Rightarrow> string" where
  "trim s = trim_end (trim_start s)"

definition blank :: "string \<Rightarrow> bool" where
  "blank s \<longleftrightarrow> trim s = []"

text \<open>\<open>s.chars().any(char::is_whitespace)\<close>: some White_Space character occurs. In valid
  UTF-8 an encoding found as a substring starts at a character boundary.\<close>

fun contains_str :: "string \<Rightarrow> string \<Rightarrow> bool" where
  "contains_str p [] = (p = [])"
| "contains_str p (c # s) = (starts_with p (c # s) \<or> contains_str p s)"

definition has_whitespace :: "string \<Rightarrow> bool" where
  "has_whitespace s = list_ex (\<lambda>w. contains_str w s) str_ws"

fun split_once :: "char \<Rightarrow> string \<Rightarrow> (string \<times> string) option" where
  "split_once d [] = None"
| "split_once d (c # s) =
     (if c = d then Some ([], s) else map_option (\<lambda>(a, b). (c # a, b)) (split_once d s))"

definition rsplit_once :: "char \<Rightarrow> string \<Rightarrow> (string \<times> string) option" where
  "rsplit_once d s = map_option (\<lambda>(a, b). (rev b, rev a)) (split_once d (rev s))"

fun split_on :: "char \<Rightarrow> string \<Rightarrow> string list" where
  "split_on d [] = [[]]"
| "split_on d (c # s) =
     (if c = d then [] # split_on d s
      else (case split_on d s of [] \<Rightarrow> [[c]] | p # ps \<Rightarrow> (c # p) # ps))"

definition is_ascii_digit :: "char \<Rightarrow> bool" where
  "is_ascii_digit c \<longleftrightarrow> CHR ''0'' \<le> c \<and> c \<le> CHR ''9''"

definition is_ascii_alphanumeric :: "char \<Rightarrow> bool" where
  "is_ascii_alphanumeric c \<longleftrightarrow>
     is_ascii_digit c \<or> (CHR ''a'' \<le> c \<and> c \<le> CHR ''z'') \<or> (CHR ''A'' \<le> c \<and> c \<le> CHR ''Z'')"

definition is_ascii_hexdigit :: "char \<Rightarrow> bool" where
  "is_ascii_hexdigit c \<longleftrightarrow>
     is_ascii_digit c \<or> (CHR ''a'' \<le> c \<and> c \<le> CHR ''f'') \<or> (CHR ''A'' \<le> c \<and> c \<le> CHR ''F'')"

definition to_ascii_lowercase :: "string \<Rightarrow> string" where
  "to_ascii_lowercase s = map (\<lambda>c. if CHR ''A'' \<le> c \<and> c \<le> CHR ''Z'' then char_of ((of_char c :: nat) + 32) else c) s"

text \<open>Decimal rendering of unsigned integers by \<open>format!\<close>.\<close>

fun show_nat :: "nat \<Rightarrow> string" where
  "show_nat n =
     (if n < 10 then [char_of (48 + n)] else show_nat (n div 10) @ [char_of (48 + n mod 10)])"

declare show_nat.simps [simp del]

section \<open>Vectors\<close>

fun update_first :: "('a \<Rightarrow> bool) \<Rightarrow> ('a \<Rightarrow> 'a) \<Rightarrow> 'a list \<Rightarrow> 'a list" where
  "update_first p f [] = []"
| "update_first p f (x # xs) = (if p x then f x # xs else x # update_first p f xs)"

text \<open>\<open>iter().max().unwrap_or_default()\<close> on unsigned words.\<close>

definition max_or_0 :: "u64 list \<Rightarrow> u64" where
  "max_or_0 xs = fold max xs 0"

section \<open>Lemmas on results\<close>

lemma and_then_simps [simp, result_simps]:
  "and_then (Inl e) k = Inl e"
  "and_then (Inr a) k = k a"
  by (simp_all add: and_then_def)

lemma and_then_Inr_iff: "and_then r k = Inr b \<longleftrightarrow> (\<exists>a. r = Inr a \<and> k a = Inr b)"
  by (cases r) auto

lemma map_err_simps [simp, result_simps]:
  "map_err g (Inl e) = Inl (g e)"
  "map_err g (Inr a) = Inr a"
  by (simp_all add: map_err_def)

lemma map_err_Inr_iff [simp]: "map_err g r = Inr a \<longleftrightarrow> r = Inr a"
  by (cases r) auto

lemma unit_result_cases: "(\<exists>u. r = Inr u) \<longleftrightarrow> r = Inr ()"
  by auto

lemma for_each_Inr_iff [simp]: "for_each f xs = Inr () \<longleftrightarrow> (\<forall>x \<in> set xs. f x = Inr ())"
  by (induction xs) (auto simp: and_then_Inr_iff)

section \<open>Lemmas on 64-bit words\<close>

lemma u64_le_max [simp]: "x \<le> u64_max"
  by (simp add: u64_max_def)

lemma u64_max_le_iff [simp]: "u64_max \<le> x \<longleftrightarrow> x = u64_max"
  by (metis u64_le_max antisym)

lemma unat_u64_max: "unat u64_max = 2 ^ 64 - 1"
  by (simp add: u64_max_def unsigned_minus_1_eq_mask mask_eq_exp_minus_1)

lemma unat_inc: "x \<noteq> u64_max \<Longrightarrow> unat (x + 1) = Suc (unat x)"
  by (metis Suc_eq_plus1 add.commute add_eq_0_iff add_left_imp_eq u64_max_def unatSuc)

lemma sat_inc_max [simp, u64_simps]: "sat_inc u64_max = u64_max"
  by (simp add: sat_inc_def)

lemma unat_sat_inc: "x \<noteq> u64_max \<Longrightarrow> unat (sat_inc x) = Suc (unat x)"
  by (simp add: sat_inc_def unat_inc)

lemma less_sat_inc [u64_simps]: "x < sat_inc x \<longleftrightarrow> x \<noteq> u64_max"
proof (cases "x = u64_max")
  case False
  then show ?thesis by (simp add: word_less_nat_alt unat_sat_inc)
qed simp

lemma le_sat_inc [simp]: "x \<le> sat_inc x"
  by (cases "x = u64_max") (auto simp: word_le_nat_alt unat_sat_inc)

lemma sat_inc_neq_0 [simp]: "sat_inc x \<noteq> 0"
proof (cases "x = u64_max")
  case True
  then show ?thesis by (simp add: sat_inc_def) (simp add: u64_max_def)
next
  case False
  then show ?thesis using unat_sat_inc [OF False] by auto
qed

lemma sat_inc_eq_iff: "sat_inc x = x \<longleftrightarrow> x = u64_max"
  using less_sat_inc [of x] by (auto simp: less_le)

lemma less_sat_inc_iff: "x \<noteq> u64_max \<Longrightarrow> y < sat_inc x \<longleftrightarrow> y \<le> x"
  by (simp add: word_less_nat_alt word_le_nat_alt unat_sat_inc less_Suc_eq_le)

lemma sat_inc_le_iff: "x \<noteq> u64_max \<Longrightarrow> sat_inc x \<le> y \<longleftrightarrow> x < y"
  by (simp add: word_less_nat_alt word_le_nat_alt unat_sat_inc Suc_le_eq)

lemma less_imp_sat_inc_le: "x < y \<Longrightarrow> sat_inc x \<le> y"
  by (metis sat_inc_le_iff u64_le_max not_less)

lemma checked_inc_Some: "checked_inc x = Some y \<longleftrightarrow> x \<noteq> u64_max \<and> y = x + 1"
  by (auto simp: checked_inc_def)

lemma checked_inc_unat: "checked_inc x = Some y \<Longrightarrow> unat y = Suc (unat x)"
  by (auto simp: checked_inc_Some unat_inc)

section \<open>Lemmas on strings\<close>

lemma starts_with_Nil [simp]: "starts_with [] s"
  by (simp add: starts_with_def)

lemma starts_with_iff_append: "starts_with p s \<longleftrightarrow> (\<exists>r. s = p @ r)"
  unfolding starts_with_def by (metis append_eq_conv_conj append_take_drop_id)

lemma strip_prefix_Some_iff: "strip_prefix p s = Some r \<longleftrightarrow> s = p @ r"
  by (auto simp: strip_prefix_def starts_with_iff_append)

lemma split_once_Some_iff: "split_once d s = Some (a, b) \<longleftrightarrow> s = a @ d # b \<and> d \<notin> set a"
proof (induction s arbitrary: a)
  case Nil
  then show ?case by simp
next
  case (Cons c s)
  then show ?case by (cases a) auto
qed

lemma split_once_None_iff: "split_once d s = None \<longleftrightarrow> d \<notin> set s"
  by (induction s) auto

lemma trim_by_suffix: "\<exists>r. s = r @ trim_by ps s"
proof (induction ps s rule: trim_by.induct)
  case (1 ps s)
  show ?case
  proof (cases "find (\<lambda>p. p \<noteq> [] \<and> starts_with p s) ps")
    case None
    then show ?thesis by (simp add: trim_by.simps)
  next
    case (Some p)
    then obtain r where r: "drop (length p) s = r @ trim_by ps (drop (length p) s)"
      using "1.IH" by blast
    have "s = take (length p) s @ r @ trim_by ps (drop (length p) s)"
      using append_take_drop_id [of "length p" s] r by metis
    moreover have "trim_by ps s = trim_by ps (drop (length p) s)"
      using Some by (simp add: trim_by.simps [of ps s])
    ultimately show ?thesis by (metis append.assoc)
  qed
qed

lemma trim_by_idem [simp]: "trim_by ps (trim_by ps s) = trim_by ps s"
proof (induction ps s rule: trim_by.induct)
  case (1 ps s)
  then show ?case
    by (cases "find (\<lambda>p. p \<noteq> [] \<and> starts_with p s) ps") (simp_all add: trim_by.simps [of ps s])
qed

lemma trim_end_prefix: "\<exists>r. s = trim_end s @ r"
proof -
  obtain r where "rev s = r @ trim_by (map rev str_ws) (rev s)"
    using trim_by_suffix by blast
  then have "s = rev (trim_by (map rev str_ws) (rev s)) @ rev r"
    by (metis rev_append rev_rev_ident)
  then show ?thesis by (auto simp: trim_end_def)
qed

lemma length_trim_le: "length (trim s) \<le> length s"
proof -
  obtain r where "s = r @ trim_start s" using trim_by_suffix by (auto simp: trim_start_def)
  moreover obtain r' where "trim_start s = trim (s) @ r'"
    using trim_end_prefix by (metis trim_def)
  ultimately show ?thesis by (metis length_append le_add1 le_add2 le_trans)
qed

lemma trim_end_idem [simp]: "trim_end (trim_end s) = trim_end s"
  by (simp add: trim_end_def)

lemma trim_by_fixed: "trim_by ps s = s \<longleftrightarrow> (\<forall>p \<in> set ps. p \<noteq> [] \<longrightarrow> \<not> starts_with p s)"
proof (cases "find (\<lambda>p. p \<noteq> [] \<and> starts_with p s) ps")
  case None
  then have "trim_by ps s = s" by (simp add: trim_by.simps [of ps s])
  with None show ?thesis by (auto simp: find_None_iff)
next
  case (Some p)
  then have p: "p \<in> set ps" "p \<noteq> []" "starts_with p s"
    by (auto simp: find_Some_iff)
  obtain r where r: "drop (length p) s = r @ trim_by ps (drop (length p) s)"
    using trim_by_suffix by blast
  have "trim_by ps s = trim_by ps (drop (length p) s)"
    using Some by (simp add: trim_by.simps [of ps s])
  moreover have "length (trim_by ps (drop (length p) s)) < length s"
  proof -
    have "length p \<le> length s" "0 < length p"
      using p(2,3) by (auto simp: starts_with_def) (metis length_take min.cobounded1 nat_le_linear min_absorb2)
    moreover have "length (trim_by ps (drop (length p) s)) \<le> length s - length p"
      using arg_cong [OF r, of length] by simp
    ultimately show ?thesis by linarith
  qed
  ultimately have "trim_by ps s \<noteq> s" by auto
  with p show ?thesis by auto
qed

lemma trim_idem [simp]: "trim (trim s) = trim s"
proof -
  let ?u = "trim_start s"
  have "trim_by str_ws ?u = ?u" by (simp add: trim_start_def)
  then have no: "\<forall>p \<in> set str_ws. p \<noteq> [] \<longrightarrow> \<not> starts_with p ?u"
    by (simp add: trim_by_fixed)
  obtain r where r: "?u = trim_end ?u @ r" using trim_end_prefix by blast
  have "\<forall>p \<in> set str_ws. p \<noteq> [] \<longrightarrow> \<not> starts_with p (trim_end ?u)"
    using no r by (metis append.assoc starts_with_iff_append)
  then have "trim_start (trim_end ?u) = trim_end ?u"
    by (simp add: trim_start_def trim_by_fixed)
  then show ?thesis by (simp add: trim_def)
qed

section \<open>Lemmas on vectors\<close>

lemma update_first_append_not: "\<forall>x \<in> set xs. \<not> p x \<Longrightarrow> update_first p f (xs @ ys) = xs @ update_first p f ys"
  by (induction xs) auto

lemma length_update_first [simp]: "length (update_first p f xs) = length xs"
  by (induction xs) auto

lemma map_update_first: "(\<And>x. g (f x) = g x) \<Longrightarrow> map g (update_first p f xs) = map g xs"
  by (induction xs) auto

lemma update_first_no [simp]: "\<forall>x \<in> set xs. \<not> p x \<Longrightarrow> update_first p f xs = xs"
  by (induction xs) auto

lemma set_update_first_subset: "set (update_first p f xs) \<subseteq> set xs \<union> f ` {x \<in> set xs. p x}"
  by (induction xs) auto

lemma find_update_first: "find p xs = Some x \<Longrightarrow> f x \<in> set (update_first p f xs)"
  by (induction xs) (auto split: if_splits)

lemma find_Some_mem: "find p xs = Some x \<Longrightarrow> x \<in> set xs \<and> p x"
  by (auto simp: find_Some_iff)

lemma fold_max_ge: "a \<le> fold max xs (a :: u64)"
proof (induction xs arbitrary: a)
  case (Cons x xs)
  have "a \<le> max x a" by simp
  also have "\<dots> \<le> fold max xs (max x a)" by (rule Cons.IH)
  finally show ?case by simp
qed simp

lemma fold_max_mem_le: "x \<in> set xs \<Longrightarrow> (x :: u64) \<le> fold max xs a"
  by (induction xs arbitrary: a) (auto intro: order_trans [OF _ fold_max_ge])

lemma max_or_0_ge: "x \<in> set xs \<Longrightarrow> x \<le> max_or_0 xs"
  by (simp add: max_or_0_def fold_max_mem_le)

text \<open>Moving the elements that satisfy \<open>p\<close> from one table to another keeps the keys distinct.\<close>

lemma mset_partition: "mset (map g (filter (\<lambda>r. \<not> p r) cs)) + mset (map g (filter p cs)) = mset (map g cs)"
  by (induction cs) auto

lemma distinct_compact:
  assumes "distinct (map g cs @ map h ts)" "\<And>r. h (k r) = g r"
  shows "distinct (map g (filter (\<lambda>r. \<not> p r) cs) @ map h (ts @ map k (filter p cs)))"
proof -
  have "mset (map g (filter (\<lambda>r. \<not> p r) cs) @ map h (ts @ map k (filter p cs))) = mset (map g cs @ map h ts)"
    using assms(2) mset_partition[of g p cs] by (simp add: comp_def)
  then show ?thesis using assms(1) by (metis mset_eq_imp_distinct_iff)
qed

end
