(* ===== verification/Role_Status.thy ===== *)
theory Role_Status
  imports North_Prelude
begin

text \<open>
  \<open>north-domain/src/role.rs\<close> and \<open>north-domain/src/status.rs\<close>: instance roles with the
  central permission rules, and the requirement lifecycle graph.

  The lemmas give the exact set of accepted role assignments, the order on roles along
  which the permissions grow (an instance of the library's \<open>linorder\<close>), and the shape of
  the lifecycle graph: which states are terminal and which edges enter \<open>Ready\<close>.
\<close>

section \<open>Roles\<close>

datatype role = Owner | Admin | RequirementManager | Requester

datatype role_error = NotAuthorized | OwnerGrantRequiresOwner | SelfModification

fun can_review :: "role \<Rightarrow> bool" where
  "can_review Owner = True"
| "can_review Admin = True"
| "can_review RequirementManager = True"
| "can_review Requester = False"

fun can_administer :: "role \<Rightarrow> bool" where
  "can_administer Owner = True"
| "can_administer Admin = True"
| "can_administer _ = False"

definition assign_role :: "role \<Rightarrow> bool \<Rightarrow> role \<Rightarrow> role_error + unit" where
  "assign_role actor actor_is_target new_role =
     (if actor_is_target then Inl SelfModification
      else (case actor of
              Owner \<Rightarrow> Inr ()
            | Admin \<Rightarrow> if new_role \<noteq> Owner then Inr () else Inl OwnerGrantRequiresOwner
            | _ \<Rightarrow> Inl NotAuthorized))"

text \<open>The order of the roles, highest first in the source: the rank of a role.\<close>

fun role_rank :: "role \<Rightarrow> nat" where
  "role_rank Owner = 3"
| "role_rank Admin = 2"
| "role_rank RequirementManager = 1"
| "role_rank Requester = 0"

section \<open>Lifecycle states\<close>

datatype requirement_status = Draft | Discussing | Ready | Accepted | Rejected

fun status_as_str :: "requirement_status \<Rightarrow> string" where
  "status_as_str Draft = ''draft''"
| "status_as_str Discussing = ''discussing''"
| "status_as_str Ready = ''ready''"
| "status_as_str Accepted = ''accepted''"
| "status_as_str Rejected = ''rejected''"

fun can_transition_to :: "requirement_status \<Rightarrow> requirement_status \<Rightarrow> bool" where
  "can_transition_to Draft Discussing = True"
| "can_transition_to Discussing Ready = True"
| "can_transition_to Ready Discussing = True"
| "can_transition_to Ready Accepted = True"
| "can_transition_to Ready Rejected = True"
| "can_transition_to Rejected Discussing = True"
| "can_transition_to _ _ = False"

record invalid_transition =
  it_from :: requirement_status
  it_to :: requirement_status

section \<open>Roles are linearly ordered\<close>

lemma role_rank_inject: "role_rank a = role_rank b \<Longrightarrow> a = b"
  by (cases a; cases b) auto

instantiation role :: linorder
begin

definition less_eq_role :: "role \<Rightarrow> role \<Rightarrow> bool" where
  "less_eq_role a b \<longleftrightarrow> role_rank a \<le> role_rank b"

definition less_role :: "role \<Rightarrow> role \<Rightarrow> bool" where
  "less_role a b \<longleftrightarrow> role_rank a < role_rank b"

instance
  by standard (auto simp: less_eq_role_def less_role_def intro: role_rank_inject)

end

lemma permissions_mono:
  "(a :: role) \<le> b \<Longrightarrow> can_review a \<Longrightarrow> can_review b"
  "a \<le> b \<Longrightarrow> can_administer a \<Longrightarrow> can_administer b"
  by (cases a; cases b; simp add: less_eq_role_def)+

lemma assign_role_Inr_iff:
  "assign_role actor self new = Inr () \<longleftrightarrow> \<not> self \<and> can_administer actor \<and> (new = Owner \<longrightarrow> actor = Owner)"
  by (cases actor) (auto simp: assign_role_def)

text \<open>Role assignment never escalates: an assignment is accepted exactly when the
  actor is not the target, may administer, and the granted role is not above the actor's
  own; every refusal names its cause, self-modification first, and a role that may not
  administer is refused whatever it grants.\<close>

theorem assign_role_no_escalation:
  "(assign_role actor self new = Inr () \<longleftrightarrow> \<not> self \<and> can_administer actor \<and> new \<le> actor)
   \<and> (assign_role actor self new = Inl SelfModification \<longleftrightarrow> self)
   \<and> (assign_role actor self new = Inl OwnerGrantRequiresOwner \<longleftrightarrow> \<not> self \<and> actor = Admin \<and> actor < new)
   \<and> (assign_role actor self new = Inl NotAuthorized \<longleftrightarrow> \<not> self \<and> \<not> can_administer actor)"
  by (cases actor; cases new) (auto simp: assign_role_def less_eq_role_def less_role_def)

section \<open>The lifecycle graph\<close>

lemma status_as_str_inject: "status_as_str a = status_as_str b \<longleftrightarrow> a = b"
  by (cases a; cases b) simp_all

lemma can_transition_iff:
  "can_transition_to a b \<longleftrightarrow>
     (a, b) \<in> {(Draft, Discussing), (Discussing, Ready), (Ready, Discussing), (Ready, Accepted),
               (Ready, Rejected), (Rejected, Discussing)}"
  by (cases a; cases b) simp_all

lemma can_transition_irrefl: "\<not> can_transition_to a a"
  by (cases a) simp_all

lemma accepted_terminal: "\<not> can_transition_to Accepted s"
  by (cases s) simp_all

lemma ready_entry: "can_transition_to s Ready \<longleftrightarrow> s = Discussing"
  by (cases s) simp_all

lemma draft_initial: "\<not> can_transition_to s Draft"
  by (cases s) simp_all

end
