(* ===== verification/Requirement_Domain.thy ===== *)
theory Requirement_Domain
  imports Role_Status
begin

text \<open>
  \<open>north-domain/src/requirement.rs\<close> and \<open>north-domain/src/readiness.rs\<close>: the requirement
  aggregate with its two version tokens, and the review packet projected from it.

  A method that takes \<open>&mut self\<close> is a function to the pair of its result and the
  aggregate afterwards, so that what a refused operation leaves behind is part of the
  model. The locale \<open>aggregate_operation\<close> states the contract every operation of the
  aggregate has (an error changes nothing; a success is a no-op or one version step along
  an edge of the lifecycle graph); it is interpreted for each of the seven operations.
  Over whole histories the theory proves that \<open>Ready\<close> always rests on an assessment of
  the current revision, that such a requirement can be projected for review, and that the
  evidence becomes unusable with the first change after it.
\<close>

section \<open>Readiness assessments (readiness.rs)\<close>

datatype verdict = VerdictReady | NeedsClarification

record reviewed_repository =
  rr_repository_id :: string
  rr_commit_sha :: string

record readiness_assessment =
  ra_requirement_revision :: u64
  ra_verdict :: verdict
  ra_blockers :: "string list"
  ra_assumptions :: "string list"
  ra_repositories_reviewed :: "reviewed_repository list"
  ra_assessed_at_ms :: u64

record accepted_readiness_assessment =
  ev_id :: string
  ev_state_version :: u64
  ev_assessment :: readiness_assessment

section \<open>The aggregate (requirement.rs)\<close>

record requirement =
  req_id :: string
  req_title :: string
  req_description :: string
  req_summary :: string
  req_acceptance_criteria :: "string list"
  req_assumptions :: "string list"
  req_open_questions :: "string list"
  req_status :: requirement_status
  req_revision :: u64
  req_state_version :: u64
  req_created_by :: string

record persisted_requirement =
  per_id :: string
  per_title :: string
  per_description :: string
  per_summary :: string
  per_acceptance_criteria :: "string list"
  per_assumptions :: "string list"
  per_open_questions :: "string list"
  per_status :: requirement_status
  per_revision :: u64
  per_state_version :: u64
  per_created_by :: string

record requirement_edit =
  edit_title :: "string option"
  edit_description :: "string option"
  edit_summary :: "string option"
  edit_acceptance_criteria :: "string list option"
  edit_assumptions :: "string list option"
  edit_open_questions :: "string list option"

datatype restore_error = InvalidRevision | InvalidStateVersion

datatype mark_ready_error =
    MR_StaleAssessment u64 u64
  | VerdictNotReady
  | BlockersPresent
  | MissingAcceptanceCriteria
  | MR_Transition invalid_transition

datatype edit_error = StateForbidsEdit requirement_status | VersionExhausted

definition new_requirement :: "string \<Rightarrow> string \<Rightarrow> string \<Rightarrow> string \<Rightarrow> requirement" where
  "new_requirement rid title description created_by =
     \<lparr>req_id = rid, req_title = title, req_description = description, req_summary = [],
      req_acceptance_criteria = [], req_assumptions = [], req_open_questions = [],
      req_status = Draft, req_revision = 1, req_state_version = 1, req_created_by = created_by\<rparr>"

definition from_persisted :: "persisted_requirement \<Rightarrow> restore_error + requirement" where
  "from_persisted p =
     (if per_revision p = 0 then Inl InvalidRevision
      else if per_state_version p = 0 then Inl InvalidStateVersion
      else Inr \<lparr>req_id = per_id p, req_title = per_title p, req_description = per_description p,
                req_summary = per_summary p, req_acceptance_criteria = per_acceptance_criteria p,
                req_assumptions = per_assumptions p, req_open_questions = per_open_questions p,
                req_status = per_status p, req_revision = per_revision p,
                req_state_version = per_state_version p, req_created_by = per_created_by p\<rparr>)"

definition transition_from ::
  "requirement_status \<Rightarrow> requirement_status \<Rightarrow> requirement \<Rightarrow> (invalid_transition + unit) \<times> requirement" where
  "transition_from expected_source target r =
     (if req_status r \<noteq> expected_source \<or> \<not> can_transition_to (req_status r) target
      then (Inl \<lparr>it_from = req_status r, it_to = target\<rparr>, r)
      else (case checked_inc (req_state_version r) of
              None \<Rightarrow> (Inl \<lparr>it_from = req_status r, it_to = target\<rparr>, r)
            | Some v \<Rightarrow> (Inr (), r\<lparr>req_status := target, req_state_version := v\<rparr>)))"

definition begin_discussion :: "requirement \<Rightarrow> (invalid_transition + unit) \<times> requirement" where
  "begin_discussion = transition_from Draft Discussing"

definition has_criteria :: "requirement \<Rightarrow> bool" where
  "has_criteria r \<longleftrightarrow> \<not> list_all blank (req_acceptance_criteria r)"

definition mark_ready ::
  "readiness_assessment \<Rightarrow> requirement \<Rightarrow> (mark_ready_error + unit) \<times> requirement" where
  "mark_ready a r =
     (if req_status r \<noteq> Discussing
      then (Inl (MR_Transition \<lparr>it_from = req_status r, it_to = Ready\<rparr>), r)
      else if ra_requirement_revision a \<noteq> req_revision r
      then (Inl (MR_StaleAssessment (ra_requirement_revision a) (req_revision r)), r)
      else if ra_verdict a \<noteq> VerdictReady then (Inl VerdictNotReady, r)
      else if ra_blockers a \<noteq> [] then (Inl BlockersPresent, r)
      else if list_all blank (req_acceptance_criteria r) then (Inl MissingAcceptanceCriteria, r)
      else (let (res, r') = transition_from Discussing Ready r in (map_err MR_Transition res, r')))"

definition accept :: "requirement \<Rightarrow> (invalid_transition + unit) \<times> requirement" where
  "accept = transition_from Ready Accepted"

definition reject :: "requirement \<Rightarrow> (invalid_transition + unit) \<times> requirement" where
  "reject = transition_from Ready Rejected"

definition request_changes :: "requirement \<Rightarrow> (invalid_transition + unit) \<times> requirement" where
  "request_changes = transition_from Ready Discussing"

definition reopen :: "requirement \<Rightarrow> (invalid_transition + unit) \<times> requirement" where
  "reopen = transition_from Rejected Discussing"

definition unwrap_or :: "'a option \<Rightarrow> 'a \<Rightarrow> 'a" where
  "unwrap_or opt d = (case opt of None \<Rightarrow> d | Some v \<Rightarrow> v)"

definition apply_edit :: "requirement_edit \<Rightarrow> requirement \<Rightarrow> (edit_error + u64) \<times> requirement" where
  "apply_edit e r =
     (if req_status r = Accepted \<or> req_status r = Rejected
      then (Inl (StateForbidsEdit (req_status r)), r)
      else
        let title = unwrap_or (edit_title e) (req_title r);
            description = unwrap_or (edit_description e) (req_description r);
            summary = unwrap_or (edit_summary e) (req_summary r);
            criteria = unwrap_or (edit_acceptance_criteria e) (req_acceptance_criteria r);
            assumptions = unwrap_or (edit_assumptions e) (req_assumptions r);
            open = unwrap_or (edit_open_questions e) (req_open_questions r)
        in if title = req_title r \<and> description = req_description r \<and> summary = req_summary r
              \<and> criteria = req_acceptance_criteria r \<and> assumptions = req_assumptions r
              \<and> open = req_open_questions r
           then (Inr (req_revision r), r)
           else (case checked_inc (req_revision r) of
                   None \<Rightarrow> (Inl VersionExhausted, r)
                 | Some revision \<Rightarrow>
                     (case checked_inc (req_state_version r) of
                        None \<Rightarrow> (Inl VersionExhausted, r)
                      | Some v \<Rightarrow>
                          (Inr revision,
                           r\<lparr>req_title := title, req_description := description,
                             req_summary := summary, req_acceptance_criteria := criteria,
                             req_assumptions := assumptions, req_open_questions := open,
                             req_revision := revision, req_state_version := v,
                             req_status := if req_status r = Ready then Discussing
                                           else req_status r\<rparr>))))"

section \<open>Review packets (readiness.rs)\<close>

datatype packet_error =
    PE_StaleAssessment u64 u64
  | PE_StaleStateVersion u64 u64
  | InvalidAssessmentIdentity
  | NotReady
  | InvalidAssessment

record review_packet =
  rp_assessment_id :: string
  rp_requirement_revision :: u64
  rp_requirement_state_version :: u64
  rp_goal :: string
  rp_scope :: string
  rp_summary :: string
  rp_acceptance_criteria :: "string list"
  rp_assumptions :: "string list"
  rp_open_questions :: "string list"
  rp_blockers :: "string list"
  rp_assessment_assumptions :: "string list"
  rp_repositories_reviewed :: "reviewed_repository list"

definition project_packet ::
  "requirement \<Rightarrow> accepted_readiness_assessment \<Rightarrow> packet_error + review_packet" where
  "project_packet r ev =
     (let a = ev_assessment ev in
      if blank (ev_id ev) then Inl InvalidAssessmentIdentity
      else if ra_requirement_revision a \<noteq> req_revision r
      then Inl (PE_StaleAssessment (ra_requirement_revision a) (req_revision r))
      else if ev_state_version ev \<noteq> req_state_version r
      then Inl (PE_StaleStateVersion (ev_state_version ev) (req_state_version r))
      else if req_status r \<noteq> Ready then Inl NotReady
      else if ra_verdict a \<noteq> VerdictReady \<or> ra_blockers a \<noteq> []
              \<or> list_all blank (req_acceptance_criteria r)
      then Inl InvalidAssessment
      else Inr \<lparr>rp_assessment_id = ev_id ev, rp_requirement_revision = req_revision r,
                rp_requirement_state_version = req_state_version r, rp_goal = req_title r,
                rp_scope = req_description r, rp_summary = req_summary r,
                rp_acceptance_criteria = req_acceptance_criteria r,
                rp_assumptions = req_assumptions r, rp_open_questions = req_open_questions r,
                rp_blockers = ra_blockers a, rp_assessment_assumptions = ra_assumptions a,
                rp_repositories_reviewed = ra_repositories_reviewed a\<rparr>)"

section \<open>The contract of an operation of the aggregate\<close>

definition content ::
  "requirement \<Rightarrow> string \<times> string \<times> string \<times> string list \<times> string list \<times> string list" where
  "content r = (req_title r, req_description r, req_summary r, req_acceptance_criteria r,
                req_assumptions r, req_open_questions r)"

text \<open>One version step: the state version grows by one without wrapping, and either the
  status moves along an edge of the lifecycle graph with the content untouched, or the
  content changes with the revision and a \<open>Ready\<close> requirement is demoted.\<close>

definition version_step :: "requirement \<Rightarrow> requirement \<Rightarrow> bool" where
  "version_step r r' \<longleftrightarrow>
     req_id r' = req_id r \<and> req_created_by r' = req_created_by r \<and>
     unat (req_state_version r') = Suc (unat (req_state_version r)) \<and>
     (content r' = content r \<and> req_revision r' = req_revision r
        \<and> can_transition_to (req_status r) (req_status r')
      \<or> content r' \<noteq> content r \<and> unat (req_revision r') = Suc (unat (req_revision r))
        \<and> req_status r \<notin> {Accepted, Rejected}
        \<and> req_status r' = (if req_status r = Ready then Discussing else req_status r))"

locale aggregate_operation =
  fixes op :: "requirement \<Rightarrow> ('e + 'a) \<times> requirement"
  assumes op_err: "op r = (Inl e, r') \<Longrightarrow> r' = r"
    and op_ok: "op r = (Inr a, r') \<Longrightarrow> r' = r \<or> version_step r r'"
begin

lemma op_cases: "snd (op r) = r \<or> version_step r (snd (op r)) \<and> (\<exists>a. fst (op r) = Inr a)"
proof (cases "op r")
  case (Pair res r')
  then show ?thesis using op_err op_ok by (cases res) auto
qed

lemma op_changed_Inr: "snd (op r) \<noteq> r \<Longrightarrow> \<exists>a. op r = (Inr a, snd (op r))"
  using op_cases [of r] by (metis prod.collapse)

end

lemma transition_from_eq:
  "transition_from s t r =
     (if req_status r = s \<and> can_transition_to s t \<and> req_state_version r \<noteq> u64_max
      then (Inr (), r\<lparr>req_status := t, req_state_version := req_state_version r + 1\<rparr>)
      else (Inl \<lparr>it_from = req_status r, it_to = t\<rparr>, r))"
  by (auto simp: transition_from_def checked_inc_def)

lemma transition_from_operation: "aggregate_operation (transition_from s t)"
proof
  fix r e r'
  assume "transition_from s t r = (Inl e, r')"
  then show "r' = r" by (simp add: transition_from_eq split: if_splits)
next
  fix r u r'
  assume "transition_from s t r = (Inr u, r')"
  then have "req_status r = s" "can_transition_to s t" "req_state_version r \<noteq> u64_max"
    and "r' = r\<lparr>req_status := t, req_state_version := req_state_version r + 1\<rparr>"
    by (simp_all add: transition_from_eq split: if_splits)
  then show "r' = r \<or> version_step r r'"
    by (simp add: version_step_def content_def unat_inc)
qed

interpretation begin_op: aggregate_operation begin_discussion
  unfolding begin_discussion_def by (rule transition_from_operation)

interpretation accept_op: aggregate_operation accept
  unfolding accept_def by (rule transition_from_operation)

interpretation reject_op: aggregate_operation reject
  unfolding reject_def by (rule transition_from_operation)

interpretation changes_op: aggregate_operation request_changes
  unfolding request_changes_def by (rule transition_from_operation)

interpretation reopen_op: aggregate_operation reopen
  unfolding reopen_def by (rule transition_from_operation)

text \<open>The hard gates of \<open>mark_ready\<close>.\<close>

definition ready_gates :: "readiness_assessment \<Rightarrow> requirement \<Rightarrow> bool" where
  "ready_gates a r \<longleftrightarrow>
     req_status r = Discussing \<and> ra_requirement_revision a = req_revision r
     \<and> ra_verdict a = VerdictReady \<and> ra_blockers a = [] \<and> has_criteria r"

lemma mark_ready_gated:
  "ready_gates a r \<Longrightarrow>
     mark_ready a r = (map_err MR_Transition (fst (transition_from Discussing Ready r)),
                       snd (transition_from Discussing Ready r))"
  by (simp add: mark_ready_def ready_gates_def has_criteria_def case_prod_beta)

lemma mark_ready_refused: "\<not> ready_gates a r \<Longrightarrow> \<exists>e. mark_ready a r = (Inl e, r)"
  by (auto simp: mark_ready_def ready_gates_def has_criteria_def)

lemma mark_ready_ok_iff:
  "mark_ready a r = (Inr (), r') \<longleftrightarrow>
     ready_gates a r \<and> req_state_version r \<noteq> u64_max
     \<and> r' = r\<lparr>req_status := Ready, req_state_version := req_state_version r + 1\<rparr>"
proof (cases "ready_gates a r")
  case True
  then have "req_status r = Discussing" by (simp add: ready_gates_def)
  with True show ?thesis by (auto simp: mark_ready_gated transition_from_eq)
next
  case False
  then show ?thesis using mark_ready_refused by fastforce
qed

interpretation ready_op: aggregate_operation "mark_ready a"
proof
  fix r e r'
  assume "mark_ready a r = (Inl e, r')"
  then show "r' = r"
    by (cases "ready_gates a r")
       (auto simp: mark_ready_gated transition_from_eq dest: mark_ready_refused split: if_splits)
next
  fix r u r'
  assume "mark_ready a r = (Inr u, r')"
  then show "r' = r \<or> version_step r r'"
    by (auto simp: mark_ready_ok_iff version_step_def content_def ready_gates_def unat_inc)
qed

definition edited :: "requirement_edit \<Rightarrow> requirement \<Rightarrow> requirement" where
  "edited e r =
     r\<lparr>req_title := unwrap_or (edit_title e) (req_title r),
       req_description := unwrap_or (edit_description e) (req_description r),
       req_summary := unwrap_or (edit_summary e) (req_summary r),
       req_acceptance_criteria := unwrap_or (edit_acceptance_criteria e) (req_acceptance_criteria r),
       req_assumptions := unwrap_or (edit_assumptions e) (req_assumptions r),
       req_open_questions := unwrap_or (edit_open_questions e) (req_open_questions r)\<rparr>"

lemma apply_edit_eq:
  "apply_edit e r =
     (if req_status r \<in> {Accepted, Rejected} then (Inl (StateForbidsEdit (req_status r)), r)
      else if content (edited e r) = content r then (Inr (req_revision r), r)
      else if req_revision r = u64_max \<or> req_state_version r = u64_max then (Inl VersionExhausted, r)
      else (Inr (req_revision r + 1),
            (edited e r)\<lparr>req_revision := req_revision r + 1,
                         req_state_version := req_state_version r + 1,
                         req_status := if req_status r = Ready then Discussing else req_status r\<rparr>))"
  by (auto simp: apply_edit_def edited_def content_def Let_def checked_inc_def)

interpretation edit_op: aggregate_operation "apply_edit e"
proof
  fix r err r'
  assume "apply_edit e r = (Inl err, r')"
  then show "r' = r" by (simp add: apply_edit_eq split: if_splits)
next
  fix r u r'
  assume ok: "apply_edit e r = (Inr u, r')"
  show "r' = r \<or> version_step r r'"
  proof (cases "content (edited e r) = content r")
    case True
    with ok show ?thesis by (simp add: apply_edit_eq split: if_splits)
  next
    case False
    with ok have "req_status r \<notin> {Accepted, Rejected}" "req_revision r \<noteq> u64_max"
      "req_state_version r \<noteq> u64_max"
      and r': "r' = (edited e r)\<lparr>req_revision := req_revision r + 1,
                         req_state_version := req_state_version r + 1,
                         req_status := if req_status r = Ready then Discussing else req_status r\<rparr>"
      by (auto simp: apply_edit_eq split: if_splits)
    moreover have "content r' = content (edited e r)" "req_id r' = req_id r"
      "req_created_by r' = req_created_by r"
      by (simp_all add: r' content_def edited_def)
    ultimately show ?thesis using False
      by (simp add: version_step_def unat_inc)
  qed
qed

section \<open>Histories\<close>

datatype domain_op =
    OpBeginDiscussion
  | OpMarkReady readiness_assessment
  | OpAccept
  | OpReject
  | OpRequestChanges
  | OpReopen
  | OpApplyEdit requirement_edit

fun run_op :: "domain_op \<Rightarrow> requirement \<Rightarrow> requirement" where
  "run_op OpBeginDiscussion r = snd (begin_discussion r)"
| "run_op (OpMarkReady a) r = snd (mark_ready a r)"
| "run_op OpAccept r = snd (accept r)"
| "run_op OpReject r = snd (reject r)"
| "run_op OpRequestChanges r = snd (request_changes r)"
| "run_op OpReopen r = snd (reopen r)"
| "run_op (OpApplyEdit e) r = snd (apply_edit e r)"

fun run_ops :: "domain_op list \<Rightarrow> requirement \<Rightarrow> requirement" where
  "run_ops [] r = r"
| "run_ops (x # xs) r = run_ops xs (run_op x r)"

text \<open>The reachable requirements, with the assessment that last moved the requirement to
  \<open>Ready\<close> and the state version it reached: what persistence stores as accepted evidence.\<close>

inductive reachable :: "requirement \<Rightarrow> (readiness_assessment \<times> u64) option \<Rightarrow> bool" where
  reach_new: "reachable (new_requirement i t d c) None"
| reach_ready: "reachable r g \<Longrightarrow> mark_ready a r = (Inr (), r') \<Longrightarrow>
     reachable r' (Some (a, req_state_version r'))"
| reach_op: "reachable r g \<Longrightarrow> (\<forall>a. op \<noteq> OpMarkReady a) \<Longrightarrow> reachable (run_op op r) g"

definition evidence :: "string \<Rightarrow> readiness_assessment \<times> u64 \<Rightarrow> accepted_readiness_assessment" where
  "evidence i av = \<lparr>ev_id = i, ev_state_version = snd av, ev_assessment = fst av\<rparr>"

definition rests_on :: "requirement \<Rightarrow> readiness_assessment \<times> u64 \<Rightarrow> bool" where
  "rests_on r av \<longleftrightarrow>
     ra_requirement_revision (fst av) = req_revision r \<and> ra_verdict (fst av) = VerdictReady
     \<and> ra_blockers (fst av) = [] \<and> snd av = req_state_version r \<and> has_criteria r"

lemma run_op_cases: "run_op op r = r \<or> version_step r (run_op op r)"
  using begin_op.op_cases [of r] accept_op.op_cases [of r] reject_op.op_cases [of r]
    changes_op.op_cases [of r] reopen_op.op_cases [of r] ready_op.op_cases [of _ r]
    edit_op.op_cases [of _ r]
  by (cases op) auto

lemma version_step_sv: "version_step r r' \<Longrightarrow> req_state_version r < req_state_version r'"
  by (simp add: version_step_def word_less_nat_alt)

lemma version_step_rev: "version_step r r' \<Longrightarrow> req_revision r \<le> req_revision r'"
  by (auto simp: version_step_def word_le_nat_alt)

lemma version_step_content:
  "version_step r r' \<Longrightarrow> content r' = content r \<longleftrightarrow> req_revision r' = req_revision r"
  by (auto simp: version_step_def)

lemma run_op_sv_mono: "req_state_version r \<le> req_state_version (run_op op r)"
  using run_op_cases [of op r] version_step_sv by (metis order.strict_implies_order order_refl)

lemma run_op_rev_mono: "req_revision r \<le> req_revision (run_op op r)"
  using run_op_cases [of op r] version_step_rev [of r] by auto

lemma run_ops_sv_mono: "req_state_version r \<le> req_state_version (run_ops ops r)"
  by (induction ops arbitrary: r) (auto intro: order_trans [OF run_op_sv_mono])

lemma run_ops_rev_mono: "req_revision r \<le> req_revision (run_ops ops r)"
  by (induction ops arbitrary: r) (auto intro: order_trans [OF run_op_rev_mono])

lemma run_ops_changed: "run_ops ops r \<noteq> r \<Longrightarrow> req_state_version r < req_state_version (run_ops ops r)"
proof (induction ops arbitrary: r)
  case (Cons op ops)
  show ?case
  proof (cases "run_op op r = r")
    case True
    with Cons show ?thesis by simp
  next
    case False
    then have "req_state_version r < req_state_version (run_op op r)"
      using run_op_cases [of op r] version_step_sv by blast
    also have "\<dots> \<le> req_state_version (run_ops ops (run_op op r))" by (rule run_ops_sv_mono)
    finally show ?thesis by simp
  qed
qed simp

lemma ready_needs_mark_ready:
  "req_status (run_op op r) = Ready \<Longrightarrow> (\<forall>a. op \<noteq> OpMarkReady a) \<Longrightarrow> run_op op r = r"
  by (cases op)
     (auto simp: begin_discussion_def accept_def reject_def request_changes_def reopen_def
        transition_from_eq apply_edit_eq split: if_splits)

lemma ready_has_evidence:
  "reachable r g \<Longrightarrow> req_status r = Ready \<Longrightarrow> \<exists>av. g = Some av \<and> rests_on r av"
proof (induction rule: reachable.induct)
  case (reach_new i t d c)
  then show ?case by (simp add: new_requirement_def)
next
  case (reach_ready r g a r')
  then show ?case
    by (auto simp: mark_ready_ok_iff rests_on_def ready_gates_def has_criteria_def)
next
  case (reach_op r g op)
  then show ?case using ready_needs_mark_ready by metis
qed

lemma project_packet_Inr_iff:
  "(\<exists>p. project_packet r (evidence i av) = Inr p) \<longleftrightarrow>
     \<not> blank i \<and> req_status r = Ready \<and> rests_on r av"
  by (auto simp: project_packet_def evidence_def rests_on_def has_criteria_def Let_def)

text \<open>C8. In every history of a requirement created by \<open>Requirement::new\<close>, whatever the order
  of the operations and of their refusals, a requirement that is \<open>Ready\<close> rests on an
  assessment with a Ready verdict and no blockers for its current revision and state
  version, and it has a non-blank acceptance criterion; so the evidence persistence
  recorded projects to a review packet exactly while the requirement is \<open>Ready\<close>.\<close>

theorem ready_iff_reviewable:
  assumes "reachable r g" and "\<not> blank i"
  shows "req_status r = Ready \<longleftrightarrow> (\<exists>av p. g = Some av \<and> rests_on r av \<and> project_packet r (evidence i av) = Inr p)"
proof
  assume ready: "req_status r = Ready"
  then obtain av where "g = Some av" "rests_on r av"
    using ready_has_evidence [OF assms(1)] by blast
  moreover with ready assms(2) obtain p where "project_packet r (evidence i av) = Inr p"
    using project_packet_Inr_iff by metis
  ultimately show "\<exists>av p. g = Some av \<and> rests_on r av \<and> project_packet r (evidence i av) = Inr p"
    by blast
next
  assume "\<exists>av p. g = Some av \<and> rests_on r av \<and> project_packet r (evidence i av) = Inr p"
  then show "req_status r = Ready" using project_packet_Inr_iff by blast
qed

definition sample_draft :: requirement where
  "sample_draft = new_requirement ''r1'' ''Login page'' ''Email-code login.'' ''u1''"

definition sample_edit :: requirement_edit where
  "sample_edit = \<lparr>edit_title = None, edit_description = None, edit_summary = None,
     edit_acceptance_criteria = Some [''code arrives''], edit_assumptions = None, edit_open_questions = None\<rparr>"

definition sample_assessment :: readiness_assessment where
  "sample_assessment = \<lparr>ra_requirement_revision = 2, ra_verdict = VerdictReady, ra_blockers = [],
     ra_assumptions = [], ra_repositories_reviewed = [], ra_assessed_at_ms = 42\<rparr>"

definition sample_discussing :: requirement where
  "sample_discussing = run_ops [OpBeginDiscussion, OpApplyEdit sample_edit] sample_draft"

definition sample_ready :: requirement where
  "sample_ready = run_op (OpMarkReady sample_assessment) sample_discussing"

lemma sample_ready_step: "mark_ready sample_assessment sample_discussing = (Inr (), sample_ready)"
  by code_simp

lemma sample_discussing_reachable: "reachable sample_discussing None"
  using reach_op [OF reach_op [OF reach_new, of OpBeginDiscussion], of "OpApplyEdit sample_edit"]
  by (simp add: sample_discussing_def sample_draft_def)

theorem ready_iff_reviewable_witness:
  "reachable sample_ready (Some (sample_assessment, req_state_version sample_ready)) \<and> \<not> blank ''a1''
   \<and> (\<exists>p. project_packet sample_ready (evidence ''a1'' (sample_assessment, 4)) = Inr p)"
proof -
  have reach: "reachable sample_ready (Some (sample_assessment, req_state_version sample_ready))"
    by (rule reach_ready [OF sample_discussing_reachable sample_ready_step])
  moreover have nb: "\<not> blank ''a1''" by code_simp
  moreover have "req_status sample_ready = Ready" "req_state_version sample_ready = 4" by code_simp+
  ultimately show ?thesis
    using ready_iff_reviewable [OF reach nb] by auto
qed

text \<open>A review packet is never stale: once any operation has changed the requirement after
  a packet was projected, the same evidence is refused as stale, however many operations
  follow and whatever they are.\<close>

theorem stale_packet_refused:
  assumes "project_packet r ev = Inr p" and "run_ops ops r \<noteq> r"
  shows "project_packet (run_ops ops r) ev =
           (if req_revision (run_ops ops r) \<noteq> req_revision r
            then Inl (PE_StaleAssessment (req_revision r) (req_revision (run_ops ops r)))
            else Inl (PE_StaleStateVersion (req_state_version r) (req_state_version (run_ops ops r))))"
proof -
  have "\<not> blank (ev_id ev)" "ra_requirement_revision (ev_assessment ev) = req_revision r"
    "ev_state_version ev = req_state_version r"
    using assms(1) by (auto simp: project_packet_def Let_def split: if_splits)
  moreover have "req_state_version r \<noteq> req_state_version (run_ops ops r)"
    using run_ops_changed [OF assms(2)] by auto
  ultimately show ?thesis by (auto simp: project_packet_def Let_def)
qed

theorem stale_packet_refused_witness:
  "(\<exists>p. project_packet sample_ready (evidence ''a1'' (sample_assessment, 4)) = Inr p)
   \<and> run_ops [OpRequestChanges] sample_ready \<noteq> sample_ready
   \<and> project_packet (run_ops [OpRequestChanges] sample_ready) (evidence ''a1'' (sample_assessment, 4))
       = Inl (PE_StaleStateVersion 4 5)"
proof -
  have "\<not> blank ''a1'' \<and> req_status sample_ready = Ready \<and> rests_on sample_ready (sample_assessment, 4)"
    by code_simp
  then obtain p where p: "project_packet sample_ready (evidence ''a1'' (sample_assessment, 4)) = Inr p"
    using project_packet_Inr_iff by blast
  have changed: "run_ops [OpRequestChanges] sample_ready \<noteq> sample_ready" by code_simp
  have "req_revision (run_ops [OpRequestChanges] sample_ready) = req_revision sample_ready"
    "req_state_version sample_ready = 4"
    "req_state_version (run_ops [OpRequestChanges] sample_ready) = 5" by code_simp+
  with p changed show ?thesis
    using stale_packet_refused [OF p changed] by auto
qed

text \<open>The revision identifies the content: along any history, an equal revision means that
  the structured content is the same, and neither version token ever decreases or wraps
  around.\<close>

theorem revision_identifies_content:
  "(req_revision (run_ops ops r) = req_revision r \<longrightarrow> content (run_ops ops r) = content r)
   \<and> req_revision r \<le> req_revision (run_ops ops r)
   \<and> req_state_version r \<le> req_state_version (run_ops ops r)"
proof -
  have "req_revision (run_ops ops r) = req_revision r \<Longrightarrow> content (run_ops ops r) = content r"
  proof (induction ops arbitrary: r)
    case (Cons op ops)
    let ?r1 = "run_op op r"
    have le: "req_revision r \<le> req_revision ?r1" "req_revision ?r1 \<le> req_revision (run_ops ops ?r1)"
      by (rule run_op_rev_mono, rule run_ops_rev_mono)
    with Cons.prems have eq: "req_revision ?r1 = req_revision r" by simp
    with Cons.prems have "content (run_ops ops ?r1) = content ?r1" using Cons.IH by simp
    moreover have "content ?r1 = content r"
      using run_op_cases [of op r] eq version_step_content by metis
    ultimately show ?case by simp
  qed simp
  then show ?thesis by (auto intro: run_ops_rev_mono run_ops_sv_mono)
qed

theorem revision_identifies_content_witness:
  "req_revision (run_ops [OpBeginDiscussion, OpApplyEdit sample_edit, OpReject] sample_draft) = 2
   \<and> req_revision (run_ops [OpMarkReady sample_assessment, OpAccept] sample_discussing)
       = req_revision sample_discussing
   \<and> content (run_ops [OpMarkReady sample_assessment, OpAccept] sample_discussing) = content sample_discussing"
proof -
  have a: "req_revision (run_ops [OpBeginDiscussion, OpApplyEdit sample_edit, OpReject] sample_draft) = 2"
    by code_simp
  have b: "req_revision (run_ops [OpMarkReady sample_assessment, OpAccept] sample_discussing)
       = req_revision sample_discussing" by code_simp
  with a show ?thesis
    using revision_identifies_content [of "[OpMarkReady sample_assessment, OpAccept]" sample_discussing]
    by blast
qed

text \<open>Entering \<open>Ready\<close>: \<open>mark_ready\<close> succeeds exactly when every hard gate holds (status
  Discussing, an assessment of the current revision with a Ready verdict, no blockers, a
  non-blank criterion) and the state version can grow; it then changes only the status
  and the state version, and a refusal changes nothing and names the first gate that
  failed.\<close>

theorem mark_ready_gates:
  "mark_ready a r =
     (if ready_gates a r \<and> req_state_version r \<noteq> u64_max
      then (Inr (), r\<lparr>req_status := Ready, req_state_version := req_state_version r + 1\<rparr>)
      else (Inl (if req_status r \<noteq> Discussing then MR_Transition \<lparr>it_from = req_status r, it_to = Ready\<rparr>
                 else if ra_requirement_revision a \<noteq> req_revision r
                 then MR_StaleAssessment (ra_requirement_revision a) (req_revision r)
                 else if ra_verdict a \<noteq> VerdictReady then VerdictNotReady
                 else if ra_blockers a \<noteq> [] then BlockersPresent
                 else if \<not> has_criteria r then MissingAcceptanceCriteria
                 else MR_Transition \<lparr>it_from = Discussing, it_to = Ready\<rparr>), r))"
  by (auto simp: mark_ready_def ready_gates_def has_criteria_def transition_from_eq)

text \<open>Content edits: an edit of a terminal requirement is refused; otherwise the edit either
  leaves the requirement as it is (and reports the old revision) exactly when it changes
  no content, or bumps both versions by one, sets exactly the given fields and demotes
  \<open>Ready\<close> to \<open>Discussing\<close>; applying the same edit again is then a no-op.\<close>

theorem apply_edit_behaviour:
  assumes "apply_edit e r = (Inr v, r')"
  shows "req_status r \<notin> {Accepted, Rejected} \<and> v = req_revision r'
    \<and> content r' = content (edited e r)
    \<and> (r' = r \<longleftrightarrow> content (edited e r) = content r)
    \<and> (r' \<noteq> r \<longrightarrow> unat (req_revision r') = Suc (unat (req_revision r))
          \<and> unat (req_state_version r') = Suc (unat (req_state_version r))
          \<and> req_status r' = (if req_status r = Ready then Discussing else req_status r))
    \<and> apply_edit e r' = (Inr v, r')"
proof (cases "content (edited e r) = content r")
  case True
  with assms have "r' = r" "req_status r \<notin> {Accepted, Rejected}" "v = req_revision r"
    by (auto simp: apply_edit_eq split: if_splits)
  with True assms show ?thesis by auto
next
  case False
  with assms have st: "req_status r \<notin> {Accepted, Rejected}"
    and max: "req_revision r \<noteq> u64_max" "req_state_version r \<noteq> u64_max"
    and v: "v = req_revision r + 1"
    and r': "r' = (edited e r)\<lparr>req_revision := req_revision r + 1,
                     req_state_version := req_state_version r + 1,
                     req_status := if req_status r = Ready then Discussing else req_status r\<rparr>"
    by (auto simp: apply_edit_eq split: if_splits)
  have c: "content r' = content (edited e r)" by (simp add: r' content_def)
  have idem: "content (edited e r') = content r'"
    by (simp add: r' content_def edited_def unwrap_or_def split: option.splits)
  have "req_status r' \<notin> {Accepted, Rejected}" using st by (auto simp: r')
  then have "apply_edit e r' = (Inr v, r')"
    using idem by (simp add: apply_edit_eq) (simp add: r' v)
  moreover have "r' \<noteq> r" using False c by auto
  ultimately show ?thesis using st max False c by (auto simp: r' v unat_inc)
qed

theorem apply_edit_behaviour_witness:
  "apply_edit sample_edit sample_draft = (Inr 2, snd (apply_edit sample_edit sample_draft))
   \<and> apply_edit sample_edit (snd (apply_edit sample_edit sample_draft))
       = (Inr 2, snd (apply_edit sample_edit sample_draft))"
proof -
  have h: "apply_edit sample_edit sample_draft = (Inr 2, snd (apply_edit sample_edit sample_draft))"
    by code_simp
  then show ?thesis using apply_edit_behaviour [OF h] by blast
qed

end
