(* ===== verification/Wire_Protocol.thy ===== *)
theory Wire_Protocol
  imports North_Prelude
begin

text \<open>
  \<open>north-protocol/src/lib.rs\<close>: the wire types of the server/daemon protocol and their
  validation. Every frame type is a record or datatype with the source's fields, and every
  \<open>validate\<close> method a function whose checks stand in the source's order; a failed check is
  a value of \<open>validation_error\<close>, one constructor per message the source formats.

  JSON encoding (\<open>serde_json::to_string\<close>, \<open>from_str\<close>) is a parameter of \<open>to_json\<close> and
  \<open>from_json\<close>. The locale \<open>frame_codec\<close> states how a codec combines validation with such a
  serialiser, and is interpreted for server frames and for daemon frames.
\<close>

definition PROTOCOL_VERSION :: string where "PROTOCOL_VERSION = ''0.1''"
definition SCHEMA_VERSION :: u16 where "SCHEMA_VERSION = 1"

datatype validation_error =
    MustNotBeEmpty string
  | UnsupportedSchemaVersion u16
  | UnsupportedProtocolVersion string
  | MustStartAtOne string
  | IncompleteCommitSha
  | RejectedAckWithoutReason
  | AcceptedAckWithReason
  | SparseNotAboveWatermark
  | SparseNotAscending
  | DuplicateSessionId

datatype 'j frame_error = Json 'j | Validation validation_error

type_synonym check = "validation_error + unit"

section \<open>Field checks\<close>

definition complete_commit_sha :: "string \<Rightarrow> bool" where
  "complete_commit_sha v \<longleftrightarrow> length v \<in> {20 * 2, 32 * 2} \<and> list_all is_ascii_hexdigit v"

definition non_empty :: "string \<Rightarrow> string \<Rightarrow> check" where
  "non_empty field v = (if trim v = [] then Inl (MustNotBeEmpty field) else Inr ())"

definition schema :: "u16 \<Rightarrow> check" where
  "schema version =
     (if version \<noteq> SCHEMA_VERSION then Inl (UnsupportedSchemaVersion version) else Inr ())"

definition protocol :: "string \<Rightarrow> check" where
  "protocol version =
     (if version \<noteq> PROTOCOL_VERSION then Inl (UnsupportedProtocolVersion version) else Inr ())"

definition sequence_check :: "string \<Rightarrow> u64 \<Rightarrow> check" where
  "sequence_check field v = (if v = 0 then Inl (MustStartAtOne field) else Inr ())"

definition non_empty_list :: "string \<Rightarrow> string list \<Rightarrow> check" where
  "non_empty_list field vs = for_each (non_empty field) vs"

section \<open>Connection frames\<close>

record hello =
  he_protocol_version :: string
  he_schema_version :: u16
  he_daemon_id :: string
  he_credential :: string
  he_capabilities :: "string list"

definition new_hello :: "string \<Rightarrow> string \<Rightarrow> string list \<Rightarrow> hello" where
  "new_hello daemon_id credential capabilities =
     \<lparr>he_protocol_version = PROTOCOL_VERSION, he_schema_version = SCHEMA_VERSION,
      he_daemon_id = daemon_id, he_credential = credential, he_capabilities = capabilities\<rparr>"

definition hello_validate :: "hello \<Rightarrow> check" where
  "hello_validate h =
     and_then (protocol (he_protocol_version h)) (\<lambda>_.
     and_then (schema (he_schema_version h)) (\<lambda>_.
     and_then (non_empty ''daemon_id'' (he_daemon_id h)) (\<lambda>_.
     non_empty ''credential'' (he_credential h))))"

record welcome_frame =
  we_protocol_version :: string
  we_schema_version :: u16
  we_daemon_id :: string
  we_server_time :: string

definition welcome_validate :: "welcome_frame \<Rightarrow> check" where
  "welcome_validate w =
     and_then (protocol (we_protocol_version w)) (\<lambda>_.
     and_then (schema (we_schema_version w)) (\<lambda>_.
     and_then (non_empty ''daemon_id'' (we_daemon_id w)) (\<lambda>_.
     non_empty ''server_time'' (we_server_time w))))"

record heartbeat =
  hb_schema_version :: u16
  hb_daemon_id :: string
  hb_sent_at :: string
  hb_application_state :: string

definition heartbeat_validate :: "heartbeat \<Rightarrow> check" where
  "heartbeat_validate h =
     and_then (schema (hb_schema_version h)) (\<lambda>_.
     and_then (non_empty ''daemon_id'' (hb_daemon_id h)) (\<lambda>_.
     and_then (non_empty ''sent_at'' (hb_sent_at h)) (\<lambda>_.
     non_empty ''application_state'' (hb_application_state h))))"

section \<open>Commands\<close>

record requirement_context =
  rc_id :: string
  rc_revision :: u64
  rc_title :: string
  rc_description :: string
  rc_summary :: string
  rc_acceptance_criteria :: "string list"
  rc_assumptions :: "string list"
  rc_open_questions :: "string list"

definition requirement_context_validate :: "requirement_context \<Rightarrow> check" where
  "requirement_context_validate c =
     and_then (non_empty ''requirement.id'' (rc_id c)) (\<lambda>_.
     and_then (sequence_check ''requirement.revision'' (rc_revision c)) (\<lambda>_.
     and_then (non_empty ''requirement.title'' (rc_title c)) (\<lambda>_.
     and_then (non_empty ''requirement.description'' (rc_description c)) (\<lambda>_.
     and_then (non_empty_list ''requirement.acceptance_criteria'' (rc_acceptance_criteria c)) (\<lambda>_.
     and_then (non_empty_list ''requirement.assumptions'' (rc_assumptions c)) (\<lambda>_.
     non_empty_list ''requirement.open_questions'' (rc_open_questions c)))))))"

datatype conversation_role_wire = RoleRequester | RoleAgent | RoleSystem

record conversation_message_context =
  cm_message_id :: string
  cm_role :: conversation_role_wire
  cm_content :: string

definition conversation_message_validate :: "conversation_message_context \<Rightarrow> check" where
  "conversation_message_validate m =
     and_then (non_empty ''conversation.message_id'' (cm_message_id m)) (\<lambda>_.
     non_empty ''conversation.content'' (cm_content m))"

record conversation_context =
  cc_excerpt :: "conversation_message_context list"

definition conversation_context_validate :: "conversation_context \<Rightarrow> check" where
  "conversation_context_validate c = for_each conversation_message_validate (cc_excerpt c)"

record repository_context =
  rx_repository_id :: string
  rx_name :: string
  rx_url :: string
  rx_description :: string

definition repository_context_validate :: "repository_context \<Rightarrow> check" where
  "repository_context_validate c =
     and_then (non_empty ''repository.repository_id'' (rx_repository_id c)) (\<lambda>_.
     and_then (non_empty ''repository.name'' (rx_name c)) (\<lambda>_.
     non_empty ''repository.url'' (rx_url c)))"

record session_start =
  ss_requirement :: requirement_context
  ss_conversation :: conversation_context
  ss_repositories :: "repository_context list"

definition session_start_validate :: "session_start \<Rightarrow> check" where
  "session_start_validate s =
     and_then (requirement_context_validate (ss_requirement s)) (\<lambda>_.
     and_then (conversation_context_validate (ss_conversation s)) (\<lambda>_.
     for_each repository_context_validate (ss_repositories s)))"

record message_send =
  ms_message_id :: string
  ms_content :: string

text \<open>\<open>SessionCancel\<close> has one field, the reason; \<open>SessionResume\<close> has none.\<close>

datatype command =
    SessionStart session_start
  | SessionCancel string
  | SessionResume
  | MessageSend message_send

record command_envelope =
  ce_command_id :: string
  ce_session_id :: string
  ce_server_command_seq :: u64
  ce_sent_at :: string
  ce_schema_version :: u16
  ce_command :: command

definition command_validate :: "command \<Rightarrow> check" where
  "command_validate c =
     (case c of
        SessionStart payload \<Rightarrow> session_start_validate payload
      | SessionCancel reason \<Rightarrow> non_empty ''reason'' reason
      | SessionResume \<Rightarrow> Inr ()
      | MessageSend payload \<Rightarrow>
          and_then (non_empty ''message_id'' (ms_message_id payload)) (\<lambda>_.
          non_empty ''content'' (ms_content payload)))"

definition command_envelope_validate :: "command_envelope \<Rightarrow> check" where
  "command_envelope_validate e =
     and_then (schema (ce_schema_version e)) (\<lambda>_.
     and_then (non_empty ''command_id'' (ce_command_id e)) (\<lambda>_.
     and_then (non_empty ''session_id'' (ce_session_id e)) (\<lambda>_.
     and_then (non_empty ''sent_at'' (ce_sent_at e)) (\<lambda>_.
     and_then (sequence_check ''server_command_seq'' (ce_server_command_seq e)) (\<lambda>_.
     command_validate (ce_command e))))))"

section \<open>Events\<close>

record agent_message =
  am_message_id :: string
  am_content :: string

datatype readiness_verdict_wire = WireReady | WireNeedsClarification

record reviewed_repository_wire =
  rw_repository_id :: string
  rw_commit_sha :: string

definition reviewed_repository_validate :: "reviewed_repository_wire \<Rightarrow> check" where
  "reviewed_repository_validate r =
     and_then (non_empty ''repositories_reviewed.repository_id'' (rw_repository_id r)) (\<lambda>_.
     if \<not> complete_commit_sha (rw_commit_sha r) then Inl IncompleteCommitSha else Inr ())"

record requirement_assessed =
  as_requirement_id :: string
  as_requirement_revision :: u64
  as_verdict :: readiness_verdict_wire
  as_blockers :: "string list"
  as_assumptions :: "string list"
  as_repositories_reviewed :: "reviewed_repository_wire list"

definition requirement_assessed_validate :: "requirement_assessed \<Rightarrow> check" where
  "requirement_assessed_validate a =
     and_then (non_empty ''requirement_id'' (as_requirement_id a)) (\<lambda>_.
     and_then (sequence_check ''requirement_revision'' (as_requirement_revision a)) (\<lambda>_.
     and_then (non_empty_list ''blockers'' (as_blockers a)) (\<lambda>_.
     and_then (non_empty_list ''assumptions'' (as_assumptions a)) (\<lambda>_.
     for_each reviewed_repository_validate (as_repositories_reviewed a)))))"

record session_failed =
  sf_recoverable :: bool
  sf_reason :: string

text \<open>\<open>SessionStarted\<close>, \<open>AgentActivity\<close> and \<open>SessionCompleted\<close> have one string field each:
  the runtime id, the activity, the summary.\<close>

datatype event =
    SessionStarted string
  | AgentMessage agent_message
  | AgentActivity string
  | RequirementAssessed requirement_assessed
  | SessionCompleted string
  | SessionFailed session_failed

record event_envelope =
  ee_event_id :: string
  ee_session_id :: string
  ee_daemon_event_seq :: u64
  ee_sent_at :: string
  ee_schema_version :: u16
  ee_event :: event

definition event_validate :: "event \<Rightarrow> check" where
  "event_validate e =
     (case e of
        SessionStarted runtime_id \<Rightarrow> non_empty ''runtime_id'' runtime_id
      | AgentMessage payload \<Rightarrow>
          and_then (non_empty ''message_id'' (am_message_id payload)) (\<lambda>_.
          non_empty ''content'' (am_content payload))
      | AgentActivity activity \<Rightarrow> non_empty ''activity'' activity
      | RequirementAssessed payload \<Rightarrow> requirement_assessed_validate payload
      | SessionCompleted summary \<Rightarrow> non_empty ''summary'' summary
      | SessionFailed payload \<Rightarrow> non_empty ''reason'' (sf_reason payload))"

definition event_envelope_validate :: "event_envelope \<Rightarrow> check" where
  "event_envelope_validate e =
     and_then (schema (ee_schema_version e)) (\<lambda>_.
     and_then (non_empty ''event_id'' (ee_event_id e)) (\<lambda>_.
     and_then (non_empty ''session_id'' (ee_session_id e)) (\<lambda>_.
     and_then (non_empty ''sent_at'' (ee_sent_at e)) (\<lambda>_.
     and_then (sequence_check ''daemon_event_seq'' (ee_daemon_event_seq e)) (\<lambda>_.
     event_validate (ee_event e))))))"

section \<open>Acknowledgements and reconciliation\<close>

record command_ack =
  ca_command_id :: string
  ca_session_id :: string
  ca_server_command_seq :: u64
  ca_schema_version :: u16

definition command_ack_validate :: "command_ack \<Rightarrow> check" where
  "command_ack_validate a =
     and_then (schema (ca_schema_version a)) (\<lambda>_.
     and_then (non_empty ''command_id'' (ca_command_id a)) (\<lambda>_.
     and_then (non_empty ''session_id'' (ca_session_id a)) (\<lambda>_.
     sequence_check ''server_command_seq'' (ca_server_command_seq a))))"

datatype event_ack_status = AckAccepted | AckRejected

record event_ack =
  ea_event_id :: string
  ea_session_id :: string
  ea_daemon_event_seq :: u64
  ea_schema_version :: u16
  ea_status :: event_ack_status
  ea_reason :: "string option"

definition event_ack_validate :: "event_ack \<Rightarrow> check" where
  "event_ack_validate a =
     and_then (schema (ea_schema_version a)) (\<lambda>_.
     and_then (non_empty ''event_id'' (ea_event_id a)) (\<lambda>_.
     and_then (non_empty ''session_id'' (ea_session_id a)) (\<lambda>_.
     and_then (sequence_check ''daemon_event_seq'' (ea_daemon_event_seq a)) (\<lambda>_.
     if ea_status a = AckRejected \<and> (ea_reason a = None \<or> ea_reason a = Some [])
     then Inl RejectedAckWithoutReason
     else if ea_status a = AckAccepted \<and> ea_reason a \<noteq> None
     then Inl AcceptedAckWithReason
     else Inr ()))))"

record session_reconcile_state =
  sr_session_id :: string
  sr_command_ack_through_seq :: u64
  sr_event_ack_through_seq :: u64
  sr_event_ack_sparse :: "u64 list"

text \<open>The loop over the sparse list, with the watermark and the previous element.\<close>

fun sparse_loop :: "u64 \<Rightarrow> u64 \<Rightarrow> u64 list \<Rightarrow> check" where
  "sparse_loop through previous [] = Inr ()"
| "sparse_loop through previous (n # ns) =
     (if n \<le> through then Inl SparseNotAboveWatermark
      else if n \<le> previous then Inl SparseNotAscending
      else sparse_loop through n ns)"

definition session_reconcile_validate :: "session_reconcile_state \<Rightarrow> check" where
  "session_reconcile_validate s =
     and_then (non_empty ''session_id'' (sr_session_id s)) (\<lambda>_.
     sparse_loop (sr_event_ack_through_seq s) (sr_event_ack_through_seq s) (sr_event_ack_sparse s))"

record reconcile_snapshot =
  rs_schema_version :: u16
  rs_sessions :: "session_reconcile_state list"

text \<open>The loop over the sessions, with the identifiers seen so far.\<close>

fun snapshot_loop :: "string list \<Rightarrow> session_reconcile_state list \<Rightarrow> check" where
  "snapshot_loop seen [] = Inr ()"
| "snapshot_loop seen (s # ss) =
     and_then (session_reconcile_validate s) (\<lambda>_.
     if sr_session_id s \<in> set seen then Inl DuplicateSessionId
     else snapshot_loop (sr_session_id s # seen) ss)"

definition reconcile_validate :: "reconcile_snapshot \<Rightarrow> check" where
  "reconcile_validate r =
     and_then (schema (rs_schema_version r)) (\<lambda>_. snapshot_loop [] (rs_sessions r))"

record protocol_error_frame =
  pe_schema_version :: u16
  pe_code :: string
  pe_message :: string

definition protocol_error_validate :: "protocol_error_frame \<Rightarrow> check" where
  "protocol_error_validate e =
     and_then (schema (pe_schema_version e)) (\<lambda>_.
     and_then (non_empty ''code'' (pe_code e)) (\<lambda>_.
     non_empty ''message'' (pe_message e)))"

section \<open>Frames and the codec\<close>

datatype server_frame =
    SF_Welcome welcome_frame
  | SF_Command command_envelope
  | SF_EventAck event_ack
  | SF_Reconcile reconcile_snapshot
  | SF_ProtocolError protocol_error_frame

definition server_frame_validate :: "server_frame \<Rightarrow> check" where
  "server_frame_validate f =
     (case f of
        SF_Welcome frame \<Rightarrow> welcome_validate frame
      | SF_Command frame \<Rightarrow> command_envelope_validate frame
      | SF_EventAck frame \<Rightarrow> event_ack_validate frame
      | SF_Reconcile frame \<Rightarrow> reconcile_validate frame
      | SF_ProtocolError frame \<Rightarrow> protocol_error_validate frame)"

definition server_to_json ::
  "(server_frame \<Rightarrow> 'j + 't) \<Rightarrow> server_frame \<Rightarrow> 'j frame_error + 't" where
  "server_to_json to_string f =
     and_then (map_err Validation (server_frame_validate f)) (\<lambda>_. map_err Json (to_string f))"

definition server_from_json ::
  "('t \<Rightarrow> 'j + server_frame) \<Rightarrow> 't \<Rightarrow> 'j frame_error + server_frame" where
  "server_from_json from_str text =
     and_then (map_err Json (from_str text)) (\<lambda>frame.
     and_then (map_err Validation (server_frame_validate frame)) (\<lambda>_. Inr frame))"

datatype daemon_frame =
    DF_Hello hello
  | DF_Heartbeat heartbeat
  | DF_Event event_envelope
  | DF_CommandAck command_ack
  | DF_ProtocolError protocol_error_frame

definition daemon_frame_validate :: "daemon_frame \<Rightarrow> check" where
  "daemon_frame_validate f =
     (case f of
        DF_Hello frame \<Rightarrow> hello_validate frame
      | DF_Heartbeat frame \<Rightarrow> heartbeat_validate frame
      | DF_Event frame \<Rightarrow> event_envelope_validate frame
      | DF_CommandAck frame \<Rightarrow> command_ack_validate frame
      | DF_ProtocolError frame \<Rightarrow> protocol_error_validate frame)"

definition daemon_to_json ::
  "(daemon_frame \<Rightarrow> 'j + 't) \<Rightarrow> daemon_frame \<Rightarrow> 'j frame_error + 't" where
  "daemon_to_json to_string f =
     and_then (map_err Validation (daemon_frame_validate f)) (\<lambda>_. map_err Json (to_string f))"

definition daemon_from_json ::
  "('t \<Rightarrow> 'j + daemon_frame) \<Rightarrow> 't \<Rightarrow> 'j frame_error + daemon_frame" where
  "daemon_from_json from_str text =
     and_then (map_err Json (from_str text)) (\<lambda>frame.
     and_then (map_err Validation (daemon_frame_validate frame)) (\<lambda>_. Inr frame))"

definition encode_server_frame where "encode_server_frame = server_to_json"
definition decode_server_frame where "decode_server_frame = server_from_json"
definition encode_daemon_frame where "encode_daemon_frame = daemon_to_json"
definition decode_daemon_frame where "decode_daemon_frame = daemon_from_json"

section \<open>What the checks mean\<close>

lemma check_simps [simp]:
  "non_empty field v = Inr () \<longleftrightarrow> \<not> blank v"
  "schema k = Inr () \<longleftrightarrow> k = SCHEMA_VERSION"
  "protocol p = Inr () \<longleftrightarrow> p = PROTOCOL_VERSION"
  "sequence_check field n = Inr () \<longleftrightarrow> n \<noteq> 0"
  "non_empty_list field vs = Inr () \<longleftrightarrow> (\<forall>v \<in> set vs. \<not> blank v)"
  by (auto simp: non_empty_def schema_def protocol_def sequence_check_def non_empty_list_def blank_def)

lemma sparse_loop_iff:
  "through \<le> previous \<Longrightarrow> sparse_loop through previous ns = Inr () \<longleftrightarrow> sorted_wrt (<) (previous # ns)"
proof (induction ns arbitrary: previous)
  case (Cons n ns)
  then show ?case
    by (auto simp: not_le intro: order.strict_trans1 order.strict_trans)
qed simp

lemma session_reconcile_validate_iff:
  "session_reconcile_validate s = Inr () \<longleftrightarrow>
     \<not> blank (sr_session_id s) \<and> sorted_wrt (<) (sr_event_ack_through_seq s # sr_event_ack_sparse s)"
  by (simp add: session_reconcile_validate_def and_then_Inr_iff sparse_loop_iff del: sorted_wrt.simps)

lemma snapshot_loop_iff:
  "snapshot_loop seen ss = Inr () \<longleftrightarrow>
     (\<forall>s \<in> set ss. session_reconcile_validate s = Inr () \<and> sr_session_id s \<notin> set seen)
     \<and> distinct (map sr_session_id ss)"
  by (induction ss arbitrary: seen) (auto simp: and_then_Inr_iff image_iff)

lemma reconcile_validate_iff:
  "reconcile_validate r = Inr () \<longleftrightarrow>
     rs_schema_version r = SCHEMA_VERSION \<and> distinct (map sr_session_id (rs_sessions r))
     \<and> (\<forall>s \<in> set (rs_sessions r). session_reconcile_validate s = Inr ())"
  by (auto simp: reconcile_validate_def and_then_Inr_iff snapshot_loop_iff)

lemma command_envelope_validate_iff:
  "command_envelope_validate e = Inr () \<longleftrightarrow>
     ce_schema_version e = SCHEMA_VERSION \<and> \<not> blank (ce_command_id e) \<and> \<not> blank (ce_session_id e)
     \<and> \<not> blank (ce_sent_at e) \<and> ce_server_command_seq e \<noteq> 0 \<and> command_validate (ce_command e) = Inr ()"
  by (auto simp: command_envelope_validate_def and_then_Inr_iff)

lemma event_ack_validate_iff:
  "event_ack_validate a = Inr () \<longleftrightarrow>
     ea_schema_version a = SCHEMA_VERSION \<and> \<not> blank (ea_event_id a) \<and> \<not> blank (ea_session_id a)
     \<and> ea_daemon_event_seq a \<noteq> 0
     \<and> (ea_status a = AckRejected \<longleftrightarrow> (\<exists>r. ea_reason a = Some r \<and> (r \<noteq> [] \<or> ea_status a = AckAccepted)))
     \<and> (ea_status a = AckAccepted \<longrightarrow> ea_reason a = None)"
  by (cases "ea_status a"; cases "ea_reason a") (auto simp: event_ack_validate_def and_then_Inr_iff)

section \<open>The codec contract\<close>

locale frame_codec =
  fixes validate :: "'f \<Rightarrow> check"
    and encode :: "('f \<Rightarrow> 'j + 't) \<Rightarrow> 'f \<Rightarrow> 'j frame_error + 't"
    and decode :: "('t \<Rightarrow> 'j + 'f) \<Rightarrow> 't \<Rightarrow> 'j frame_error + 'f"
  assumes encode_Inr: "encode ser f = Inr t \<longleftrightarrow> validate f = Inr () \<and> ser f = Inr t"
    and decode_Inr: "decode de t = Inr f \<longleftrightarrow> de t = Inr f \<and> validate f = Inr ()"
begin

lemma decode_validated: "decode de t = Inr f \<Longrightarrow> validate f = Inr ()"
  by (simp add: decode_Inr)

lemma roundtrip:
  assumes "\<And>f t. ser f = Inr t \<Longrightarrow> de t = Inr f" and "encode ser f = Inr t"
  shows "decode de t = Inr f"
  using assms by (simp add: encode_Inr decode_Inr)

end

interpretation server_codec: frame_codec server_frame_validate encode_server_frame decode_server_frame
  by unfold_locales
     (auto simp: encode_server_frame_def decode_server_frame_def server_to_json_def server_from_json_def
        and_then_Inr_iff)

interpretation daemon_codec: frame_codec daemon_frame_validate encode_daemon_frame decode_daemon_frame
  by unfold_locales
     (auto simp: encode_daemon_frame_def decode_daemon_frame_def daemon_to_json_def daemon_from_json_def
        and_then_Inr_iff)

text \<open>A reconciliation snapshot passes validation exactly when its schema version is current,
  its session identifiers are non-blank and pairwise different, and every sparse list is
  strictly ascending and lies above its session's watermark; each defect is reported by
  its own error.\<close>

theorem reconcile_snapshot_canonical:
  "server_frame_validate (SF_Reconcile r) = Inr () \<longleftrightarrow>
     rs_schema_version r = SCHEMA_VERSION
     \<and> distinct (map sr_session_id (rs_sessions r))
     \<and> list_all (\<lambda>s. \<not> blank (sr_session_id s)
          \<and> sorted_wrt (<) (sr_event_ack_through_seq s # sr_event_ack_sparse s)) (rs_sessions r)"
  by (simp add: server_frame_validate_def reconcile_validate_iff session_reconcile_validate_iff
      list_all_iff conj_commute del: sorted_wrt.simps)

text \<open>The codec never lets an invalid frame through and loses nothing: with a serialiser that
  reads back what it wrote, encoding then decoding a daemon frame returns the frame, encoding
  succeeds only for valid frames, and whatever decodes is valid. The same holds of server
  frames.\<close>

theorem frame_codec_roundtrip:
  fixes dser :: "daemon_frame \<Rightarrow> 'j + 't" and dde :: "'t \<Rightarrow> 'j + daemon_frame"
    and sser :: "server_frame \<Rightarrow> 'k + 'u" and sde :: "'u \<Rightarrow> 'k + server_frame"
  assumes "\<And>f t. dser f = Inr t \<Longrightarrow> dde t = Inr f" and "\<And>f t. sser f = Inr t \<Longrightarrow> sde t = Inr f"
  shows "(encode_daemon_frame dser df = Inr t \<longrightarrow>
            decode_daemon_frame dde t = Inr df \<and> daemon_frame_validate df = Inr ())
    \<and> (decode_daemon_frame dde u = Inr df' \<longrightarrow> daemon_frame_validate df' = Inr ())
    \<and> (encode_server_frame sser sf = Inr v \<longrightarrow>
            decode_server_frame sde v = Inr sf \<and> server_frame_validate sf = Inr ())
    \<and> (decode_server_frame sde w = Inr sf' \<longrightarrow> server_frame_validate sf' = Inr ())"
proof (intro conjI impI)
  show "decode_daemon_frame dde t = Inr df" if "encode_daemon_frame dser df = Inr t"
    by (rule daemon_codec.roundtrip [of dser dde, OF _ that]) (rule assms(1))
  show "decode_server_frame sde v = Inr sf" if "encode_server_frame sser sf = Inr v"
    by (rule server_codec.roundtrip [of sser sde, OF _ that]) (rule assms(2))
qed (simp_all add: daemon_codec.encode_Inr daemon_codec.decode_Inr server_codec.encode_Inr
       server_codec.decode_Inr)

definition sample_ack_frame :: daemon_frame where
  "sample_ack_frame = DF_CommandAck \<lparr>ca_command_id = ''c'', ca_session_id = ''s'',
     ca_server_command_seq = 1, ca_schema_version = 1\<rparr>"

theorem frame_codec_roundtrip_witness:
  "encode_daemon_frame (Inr :: daemon_frame \<Rightarrow> unit + daemon_frame) sample_ack_frame = Inr sample_ack_frame
   \<and> decode_daemon_frame (Inr :: daemon_frame \<Rightarrow> unit + daemon_frame) sample_ack_frame = Inr sample_ack_frame
   \<and> daemon_frame_validate sample_ack_frame = Inr ()"
proof -
  have "daemon_frame_validate sample_ack_frame = Inr ()" by code_simp
  then have "encode_daemon_frame (Inr :: daemon_frame \<Rightarrow> unit + daemon_frame) sample_ack_frame = Inr sample_ack_frame"
    by (simp add: daemon_codec.encode_Inr)
  then show ?thesis
    using frame_codec_roundtrip [of "Inr :: daemon_frame \<Rightarrow> unit + daemon_frame" Inr
        "Inr :: server_frame \<Rightarrow> unit + server_frame" Inr sample_ack_frame sample_ack_frame, THEN conjunct1]
    by simp
qed

end
