(* ===== verification/Journal_Model.thy ===== *)
theory Journal_Model
  imports Wire_Protocol
begin

text \<open>
  \<open>north-daemon/src/journal.rs\<close>: the daemon's crash-safe command inbox and event journal.

  \<^item> The mutex-protected \<open>JournalFile\<close> is the record \<open>journal_file\<close>; \<open>BTreeMap\<close> is a list of
    pairs kept in key order by \<open>bt_put\<close>.
  \<^item> What the code takes from outside is the record \<open>journal_env\<close>: the daemon identity and
    configuration of the \<open>Journal\<close>, the clock, \<open>serde_json\<close> with SHA-256 as \<open>payload_digest\<close>,
    the file encoding, and for every write of the journal file how far it got.
  \<^item> A method is a function of the environment and of \<open>journal_state\<close> (memory, file on disk,
    the executor) to \<open>((journal_error + 'a) \<times> journal_state) option\<close>; \<open>None\<close> says that the call
    never returns. A closure given to \<open>Journal::update\<close> is a function on \<open>journal_file\<close>, and
    \<open>jupdate\<close> rolls back, persists and re-reads around it as \<open>update\<close> does.
  \<^item> The \<open>n\<close>-th reading of the clock inside a call is a parameter of the closure.
  \<^item> \<open>Protocol\<close> keeps the validation error whose printed form the code stores.
  \<^item> A poisoned mutex is not modelled: no closure panics while it holds the lock.
\<close>

section \<open>Ordered maps\<close>

fun bt_put :: "'k :: linorder \<Rightarrow> 'v \<Rightarrow> ('k \<times> 'v) list \<Rightarrow> ('k \<times> 'v) list" where
  "bt_put k v [] = [(k, v)]"
| "bt_put k v ((k', v') # m) =
     (if k < k' then (k, v) # (k', v') # m
      else if k = k' then (k, v) # m
      else (k', v') # bt_put k v m)"

section \<open>Data\<close>

datatype journal_error =
    Io string
  | Format string
  | Protocol validation_error
  | IdentityConflict string
  | GapOverflow string nat
  | SequenceGap u64 u64

datatype command_journal_state = Received | DispatchStarted | Terminal

datatype dispatch_outcome = DispatchSucceeded | DispatchFailed string | OutcomeUnknown string

datatype recovery_outcome = RecoverySucceeded | RecoveryFailed string | RecoveryUnknown

record command_process_result =
  pr_acknowledgement :: command_ack
  pr_state :: command_journal_state
  pr_outcome :: "dispatch_outcome option"
  pr_duplicate :: bool
  pr_buffered :: bool
  pr_emitted_events :: "event_envelope list"

record command_acceptance =
  ac_result :: command_process_result
  ac_command :: "command_envelope option"

record recovery_actions =
  rv_results :: "command_process_result list"
  rv_commands :: "command_envelope list"

record appended_event =
  ap_envelope :: event_envelope
  ap_duplicate :: bool

record session_journal =
  sj_processed_through_seq :: u64
  sj_event_ack_through_seq :: u64
  sj_event_ack_sparse :: "u64 list"
  sj_server_command_ack_through_seq :: u64

record command_record =
  cr_daemon_id :: string
  cr_command_id :: string
  cr_session_id :: string
  cr_server_command_seq :: u64
  cr_sent_at :: string
  cr_payload_digest :: string
  cr_command :: command
  cr_message_id :: "string option"
  cr_state :: command_journal_state
  cr_outcome :: "dispatch_outcome option"
  cr_runtime_operation_id :: string
  cr_reason :: "string option"
  cr_updated_at :: string

record command_tombstone =
  ct_daemon_id :: string
  ct_command_id :: string
  ct_session_id :: string
  ct_server_command_seq :: u64
  ct_payload_digest :: string
  ct_message_id :: "string option"
  ct_outcome :: dispatch_outcome

record event_record =
  er_daemon_id :: string
  er_envelope :: event_envelope
  er_payload_digest :: string
  er_acknowledged :: bool
  er_acknowledgement :: "event_ack_status option"

record event_tombstone =
  et_daemon_id :: string
  et_event_id :: string
  et_session_id :: string
  et_daemon_event_seq :: u64
  et_payload_digest :: string
  et_event_identity_digest :: string
  et_acknowledgement :: "event_ack_status option"

record journal_file =
  jf_format_version :: u16
  jf_sessions :: "(string \<times> session_journal) list"
  jf_commands :: "command_record list"
  jf_command_tombstones :: "command_tombstone list"
  jf_events :: "event_record list"
  jf_event_tombstones :: "event_tombstone list"

definition default_session :: session_journal where
  "default_session = \<lparr>sj_processed_through_seq = 0, sj_event_ack_through_seq = 0,
     sj_event_ack_sparse = [], sj_server_command_ack_through_seq = 0\<rparr>"

definition default_file :: journal_file where
  "default_file = \<lparr>jf_format_version = 1, jf_sessions = [], jf_commands = [],
     jf_command_tombstones = [], jf_events = [], jf_event_tombstones = []\<rparr>"

text \<open>\<open>sessions.entry(id).or_default()\<close>\<close>

definition session_of :: "journal_file \<Rightarrow> string \<Rightarrow> session_journal" where
  "session_of f s = (case map_of (jf_sessions f) s of None \<Rightarrow> default_session | Some x \<Rightarrow> x)"

definition put_session :: "string \<Rightarrow> session_journal \<Rightarrow> journal_file \<Rightarrow> journal_file" where
  "put_session s x f = f\<lparr>jf_sessions := bt_put s x (jf_sessions f)\<rparr>"

section \<open>Environment and state\<close>

text \<open>How far a write of the journal file got: the directory could not be made; the temporary
  file or the rename failed; the new file is in place; the new file is in place but its
  permissions or the directory could not be synced.\<close>

datatype write_result = DirFailed string | FileFailed string | Written | SyncFailed string

record 'b journal_env =
  env_daemon_id :: string
  env_gap_limit :: nat
  env_now :: "nat \<Rightarrow> nat \<Rightarrow> string"
  env_command_digest :: "command_envelope \<Rightarrow> string + string"
  env_event_digest :: "event_envelope \<Rightarrow> string + string"
  env_to_vec :: "journal_file \<Rightarrow> string + 'b"
  env_from_slice :: "'b \<Rightarrow> string + journal_file"
  env_write :: "nat \<Rightarrow> write_result"
  env_readable :: "nat \<Rightarrow> bool"

record ('b, 'e) journal_state =
  js_file :: journal_file
  js_disk :: "'b option"
  js_clock :: nat
  js_writes :: nat
  js_exec :: 'e

type_synonym ('b, 'e, 'a) jm =
  "('b, 'e) journal_state \<Rightarrow> ((journal_error + 'a) \<times> ('b, 'e) journal_state) option"

type_synonym 'a file_op = "(nat \<Rightarrow> string) \<Rightarrow> journal_file \<Rightarrow> (journal_error + 'a \<times> journal_file) option"

definition jreturn :: "'a \<Rightarrow> ('b, 'e, 'a) jm" where
  "jreturn a st = Some (Inr a, st)"

definition jlift :: "journal_error + 'a \<Rightarrow> ('b, 'e, 'a) jm" where
  "jlift r st = Some (r, st)"

definition jread :: "(journal_file \<Rightarrow> journal_error + 'a) \<Rightarrow> ('b, 'e, 'a) jm" where
  "jread g st = Some (g (js_file st), st)"

text \<open>A call into the runtime executor.\<close>

definition jexec :: "('e \<Rightarrow> 'a \<times> 'e) \<Rightarrow> ('b, 'e, 'a) jm" where
  "jexec g st = (let (a, x) = g (js_exec st) in Some (Inr a, st\<lparr>js_exec := x\<rparr>))"

definition jbind :: "('b, 'e, 'a) jm \<Rightarrow> ('a \<Rightarrow> ('b, 'e, 'c) jm) \<Rightarrow> ('b, 'e, 'c) jm" where
  "jbind m k st =
     (case m st of
        None \<Rightarrow> None
      | Some (Inl e, st') \<Rightarrow> Some (Inl e, st')
      | Some (Inr a, st') \<Rightarrow> k a st')"

text \<open>A \<open>for\<close> loop that collects one value per element and stops at the first error.\<close>

primrec jfor :: "('x \<Rightarrow> ('b, 'e, 'a) jm) \<Rightarrow> 'x list \<Rightarrow> ('b, 'e, 'a list) jm" where
  "jfor body [] = jreturn []"
| "jfor body (x # xs) = jbind (body x) (\<lambda>a. jbind (jfor body xs) (\<lambda>as. jreturn (a # as)))"

definition persist_locked ::
  "'b journal_env \<Rightarrow> journal_file \<Rightarrow> ('b, 'e) journal_state \<Rightarrow> (journal_error + unit) \<times> 'b option" where
  "persist_locked env f st =
     (case env_write env (js_writes st) of
        DirFailed e \<Rightarrow> (Inl (Io e), js_disk st)
      | w \<Rightarrow>
          (case env_to_vec env f of
             Inl e \<Rightarrow> (Inl (Format e), js_disk st)
           | Inr bytes \<Rightarrow>
               (case w of
                  FileFailed e \<Rightarrow> (Inl (Io e), js_disk st)
                | SyncFailed e \<Rightarrow> (Inl (Io e), Some bytes)
                | _ \<Rightarrow> (Inr (), Some bytes))))"

definition reread :: "'b journal_env \<Rightarrow> nat \<Rightarrow> 'b option \<Rightarrow> journal_file \<Rightarrow> journal_file" where
  "reread env n disk before =
     (if env_readable env n
      then (case disk of
              None \<Rightarrow> before
            | Some bytes \<Rightarrow> (case env_from_slice env bytes of Inl _ \<Rightarrow> before | Inr committed \<Rightarrow> committed))
      else before)"

definition jupdate :: "'b journal_env \<Rightarrow> 'a file_op \<Rightarrow> ('b, 'e, 'a) jm" where
  "jupdate env operation st =
     (case operation (env_now env (js_clock st)) (js_file st) of
        None \<Rightarrow> None
      | Some (Inl e) \<Rightarrow> Some (Inl e, st\<lparr>js_clock := Suc (js_clock st)\<rparr>)
      | Some (Inr (a, f)) \<Rightarrow>
          (case persist_locked env f st of
             (Inr _, disk) \<Rightarrow>
               Some (Inr a, st\<lparr>js_file := f, js_disk := disk, js_clock := Suc (js_clock st),
                              js_writes := Suc (js_writes st)\<rparr>)
           | (Inl e, disk) \<Rightarrow>
               Some (Inl e, st\<lparr>js_file := reread env (js_writes st) disk (js_file st), js_disk := disk,
                              js_clock := Suc (js_clock st), js_writes := Suc (js_writes st)\<rparr>)))"

section \<open>Helper functions\<close>

definition expected_command_sequence :: "journal_file \<Rightarrow> string \<Rightarrow> u64" where
  "expected_command_sequence f s =
     (case map_of (jf_sessions f) s of
        None \<Rightarrow> 1
      | Some x \<Rightarrow> sat_inc (sj_processed_through_seq x))"

definition terminal_at :: "journal_file \<Rightarrow> string \<Rightarrow> u64 \<Rightarrow> bool" where
  "terminal_at f s n =
     list_ex (\<lambda>r. cr_session_id r = s \<and> cr_server_command_seq r = n \<and> cr_state r = Terminal) (jf_commands f)"

partial_function (option) processed_loop :: "(u64 \<Rightarrow> bool) \<Rightarrow> u64 \<Rightarrow> u64 option" where
  "processed_loop terminal cur =
     (let n = sat_inc cur in if terminal n then processed_loop terminal n else Some cur)"

definition advance_processed :: "journal_file \<Rightarrow> string \<Rightarrow> journal_file option" where
  "advance_processed f s =
     (let session = session_of f s in
      case processed_loop (terminal_at f s) (sj_processed_through_seq session) of
        None \<Rightarrow> None
      | Some n \<Rightarrow> Some (put_session s (session\<lparr>sj_processed_through_seq := n\<rparr>) f))"

definition acknowledged_at :: "journal_file \<Rightarrow> string \<Rightarrow> u64 \<Rightarrow> bool" where
  "acknowledged_at f s n =
     list_ex (\<lambda>r. ee_session_id (er_envelope r) = s \<and> ee_daemon_event_seq (er_envelope r) = n
                  \<and> er_acknowledged r) (jf_events f)"

partial_function (option) event_ack_loop ::
  "(u64 \<Rightarrow> bool) \<Rightarrow> u64 \<Rightarrow> u64 list \<Rightarrow> (u64 \<times> u64 list) option" where
  "event_ack_loop acknowledged through sparse =
     (let n = sat_inc through in
      if acknowledged n then event_ack_loop acknowledged n (filter (\<lambda>q. n < q) sparse)
      else Some (through, sparse))"

declare processed_loop.simps [code] event_ack_loop.simps [code]

definition advance_event_ack :: "journal_file \<Rightarrow> string \<Rightarrow> journal_file option" where
  "advance_event_ack f s =
     (let session = session_of f s in
      case event_ack_loop (acknowledged_at f s) (sj_event_ack_through_seq session) (sj_event_ack_sparse session) of
        None \<Rightarrow> None
      | Some (n, sparse) \<Rightarrow>
          Some (put_session s (session\<lparr>sj_event_ack_through_seq := n, sj_event_ack_sparse := sparse\<rparr>) f))"

definition next_event_sequence :: "journal_file \<Rightarrow> string \<Rightarrow> u64" where
  "next_event_sequence f s =
     (let cursor = (case map_of (jf_sessions f) s of
                      None \<Rightarrow> 0
                    | Some x \<Rightarrow> max (sj_event_ack_through_seq x) (max_or_0 (sj_event_ack_sparse x)));
          current = max_or_0
            (map (\<lambda>r. ee_daemon_event_seq (er_envelope r))
               (filter (\<lambda>r. ee_session_id (er_envelope r) = s) (jf_events f))
             @ map et_daemon_event_seq (filter (\<lambda>t. et_session_id t = s) (jf_event_tombstones f)))
      in sat_inc (max cursor current))"

definition session_ids :: "journal_file \<Rightarrow> string list" where
  "session_ids f = map fst (jf_sessions f)"

text \<open>\<open>Vec::dedup\<close> removes consecutive repetitions: \<open>remdups_adj\<close>.\<close>

definition merge_sparse :: "u64 list \<Rightarrow> u64 list \<Rightarrow> u64 list" where
  "merge_sparse existing incoming = remdups_adj (sort (existing @ incoming))"

definition message_id :: "command \<Rightarrow> string option" where
  "message_id c = (case c of MessageSend m \<Rightarrow> Some (ms_message_id m) | _ \<Rightarrow> None)"

definition command_ack_of :: "command_record \<Rightarrow> command_ack" where
  "command_ack_of r = \<lparr>ca_command_id = cr_command_id r, ca_session_id = cr_session_id r,
     ca_server_command_seq = cr_server_command_seq r, ca_schema_version = SCHEMA_VERSION\<rparr>"

definition record_to_envelope :: "command_record \<Rightarrow> command_envelope" where
  "record_to_envelope r = \<lparr>ce_command_id = cr_command_id r, ce_session_id = cr_session_id r,
     ce_server_command_seq = cr_server_command_seq r, ce_sent_at = cr_sent_at r,
     ce_schema_version = SCHEMA_VERSION, ce_command = cr_command r\<rparr>"

definition tombstone_record :: "(nat \<Rightarrow> string) \<Rightarrow> command_tombstone \<Rightarrow> command_record" where
  "tombstone_record now t = \<lparr>cr_daemon_id = ct_daemon_id t, cr_command_id = ct_command_id t,
     cr_session_id = ct_session_id t, cr_server_command_seq = ct_server_command_seq t,
     cr_sent_at = now 0, cr_payload_digest = ct_payload_digest t, cr_command = SessionResume,
     cr_message_id = ct_message_id t, cr_state = Terminal, cr_outcome = Some (ct_outcome t),
     cr_runtime_operation_id = ct_command_id t, cr_reason = None, cr_updated_at = now 1\<rparr>"

definition outcome_reason :: "dispatch_outcome \<Rightarrow> string option" where
  "outcome_reason out =
     (case out of DispatchSucceeded \<Rightarrow> None | DispatchFailed reason \<Rightarrow> Some reason | OutcomeUnknown reason \<Rightarrow> Some reason)"

definition unknown_reason :: "string \<Rightarrow> string" where
  "unknown_reason command_id = ''command_id='' @ command_id @ '' runtime_operation_id='' @ command_id"

definition event_identity_digest :: "'b journal_env \<Rightarrow> event_envelope \<Rightarrow> journal_error + string" where
  "event_identity_digest env e = map_err Format (env_event_digest env (e\<lparr>ee_sent_at := []\<rparr>))"

definition event_payload_digest :: "'b journal_env \<Rightarrow> event_envelope \<Rightarrow> journal_error + string" where
  "event_payload_digest env e = map_err Format (env_event_digest env e)"

definition command_payload_digest :: "'b journal_env \<Rightarrow> command_envelope \<Rightarrow> journal_error + string" where
  "command_payload_digest env e = map_err Format (env_command_digest env e)"

section \<open>Identity checks\<close>

definition command_conflict ::
  "string \<Rightarrow> command_envelope \<Rightarrow> string \<Rightarrow> string option \<Rightarrow> command_record \<Rightarrow> bool" where
  "command_conflict daemon_id e digest mid r \<longleftrightarrow>
     cr_daemon_id r = daemon_id \<and>
     (let same_id = (cr_command_id r = ce_command_id e);
          same_sequence = (cr_session_id r = ce_session_id e \<and> cr_server_command_seq r = ce_server_command_seq e);
          same_message = (mid \<noteq> None \<and> cr_message_id r = mid \<and> cr_session_id r = ce_session_id e)
      in (same_id \<or> same_sequence \<or> same_message)
         \<and> (cr_session_id r \<noteq> ce_session_id e \<or> cr_server_command_seq r \<noteq> ce_server_command_seq e
            \<or> cr_payload_digest r \<noteq> digest \<or> (same_id \<and> cr_command r \<noteq> ce_command e)))"

definition tombstone_conflict ::
  "string \<Rightarrow> command_envelope \<Rightarrow> string \<Rightarrow> string option \<Rightarrow> command_tombstone \<Rightarrow> bool" where
  "tombstone_conflict daemon_id e digest mid t \<longleftrightarrow>
     ct_daemon_id t = daemon_id \<and>
     (let same_id = (ct_command_id t = ce_command_id e);
          same_sequence = (ct_session_id t = ce_session_id e \<and> ct_server_command_seq t = ce_server_command_seq e);
          same_message = (mid \<noteq> None \<and> ct_message_id t = mid \<and> ct_session_id t = ce_session_id e)
      in (same_id \<or> same_sequence \<or> same_message)
         \<and> (ct_session_id t \<noteq> ce_session_id e \<or> ct_server_command_seq t \<noteq> ce_server_command_seq e
            \<or> ct_payload_digest t \<noteq> digest \<or> (same_message \<and> ct_command_id t \<noteq> ce_command_id e)))"

definition validate_command_identity ::
  "journal_file \<Rightarrow> string \<Rightarrow> command_envelope \<Rightarrow> string \<Rightarrow> string option \<Rightarrow> journal_error + unit" where
  "validate_command_identity f daemon_id e digest mid =
     (if list_ex (command_conflict daemon_id e digest mid) (jf_commands f)
      then Inl (IdentityConflict ''command ID, sequence, or message identity was reused with different data'')
      else if list_ex (tombstone_conflict daemon_id e digest mid) (jf_command_tombstones f)
      then Inl (IdentityConflict ''command tombstone identity conflict'')
      else Inr ())"

definition event_conflict :: "string \<Rightarrow> event_envelope \<Rightarrow> string \<Rightarrow> event_record \<Rightarrow> bool" where
  "event_conflict daemon_id e digest r \<longleftrightarrow>
     er_daemon_id r = daemon_id \<and>
     (let v = er_envelope r;
          same_id = (ee_event_id v = ee_event_id e);
          same_sequence = (ee_session_id v = ee_session_id e \<and> ee_daemon_event_seq v = ee_daemon_event_seq e)
      in (same_id \<or> same_sequence)
         \<and> (ee_session_id v \<noteq> ee_session_id e \<or> ee_daemon_event_seq v \<noteq> ee_daemon_event_seq e
            \<or> er_payload_digest r \<noteq> digest))"

definition event_tombstone_conflict :: "string \<Rightarrow> event_envelope \<Rightarrow> string \<Rightarrow> event_tombstone \<Rightarrow> bool" where
  "event_tombstone_conflict daemon_id e digest t \<longleftrightarrow>
     et_daemon_id t = daemon_id \<and>
     (let same_id = (et_event_id t = ee_event_id e);
          same_sequence = (et_session_id t = ee_session_id e \<and> et_daemon_event_seq t = ee_daemon_event_seq e)
      in (same_id \<or> same_sequence)
         \<and> (et_session_id t \<noteq> ee_session_id e \<or> et_daemon_event_seq t \<noteq> ee_daemon_event_seq e
            \<or> et_payload_digest t \<noteq> digest))"

definition validate_event_identity ::
  "journal_file \<Rightarrow> string \<Rightarrow> event_envelope \<Rightarrow> string \<Rightarrow> journal_error + unit" where
  "validate_event_identity f daemon_id e digest =
     (if list_ex (event_conflict daemon_id e digest) (jf_events f)
      then Inl (IdentityConflict ''event ID or sequence was reused with different data'')
      else if list_ex (event_tombstone_conflict daemon_id e digest) (jf_event_tombstones f)
      then Inl (IdentityConflict ''event tombstone identity conflict'')
      else Inr ())"

section \<open>Command operations\<close>

definition find_command :: "string \<Rightarrow> journal_file \<Rightarrow> command_record option" where
  "find_command cid f = find (\<lambda>r. cr_command_id r = cid) (jf_commands f)"

definition find_command_tombstone :: "string \<Rightarrow> journal_file \<Rightarrow> command_tombstone option" where
  "find_command_tombstone cid f = find (\<lambda>t. ct_command_id t = cid) (jf_command_tombstones f)"

definition new_command_record ::
  "'b journal_env \<Rightarrow> (nat \<Rightarrow> string) \<Rightarrow> command_envelope \<Rightarrow> string \<Rightarrow> string option \<Rightarrow> command_record" where
  "new_command_record env now e digest mid =
     \<lparr>cr_daemon_id = env_daemon_id env, cr_command_id = ce_command_id e, cr_session_id = ce_session_id e,
      cr_server_command_seq = ce_server_command_seq e, cr_sent_at = ce_sent_at e,
      cr_payload_digest = digest, cr_command = ce_command e, cr_message_id = mid,
      cr_state = Received, cr_outcome = None, cr_runtime_operation_id = ce_command_id e,
      cr_reason = None, cr_updated_at = now 0\<rparr>"

definition gap_pending :: "journal_file \<Rightarrow> string \<Rightarrow> u64 \<Rightarrow> nat" where
  "gap_pending f s expected =
     length (filter (\<lambda>r. cr_session_id r = s \<and> expected < cr_server_command_seq r \<and> cr_state r \<noteq> Terminal)
               (jf_commands f))"

text \<open>The closure of \<open>prepare_command\<close>: the record, whether it was known, whether it is buffered
  behind a gap.\<close>

definition prepare_op ::
  "'b journal_env \<Rightarrow> command_envelope \<Rightarrow> string \<Rightarrow> string option \<Rightarrow> (command_record \<times> bool \<times> bool) file_op" where
  "prepare_op env e digest mid now f =
     Some
       (case validate_command_identity f (env_daemon_id env) e digest mid of
          Inl err \<Rightarrow> Inl err
        | Inr _ \<Rightarrow>
            (let expected = expected_command_sequence f (ce_session_id e) in
             case find_command (ce_command_id e) f of
               Some existing \<Rightarrow> Inr ((existing, True, expected < cr_server_command_seq existing), f)
             | None \<Rightarrow>
                 (case find_command_tombstone (ce_command_id e) f of
                    Some t \<Rightarrow> Inr ((tombstone_record now t, True, False), f)
                  | None \<Rightarrow>
                      if expected < ce_server_command_seq e
                         \<and> env_gap_limit env \<le> gap_pending f (ce_session_id e) expected
                      then Inl (GapOverflow (ce_session_id e) (env_gap_limit env))
                      else if ce_server_command_seq e < expected
                      then Inl (IdentityConflict ''command sequence is below the retained processed boundary'')
                      else let record = new_command_record env now e digest mid in
                           Inr ((record, False, expected < ce_server_command_seq e),
                                f\<lparr>jf_commands := jf_commands f @ [record]\<rparr>))))"

definition prepare_command ::
  "'b journal_env \<Rightarrow> command_envelope \<Rightarrow> string \<Rightarrow> string option \<Rightarrow> ('b, 'e, command_record \<times> bool \<times> bool) jm" where
  "prepare_command env e digest mid = jupdate env (prepare_op env e digest mid)"

definition command_record_of :: "string \<Rightarrow> ('b, 'e, command_record) jm" where
  "command_record_of cid =
     jread (\<lambda>f. case find_command cid f of
              None \<Rightarrow> Inl (IdentityConflict ''command disappeared from journal'')
            | Some r \<Rightarrow> Inr r)"

definition mark_op :: "string \<Rightarrow> bool file_op" where
  "mark_op cid now f =
     Some
       (case find_command cid f of
          None \<Rightarrow> Inl (IdentityConflict ''command disappeared before dispatch'')
        | Some r \<Rightarrow>
            if cr_state r \<noteq> Received then Inr (False, f)
            else Inr (True, f\<lparr>jf_commands := update_first (\<lambda>r. cr_command_id r = cid)
                        (\<lambda>r. r\<lparr>cr_state := DispatchStarted, cr_updated_at := now 0\<rparr>) (jf_commands f)\<rparr>))"

definition mark_dispatch_started :: "'b journal_env \<Rightarrow> string \<Rightarrow> ('b, 'e, bool) jm" where
  "mark_dispatch_started env cid = jupdate env (mark_op cid)"

definition has_prior_dispatch_started :: "command_envelope \<Rightarrow> journal_file \<Rightarrow> bool" where
  "has_prior_dispatch_started e f =
     list_ex (\<lambda>r. cr_session_id r = ce_session_id e \<and> cr_server_command_seq r < ce_server_command_seq e
                  \<and> cr_state r = DispatchStarted) (jf_commands f)"

definition is_cancel :: "command \<Rightarrow> bool" where
  "is_cancel c = (case c of SessionCancel _ \<Rightarrow> True | _ \<Rightarrow> False)"

text \<open>A result that hands no command to the runtime.\<close>

definition not_dispatched ::
  "command_ack \<Rightarrow> command_journal_state \<Rightarrow> dispatch_outcome option \<Rightarrow> bool \<Rightarrow> bool \<Rightarrow> command_acceptance" where
  "not_dispatched ack state out duplicate buffered =
     \<lparr>ac_result = \<lparr>pr_acknowledgement = ack, pr_state = state, pr_outcome = out,
                    pr_duplicate = duplicate, pr_buffered = buffered, pr_emitted_events = []\<rparr>,
      ac_command = None\<rparr>"

definition accept_command_with_control ::
  "'b journal_env \<Rightarrow> command_envelope \<Rightarrow> bool \<Rightarrow> ('b, 'e, command_acceptance) jm" where
  "accept_command_with_control env e allow_control_interrupt =
     jbind (jlift (map_err Protocol (server_frame_validate (SF_Command e)))) (\<lambda>_.
     jbind (jlift (command_payload_digest env e)) (\<lambda>digest.
     jbind (prepare_command env e digest (message_id (ce_command e))) (\<lambda>(record, duplicate, buffered).
     jbind (jread (\<lambda>f. Inr (allow_control_interrupt \<and> is_cancel (ce_command e) \<and> buffered
                            \<and> has_prior_dispatch_started e f))) (\<lambda>control_interrupt.
     if cr_state record \<noteq> Received \<or> (buffered \<and> \<not> control_interrupt)
     then jreturn (not_dispatched (command_ack_of record) (cr_state record) (cr_outcome record) duplicate buffered)
     else
       jbind (mark_dispatch_started env (cr_command_id record)) (\<lambda>started.
       if \<not> started
       then jbind (command_record_of (cr_command_id record)) (\<lambda>current.
            jreturn (not_dispatched (command_ack_of current) (cr_state current) (cr_outcome current) True False))
       else jreturn
              \<lparr>ac_result = \<lparr>pr_acknowledgement = command_ack_of record, pr_state = DispatchStarted,
                             pr_outcome = None, pr_duplicate = duplicate, pr_buffered = False,
                             pr_emitted_events = []\<rparr>,
               ac_command = Some (record_to_envelope record)\<rparr>)))))"

definition accept_command :: "'b journal_env \<Rightarrow> command_envelope \<Rightarrow> ('b, 'e, command_acceptance) jm" where
  "accept_command env e = accept_command_with_control env e False"

definition accept_control_command :: "'b journal_env \<Rightarrow> command_envelope \<Rightarrow> ('b, 'e, command_acceptance) jm" where
  "accept_control_command env e = accept_command_with_control env e True"

definition next_ready :: "journal_file \<Rightarrow> string \<Rightarrow> command_envelope option" where
  "next_ready f s =
     map_option record_to_envelope
       (find (\<lambda>r. cr_session_id r = s \<and> cr_server_command_seq r = expected_command_sequence f s
                  \<and> cr_state r = Received) (jf_commands f))"

definition accept_next_ready_command ::
  "'b journal_env \<Rightarrow> string \<Rightarrow> ('b, 'e, command_acceptance option) jm" where
  "accept_next_ready_command env s =
     jbind (jread (\<lambda>f. Inr (next_ready f s))) (\<lambda>nxt.
     case nxt of
       None \<Rightarrow> jreturn None
     | Some command \<Rightarrow> jbind (accept_command env command) (\<lambda>a. jreturn (Some a)))"

section \<open>Completion and compaction\<close>

definition new_event_record :: "'b journal_env \<Rightarrow> event_envelope \<Rightarrow> string \<Rightarrow> event_record" where
  "new_event_record env e digest =
     \<lparr>er_daemon_id = env_daemon_id env, er_envelope = e, er_payload_digest = digest,
      er_acknowledged = False, er_acknowledgement = None\<rparr>"

definition push_event :: "'b journal_env \<Rightarrow> event_envelope \<Rightarrow> journal_file \<Rightarrow> journal_error + journal_file" where
  "push_event env e f =
     and_then (event_payload_digest env e) (\<lambda>digest.
     Inr (f\<lparr>jf_events := jf_events f @ [new_event_record env e digest]\<rparr>))"

definition journal_event :: "journal_file \<Rightarrow> string \<Rightarrow> string \<Rightarrow> string \<Rightarrow> event \<Rightarrow> event_envelope" where
  "journal_event f eid sid sent_at ev =
     \<lparr>ee_event_id = eid, ee_session_id = sid, ee_daemon_event_seq = next_event_sequence f sid,
      ee_sent_at = sent_at, ee_schema_version = SCHEMA_VERSION, ee_event = ev\<rparr>"

definition runtime_event_id :: "string \<Rightarrow> nat \<Rightarrow> string" where
  "runtime_event_id cid i = ''runtime-'' @ cid @ ''-'' @ show_nat (Suc i)"

text \<open>The loop over the runtime events, from index \<open>i\<close>: the journaled envelopes and the file.\<close>

fun push_runtime_events ::
  "'b journal_env \<Rightarrow> (nat \<Rightarrow> string) \<Rightarrow> string \<Rightarrow> string \<Rightarrow> nat \<Rightarrow> event list \<Rightarrow> journal_file
   \<Rightarrow> journal_error + event_envelope list \<times> journal_file" where
  "push_runtime_events env now cid sid i [] f = Inr ([], f)"
| "push_runtime_events env now cid sid i (ev # evs) f =
     (let e = journal_event f (runtime_event_id cid i) sid (now (Suc i)) ev in
      and_then (push_event env e f) (\<lambda>f'.
      and_then (push_runtime_events env now cid sid (Suc i) evs f') (\<lambda>(es, f'').
      Inr (e # es, f''))))"

definition unknown_event :: "journal_file \<Rightarrow> string \<Rightarrow> string \<Rightarrow> string \<Rightarrow> string \<Rightarrow> string \<Rightarrow> event_envelope" where
  "unknown_event f cid operation sid sent_at reason =
     journal_event f (''execution-unknown-'' @ cid) sid sent_at
       (SessionFailed \<lparr>sf_recoverable = False,
          sf_reason = ''execution_outcome_unknown command_id='' @ cid @ '' runtime_operation_id='' @ operation
            @ '' '' @ reason @ '' automatic_resubmit=false''\<rparr>)"

definition finish_record :: "dispatch_outcome \<Rightarrow> string \<Rightarrow> command_record \<Rightarrow> command_record" where
  "finish_record out updated_at r =
     r\<lparr>cr_state := Terminal, cr_reason := outcome_reason out, cr_outcome := Some out, cr_updated_at := updated_at\<rparr>"

definition finish_op ::
  "'b journal_env \<Rightarrow> string \<Rightarrow> dispatch_outcome \<Rightarrow> event list \<Rightarrow> event_envelope list file_op" where
  "finish_op env cid out runtime_events now f =
     (case find_command cid f of
        None \<Rightarrow> Some (Inl (IdentityConflict ''command disappeared before terminal commit''))
      | Some r \<Rightarrow>
          (let sid = cr_session_id r;
               f1 = f\<lparr>jf_commands := update_first (\<lambda>r. cr_command_id r = cid) (finish_record out (now 0))
                                       (jf_commands f)\<rparr>
           in case advance_processed f1 sid of
                None \<Rightarrow> None
              | Some f2 \<Rightarrow>
                  Some
                    (and_then (push_runtime_events env now cid sid 0 runtime_events f2) (\<lambda>(es, f3).
                     case out of
                       OutcomeUnknown reason \<Rightarrow>
                         (let e = unknown_event f3 cid (cr_runtime_operation_id r) sid
                                    (now (Suc (length runtime_events))) reason in
                          and_then (push_event env e f3) (\<lambda>f4. Inr (es @ [e], f4)))
                     | _ \<Rightarrow> Inr (es, f3)))))"

definition finish_command ::
  "'b journal_env \<Rightarrow> string \<Rightarrow> dispatch_outcome \<Rightarrow> event list \<Rightarrow> ('b, 'e, event_envelope list) jm" where
  "finish_command env cid out runtime_events = jupdate env (finish_op env cid out runtime_events)"

definition unwrap_outcome :: "dispatch_outcome option \<Rightarrow> dispatch_outcome" where
  "unwrap_outcome out = (case out of None \<Rightarrow> OutcomeUnknown ''terminal outcome missing'' | Some x \<Rightarrow> x)"

definition command_compactable :: "string \<Rightarrow> u64 \<Rightarrow> command_record \<Rightarrow> bool" where
  "command_compactable s processed r \<longleftrightarrow>
     cr_session_id r = s \<and> cr_state r = Terminal \<and> cr_server_command_seq r \<le> processed"

definition command_to_tombstone :: "command_record \<Rightarrow> command_tombstone" where
  "command_to_tombstone r =
     \<lparr>ct_daemon_id = cr_daemon_id r, ct_command_id = cr_command_id r, ct_session_id = cr_session_id r,
      ct_server_command_seq = cr_server_command_seq r, ct_payload_digest = cr_payload_digest r,
      ct_message_id = cr_message_id r, ct_outcome = unwrap_outcome (cr_outcome r)\<rparr>"

definition event_compactable :: "string \<Rightarrow> u64 \<Rightarrow> u64 list \<Rightarrow> event_record \<Rightarrow> bool" where
  "event_compactable s through sparse r \<longleftrightarrow>
     ee_session_id (er_envelope r) = s \<and> er_acknowledged r
     \<and> (ee_daemon_event_seq (er_envelope r) \<le> through
        \<or> ee_daemon_event_seq (er_envelope r) \<in> set sparse)"

definition event_to_tombstone :: "event_record \<Rightarrow> string \<Rightarrow> event_tombstone" where
  "event_to_tombstone r identity =
     \<lparr>et_daemon_id = er_daemon_id r, et_event_id = ee_event_id (er_envelope r),
      et_session_id = ee_session_id (er_envelope r),
      et_daemon_event_seq = ee_daemon_event_seq (er_envelope r), et_payload_digest = er_payload_digest r,
      et_event_identity_digest = identity, et_acknowledgement = er_acknowledgement r\<rparr>"

text \<open>The loop over the drained events: the new tombstones and the retained records.\<close>

fun compact_events ::
  "'b journal_env \<Rightarrow> (event_record \<Rightarrow> bool) \<Rightarrow> event_record list
   \<Rightarrow> journal_error + event_tombstone list \<times> event_record list" where
  "compact_events env p [] = Inr ([], [])"
| "compact_events env p (r # rs) =
     (if p r
      then and_then (event_identity_digest env (er_envelope r)) (\<lambda>identity.
           and_then (compact_events env p rs) (\<lambda>(ts, kept).
           Inr (event_to_tombstone r identity # ts, kept)))
      else and_then (compact_events env p rs) (\<lambda>(ts, kept). Inr (ts, r # kept)))"

definition compact_op :: "'b journal_env \<Rightarrow> string \<Rightarrow> unit file_op" where
  "compact_op env s now f =
     Some
       (let session = session_of f s;
            compactable = command_compactable s (sj_processed_through_seq session);
            f1 = f\<lparr>jf_commands := filter (\<lambda>r. \<not> compactable r) (jf_commands f),
                   jf_command_tombstones := jf_command_tombstones f
                     @ map command_to_tombstone (filter compactable (jf_commands f))\<rparr>
        in and_then (compact_events env
                (event_compactable s (sj_event_ack_through_seq session) (sj_event_ack_sparse session))
                (jf_events f)) (\<lambda>(ts, kept).
           Inr ((), f1\<lparr>jf_events := kept, jf_event_tombstones := jf_event_tombstones f @ ts\<rparr>)))"

definition compact_session :: "'b journal_env \<Rightarrow> string \<Rightarrow> ('b, 'e, unit) jm" where
  "compact_session env s = jupdate env (compact_op env s)"

definition complete_command ::
  "'b journal_env \<Rightarrow> string \<Rightarrow> dispatch_outcome \<Rightarrow> event list \<Rightarrow> ('b, 'e, event_envelope list) jm" where
  "complete_command env cid out runtime_events =
     jbind (command_record_of cid) (\<lambda>r.
     jbind (finish_command env cid out runtime_events) (\<lambda>emitted.
     jbind (compact_session env (cr_session_id r)) (\<lambda>_. jreturn emitted)))"

section \<open>Event operations\<close>

definition append_event_op :: "'b journal_env \<Rightarrow> string \<Rightarrow> string \<Rightarrow> event \<Rightarrow> appended_event file_op" where
  "append_event_op env eid sid ev now f =
     Some
       (case find (\<lambda>r. er_daemon_id r = env_daemon_id env \<and> ee_event_id (er_envelope r) = eid) (jf_events f) of
          Some existing \<Rightarrow>
            if ee_session_id (er_envelope existing) \<noteq> sid \<or> ee_event (er_envelope existing) \<noteq> ev
            then Inl (IdentityConflict ''event ID is already bound to different event data'')
            else Inr (\<lparr>ap_envelope = er_envelope existing, ap_duplicate = True\<rparr>, f)
        | None \<Rightarrow>
            (case find (\<lambda>t. et_daemon_id t = env_daemon_id env \<and> et_event_id t = eid) (jf_event_tombstones f) of
               Some t \<Rightarrow>
                 if et_session_id t \<noteq> sid
                 then Inl (IdentityConflict ''event ID tombstone belongs to another session'')
                 else
                   (let candidate = \<lparr>ee_event_id = eid, ee_session_id = sid,
                          ee_daemon_event_seq = et_daemon_event_seq t, ee_sent_at = [],
                          ee_schema_version = SCHEMA_VERSION, ee_event = ev\<rparr>
                    in and_then (event_identity_digest env candidate) (\<lambda>d.
                       if et_event_identity_digest t \<noteq> d
                       then Inl (IdentityConflict ''event ID tombstone payload conflict'')
                       else Inr (\<lparr>ap_envelope = candidate\<lparr>ee_sent_at := now 0\<rparr>, ap_duplicate = True\<rparr>, f)))
             | None \<Rightarrow>
                 (let e = journal_event f eid sid (now 0) ev in
                  and_then (map_err Protocol (daemon_frame_validate (DF_Event e))) (\<lambda>_.
                  and_then (event_payload_digest env e) (\<lambda>digest.
                  and_then (validate_event_identity f (env_daemon_id env) e digest) (\<lambda>_.
                  Inr (\<lparr>ap_envelope = e, ap_duplicate = False\<rparr>,
                       f\<lparr>jf_events := jf_events f @ [new_event_record env e digest]\<rparr>)))))))"

definition append_event :: "'b journal_env \<Rightarrow> string \<Rightarrow> string \<Rightarrow> event \<Rightarrow> ('b, 'e, appended_event) jm" where
  "append_event env eid sid ev = jupdate env (append_event_op env eid sid ev)"

definition append_envelope_op ::
  "'b journal_env \<Rightarrow> event_envelope \<Rightarrow> string \<Rightarrow> bool \<Rightarrow> appended_event file_op" where
  "append_envelope_op env e digest duplicate now f =
     Some
       (and_then (validate_event_identity f (env_daemon_id env) e digest) (\<lambda>_.
        case find (\<lambda>r. ee_event_id (er_envelope r) = ee_event_id e) (jf_events f) of
          Some existing \<Rightarrow> Inr (\<lparr>ap_envelope = er_envelope existing, ap_duplicate = True\<rparr>, f)
        | None \<Rightarrow>
            if list_ex (\<lambda>t. et_event_id t = ee_event_id e) (jf_event_tombstones f)
            then Inr (\<lparr>ap_envelope = e, ap_duplicate = True\<rparr>, f)
            else
              (let expected = next_event_sequence f (ee_session_id e) in
               if ee_daemon_event_seq e \<noteq> expected
               then Inl (IdentityConflict
                      (''event sequence '' @ show_nat (unat (ee_daemon_event_seq e))
                       @ '' is not next allocated sequence '' @ show_nat (unat expected)))
               else Inr (\<lparr>ap_envelope = e, ap_duplicate = duplicate\<rparr>,
                         f\<lparr>jf_events := jf_events f @ [new_event_record env e digest]\<rparr>))))"

definition append_event_envelope ::
  "'b journal_env \<Rightarrow> event_envelope \<Rightarrow> string \<Rightarrow> bool \<Rightarrow> ('b, 'e, appended_event) jm" where
  "append_event_envelope env e digest duplicate =
     jbind (jlift (map_err Protocol (daemon_frame_validate (DF_Event e)))) (\<lambda>_.
     jbind (jlift (event_payload_digest env e)) (\<lambda>actual.
     if actual \<noteq> digest
     then jlift (Inl (IdentityConflict ''event payload digest does not match envelope''))
     else jupdate env (append_envelope_op env e digest duplicate)))"

definition set_acknowledged :: "event_ack_status \<Rightarrow> event_record \<Rightarrow> event_record" where
  "set_acknowledged status r = r\<lparr>er_acknowledged := True, er_acknowledgement := Some status\<rparr>"

definition note_ack :: "event_ack \<Rightarrow> journal_file \<Rightarrow> journal_file" where
  "note_ack ack f =
     (let session = session_of f (ea_session_id ack) in
      put_session (ea_session_id ack)
        (if sj_event_ack_through_seq session < ea_daemon_event_seq ack
         then session\<lparr>sj_event_ack_sparse := merge_sparse (sj_event_ack_sparse session) [ea_daemon_event_seq ack]\<rparr>
         else session) f)"

definition ack_op :: "event_ack \<Rightarrow> unit file_op" where
  "ack_op ack now f =
     (let is_event = (\<lambda>r. ee_event_id (er_envelope r) = ea_event_id ack);
          is_tombstone = (\<lambda>t. et_event_id t = ea_event_id ack)
      in case find is_event (jf_events f) of
           None \<Rightarrow>
             (case find is_tombstone (jf_event_tombstones f) of
                None \<Rightarrow> Some (Inl (IdentityConflict ''event ACK references unknown event''))
              | Some t \<Rightarrow>
                  if et_session_id t \<noteq> ea_session_id ack \<or> et_daemon_event_seq t \<noteq> ea_daemon_event_seq ack
                     \<or> (et_acknowledgement t \<noteq> None \<and> et_acknowledgement t \<noteq> Some (ea_status ack))
                  then Some (Inl (IdentityConflict ''late event ACK conflicts with tombstone''))
                  else if et_acknowledgement t = None
                  then Some (Inr ((), f\<lparr>jf_event_tombstones := update_first is_tombstone
                              (\<lambda>t. t\<lparr>et_acknowledgement := Some (ea_status ack)\<rparr>) (jf_event_tombstones f)\<rparr>))
                  else Some (Inr ((), f)))
         | Some r \<Rightarrow>
             if ee_session_id (er_envelope r) \<noteq> ea_session_id ack
                \<or> ee_daemon_event_seq (er_envelope r) \<noteq> ea_daemon_event_seq ack
             then Some (Inl (IdentityConflict ''event ACK identity conflicts with journal''))
             else if er_acknowledged r
             then (case er_acknowledgement r of
                     Some status \<Rightarrow>
                       if status \<noteq> ea_status ack
                       then Some (Inl (IdentityConflict ''event ACK status conflicts with retained terminal outcome''))
                       else Some (Inr ((), f))
                   | None \<Rightarrow>
                       Some (Inr ((), f\<lparr>jf_events := update_first is_event
                         (\<lambda>r. r\<lparr>er_acknowledgement := Some (ea_status ack)\<rparr>) (jf_events f)\<rparr>)))
             else
               (let f1 = f\<lparr>jf_events := update_first is_event (set_acknowledged (ea_status ack)) (jf_events f)\<rparr>
                in case advance_event_ack (note_ack ack f1) (ea_session_id ack) of
                     None \<Rightarrow> None
                   | Some f2 \<Rightarrow> Some (Inr ((), f2))))"

definition acknowledge_event :: "'b journal_env \<Rightarrow> event_ack \<Rightarrow> ('b, 'e, unit) jm" where
  "acknowledge_event env ack =
     jbind (jlift (map_err Protocol (server_frame_validate (SF_EventAck ack)))) (\<lambda>_.
     jupdate env (ack_op ack))"

definition reconcile_local :: "session_reconcile_state \<Rightarrow> session_journal \<Rightarrow> session_journal" where
  "reconcile_local remote local =
     (let through = max (sj_event_ack_through_seq local) (sr_event_ack_through_seq remote) in
      local\<lparr>sj_server_command_ack_through_seq :=
              max (sj_server_command_ack_through_seq local) (sr_command_ack_through_seq remote),
            sj_event_ack_through_seq := through,
            sj_event_ack_sparse :=
              filter (\<lambda>n. through < n) (merge_sparse (sj_event_ack_sparse local) (sr_event_ack_sparse remote))\<rparr>)"

definition reconcile_event :: "string \<Rightarrow> session_journal \<Rightarrow> event_record \<Rightarrow> event_record" where
  "reconcile_event s local r =
     (if ee_session_id (er_envelope r) = s
         \<and> (ee_daemon_event_seq (er_envelope r) \<le> sj_event_ack_through_seq local
            \<or> ee_daemon_event_seq (er_envelope r) \<in> set (sj_event_ack_sparse local))
      then r\<lparr>er_acknowledged := True\<rparr> else r)"

definition reconcile_one :: "session_reconcile_state \<Rightarrow> journal_file \<Rightarrow> journal_file" where
  "reconcile_one remote f =
     (let s = sr_session_id remote;
          local = reconcile_local remote (session_of f s)
      in (put_session s local f)\<lparr>jf_events := map (reconcile_event s local) (jf_events f)\<rparr>)"

definition reconcile_op :: "session_reconcile_state list \<Rightarrow> unit file_op" where
  "reconcile_op sessions now f = Some (Inr ((), fold reconcile_one sessions f))"

definition apply_reconciliation :: "'b journal_env \<Rightarrow> reconcile_snapshot \<Rightarrow> ('b, 'e, unit) jm" where
  "apply_reconciliation env snapshot =
     jbind (jlift (map_err Protocol (server_frame_validate (SF_Reconcile snapshot)))) (\<lambda>_.
     jupdate env (reconcile_op (rs_sessions snapshot)))"

definition replayable :: "string \<Rightarrow> session_reconcile_state \<Rightarrow> event_record \<Rightarrow> bool" where
  "replayable s remote r \<longleftrightarrow>
     ee_session_id (er_envelope r) = s
     \<and> sr_event_ack_through_seq remote < ee_daemon_event_seq (er_envelope r)
     \<and> ee_daemon_event_seq (er_envelope r) \<notin> set (sr_event_ack_sparse remote) \<and> \<not> er_acknowledged r"

definition replay_events :: "string \<Rightarrow> session_reconcile_state \<Rightarrow> ('b, 'e, event_envelope list) jm" where
  "replay_events s remote =
     jbind (jlift (map_err Protocol (server_frame_validate
              (SF_Reconcile \<lparr>rs_schema_version = SCHEMA_VERSION, rs_sessions = [remote]\<rparr>)))) (\<lambda>_.
     jread (\<lambda>f. Inr (sort_key ee_daemon_event_seq (map er_envelope (filter (replayable s remote) (jf_events f))))))"

definition pending_commands :: "string \<Rightarrow> ('b, 'e, command_envelope list) jm" where
  "pending_commands s =
     jread (\<lambda>f. Inr (sort_key ce_server_command_seq
       (map record_to_envelope (filter (\<lambda>r. cr_session_id r = s \<and> cr_state r \<noteq> Terminal) (jf_commands f)))))"

section \<open>Opening\<close>

definition wrong_identity :: "string \<Rightarrow> journal_file \<Rightarrow> bool" where
  "wrong_identity daemon_id f \<longleftrightarrow>
     list_ex (\<lambda>r. cr_daemon_id r \<noteq> daemon_id) (jf_commands f)
     \<or> list_ex (\<lambda>r. ct_daemon_id r \<noteq> daemon_id) (jf_command_tombstones f)
     \<or> list_ex (\<lambda>r. er_daemon_id r \<noteq> daemon_id) (jf_events f)
     \<or> list_ex (\<lambda>r. et_daemon_id r \<noteq> daemon_id) (jf_event_tombstones f)"

text \<open>\<open>Journal::open_with_config\<close> on the file the disk holds; a new journal is persisted. The read
  of an existing file and the change of its permissions are taken to succeed.\<close>

definition open_with_config ::
  "'b journal_env \<Rightarrow> 'b option \<Rightarrow> nat \<Rightarrow> nat \<Rightarrow> 'e \<Rightarrow> journal_error + ('b, 'e) journal_state" where
  "open_with_config env disk clock writes ex =
     and_then (case disk of
                 None \<Rightarrow> Inr default_file
               | Some bytes \<Rightarrow> map_err Format (env_from_slice env bytes)) (\<lambda>f.
     if jf_format_version f \<noteq> 1 then Inl (Format (''unsupported format version '' @ show_nat (unat (jf_format_version f))))
     else if wrong_identity (env_daemon_id env) f
     then Inl (Format ''journal belongs to another daemon identity'')
     else
       (let st = \<lparr>js_file = f, js_disk = disk, js_clock = clock, js_writes = writes, js_exec = ex\<rparr> in
        case disk of
          Some _ \<Rightarrow> Inr st
        | None \<Rightarrow>
            (case persist_locked env f st of
               (Inl e, _) \<Rightarrow> Inl e
             | (Inr _, disk') \<Rightarrow> Inr (st\<lparr>js_disk := disk', js_writes := Suc writes\<rparr>))))"

definition open_journal ::
  "'b journal_env \<Rightarrow> 'b option \<Rightarrow> nat \<Rightarrow> nat \<Rightarrow> 'e \<Rightarrow> journal_error + ('b, 'e) journal_state" where
  "open_journal env = open_with_config (env\<lparr>env_gap_limit := 256\<rparr>)"

record journal_snapshot =
  sn_command_count :: nat
  sn_command_tombstone_count :: nat
  sn_event_count :: nat
  sn_event_tombstone_count :: nat
  sn_processed_through :: "(string \<times> u64) list"
  sn_event_ack_through :: "(string \<times> u64) list"

definition journal_snapshot_of :: "('b, 'e, journal_snapshot) jm" where
  "journal_snapshot_of =
     jread (\<lambda>f. Inr \<lparr>sn_command_count = length (jf_commands f),
       sn_command_tombstone_count = length (jf_command_tombstones f),
       sn_event_count = length (jf_events f), sn_event_tombstone_count = length (jf_event_tombstones f),
       sn_processed_through = map (map_prod id sj_processed_through_seq) (jf_sessions f),
       sn_event_ack_through = map (map_prod id sj_event_ack_through_seq) (jf_sessions f)\<rparr>)"

section \<open>Dispatch and recovery\<close>

text \<open>The trait \<open>RuntimeExecutor\<close>, as the journal calls it: the arguments are the session, the
  runtime operation, the command identity and the command; \<open>'e\<close> is the executor's own state.\<close>

record 'e runtime_executor =
  ex_dispatch_for_session :: "string \<Rightarrow> string \<Rightarrow> string \<Rightarrow> command \<Rightarrow> 'e \<Rightarrow> dispatch_outcome \<times> 'e"
  ex_take_events :: "string \<Rightarrow> 'e \<Rightarrow> event list \<times> 'e"
  ex_recover_for_session :: "string \<Rightarrow> string \<Rightarrow> string \<Rightarrow> command \<Rightarrow> 'e \<Rightarrow> recovery_outcome \<times> 'e"

definition terminal_result ::
  "command_ack \<Rightarrow> dispatch_outcome \<Rightarrow> bool \<Rightarrow> event_envelope list \<Rightarrow> command_process_result" where
  "terminal_result ack out duplicate emitted =
     \<lparr>pr_acknowledgement = ack, pr_state = Terminal, pr_outcome = Some out, pr_duplicate = duplicate,
      pr_buffered = False, pr_emitted_events = emitted\<rparr>"

definition process_command ::
  "'b journal_env \<Rightarrow> 'e runtime_executor \<Rightarrow> command_envelope \<Rightarrow> ('b, 'e, command_process_result) jm" where
  "process_command env ex envelope =
     jbind (if is_cancel (ce_command envelope) then accept_control_command env envelope
            else accept_command env envelope) (\<lambda>accepted.
     case ac_command accepted of
       None \<Rightarrow> jreturn (ac_result accepted)
     | Some c \<Rightarrow>
         jbind (jexec (ex_dispatch_for_session ex (ce_session_id c) (ce_command_id c) (ce_command_id c) (ce_command c)))
           (\<lambda>out.
         jbind (jexec (ex_take_events ex (ce_session_id c))) (\<lambda>runtime_events.
         jbind (finish_command env (ce_command_id c) out runtime_events) (\<lambda>emitted.
         jbind (compact_session env (ce_session_id c)) (\<lambda>_.
         jreturn (terminal_result (pr_acknowledgement (ac_result accepted)) out
                    (pr_duplicate (ac_result accepted)) emitted))))))"

text \<open>The loop of \<open>process_ready\<close>; not returning is \<open>None\<close>.\<close>

partial_function (option) process_ready ::
  "'b journal_env \<Rightarrow> 'e runtime_executor \<Rightarrow> string \<Rightarrow> ('b, 'e) journal_state
   \<Rightarrow> ((journal_error + command_process_result list) \<times> ('b, 'e) journal_state) option" where
  "process_ready env ex s st =
     (case next_ready (js_file st) s of
        None \<Rightarrow> Some (Inr [], st)
      | Some c \<Rightarrow>
          Option.bind (process_command env ex c st) (\<lambda>(r, st').
            case r of
              Inl err \<Rightarrow> Some (Inl err, st')
            | Inr x \<Rightarrow>
                Option.bind (process_ready env ex s st') (\<lambda>(rs, st'').
                  Some (case rs of Inl err \<Rightarrow> Inl err | Inr xs \<Rightarrow> Inr (x # xs), st''))))"

declare process_ready.simps [code]

definition recovered_outcome :: "string \<Rightarrow> recovery_outcome \<Rightarrow> dispatch_outcome" where
  "recovered_outcome cid r =
     (case r of
        RecoverySucceeded \<Rightarrow> DispatchSucceeded
      | RecoveryFailed reason \<Rightarrow> DispatchFailed reason
      | RecoveryUnknown \<Rightarrow> OutcomeUnknown (unknown_reason cid))"

definition ask_runtime :: "'e runtime_executor \<Rightarrow> command_record \<Rightarrow> ('b, 'e, dispatch_outcome) jm" where
  "ask_runtime ex r =
     jbind (jexec (ex_recover_for_session ex (cr_session_id r) (cr_runtime_operation_id r)
              (cr_command_id r) (cr_command r))) (\<lambda>answer.
     jreturn (recovered_outcome (cr_command_id r) answer))"

text \<open>The body of the first loop of \<open>recover_for_scheduler\<close>.\<close>

definition recover_started ::
  "'b journal_env \<Rightarrow> 'e runtime_executor \<Rightarrow> command_record \<Rightarrow> ('b, 'e, command_process_result) jm" where
  "recover_started env ex r =
     jbind (ask_runtime ex r) (\<lambda>out.
     jbind (complete_command env (cr_command_id r) out []) (\<lambda>emitted.
     jreturn (terminal_result (command_ack_of r) out False emitted)))"

definition recover_for_scheduler ::
  "'b journal_env \<Rightarrow> 'e runtime_executor \<Rightarrow> ('b, 'e, recovery_actions) jm" where
  "recover_for_scheduler env ex =
     jbind (jread (\<lambda>f. Inr (filter (\<lambda>r. cr_state r = DispatchStarted) (jf_commands f)))) (\<lambda>records.
     jbind (jfor (recover_started env ex) records) (\<lambda>results.
     jbind (jread (\<lambda>f. Inr (session_ids f))) (\<lambda>sids.
     jbind (jfor (accept_next_ready_command env) sids) (\<lambda>accepted.
     let taken = List.map_filter id accepted in
     jreturn \<lparr>rv_results = results @ map ac_result taken,
              rv_commands = List.map_filter ac_command taken\<rparr>))))"

text \<open>The body of the first loop of \<open>recover\<close>.\<close>

definition recover_record ::
  "'b journal_env \<Rightarrow> 'e runtime_executor \<Rightarrow> command_record \<Rightarrow> ('b, 'e, command_process_result) jm" where
  "recover_record env ex r =
     (if cr_state r = Received then process_command env ex (record_to_envelope r)
      else
        jbind (ask_runtime ex r) (\<lambda>out.
        jbind (finish_command env (cr_command_id r) out []) (\<lambda>emitted.
        jbind (compact_session env (cr_session_id r)) (\<lambda>_.
        jreturn (terminal_result (command_ack_of r) out False emitted)))))"

definition recover ::
  "'b journal_env \<Rightarrow> 'e runtime_executor \<Rightarrow> ('b, 'e, command_process_result list) jm" where
  "recover env ex =
     jbind (jread (\<lambda>f. Inr (filter (\<lambda>r. cr_state r \<noteq> Terminal) (jf_commands f)))) (\<lambda>records.
     jbind (jfor (recover_record env ex) records) (\<lambda>results.
     jbind (jread (\<lambda>f. Inr (session_ids f))) (\<lambda>sids.
     jbind (jfor (process_ready env ex) sids) (\<lambda>more. jreturn (results @ concat more)))))"

end
