(* ===== verification/Journal_Trace.thy ===== *)
theory Journal_Trace
  imports Journal_Model
begin

text \<open>
  Interleavings of the daemon journal.

  Every mutation of the journal is one critical section of \<open>Journal::update\<close>; a method is a
  sequence of such sections. \<open>journal_request\<close> names the critical sections and \<open>request_op\<close>
  gives their closures; \<open>journal_step\<close> lets any of them run next, with any fate of its file
  write, and lets the daemon restart from the disk at any moment. The methods are shown to be
  traces of these steps, so an invariant of the closures (the locale \<open>file_invariant\<close>) holds
  in every state that any interleaving of calls, failures and restarts can reach.
\<close>

section \<open>Generic facts about the model\<close>

named_theorems jm_simps \<open>evaluation of journal methods\<close>

lemma jm_run [jm_simps]:
  "jreturn a st = Some (Inr a, st)"
  "jlift r st = Some (r, st)"
  "jread g st = Some (g (js_file st), st)"
  "jexec h st = (let (a, x) = h (js_exec st) in Some (Inr a, st\<lparr>js_exec := x\<rparr>))"
  by (simp_all add: jreturn_def jlift_def jread_def jexec_def)

lemma jbind_Some_iff:
  "jbind m k st = Some (r, st') \<longleftrightarrow>
     (\<exists>e. m st = Some (Inl e, st') \<and> r = Inl e) \<or>
     (\<exists>a st1. m st = Some (Inr a, st1) \<and> k a st1 = Some (r, st'))"
  by (auto simp: jbind_def split: option.splits sum.splits prod.splits)

lemma jbind_Inr_iff:
  "jbind m k st = Some (Inr b, st') \<longleftrightarrow>
     (\<exists>a st1. m st = Some (Inr a, st1) \<and> k a st1 = Some (Inr b, st'))"
  by (simp add: jbind_Some_iff)

lemma jlift_bind_Inr_iff:
  "jbind (jlift r) k st = Some (Inr b, st') \<longleftrightarrow> (\<exists>a. r = Inr a \<and> k a st = Some (Inr b, st'))"
  by (auto simp: jbind_Inr_iff jm_simps)

lemma jread_bind_Inr_iff:
  "jbind (jread g) k st = Some (Inr b, st') \<longleftrightarrow> (\<exists>a. g (js_file st) = Inr a \<and> k a st = Some (Inr b, st'))"
  by (auto simp: jbind_Inr_iff jm_simps)

lemma map_of_bt_put [simp]: "map_of (bt_put k v m) = (map_of m)(k \<mapsto> v)"
  by (induction k v m rule: bt_put.induct) auto

lemma session_of_put [simp]:
  "session_of (put_session s x f) s' = (if s' = s then x else session_of f s')"
  by (simp add: session_of_def put_session_def)

lemma put_session_fields [simp]:
  "jf_commands (put_session s x f) = jf_commands f"
  "jf_command_tombstones (put_session s x f) = jf_command_tombstones f"
  "jf_events (put_session s x f) = jf_events f"
  "jf_event_tombstones (put_session s x f) = jf_event_tombstones f"
  by (simp_all add: put_session_def)

lemma session_of_fields [simp]:
  "session_of (f\<lparr>jf_commands := cs\<rparr>) = session_of f"
  "session_of (f\<lparr>jf_command_tombstones := ts\<rparr>) = session_of f"
  "session_of (f\<lparr>jf_events := es\<rparr>) = session_of f"
  "session_of (f\<lparr>jf_event_tombstones := us\<rparr>) = session_of f"
  by (auto simp: session_of_def)

lemma default_session_fields [simp]:
  "sj_processed_through_seq default_session = 0" "sj_event_ack_through_seq default_session = 0"
  "sj_event_ack_sparse default_session = []" "sj_server_command_ack_through_seq default_session = 0"
  by (simp_all add: default_session_def)

lemma default_file_fields [simp]:
  "jf_format_version default_file = 1" "jf_sessions default_file = []"
  "jf_commands default_file = []" "jf_command_tombstones default_file = []"
  "jf_events default_file = []" "jf_event_tombstones default_file = []"
  "session_of default_file s = default_session"
  by (simp_all add: default_file_def session_of_def)

lemma expected_command_sequence_alt:
  "expected_command_sequence f s = sat_inc (sj_processed_through_seq (session_of f s))"
proof -
  have "sat_inc 0 = 1" by (simp add: sat_inc_def u64_max_def)
  then show ?thesis
    by (simp add: expected_command_sequence_def session_of_def split: option.split)
qed

section \<open>The sequence loops\<close>

lemma processed_loop_Some:
  assumes "processed_loop t cur = Some n"
  shows "cur \<le> n \<and> (\<forall>k. cur < k \<and> k \<le> n \<longrightarrow> t k) \<and> \<not> t (sat_inc n)"
proof (rule processed_loop.raw_induct[where P = "\<lambda>t cur n. cur \<le> n \<and> (\<forall>k. cur < k \<and> k \<le> n \<longrightarrow> t k) \<and> \<not> t (sat_inc n)",
        OF _ assms], goal_cases)
  case (1 loop t cur n)
  show ?case
  proof (cases "t (sat_inc cur)")
    case True
    then have "loop t (sat_inc cur) = Some n" using 1(2) by (simp add: Let_def)
    from 1(1)[OF this] have ih: "sat_inc cur \<le> n" "\<forall>k. sat_inc cur < k \<and> k \<le> n \<longrightarrow> t k" "\<not> t (sat_inc n)"
      by auto
    have "t k" if "cur < k" "k \<le> n" for k
      using less_imp_sat_inc_le[OF that(1)] ih(2) True that(2) by (cases "k = sat_inc cur") auto
    with ih le_sat_inc[of cur] show ?thesis by (meson order.trans)
  next
    case False
    then show ?thesis using 1(2) by (auto simp: Let_def)
  qed
qed

lemma processed_loop_below_max:
  assumes "processed_loop t cur = Some n" shows "n = cur \<or> n \<noteq> u64_max"
  using processed_loop_Some[OF assms] by (metis le_less sat_inc_max order.refl)

text \<open>The loops return exactly when some sequence number ends the run; a run that reaches
  \<open>u64::MAX\<close> never does, because the saturating successor of \<open>u64::MAX\<close> is itself.\<close>

lemma processed_loop_returns:
  assumes "cur \<le> k" "\<not> t (sat_inc k)"
  shows "\<exists>n. processed_loop t cur = Some n \<and> n \<le> k"
  using assms(1)
proof (induction "unat (k - cur)" arbitrary: cur rule: less_induct)
  case less
  show ?case
  proof (cases "t (sat_inc cur)")
    case True
    have ne: "cur \<noteq> k" using True assms(2) by auto
    then have lt: "cur < k" using less.prems by auto
    then have "cur \<noteq> u64_max" by (metis leD u64_le_max)
    have le: "sat_inc cur \<le> k" by (rule less_imp_sat_inc_le[OF lt])
    have "unat (k - sat_inc cur) = unat k - unat (sat_inc cur)" by (rule unat_sub[OF le])
    moreover have "unat (k - cur) = unat k - unat cur" by (rule unat_sub[OF less.prems])
    moreover have "unat (sat_inc cur) = Suc (unat cur)" by (rule unat_sat_inc[OF \<open>cur \<noteq> u64_max\<close>])
    moreover have "unat cur < unat k" using lt by (simp add: word_less_nat_alt)
    ultimately have "unat (k - sat_inc cur) < unat (k - cur)" by linarith
    then have "\<exists>n. processed_loop t (sat_inc cur) = Some n \<and> n \<le> k"
      by (rule less.hyps[OF _ le])
    with True show ?thesis by (subst processed_loop.simps) (simp add: Let_def)
  next
    case False
    with less.prems show ?thesis by (subst processed_loop.simps) (simp add: Let_def)
  qed
qed

lemma processed_loop_None_iff:
  "processed_loop t cur = None \<longleftrightarrow> (\<forall>k \<ge> cur. t (sat_inc k))"
proof
  assume "processed_loop t cur = None"
  then show "\<forall>k \<ge> cur. t (sat_inc k)" using processed_loop_returns by fastforce
next
  assume all: "\<forall>k \<ge> cur. t (sat_inc k)"
  show "processed_loop t cur = None"
  proof (rule ccontr)
    assume "processed_loop t cur \<noteq> None"
    then obtain n where "processed_loop t cur = Some n" by auto
    with processed_loop_Some[OF this] all show False by auto
  qed
qed

lemma event_ack_loop_Some:
  assumes "event_ack_loop t cur sparse = Some (n, sparse')"
  shows "processed_loop t cur = Some n \<and> set sparse' \<subseteq> set sparse
    \<and> (\<forall>q \<in> set sparse. q \<in> set sparse' \<or> q \<le> n) \<and> (n = cur \<or> (\<forall>q \<in> set sparse'. n < q))
    \<and> (sorted_wrt (<) sparse \<longrightarrow> sorted_wrt (<) sparse')"
proof -
  define P where "P = (\<lambda>t cur sparse (n, sparse').
    processed_loop t cur = Some n \<and> set sparse' \<subseteq> set sparse
    \<and> (\<forall>q \<in> set sparse. q \<in> set sparse' \<or> q \<le> n) \<and> (n = cur \<or> (\<forall>q \<in> set sparse'. n < q))
    \<and> (sorted_wrt (<) sparse \<longrightarrow> sorted_wrt (<) sparse'))"
  have "P t cur sparse (n, sparse')"
  proof (rule event_ack_loop.raw_induct[where P = P, OF _ assms], goal_cases)
    case (1 loop t cur sparse r)
    obtain n sparse' where r: "r = (n, sparse')" by (cases r)
    show ?case
    proof (cases "t (sat_inc cur)")
      case True
      define sp where "sp = filter (\<lambda>q. sat_inc cur < q) sparse"
      have "loop t (sat_inc cur) sp = Some r" using 1(2) True by (simp add: Let_def sp_def)
      note ih = 1(1)[OF this, unfolded P_def r prod.case]
      have le: "sat_inc cur \<le> n" using ih processed_loop_Some by blast
      have p: "processed_loop t cur = Some n" using ih True by (subst processed_loop.simps) (simp add: Let_def)
      have "q \<in> set sparse' \<or> q \<le> n" if "q \<in> set sparse" for q
        using that ih le by (cases "sat_inc cur < q") (auto simp: sp_def)
      moreover have "\<forall>q \<in> set sparse'. n < q" using ih by (auto simp: sp_def)
      moreover have "sorted_wrt (<) sparse \<longrightarrow> sorted_wrt (<) sparse'"
        using ih by (simp add: sp_def sorted_wrt_filter)
      ultimately show ?thesis using p ih by (auto simp: P_def r sp_def)
    next
      case False
      have "processed_loop t cur = Some cur" using False by (subst processed_loop.simps) (simp add: Let_def)
      then show ?thesis using 1(2) False by (auto simp: P_def Let_def)
    qed
  qed
  then show ?thesis by (simp add: P_def)
qed

lemma event_ack_loop_returns:
  assumes "processed_loop t cur = Some n"
  shows "\<exists>x. event_ack_loop t cur sparse = Some x"
proof -
  have "\<forall>sparse. \<exists>x. event_ack_loop t cur sparse = Some x"
  proof (rule processed_loop.raw_induct[where P = "\<lambda>t cur n. \<forall>sparse. \<exists>x. event_ack_loop t cur sparse = Some x",
        OF _ assms], goal_cases)
    case (1 loop t cur n)
    show ?case
    proof
      fix sparse
      show "\<exists>x. event_ack_loop t cur sparse = Some x"
      proof (cases "t (sat_inc cur)")
        case True
        then have "loop t (sat_inc cur) = Some n" using 1(2) by (simp add: Let_def)
        from 1(1)[OF this] True show ?thesis by (subst event_ack_loop.simps) (simp add: Let_def)
      next
        case False
        then show ?thesis by (subst event_ack_loop.simps) (simp add: Let_def)
      qed
    qed
  qed
  then show ?thesis by blast
qed

lemma event_ack_loop_None_iff:
  "event_ack_loop t cur sparse = None \<longleftrightarrow> (\<forall>k \<ge> cur. t (sat_inc k))"
proof
  assume none: "event_ack_loop t cur sparse = None"
  show "\<forall>k \<ge> cur. t (sat_inc k)"
  proof (rule ccontr)
    assume "\<not> ?thesis"
    then obtain n where "processed_loop t cur = Some n" using processed_loop_None_iff by (metis option.exhaust)
    then have "\<exists>x. event_ack_loop t cur sparse = Some x"
      by (rule event_ack_loop_returns)
    with none show False by simp
  qed
next
  assume "\<forall>k \<ge> cur. t (sat_inc k)"
  then have "processed_loop t cur = None" by (simp add: processed_loop_None_iff)
  then show "event_ack_loop t cur sparse = None"
    by (cases "event_ack_loop t cur sparse") (use event_ack_loop_Some in fastforce)+
qed

section \<open>Critical sections\<close>

datatype journal_request =
    Prepare command_envelope string "string option"
  | MarkStarted string
  | Finish string dispatch_outcome "event list"
  | Compact string
  | Append string string event
  | AppendEnvelope event_envelope string bool
  | Acknowledge event_ack
  | Reconcile reconcile_snapshot

text \<open>What the methods have checked when they enter the critical section.\<close>

fun admissible :: "'b journal_env \<Rightarrow> journal_request \<Rightarrow> bool" where
  "admissible env (Prepare e digest mid) \<longleftrightarrow>
     command_envelope_validate e = Inr () \<and> command_payload_digest env e = Inr digest
     \<and> mid = message_id (ce_command e)"
| "admissible env (AppendEnvelope e digest _) \<longleftrightarrow>
     event_envelope_validate e = Inr () \<and> event_payload_digest env e = Inr digest"
| "admissible env (Acknowledge ack) \<longleftrightarrow> event_ack_validate ack = Inr ()"
| "admissible env (Reconcile snapshot) \<longleftrightarrow> reconcile_validate snapshot = Inr ()"
| "admissible env _ \<longleftrightarrow> True"

definition op_map :: "('a \<Rightarrow> 'c) \<Rightarrow> 'a file_op \<Rightarrow> 'c file_op" where
  "op_map g operation now f = map_option (map_sum id (map_prod g id)) (operation now f)"

text \<open>The label of a critical section is the command that it releases to the runtime, if any.\<close>

fun request_op :: "'b journal_env \<Rightarrow> journal_request \<Rightarrow> string option file_op" where
  "request_op env (Prepare e digest mid) = op_map (\<lambda>_. None) (prepare_op env e digest mid)"
| "request_op env (MarkStarted cid) = op_map (\<lambda>started. if started then Some cid else None) (mark_op cid)"
| "request_op env (Finish cid out evs) = op_map (\<lambda>_. None) (finish_op env cid out evs)"
| "request_op env (Compact s) = op_map (\<lambda>_. None) (compact_op env s)"
| "request_op env (Append eid sid ev) = op_map (\<lambda>_. None) (append_event_op env eid sid ev)"
| "request_op env (AppendEnvelope e digest dup) = op_map (\<lambda>_. None) (append_envelope_op env e digest dup)"
| "request_op env (Acknowledge ack) = op_map (\<lambda>_. None) (ack_op ack)"
| "request_op env (Reconcile snapshot) = op_map (\<lambda>_. None) (reconcile_op (rs_sessions snapshot))"

lemma op_map_Inr_iff:
  "op_map g operation now f = Some (Inr (l, f')) \<longleftrightarrow> (\<exists>a. operation now f = Some (Inr (a, f')) \<and> l = g a)"
  by (cases "operation now f"; cases "the (operation now f)") (auto simp: op_map_def)

lemma jupdate_op_map:
  "jupdate env (op_map g operation) st = map_option (map_prod (map_sum id g) id) (jupdate env operation st)"
  by (simp add: jupdate_def op_map_def split: option.split sum.split prod.split)

section \<open>Steps and traces\<close>

definition label_of :: "journal_error + string option \<Rightarrow> string list" where
  "label_of r = (case r of Inr (Some cid) \<Rightarrow> [cid] | _ \<Rightarrow> [])"

lemma label_of_simps [simp]:
  "label_of (Inl e) = []" "label_of (Inr None) = []" "label_of (Inr (Some cid)) = [cid]"
  by (simp_all add: label_of_def)

lemma frame_validate_simps [simp]:
  "server_frame_validate (SF_Command e) = command_envelope_validate e"
  "server_frame_validate (SF_EventAck ack) = event_ack_validate ack"
  "server_frame_validate (SF_Reconcile snapshot) = reconcile_validate snapshot"
  "daemon_frame_validate (DF_Event v) = event_envelope_validate v"
  by (simp_all add: server_frame_validate_def daemon_frame_validate_def)

inductive journal_step ::
  "'b journal_env \<Rightarrow> ('b, 'e) journal_state \<Rightarrow> string list \<Rightarrow> ('b, 'e) journal_state \<Rightarrow> bool"
  for env where
  request: "admissible env req \<Longrightarrow> jupdate env (request_op env req) st = Some (r, st')
    \<Longrightarrow> journal_step env st (label_of r) st'"
| runtime: "journal_step env st [] (st\<lparr>js_exec := x\<rparr>)"
| restart: "open_with_config env (js_disk st) clock writes x = Inr st' \<Longrightarrow> journal_step env st [] st'"

inductive journal_trace ::
  "'b journal_env \<Rightarrow> ('b, 'e) journal_state \<Rightarrow> string list \<Rightarrow> ('b, 'e) journal_state \<Rightarrow> bool"
  for env where
  stop: "journal_trace env st [] st"
| more: "journal_step env st ls st1 \<Longrightarrow> journal_trace env st1 ms st2 \<Longrightarrow> journal_trace env st (ls @ ms) st2"

lemma journal_trace_one: "journal_step env st ls st' \<Longrightarrow> journal_trace env st ls st'"
  using journal_trace.more[OF _ journal_trace.stop] by fastforce

lemma journal_trace_append:
  "journal_trace env st ls st1 \<Longrightarrow> journal_trace env st1 ms st2 \<Longrightarrow> journal_trace env st (ls @ ms) st2"
  by (induction rule: journal_trace.induct) (auto intro: journal_trace.more)

section \<open>Methods are traces\<close>

text \<open>\<open>traced env m Q\<close>: a run of \<open>m\<close> is a trace, and if it succeeds then its value and the commands
  it has released satisfy \<open>Q\<close>.\<close>

definition traced :: "'b journal_env \<Rightarrow> ('b, 'e, 'a) jm \<Rightarrow> ('a \<Rightarrow> string list \<Rightarrow> bool) \<Rightarrow> bool" where
  "traced env m Q \<longleftrightarrow>
     (\<forall>st r st'. m st = Some (r, st') \<longrightarrow>
        (\<exists>ls. journal_trace env st ls st' \<and> (\<forall>a. r = Inr a \<longrightarrow> Q a ls)))"

lemma tracedD:
  "traced env m Q \<Longrightarrow> m st = Some (r, st') \<Longrightarrow>
     \<exists>ls. journal_trace env st ls st' \<and> (\<forall>a. r = Inr a \<longrightarrow> Q a ls)"
  by (simp add: traced_def)

lemma traced_mono: "traced env m Q \<Longrightarrow> (\<And>a ls. Q a ls \<Longrightarrow> R a ls) \<Longrightarrow> traced env m R"
  unfolding traced_def by meson

lemma traced_return: "Q a [] \<Longrightarrow> traced env (jreturn a) Q"
  by (auto simp: traced_def jm_simps intro: journal_trace.stop)

lemma traced_lift: "(\<And>a. r = Inr a \<Longrightarrow> Q a []) \<Longrightarrow> traced env (jlift r) Q"
  by (auto simp: traced_def jm_simps intro: journal_trace.stop)

lemma traced_read: "(\<And>a. Q a []) \<Longrightarrow> traced env (jread g) Q"
  by (auto simp: traced_def jm_simps intro: journal_trace.stop)

lemma traced_exec: "(\<And>a. Q a []) \<Longrightarrow> traced env (jexec g) Q"
  by (auto simp: traced_def jm_simps split: prod.splits intro!: journal_trace_one journal_step.runtime)

lemma traced_bind:
  assumes m: "traced env m Q" and k: "\<And>a ls. Q a ls \<Longrightarrow> traced env (k a) (\<lambda>b ms. R b (ls @ ms))"
  shows "traced env (jbind m k) R"
proof (unfold traced_def, intro allI impI)
  fix st r st' assume "jbind m k st = Some (r, st')"
  then consider e where "m st = Some (Inl e, st')" "r = Inl e"
    | a st1 where "m st = Some (Inr a, st1)" "k a st1 = Some (r, st')"
    by (auto simp: jbind_Some_iff)
  then show "\<exists>ls. journal_trace env st ls st' \<and> (\<forall>a. r = Inr a \<longrightarrow> R a ls)"
  proof cases
    case 1
    then show ?thesis using tracedD[OF m] by fastforce
  next
    case 2
    from tracedD[OF m 2(1)] obtain ls where 3: "journal_trace env st ls st1" "Q a ls" by auto
    from tracedD[OF k[OF 3(2)] 2(2)] obtain ms where
      4: "journal_trace env st1 ms st'" "\<forall>b. r = Inr b \<longrightarrow> R b (ls @ ms)" by auto
    then show ?thesis using journal_trace_append[OF 3(1) 4(1)] by blast
  qed
qed

text \<open>A first part that releases nothing.\<close>

lemma traced_then:
  assumes "traced env m (\<lambda>_ ls. ls = [])" "\<And>a. traced env (k a) R"
  shows "traced env (jbind m k) R"
  by (rule traced_bind[OF assms(1)]) (simp add: assms(2))

lemma traced_update:
  assumes adm: "admissible env req" and op: "request_op env req = op_map g operation"
    and Q: "\<And>a. Q a (label_of (Inr (g a)))"
  shows "traced env (jupdate env operation) Q"
proof (unfold traced_def, intro allI impI)
  fix st r st' assume "jupdate env operation st = Some (r, st')"
  then have "jupdate env (request_op env req) st = Some (map_sum id g r, st')"
    by (simp add: op jupdate_op_map)
  from journal_step.request[OF adm this]
  have "journal_trace env st (label_of (map_sum id g r)) st'" by (rule journal_trace_one)
  then show "\<exists>ls. journal_trace env st ls st' \<and> (\<forall>a. r = Inr a \<longrightarrow> Q a ls)"
    using Q by (cases r) auto
qed

lemma traced_for:
  assumes "\<And>x. x \<in> set xs \<Longrightarrow> traced env (body x) (\<lambda>a ls. ls = lab a)"
  shows "traced env (jfor body xs) (\<lambda>as ls. ls = concat (map lab as))"
  using assms
proof (induction xs)
  case Nil
  then show ?case by (simp add: traced_return)
next
  case (Cons x xs)
  have head: "traced env (body x) (\<lambda>a ls. ls = lab a)" by (simp add: Cons.prems)
  have tail: "traced env (jfor body xs) (\<lambda>as ls. ls = concat (map lab as))"
    by (rule Cons.IH) (simp add: Cons.prems)
  show ?case by (auto intro!: traced_bind[OF head] traced_bind[OF tail] traced_return)
qed

lemma traced_prepare:
  assumes "command_envelope_validate e = Inr ()" "command_payload_digest env e = Inr digest"
  shows "traced env (prepare_command env e digest (message_id (ce_command e))) (\<lambda>_ ls. ls = [])"
  unfolding prepare_command_def
  by (rule traced_update[OF _ request_op.simps(1)])
    (simp_all add: assms)

lemma traced_mark: "traced env (mark_dispatch_started env cid) (\<lambda>started ls. ls = (if started then [cid] else []))"
  unfolding mark_dispatch_started_def
  by (rule traced_update[OF _ request_op.simps(2)]) simp_all

lemma traced_finish: "traced env (finish_command env cid out evs) (\<lambda>_ ls. ls = [])"
  unfolding finish_command_def
  by (rule traced_update[OF _ request_op.simps(3)]) simp_all

lemma traced_compact: "traced env (compact_session env s) (\<lambda>_ ls. ls = [])"
  unfolding compact_session_def
  by (rule traced_update[OF _ request_op.simps(4)]) simp_all

lemma traced_append_event: "traced env (append_event env eid sid ev) (\<lambda>_ ls. ls = [])"
  unfolding append_event_def
  by (rule traced_update[OF _ request_op.simps(5)]) simp_all

lemma traced_record: "traced env (command_record_of cid) (\<lambda>_ ls. ls = [])"
  unfolding command_record_of_def by (rule traced_read) simp

lemma traced_checked:
  assumes "\<And>a. r = Inr a \<Longrightarrow> traced env (k a) R"
  shows "traced env (jbind (jlift r) k) R"
  using assms by (auto simp: traced_def jbind_def jm_simps split: sum.splits intro: journal_trace.stop)

lemma traced_append_envelope: "traced env (append_event_envelope env e digest dup) (\<lambda>_ ls. ls = [])"
  unfolding append_event_envelope_def
  by (intro traced_checked)
    (auto intro!: traced_lift traced_update[OF _ request_op.simps(6)])

lemma traced_acknowledge: "traced env (acknowledge_event env ack) (\<lambda>_ ls. ls = [])"
  unfolding acknowledge_event_def
  by (intro traced_checked traced_update[OF _ request_op.simps(7)]) auto

lemma traced_reconciliation: "traced env (apply_reconciliation env snapshot) (\<lambda>_ ls. ls = [])"
  unfolding apply_reconciliation_def
  by (intro traced_checked traced_update[OF _ request_op.simps(8)]) auto

lemma traced_complete: "traced env (complete_command env cid out evs) (\<lambda>_ ls. ls = [])"
  unfolding complete_command_def
  by (intro traced_then traced_record traced_finish traced_compact traced_return) simp

text \<open>The commands that an acceptance hands to the runtime.\<close>

definition released :: "command_acceptance \<Rightarrow> string list" where
  "released a = (case ac_command a of None \<Rightarrow> [] | Some c \<Rightarrow> [ce_command_id c])"

lemma released_simps [simp]:
  "released (not_dispatched ack state out dup buf) = []"
  "released \<lparr>ac_result = r, ac_command = Some c\<rparr> = [ce_command_id c]"
  by (simp_all add: released_def not_dispatched_def)

lemma record_to_envelope_id [simp]: "ce_command_id (record_to_envelope r) = cr_command_id r"
  by (simp add: record_to_envelope_def)

lemma traced_accept:
  "traced env (accept_command_with_control env e allow) (\<lambda>a ls. ls = released a)"
  unfolding accept_command_with_control_def
  by (intro traced_checked traced_then[OF traced_prepare])
    (auto intro!: traced_then[OF traced_read] traced_then[OF traced_record] traced_bind[OF traced_mark]
      traced_return)

lemma traced_accept_next:
  "traced env (accept_next_ready_command env s) (\<lambda>a ls. ls = (case a of None \<Rightarrow> [] | Some x \<Rightarrow> released x))"
  unfolding accept_next_ready_command_def
  by (auto intro!: traced_then[OF traced_read] traced_return traced_bind[OF traced_accept]
      simp: accept_command_def split: option.split)

text \<open>The sequential entry points, which call the runtime themselves.\<close>

lemma traced_process_command: "traced env (process_command env ex c) (\<lambda>_ _. True)"
proof -
  have acc: "traced env (if is_cancel (ce_command c) then accept_control_command env c else accept_command env c)
      (\<lambda>a ls. ls = released a)"
    by (auto simp: accept_control_command_def accept_command_def traced_accept)
  show ?thesis
    unfolding process_command_def
    by (rule traced_bind[OF acc])
      (auto intro!: traced_return traced_then[OF traced_exec] traced_then[OF traced_finish]
        traced_then[OF traced_compact] split: option.split)
qed

lemma traced_process_ready: "traced env (process_ready env ex s) (\<lambda>_ _. True)"
proof (unfold traced_def, intro allI impI)
  fix st r st' assume run: "process_ready env ex s st = Some (r, st')"
  let ?P = "\<lambda>env ex s st (res :: (journal_error + command_process_result list) \<times> _).
    \<exists>ls. journal_trace env st ls (snd res)"
  have "?P env ex s st (r, st')"
  proof (rule process_ready.raw_induct[where P = ?P, OF _ run], goal_cases)
    case (1 loop env ex s st res)
    show ?case
    proof (cases "next_ready (js_file st) s")
      case None
      then show ?thesis using 1(2) by (auto intro!: exI[of _ "[]"] journal_trace.stop)
    next
      case (Some c)
      then obtain q st1 where pc: "process_command env ex c st = Some (q, st1)"
        using 1(2) by (cases "process_command env ex c st") auto
      obtain ls where ls: "journal_trace env st ls st1"
        using tracedD[OF traced_process_command pc] by auto
      show ?thesis
      proof (cases q)
        case (Inl err)
        then show ?thesis using 1(2) Some pc ls by auto
      next
        case (Inr x)
        then obtain rs st2 where next_run: "loop env ex s st1 = Some (rs, st2)" "snd res = st2"
          using 1(2) Some pc by (cases "loop env ex s st1") auto
        from 1(1)[OF next_run(1)] next_run(2) show ?thesis
          using journal_trace_append[OF ls] by auto
      qed
    qed
  qed
  then show "\<exists>ls. journal_trace env st ls st' \<and> (\<forall>a. r = Inr a \<longrightarrow> True)" by simp
qed

lemma traced_ask_runtime: "traced env (ask_runtime ex r) (\<lambda>_ ls. ls = [])"
  unfolding ask_runtime_def by (intro traced_then[OF traced_exec] traced_return) simp_all

lemma traced_recover_started: "traced env (recover_started env ex r) (\<lambda>_ ls. ls = [])"
  unfolding recover_started_def
  by (intro traced_then[OF traced_ask_runtime] traced_then[OF traced_complete] traced_return) simp

lemma traced_recover_record: "traced env (recover_record env ex r) (\<lambda>_ _. True)"
  unfolding recover_record_def
  by (auto intro!: traced_process_command traced_then[OF traced_ask_runtime] traced_then[OF traced_finish]
      traced_then[OF traced_compact] traced_return)

lemma traced_for_any:
  assumes "\<And>x. traced env (body x) (\<lambda>_ _. True)"
  shows "traced env (jfor body xs) (\<lambda>_ _. True)"
  by (induction xs) (auto intro!: traced_return traced_bind[OF assms] traced_bind[where Q = "\<lambda>_ _. True"])

lemma traced_recover: "traced env (recover env ex) (\<lambda>_ _. True)"
  unfolding recover_def
  by (intro traced_then[OF traced_read] traced_bind[OF traced_for_any] traced_recover_record
      traced_process_ready traced_return) simp_all

lemma released_map_filter:
  "concat (map (\<lambda>a. case a of None \<Rightarrow> [] | Some x \<Rightarrow> released x) accepted)
   = map ce_command_id (List.map_filter ac_command (List.map_filter id accepted))"
  by (induction accepted) (auto simp: released_def List.map_filter_simps split: option.split)

lemma traced_recover_for_scheduler:
  "traced env (recover_for_scheduler env ex) (\<lambda>a ls. ls = map ce_command_id (rv_commands a))"
proof -
  have started: "traced env (jfor (recover_started env ex) rs) (\<lambda>_ ls. ls = [])" for rs
    by (rule traced_mono[OF traced_for[OF traced_recover_started]]) simp
  show ?thesis
    unfolding recover_for_scheduler_def Let_def
    by (intro traced_then[OF traced_read] traced_then[OF started]
        traced_bind[OF traced_for[OF traced_accept_next]] traced_return)
      (auto simp: released_map_filter)
qed

section \<open>Invariants of the journal file\<close>

text \<open>\<open>held ok env st\<close>: the file in memory, and whatever a restart would read back, satisfy \<open>ok\<close>.\<close>

definition held :: "(journal_file \<Rightarrow> bool) \<Rightarrow> 'b journal_env \<Rightarrow> ('b, 'e) journal_state \<Rightarrow> bool" where
  "held ok env st \<longleftrightarrow>
     ok (js_file st) \<and>
     (case js_disk st of
        None \<Rightarrow> ok default_file
      | Some bytes \<Rightarrow> (case env_from_slice env bytes of Inl _ \<Rightarrow> True | Inr f \<Rightarrow> ok f))"

text \<open>\<open>serde_json\<close> reads back what it has written.\<close>

definition serde_roundtrip :: "'b journal_env \<Rightarrow> bool" where
  "serde_roundtrip env \<longleftrightarrow> (\<forall>f bytes. env_to_vec env f = Inr bytes \<longrightarrow> env_from_slice env bytes = Inr f)"

lemma persist_disk:
  assumes "serde_roundtrip env" "persist_locked env f st = (r, disk)"
  shows "disk = js_disk st \<and> (\<exists>e. r = Inl e) \<or> (\<exists>bytes. disk = Some bytes \<and> env_from_slice env bytes = Inr f)"
  using assms unfolding persist_locked_def serde_roundtrip_def
  by (auto split: write_result.splits sum.splits)

locale file_invariant =
  fixes env :: "'b journal_env" and ok :: "journal_file \<Rightarrow> bool"
  assumes keeps:
    "ok f \<Longrightarrow> admissible env req \<Longrightarrow> request_op env req now f = Some (Inr (l, f')) \<Longrightarrow> ok f'"
begin

lemma update_held:
  assumes rt: "serde_roundtrip env" and adm: "admissible env req"
    and upd: "jupdate env (request_op env req) st = Some (r, st')"
    and st: "held ok env st"
  shows "held ok env st'"
proof -
  let ?op = "request_op env req (env_now env (js_clock st)) (js_file st)"
  consider e where "?op = Some (Inl e)" | l f where "?op = Some (Inr (l, f))"
    using upd by (auto simp: jupdate_def split: option.splits sum.splits prod.splits)
  then show ?thesis
  proof cases
    case 1
    then show ?thesis using upd st by (auto simp: jupdate_def held_def)
  next
    case 2
    have ok: "ok (js_file st)" using st by (simp add: held_def)
    then have f: "ok f" by (rule keeps[OF _ adm 2])
    obtain p disk where p: "persist_locked env f st = (p, disk)" by (cases "persist_locked env f st")
    have disk: "case disk of None \<Rightarrow> ok default_file
        | Some bytes \<Rightarrow> (case env_from_slice env bytes of Inl _ \<Rightarrow> True | Inr f \<Rightarrow> ok f)"
      using persist_disk[OF rt p] st f by (auto simp: held_def)
    then have "ok (reread env n disk (js_file st))" for n
      using ok by (auto simp: reread_def split: option.splits sum.splits)
    then show ?thesis using upd 2 p f disk by (cases p) (auto simp: jupdate_def held_def)
  qed
qed

lemma step_held:
  assumes rt: "serde_roundtrip env" and step: "journal_step env st ls st'" and st: "held ok env st"
  shows "held ok env st'"
  using step
proof (cases rule: journal_step.cases)
  case (request req r)
  then show ?thesis using update_held[OF rt] st by blast
next
  case (runtime x)
  then show ?thesis using st by (simp add: held_def)
next
  case (restart clock writes x)
  then show ?thesis
  proof (cases "js_disk st")
    case None
    then have "ok default_file" using st by (simp add: held_def)
    then show ?thesis
      using restart None persist_disk[OF rt]
      by (fastforce simp: open_with_config_def held_def Let_def split: if_splits sum.splits prod.splits)
  next
    case (Some bytes)
    then show ?thesis
      using restart st by (auto simp: open_with_config_def held_def Let_def and_then_Inr_iff split: if_splits sum.splits)
  qed
qed

lemma trace_held:
  assumes rt: "serde_roundtrip env"
  shows "journal_trace env st ls st' \<Longrightarrow> held ok env st \<Longrightarrow> held ok env st'"
  by (induction rule: journal_trace.induct) (auto dest: step_held[OF rt])

lemma method_held:
  assumes rt: "serde_roundtrip env"
  shows "traced env m Q \<Longrightarrow> m st = Some (r, st') \<Longrightarrow> held ok env st \<Longrightarrow> held ok env st'"
  using trace_held[OF rt] tracedD by blast

end

end
