(* ===== verification/Journal_Inbox.thy ===== *)
theory Journal_Inbox
  imports Journal_Trace
begin

text \<open>
  The command inbox of the daemon journal.

  \<open>inbox\<close> is what the journal file says about commands: the live records, the tombstones and the
  processed boundary of every session. \<open>inbox_step\<close> is the contract of the inbox: a command is
  received once, started once, completed, and compacted behind the processed boundary. Every
  critical section of the journal refines one of these moves, so invariants of the inbox are
  invariants of the journal under any interleaving, failed write or restart.
\<close>

section \<open>The inbox and its moves\<close>

record inbox =
  ib_commands :: "command_record list"
  ib_tombstones :: "command_tombstone list"
  ib_processed :: "string \<Rightarrow> u64"

definition inbox_of :: "journal_file \<Rightarrow> inbox" where
  "inbox_of f = \<lparr>ib_commands = jf_commands f, ib_tombstones = jf_command_tombstones f,
     ib_processed = (\<lambda>s. sj_processed_through_seq (session_of f s))\<rparr>"

definition known_ids :: "inbox \<Rightarrow> string list" where
  "known_ids b = map cr_command_id (ib_commands b) @ map ct_command_id (ib_tombstones b)"

definition terminal_in :: "command_record list \<Rightarrow> string \<Rightarrow> u64 \<Rightarrow> bool" where
  "terminal_in cs s n =
     list_ex (\<lambda>r. cr_session_id r = s \<and> cr_server_command_seq r = n \<and> cr_state r = Terminal) cs"

definition pending_in :: "command_record list \<Rightarrow> string \<Rightarrow> u64 \<Rightarrow> nat" where
  "pending_in cs s expected =
     length (filter (\<lambda>r. cr_session_id r = s \<and> expected < cr_server_command_seq r \<and> cr_state r \<noteq> Terminal) cs)"

definition start_record :: "string \<Rightarrow> command_record \<Rightarrow> command_record" where
  "start_record at r = r\<lparr>cr_state := DispatchStarted, cr_updated_at := at\<rparr>"

inductive inbox_step :: "'b journal_env \<Rightarrow> inbox \<Rightarrow> string option \<Rightarrow> inbox \<Rightarrow> bool" for env where
  skip: "inbox_step env b None b"
| receive:
    "command_envelope_validate e = Inr () \<Longrightarrow> command_payload_digest env e = Inr digest
     \<Longrightarrow> ce_command_id e \<notin> set (known_ids b)
     \<Longrightarrow> \<forall>r \<in> set (ib_commands b). \<not> command_conflict (env_daemon_id env) e digest mid r
     \<Longrightarrow> \<forall>t \<in> set (ib_tombstones b). \<not> tombstone_conflict (env_daemon_id env) e digest mid t
     \<Longrightarrow> expected = sat_inc (ib_processed b (ce_session_id e))
     \<Longrightarrow> expected \<le> ce_server_command_seq e
     \<Longrightarrow> expected < ce_server_command_seq e \<longrightarrow>
           pending_in (ib_commands b) (ce_session_id e) expected < env_gap_limit env
     \<Longrightarrow> inbox_step env b None
           (b\<lparr>ib_commands := ib_commands b @ [new_command_record env now e digest mid]\<rparr>)"
| start:
    "find (\<lambda>r. cr_command_id r = cid) (ib_commands b) = Some r \<Longrightarrow> cr_state r = Received
     \<Longrightarrow> inbox_step env b (Some cid)
           (b\<lparr>ib_commands := update_first (\<lambda>r. cr_command_id r = cid) (start_record at) (ib_commands b)\<rparr>)"
| complete:
    "find (\<lambda>r. cr_command_id r = cid) (ib_commands b) = Some r
     \<Longrightarrow> cs = update_first (\<lambda>r. cr_command_id r = cid) (finish_record out at) (ib_commands b)
     \<Longrightarrow> processed_loop (terminal_in cs (cr_session_id r)) (ib_processed b (cr_session_id r)) = Some n
     \<Longrightarrow> inbox_step env b None
           (b\<lparr>ib_commands := cs, ib_processed := (ib_processed b)(cr_session_id r := n)\<rparr>)"
| compact:
    "inbox_step env b None
       (b\<lparr>ib_commands := filter (\<lambda>r. \<not> command_compactable s (ib_processed b s) r) (ib_commands b),
         ib_tombstones := ib_tombstones b
           @ map command_to_tombstone (filter (command_compactable s (ib_processed b s)) (ib_commands b))\<rparr>)"

section \<open>The journal refines the inbox\<close>

lemma inbox_of_put_session [simp]:
  "sj_processed_through_seq x = sj_processed_through_seq (session_of f s)
   \<Longrightarrow> inbox_of (put_session s x f) = inbox_of f"
  by (auto simp: inbox_of_def)

lemma inbox_of_fields [simp]:
  "inbox_of (f\<lparr>jf_events := es\<rparr>) = inbox_of f"
  "inbox_of (f\<lparr>jf_event_tombstones := ts\<rparr>) = inbox_of f"
  "ib_commands (inbox_of f) = jf_commands f"
  "ib_tombstones (inbox_of f) = jf_command_tombstones f"
  "ib_processed (inbox_of f) s = sj_processed_through_seq (session_of f s)"
  by (simp_all add: inbox_of_def)

lemma find_None_notin: "find (\<lambda>x. g x = k) xs = None \<longleftrightarrow> k \<notin> g ` set xs"
  by (auto simp: find_None_iff)

lemma prepare_inbox:
  assumes run: "prepare_op env e digest mid now f = Some (Inr (a, f'))"
    and adm: "command_envelope_validate e = Inr ()" "command_payload_digest env e = Inr digest"
  shows "inbox_step env (inbox_of f) None (inbox_of f')"
proof -
  let ?expected = "expected_command_sequence f (ce_session_id e)"
  have valid: "validate_command_identity f (env_daemon_id env) e digest mid = Inr ()"
    using run by (auto simp: prepare_op_def split: sum.splits)
  show ?thesis
  proof (cases "find_command (ce_command_id e) f = None \<and> find_command_tombstone (ce_command_id e) f = None")
    case False
    then have "f' = f"
      using run valid by (auto simp: prepare_op_def Let_def split: option.splits)
    then show ?thesis by (simp add: inbox_step.skip)
  next
    case True
    define rec where "rec = new_command_record env now e digest mid"
    have f': "f' = f\<lparr>jf_commands := jf_commands f @ [rec]\<rparr>"
      and seq: "?expected \<le> ce_server_command_seq e"
      and gap: "?expected < ce_server_command_seq e \<Longrightarrow> gap_pending f (ce_session_id e) ?expected < env_gap_limit env"
      using run valid True by (auto simp: prepare_op_def Let_def rec_def split: if_splits)
    have conflicts: "\<forall>r \<in> set (jf_commands f). \<not> command_conflict (env_daemon_id env) e digest mid r"
      "\<forall>t \<in> set (jf_command_tombstones f). \<not> tombstone_conflict (env_daemon_id env) e digest mid t"
      using valid by (auto simp: validate_command_identity_def list_ex_iff split: if_splits)
    have fresh: "ce_command_id e \<notin> set (known_ids (inbox_of f))"
      using True by (auto simp: known_ids_def find_command_def find_command_tombstone_def find_None_notin)
    have "inbox_of f' = (inbox_of f)\<lparr>ib_commands := ib_commands (inbox_of f) @ [rec]\<rparr>"
      by (simp add: f' inbox_of_def)
    then show ?thesis
      using inbox_step.receive[OF adm fresh, of mid ?expected now] conflicts seq gap
      by (simp add: rec_def expected_command_sequence_alt pending_in_def gap_pending_def)
  qed
qed

lemma mark_inbox:
  assumes run: "mark_op cid now f = Some (Inr (started, f'))"
  shows "inbox_step env (inbox_of f) (if started then Some cid else None) (inbox_of f')"
proof -
  obtain r where r: "find_command cid f = Some r"
    using run by (auto simp: mark_op_def split: option.splits)
  show ?thesis
  proof (cases "cr_state r = Received")
    case True
    then have "started" and f': "inbox_of f' = (inbox_of f)\<lparr>ib_commands :=
        update_first (\<lambda>r. cr_command_id r = cid) (start_record (now 0)) (ib_commands (inbox_of f))\<rparr>"
      using run r by (auto simp: mark_op_def start_record_def[abs_def] inbox_of_def)
    then show ?thesis
      using inbox_step.start[of cid "inbox_of f" r] r True by (simp add: find_command_def)
  next
    case False
    then show ?thesis using run r by (auto simp: mark_op_def intro: inbox_step.skip)
  qed
qed

lemma push_event_inbox: "push_event env e f = Inr f' \<Longrightarrow> inbox_of f' = inbox_of f"
  by (auto simp: push_event_def and_then_Inr_iff)

lemma push_runtime_events_inbox:
  "push_runtime_events env now cid sid i evs f = Inr (es, f') \<Longrightarrow> inbox_of f' = inbox_of f"
  by (induction evs arbitrary: i f es) (auto simp: and_then_Inr_iff Let_def push_event_inbox)

lemma finish_effect:
  assumes run: "finish_op env cid out evs now f = Some (Inr (es, f'))"
  obtains r f2 fs f3 where "find_command cid f = Some r"
    "advance_processed (f\<lparr>jf_commands := update_first (\<lambda>r. cr_command_id r = cid) (finish_record out (now 0))
        (jf_commands f)\<rparr>) (cr_session_id r) = Some f2"
    "push_runtime_events env now cid (cr_session_id r) 0 evs f2 = Inr (fs, f3)"
    "es = fs \<and> f' = f3 \<or>
     (\<exists>e sent_at reason. e = unknown_event f3 cid (cr_runtime_operation_id r) (cr_session_id r) sent_at reason
        \<and> push_event env e f3 = Inr f' \<and> es = fs @ [e])"
proof -
  obtain r where r: "find_command cid f = Some r"
    using run by (auto simp: finish_op_def split: option.splits)
  define f1 where "f1 = f\<lparr>jf_commands := update_first (\<lambda>r. cr_command_id r = cid) (finish_record out (now 0))
        (jf_commands f)\<rparr>"
  obtain f2 where f2: "advance_processed f1 (cr_session_id r) = Some f2"
    using run r by (auto simp: finish_op_def Let_def f1_def split: option.splits)
  obtain fs f3 where f3: "push_runtime_events env now cid (cr_session_id r) 0 evs f2 = Inr (fs, f3)"
    using run r f2 by (auto simp: finish_op_def Let_def f1_def and_then_Inr_iff)
  have "es = fs \<and> f' = f3 \<or>
     (\<exists>e sent_at reason. e = unknown_event f3 cid (cr_runtime_operation_id r) (cr_session_id r) sent_at reason
        \<and> push_event env e f3 = Inr f' \<and> es = fs @ [e])"
    using run r f2 f3
    by (cases out) (auto simp: finish_op_def Let_def f1_def and_then_Inr_iff)
  with r f2 f3 show thesis using that by (simp add: f1_def)
qed

lemma finish_inbox:
  assumes run: "finish_op env cid out evs now f = Some (Inr (es, f'))"
  shows "inbox_step env (inbox_of f) None (inbox_of f')"
  using run
proof (rule finish_effect)
  fix r f2 fs f3
  define cs where "cs = update_first (\<lambda>r. cr_command_id r = cid) (finish_record out (now 0)) (jf_commands f)"
  assume r: "find_command cid f = Some r"
    and f2: "advance_processed (f\<lparr>jf_commands := update_first (\<lambda>r. cr_command_id r = cid)
        (finish_record out (now 0)) (jf_commands f)\<rparr>) (cr_session_id r) = Some f2"
    and f3: "push_runtime_events env now cid (cr_session_id r) 0 evs f2 = Inr (fs, f3)"
    and f': "es = fs \<and> f' = f3 \<or>
     (\<exists>e sent_at reason. e = unknown_event f3 cid (cr_runtime_operation_id r) (cr_session_id r) sent_at reason
        \<and> push_event env e f3 = Inr f' \<and> es = fs @ [e])"
  have "inbox_of f' = inbox_of f2"
    using f' push_event_inbox push_runtime_events_inbox[OF f3] by metis
  moreover obtain n where
    "processed_loop (terminal_in cs (cr_session_id r)) (ib_processed (inbox_of f) (cr_session_id r)) = Some n"
    "inbox_of f2 = (inbox_of f)\<lparr>ib_commands := cs, ib_processed := (ib_processed (inbox_of f))(cr_session_id r := n)\<rparr>"
    using f2
    by (auto simp: advance_processed_def Let_def cs_def terminal_at_def[abs_def] terminal_in_def[abs_def]
        inbox_of_def fun_eq_iff split: option.splits)
  ultimately show ?thesis
    using inbox_step.complete[where cid = cid and b = "inbox_of f" and r = r and cs = cs and out = out
        and at = "now 0" and n = n and env = env] r by (simp add: find_command_def cs_def)
qed

lemma compact_inbox:
  assumes "compact_op env s now f = Some (Inr (u, f'))"
  shows "inbox_step env (inbox_of f) None (inbox_of f')"
proof -
  have "inbox_of f' = (inbox_of f)\<lparr>
      ib_commands := filter (\<lambda>r. \<not> command_compactable s (ib_processed (inbox_of f) s) r) (ib_commands (inbox_of f)),
      ib_tombstones := ib_tombstones (inbox_of f)
        @ map command_to_tombstone (filter (command_compactable s (ib_processed (inbox_of f) s)) (ib_commands (inbox_of f)))\<rparr>"
    using assms by (auto simp: compact_op_def Let_def and_then_Inr_iff inbox_of_def)
  then show ?thesis using inbox_step.compact[of env "inbox_of f" s] by simp
qed

lemma append_event_inbox:
  "append_event_op env eid sid ev now f = Some (Inr (a, f')) \<Longrightarrow> inbox_of f' = inbox_of f"
  by (auto simp: append_event_op_def Let_def and_then_Inr_iff split: option.splits if_splits)

lemma append_envelope_inbox:
  "append_envelope_op env e digest dup now f = Some (Inr (a, f')) \<Longrightarrow> inbox_of f' = inbox_of f"
  by (auto simp: append_envelope_op_def Let_def and_then_Inr_iff split: option.splits if_splits)

lemma advance_event_ack_inbox: "advance_event_ack f s = Some f' \<Longrightarrow> inbox_of f' = inbox_of f"
  by (auto simp: advance_event_ack_def Let_def split: option.splits)

lemma note_ack_inbox [simp]: "inbox_of (note_ack ack f) = inbox_of f"
  by (simp add: note_ack_def Let_def)

lemma ack_inbox: "ack_op ack now f = Some (Inr (u, f')) \<Longrightarrow> inbox_of f' = inbox_of f"
  by (auto simp: ack_op_def Let_def dest!: advance_event_ack_inbox split: option.splits if_splits)

lemma reconcile_one_inbox [simp]: "inbox_of (reconcile_one remote f) = inbox_of f"
  by (simp add: reconcile_one_def reconcile_local_def Let_def)

lemma reconcile_inbox: "reconcile_op sessions now f = Some (Inr (u, f')) \<Longrightarrow> inbox_of f' = inbox_of f"
proof -
  have "inbox_of (fold reconcile_one sessions f) = inbox_of f"
    by (induction sessions arbitrary: f) simp_all
  then show "reconcile_op sessions now f = Some (Inr (u, f')) \<Longrightarrow> inbox_of f' = inbox_of f"
    by (auto simp: reconcile_op_def)
qed

lemma request_refines_inbox:
  assumes "request_op env req now f = Some (Inr (l, f'))" "admissible env req"
  shows "inbox_step env (inbox_of f) l (inbox_of f')"
  using assms
  by (cases req)
    (auto simp: op_map_Inr_iff prepare_inbox finish_inbox compact_inbox append_event_inbox
      append_envelope_inbox ack_inbox reconcile_inbox mark_inbox inbox_step.skip
      dest: mark_inbox)

locale inbox_invariant =
  fixes env :: "'b journal_env" and good :: "inbox \<Rightarrow> bool"
  assumes step: "inbox_step env b l b' \<Longrightarrow> good b \<Longrightarrow> good b'"

sublocale inbox_invariant \<subseteq> file_invariant env "\<lambda>f. good (inbox_of f)"
  by unfold_locales (blast intro: step request_refines_inbox)

section \<open>Updating one record\<close>

lemma update_first_find_mem:
  "find p xs = Some r \<Longrightarrow> y \<in> set (update_first p g xs) \<Longrightarrow> y \<in> set xs \<or> y = g r"
  by (induction xs) (auto split: if_splits)

lemma update_first_keeps:
  "find p xs = Some r \<Longrightarrow> x \<in> set xs \<Longrightarrow> x = r \<or> x \<in> set (update_first p g xs)"
  by (induction xs) (auto split: if_splits)

lemma length_filter_mono: "(\<And>x. Q x \<Longrightarrow> P x) \<Longrightarrow> length (filter Q xs) \<le> length (filter P xs)"
  by (induction xs) (auto intro: le_SucI)

lemma length_filter_update_first_le:
  assumes "\<And>x. p x \<Longrightarrow> Q (g x) \<Longrightarrow> P x" "\<And>x. Q x \<Longrightarrow> P x"
  shows "length (filter Q (update_first p g xs)) \<le> length (filter P xs)"
  using assms length_filter_mono[of Q P] by (induction xs) (auto intro: le_SucI)

lemma start_record_fields [simp]:
  "cr_daemon_id (start_record at r) = cr_daemon_id r" "cr_command_id (start_record at r) = cr_command_id r"
  "cr_session_id (start_record at r) = cr_session_id r"
  "cr_server_command_seq (start_record at r) = cr_server_command_seq r"
  "cr_payload_digest (start_record at r) = cr_payload_digest r" "cr_command (start_record at r) = cr_command r"
  "cr_message_id (start_record at r) = cr_message_id r" "cr_state (start_record at r) = DispatchStarted"
  "cr_sent_at (start_record at r) = cr_sent_at r"
  by (simp_all add: start_record_def)

lemma finish_record_fields [simp]:
  "cr_daemon_id (finish_record out at r) = cr_daemon_id r" "cr_command_id (finish_record out at r) = cr_command_id r"
  "cr_session_id (finish_record out at r) = cr_session_id r"
  "cr_server_command_seq (finish_record out at r) = cr_server_command_seq r"
  "cr_payload_digest (finish_record out at r) = cr_payload_digest r"
  "cr_message_id (finish_record out at r) = cr_message_id r"
  "cr_state (finish_record out at r) = Terminal"
  by (simp_all add: finish_record_def)

lemma command_to_tombstone_fields [simp]:
  "ct_daemon_id (command_to_tombstone r) = cr_daemon_id r" "ct_command_id (command_to_tombstone r) = cr_command_id r"
  "ct_session_id (command_to_tombstone r) = cr_session_id r"
  "ct_server_command_seq (command_to_tombstone r) = cr_server_command_seq r"
  "ct_payload_digest (command_to_tombstone r) = cr_payload_digest r"
  "ct_message_id (command_to_tombstone r) = cr_message_id r"
  by (simp_all add: command_to_tombstone_def)

lemma new_command_record_fields [simp]:
  "cr_daemon_id (new_command_record env now e d m) = env_daemon_id env"
  "cr_command_id (new_command_record env now e d m) = ce_command_id e"
  "cr_session_id (new_command_record env now e d m) = ce_session_id e"
  "cr_server_command_seq (new_command_record env now e d m) = ce_server_command_seq e"
  "cr_payload_digest (new_command_record env now e d m) = d"
  "cr_command (new_command_record env now e d m) = ce_command e"
  "cr_message_id (new_command_record env now e d m) = m"
  "cr_state (new_command_record env now e d m) = Received"
  by (simp_all add: new_command_record_def)

section \<open>Command identities are unique\<close>

definition unique_ids :: "inbox \<Rightarrow> bool" where
  "unique_ids b \<longleftrightarrow> distinct (known_ids b)"

lemma unique_ids_step: "inbox_step env b l b' \<Longrightarrow> unique_ids b \<Longrightarrow> unique_ids b'"
proof (induction rule: inbox_step.induct)
  case (compact b s)
  then show ?case
    using distinct_compact[of cr_command_id "ib_commands b" ct_command_id "ib_tombstones b" command_to_tombstone]
    by (simp add: unique_ids_def known_ids_def)
qed (auto simp: unique_ids_def known_ids_def map_update_first)

interpretation ids: inbox_invariant env unique_ids for env :: "'b journal_env"
  by unfold_locales (rule unique_ids_step)

section \<open>A started command is never started again\<close>

definition dispatched_once :: "string \<Rightarrow> inbox \<Rightarrow> bool" where
  "dispatched_once c b \<longleftrightarrow>
     unique_ids b \<and> c \<in> set (known_ids b)
     \<and> (\<forall>r \<in> set (ib_commands b). cr_command_id r = c \<longrightarrow> cr_state r \<noteq> Received)"

lemma known_ids_step: "inbox_step env b l b' \<Longrightarrow> set (known_ids b) \<subseteq> set (known_ids b')"
proof (induction rule: inbox_step.induct)
  case (compact b s)
  then show ?case by (auto simp: known_ids_def image_iff)
qed (auto simp: known_ids_def map_update_first simp flip: set_map)

lemma dispatched_once_step:
  assumes step: "inbox_step env b l b'" and once: "dispatched_once c b"
  shows "dispatched_once c b'"
proof -
  have "\<forall>r \<in> set (ib_commands b'). cr_command_id r = c \<longrightarrow> cr_state r \<noteq> Received"
    using step once
  proof (induction rule: inbox_step.induct)
    case (receive e digest b mid expected now)
    then show ?case by (auto simp: dispatched_once_def)
  next
    case (start cid b r at)
    then show ?case by (auto simp: dispatched_once_def dest!: update_first_find_mem)
  next
    case (complete cid b r cs out at n)
    then show ?case by (auto simp: dispatched_once_def dest!: update_first_find_mem)
  qed (auto simp: dispatched_once_def)
  then show ?thesis
    using once unique_ids_step[OF step] known_ids_step[OF step] by (auto simp: dispatched_once_def)
qed

lemma dispatched_once_not_again: "inbox_step env b (Some c) b' \<Longrightarrow> \<not> dispatched_once c b"
  by (erule inbox_step.cases) (auto simp: dispatched_once_def dest: find_Some_mem)

lemma start_dispatched_once:
  assumes step: "inbox_step env b (Some c) b'" and uniq: "unique_ids b"
  shows "dispatched_once c b'"
  using step
proof (cases rule: inbox_step.cases)
  case (start r at)
  have uniq': "unique_ids b'" by (rule unique_ids_step[OF step uniq])
  have mem: "start_record at r \<in> set (ib_commands b')"
    using find_update_first[OF start(2)] start(1) by simp
  have cid: "cr_command_id r = c" using start(2) by (auto dest: find_Some_mem)
  have only: "x = start_record at r" if "x \<in> set (ib_commands b')" "cr_command_id x = c" for x
    using that mem uniq' cid
    by (intro inj_onD[of cr_command_id "set (ib_commands b')"])
      (auto simp: unique_ids_def known_ids_def distinct_map)
  have "cr_state x \<noteq> Received" if "x \<in> set (ib_commands b')" "cr_command_id x = c" for x
    using only[OF that] by simp
  moreover have "c \<in> set (known_ids b')"
    using imageI[OF mem, of cr_command_id] cid by (simp add: known_ids_def)
  ultimately show ?thesis using uniq' by (simp add: dispatched_once_def)
qed

interpretation once: inbox_invariant env "dispatched_once c" for env :: "'b journal_env" and c
  by unfold_locales (rule dispatched_once_step)

section \<open>The gap buffer is bounded\<close>

definition gap_bounded :: "'b journal_env \<Rightarrow> inbox \<Rightarrow> bool" where
  "gap_bounded env b \<longleftrightarrow>
     (\<forall>s. pending_in (ib_commands b) s (sat_inc (ib_processed b s)) \<le> env_gap_limit env)"

lemma sat_inc_mono: "x \<le> y \<Longrightarrow> sat_inc x \<le> sat_inc y"
  by (cases "x = y") (auto intro: order.trans[OF less_imp_sat_inc_le le_sat_inc])

lemma pending_in_mono:
  assumes "n \<le> m"
  shows "pending_in cs s m \<le> pending_in cs s n"
  unfolding pending_in_def by (rule length_filter_mono) (use assms in auto)

lemma pending_in_update:
  assumes "\<And>r. cr_session_id (g r) = cr_session_id r" "\<And>r. cr_server_command_seq (g r) = cr_server_command_seq r"
    and "\<And>r. p r \<Longrightarrow> cr_state (g r) \<noteq> Terminal \<Longrightarrow> cr_state r \<noteq> Terminal"
  shows "pending_in (update_first p g cs) s n \<le> pending_in cs s n"
  unfolding pending_in_def by (rule length_filter_update_first_le) (use assms in auto)

lemma pending_in_start:
  "find p cs = Some r \<Longrightarrow> cr_state r \<noteq> Terminal
   \<Longrightarrow> pending_in (update_first p (start_record at) cs) s n = pending_in cs s n"
  by (induction cs) (auto simp: pending_in_def split: if_splits)

lemma gap_bounded_step: "inbox_step env b l b' \<Longrightarrow> gap_bounded env b \<Longrightarrow> gap_bounded env b'"
proof (induction rule: inbox_step.induct)
  case (receive e digest b mid expected now)
  then show ?case by (auto simp: gap_bounded_def pending_in_def)
next
  case (start cid b r at)
  then show ?case by (simp add: gap_bounded_def pending_in_start)
next
  case (complete cid b r cs out at n)
  have le: "ib_processed b (cr_session_id r) \<le> n" using processed_loop_Some[OF complete(3)] by blast
  have cs: "pending_in cs s k \<le> pending_in (ib_commands b) s k" for s k
    unfolding complete(2) by (rule pending_in_update) simp_all
  have "pending_in cs (cr_session_id r) (sat_inc n)
      \<le> pending_in (ib_commands b) (cr_session_id r) (sat_inc (ib_processed b (cr_session_id r)))"
    using cs pending_in_mono[OF sat_inc_mono[OF le]] order.trans by blast
  then show ?case using complete.prems cs by (auto simp: gap_bounded_def intro: order.trans)
next
  case (compact b s)
  have "pending_in (filter q (ib_commands b)) s' k \<le> pending_in (ib_commands b) s' k" for q s' k
    unfolding pending_in_def filter_filter by (rule length_filter_mono) simp
  then have "gap_bounded env (b\<lparr>ib_commands := filter q (ib_commands b), ib_tombstones := ts\<rparr>)" for q ts
    using compact by (simp add: gap_bounded_def) (meson order.trans)
  then show ?case .
qed

interpretation gap: inbox_invariant env "gap_bounded env" for env :: "'b journal_env"
  by unfold_locales (rule gap_bounded_step)

section \<open>The processed boundary\<close>

text \<open>The digest of a command envelope determines the command identity in it.\<close>

definition collision_free :: "'b journal_env \<Rightarrow> bool" where
  "collision_free env \<longleftrightarrow>
     (\<forall>e e' d. command_payload_digest env e = Inr d \<and> command_payload_digest env e' = Inr d
        \<longrightarrow> ce_command_id e = ce_command_id e')"

definition digest_of_id :: "'b journal_env \<Rightarrow> string \<Rightarrow> string \<Rightarrow> bool" where
  "digest_of_id env d cid \<longleftrightarrow> (\<exists>e. command_payload_digest env e = Inr d \<and> ce_command_id e = cid)"

definition places :: "inbox \<Rightarrow> (string \<times> u64) list" where
  "places b = map (\<lambda>r. (cr_session_id r, cr_server_command_seq r)) (ib_commands b)
     @ map (\<lambda>t. (ct_session_id t, ct_server_command_seq t)) (ib_tombstones b)"

text \<open>The records are the daemon's own and carry the digest of an envelope with their identity.\<close>

definition authentic :: "'b journal_env \<Rightarrow> inbox \<Rightarrow> bool" where
  "authentic env b \<longleftrightarrow>
     (\<forall>r \<in> set (ib_commands b). cr_daemon_id r = env_daemon_id env
        \<and> digest_of_id env (cr_payload_digest r) (cr_command_id r))
     \<and> (\<forall>t \<in> set (ib_tombstones b). ct_daemon_id t = env_daemon_id env
        \<and> digest_of_id env (ct_payload_digest t) (ct_command_id t))"

definition settled_at :: "inbox \<Rightarrow> string \<Rightarrow> u64 \<Rightarrow> bool" where
  "settled_at b s n \<longleftrightarrow>
     terminal_in (ib_commands b) s n
     \<or> (\<exists>t \<in> set (ib_tombstones b). ct_session_id t = s \<and> ct_server_command_seq t = n)"

text \<open>The processed boundary of a session is below \<open>u64::MAX\<close>; everything up to it is settled; no
  tombstone is beyond it and no unfinished command is at or below it.\<close>

definition boundary :: "inbox \<Rightarrow> bool" where
  "boundary b \<longleftrightarrow>
     (\<forall>s. ib_processed b s \<noteq> u64_max)
     \<and> (\<forall>s n. 0 < n \<and> n \<le> ib_processed b s \<longrightarrow> settled_at b s n)
     \<and> (\<forall>t \<in> set (ib_tombstones b). ct_server_command_seq t \<le> ib_processed b (ct_session_id t))
     \<and> (\<forall>r \<in> set (ib_commands b). cr_state r \<noteq> Terminal
          \<longrightarrow> ib_processed b (cr_session_id r) < cr_server_command_seq r)"

definition inbox_ok :: "'b journal_env \<Rightarrow> inbox \<Rightarrow> bool" where
  "inbox_ok env b \<longleftrightarrow> unique_ids b \<and> authentic env b \<and> distinct (places b) \<and> boundary b"

lemma authentic_step: "inbox_step env b l b' \<Longrightarrow> authentic env b \<Longrightarrow> authentic env b'"
proof (induction rule: inbox_step.induct)
  case (receive e digest b mid expected now)
  then show ?case by (auto simp: authentic_def digest_of_id_def)
next
  case (start cid b r at)
  then show ?case
    using find_Some_mem[OF start(1)] by (auto simp: authentic_def dest!: update_first_find_mem[OF start(1)])
next
  case (complete cid b r cs out at n)
  then show ?case
    using find_Some_mem[OF complete(1)] by (auto simp: authentic_def dest!: update_first_find_mem[OF complete(1)])
qed (auto simp: authentic_def)

lemma places_step:
  assumes step: "inbox_step env b l b'" and cf: "collision_free env"
    and auth: "authentic env b" and dist: "distinct (places b)"
  shows "distinct (places b')"
  using step auth dist
proof (induction rule: inbox_step.induct)
  case (receive e digest b mid expected now)
  have id: "cid = ce_command_id e" if "digest_of_id env digest cid" for cid
    using that cf receive(2) unfolding digest_of_id_def collision_free_def by blast
  have "(ce_session_id e, ce_server_command_seq e) \<noteq> (cr_session_id r, cr_server_command_seq r)"
    if "r \<in> set (ib_commands b)" for r
  proof
    assume same: "(ce_session_id e, ce_server_command_seq e) = (cr_session_id r, cr_server_command_seq r)"
    have "cr_daemon_id r = env_daemon_id env" "digest_of_id env (cr_payload_digest r) (cr_command_id r)"
      using receive.prems(1) that by (auto simp: authentic_def)
    moreover have "cr_payload_digest r = digest"
      using receive(4) that same calculation(1) by (auto simp: command_conflict_def Let_def)
    ultimately have "cr_command_id r = ce_command_id e" using id by simp
    then show False using receive(3) that by (force simp: known_ids_def)
  qed
  moreover have "(ce_session_id e, ce_server_command_seq e) \<noteq> (ct_session_id t, ct_server_command_seq t)"
    if "t \<in> set (ib_tombstones b)" for t
  proof
    assume same: "(ce_session_id e, ce_server_command_seq e) = (ct_session_id t, ct_server_command_seq t)"
    have "ct_daemon_id t = env_daemon_id env" "digest_of_id env (ct_payload_digest t) (ct_command_id t)"
      using receive.prems(1) that by (auto simp: authentic_def)
    moreover have "ct_payload_digest t = digest"
      using receive(5) that same calculation(1) by (auto simp: tombstone_conflict_def Let_def)
    ultimately have "ct_command_id t = ce_command_id e" using id by simp
    then show False using receive(3) that by (force simp: known_ids_def)
  qed
  ultimately show ?case using receive.prems(2) by (force simp: places_def)
next
  case (compact b s)
  then show ?case
    using distinct_compact[of "\<lambda>r. (cr_session_id r, cr_server_command_seq r)" "ib_commands b"
        "\<lambda>t. (ct_session_id t, ct_server_command_seq t)" "ib_tombstones b" command_to_tombstone]
    by (simp add: places_def)
qed (auto simp: places_def map_update_first)

lemma terminal_in_update:
  assumes "find p cs = Some r" "terminal_in cs s n" "cr_state r = Terminal \<Longrightarrow> cr_state (g r) = Terminal"
    and "cr_session_id (g r) = cr_session_id r" "cr_server_command_seq (g r) = cr_server_command_seq r"
  shows "terminal_in (update_first p g cs) s n"
proof -
  obtain x where x: "x \<in> set cs" "cr_session_id x = s" "cr_server_command_seq x = n" "cr_state x = Terminal"
    using assms(2) by (auto simp: terminal_in_def list_ex_iff)
  show ?thesis
  proof (cases "x = r")
    case True
    then show ?thesis
      using find_update_first[OF assms(1), of g] x assms(3-5) by (auto simp: terminal_in_def list_ex_iff)
  next
    case False
    then show ?thesis
      using update_first_keeps[OF assms(1) x(1), of g] x by (auto simp: terminal_in_def list_ex_iff)
  qed
qed

lemma settled_at_compact:
  "settled_at (b\<lparr>ib_commands := filter (\<lambda>r. \<not> p r) (ib_commands b),
      ib_tombstones := ib_tombstones b @ map command_to_tombstone (filter p (ib_commands b))\<rparr>) s n
   \<longleftrightarrow> settled_at b s n"
  if "\<And>r. p r \<Longrightarrow> cr_state r = Terminal"
  using that by (auto simp: settled_at_def terminal_in_def list_ex_iff) force+

lemma boundary_step:
  assumes step: "inbox_step env b l b'" and bd: "boundary b" and dist: "distinct (places b')"
  shows "boundary b'"
  using step bd dist
proof (induction rule: inbox_step.induct)
  case (receive e digest b mid expected now)
  have "ib_processed b (ce_session_id e) < ce_server_command_seq e"
    using receive(6,7,9) by (simp add: boundary_def sat_inc_le_iff)
  then show ?case using receive.prems(1) by (auto simp: boundary_def settled_at_def terminal_in_def)
next
  case (start cid b r at)
  have "settled_at b s n \<Longrightarrow> settled_at (b\<lparr>ib_commands := update_first (\<lambda>r. cr_command_id r = cid)
      (start_record at) (ib_commands b)\<rparr>) s n" for s n
    using terminal_in_update[OF start(1), of s n "start_record at"] start(2) by (auto simp: settled_at_def)
  then show ?case
    using start find_Some_mem[OF start(1)]
    by (auto simp: boundary_def dest!: update_first_find_mem[OF start(1)])
next
  case (complete cid b r cs out at n)
  let ?b' = "b\<lparr>ib_commands := cs, ib_processed := (ib_processed b)(cr_session_id r := n)\<rparr>"
  note loop = processed_loop_Some[OF complete(3)]
  have max: "n \<noteq> u64_max"
    using processed_loop_below_max[OF complete(3)] complete.prems(1) unfolding boundary_def by metis
  have old: "settled_at b s k \<Longrightarrow> settled_at ?b' s k" for s k
    using terminal_in_update[OF complete(1), of s k "finish_record out at"] complete(2)
    by (auto simp: settled_at_def)
  have settled: "settled_at ?b' s k" if "0 < k" "k \<le> ib_processed ?b' s" for s k
  proof (cases "k \<le> ib_processed b s")
    case True
    then show ?thesis using old that complete.prems(1) by (auto simp: boundary_def)
  next
    case False
    then have "s = cr_session_id r" "ib_processed b s < k" "k \<le> n" using that by (auto split: if_splits)
    then show ?thesis using loop by (simp add: settled_at_def)
  qed
  have unfinished: "ib_processed ?b' (cr_session_id x) < cr_server_command_seq x"
    if x: "x \<in> set cs" "cr_state x \<noteq> Terminal" for x
  proof -
    have "x \<in> set (ib_commands b)"
      using x update_first_find_mem[OF complete(1)] complete(2) by fastforce
    then have above: "ib_processed b (cr_session_id x) < cr_server_command_seq x"
      using x(2) complete.prems(1) by (simp add: boundary_def)
    have False if "cr_session_id x = cr_session_id r" "cr_server_command_seq x \<le> n"
    proof -
      have "terminal_in cs (cr_session_id x) (cr_server_command_seq x)" using that above loop by auto
      then obtain y where y: "y \<in> set cs" "cr_session_id y = cr_session_id x"
        "cr_server_command_seq y = cr_server_command_seq x" "cr_state y = Terminal"
        by (auto simp: terminal_in_def list_ex_iff)
      have "inj_on (\<lambda>r. (cr_session_id r, cr_server_command_seq r)) (set cs)"
        using complete.prems(2) by (simp add: places_def distinct_map)
      from inj_onD[OF this, of y x] y x show False by simp
    qed
    then show ?thesis using above leI by (cases "cr_session_id x = cr_session_id r") auto
  qed
  have "ct_server_command_seq t \<le> ib_processed ?b' (ct_session_id t)" if "t \<in> set (ib_tombstones b)" for t
    using that complete.prems(1) loop by (auto simp: boundary_def intro: order.trans)
  then show ?case
    using settled unfinished max complete.prems(1) by (auto simp: boundary_def)
next
  case (compact b s)
  have "settled_at (b\<lparr>ib_commands := filter (\<lambda>r. \<not> command_compactable s (ib_processed b s) r) (ib_commands b),
      ib_tombstones := ib_tombstones b
        @ map command_to_tombstone (filter (command_compactable s (ib_processed b s)) (ib_commands b))\<rparr>) s' n
    \<longleftrightarrow> settled_at b s' n" for s' n
    by (rule settled_at_compact) (simp add: command_compactable_def)
  then show ?case using compact by (auto simp: boundary_def command_compactable_def)
qed (simp)

lemma inbox_ok_step:
  "inbox_step env b l b' \<Longrightarrow> collision_free env \<longrightarrow> inbox_ok env b \<Longrightarrow> collision_free env \<longrightarrow> inbox_ok env b'"
  unfolding inbox_ok_def using unique_ids_step authentic_step places_step boundary_step by blast

interpretation order: inbox_invariant env "\<lambda>b. collision_free env \<longrightarrow> inbox_ok env b" for env :: "'b journal_env"
  by unfold_locales (rule inbox_ok_step)

end
