(* ===== verification/Journal_Dispatch.thy ===== *)
theory Journal_Dispatch
  imports Journal_Inbox
begin

text \<open>
  What the daemon journal promises about commands, over every interleaving of its critical
  sections with failed writes and restarts: a command is released to the runtime at most once
  and in order, an acknowledgement is backed by the file on disk, the gap buffer is bounded,
  redelivery is idempotent, and a failed update leaves the memory at a committed state.
\<close>

section \<open>Committed updates\<close>

lemma jupdate_Inr:
  assumes "serde_roundtrip env" "jupdate env operation st = Some (Inr a, st')"
  shows "operation (env_now env (js_clock st)) (js_file st) = Some (Inr (a, js_file st'))
    \<and> (\<exists>bytes. js_disk st' = Some bytes \<and> env_from_slice env bytes = Inr (js_file st'))
    \<and> js_exec st' = js_exec st"
proof -
  obtain f where f: "operation (env_now env (js_clock st)) (js_file st) = Some (Inr (a, f))"
    using assms(2) by (auto simp: jupdate_def split: option.splits sum.splits prod.splits)
  obtain p disk where p: "persist_locked env f st = (p, disk)" by (cases "persist_locked env f st")
  have "\<exists>u. p = Inr u" using assms(2) f p by (cases p) (auto simp: jupdate_def)
  then show ?thesis
    using assms(2) f p persist_disk[OF assms(1) p] by (auto simp: jupdate_def)
qed

text \<open>The journal holds \<open>P\<close> durably: in memory and in the file on disk, which agree.\<close>

definition durable :: "'b journal_env \<Rightarrow> (journal_file \<Rightarrow> bool) \<Rightarrow> ('b, 'e) journal_state \<Rightarrow> bool" where
  "durable env P st \<longleftrightarrow>
     P (js_file st) \<and> (\<exists>bytes. js_disk st = Some bytes \<and> env_from_slice env bytes = Inr (js_file st))"

lemma jupdate_durable:
  assumes "serde_roundtrip env" "jupdate env operation st = Some (Inr a, st')"
    and "\<And>f'. operation (env_now env (js_clock st)) (js_file st) = Some (Inr (a, f')) \<Longrightarrow> P f'"
  shows "durable env P st'"
  using jupdate_Inr[OF assms(1,2)] assms(3) by (auto simp: durable_def)

section \<open>Initial states\<close>

lemma opened_held:
  assumes "open_with_config env None clock writes x = Inr st" "serde_roundtrip env" "ok default_file"
  shows "held ok env st"
  using assms persist_disk[OF assms(2)]
  by (fastforce simp: open_with_config_def held_def Let_def split: if_splits sum.splits prod.splits)

lemma default_inbox:
  "inbox_of default_file = \<lparr>ib_commands = [], ib_tombstones = [], ib_processed = \<lambda>_. 0\<rparr>"
  by (simp add: inbox_of_def)

lemma default_unique_ids: "unique_ids (inbox_of default_file)"
  by (simp add: default_inbox unique_ids_def known_ids_def)

lemma default_gap_bounded: "gap_bounded env (inbox_of default_file)"
  by (simp add: default_inbox gap_bounded_def pending_in_def)

lemma u64_max_neq_0 [simp]: "0 \<noteq> u64_max" "u64_max \<noteq> 0"
  by (simp_all add: u64_max_def)

lemma default_inbox_ok: "inbox_ok env (inbox_of default_file)"
  by (simp add: default_inbox inbox_ok_def unique_ids_def known_ids_def authentic_def places_def boundary_def)

section \<open>Reachable states\<close>

text \<open>The states of a journal that was created on an empty disk.\<close>

definition journal_reachable :: "'b journal_env \<Rightarrow> ('b, 'e) journal_state \<Rightarrow> bool" where
  "journal_reachable env st \<longleftrightarrow>
     (\<exists>clock writes x st0 dispatched.
        open_with_config env None clock writes x = Inr st0 \<and> journal_trace env st0 dispatched st)"

context inbox_invariant
begin

lemma reachable_good:
  assumes "serde_roundtrip env" "journal_reachable env st" "good (inbox_of default_file)"
  shows "good (inbox_of (js_file st))"
  using assms trace_held[OF assms(1)] opened_held[OF _ assms(1), where ok = "\<lambda>f. good (inbox_of f)"]
  unfolding journal_reachable_def by (fastforce simp: held_def)

end

interpretation auth: inbox_invariant env "authentic env" for env :: "'b journal_env"
  by unfold_locales (rule authentic_step)

lemma reachable_authentic:
  "serde_roundtrip env \<Longrightarrow> journal_reachable env st \<Longrightarrow> authentic env (inbox_of (js_file st))"
  by (rule auth.reachable_good) (simp_all add: default_inbox authentic_def)

lemma reachable_unique_ids:
  "serde_roundtrip env \<Longrightarrow> journal_reachable env st \<Longrightarrow> unique_ids (inbox_of (js_file st))"
  by (rule ids.reachable_good[OF _ _ default_unique_ids])

lemma reachable_inbox_ok:
  "serde_roundtrip env \<Longrightarrow> collision_free env \<Longrightarrow> journal_reachable env st \<Longrightarrow> inbox_ok env (inbox_of (js_file st))"
  using order.reachable_good[of env st] default_inbox_ok by blast

lemma reachable_trace:
  "journal_reachable env st \<Longrightarrow> journal_trace env st ls st' \<Longrightarrow> journal_reachable env st'"
  unfolding journal_reachable_def using journal_trace_append by blast

lemma reachable_method:
  "journal_reachable env st \<Longrightarrow> traced env m Q \<Longrightarrow> m st = Some (r, st') \<Longrightarrow> journal_reachable env st'"
  using reachable_trace tracedD by blast

section \<open>At most one dispatch\<close>

lemma step_released:
  assumes "journal_step env st ls st'" "c \<in> set ls"
  obtains req where "admissible env req" "jupdate env (request_op env req) st = Some (Inr (Some c), st')" "ls = [c]"
  using assms(1)
proof (cases rule: journal_step.cases)
  case (request req r)
  show thesis
  proof (cases r)
    case (Inr l)
    then show thesis using request assms(2) that by (cases l) auto
  qed (use request assms(2) in simp)
qed (use assms(2) in simp_all)

lemma started_step_held:
  assumes rt: "serde_roundtrip env" and step: "journal_step env st ls st'" and c: "c \<in> set ls"
    and uniq: "held (\<lambda>f. unique_ids (inbox_of f)) env st"
  shows "held (\<lambda>f. dispatched_once c (inbox_of f)) env st'" and "ls = [c]"
proof -
  obtain req where adm: "admissible env req"
    and run: "jupdate env (request_op env req) st = Some (Inr (Some c), st')" and "ls = [c]"
    using step_released[OF step c] by blast
  note ok = jupdate_Inr[OF rt run]
  have "inbox_step env (inbox_of (js_file st)) (Some c) (inbox_of (js_file st'))"
    using request_refines_inbox[OF _ adm] ok by blast
  then have "dispatched_once c (inbox_of (js_file st'))"
    using start_dispatched_once uniq by (auto simp: held_def)
  then show "held (\<lambda>f. dispatched_once c (inbox_of f)) env st'"
    using ok by (auto simp: held_def)
  show "ls = [c]" by fact
qed

lemma dispatched_step_quiet:
  assumes rt: "serde_roundtrip env" and step: "journal_step env st ls st'"
    and once: "held (\<lambda>f. dispatched_once c (inbox_of f)) env st"
  shows "c \<notin> set ls"
proof
  assume "c \<in> set ls"
  then obtain req where adm: "admissible env req"
    and run: "jupdate env (request_op env req) st = Some (Inr (Some c), st')"
    using step_released[OF step] by blast
  have "inbox_step env (inbox_of (js_file st)) (Some c) (inbox_of (js_file st'))"
    using request_refines_inbox[OF _ adm] jupdate_Inr[OF rt run] by blast
  then show False using dispatched_once_not_again once by (auto simp: held_def)
qed

lemma dispatched_trace_quiet:
  assumes rt: "serde_roundtrip env"
  shows "journal_trace env st ls st' \<Longrightarrow> held (\<lambda>f. dispatched_once c (inbox_of f)) env st \<Longrightarrow> c \<notin> set ls"
proof (induction rule: journal_trace.induct)
  case (more st ls st1 ms st2)
  then show ?case using dispatched_step_quiet[OF rt more(1)] once.step_held[OF rt more(1)] by auto
qed simp

lemma trace_dispatches_once:
  assumes rt: "serde_roundtrip env"
  shows "journal_trace env st ls st' \<Longrightarrow> held (\<lambda>f. unique_ids (inbox_of f)) env st \<Longrightarrow> distinct ls"
proof (induction rule: journal_trace.induct)
  case (more st ls st1 ms st2)
  have "distinct ms" using more ids.step_held[OF rt more(1)] by blast
  moreover have "distinct ls \<and> set ls \<inter> set ms = {}"
  proof (cases ls)
    case (Cons c cs)
    then have "ls = [c]" "held (\<lambda>f. dispatched_once c (inbox_of f)) env st1"
      using started_step_held[OF rt more(1), of c] more.prems by auto
    then show ?thesis using dispatched_trace_quiet[OF rt more(2)] by auto
  qed simp
  ultimately show ?case by simp
qed simp

section \<open>A sample journal\<close>

text \<open>A journal whose encoding is the identity, whose digests are the identities of the envelopes
  and whose writes succeed; two commands and an executor for it.\<close>

definition sample_env :: "journal_file journal_env" where
  "sample_env = \<lparr>env_daemon_id = ''d'', env_gap_limit = 2, env_now = \<lambda>_ _. ''t'',
     env_command_digest = \<lambda>e. Inr (ce_command_id e), env_event_digest = \<lambda>e. Inr (ee_event_id e),
     env_to_vec = Inr, env_from_slice = Inr, env_write = \<lambda>_. Written, env_readable = \<lambda>_. True\<rparr>"

definition sample_command :: "string \<Rightarrow> u64 \<Rightarrow> command_envelope" where
  "sample_command cid n = \<lparr>ce_command_id = cid, ce_session_id = ''s'', ce_server_command_seq = n,
     ce_sent_at = ''t'', ce_schema_version = SCHEMA_VERSION, ce_command = SessionResume\<rparr>"

definition sample_start :: "(journal_file, unit) journal_state" where
  "sample_start = \<lparr>js_file = default_file, js_disk = Some default_file, js_clock = 0, js_writes = 1, js_exec = ()\<rparr>"

definition sample_record :: command_record where
  "sample_record = \<lparr>cr_daemon_id = ''d'', cr_command_id = ''a'', cr_session_id = ''s'', cr_server_command_seq = 1,
     cr_sent_at = ''t'', cr_payload_digest = ''a'', cr_command = SessionResume, cr_message_id = None,
     cr_state = DispatchStarted, cr_outcome = None, cr_runtime_operation_id = ''a'', cr_reason = None,
     cr_updated_at = ''t''\<rparr>"

definition sample_started :: "(journal_file, unit) journal_state" where
  "sample_started = \<lparr>js_file = default_file\<lparr>jf_commands := [sample_record]\<rparr>,
     js_disk = Some (default_file\<lparr>jf_commands := [sample_record]\<rparr>), js_clock = 2, js_writes = 3, js_exec = ()\<rparr>"

definition sample_acceptance :: command_acceptance where
  "sample_acceptance =
     \<lparr>ac_result = \<lparr>pr_acknowledgement = command_ack_of sample_record, pr_state = DispatchStarted,
        pr_outcome = None, pr_duplicate = False, pr_buffered = False, pr_emitted_events = []\<rparr>,
      ac_command = Some (sample_command ''a'' 1)\<rparr>"

lemma sample_roundtrip: "serde_roundtrip sample_env"
  by (simp add: serde_roundtrip_def sample_env_def)

lemma sample_opened: "open_with_config sample_env None 0 0 () = Inr sample_start"
  by code_simp

lemma sample_accepted:
  "accept_command sample_env (sample_command ''a'' 1) sample_start = Some (Inr sample_acceptance, sample_started)"
  by code_simp

lemma sample_reachable: "journal_reachable sample_env sample_start"
  unfolding journal_reachable_def using sample_opened journal_trace.stop by blast

lemma sample_collision_free: "collision_free sample_env"
  by (simp add: collision_free_def command_payload_digest_def sample_env_def)


text \<open>C2. At most one dispatch. From a journal created on an empty disk, whatever the order of the
  critical sections that the daemon's calls run, whichever writes fail or are cut short, and however
  often the daemon restarts from the disk, no command identity is released to the runtime twice.\<close>

theorem at_most_once_dispatch:
  assumes "serde_roundtrip env" and "open_with_config env None clock writes x = Inr st0"
    and "journal_trace env st0 dispatched st"
  shows "distinct dispatched"
  using trace_dispatches_once[OF assms(1,3)]
    opened_held[OF assms(2,1), of "\<lambda>f. unique_ids (inbox_of f)"] default_unique_ids by blast


theorem at_most_once_dispatch_witness:
  "\<exists>st0 dispatched st. open_with_config sample_env None 0 0 () = Inr st0
     \<and> journal_trace sample_env st0 dispatched st \<and> dispatched = [''a''] \<and> distinct dispatched"
proof -
  have "\<exists>ls. journal_trace sample_env sample_start ls sample_started \<and> ls = released sample_acceptance"
    using tracedD[OF traced_accept sample_accepted[unfolded accept_command_def]] by simp
  then have run: "journal_trace sample_env sample_start [''a''] sample_started"
    by (simp add: sample_acceptance_def sample_command_def)
  show ?thesis
    using sample_opened run at_most_once_dispatch[OF sample_roundtrip sample_opened run] by blast
qed

section \<open>Acceptance\<close>

lemma find_append_None: "find p xs = None \<Longrightarrow> find p (xs @ ys) = find p ys"
  by (induction xs) (auto split: if_splits)

lemma prepare_effect:
  "prepare_op env e digest mid now f = Some (Inr (a, f'))
   \<Longrightarrow> f' = f \<or> f' = f\<lparr>jf_commands := jf_commands f @ [new_command_record env now e digest mid]\<rparr>"
  by (cases "validate_command_identity f (env_daemon_id env) e digest mid")
    (auto simp: prepare_op_def Let_def split: option.splits if_splits)

text \<open>What the critical section of \<open>prepare_command\<close> returns: the record of the command as the file
  now has it, or a stand-in for its tombstone.\<close>

lemma prepare_result:
  assumes run: "prepare_op env e digest mid now f = Some (Inr ((r, dup, buf), f'))"
    and auth: "authentic env (inbox_of f)"
  shows "cr_command_id r = ce_command_id e \<and> cr_session_id r = ce_session_id e
    \<and> cr_server_command_seq r = ce_server_command_seq e
    \<and> ((r \<in> set (jf_commands f') \<and> find_command (ce_command_id e) f' = Some r
          \<and> buf = (expected_command_sequence f (ce_session_id e) < ce_server_command_seq e)
          \<and> (\<not> dup \<longrightarrow> expected_command_sequence f (ce_session_id e) \<le> ce_server_command_seq e)
          \<and> (dup \<longrightarrow> r \<in> set (jf_commands f)))
       \<or> (cr_state r = Terminal \<and> ce_command_id e \<in> ct_command_id ` set (jf_command_tombstones f')))"
proof -
  let ?expected = "expected_command_sequence f (ce_session_id e)"
  have valid: "validate_command_identity f (env_daemon_id env) e digest mid = Inr ()"
    using run by (auto simp: prepare_op_def split: sum.splits)
  then have conflicts: "\<forall>r \<in> set (jf_commands f). \<not> command_conflict (env_daemon_id env) e digest mid r"
      "\<forall>t \<in> set (jf_command_tombstones f). \<not> tombstone_conflict (env_daemon_id env) e digest mid t"
    by (auto simp: validate_command_identity_def list_ex_iff split: if_splits)
  show ?thesis
  proof (cases "find_command (ce_command_id e) f")
    case (Some x)
    then have x: "x \<in> set (jf_commands f)" "cr_command_id x = ce_command_id e"
      by (auto simp: find_command_def dest: find_Some_mem)
    moreover have "cr_daemon_id x = env_daemon_id env" using auth x by (simp add: authentic_def)
    ultimately have "cr_session_id x = ce_session_id e" "cr_server_command_seq x = ce_server_command_seq e"
      using conflicts by (auto simp: command_conflict_def Let_def)
    then show ?thesis using run valid Some x by (auto simp: prepare_op_def Let_def)
  next
    case None
    show ?thesis
    proof (cases "find_command_tombstone (ce_command_id e) f")
      case (Some u)
      then have u: "u \<in> set (jf_command_tombstones f)" "ct_command_id u = ce_command_id e"
        by (auto simp: find_command_tombstone_def dest: find_Some_mem)
      moreover have "ct_daemon_id u = env_daemon_id env" using auth u by (simp add: authentic_def)
      ultimately have "ct_session_id u = ce_session_id e" "ct_server_command_seq u = ce_server_command_seq e"
        using conflicts by (auto simp: tombstone_conflict_def Let_def)
      then show ?thesis
        using run valid None Some u imageI[OF u(1), of ct_command_id]
        by (auto simp: prepare_op_def Let_def tombstone_record_def)
    next
      case none: None
      let ?r = "new_command_record env now e digest mid"
      have "f' = f\<lparr>jf_commands := jf_commands f @ [?r]\<rparr>" "r = ?r" "\<not> dup"
        "?expected \<le> ce_server_command_seq e" "buf = (?expected < ce_server_command_seq e)"
        using run valid None none by (auto simp: prepare_op_def Let_def split: if_splits)
      moreover have "find (\<lambda>r. cr_command_id r = ce_command_id e) (jf_commands f @ [?r]) = Some ?r"
        using None by (simp add: find_command_def find_append_None)
      ultimately show ?thesis by (simp add: find_command_def)
    qed
  qed
qed

text \<open>A cancellation may overtake the gap while an earlier command of its session runs.\<close>

definition interrupts :: "command_envelope \<Rightarrow> bool \<Rightarrow> journal_file \<Rightarrow> bool" where
  "interrupts e allow f \<longleftrightarrow> allow \<and> is_cancel (ce_command e) \<and> has_prior_dispatch_started e f"

text \<open>A successful acceptance: the command is prepared, and either it is answered without being
  released or its record is found received and marked as started.\<close>

lemma accept_outcome:
  assumes run: "accept_command_with_control env e allow st = Some (Inr a, st')"
  obtains digest rec dup buf st1 where
    "command_envelope_validate e = Inr ()" "command_payload_digest env e = Inr digest"
    "prepare_command env e digest (message_id (ce_command e)) st = Some (Inr (rec, dup, buf), st1)"
    "st' = st1 \<and> (cr_state rec \<noteq> Received \<or> buf \<and> \<not> interrupts e allow (js_file st1))
       \<and> a = not_dispatched (command_ack_of rec) (cr_state rec) (cr_outcome rec) dup buf
     \<or> (\<exists>current. cr_state rec = Received \<and> mark_dispatch_started env (cr_command_id rec) st1 = Some (Inr False, st')
       \<and> find_command (cr_command_id rec) (js_file st') = Some current
       \<and> a = not_dispatched (command_ack_of current) (cr_state current) (cr_outcome current) True False)
     \<or> cr_state rec = Received \<and> mark_dispatch_started env (cr_command_id rec) st1 = Some (Inr True, st')
       \<and> ac_command a = Some (record_to_envelope rec)
       \<and> ac_result a = \<lparr>pr_acknowledgement = command_ack_of rec, pr_state = DispatchStarted, pr_outcome = None,
            pr_duplicate = dup, pr_buffered = False, pr_emitted_events = []\<rparr>
       \<and> (buf \<longrightarrow> interrupts e allow (js_file st1))"
proof -
  obtain digest rec dup buf st1 where
    1: "command_envelope_validate e = Inr ()" "command_payload_digest env e = Inr digest"
      "prepare_command env e digest (message_id (ce_command e)) st = Some (Inr (rec, dup, buf), st1)"
    and rest: "(if cr_state rec \<noteq> Received
         \<or> (buf \<and> \<not> (allow \<and> is_cancel (ce_command e) \<and> buf \<and> has_prior_dispatch_started e (js_file st1)))
       then jreturn (not_dispatched (command_ack_of rec) (cr_state rec) (cr_outcome rec) dup buf)
       else jbind (mark_dispatch_started env (cr_command_id rec)) (\<lambda>started.
         if \<not> started
         then jbind (command_record_of (cr_command_id rec)) (\<lambda>current.
            jreturn (not_dispatched (command_ack_of current) (cr_state current) (cr_outcome current) True False))
         else jreturn
              \<lparr>ac_result = \<lparr>pr_acknowledgement = command_ack_of rec, pr_state = DispatchStarted,
                             pr_outcome = None, pr_duplicate = dup, pr_buffered = False,
                             pr_emitted_events = []\<rparr>,
               ac_command = Some (record_to_envelope rec)\<rparr>)) st1 = Some (Inr a, st')"
    using run unfolding accept_command_with_control_def jlift_bind_Inr_iff
    by (auto simp: jbind_Inr_iff[of "prepare_command _ _ _ _"] jread_bind_Inr_iff)
  show thesis
  proof (cases "cr_state rec \<noteq> Received
         \<or> (buf \<and> \<not> (allow \<and> is_cancel (ce_command e) \<and> buf \<and> has_prior_dispatch_started e (js_file st1)))")
    case True
    then show thesis using that[OF 1] rest by (auto simp: jm_simps interrupts_def)
  next
    case False
    then obtain started st2 where
      mark: "mark_dispatch_started env (cr_command_id rec) st1 = Some (Inr started, st2)"
      using rest by (auto simp: jbind_Inr_iff)
    show thesis
    proof (cases started)
      case True
      then show thesis using that[OF 1] rest False mark by (auto simp: jbind_def jm_simps interrupts_def)
    next
      case nstarted: False
      then obtain current where "find_command (cr_command_id rec) (js_file st2) = Some current" "st' = st2"
        "a = not_dispatched (command_ack_of current) (cr_state current) (cr_outcome current) True False"
        using rest False mark
        by (auto simp: jbind_def command_record_of_def jm_simps split: option.splits)
      then show thesis using that[OF 1] mark nstarted False by auto
    qed
  qed
qed

lemma mark_result:
  assumes "mark_op cid now f = Some (Inr (started, f'))"
  obtains r where "find_command cid f = Some r"
    "started = (cr_state r = Received)"
    "f' = (if started then f\<lparr>jf_commands := update_first (\<lambda>r. cr_command_id r = cid) (start_record (now 0)) (jf_commands f)\<rparr> else f)"
  using assms by (auto simp: mark_op_def start_record_def[abs_def] split: option.splits if_splits)

lemma accept_cases:
  assumes rt: "serde_roundtrip env" and auth: "authentic env (inbox_of (js_file st))"
    and run: "accept_command_with_control env e allow st = Some (Inr a, st')"
  obtains r dup buf st1 digest now where
    "command_envelope_validate e = Inr ()" "command_payload_digest env e = Inr digest"
    "prepare_op env e digest (message_id (ce_command e)) now (js_file st) = Some (Inr ((r, dup, buf), js_file st1))"
    "cr_command_id r = ce_command_id e" "cr_session_id r = ce_session_id e"
    "cr_server_command_seq r = ce_server_command_seq e"
    "pr_acknowledgement (ac_result a) = command_ack_of r"
    "durable env (\<lambda>f. ce_command_id e \<in> set (known_ids (inbox_of f))) st1"
    "st' = st1 \<and> ac_command a = None \<and> (cr_state r \<noteq> Received \<or> buf \<and> \<not> interrupts e allow (js_file st1))
     \<or> ac_command a = Some (record_to_envelope r) \<and> cr_state r = Received
       \<and> (buf \<longrightarrow> interrupts e allow (js_file st1))
       \<and> mark_dispatch_started env (ce_command_id e) st1 = Some (Inr True, st')"
  using run
proof (rule accept_outcome, goal_cases)
  case (1 digest r dup buf st1)
  note prep = jupdate_Inr[OF rt 1(4)[unfolded prepare_command_def]]
  then have op: "prepare_op env e digest (message_id (ce_command e)) (env_now env (js_clock st)) (js_file st)
      = Some (Inr ((r, dup, buf), js_file st1))" by blast
  note res = prepare_result[OF op auth]
  have "ce_command_id e \<in> set (known_ids (inbox_of (js_file st1)))"
    using res by (force simp: known_ids_def)
  then have dur: "durable env (\<lambda>f. ce_command_id e \<in> set (known_ids (inbox_of f))) st1"
    using prep by (simp add: durable_def)
  have "\<not> mark_dispatch_started env (cr_command_id r) st1 = Some (Inr False, st')" if "cr_state r = Received"
  proof
    assume "mark_dispatch_started env (cr_command_id r) st1 = Some (Inr False, st')"
    from jupdate_Inr[OF rt this[unfolded mark_dispatch_started_def]]
    have "\<exists>now f'. mark_op (cr_command_id r) now (js_file st1) = Some (Inr (False, f'))" by blast
    then show False using res that by (auto simp: mark_op_def split: if_splits)
  qed
  then show ?case using that[OF 1(2,3) op] res dur 1(5) by (auto simp: not_dispatched_def)
qed

section \<open>In-order dispatch\<close>

text \<open>C23. Commands of a session are released in sequence order. In every reachable journal, a command
  that acceptance hands to the runtime is the envelope's own command, and it stands directly behind
  the processed boundary with every lower sequence number settled; the one exception is a
  cancellation accepted as a control command while an earlier command of the session is running.\<close>

theorem dispatch_in_order:
  assumes "serde_roundtrip env" "collision_free env" "journal_reachable env st"
    and "accept_command_with_control env e allow st = Some (Inr a, st')" "ac_command a = Some c"
  shows "ce_command_id c = ce_command_id e \<and> ce_session_id c = ce_session_id e
    \<and> ce_server_command_seq c = ce_server_command_seq e
    \<and> ((ce_server_command_seq c = expected_command_sequence (js_file st) (ce_session_id c)
         \<and> (\<forall>n. 0 < n \<and> n < ce_server_command_seq c \<longrightarrow> settled_at (inbox_of (js_file st)) (ce_session_id c) n))
       \<or> (allow \<and> is_cancel (ce_command e)
         \<and> (\<exists>r \<in> set (jf_commands (js_file st)). cr_session_id r = ce_session_id c
              \<and> cr_server_command_seq r < ce_server_command_seq c \<and> cr_state r = DispatchStarted)))"
proof -
  have ok: "inbox_ok env (inbox_of (js_file st))" by (rule reachable_inbox_ok[OF assms(1-3)])
  then have auth: "authentic env (inbox_of (js_file st))" and bd: "boundary (inbox_of (js_file st))"
    by (simp_all add: inbox_ok_def)
  show ?thesis
    using assms(1) auth assms(4)
  proof (rule accept_cases, goal_cases)
    case (1 r dup buf st1 digest now)
    let ?f = "js_file st" and ?s = "ce_session_id e"
    let ?p = "sj_processed_through_seq (session_of ?f ?s)"
    have r: "c = record_to_envelope r" "cr_state r = Received" "buf \<Longrightarrow> interrupts e allow (js_file st1)"
      using 1(9) assms(5) by auto
    have ids: "ce_command_id c = ce_command_id e" "ce_session_id c = ?s" "ce_server_command_seq c = ce_server_command_seq e"
      using r 1(4-6) by (simp_all add: record_to_envelope_def)
    note res = prepare_result[OF 1(3) auth]
    have p: "?p \<noteq> u64_max" using bd by (simp add: boundary_def)
    have "?p < ce_server_command_seq e" if dup
      using that res bd r(2) 1(5,6) by (auto simp: boundary_def)
    then have ge: "expected_command_sequence ?f ?s \<le> ce_server_command_seq e"
      using res r(2) p by (auto simp: expected_command_sequence_alt sat_inc_le_iff)
    show ?case
    proof (cases buf)
      case False
      then have eq: "ce_server_command_seq e = expected_command_sequence ?f ?s" using ge res r(2) by auto
      have "settled_at (inbox_of ?f) ?s n" if "0 < n" "n < ce_server_command_seq e" for n
        using that bd p by (auto simp: eq expected_command_sequence_alt less_sat_inc_iff boundary_def)
      then show ?thesis using ids eq by simp
    next
      case True
      have "\<exists>x \<in> set (jf_commands ?f). cr_session_id x = ?s \<and> cr_server_command_seq x < ce_server_command_seq e
          \<and> cr_state x = DispatchStarted"
        using r(3)[OF True] prepare_effect[OF 1(3)]
        by (fastforce simp: interrupts_def has_prior_dispatch_started_def list_ex_iff)
      then show ?thesis using ids r(3)[OF True] by (auto simp: interrupts_def)
    qed
  qed
qed

theorem dispatch_in_order_witness:
  "\<exists>a st'. accept_command_with_control sample_env (sample_command ''a'' 1) False sample_start = Some (Inr a, st')
     \<and> ac_command a = Some (sample_command ''a'' 1)
     \<and> ce_server_command_seq (sample_command ''a'' 1) = expected_command_sequence (js_file sample_start) ''s''"
  using dispatch_in_order[OF sample_roundtrip sample_collision_free sample_reachable
      sample_accepted[unfolded accept_command_def], of "sample_command ''a'' 1"]
    sample_accepted[unfolded accept_command_def]
  by (simp add: sample_acceptance_def sample_command_def)

section \<open>Acknowledgements are durable\<close>

text \<open>An acknowledgement is sent only for a durable command. When acceptance succeeds, the
  acknowledgement names the accepted envelope, the file on disk is the file in memory and knows the
  command; and if the command is released, the file on disk already records that it must never be
  released again.\<close>

theorem acknowledgement_durable:
  assumes "serde_roundtrip env" "journal_reachable env st"
    and "accept_command_with_control env e allow st = Some (Inr a, st')"
  shows "pr_acknowledgement (ac_result a) = \<lparr>ca_command_id = ce_command_id e, ca_session_id = ce_session_id e,
      ca_server_command_seq = ce_server_command_seq e, ca_schema_version = SCHEMA_VERSION\<rparr>
    \<and> durable env (\<lambda>f. ce_command_id e \<in> set (known_ids (inbox_of f))
         \<and> (ac_command a = None \<or> dispatched_once (ce_command_id e) (inbox_of f))) st'"
  using assms(1) reachable_authentic[OF assms(1,2)] assms(3)
proof (rule accept_cases, goal_cases)
  case (1 r dup buf st1 digest now)
  have uniq: "unique_ids (inbox_of (js_file st1))"
    using unique_ids_step[OF prepare_inbox[OF 1(3,1,2)]] reachable_unique_ids[OF assms(1,2)] by blast
  have "durable env (\<lambda>f. ce_command_id e \<in> set (known_ids (inbox_of f))
         \<and> (ac_command a = None \<or> dispatched_once (ce_command_id e) (inbox_of f))) st'"
  proof (cases "ac_command a")
    case None
    then show ?thesis using 1(8,9) by (auto simp: durable_def)
  next
    case (Some c)
    then have "mark_dispatch_started env (ce_command_id e) st1 = Some (Inr True, st')" using 1(9) by simp
    note mark = jupdate_Inr[OF assms(1) this[unfolded mark_dispatch_started_def]]
    then have "inbox_step env (inbox_of (js_file st1)) (Some (ce_command_id e)) (inbox_of (js_file st'))"
      using mark_inbox by fastforce
    from start_dispatched_once[OF this uniq] show ?thesis
      using mark by (simp add: durable_def dispatched_once_def)
  qed
  then show ?case using 1(4-7) by (simp add: command_ack_of_def)
qed

theorem acknowledgement_durable_witness:
  "\<exists>a st'. accept_command_with_control sample_env (sample_command ''a'' 1) False sample_start = Some (Inr a, st')
     \<and> ca_command_id (pr_acknowledgement (ac_result a)) = ''a''
     \<and> durable sample_env (\<lambda>f. ''a'' \<in> set (known_ids (inbox_of f)) \<and> dispatched_once ''a'' (inbox_of f)) st'"
  using acknowledgement_durable[OF sample_roundtrip sample_reachable sample_accepted[unfolded accept_command_def]]
    sample_accepted[unfolded accept_command_def]
  by (simp add: sample_acceptance_def sample_command_def)

section \<open>Bounds and the ledger\<close>

text \<open>The gap buffer of a session is bounded: in every reachable journal, at most the configured
  number of unfinished commands wait beyond the next expected sequence number.\<close>

theorem gap_buffer_bounded:
  assumes "serde_roundtrip env" "journal_reachable env st"
  shows "gap_pending (js_file st) s (expected_command_sequence (js_file st) s) \<le> env_gap_limit env"
  using gap.reachable_good[OF assms default_gap_bounded]
  by (simp add: gap_bounded_def gap_pending_def pending_in_def expected_command_sequence_alt)

theorem gap_buffer_bounded_witness:
  "\<exists>st. journal_reachable sample_env (st :: (journal_file, unit) journal_state)
     \<and> gap_pending (js_file st) ''s'' (expected_command_sequence (js_file st) ''s'') \<le> 2"
  using gap_buffer_bounded[OF sample_roundtrip sample_reachable, of "''s''"] sample_reachable
  by (auto simp: sample_env_def)

text \<open>The command ledger of every reachable journal is consistent: a command identity and a
  sequence number of a session occur once, among live records and tombstones together; the processed
  boundary is below \<open>u64::MAX\<close>, every sequence number up to it is settled (a terminal record or a
  tombstone), tombstones stay within it, and every unfinished command is beyond it.\<close>

theorem command_ledger_consistent:
  assumes "serde_roundtrip env" "collision_free env" "journal_reachable env st"
  shows "unique_ids (inbox_of (js_file st)) \<and> distinct (places (inbox_of (js_file st)))
    \<and> boundary (inbox_of (js_file st))"
  using reachable_inbox_ok[OF assms] by (simp add: inbox_ok_def)

lemma sample_started_reachable: "journal_reachable sample_env sample_started"
  by (rule reachable_method[OF sample_reachable traced_accept sample_accepted[unfolded accept_command_def]])

theorem command_ledger_consistent_witness:
  "\<exists>st. jf_commands (js_file (st :: (journal_file, unit) journal_state)) = [sample_record]
     \<and> unique_ids (inbox_of (js_file st)) \<and> boundary (inbox_of (js_file st))"
  using command_ledger_consistent[OF sample_roundtrip sample_collision_free sample_started_reachable]
  by (intro exI[of _ sample_started]) (simp add: sample_started_def)

section \<open>Atomic updates\<close>

text \<open>An update is all or nothing. If it succeeds, memory and disk hold the same new file. If its
  closure refuses, nothing has changed. If the file could not be written, the disk holds the old or
  the complete new file, and memory holds the old file or what the disk holds.\<close>

theorem update_atomic:
  assumes "serde_roundtrip env" "jupdate env operation st = Some (r, st')"
  shows "case operation (env_now env (js_clock st)) (js_file st) of
      None \<Rightarrow> False
    | Some (Inl e) \<Rightarrow> r = Inl e \<and> js_file st' = js_file st \<and> js_disk st' = js_disk st
    | Some (Inr (a, f)) \<Rightarrow>
        (r = Inr a \<and> js_file st' = f \<and> durable env (\<lambda>g. g = f) st')
        \<or> (\<exists>e. r = Inl e
            \<and> (js_disk st' = js_disk st \<or> (\<exists>bytes. js_disk st' = Some bytes \<and> env_from_slice env bytes = Inr f))
            \<and> (js_file st' = js_file st
               \<or> (\<exists>bytes. js_disk st' = Some bytes \<and> env_from_slice env bytes = Inr (js_file st'))))"
proof -
  let ?op = "operation (env_now env (js_clock st)) (js_file st)"
  consider e where "?op = Some (Inl e)" | a f where "?op = Some (Inr (a, f))"
    using assms(2) by (auto simp: jupdate_def split: option.splits sum.splits prod.splits)
  then show ?thesis
  proof cases
    case 1
    then show ?thesis using assms(2) by (auto simp: jupdate_def)
  next
    case 2
    obtain p disk where p: "persist_locked env f st = (p, disk)" by (cases "persist_locked env f st")
    note disk = persist_disk[OF assms(1) p]
    show ?thesis
    proof (cases p)
      case (Inl e)
      define g where "g = reread env (js_writes st) disk (js_file st)"
      have "r = Inl e" "js_file st' = g" "js_disk st' = disk"
        using assms(2) 2 p Inl by (auto simp: jupdate_def g_def)
      moreover have "g = js_file st \<or> (\<exists>bytes. disk = Some bytes \<and> env_from_slice env bytes = Inr g)"
        by (auto simp: g_def reread_def split: option.splits sum.splits)
      ultimately show ?thesis using 2 disk by auto
    next
      case (Inr u)
      then show ?thesis using assms(2) 2 p disk by (auto simp: jupdate_def durable_def)
    qed
  qed
qed

theorem update_atomic_witness:
  "\<exists>st'. jupdate sample_env (mark_op ''a'') sample_started = Some (Inr False, st')
     \<and> js_file st' = js_file sample_started \<and> durable sample_env (\<lambda>g. g = js_file sample_started) st'"
proof -
  have run: "jupdate sample_env (mark_op ''a'') sample_started
      = Some (Inr False, sample_started\<lparr>js_clock := 3, js_writes := 4\<rparr>)"
    by code_simp
  have op: "mark_op ''a'' (env_now sample_env (js_clock sample_started)) (js_file sample_started)
      = Some (Inr (False, js_file sample_started))"
    by code_simp
  show ?thesis using update_atomic[OF sample_roundtrip run] run by (simp add: op)
qed

section \<open>Redelivery\<close>

definition disk_writable :: "'b journal_env \<Rightarrow> bool" where
  "disk_writable env \<longleftrightarrow> (\<forall>n. env_write env n = Written) \<and> (\<forall>f. \<exists>bytes. env_to_vec env f = Inr bytes)"

lemma jupdate_writable:
  assumes "disk_writable env" "operation (env_now env (js_clock st)) (js_file st) = Some (Inr (a, f))"
  shows "\<exists>st'. jupdate env operation st = Some (Inr a, st') \<and> js_file st' = f \<and> js_exec st' = js_exec st"
proof -
  obtain bytes where "env_to_vec env f = Inr bytes" using assms(1) by (auto simp: disk_writable_def)
  then show ?thesis using assms by (auto simp: jupdate_def persist_locked_def disk_writable_def)
qed

lemma conflict_start_record [simp]:
  "command_conflict d e digest mid (start_record at r) = command_conflict d e digest mid r"
  by (simp add: command_conflict_def)

lemma find_update_first_eq:
  "find p xs = Some r \<Longrightarrow> p (g r) \<Longrightarrow> find p (update_first p g xs) = Some (g r)"
  by (induction xs) (auto split: if_splits)

lemma prepare_known:
  assumes "validate_command_identity f (env_daemon_id env) e digest mid = Inr ()" "find_command (ce_command_id e) f = Some r"
  shows "prepare_op env e digest mid now f
    = Some (Inr ((r, True, expected_command_sequence f (ce_session_id e) < cr_server_command_seq r), f))"
  using assms by (simp add: prepare_op_def Let_def)

lemma prepare_validated:
  assumes "prepare_op env e digest mid now f = Some (Inr (x, f'))"
  shows "validate_command_identity f' (env_daemon_id env) e digest mid = Inr ()"
proof -
  have "validate_command_identity f (env_daemon_id env) e digest mid = Inr ()"
    using assms by (auto simp: prepare_op_def split: sum.splits)
  moreover have "\<not> command_conflict (env_daemon_id env) e digest mid (new_command_record env now e digest mid)"
    by (simp add: command_conflict_def Let_def)
  ultimately show ?thesis
    using prepare_effect[OF assms] by (auto simp: validate_command_identity_def split: if_splits)
qed

lemma prepare_again:
  assumes run: "prepare_op env e digest mid now f = Some (Inr ((r, dup, buf), f'))"
  shows "\<exists>r2. prepare_op env e digest mid now2 f' = Some (Inr ((r2, True, buf), f'))
    \<and> command_ack_of r2 = command_ack_of r \<and> cr_state r2 = cr_state r"
proof -
  have valid: "validate_command_identity f (env_daemon_id env) e digest mid = Inr ()"
    using run by (auto simp: prepare_op_def split: sum.splits)
  note valid' = prepare_validated[OF run]
  show ?thesis
  proof (cases "find_command (ce_command_id e) f")
    case (Some x)
    then show ?thesis using prepare_known[OF valid Some] run by auto
  next
    case None
    show ?thesis
    proof (cases "find_command_tombstone (ce_command_id e) f")
      case (Some u)
      then show ?thesis
        using run valid None
        by (auto simp: prepare_op_def Let_def tombstone_record_def command_ack_of_def)
    next
      case none: None
      let ?r = "new_command_record env now e digest mid"
      have f': "f' = f\<lparr>jf_commands := jf_commands f @ [?r]\<rparr>" "r = ?r"
        "buf = (expected_command_sequence f (ce_session_id e) < ce_server_command_seq e)"
        using run valid None none by (auto simp: prepare_op_def Let_def split: if_splits)
      then have "find_command (ce_command_id e) f' = Some ?r"
        using None by (simp add: find_command_def find_append_None)
      then show ?thesis
        using prepare_known[OF valid'] f' by (simp add: expected_command_sequence_alt)
    qed
  qed
qed

lemma prepare_started:
  assumes run: "prepare_op env e digest mid now f = Some (Inr ((r, dup, buf), f'))" and r: "cr_state r = Received"
    and mark: "mark_op (ce_command_id e) now1 f' = Some (Inr (True, f2))"
  shows "\<exists>r2. prepare_op env e digest mid now2 f2
        = Some (Inr ((r2, True, expected_command_sequence f2 (ce_session_id e) < ca_server_command_seq (command_ack_of r)), f2))
    \<and> command_ack_of r2 = command_ack_of r \<and> cr_state r2 = DispatchStarted"
  using mark
proof (rule mark_result)
  fix x assume x: "find_command (ce_command_id e) f' = Some x" and st: "True = (cr_state x = Received)"
    and f2: "f2 = (if True then f'\<lparr>jf_commands := update_first (\<lambda>r. cr_command_id r = ce_command_id e)
        (start_record (now1 0)) (jf_commands f')\<rparr> else f')"
  have "find_command (ce_command_id e) f2 = Some (start_record (now1 0) x)"
    using x find_Some_mem[OF x[unfolded find_command_def]]
    by (simp add: f2 find_command_def) (rule find_update_first_eq; simp)
  moreover have "validate_command_identity f2 (env_daemon_id env) e digest mid = Inr ()"
    using prepare_validated[OF run] update_first_find_mem[OF x[unfolded find_command_def]] find_Some_mem[OF x[unfolded find_command_def]]
    by (fastforce simp: validate_command_identity_def f2 list_ex_iff split: if_splits)
  moreover have "command_ack_of x = command_ack_of r"
    using prepare_again[OF run, of now2] prepare_known[OF prepare_validated[OF run] x, of now2] by auto
  ultimately show ?thesis
    using prepare_known by (fastforce simp: command_ack_of_def)
qed

lemma accept_duplicate:
  assumes wr: "disk_writable env"
    and adm: "command_envelope_validate e = Inr ()" "command_payload_digest env e = Inr digest"
    and prep: "\<And>now. \<exists>r2. prepare_op env e digest (message_id (ce_command e)) now (js_file st)
        = Some (Inr ((r2, True, buf), js_file st)) \<and> command_ack_of r2 = ack \<and> cr_state r2 = state"
    and quiet: "state \<noteq> Received \<or> buf \<and> \<not> interrupts e allow (js_file st)"
  shows "\<exists>a2 st2. accept_command_with_control env e allow st = Some (Inr a2, st2) \<and> ac_command a2 = None
    \<and> pr_duplicate (ac_result a2) \<and> pr_acknowledgement (ac_result a2) = ack \<and> js_file st2 = js_file st"
proof -
  obtain r2 where r2: "prepare_op env e digest (message_id (ce_command e)) (env_now env (js_clock st)) (js_file st)
        = Some (Inr ((r2, True, buf), js_file st))" "command_ack_of r2 = ack" "cr_state r2 = state"
    using prep by blast
  obtain st2 where st2: "prepare_command env e digest (message_id (ce_command e)) st = Some (Inr (r2, True, buf), st2)"
    "js_file st2 = js_file st"
    unfolding prepare_command_def
    using jupdate_writable[where operation = "prepare_op env e digest (message_id (ce_command e))", OF wr r2(1)] by blast
  have "accept_command_with_control env e allow st
      = Some (Inr (not_dispatched (command_ack_of r2) (cr_state r2) (cr_outcome r2) True buf), st2)"
    using quiet st2 r2(3) adm by (simp add: accept_command_with_control_def jbind_def jm_simps interrupts_def)
  then show ?thesis using st2 r2 by (simp add: not_dispatched_def)
qed

text \<open>Redelivery is idempotent. After a command was accepted, accepting the same envelope again on a
  writable disk succeeds, answers with the same acknowledgement flagged as a duplicate, releases
  nothing and leaves the journal as it is.\<close>

theorem redelivery_idempotent:
  assumes "serde_roundtrip env" "disk_writable env" "journal_reachable env st"
    and "accept_command_with_control env e allow st = Some (Inr a, st')"
  shows "\<exists>a2 st2. accept_command_with_control env e allow st' = Some (Inr a2, st2) \<and> ac_command a2 = None
    \<and> pr_duplicate (ac_result a2)
    \<and> pr_acknowledgement (ac_result a2) = pr_acknowledgement (ac_result a) \<and> js_file st2 = js_file st'"
  using assms(1) reachable_authentic[OF assms(1,3)] assms(4)
proof (rule accept_cases, goal_cases)
  case (1 r dup buf st1 digest now)
  show ?case
  proof (cases "ac_command a")
    case None
    then have st': "st' = st1" and quiet: "cr_state r \<noteq> Received \<or> buf \<and> \<not> interrupts e allow (js_file st1)"
      using 1(9) by auto
    show ?thesis unfolding st' 1(7)
      by (rule accept_duplicate[OF assms(2) 1(1,2) _ quiet]) (rule prepare_again[OF 1(3)])
  next
    case (Some c)
    then have r: "cr_state r = Received" "mark_dispatch_started env (ce_command_id e) st1 = Some (Inr True, st')"
      using 1(9) by auto
    note mark = jupdate_Inr[OF assms(1) r(2)[unfolded mark_dispatch_started_def]]
    then have op: "mark_op (ce_command_id e) (env_now env (js_clock st1)) (js_file st1) = Some (Inr (True, js_file st'))"
      by blast
    show ?thesis unfolding 1(7)
      by (rule accept_duplicate[OF assms(2) 1(1,2) prepare_started[OF 1(3) r(1) op]]) simp
  qed
qed

theorem redelivery_idempotent_witness:
  "\<exists>a2 st2. accept_command_with_control sample_env (sample_command ''a'' 1) False sample_started = Some (Inr a2, st2)
     \<and> ac_command a2 = None \<and> js_file st2 = js_file sample_started"
proof -
  have "disk_writable sample_env" by (simp add: disk_writable_def sample_env_def)
  from redelivery_idempotent[OF sample_roundtrip this sample_reachable sample_accepted[unfolded accept_command_def]]
  show ?thesis by blast
qed

end
