(* ===== verification/Journal_Outbox.thy ===== *)
theory Journal_Outbox
  imports Journal_Dispatch
begin

text \<open>
  The event side of the daemon journal.

  \<open>outbox\<close> is what the journal file says about events: the live records, the tombstones and, for
  every session, the acknowledged watermark with the sparse acknowledgements beyond it.
  \<open>outbox_step\<close> is its contract: an event is appended under the next free sequence number, is
  acknowledged by the server, and only then replaced by a tombstone. Every critical section of the
  journal is a sequence of these moves.
\<close>

section \<open>The outbox and its moves\<close>

abbreviation er_session :: "event_record \<Rightarrow> string" where
  "er_session r \<equiv> ee_session_id (er_envelope r)"

abbreviation er_seq :: "event_record \<Rightarrow> u64" where
  "er_seq r \<equiv> ee_daemon_event_seq (er_envelope r)"

record outbox =
  ob_events :: "event_record list"
  ob_tombstones :: "event_tombstone list"
  ob_through :: "string \<Rightarrow> u64"
  ob_sparse :: "string \<Rightarrow> u64 list"

definition outbox_of :: "journal_file \<Rightarrow> outbox" where
  "outbox_of f = \<lparr>ob_events = jf_events f, ob_tombstones = jf_event_tombstones f,
     ob_through = (\<lambda>s. sj_event_ack_through_seq (session_of f s)),
     ob_sparse = (\<lambda>s. sj_event_ack_sparse (session_of f s))\<rparr>"

definition event_places :: "outbox \<Rightarrow> (string \<times> u64) list" where
  "event_places b = map (\<lambda>r. (er_session r, er_seq r)) (ob_events b)
     @ map (\<lambda>t. (et_session_id t, et_daemon_event_seq t)) (ob_tombstones b)"

definition next_sequence :: "outbox \<Rightarrow> string \<Rightarrow> u64" where
  "next_sequence b s =
     sat_inc (max (max (ob_through b s) (max_or_0 (ob_sparse b s)))
                  (max_or_0 (map snd (filter (\<lambda>p. fst p = s) (event_places b)))))"

definition acknowledged_in :: "event_record list \<Rightarrow> string \<Rightarrow> u64 \<Rightarrow> bool" where
  "acknowledged_in es s n = list_ex (\<lambda>r. er_session r = s \<and> er_seq r = n \<and> er_acknowledged r) es"

inductive outbox_step :: "outbox \<Rightarrow> outbox \<Rightarrow> bool" where
  append:
    "\<not> er_acknowledged r \<Longrightarrow> er_seq r = next_sequence b (er_session r)
     \<Longrightarrow> outbox_step b (b\<lparr>ob_events := ob_events b @ [r]\<rparr>)"
| status:
    "outbox_step b (b\<lparr>ob_events := update_first p (\<lambda>r. r\<lparr>er_acknowledgement := Some st\<rparr>) (ob_events b)\<rparr>)"
| tombstone_status:
    "outbox_step b (b\<lparr>ob_tombstones := update_first q (\<lambda>t. t\<lparr>et_acknowledgement := Some st\<rparr>) (ob_tombstones b)\<rparr>)"
| acknowledge:
    "find p (ob_events b) = Some r \<Longrightarrow> es = update_first p (set_acknowledged st) (ob_events b)
     \<Longrightarrow> s = er_session r
     \<Longrightarrow> sparse = (if ob_through b s < er_seq r then merge_sparse (ob_sparse b s) [er_seq r] else ob_sparse b s)
     \<Longrightarrow> event_ack_loop (acknowledged_in es s) (ob_through b s) sparse = Some (n, sparse')
     \<Longrightarrow> outbox_step b (b\<lparr>ob_events := es, ob_through := (ob_through b)(s := n), ob_sparse := (ob_sparse b)(s := sparse')\<rparr>)"
| reconcile:
    "n = max (ob_through b s) m
     \<Longrightarrow> sparse = filter (\<lambda>k. n < k) (merge_sparse (ob_sparse b s) remote)
     \<Longrightarrow> outbox_step b
       (b\<lparr>ob_events := map (\<lambda>r. if er_session r = s \<and> (er_seq r \<le> n \<or> er_seq r \<in> set sparse)
                              then r\<lparr>er_acknowledged := True\<rparr> else r) (ob_events b),
         ob_through := (ob_through b)(s := n), ob_sparse := (ob_sparse b)(s := sparse)\<rparr>)"
| compact:
    "\<forall>r. p r \<longrightarrow> er_acknowledged r
     \<Longrightarrow> list_all2 (\<lambda>t r. \<exists>identity. t = event_to_tombstone r identity) ts (filter p (ob_events b))
     \<Longrightarrow> outbox_step b
       (b\<lparr>ob_events := filter (\<lambda>r. \<not> p r) (ob_events b), ob_tombstones := ob_tombstones b @ ts\<rparr>)"

section \<open>The journal refines the outbox\<close>

lemma outbox_fields [simp]:
  "ob_events (outbox_of f) = jf_events f" "ob_tombstones (outbox_of f) = jf_event_tombstones f"
  "ob_through (outbox_of f) s = sj_event_ack_through_seq (session_of f s)"
  "ob_sparse (outbox_of f) s = sj_event_ack_sparse (session_of f s)"
  "outbox_of (f\<lparr>jf_commands := cs\<rparr>) = outbox_of f"
  "outbox_of (f\<lparr>jf_command_tombstones := ts\<rparr>) = outbox_of f"
  "outbox_of (f\<lparr>jf_events := es\<rparr>) = (outbox_of f)\<lparr>ob_events := es\<rparr>"
  "outbox_of (f\<lparr>jf_event_tombstones := us\<rparr>) = (outbox_of f)\<lparr>ob_tombstones := us\<rparr>"
  by (simp_all add: outbox_of_def)

lemma outbox_of_put_session:
  "outbox_of (put_session s x f) = (outbox_of f)\<lparr>ob_through := (ob_through (outbox_of f))(s := sj_event_ack_through_seq x),
     ob_sparse := (ob_sparse (outbox_of f))(s := sj_event_ack_sparse x)\<rparr>"
  by (auto simp: outbox_of_def fun_eq_iff)

lemma max_or_0_Nil [simp]: "max_or_0 [] = 0"
  by (simp add: max_or_0_def)

lemma next_event_sequence_outbox: "next_event_sequence f s = next_sequence (outbox_of f) s"
proof -
  have "(case map_of (jf_sessions f) s of None \<Rightarrow> 0
      | Some x \<Rightarrow> max (sj_event_ack_through_seq x) (max_or_0 (sj_event_ack_sparse x)))
    = max (ob_through (outbox_of f) s) (max_or_0 (ob_sparse (outbox_of f) s))"
    by (simp add: session_of_def split: option.split)
  moreover have "map snd (filter (\<lambda>p. fst p = s) (event_places (outbox_of f)))
     = map (\<lambda>r. er_seq r) (filter (\<lambda>r. er_session r = s) (jf_events f))
       @ map et_daemon_event_seq (filter (\<lambda>t. et_session_id t = s) (jf_event_tombstones f))"
    by (simp add: event_places_def filter_map comp_def)
  ultimately show ?thesis
    by (simp add: next_event_sequence_def next_sequence_def Let_def)
qed

lemma push_event_outbox:
  assumes "push_event env (journal_event f eid sid sent_at ev) f = Inr f'"
  shows "outbox_step (outbox_of f) (outbox_of f')"
  using assms outbox_step.append[of "new_event_record env (journal_event f eid sid sent_at ev) _" "outbox_of f"]
  by (auto simp: push_event_def and_then_Inr_iff new_event_record_def journal_event_def next_event_sequence_outbox)

lemma push_runtime_events_outbox:
  "push_runtime_events env now cid sid i evs f = Inr (es, f') \<Longrightarrow> outbox_step\<^sup>*\<^sup>* (outbox_of f) (outbox_of f')"
proof (induction evs arbitrary: i f es)
  case (Cons ev evs)
  then obtain f1 es1 where "push_event env (journal_event f (runtime_event_id cid i) sid (now (Suc i)) ev) f = Inr f1"
    "push_runtime_events env now cid sid (Suc i) evs f1 = Inr (es1, f')"
    by (auto simp: and_then_Inr_iff Let_def)
  then show ?case using push_event_outbox Cons.IH by (meson converse_rtranclp_into_rtranclp)
qed simp

lemma advance_processed_outbox: "advance_processed f s = Some f' \<Longrightarrow> outbox_of f' = outbox_of f"
  by (auto simp: advance_processed_def Let_def outbox_of_put_session fun_eq_iff split: option.splits)

lemma unknown_event_journal: "\<exists>eid ev. unknown_event f cid operation sid sent_at reason = journal_event f eid sid sent_at ev"
  unfolding unknown_event_def by blast

lemma finish_outbox:
  assumes "finish_op env cid out evs now f = Some (Inr (es, f'))"
  shows "outbox_step\<^sup>*\<^sup>* (outbox_of f) (outbox_of f')"
  using assms
proof (rule finish_effect, goal_cases)
  case (1 r f2 fs f3)
  have "outbox_step\<^sup>*\<^sup>* (outbox_of f) (outbox_of f3)"
    using push_runtime_events_outbox[OF 1(3)] advance_processed_outbox[OF 1(2)] by simp
  moreover have "f' = f3 \<or> outbox_step (outbox_of f3) (outbox_of f')"
    using 1(4) push_event_outbox unknown_event_journal by metis
  ultimately show ?case by (auto intro: rtranclp.rtrancl_into_rtrancl)
qed

lemma compact_events_split:
  "compact_events env p rs = Inr (ts, kept) \<Longrightarrow>
     kept = filter (\<lambda>r. \<not> p r) rs
     \<and> list_all2 (\<lambda>t r. \<exists>identity. t = event_to_tombstone r identity) ts (filter p rs)"
  by (induction rs arbitrary: ts kept) (auto simp: and_then_Inr_iff split: if_splits)

lemma compact_outbox:
  assumes "compact_op env s now f = Some (Inr (u, f'))"
  shows "outbox_step (outbox_of f) (outbox_of f')"
proof -
  let ?p = "event_compactable s (sj_event_ack_through_seq (session_of f s)) (sj_event_ack_sparse (session_of f s))"
  obtain ts kept where c: "compact_events env ?p (jf_events f) = Inr (ts, kept)"
    and f': "outbox_of f' = (outbox_of f)\<lparr>ob_events := kept, ob_tombstones := ob_tombstones (outbox_of f) @ ts\<rparr>"
    using assms by (auto simp: compact_op_def Let_def and_then_Inr_iff)
  show ?thesis
    unfolding f' using outbox_step.compact[of ?p ts "outbox_of f"] compact_events_split[OF c]
    by (simp add: event_compactable_def)
qed

lemma append_record_outbox:
  "ee_daemon_event_seq e = next_event_sequence f (ee_session_id e)
   \<Longrightarrow> outbox_step (outbox_of f) ((outbox_of f)\<lparr>ob_events := jf_events f @ [new_event_record env e digest]\<rparr>)"
  using outbox_step.append[of "new_event_record env e digest" "outbox_of f"]
  by (simp add: new_event_record_def next_event_sequence_outbox)

lemma append_event_outbox:
  assumes "append_event_op env eid sid ev now f = Some (Inr (a, f'))"
  shows "outbox_step\<^sup>*\<^sup>* (outbox_of f) (outbox_of f')"
proof -
  have "f' = f \<or> (\<exists>digest. f' = f\<lparr>jf_events := jf_events f @ [new_event_record env (journal_event f eid sid (now 0) ev) digest]\<rparr>)"
    using assms by (auto simp: append_event_op_def Let_def and_then_Inr_iff split: option.splits if_splits)
  then show ?thesis
    using append_record_outbox[of "journal_event f eid sid (now 0) ev" f env]
    by (auto simp: journal_event_def)
qed

lemma append_envelope_outbox:
  assumes "append_envelope_op env e digest dup now f = Some (Inr (a, f'))"
  shows "outbox_step\<^sup>*\<^sup>* (outbox_of f) (outbox_of f')"
proof -
  have "f' = f \<or> (ee_daemon_event_seq e = next_event_sequence f (ee_session_id e)
      \<and> f' = f\<lparr>jf_events := jf_events f @ [new_event_record env e digest]\<rparr>)"
    using assms by (auto simp: append_envelope_op_def Let_def and_then_Inr_iff split: option.splits if_splits)
  then show ?thesis
    using r_into_rtranclp[of outbox_step, OF append_record_outbox[of e f env digest]] by auto
qed

lemma ack_outbox:
  assumes run: "ack_op ack now f = Some (Inr (u, f'))"
  shows "outbox_step\<^sup>*\<^sup>* (outbox_of f) (outbox_of f')"
proof -
  let ?p = "\<lambda>r. ee_event_id (er_envelope r) = ea_event_id ack"
  let ?q = "\<lambda>t. et_event_id t = ea_event_id ack"
  show ?thesis
  proof (cases "find ?p (jf_events f)")
    case None
    then have "f' = f \<or> f' = f\<lparr>jf_event_tombstones := update_first ?q
        (\<lambda>t. t\<lparr>et_acknowledgement := Some (ea_status ack)\<rparr>) (jf_event_tombstones f)\<rparr>"
      using run by (auto simp: ack_op_def Let_def split: option.splits if_splits)
    then show ?thesis using outbox_step.tombstone_status[of "outbox_of f"] by auto
  next
    case (Some r)
    show ?thesis
    proof (cases "er_acknowledged r")
      case True
      then have "f' = f \<or> f' = f\<lparr>jf_events := update_first ?p
          (\<lambda>r. r\<lparr>er_acknowledgement := Some (ea_status ack)\<rparr>) (jf_events f)\<rparr>"
        using run Some by (auto simp: ack_op_def Let_def split: option.splits if_splits)
      then show ?thesis using outbox_step.status[of "outbox_of f"] by auto
    next
      case False
      define es where "es = update_first ?p (set_acknowledged (ea_status ack)) (jf_events f)"
      have same: "er_session r = ea_session_id ack" "er_seq r = ea_daemon_event_seq ack"
        and adv: "advance_event_ack (note_ack ack (f\<lparr>jf_events := es\<rparr>)) (ea_session_id ack) = Some f'"
        using run Some False by (auto simp: ack_op_def Let_def es_def split: option.splits if_splits)
      let ?s = "er_session r"
      define sparse where "sparse = (if ob_through (outbox_of f) ?s < er_seq r
          then merge_sparse (ob_sparse (outbox_of f) ?s) [er_seq r] else ob_sparse (outbox_of f) ?s)"
      have loop_in: "acknowledged_at (note_ack ack (f\<lparr>jf_events := es\<rparr>)) = acknowledged_in es"
        by (simp add: acknowledged_at_def[abs_def] acknowledged_in_def[abs_def] note_ack_def Let_def)
      obtain n sparse' where
        loop: "event_ack_loop (acknowledged_in es ?s) (ob_through (outbox_of f) ?s) sparse = Some (n, sparse')"
        and f': "outbox_of f' = (outbox_of f)\<lparr>ob_events := es, ob_through := (ob_through (outbox_of f))(?s := n),
          ob_sparse := (ob_sparse (outbox_of f))(?s := sparse')\<rparr>"
        using adv same loop_in
        by (auto simp: advance_event_ack_def Let_def sparse_def note_ack_def outbox_of_put_session
            split: option.splits if_splits)
      show ?thesis
        unfolding f' using outbox_step.acknowledge[of ?p "outbox_of f" r es "ea_status ack" ?s sparse n sparse']
          Some loop by (simp add: es_def sparse_def r_into_rtranclp)
    qed
  qed
qed

lemma reconcile_one_outbox: "outbox_step (outbox_of f) (outbox_of (reconcile_one remote f))"
proof -
  let ?s = "sr_session_id remote"
  let ?n = "max (ob_through (outbox_of f) ?s) (sr_event_ack_through_seq remote)"
  let ?sp = "filter (\<lambda>k. ?n < k) (merge_sparse (ob_sparse (outbox_of f) ?s) (sr_event_ack_sparse remote))"
  define local where "local = reconcile_local remote (session_of f ?s)"
  have local: "sj_event_ack_through_seq local = ?n" "sj_event_ack_sparse local = ?sp"
    by (simp_all add: local_def reconcile_local_def Let_def del: max_less_iff_conj)
  have ev: "reconcile_event ?s local = (\<lambda>r. if er_session r = ?s \<and> (er_seq r \<le> ?n \<or> er_seq r \<in> set ?sp)
      then r\<lparr>er_acknowledged := True\<rparr> else r)"
    unfolding reconcile_event_def[abs_def] local ..
  have "outbox_of (reconcile_one remote f) = (outbox_of f)\<lparr>ob_events := map (reconcile_event ?s local) (jf_events f),
      ob_through := (ob_through (outbox_of f))(?s := ?n), ob_sparse := (ob_sparse (outbox_of f))(?s := ?sp)\<rparr>"
    unfolding reconcile_one_def Let_def local_def[symmetric]
    by (simp only: outbox_fields outbox_of_put_session local) simp
  then show ?thesis
    using outbox_step.reconcile[OF refl refl, of "outbox_of f" ?s "sr_event_ack_through_seq remote" "sr_event_ack_sparse remote"]
    unfolding ev by (simp only: outbox_fields)
qed

lemma reconcile_outbox:
  "reconcile_op sessions now f = Some (Inr (u, f')) \<Longrightarrow> outbox_step\<^sup>*\<^sup>* (outbox_of f) (outbox_of f')"
proof -
  have "outbox_step\<^sup>*\<^sup>* (outbox_of f) (outbox_of (fold reconcile_one sessions f))"
    by (induction sessions arbitrary: f)
      (auto intro: converse_rtranclp_into_rtranclp[of outbox_step] reconcile_one_outbox)
  then show "reconcile_op sessions now f = Some (Inr (u, f')) \<Longrightarrow> outbox_step\<^sup>*\<^sup>* (outbox_of f) (outbox_of f')"
    by (auto simp: reconcile_op_def)
qed

lemma request_refines_outbox:
  assumes run: "request_op env req now f = Some (Inr (l, f'))"
  shows "outbox_step\<^sup>*\<^sup>* (outbox_of f) (outbox_of f')"
proof (cases req)
  case (Prepare e digest mid)
  then show ?thesis using run by (auto simp: op_map_Inr_iff dest!: prepare_effect)
next
  case (MarkStarted cid)
  then show ?thesis using run by (auto simp: op_map_Inr_iff elim!: mark_result)
qed (use run in \<open>auto simp: op_map_Inr_iff finish_outbox compact_outbox append_event_outbox
      append_envelope_outbox ack_outbox reconcile_outbox\<close>)

locale outbox_invariant =
  fixes good :: "outbox \<Rightarrow> bool"
  assumes step: "outbox_step b b' \<Longrightarrow> good b \<Longrightarrow> good b'"
begin

lemma steps: "outbox_step\<^sup>*\<^sup>* b b' \<Longrightarrow> good b \<Longrightarrow> good b'"
  by (induction rule: rtranclp_induct) (auto intro: step)

end

sublocale outbox_invariant \<subseteq> file_invariant env "\<lambda>f. good (outbox_of f)" for env :: "'b journal_env"
  by unfold_locales (blast intro: steps request_refines_outbox)

section \<open>Event sequence numbers\<close>

lemma next_sequence_fresh:
  assumes "next_sequence b s \<noteq> u64_max"
  shows "(s, n) \<in> set (event_places b) \<Longrightarrow> n < next_sequence b s"
    and "ob_through b s < next_sequence b s"
    and "n \<in> set (ob_sparse b s) \<Longrightarrow> n < next_sequence b s"
proof -
  let ?m = "max (max (ob_through b s) (max_or_0 (ob_sparse b s)))
                (max_or_0 (map snd (filter (\<lambda>p. fst p = s) (event_places b))))"
  have ne: "?m \<noteq> u64_max" using assms by (auto simp: next_sequence_def)
  have lt: "k < next_sequence b s" if "k \<le> ?m" for k
    unfolding next_sequence_def using that less_sat_inc_iff[OF ne] by blast
  show "n < next_sequence b s" if "(s, n) \<in> set (event_places b)"
  proof -
    have "n \<in> set (map snd (filter (\<lambda>p. fst p = s) (event_places b)))" using that by force
    from max_or_0_ge[OF this] show ?thesis by (intro lt) (simp add: le_max_iff_disj)
  qed
  show "ob_through b s < next_sequence b s" by (rule lt) (simp add: le_max_iff_disj)
  show "n < next_sequence b s" if "n \<in> set (ob_sparse b s)"
    using max_or_0_ge[OF that] by (intro lt) (simp add: le_max_iff_disj)
qed

text \<open>No two events of a session share a sequence number below \<open>u64::MAX\<close>.\<close>

definition unique_sequences :: "outbox \<Rightarrow> bool" where
  "unique_sequences b \<longleftrightarrow> distinct (filter (\<lambda>p. snd p \<noteq> u64_max) (event_places b))"

lemma set_acknowledged_fields [simp]:
  "er_envelope (set_acknowledged st r) = er_envelope r" "er_acknowledged (set_acknowledged st r)"
  by (simp_all add: set_acknowledged_def)

lemma event_to_tombstone_fields [simp]:
  "et_session_id (event_to_tombstone r i) = er_session r" "et_daemon_event_seq (event_to_tombstone r i) = er_seq r"
  "et_event_id (event_to_tombstone r i) = ee_event_id (er_envelope r)"
  by (simp_all add: event_to_tombstone_def)

lemma tombstones_places:
  "list_all2 (\<lambda>t r. \<exists>identity. t = event_to_tombstone r identity) ts rs
   \<Longrightarrow> map (\<lambda>t. (et_session_id t, et_daemon_event_seq t)) ts = map (\<lambda>r. (er_session r, er_seq r)) rs"
  by (induction rule: list_all2_induct) auto

lemma places_of_step:
  assumes "outbox_step b b'"
  shows "mset (event_places b') = mset (event_places b)
    \<or> (\<exists>s. mset (event_places b') = add_mset (s, next_sequence b s) (mset (event_places b)))"
  using assms
proof (induction rule: outbox_step.induct)
  case (append r b)
  then show ?case by (auto simp: event_places_def)
next
  case (compact p ts b)
  then show ?case
    using tombstones_places[OF compact(2)] mset_partition[of "\<lambda>r. (er_session r, er_seq r)" p "ob_events b"]
    by (simp add: event_places_def ac_simps)
next
  case (reconcile n b s m sparse remote)
  have "map (\<lambda>r. (er_session r, er_seq r)) (map (\<lambda>r. if er_session r = s \<and> (er_seq r \<le> n \<or> er_seq r \<in> set sparse)
      then r\<lparr>er_acknowledged := True\<rparr> else r) (ob_events b)) = map (\<lambda>r. (er_session r, er_seq r)) (ob_events b)"
    by (simp add: comp_def if_distrib)
  then show ?case by (simp add: event_places_def del: map_map)
qed (auto simp: event_places_def map_update_first)

lemma unique_sequences_step:
  assumes step: "outbox_step b b'" and uniq: "unique_sequences b"
  shows "unique_sequences b'"
  using places_of_step[OF step]
proof
  assume "mset (event_places b') = mset (event_places b)"
  then have "mset (filter (\<lambda>p. snd p \<noteq> u64_max) (event_places b')) = mset (filter (\<lambda>p. snd p \<noteq> u64_max) (event_places b))"
    by (simp add: mset_filter)
  then show ?thesis using uniq by (metis unique_sequences_def mset_eq_imp_distinct_iff)
next
  assume "\<exists>s. mset (event_places b') = add_mset (s, next_sequence b s) (mset (event_places b))"
  then obtain s where s: "mset (event_places b') = mset ((s, next_sequence b s) # event_places b)" by auto
  then have "mset (filter (\<lambda>p. snd p \<noteq> u64_max) (event_places b'))
      = mset (filter (\<lambda>p. snd p \<noteq> u64_max) ((s, next_sequence b s) # event_places b))"
    by (simp only: mset_filter)
  moreover have "distinct (filter (\<lambda>p. snd p \<noteq> u64_max) ((s, next_sequence b s) # event_places b))"
    using uniq next_sequence_fresh(1)[of b s] by (auto simp: unique_sequences_def)
  ultimately show ?thesis by (metis unique_sequences_def mset_eq_imp_distinct_iff)
qed

interpretation fresh: outbox_invariant unique_sequences
  by unfold_locales (rule unique_sequences_step)

section \<open>Cursors\<close>

text \<open>The cursor of a session is canonical, and every event up to its watermark is acknowledged.\<close>

definition cursor_canonical :: "outbox \<Rightarrow> bool" where
  "cursor_canonical b \<longleftrightarrow> (\<forall>s. sorted_wrt (<) (ob_sparse b s) \<and> (\<forall>n \<in> set (ob_sparse b s). ob_through b s < n))"

lemma sorted_remdups_adj_distinct: "sorted xs \<Longrightarrow> distinct (remdups_adj (xs :: 'a :: linorder list))"
  by (induction xs rule: remdups_adj.induct) auto

lemma merge_sparse_sorted: "sorted_wrt (<) (merge_sparse xs ys)"
  by (simp add: merge_sparse_def strict_sorted_iff sorted_remdups_adj_distinct)

lemma merge_sparse_set [simp]: "set (merge_sparse xs ys) = set xs \<union> set ys"
  by (simp add: merge_sparse_def)

lemma cursor_canonical_step: "outbox_step b b' \<Longrightarrow> cursor_canonical b \<Longrightarrow> cursor_canonical b'"
proof (induction rule: outbox_step.induct)
  case (acknowledge p b r es st s sparse n sparse')
  have "sorted_wrt (<) sparse" "\<forall>k \<in> set sparse. ob_through b s < k"
    using acknowledge by (auto simp: cursor_canonical_def merge_sparse_sorted split: if_splits)
  then show ?case
    using event_ack_loop_Some[OF acknowledge(5)] acknowledge.prems by (auto simp: cursor_canonical_def)
next
  case (reconcile n b s m sparse remote)
  then show ?case by (auto simp: cursor_canonical_def merge_sparse_sorted sorted_wrt_filter)
qed (auto simp: cursor_canonical_def)

interpretation cursor: outbox_invariant cursor_canonical
  by unfold_locales (rule cursor_canonical_step)

definition watermark_covers :: "outbox \<Rightarrow> bool" where
  "watermark_covers b \<longleftrightarrow>
     (\<forall>r \<in> set (ob_events b). er_seq r \<le> ob_through b (er_session r) \<and> er_seq r \<noteq> u64_max \<longrightarrow> er_acknowledged r)"

lemma unique_sequences_inj:
  assumes "unique_sequences b" "x \<in> set (ob_events b)" "y \<in> set (ob_events b)"
    "er_session x = er_session y" "er_seq x = er_seq y" "er_seq x \<noteq> u64_max"
  shows "x = y"
proof -
  have "distinct (filter (\<lambda>p. snd p \<noteq> u64_max) (map (\<lambda>r. (er_session r, er_seq r)) (ob_events b)))"
    using assms(1) by (simp add: unique_sequences_def event_places_def)
  then have "inj_on (\<lambda>r. (er_session r, er_seq r)) (set (filter (\<lambda>r. er_seq r \<noteq> u64_max) (ob_events b)))"
    by (simp add: filter_map comp_def distinct_map)
  from inj_onD[OF this, of x y] assms(2-) show ?thesis by auto
qed

lemma watermark_covers_step:
  assumes step: "outbox_step b b'" and cov: "watermark_covers b" and uniq: "unique_sequences b'"
  shows "watermark_covers b'"
  using step cov uniq
proof (induction rule: outbox_step.induct)
  case (append r b)
  have "\<not> (er_seq r \<le> ob_through b (er_session r) \<and> er_seq r \<noteq> u64_max)"
    using append(2) next_sequence_fresh(2)[of b "er_session r"] leD by metis
  then show ?case using append.prems by (auto simp: watermark_covers_def)
next
  case (status b p st)
  then show ?case using set_update_first_subset[of p "\<lambda>r. r\<lparr>er_acknowledgement := Some st\<rparr>" "ob_events b"]
    by (fastforce simp: watermark_covers_def)
next
  case (acknowledge p b r es st s sparse n sparse')
  let ?b' = "b\<lparr>ob_events := es, ob_through := (ob_through b)(s := n), ob_sparse := (ob_sparse b)(s := sparse')\<rparr>"
  note loop = event_ack_loop_Some[OF acknowledge(5)]
  then have run: "\<forall>k. ob_through b s < k \<and> k \<le> n \<longrightarrow> acknowledged_in es s k"
    using processed_loop_Some by blast
  have "er_acknowledged x" if x: "x \<in> set es" "er_seq x \<le> ob_through ?b' (er_session x)" "er_seq x \<noteq> u64_max" for x
  proof (cases "er_session x = s \<and> ob_through b s < er_seq x")
    case True
    then have "acknowledged_in es s (er_seq x)" using run x by simp
    then obtain y where y: "y \<in> set es" "er_session y = s" "er_seq y = er_seq x" "er_acknowledged y"
      by (auto simp: acknowledged_in_def list_ex_iff)
    have "x = y"
      by (rule unique_sequences_inj[OF acknowledge.prems(2)]) (use x y True in simp_all)
    then show ?thesis using y(4) by simp
  next
    case False
    then have le: "er_seq x \<le> ob_through b (er_session x)" using x by (auto split: if_splits)
    have "x \<in> set (ob_events b) \<or> x = set_acknowledged st r"
      using x(1) update_first_find_mem[OF acknowledge(1)] acknowledge(2) by blast
    then show ?thesis using le x(3) acknowledge.prems(1) by (auto simp: watermark_covers_def)
  qed
  then show ?case by (simp add: watermark_covers_def)
next
  case (reconcile n b s m sparse remote)
  then show ?case by (auto simp: watermark_covers_def)
qed (auto simp: watermark_covers_def)

definition outbox_ok :: "outbox \<Rightarrow> bool" where
  "outbox_ok b \<longleftrightarrow> unique_sequences b \<and> cursor_canonical b \<and> watermark_covers b"

lemma outbox_ok_step: "outbox_step b b' \<Longrightarrow> outbox_ok b \<Longrightarrow> outbox_ok b'"
  unfolding outbox_ok_def using unique_sequences_step cursor_canonical_step watermark_covers_step by blast

interpretation outbox: outbox_invariant outbox_ok
  by unfold_locales (rule outbox_ok_step)

section \<open>Events are kept\<close>

definition tombstone_key :: "event_tombstone \<Rightarrow> string \<times> string \<times> u64" where
  "tombstone_key t = (et_event_id t, et_session_id t, et_daemon_event_seq t)"

definition event_key :: "event_envelope \<Rightarrow> string \<times> string \<times> u64" where
  "event_key e = (ee_event_id e, ee_session_id e, ee_daemon_event_seq e)"

text \<open>The event is in the journal, as a live record or as a tombstone with its identity.\<close>

definition event_kept :: "event_envelope \<Rightarrow> outbox \<Rightarrow> bool" where
  "event_kept e b \<longleftrightarrow> e \<in> er_envelope ` set (ob_events b) \<or> event_key e \<in> tombstone_key ` set (ob_tombstones b)"

lemma update_first_image:
  assumes "\<And>x. h (g x) = h x" shows "h ` set (update_first p g xs) = h ` set xs"
  using map_update_first[of h g p xs] assms by (metis set_map)

lemma tombstones_key:
  "list_all2 (\<lambda>t r. \<exists>identity. t = event_to_tombstone r identity) ts rs
   \<Longrightarrow> map tombstone_key ts = map (\<lambda>r. event_key (er_envelope r)) rs"
  by (induction rule: list_all2_induct) (auto simp: tombstone_key_def event_key_def)

lemma event_kept_step: "outbox_step b b' \<Longrightarrow> event_kept e b \<Longrightarrow> event_kept e b'"
proof (induction rule: outbox_step.induct)
  case (tombstone_status b q st)
  then show ?case by (simp add: event_kept_def update_first_image tombstone_key_def)
next
  case (compact p ts b)
  have "tombstone_key ` set ts = (\<lambda>r. event_key (er_envelope r)) ` set (filter p (ob_events b))"
    using tombstones_key[OF compact(2)] by (metis set_map)
  then show ?case using compact.prems by (auto simp: event_kept_def image_Un)
next
  case (reconcile n b s m sparse remote)
  have "er_envelope ` set (map (\<lambda>r. if er_session r = s \<and> (er_seq r \<le> n \<or> er_seq r \<in> set sparse)
      then r\<lparr>er_acknowledged := True\<rparr> else r) (ob_events b)) = er_envelope ` set (ob_events b)"
    unfolding set_map image_image by (rule image_cong) simp_all
  then show ?case using reconcile.prems by (simp add: event_kept_def)
qed (auto simp: event_kept_def update_first_image)

interpretation kept: outbox_invariant "event_kept e" for e
  by unfold_locales (rule event_kept_step)

end
