(* ===== verification/Journal_Events.thy ===== *)
theory Journal_Events
  imports Journal_Outbox
begin

text \<open>
  What the daemon journal promises about events over every interleaving, failed write and restart:
  sequence numbers are allocated once, cursors stay canonical, a journaled event is never lost, an
  acknowledgement is absorbed once, and where the watermark loops stop.
\<close>

context outbox_invariant
begin

lemma reachable_good:
  assumes "serde_roundtrip env" "journal_reachable env st" "good (outbox_of default_file)"
  shows "good (outbox_of (js_file st))"
  using assms trace_held[OF assms(1)] opened_held[OF _ assms(1), where ok = "\<lambda>f. good (outbox_of f)"]
  unfolding journal_reachable_def by (fastforce simp: held_def)

end

lemma default_outbox_ok: "outbox_ok (outbox_of default_file)"
  by (simp add: outbox_ok_def unique_sequences_def event_places_def cursor_canonical_def watermark_covers_def)

lemma reachable_outbox_ok: "serde_roundtrip env \<Longrightarrow> journal_reachable env st \<Longrightarrow> outbox_ok (outbox_of (js_file st))"
  by (rule outbox.reachable_good[OF _ _ default_outbox_ok])

section \<open>The event ledger\<close>

text \<open>The event ledger of every reachable journal is consistent: below \<open>u64::MAX\<close> no two events of
  a session share a sequence number, live records and tombstones together; the sparse
  acknowledgements are strictly ascending and beyond the watermark; and every live event at or
  below the watermark is acknowledged.\<close>

theorem event_ledger_consistent:
  assumes "serde_roundtrip env" "journal_reachable env st"
  shows "distinct (filter (\<lambda>p. snd p \<noteq> u64_max) (event_places (outbox_of (js_file st))))
    \<and> sorted_wrt (<) (sj_event_ack_sparse (session_of (js_file st) s))
    \<and> (\<forall>n \<in> set (sj_event_ack_sparse (session_of (js_file st) s)). sj_event_ack_through_seq (session_of (js_file st) s) < n)
    \<and> (\<forall>r \<in> set (jf_events (js_file st)).
         er_session r = s \<and> er_seq r \<le> sj_event_ack_through_seq (session_of (js_file st) s) \<and> er_seq r \<noteq> u64_max
         \<longrightarrow> er_acknowledged r)"
  using reachable_outbox_ok[OF assms]
  by (auto simp: outbox_ok_def unique_sequences_def cursor_canonical_def watermark_covers_def)

theorem event_ledger_consistent_witness:
  "\<exists>st. journal_reachable sample_env (st :: (journal_file, unit) journal_state)
     \<and> sorted_wrt (<) (sj_event_ack_sparse (session_of (js_file st) ''s''))"
  using event_ledger_consistent[OF sample_roundtrip sample_reachable, of "''s''"] sample_reachable by blast

section \<open>Appending\<close>

lemma append_event_kept:
  assumes "append_event_op env eid sid ev now f = Some (Inr (a, f'))"
  shows "event_kept (ap_envelope a) (outbox_of f')
    \<and> ee_event_id (ap_envelope a) = eid \<and> ee_session_id (ap_envelope a) = sid \<and> ee_event (ap_envelope a) = ev"
proof -
  let ?p = "\<lambda>r. er_daemon_id r = env_daemon_id env \<and> ee_event_id (er_envelope r) = eid"
  let ?q = "\<lambda>t. et_daemon_id t = env_daemon_id env \<and> et_event_id t = eid"
  show ?thesis
  proof (cases "find ?p (jf_events f)")
    case (Some r)
    then show ?thesis
      using assms find_Some_mem[OF Some]
      by (auto simp: append_event_op_def event_kept_def split: if_splits)
  next
    case None
    show ?thesis
    proof (cases "find ?q (jf_event_tombstones f)")
      case (Some t)
      then have t: "t \<in> set (jf_event_tombstones f)" "et_event_id t = eid" by (auto dest: find_Some_mem)
      have a: "f' = f" "et_session_id t = sid" "ap_envelope a = \<lparr>ee_event_id = eid, ee_session_id = sid,
            ee_daemon_event_seq = et_daemon_event_seq t, ee_sent_at = now 0,
            ee_schema_version = SCHEMA_VERSION, ee_event = ev\<rparr>"
        using assms None Some
        by (auto simp: append_event_op_def Let_def and_then_Inr_iff split: if_splits)
      then have "event_key (ap_envelope a) = tombstone_key t" using t by (simp add: event_key_def tombstone_key_def)
      then show ?thesis using a t by (simp add: event_kept_def)
    next
      case none: None
      then show ?thesis
        using assms None
        by (auto simp: append_event_op_def Let_def and_then_Inr_iff event_kept_def new_event_record_def journal_event_def)
    qed
  qed
qed

text \<open>C35. A journaled event is never lost. Once \<open>append_event\<close> has returned an envelope, the journal
  holds the event, as a live record or as the tombstone of its identity, after any further
  interleaving of calls, failed writes and restarts.\<close>

theorem appended_event_never_lost:
  assumes "serde_roundtrip env" "append_event env eid sid ev st = Some (Inr a, st1)"
    and "journal_trace env st1 dispatched st2"
  shows "event_kept (ap_envelope a) (outbox_of (js_file st2))
    \<and> ee_event_id (ap_envelope a) = eid \<and> ee_session_id (ap_envelope a) = sid \<and> ee_event (ap_envelope a) = ev"
proof -
  note upd = jupdate_Inr[OF assms(1,2)[unfolded append_event_def]]
  then have "event_kept (ap_envelope a) (outbox_of (js_file st1))" and
    ids: "ee_event_id (ap_envelope a) = eid \<and> ee_session_id (ap_envelope a) = sid \<and> ee_event (ap_envelope a) = ev"
    using append_event_kept by blast+
  then have "held (\<lambda>f. event_kept (ap_envelope a) (outbox_of f)) env st1"
    using upd by (auto simp: held_def)
  then show ?thesis using kept.trace_held[OF assms(1,3)] ids by (simp add: held_def)
qed

definition sample_event :: "string \<Rightarrow> u64 \<Rightarrow> event_envelope" where
  "sample_event eid n = \<lparr>ee_event_id = eid, ee_session_id = ''s'', ee_daemon_event_seq = n, ee_sent_at = ''t'',
     ee_schema_version = SCHEMA_VERSION, ee_event = AgentActivity ''x''\<rparr>"

definition sample_events :: "event_record list \<Rightarrow> (journal_file, unit) journal_state" where
  "sample_events es = \<lparr>js_file = default_file\<lparr>jf_events := es\<rparr>, js_disk = Some (default_file\<lparr>jf_events := es\<rparr>),
     js_clock = length es, js_writes = Suc (length es), js_exec = ()\<rparr>"

definition sample_event_record :: "string \<Rightarrow> u64 \<Rightarrow> event_record" where
  "sample_event_record eid n = \<lparr>er_daemon_id = ''d'', er_envelope = sample_event eid n, er_payload_digest = eid,
     er_acknowledged = False, er_acknowledgement = None\<rparr>"

lemma sample_start_events: "sample_start = sample_events []"
  by (simp add: sample_start_def sample_events_def)

lemma sample_appended:
  "append_event sample_env ''e'' ''s'' (AgentActivity ''x'') (sample_events [])
   = Some (Inr \<lparr>ap_envelope = sample_event ''e'' 1, ap_duplicate = False\<rparr>, sample_events [sample_event_record ''e'' 1])"
  by code_simp

theorem appended_event_never_lost_witness:
  "\<exists>st2. journal_trace sample_env (sample_events [sample_event_record ''e'' 1]) [] st2
     \<and> event_kept (sample_event ''e'' 1) (outbox_of (js_file st2))"
  using appended_event_never_lost[OF sample_roundtrip sample_appended journal_trace.stop]
    journal_trace.stop[of sample_env "sample_events [sample_event_record ''e'' 1]"] by auto

text \<open>A new event gets a fresh sequence number. When \<open>append_event\<close> journals a new event, its
  sequence number is greater than that of every event and acknowledgement the journal knows for the
  session, unless the session has reached \<open>u64::MAX\<close>.\<close>

theorem appended_event_sequence:
  assumes "append_event_op env eid sid ev now f = Some (Inr (a, f'))" "\<not> ap_duplicate a"
  shows "f' = f\<lparr>jf_events := jf_events f' \<rparr>
    \<and> (\<exists>r. jf_events f' = jf_events f @ [r] \<and> er_envelope r = ap_envelope a \<and> \<not> er_acknowledged r)
    \<and> (let n = ee_daemon_event_seq (ap_envelope a) in
       n = u64_max \<or>
       (sj_event_ack_through_seq (session_of f sid) < n
        \<and> (\<forall>k \<in> set (sj_event_ack_sparse (session_of f sid)). k < n)
        \<and> (\<forall>k. (sid, k) \<in> set (event_places (outbox_of f)) \<longrightarrow> k < n)))"
proof -
  have "find (\<lambda>r. er_daemon_id r = env_daemon_id env \<and> ee_event_id (er_envelope r) = eid) (jf_events f) = None"
    using assms by (auto simp: append_event_op_def split: option.splits if_splits)
  moreover from this
  have "find (\<lambda>t. et_daemon_id t = env_daemon_id env \<and> et_event_id t = eid) (jf_event_tombstones f) = None"
    using assms by (auto simp: append_event_op_def Let_def and_then_Inr_iff split: option.splits if_splits)
  ultimately obtain digest where a: "ap_envelope a = journal_event f eid sid (now 0) ev"
    "f' = f\<lparr>jf_events := jf_events f @ [new_event_record env (ap_envelope a) digest]\<rparr>"
    using assms by (auto simp: append_event_op_def Let_def and_then_Inr_iff)
  have "ee_daemon_event_seq (ap_envelope a) = next_sequence (outbox_of f) sid"
    by (simp add: a journal_event_def next_event_sequence_outbox)
  then show ?thesis
    using next_sequence_fresh[of "outbox_of f" sid] a(2) by (simp add: Let_def new_event_record_def) blast
qed

theorem appended_event_sequence_witness:
  "\<exists>a f'. append_event_op sample_env ''e'' ''s'' (AgentActivity ''x'') (\<lambda>_. ''t'') default_file = Some (Inr (a, f'))
     \<and> sj_event_ack_through_seq (session_of default_file ''s'') < ee_daemon_event_seq (ap_envelope a)"
proof -
  have run: "append_event_op sample_env ''e'' ''s'' (AgentActivity ''x'') (\<lambda>_. ''t'') default_file
    = Some (Inr (\<lparr>ap_envelope = sample_event ''e'' 1, ap_duplicate = False\<rparr>,
        default_file\<lparr>jf_events := [sample_event_record ''e'' 1]\<rparr>))"
    by code_simp
  have "(1 :: u64) \<noteq> u64_max" by (simp add: u64_max_def)
  then show ?thesis using run appended_event_sequence[OF run] by (simp add: sample_event_def Let_def)
qed

section \<open>Acknowledgements\<close>

lemma ack_recorded:
  assumes run: "ack_op ack now f = Some (Inr (u, f'))"
  shows "(\<exists>r. find (\<lambda>r. ee_event_id (er_envelope r) = ea_event_id ack) (jf_events f') = Some r
        \<and> er_session r = ea_session_id ack \<and> er_seq r = ea_daemon_event_seq ack
        \<and> er_acknowledged r \<and> er_acknowledgement r = Some (ea_status ack))
    \<or> (find (\<lambda>r. ee_event_id (er_envelope r) = ea_event_id ack) (jf_events f') = None
        \<and> (\<exists>t. find (\<lambda>t. et_event_id t = ea_event_id ack) (jf_event_tombstones f') = Some t
        \<and> et_session_id t = ea_session_id ack \<and> et_daemon_event_seq t = ea_daemon_event_seq ack
        \<and> et_acknowledgement t = Some (ea_status ack)))"
proof -
  let ?p = "\<lambda>r. ee_event_id (er_envelope r) = ea_event_id ack"
  let ?q = "\<lambda>t. et_event_id t = ea_event_id ack"
  show ?thesis
  proof (cases "find ?p (jf_events f)")
    case None
    then obtain t where t: "find ?q (jf_event_tombstones f) = Some t"
      using run by (auto simp: ack_op_def Let_def split: option.splits)
    note t' = find_Some_mem[OF t]
    show ?thesis
    proof (cases "et_acknowledgement t")
      case none: None
      have "find ?q (update_first ?q (\<lambda>t. t\<lparr>et_acknowledgement := Some (ea_status ack)\<rparr>) (jf_event_tombstones f))
          = Some (t\<lparr>et_acknowledgement := Some (ea_status ack)\<rparr>)"
        by (rule find_update_first_eq[OF t]) (use t' in simp)
      then show ?thesis
        using run None t none by (auto simp: ack_op_def Let_def split: if_splits)
    next
      case (Some st)
      then show ?thesis using run None t by (auto simp: ack_op_def Let_def split: if_splits)
    qed
  next
    case (Some r)
    note r' = find_Some_mem[OF Some]
    have upd: "find ?p (update_first ?p g (jf_events f)) = Some (g r)" if "er_envelope (g r) = er_envelope r" for g
      by (rule find_update_first_eq[OF Some]) (use r' that in simp)
    have same: "er_session r = ea_session_id ack" "er_seq r = ea_daemon_event_seq ack"
      using run Some by (auto simp: ack_op_def Let_def split: if_splits)
    show ?thesis
    proof (cases "er_acknowledged r")
      case True
      then show ?thesis
        using run Some same upd[of "\<lambda>r. r\<lparr>er_acknowledgement := Some (ea_status ack)\<rparr>"]
        by (cases "er_acknowledgement r") (auto simp: ack_op_def Let_def split: if_splits)
    next
      case False
      have "jf_events f' = update_first ?p (set_acknowledged (ea_status ack)) (jf_events f)"
        using run Some False same
        by (auto simp: ack_op_def Let_def advance_event_ack_def note_ack_def split: option.splits if_splits)
      then show ?thesis using upd[of "set_acknowledged (ea_status ack)"] same by (simp add: set_acknowledged_def)
    qed
  qed
qed

text \<open>An event acknowledgement is absorbed once. After an acknowledgement was applied, applying it
  again succeeds and changes nothing, and an acknowledgement of the same event with the other status,
  another session or another sequence number is refused as an identity conflict.\<close>

theorem acknowledgement_absorbed_once:
  assumes "ack_op ack now f = Some (Inr (u, f'))"
  shows "ack_op ack now' f' = Some (Inr ((), f'))
    \<and> (ea_event_id ack' = ea_event_id ack
       \<and> (ea_session_id ack' \<noteq> ea_session_id ack \<or> ea_daemon_event_seq ack' \<noteq> ea_daemon_event_seq ack
          \<or> ea_status ack' \<noteq> ea_status ack)
       \<longrightarrow> (\<exists>reason. ack_op ack' now' f' = Some (Inl (IdentityConflict reason))))"
  using ack_recorded[OF assms]
  by (elim disjE exE conjE) (auto simp: ack_op_def Let_def)

definition sample_ack :: "string \<Rightarrow> u64 \<Rightarrow> event_ack" where
  "sample_ack eid n = \<lparr>ea_event_id = eid, ea_session_id = ''s'', ea_daemon_event_seq = n,
     ea_schema_version = SCHEMA_VERSION, ea_status = AckAccepted, ea_reason = None\<rparr>"

lemma sample_acked:
  "ack_op (sample_ack ''e'' 1) (\<lambda>_. ''t'') (default_file\<lparr>jf_events := [sample_event_record ''e'' 1]\<rparr>)
   = Some (Inr ((), default_file\<lparr>jf_events := [(sample_event_record ''e'' 1)\<lparr>er_acknowledged := True,
         er_acknowledgement := Some AckAccepted\<rparr>],
       jf_sessions := [(''s'', default_session\<lparr>sj_event_ack_through_seq := 1\<rparr>)]\<rparr>))"
  by code_simp

theorem acknowledgement_absorbed_once_witness:
  "\<exists>f'. ack_op (sample_ack ''e'' 1) (\<lambda>_. ''t'') (default_file\<lparr>jf_events := [sample_event_record ''e'' 1]\<rparr>) = Some (Inr ((), f'))
     \<and> ack_op (sample_ack ''e'' 1) (\<lambda>_. ''u'') f' = Some (Inr ((), f'))
     \<and> (\<exists>reason. ack_op (sample_ack ''e'' 2) (\<lambda>_. ''u'') f' = Some (Inl (IdentityConflict reason)))"
proof -
  have "ea_event_id (sample_ack ''e'' 2) = ea_event_id (sample_ack ''e'' 1)"
    "ea_daemon_event_seq (sample_ack ''e'' 2) \<noteq> ea_daemon_event_seq (sample_ack ''e'' 1)"
    by (simp_all add: sample_ack_def)
  with acknowledgement_absorbed_once[OF sample_acked, of "\<lambda>_. ''u''" "sample_ack ''e'' 2"] sample_acked
  show ?thesis by blast
qed

section \<open>Where the watermark loop stops\<close>

text \<open>Acknowledging returns while the session is below \<open>u64::MAX\<close>: if no live event of the
  acknowledged session carries the sequence number \<open>u64::MAX\<close>, the call on a validated
  acknowledgement finishes, whatever the journal contains.\<close>

theorem acknowledge_event_returns:
  assumes "\<forall>r \<in> set (jf_events (js_file st)). er_session r = ea_session_id ack \<longrightarrow> er_seq r \<noteq> u64_max"
  shows "\<exists>r st'. acknowledge_event env ack st = Some (r, st')"
proof -
  have "advance_event_ack (note_ack ack (js_file st\<lparr>jf_events := update_first p (set_acknowledged st') (jf_events (js_file st))\<rparr>))
      (ea_session_id ack) \<noteq> None" (is "advance_event_ack ?f _ \<noteq> None") for p st'
  proof -
    have "\<not> acknowledged_at ?f (ea_session_id ack) (sat_inc u64_max)"
      using assms set_update_first_subset[of p "set_acknowledged st'" "jf_events (js_file st)"]
      by (fastforce simp: acknowledged_at_def list_ex_iff note_ack_def Let_def)
    then have "event_ack_loop (acknowledged_at ?f (ea_session_id ack)) n sp \<noteq> None" for n sp
      unfolding event_ack_loop_None_iff using u64_le_max by blast
    then show ?thesis by (auto simp: advance_event_ack_def Let_def split: option.splits)
  qed
  then obtain f2 where "advance_event_ack (note_ack ack (js_file st\<lparr>jf_events :=
      update_first (\<lambda>r. ee_event_id (er_envelope r) = ea_event_id ack) (set_acknowledged (ea_status ack))
        (jf_events (js_file st))\<rparr>)) (ea_session_id ack) = Some f2" by blast
  then have "ack_op ack now (js_file st) \<noteq> None" for now
    by (simp add: ack_op_def Let_def split: option.split)
  then have "jupdate env (ack_op ack) st \<noteq> None"
    by (auto simp: jupdate_def split: option.splits sum.splits prod.splits)
  then show ?thesis
    by (auto simp: acknowledge_event_def jbind_def jm_simps split: sum.splits)
qed

theorem acknowledge_event_returns_witness:
  "\<exists>r st'. acknowledge_event sample_env (sample_ack ''e'' 1) (sample_events [sample_event_record ''e'' 1]) = Some (r, st')"
proof (rule acknowledge_event_returns)
  have "(1 :: u64) \<noteq> u64_max" by (simp add: u64_max_def)
  then show "\<forall>r \<in> set (jf_events (js_file (sample_events [sample_event_record ''e'' 1]))).
      er_session r = ea_session_id (sample_ack ''e'' 1) \<longrightarrow> er_seq r \<noteq> u64_max"
    by (simp add: sample_events_def sample_event_record_def sample_event_def)
qed

section \<open>Two limits of the event cursor\<close>

text \<open>A journal that a server's snapshot has moved to \<open>u64::MAX\<close> and that has journaled one more event.\<close>

definition worn_file :: journal_file where
  "worn_file = default_file\<lparr>jf_sessions := [(''s'', default_session\<lparr>sj_event_ack_through_seq := u64_max\<rparr>)]\<rparr>"

definition worn_state :: "event_record list \<Rightarrow> (journal_file, unit) journal_state" where
  "worn_state es = \<lparr>js_file = worn_file\<lparr>jf_events := es\<rparr>, js_disk = Some (worn_file\<lparr>jf_events := es\<rparr>),
     js_clock = Suc (length es), js_writes = Suc (Suc (length es)), js_exec = ()\<rparr>"

lemma worn_reconciled:
  "apply_reconciliation sample_env \<lparr>rs_schema_version = SCHEMA_VERSION,
     rs_sessions = [\<lparr>sr_session_id = ''s'', sr_command_ack_through_seq = 0, sr_event_ack_through_seq = u64_max,
                     sr_event_ack_sparse = []\<rparr>]\<rparr> sample_start = Some (Inr (), worn_state [])"
  by code_simp

lemma worn_appended:
  "append_event sample_env ''e'' ''s'' (AgentActivity ''x'') (worn_state [])
   = Some (Inr \<lparr>ap_envelope = sample_event ''e'' u64_max, ap_duplicate = False\<rparr>,
       worn_state [sample_event_record ''e'' u64_max])"
  by code_simp

lemma worn_reachable: "journal_reachable sample_env (worn_state [sample_event_record ''e'' u64_max])"
  by (rule reachable_method[OF reachable_method[OF sample_reachable traced_reconciliation worn_reconciled]
        traced_append_event worn_appended])

text \<open>C38. The watermark loop can run forever. A server snapshot may put the watermark of a session at
  \<open>u64::MAX\<close>; the next event is then journaled under \<open>u64::MAX\<close>, and acknowledging it never returns,
  because the saturating successor of the watermark is the watermark itself.\<close>

theorem acknowledge_event_can_hang:
  "\<exists>st ack. journal_reachable sample_env (st :: (journal_file, unit) journal_state)
     \<and> event_ack_validate ack = Inr () \<and> acknowledge_event sample_env ack st = None"
proof -
  let ?ack = "sample_ack ''e'' u64_max"
  let ?f = "worn_file\<lparr>jf_events := [sample_event_record ''e'' u64_max]\<rparr>"
  have valid: "event_ack_validate ?ack = Inr ()" by code_simp
  have "advance_event_ack (note_ack ?ack (?f\<lparr>jf_events := [set_acknowledged AckAccepted (sample_event_record ''e'' u64_max)]\<rparr>)) ''s''
      = None" (is "advance_event_ack ?g _ = None")
  proof -
    have "acknowledged_at ?g ''s'' u64_max"
      by (simp add: acknowledged_at_def note_ack_def Let_def set_acknowledged_def sample_event_record_def sample_event_def)
    moreover have "sj_event_ack_through_seq (session_of ?g ''s'') = u64_max"
      by code_simp
    ultimately have "event_ack_loop (acknowledged_at ?g ''s'') (sj_event_ack_through_seq (session_of ?g ''s'')) sp = None" for sp
      unfolding event_ack_loop_None_iff by simp
    then show ?thesis by (simp add: advance_event_ack_def Let_def)
  qed
  then have "ack_op ?ack now ?f = None" for now
    by (simp add: ack_op_def Let_def sample_ack_def sample_event_record_def sample_event_def)
  then have "acknowledge_event sample_env ?ack (worn_state [sample_event_record ''e'' u64_max]) = None"
    using valid by (simp add: acknowledge_event_def jbind_def jm_simps jupdate_def worn_state_def)
  then show ?thesis using worn_reachable valid by blast
qed

text \<open>A journal with two events of which the second was acknowledged and compacted first.\<close>

definition stalled_file :: journal_file where
  "stalled_file = default_file\<lparr>
     jf_sessions := [(''s'', default_session\<lparr>sj_event_ack_through_seq := 1, sj_event_ack_sparse := [2]\<rparr>)],
     jf_events := [(sample_event_record ''e'' 1)\<lparr>er_acknowledged := True, er_acknowledgement := Some AckAccepted\<rparr>],
     jf_event_tombstones := [event_to_tombstone ((sample_event_record ''f'' 2)\<lparr>er_acknowledged := True,
       er_acknowledgement := Some AckAccepted\<rparr>) ''f'']\<rparr>"

definition stall_run :: "(journal_file, unit, unit) jm" where
  "stall_run =
     jbind (append_event sample_env ''e'' ''s'' (AgentActivity ''x'')) (\<lambda>_.
     jbind (append_event sample_env ''f'' ''s'' (AgentActivity ''x'')) (\<lambda>_.
     jbind (acknowledge_event sample_env (sample_ack ''f'' 2)) (\<lambda>_.
     jbind (compact_session sample_env ''s'') (\<lambda>_.
     acknowledge_event sample_env (sample_ack ''e'' 1)))))"

lemma stall_runs:
  "stall_run sample_start = Some (Inr (), \<lparr>js_file = stalled_file, js_disk = Some stalled_file,
     js_clock = 5, js_writes = 6, js_exec = ()\<rparr>)"
  by code_simp

text \<open>The watermark can stall. When a later event is acknowledged and compacted before an earlier
  one, acknowledging the earlier one moves the watermark only up to it: both events of the session
  are acknowledged, yet the watermark is 1 and the acknowledgement of event 2 stays in the sparse
  list, because the loop looks for live records only.\<close>

theorem event_watermark_can_stall:
  "\<exists>st. journal_reachable sample_env (st :: (journal_file, unit) journal_state)
     \<and> list_all er_acknowledged (jf_events (js_file st))
     \<and> map snd (event_places (outbox_of (js_file st))) = [1, 2]
     \<and> sj_event_ack_through_seq (session_of (js_file st) ''s'') = 1
     \<and> sj_event_ack_sparse (session_of (js_file st) ''s'') = [2]"
proof -
  have "traced sample_env stall_run (\<lambda>_ ls. ls = [])"
    unfolding stall_run_def by (intro traced_then traced_append_event traced_acknowledge traced_compact)
  note reach = reachable_method[OF sample_reachable this stall_runs]
  show ?thesis
    by (rule exI, rule conjI, rule reach)
      (simp add: stalled_file_def event_places_def session_of_def sample_event_record_def
        sample_event_def event_to_tombstone_def)
qed

end
