(* ===== verification/Coordination.thy ===== *)
theory Coordination
  imports Journal_Events "HOL-Library.Sublist"
begin

text \<open>
  \<open>north-daemon/src/coordination.rs\<close>: the coordinator between the transport and the journal. It turns
  server frames into journal calls, journal results into daemon frames, and hands released commands
  to the scheduler. A method is a function of the journal state like a journal method, with
  \<open>coordination_error\<close> for its errors.
\<close>

section \<open>Data\<close>

datatype coordination_error =
    CoordJournal journal_error
  | RetryableGap string nat
  | TerminalProtocol string string

record handshake_actions =
  ha_replay :: "daemon_frame list"

record runtime_actions =
  ra_frames :: "daemon_frame list"
  ra_commands :: "command_envelope list"

type_synonym ('b, 'e, 'a) cm =
  "('b, 'e) journal_state \<Rightarrow> ((coordination_error + 'a) \<times> ('b, 'e) journal_state) option"

text \<open>The \<open>?\<close> operator on a journal result: \<open>From<JournalError>\<close>.\<close>

definition from_journal :: "('b, 'e, 'a) jm \<Rightarrow> ('b, 'e, 'a) cm" where
  "from_journal m st = map_option (map_prod (map_err CoordJournal) id) (m st)"

definition no_actions :: runtime_actions where
  "no_actions = \<lparr>ra_frames = [], ra_commands = []\<rparr>"

definition protocol_error :: "string \<Rightarrow> string \<Rightarrow> daemon_frame" where
  "protocol_error code message =
     DF_ProtocolError \<lparr>pe_schema_version = SCHEMA_VERSION, pe_code = code, pe_message = message\<rparr>"

definition command_result_to_frames :: "command_process_result \<Rightarrow> daemon_frame list" where
  "command_result_to_frames r = DF_CommandAck (pr_acknowledgement r) # map DF_Event (pr_emitted_events r)"

definition command_results_to_frames :: "command_process_result list \<Rightarrow> daemon_frame list" where
  "command_results_to_frames rs = concat (map command_result_to_frames rs)"

section \<open>Operations\<close>

definition coord_recover_for_scheduler ::
  "'b journal_env \<Rightarrow> 'e runtime_executor \<Rightarrow> ('b, 'e, runtime_actions) cm" where
  "coord_recover_for_scheduler env ex =
     from_journal (jbind (recover_for_scheduler env ex) (\<lambda>recovery.
       jreturn \<lparr>ra_frames = command_results_to_frames (rv_results recovery), ra_commands = rv_commands recovery\<rparr>))"

definition coord_recover :: "'b journal_env \<Rightarrow> 'e runtime_executor \<Rightarrow> ('b, 'e, daemon_frame list) cm" where
  "coord_recover env ex =
     from_journal (jbind (recover env ex) (\<lambda>results. jreturn (command_results_to_frames results)))"

definition reconcile :: "'b journal_env \<Rightarrow> reconcile_snapshot \<Rightarrow> ('b, 'e, handshake_actions) cm" where
  "reconcile env snapshot =
     from_journal (jbind (apply_reconciliation env snapshot) (\<lambda>_.
       jbind (jfor (\<lambda>session. replay_events (sr_session_id session) session) (rs_sessions snapshot)) (\<lambda>replays.
       jreturn \<lparr>ha_replay = map DF_Event (concat replays)\<rparr>)))"

definition coord_accept_command :: "'b journal_env \<Rightarrow> command_envelope \<Rightarrow> ('b, 'e, runtime_actions) cm" where
  "coord_accept_command env command =
     from_journal (jbind (if is_cancel (ce_command command) then accept_control_command env command
                          else accept_command env command) (\<lambda>accepted.
       jreturn \<lparr>ra_frames = command_result_to_frames (ac_result accepted),
                ra_commands = (case ac_command accepted of None \<Rightarrow> [] | Some c \<Rightarrow> [c])\<rparr>))"

text \<open>How both frame handlers answer the result of a command: an identity conflict becomes a protocol
  error frame (\<open>answer\<close>), an overflowing gap buffer a retryable boundary.\<close>

definition command_answer ::
  "(string \<Rightarrow> 'a) \<Rightarrow> (coordination_error + 'a) \<times> 's \<Rightarrow> (coordination_error + 'a) \<times> 's" where
  "command_answer answer res =
     (case res of
        (Inl (CoordJournal (IdentityConflict reason)), st) \<Rightarrow> (Inr (answer reason), st)
      | (Inl (CoordJournal (GapOverflow s limit)), st) \<Rightarrow> (Inl (RetryableGap s limit), st)
      | _ \<Rightarrow> res)"

text \<open>The branch of an event acknowledgement: acknowledge, then compact the session.\<close>

definition coord_event_ack :: "'b journal_env \<Rightarrow> event_ack \<Rightarrow> 'a \<Rightarrow> (string \<Rightarrow> 'a) \<Rightarrow> ('b, 'e, 'a) cm" where
  "coord_event_ack env ack ok answer st =
     (case acknowledge_event env ack st of
        None \<Rightarrow> None
      | Some (Inr _, st') \<Rightarrow> from_journal (jbind (compact_session env (ea_session_id ack)) (\<lambda>_. jreturn ok)) st'
      | Some (Inl (IdentityConflict reason), st') \<Rightarrow> Some (Inr (answer reason), st')
      | Some (Inl err, st') \<Rightarrow> Some (Inl (CoordJournal err), st'))"

definition accept_server_frame :: "'b journal_env \<Rightarrow> server_frame \<Rightarrow> ('b, 'e, runtime_actions) cm" where
  "accept_server_frame env frame st =
     (case frame of
        SF_Command command \<Rightarrow>
          map_option (command_answer (\<lambda>reason. no_actions\<lparr>ra_frames := [protocol_error ''command_identity_conflict'' reason]\<rparr>))
            (coord_accept_command env command st)
      | SF_EventAck ack \<Rightarrow>
          coord_event_ack env ack no_actions
            (\<lambda>reason. no_actions\<lparr>ra_frames := [protocol_error ''event_ack_identity_conflict'' reason]\<rparr>) st
      | SF_ProtocolError error \<Rightarrow> Some (Inl (TerminalProtocol (pe_code error) (pe_message error)), st)
      | SF_Welcome _ \<Rightarrow> Some (Inr no_actions, st)
      | SF_Reconcile _ \<Rightarrow> Some (Inr no_actions, st))"

definition finish_runtime ::
  "'b journal_env \<Rightarrow> string \<Rightarrow> string \<Rightarrow> dispatch_outcome \<Rightarrow> event list \<Rightarrow> ('b, 'e, runtime_actions) cm" where
  "finish_runtime env session_id command_id outcome runtime_events =
     from_journal (jbind (complete_command env command_id outcome runtime_events) (\<lambda>emitted.
       jbind (accept_next_ready_command env session_id) (\<lambda>nxt.
       jreturn (case nxt of
                  None \<Rightarrow> \<lparr>ra_frames = map DF_Event emitted, ra_commands = []\<rparr>
                | Some accepted \<Rightarrow>
                    \<lparr>ra_frames = map DF_Event emitted @ command_result_to_frames (ac_result accepted),
                     ra_commands = (case ac_command accepted of None \<Rightarrow> [] | Some c \<Rightarrow> [c])\<rparr>))))"

definition coord_process_command ::
  "'b journal_env \<Rightarrow> 'e runtime_executor \<Rightarrow> command_envelope \<Rightarrow> ('b, 'e, daemon_frame list) cm" where
  "coord_process_command env ex command =
     from_journal (jbind (process_command env ex command) (\<lambda>result.
       jbind (process_ready env ex (ce_session_id command)) (\<lambda>ready.
       jreturn (command_result_to_frames result @ command_results_to_frames ready))))"

definition process_server_frame ::
  "'b journal_env \<Rightarrow> 'e runtime_executor \<Rightarrow> server_frame \<Rightarrow> ('b, 'e, daemon_frame list) cm" where
  "process_server_frame env ex frame st =
     (case frame of
        SF_Command command \<Rightarrow>
          map_option (command_answer (\<lambda>reason. [protocol_error ''command_identity_conflict'' reason]))
            (coord_process_command env ex command st)
      | SF_EventAck ack \<Rightarrow>
          coord_event_ack env ack [] (\<lambda>reason. [protocol_error ''event_ack_identity_conflict'' reason]) st
      | SF_ProtocolError error \<Rightarrow> Some (Inl (TerminalProtocol (pe_code error) (pe_message error)), st)
      | SF_Welcome _ \<Rightarrow> Some (Inr [], st)
      | SF_Reconcile _ \<Rightarrow> Some (Inr [], st))"

definition coord_append_event ::
  "'b journal_env \<Rightarrow> string \<Rightarrow> string \<Rightarrow> event \<Rightarrow> ('b, 'e, daemon_frame) cm" where
  "coord_append_event env eid sid ev =
     from_journal (jbind (append_event env eid sid ev) (\<lambda>appended. jreturn (DF_Event (ap_envelope appended))))"

section \<open>Coordinator calls are journal traces\<close>

lemma from_journal_Some:
  "from_journal m st = Some (r, st') \<longleftrightarrow> (\<exists>q. m st = Some (q, st') \<and> r = map_err CoordJournal q)"
  by (auto simp: from_journal_def)

lemma from_journal_Inr:
  "from_journal m st = Some (Inr a, st') \<longleftrightarrow> m st = Some (Inr a, st')"
  by (auto simp: from_journal_Some eq_commute[of "Inr a"])

definition command_ids :: "runtime_actions \<Rightarrow> string list" where
  "command_ids a = map ce_command_id (ra_commands a)"

text \<open>A call is a trace; when it succeeds, the commands it hands over are those the trace released.\<close>

definition handed :: "'b journal_env \<Rightarrow> ('b, 'e, 'a) cm \<Rightarrow> ('a \<Rightarrow> string list) \<Rightarrow> bool" where
  "handed env m ids \<longleftrightarrow>
     (\<forall>st r st'. m st = Some (r, st') \<longrightarrow>
        (\<exists>ls. journal_trace env st ls st' \<and> (\<forall>a. r = Inr a \<longrightarrow> ids a = [] \<or> ids a = ls)))"

lemma handed_from_journal:
  assumes "traced env m (\<lambda>a ls. ids a = [] \<or> ids a = ls)"
  shows "handed env (from_journal m) ids"
  unfolding handed_def from_journal_Some
proof (intro allI impI)
  fix st r st' assume "\<exists>q. m st = Some (q, st') \<and> r = map_err CoordJournal q"
  then obtain q where q: "m st = Some (q, st')" "r = map_err CoordJournal q" by blast
  from tracedD[OF assms q(1)]
  show "\<exists>ls. journal_trace env st ls st' \<and> (\<forall>a. r = Inr a \<longrightarrow> ids a = [] \<or> ids a = ls)"
    using q(2) by auto
qed

lemma handed_recover_for_scheduler: "handed env (coord_recover_for_scheduler env ex) command_ids"
  unfolding coord_recover_for_scheduler_def
  by (intro handed_from_journal traced_bind[OF traced_recover_for_scheduler] traced_return) (simp add: command_ids_def)

lemma traced_coord_accept:
  "traced env (jbind (if is_cancel (ce_command command) then accept_control_command env command
                      else accept_command env command) (\<lambda>accepted.
       jreturn \<lparr>ra_frames = command_result_to_frames (ac_result accepted),
                ra_commands = (case ac_command accepted of None \<Rightarrow> [] | Some c \<Rightarrow> [c])\<rparr>))
     (\<lambda>a ls. command_ids a = ls)"
proof -
  have "traced env (if is_cancel (ce_command command) then accept_control_command env command
                    else accept_command env command) (\<lambda>a ls. ls = released a)"
    by (simp add: accept_control_command_def accept_command_def traced_accept)
  then show ?thesis
    by (rule traced_bind) (auto intro!: traced_return simp: command_ids_def released_def split: option.split)
qed

lemma handed_accept_command: "handed env (coord_accept_command env command) command_ids"
  unfolding coord_accept_command_def
  by (rule handed_from_journal, rule traced_mono[OF traced_coord_accept]) simp

lemma handed_finish_runtime: "handed env (finish_runtime env s c out evs) command_ids"
  unfolding finish_runtime_def
  by (rule handed_from_journal)
    (auto intro!: traced_then[OF traced_complete] traced_bind[OF traced_accept_next] traced_return
      simp: command_ids_def released_def split: option.split)

lemma handed_reconcile: "handed env (reconcile env snapshot) (\<lambda>_. [])"
proof -
  have quiet: "traced env (replay_events s x) (\<lambda>_ ls. ls = [])" for s x
    unfolding replay_events_def by (intro traced_checked traced_read) simp
  have replay: "traced env (jfor (\<lambda>x. replay_events (sr_session_id x) x) xs) (\<lambda>_ ls. ls = [])" for xs
    by (rule traced_mono[OF traced_for[where lab = "\<lambda>_. []"]]) (simp_all add: quiet)
  show ?thesis
    unfolding reconcile_def
    by (intro handed_from_journal traced_then[OF traced_reconciliation] traced_then[OF replay] traced_return) simp
qed

lemma handed_append_event: "handed env (coord_append_event env eid sid ev) (\<lambda>_. [])"
  unfolding coord_append_event_def
  by (intro handed_from_journal traced_then[OF traced_append_event] traced_return) simp

lemma command_answer_Inr:
  assumes "command_answer answer (r, st) = (Inr a, st')"
  shows "st' = st \<and> (r = Inr a \<or> (\<exists>reason. a = answer reason))"
proof (cases r)
  case (Inl e)
  then show ?thesis
  proof (cases e)
    case (CoordJournal je)
    then show ?thesis using assms Inl by (cases je) (auto simp: command_answer_def)
  qed (use assms Inl in \<open>auto simp: command_answer_def\<close>)
qed (use assms in \<open>auto simp: command_answer_def\<close>)

lemma command_answer_state: "snd (command_answer answer res) = snd res"
proof (cases res)
  case (Pair r st)
  show ?thesis
  proof (cases r)
    case (Inl e)
    then show ?thesis using Pair
      by (cases e; cases "case e of CoordJournal je \<Rightarrow> je") (auto simp: command_answer_def)
  qed (simp add: Pair command_answer_def)
qed

lemma handed_event_ack:
  assumes "ids ok = []" "\<And>reason. ids (answer reason) = []"
  shows "handed env (coord_event_ack env ack ok answer) ids"
  unfolding handed_def
proof (intro allI impI)
  fix st r st' assume run: "coord_event_ack env ack ok answer st = Some (r, st')"
  obtain q st1 where ack: "acknowledge_event env ack st = Some (q, st1)"
    using run by (cases "acknowledge_event env ack st") (auto simp: coord_event_ack_def)
  obtain ls where 1: "journal_trace env st ls st1" using tracedD[OF traced_acknowledge ack] by blast
  show "\<exists>ls. journal_trace env st ls st' \<and> (\<forall>a. r = Inr a \<longrightarrow> ids a = [] \<or> ids a = ls)"
  proof (cases q)
    case (Inr u)
    then obtain q2 where q2: "jbind (compact_session env (ea_session_id ack)) (\<lambda>_. jreturn ok) st1 = Some (q2, st')"
      "r = map_err CoordJournal q2"
      using run ack by (auto simp: coord_event_ack_def from_journal_Some)
    have "traced env (jbind (compact_session env (ea_session_id ack)) (\<lambda>_. jreturn ok)) (\<lambda>a _. ids a = [])"
      by (intro traced_then[OF traced_compact] traced_return) (rule assms(1))
    from tracedD[OF this q2(1)] obtain ms where "journal_trace env st1 ms st'" "\<forall>a. q2 = Inr a \<longrightarrow> ids a = []" by blast
    then show ?thesis using journal_trace_append[OF 1] q2(2) by (cases q2) auto
  next
    case (Inl e)
    then have "st' = st1" "\<forall>a. r = Inr a \<longrightarrow> ids a = []"
      using run ack assms(2) by (cases e; auto simp: coord_event_ack_def)+
    then show ?thesis using 1 by auto
  qed
qed

lemma handed_accept_server_frame: "handed env (accept_server_frame env frame) command_ids"
proof (cases frame)
  case (SF_Command command)
  show ?thesis
    unfolding handed_def
  proof (intro allI impI)
    fix st r st' assume "accept_server_frame env frame st = Some (r, st')"
    then obtain q st1 where q: "coord_accept_command env command st = Some (q, st1)"
      "command_answer (\<lambda>reason. no_actions\<lparr>ra_frames := [protocol_error ''command_identity_conflict'' reason]\<rparr>) (q, st1) = (r, st')"
      by (auto simp: accept_server_frame_def SF_Command)
    from q(1) obtain ls where ls: "journal_trace env st ls st1" "\<forall>a. q = Inr a \<longrightarrow> command_ids a = [] \<or> command_ids a = ls"
      using handed_accept_command unfolding handed_def by blast
    moreover have "st' = st1" using command_answer_state q(2) by (metis snd_conv)
    moreover have "command_ids a = [] \<or> command_ids a = ls" if "r = Inr a" for a
      using command_answer_Inr[OF q(2)[unfolded that]] ls(2) by (auto simp: command_ids_def no_actions_def)
    ultimately show "\<exists>ls. journal_trace env st ls st' \<and> (\<forall>a. r = Inr a \<longrightarrow> command_ids a = [] \<or> command_ids a = ls)"
      by blast
  qed
next
  case (SF_EventAck ack)
  then show ?thesis
    using handed_event_ack[of command_ids no_actions
        "\<lambda>reason. no_actions\<lparr>ra_frames := [protocol_error ''event_ack_identity_conflict'' reason]\<rparr>" env ack]
    by (simp add: handed_def accept_server_frame_def command_ids_def no_actions_def)
qed (auto simp: handed_def accept_server_frame_def command_ids_def no_actions_def intro: journal_trace.stop)

section \<open>At most one dispatch through the coordinator\<close>

datatype coordinator_call =
    RecoverCall
  | FrameCall server_frame
  | FinishCall string string dispatch_outcome "event list"
  | ReconcileCall reconcile_snapshot
  | AppendCall string string event

definition handing :: "('a \<Rightarrow> string list) \<Rightarrow> ('b, 'e, 'a) cm \<Rightarrow> ('b, 'e, string list) cm" where
  "handing ids m st = map_option (map_prod (map_sum id ids) id) (m st)"

text \<open>The identities of the commands that a call hands to the scheduler.\<close>

fun run_call :: "'b journal_env \<Rightarrow> 'e runtime_executor \<Rightarrow> coordinator_call \<Rightarrow> ('b, 'e, string list) cm" where
  "run_call env ex RecoverCall = handing command_ids (coord_recover_for_scheduler env ex)"
| "run_call env ex (FrameCall frame) = handing command_ids (accept_server_frame env frame)"
| "run_call env ex (FinishCall s c out evs) = handing command_ids (finish_runtime env s c out evs)"
| "run_call env ex (ReconcileCall snapshot) = handing (\<lambda>_. []) (reconcile env snapshot)"
| "run_call env ex (AppendCall eid sid ev) = handing (\<lambda>_. []) (coord_append_event env eid sid ev)"

text \<open>Histories of the daemon: coordinator calls in any order, runtime activity between them, and
  restarts that reopen the journal from the disk.\<close>

inductive daemon_history ::
  "'b journal_env \<Rightarrow> 'e runtime_executor \<Rightarrow> ('b, 'e) journal_state \<Rightarrow> string list \<Rightarrow> ('b, 'e) journal_state \<Rightarrow> bool"
  for env ex where
  now: "daemon_history env ex st [] st"
| call: "run_call env ex c st = Some (r, st1) \<Longrightarrow> daemon_history env ex st1 ids st2
    \<Longrightarrow> daemon_history env ex st ((case r of Inl _ \<Rightarrow> [] | Inr handed_over \<Rightarrow> handed_over) @ ids) st2"
| runtime: "daemon_history env ex (st\<lparr>js_exec := x\<rparr>) ids st2 \<Longrightarrow> daemon_history env ex st ids st2"
| restart: "open_with_config env (js_disk st) clock writes x = Inr st1 \<Longrightarrow> daemon_history env ex st1 ids st2
    \<Longrightarrow> daemon_history env ex st ids st2"

lemma subseq_distinct_list: "subseq xs ys \<Longrightarrow> distinct ys \<Longrightarrow> distinct xs"
  by (induction xs ys rule: list_emb.induct) (auto dest: list_emb_set)

lemma handing_handed:
  assumes "handed env m ids" "handing ids m st = Some (r, st')"
  shows "\<exists>ls. journal_trace env st ls st' \<and> subseq (case r of Inl _ \<Rightarrow> [] | Inr xs \<Rightarrow> xs) ls"
proof -
  obtain q where q: "m st = Some (q, st')" "r = map_sum id ids q" using assms(2) by (auto simp: handing_def)
  then obtain ls where ls: "journal_trace env st ls st'" "\<forall>a. q = Inr a \<longrightarrow> ids a = [] \<or> ids a = ls"
    using assms(1) unfolding handed_def by blast
  then have "subseq (case r of Inl _ \<Rightarrow> [] | Inr xs \<Rightarrow> xs) ls" using q(2) by (cases q) auto
  with ls(1) show ?thesis by blast
qed

lemma run_call_trace:
  assumes "run_call env ex c st = Some (r, st')"
  shows "\<exists>ls. journal_trace env st ls st' \<and> subseq (case r of Inl _ \<Rightarrow> [] | Inr xs \<Rightarrow> xs) ls"
proof (cases c)
  case RecoverCall
  then show ?thesis using assms handing_handed[OF handed_recover_for_scheduler] by simp
next
  case (FrameCall frame)
  then show ?thesis using assms handing_handed[OF handed_accept_server_frame] by simp
next
  case (FinishCall s cid out evs)
  then show ?thesis using assms handing_handed[OF handed_finish_runtime] by simp
next
  case (ReconcileCall snapshot)
  then show ?thesis using assms handing_handed[OF handed_reconcile] by simp
next
  case (AppendCall eid sid ev)
  then show ?thesis using assms handing_handed[OF handed_append_event] by simp
qed

lemma daemon_history_trace:
  "daemon_history env ex st ids st' \<Longrightarrow> \<exists>ls. journal_trace env st ls st' \<and> subseq ids ls"
proof (induction rule: daemon_history.induct)
  case (now st)
  then show ?case using journal_trace.stop by fastforce
next
  case (call c st r st1 ids st2)
  from run_call_trace[OF call(1)] call.IH show ?case
    using journal_trace_append list_emb_append_mono by blast
next
  case (runtime st x ids st2)
  then show ?case using journal_trace.more[OF journal_step.runtime] by fastforce
next
  case (restart st clock writes x st1 ids st2)
  then show ?case using journal_trace.more[OF journal_step.restart[OF restart(1)]] by fastforce
qed

text \<open>C1. The coordinator hands a command to the scheduler at most once. In every history of a daemon
  that started on an empty disk (server frames, finished runtimes, recoveries, handshakes and event
  appends in any order, with failing writes and restarts) no command identity is handed over twice.\<close>

theorem coordinator_at_most_once:
  assumes "serde_roundtrip env" "open_with_config env None clock writes x = Inr st0"
    and "daemon_history env ex st0 handed_over st"
  shows "distinct handed_over"
proof -
  obtain ls where ls: "journal_trace env st0 ls st" "subseq handed_over ls"
    using daemon_history_trace[OF assms(3)] by blast
  have "distinct ls"
    by (rule trace_dispatches_once[OF assms(1) ls(1)])
      (rule opened_held[OF assms(2,1), of "\<lambda>f. unique_ids (inbox_of f)", OF default_unique_ids])
  then show ?thesis using ls(2) subseq_distinct_list by blast
qed

definition sample_executor :: "unit runtime_executor" where
  "sample_executor = \<lparr>ex_dispatch_for_session = \<lambda>_ _ _ _ x. (DispatchSucceeded, x),
     ex_take_events = \<lambda>_ x. ([], x), ex_recover_for_session = \<lambda>_ _ _ _ x. (RecoveryUnknown, x)\<rparr>"

lemma sample_handed:
  "run_call sample_env sample_executor (FrameCall (SF_Command (sample_command ''a'' 1))) sample_start
   = Some (Inr [''a''], sample_started)"
  by code_simp

theorem coordinator_at_most_once_witness:
  "\<exists>handed_over st. daemon_history sample_env sample_executor sample_start handed_over st
     \<and> handed_over = [''a''] \<and> distinct handed_over"
proof -
  have "daemon_history sample_env sample_executor sample_start ([''a''] @ []) sample_started"
    using daemon_history.call[OF sample_handed daemon_history.now] by simp
  then have "daemon_history sample_env sample_executor sample_start [''a''] sample_started" by simp
  with coordinator_at_most_once[OF sample_roundtrip sample_opened this] show ?thesis by blast
qed

section \<open>Replay after reconciliation\<close>

definition covered_by :: "session_reconcile_state \<Rightarrow> event_record \<Rightarrow> bool" where
  "covered_by x r \<longleftrightarrow> er_session r = sr_session_id x
     \<and> (er_seq r \<le> sr_event_ack_through_seq x \<or> er_seq r \<in> set (sr_event_ack_sparse x))"

lemma reconcile_event_fields:
  "er_envelope (reconcile_event s local r) = er_envelope r"
  "er_acknowledged r \<Longrightarrow> er_acknowledged (reconcile_event s local r)"
  by (simp_all add: reconcile_event_def)

lemma jf_events_reconcile_one:
  "jf_events (reconcile_one x f)
   = map (reconcile_event (sr_session_id x) (reconcile_local x (session_of f (sr_session_id x)))) (jf_events f)"
  by (simp add: reconcile_one_def Let_def)

lemma reconcile_one_marks:
  assumes "r \<in> set (jf_events (reconcile_one x f))" "covered_by x r"
  shows "er_acknowledged r"
proof -
  let ?local = "reconcile_local x (session_of f (sr_session_id x))"
  obtain r0 where r0: "r = reconcile_event (sr_session_id x) ?local r0"
    using assms(1) by (auto simp: jf_events_reconcile_one)
  then have "covered_by x r0" using assms(2) by (simp add: covered_by_def reconcile_event_fields)
  then show ?thesis
    by (auto simp: r0 covered_by_def reconcile_event_def reconcile_local_def Let_def le_max_iff_disj not_le)
qed

lemma reconcile_one_keeps_marks:
  assumes "\<forall>r \<in> set (jf_events f). covered_by x r \<longrightarrow> er_acknowledged r"
  shows "\<forall>r \<in> set (jf_events (reconcile_one y f)). covered_by x r \<longrightarrow> er_acknowledged r"
  using assms by (auto simp: jf_events_reconcile_one covered_by_def reconcile_event_fields)

lemma reconcile_fold_marks:
  "x \<in> set xs \<or> (\<forall>r \<in> set (jf_events f). covered_by x r \<longrightarrow> er_acknowledged r)
   \<Longrightarrow> \<forall>r \<in> set (jf_events (fold reconcile_one xs f)). covered_by x r \<longrightarrow> er_acknowledged r"
proof (induction xs arbitrary: f)
  case (Cons y ys)
  show ?case
  proof (cases "x \<in> set ys")
    case False
    then have "\<forall>r \<in> set (jf_events (reconcile_one y f)). covered_by x r \<longrightarrow> er_acknowledged r"
      using Cons.prems reconcile_one_marks reconcile_one_keeps_marks by fastforce
    then show ?thesis using Cons.IH[of "reconcile_one y f"] by auto
  qed (use Cons.IH in simp)
qed simp

lemma replay_run:
  assumes "\<forall>r \<in> set (jf_events (js_file st)). covered_by x r \<longrightarrow> er_acknowledged r"
    and "replay_events (sr_session_id x) x st = Some (Inr es, st')"
  shows "st' = st \<and> es = sort_key ee_daemon_event_seq (map er_envelope
      (filter (\<lambda>r. er_session r = sr_session_id x \<and> \<not> er_acknowledged r) (jf_events (js_file st))))"
proof -
  have "filter (replayable (sr_session_id x) x) (jf_events (js_file st))
      = filter (\<lambda>r. er_session r = sr_session_id x \<and> \<not> er_acknowledged r) (jf_events (js_file st))"
    by (rule filter_cong) (use assms(1) in \<open>auto simp: replayable_def covered_by_def not_le\<close>)
  then show ?thesis using assms(2) by (auto simp: replay_events_def jlift_bind_Inr_iff jm_simps)
qed

lemma replay_for_run:
  assumes "\<forall>x \<in> set xs. \<forall>r \<in> set (jf_events (js_file st)). covered_by x r \<longrightarrow> er_acknowledged r"
    and "jfor (\<lambda>x. replay_events (sr_session_id x) x) xs st = Some (Inr ess, st')"
  shows "st' = st \<and> ess = map (\<lambda>x. sort_key ee_daemon_event_seq (map er_envelope
      (filter (\<lambda>r. er_session r = sr_session_id x \<and> \<not> er_acknowledged r) (jf_events (js_file st))))) xs"
  using assms
proof (induction xs arbitrary: ess)
  case (Cons x xs)
  from Cons.prems(2) obtain es es' st1 where
    1: "replay_events (sr_session_id x) x st = Some (Inr es, st1)"
      "jfor (\<lambda>x. replay_events (sr_session_id x) x) xs st1 = Some (Inr es', st')" "ess = es # es'"
    by (auto simp: jbind_Inr_iff jm_simps)
  with replay_run[OF _ 1(1)] Cons.prems(1) Cons.IH[of es'] show ?case by auto
qed (simp add: jm_simps)

text \<open>The handshake replays exactly what the server has not acknowledged. When a reconciliation
  succeeds, every live event that the snapshot covers is acknowledged in the journal, the journal is
  durable, and the replayed frames are, session by session in the order of the snapshot, all live
  unacknowledged events of the session in ascending sequence order.\<close>

theorem reconcile_replays_unacknowledged:
  assumes "serde_roundtrip env" "reconcile env snapshot st = Some (Inr actions, st')"
  shows "ha_replay actions = map DF_Event (concat (map (\<lambda>x. sort_key ee_daemon_event_seq (map er_envelope
        (filter (\<lambda>r. er_session r = sr_session_id x \<and> \<not> er_acknowledged r) (jf_events (js_file st')))))
        (rs_sessions snapshot)))
    \<and> (\<forall>x \<in> set (rs_sessions snapshot). \<forall>r \<in> set (jf_events (js_file st')). covered_by x r \<longrightarrow> er_acknowledged r)
    \<and> map er_envelope (jf_events (js_file st')) = map er_envelope (jf_events (js_file st))
    \<and> durable env (\<lambda>_. True) st'"
proof -
  obtain ess st1 where app: "jupdate env (reconcile_op (rs_sessions snapshot)) st = Some (Inr (), st1)"
    and rep: "jfor (\<lambda>x. replay_events (sr_session_id x) x) (rs_sessions snapshot) st1 = Some (Inr ess, st')"
    and act: "actions = \<lparr>ha_replay = map DF_Event (concat ess)\<rparr>"
    using assms(2)
    by (auto simp: reconcile_def from_journal_Inr apply_reconciliation_def jbind_Inr_iff jm_simps)
  note upd = jupdate_Inr[OF assms(1) app]
  then have f1: "js_file st1 = fold reconcile_one (rs_sessions snapshot) (js_file st)"
    by (simp add: reconcile_op_def)
  have marks: "\<forall>x \<in> set (rs_sessions snapshot). \<forall>r \<in> set (jf_events (js_file st1)). covered_by x r \<longrightarrow> er_acknowledged r"
    unfolding f1 using reconcile_fold_marks by blast
  have "map er_envelope (jf_events (fold reconcile_one xs f)) = map er_envelope (jf_events f)" for xs f
    by (induction xs arbitrary: f) (simp_all add: jf_events_reconcile_one reconcile_event_fields comp_def)
  then show ?thesis
    using replay_for_run[OF marks rep] marks act f1 upd by (simp add: durable_def)
qed

definition sample_snapshot :: reconcile_snapshot where
  "sample_snapshot = \<lparr>rs_schema_version = SCHEMA_VERSION, rs_sessions = [\<lparr>sr_session_id = ''s'',
     sr_command_ack_through_seq = 0, sr_event_ack_through_seq = 0, sr_event_ack_sparse = []\<rparr>]\<rparr>"

theorem reconcile_replays_unacknowledged_witness:
  "\<exists>actions st'. reconcile sample_env sample_snapshot (sample_events [sample_event_record ''e'' 1]) = Some (Inr actions, st')
     \<and> ha_replay actions = [DF_Event (sample_event ''e'' 1)] \<and> durable sample_env (\<lambda>_. True) st'"
proof -
  have "map_option (map_prod (map_sum id ha_replay) (\<lambda>_. ())) (reconcile sample_env sample_snapshot
      (sample_events [sample_event_record ''e'' 1])) = Some (Inr [DF_Event (sample_event ''e'' 1)], ())"
    by code_simp
  then obtain q st' where q: "reconcile sample_env sample_snapshot (sample_events [sample_event_record ''e'' 1]) = Some (q, st')"
    "map_sum id ha_replay q = Inr [DF_Event (sample_event ''e'' 1)]"
    by auto
  then obtain actions where run: "reconcile sample_env sample_snapshot (sample_events [sample_event_record ''e'' 1])
      = Some (Inr actions, st')" "ha_replay actions = [DF_Event (sample_event ''e'' 1)]"
    by (cases q) auto
  with reconcile_replays_unacknowledged[OF sample_roundtrip run(1)] show ?thesis by blast
qed

section \<open>Recovery\<close>

text \<open>Recovery never dispatches a started command again. On a journal whose memory is the file on
  disk, as after opening it, a successful recovery for the scheduler hands over only commands that
  were still in the state received; every command that had been started or finished, and every
  tombstone, is excluded.\<close>

theorem recovery_never_redispatches:
  assumes "serde_roundtrip env" "journal_reachable env st" "durable env (\<lambda>_. True) st"
    and "coord_recover_for_scheduler env ex st = Some (Inr actions, st')"
    and "cid \<in> set (known_ids (inbox_of (js_file st)))"
    and "\<forall>r \<in> set (jf_commands (js_file st)). cr_command_id r = cid \<longrightarrow> cr_state r \<noteq> Received"
  shows "cid \<notin> set (command_ids actions)"
proof -
  have "dispatched_once cid (inbox_of (js_file st))"
    using reachable_unique_ids[OF assms(1,2)] assms(5,6) by (simp add: dispatched_once_def)
  then have held: "held (\<lambda>f. dispatched_once cid (inbox_of f)) env st"
    using assms(3) by (auto simp: durable_def held_def)
  obtain ls where "journal_trace env st ls st'" "command_ids actions = [] \<or> command_ids actions = ls"
    using handed_recover_for_scheduler assms(4) unfolding handed_def by blast
  then show ?thesis using dispatched_trace_quiet[OF assms(1) _ held] by auto
qed

theorem recovery_never_redispatches_witness:
  "\<exists>actions st'. coord_recover_for_scheduler sample_env sample_executor sample_started = Some (Inr actions, st')
     \<and> ''a'' \<notin> set (command_ids actions)"
proof -
  have "map_option (map_prod (map_sum id (\<lambda>_. ())) (\<lambda>_. ())) (coord_recover_for_scheduler sample_env sample_executor
      sample_started) = Some (Inr (), ())"
    by code_simp
  then obtain q st' where q: "coord_recover_for_scheduler sample_env sample_executor sample_started = Some (q, st')"
    "map_sum id (\<lambda>_. ()) q = Inr ()" by auto
  then obtain actions where run: "coord_recover_for_scheduler sample_env sample_executor sample_started = Some (Inr actions, st')"
    by (cases q) auto
  have "durable sample_env (\<lambda>_. True) sample_started"
    by (simp add: durable_def sample_started_def sample_env_def)
  moreover have "''a'' \<in> set (known_ids (inbox_of (js_file sample_started)))"
    "\<forall>r \<in> set (jf_commands (js_file sample_started)). cr_command_id r = ''a'' \<longrightarrow> cr_state r \<noteq> Received"
    by (simp_all add: known_ids_def sample_started_def sample_record_def)
  ultimately show ?thesis
    using recovery_never_redispatches[OF sample_roundtrip sample_started_reachable _ run] run by blast
qed

section \<open>Errors of the frame handler\<close>

lemma jbind_Inl_iff:
  "jbind m k st = Some (Inl e, st') \<longleftrightarrow>
     m st = Some (Inl e, st') \<or> (\<exists>a st1. m st = Some (Inr a, st1) \<and> k a st1 = Some (Inl e, st'))"
  by (auto simp: jbind_Some_iff)

lemma jupdate_Inl:
  assumes "jupdate env operation st = Some (Inl e, st')"
  shows "operation (env_now env (js_clock st)) (js_file st) = Some (Inl e) \<and> js_file st' = js_file st \<and> js_disk st' = js_disk st
    \<or> (\<exists>x. e = Io x \<or> e = Format x)"
proof -
  consider e' where "operation (env_now env (js_clock st)) (js_file st) = Some (Inl e')"
    | a f where "operation (env_now env (js_clock st)) (js_file st) = Some (Inr (a, f))"
    using assms by (auto simp: jupdate_def split: option.splits sum.splits prod.splits)
  then show ?thesis
  proof cases
    case 1
    then show ?thesis using assms by (auto simp: jupdate_def)
  next
    case 2
    obtain p disk where p: "persist_locked env f st = (p, disk)" by (cases "persist_locked env f st")
    then have "p = Inl e" using assms 2 by (cases p) (auto simp: jupdate_def)
    then show ?thesis using p by (auto simp: persist_locked_def split: write_result.splits sum.splits)
  qed
qed

lemma mark_not_gap: "mark_dispatch_started env cid st \<noteq> Some (Inl (GapOverflow s limit), st')"
proof
  assume "mark_dispatch_started env cid st = Some (Inl (GapOverflow s limit), st')"
  from jupdate_Inl[OF this[unfolded mark_dispatch_started_def]] show False
    by (auto simp: mark_op_def split: option.splits if_splits)
qed

lemma prepare_gap:
  assumes "prepare_op env e digest mid now f = Some (Inl (GapOverflow s limit))"
  shows "s = ce_session_id e \<and> limit = env_gap_limit env \<and> env_gap_limit env \<le> gap_pending f s (expected_command_sequence f s)"
proof -
  have "validate_command_identity f (env_daemon_id env) e digest mid = Inr ()"
    using assms by (auto simp: prepare_op_def validate_command_identity_def split: if_splits)
  then show ?thesis
    using assms by (auto simp: prepare_op_def Let_def split: option.splits if_splits)
qed

lemma accept_gap:
  assumes "accept_command_with_control env e allow st = Some (Inl (GapOverflow s limit), st')"
  shows "s = ce_session_id e \<and> limit = env_gap_limit env \<and> js_file st' = js_file st \<and> js_disk st' = js_disk st
    \<and> env_gap_limit env \<le> gap_pending (js_file st) s (expected_command_sequence (js_file st) s)"
proof -
  have "\<exists>digest mid. prepare_command env e digest mid st = Some (Inl (GapOverflow s limit), st')"
    using assms unfolding accept_command_with_control_def
    by (auto simp: jbind_Inl_iff jm_simps map_err_def command_payload_digest_def command_record_of_def mark_not_gap
        split: sum.splits if_splits option.splits)
  then obtain digest mid where "prepare_command env e digest mid st = Some (Inl (GapOverflow s limit), st')" by blast
  from jupdate_Inl[OF this[unfolded prepare_command_def]] prepare_gap show ?thesis by blast
qed

text \<open>An overflowing gap buffer is a lossless retry boundary. When a command frame is answered with a
  retryable gap, it names the session of the command and the configured limit, that session really
  has the limit of waiting commands, and neither the memory nor the disk of the journal has changed;
  and no journal conflict or overflow of a command ever leaves the frame handler as a raw journal
  error.\<close>

theorem retryable_gap_lossless:
  assumes "accept_server_frame env (SF_Command command) st = Some (r, st')"
  shows "(case r of
       Inl (RetryableGap s limit) \<Rightarrow>
         s = ce_session_id command \<and> limit = env_gap_limit env \<and> js_file st' = js_file st \<and> js_disk st' = js_disk st
         \<and> env_gap_limit env \<le> gap_pending (js_file st) s (expected_command_sequence (js_file st) s)
     | Inl (CoordJournal (IdentityConflict _)) \<Rightarrow> False
     | Inl (CoordJournal (GapOverflow _ _)) \<Rightarrow> False
     | Inl (TerminalProtocol _ _) \<Rightarrow> False
     | _ \<Rightarrow> True)"
proof -
  let ?answer = "\<lambda>reason. no_actions\<lparr>ra_frames := [protocol_error ''command_identity_conflict'' reason]\<rparr>"
  obtain q st1 where q1: "coord_accept_command env command st = Some (q, st1)"
    "command_answer ?answer (q, st1) = (r, st')"
    using assms by (auto simp: accept_server_frame_def)
  have "st1 = st'" using command_answer_state q1(2) by (metis snd_conv)
  with q1 have q: "coord_accept_command env command st = Some (q, st')" "command_answer ?answer (q, st') = (r, st')"
    by simp_all
  obtain p where p: "accept_command_with_control env command (is_cancel (ce_command command)) st = Some (p, st')
      \<and> (\<forall>e. p = Inl e \<longrightarrow> q = Inl (CoordJournal e)) \<and> (\<forall>a. p = Inr a \<longrightarrow> (\<exists>b. q = Inr b))"
    using q(1)
    by (cases "is_cancel (ce_command command)")
      (auto simp: coord_accept_command_def from_journal_Some accept_control_command_def accept_command_def
        jbind_Some_iff jm_simps)
  show ?thesis
  proof (cases p)
    case (Inl e)
    then have "q = Inl (CoordJournal e)" using p by simp
    then show ?thesis
      using q(2) p Inl by (cases e) (auto simp: command_answer_def dest: accept_gap)
  next
    case (Inr a)
    then obtain b where "q = Inr b" using p by blast
    then show ?thesis using q(2) by (auto simp: command_answer_def)
  qed
qed

theorem retryable_gap_lossless_witness:
  "\<exists>r st'. accept_server_frame (sample_env\<lparr>env_gap_limit := 0\<rparr>) (SF_Command (sample_command ''b'' 2)) sample_start = Some (r, st')
     \<and> r = Inl (RetryableGap ''s'' 0) \<and> js_file st' = js_file sample_start"
proof -
  have run: "accept_server_frame (sample_env\<lparr>env_gap_limit := 0\<rparr>) (SF_Command (sample_command ''b'' 2)) sample_start
      = Some (Inl (RetryableGap ''s'' 0), sample_start\<lparr>js_clock := 1\<rparr>)"
    by code_simp
  with retryable_gap_lossless[OF run] show ?thesis by simp
qed

end
