(* ===== verification/Scheduler.thy ===== *)
theory Scheduler
  imports Journal_Model "HOL-Library.AList"
begin

text \<open>
  \<open>north-daemon/src/scheduler.rs\<close> and the \<open>RuntimeControl\<close> of \<open>north-daemon/src/journal.rs\<close>: worker
  admission, cancellation and the return of completed work to the transport task.

  \<^item> A \<open>RuntimeControl\<close> is shared through \<open>Arc\<close>s by the control map, the active, queued and suppressed
    entries and the worker. The controls live in \<open>sc_store\<close>; everything else holds their addresses, so
    that two entries see the same control exactly when the code shares it.
  \<^item> A \<open>HashMap\<close> is an association list updated by \<open>AList.update\<close> and \<open>AList.delete\<close>; the order of its
    entries only shows in the order of the interrupts of \<open>request_shutdown\<close>.
  \<^item> The spawned tasks are \<open>sc_workers\<close>; a task holds a permit until \<open>worker_done\<close>, which drops the
    permit and sends the completion without a point of suspension between the two.
  \<^item> The completion channel is unbounded: \<open>sc_channel\<close> holds what was sent and not yet received, and
    \<open>sc_receiving\<close> says that the receiver exists. Calls of \<open>executor.cancel_for_session\<close>, whose result
    is dropped, are logged in \<open>sc_interrupts\<close>.
  \<^item> A method returns its result with the new state; an error keeps what was already changed. A poisoned
    mutex is not modelled.
\<close>

section \<open>Runtime controls\<close>

datatype runtime_lifecycle = LifecycleQueued | Preparing | Running | Terminating

record runtime_control =
  ct_session_id :: string
  ct_active_command_id :: "string option"
  ct_lifecycle :: runtime_lifecycle
  ct_cancellation_requested :: bool
  ct_terminal_fact_emitted :: bool

definition new_control :: "string \<Rightarrow> string \<Rightarrow> runtime_control" where
  "new_control sid cid =
     \<lparr>ct_session_id = sid, ct_active_command_id = Some cid, ct_lifecycle = LifecycleQueued,
      ct_cancellation_requested = False, ct_terminal_fact_emitted = False\<rparr>"

definition set_active_command_id :: "string \<Rightarrow> runtime_control \<Rightarrow> runtime_control" where
  "set_active_command_id cid ct = ct\<lparr>ct_active_command_id := Some cid\<rparr>"

definition set_lifecycle :: "runtime_lifecycle \<Rightarrow> runtime_control \<Rightarrow> runtime_control" where
  "set_lifecycle l ct = ct\<lparr>ct_lifecycle := if ct_cancellation_requested ct then Terminating else l\<rparr>"

definition request_cancellation :: "runtime_control \<Rightarrow> runtime_control" where
  "request_cancellation ct = ct\<lparr>ct_cancellation_requested := True, ct_lifecycle := Terminating\<rparr>"

definition mark_terminal_fact_emitted :: "runtime_control \<Rightarrow> bool \<times> runtime_control" where
  "mark_terminal_fact_emitted ct = (\<not> ct_terminal_fact_emitted ct, ct\<lparr>ct_terminal_fact_emitted := True\<rparr>)"

section \<open>State\<close>

definition MAX_RUNTIME_CONCURRENCY :: nat where
  "MAX_RUNTIME_CONCURRENCY = 4"

record runtime_completion =
  rt_session_id :: string
  rt_command_id :: string
  rt_runtime_operation_id :: string
  rt_outcome :: dispatch_outcome
  rt_events :: "event list"

datatype runtime_followup = FinishCancellation command_envelope | RescheduleCancellation command_envelope

record runtime_finished =
  rf_followup :: "runtime_followup option"

record active_runtime =
  ar_command_id :: string
  ar_control :: nat

record queued_runtime =
  qr_command :: command_envelope
  qr_control :: nat

record runtime_scheduler =
  sc_store :: "runtime_control list"
  sc_active :: "(string \<times> active_runtime) list"
  sc_controls :: "(string \<times> nat) list"
  sc_pending_cancellations :: "(string \<times> command_envelope) list"
  sc_suppressed :: "(string \<times> nat) list"
  sc_queued :: "queued_runtime list"
  sc_permits :: nat
  sc_workers :: "queued_runtime list"
  sc_channel :: "runtime_completion list"
  sc_receiving :: bool
  sc_interrupts :: "string list"

type_synonym 'a sched = "runtime_scheduler \<Rightarrow> (string + 'a) \<times> runtime_scheduler"

definition new_scheduler :: runtime_scheduler where
  "new_scheduler =
     \<lparr>sc_store = [], sc_active = [], sc_controls = [], sc_pending_cancellations = [], sc_suppressed = [],
      sc_queued = [], sc_permits = MAX_RUNTIME_CONCURRENCY, sc_workers = [], sc_channel = [],
      sc_receiving = True, sc_interrupts = []\<rparr>"

text \<open>A method body runs with \<open>?\<close> after each fallible call.\<close>

definition sched_bind :: "'a sched \<Rightarrow> ('a \<Rightarrow> 'c sched) \<Rightarrow> 'c sched" where
  "sched_bind m k s = (case m s of (Inl e, s') \<Rightarrow> (Inl e, s') | (Inr a, s') \<Rightarrow> k a s')"

definition on_control :: "nat \<Rightarrow> (runtime_control \<Rightarrow> runtime_control) \<Rightarrow> runtime_scheduler \<Rightarrow> runtime_scheduler" where
  "on_control a f s = s\<lparr>sc_store := (sc_store s)[a := f (sc_store s ! a)]\<rparr>"

definition cancelled :: "runtime_scheduler \<Rightarrow> nat \<Rightarrow> bool" where
  "cancelled s a = ct_cancellation_requested (sc_store s ! a)"

section \<open>Operations\<close>

definition has_terminal_event :: "event list \<Rightarrow> bool" where
  "has_terminal_event evs =
     list_ex (\<lambda>ev. case ev of SessionCompleted _ \<Rightarrow> True | SessionFailed _ \<Rightarrow> True | _ \<Rightarrow> False) evs"

definition control_for :: "command_envelope \<Rightarrow> runtime_scheduler \<Rightarrow> nat \<times> runtime_scheduler" where
  "control_for c s =
     (case map_of (sc_controls s) (ce_session_id c) of
        Some a \<Rightarrow> (a, s)
      | None \<Rightarrow>
          (length (sc_store s),
           s\<lparr>sc_store := sc_store s @ [new_control (ce_session_id c) (ce_command_id c)],
             sc_controls := AList.update (ce_session_id c) (length (sc_store s)) (sc_controls s)\<rparr>))"

definition is_active :: "string \<Rightarrow> runtime_scheduler \<Rightarrow> bool" where
  "is_active sid s \<longleftrightarrow> map_of (sc_active s) sid \<noteq> None"

definition send_completion :: "runtime_completion \<Rightarrow> unit sched" where
  "send_completion c s =
     (if sc_receiving s then (Inr (), s\<lparr>sc_channel := sc_channel s @ [c]\<rparr>)
      else (Inl ''runtime completion channel closed'', s))"

definition suppress :: "command_envelope \<Rightarrow> nat \<Rightarrow> unit sched" where
  "suppress c a s =
     (let s = s\<lparr>sc_suppressed := AList.update (ce_command_id c) a (sc_suppressed s)\<rparr>;
          (first, ct) = mark_terminal_fact_emitted (sc_store s ! a);
          s = on_control a (\<lambda>_. ct) s
      in send_completion
           \<lparr>rt_session_id = ce_session_id c, rt_command_id = ce_command_id c,
            rt_runtime_operation_id = ce_command_id c, rt_outcome = DispatchSucceeded,
            rt_events = (if first then [SessionCompleted ''Clarification runtime cancelled before execution''] else [])\<rparr> s)"

definition enqueue :: "command_envelope \<Rightarrow> nat \<Rightarrow> unit sched" where
  "enqueue c a s =
     (let s = on_control a (set_lifecycle LifecycleQueued) s
      in (Inr (), s\<lparr>sc_queued := sc_queued s @ [\<lparr>qr_command = c, qr_control = a\<rparr>]\<rparr>))"

text \<open>\<open>spawn_runtime\<close> owns the permit: the early return drops it, otherwise the task takes it.\<close>

definition spawn_runtime :: "command_envelope \<Rightarrow> nat \<Rightarrow> unit sched" where
  "spawn_runtime c a s =
     (let s = on_control a (set_lifecycle Preparing) (on_control a (set_active_command_id (ce_command_id c)) s)
      in if is_active (ce_session_id c) s
         then (Inl (''runtime session '' @ ce_session_id c @ '' is already active''), s\<lparr>sc_permits := sc_permits s + 1\<rparr>)
         else (Inr (), s\<lparr>sc_active := AList.update (ce_session_id c)
                            \<lparr>ar_command_id = ce_command_id c, ar_control = a\<rparr> (sc_active s),
                         sc_workers := sc_workers s @ [\<lparr>qr_command = c, qr_control = a\<rparr>]\<rparr>))"

definition schedule_runtime_inner :: "command_envelope \<Rightarrow> nat \<Rightarrow> unit sched" where
  "schedule_runtime_inner c a s =
     (if cancelled s a \<and> \<not> is_cancel (ce_command c) then suppress c a s
      else if is_active (ce_session_id c) s then enqueue c a s
      else if sc_permits s = 0 then enqueue c a s
      else spawn_runtime c a (s\<lparr>sc_permits := sc_permits s - 1\<rparr>))"

definition remove_queued :: "string \<Rightarrow> runtime_scheduler \<Rightarrow> queued_runtime list \<times> runtime_scheduler" where
  "remove_queued sid s =
     (filter (\<lambda>q. ce_session_id (qr_command q) = sid) (sc_queued s),
      s\<lparr>sc_queued := filter (\<lambda>q. ce_session_id (qr_command q) \<noteq> sid) (sc_queued s)\<rparr>)"

primrec suppress_all :: "queued_runtime list \<Rightarrow> unit sched" where
  "suppress_all [] s = (Inr (), s)"
| "suppress_all (q # qs) s = sched_bind (suppress (qr_command q) (qr_control q)) (\<lambda>_. suppress_all qs) s"

definition schedule_cancellation :: "command_envelope \<Rightarrow> nat \<Rightarrow> unit sched" where
  "schedule_cancellation c a s =
     (let s = on_control a request_cancellation s;
          s = s\<lparr>sc_interrupts := sc_interrupts s @ [ce_session_id c]\<rparr>;
          (queued, s) = remove_queued (ce_session_id c) s;
          already_pending = (map_of (sc_pending_cancellations s) (ce_session_id c) \<noteq> None)
      in if is_active (ce_session_id c) s \<or> queued \<noteq> []
         then suppress_all queued
                (if already_pending then s
                 else s\<lparr>sc_pending_cancellations := AList.update (ce_session_id c) c (sc_pending_cancellations s)\<rparr>)
         else if already_pending then (Inr (), s)
         else schedule_runtime_inner c a s)"

definition schedule :: "command_envelope \<Rightarrow> unit sched" where
  "schedule c s =
     (let (a, s) = control_for c s
      in if is_cancel (ce_command c) then schedule_cancellation c a s
         else if cancelled s a then suppress c a s
         else schedule_runtime_inner c a s)"

definition schedule_runtime :: "command_envelope \<Rightarrow> unit sched" where
  "schedule_runtime c s = (let (a, s) = control_for c s in schedule_runtime_inner c a s)"

text \<open>The loop of \<open>drain_queue\<close>: each waiting command is looked at once.\<close>

primrec drain_loop :: "nat \<Rightarrow> unit sched" where
  "drain_loop 0 s = (Inr (), s)"
| "drain_loop (Suc remaining) s =
     (case sc_queued s of
        [] \<Rightarrow> (Inr (), s)
      | q # rest \<Rightarrow>
          (let c = qr_command q; a = qr_control q; s' = s\<lparr>sc_queued := rest\<rparr>
           in if cancelled s' a \<and> \<not> is_cancel (ce_command c)
              then sched_bind (suppress c a) (\<lambda>_. drain_loop remaining) s'
              else if is_active (ce_session_id c) s'
              then drain_loop remaining (s'\<lparr>sc_queued := sc_queued s' @ [q]\<rparr>)
              else if sc_permits s' = 0 then (Inr (), s'\<lparr>sc_queued := q # sc_queued s'\<rparr>)
              else sched_bind (spawn_runtime c a) (\<lambda>_. drain_loop remaining)
                     (s'\<lparr>sc_permits := sc_permits s' - 1\<rparr>)))"

definition drain_queue :: "unit sched" where
  "drain_queue s = drain_loop (length (sc_queued s)) s"

definition maybe_cleanup_control :: "string \<Rightarrow> runtime_scheduler \<Rightarrow> runtime_scheduler" where
  "maybe_cleanup_control sid s =
     (case map_of (sc_controls s) sid of
        None \<Rightarrow> s
      | Some a \<Rightarrow>
          if \<not> ct_terminal_fact_emitted (sc_store s ! a) then s
          else if is_active sid s then s
          else if list_ex (\<lambda>q. ce_session_id (qr_command q) = sid) (sc_queued s) then s
          else if list_ex (\<lambda>(_, b). ct_session_id (sc_store s ! b) = sid) (sc_suppressed s) then s
          else if map_of (sc_pending_cancellations s) sid \<noteq> None then s
          else s\<lparr>sc_controls := AList.delete sid (sc_controls s)\<rparr>)"

text \<open>The control of a completed command: a suppressed command first, else the active runtime of the
  session, which is removed.\<close>

definition take_control :: "runtime_completion \<Rightarrow> nat sched" where
  "take_control c s =
     (case map_of (sc_suppressed s) (rt_command_id c) of
        Some a \<Rightarrow> (Inr a, s\<lparr>sc_suppressed := AList.delete (rt_command_id c) (sc_suppressed s)\<rparr>)
      | None \<Rightarrow>
          (case map_of (sc_active s) (rt_session_id c) of
             None \<Rightarrow> (Inl (''runtime completion for inactive session '' @ rt_session_id c), s)
           | Some r \<Rightarrow>
               if ar_command_id r \<noteq> rt_command_id c
               then (Inl (''runtime completion command mismatch for session '' @ rt_session_id c), s)
               else (Inr (ar_control r), s\<lparr>sc_active := AList.delete (rt_session_id c) (sc_active s)\<rparr>)))"

definition finish_active :: "runtime_completion \<Rightarrow> runtime_finished sched" where
  "finish_active c =
     sched_bind (take_control c) (\<lambda>a s.
       let terminal_now = has_terminal_event (rt_events c);
           s = (if terminal_now then on_control a (\<lambda>ct. snd (mark_terminal_fact_emitted ct)) s else s);
           pending = map_of (sc_pending_cancellations s) (rt_session_id c);
           s = s\<lparr>sc_pending_cancellations := AList.delete (rt_session_id c) (sc_pending_cancellations s)\<rparr>;
           terminal = (terminal_now \<or> ct_terminal_fact_emitted (sc_store s ! a));
           followup = map_option (if terminal then FinishCancellation else RescheduleCancellation) pending
       in sched_bind drain_queue (\<lambda>_ s.
            (Inr \<lparr>rf_followup = followup\<rparr>,
             if followup = None \<and> terminal then maybe_cleanup_control (rt_session_id c) s else s)) s)"

definition finish_followup :: "command_envelope \<Rightarrow> runtime_scheduler \<Rightarrow> runtime_scheduler" where
  "finish_followup c s = maybe_cleanup_control (ce_session_id c) s"

definition request_shutdown :: "runtime_scheduler \<Rightarrow> runtime_scheduler" where
  "request_shutdown s =
     fold (\<lambda>a s. let s = on_control a request_cancellation s
                 in s\<lparr>sc_interrupts := sc_interrupts s @ [ct_session_id (sc_store s ! a)]\<rparr>)
       (map (ar_control \<circ> snd) (sc_active s)) s"

section \<open>Workers\<close>

text \<open>What the blocking task of a worker comes to: the executor's answer with the events taken from it,
  or a panic reported by the join.\<close>

datatype worker_result = WorkerReturned dispatch_outcome "event list" | WorkerFailed string

definition worker_completion :: "queued_runtime \<Rightarrow> worker_result \<Rightarrow> runtime_completion" where
  "worker_completion w r =
     (let c = qr_command w
      in \<lparr>rt_session_id = ce_session_id c, rt_command_id = ce_command_id c, rt_runtime_operation_id = ce_command_id c,
          rt_outcome = (case r of WorkerReturned out _ \<Rightarrow> out
                        | WorkerFailed err \<Rightarrow> DispatchFailed (''runtime worker failed: '' @ err)),
          rt_events = (case r of WorkerReturned _ evs \<Rightarrow> evs
                       | WorkerFailed _ \<Rightarrow> [SessionFailed \<lparr>sf_recoverable = False, sf_reason = ''runtime worker failed''\<rparr>])\<rparr>)"

definition worker_done :: "queued_runtime \<Rightarrow> worker_result \<Rightarrow> runtime_scheduler \<Rightarrow> runtime_scheduler" where
  "worker_done w r s =
     snd (send_completion (worker_completion w r)
            (s\<lparr>sc_workers := remove1 w (sc_workers s), sc_permits := sc_permits s + 1\<rparr>))"

end
