(* ===== verification/Scheduler_Safety.thy ===== *)
theory Scheduler_Safety
  imports Scheduler
begin

text \<open>
  What the runtime scheduler guarantees while every command is scheduled once, as the journal promises.

  \<^item> \<open>scheduler_step\<close> is the environment of the scheduler: the transport task schedules commands, takes
    completions from the channel, carries out the follow-ups, and workers finish in any order.
  \<^item> The locale \<open>scheduler_invariant\<close> lifts a property that every step keeps to the reachable states;
    \<open>custody\<close> and \<open>progress\<close> are its instances.
\<close>

section \<open>Custody of commands\<close>

abbreviation qr_id :: "queued_runtime \<Rightarrow> string" where
  "qr_id q \<equiv> ce_command_id (qr_command q)"

abbreviation qr_session :: "queued_runtime \<Rightarrow> string" where
  "qr_session q \<equiv> ce_session_id (qr_command q)"

text \<open>The commands the scheduler is responsible for: waiting, running, completed and not yet received,
  and cancellations that wait for the session's current work.\<close>

definition in_custody :: "runtime_scheduler \<Rightarrow> string list" where
  "in_custody s = map qr_id (sc_queued s) @ map qr_id (sc_workers s) @ map rt_command_id (sc_channel s)
     @ map (ce_command_id \<circ> snd) (sc_pending_cancellations s)"

definition workers_ok :: "runtime_scheduler \<Rightarrow> bool" where
  "workers_ok s \<longleftrightarrow> sc_permits s + length (sc_workers s) = MAX_RUNTIME_CONCURRENCY
     \<and> (\<forall>w \<in> set (sc_workers s). map_of (sc_active s) (qr_session w)
          = Some \<lparr>ar_command_id = qr_id w, ar_control = qr_control w\<rparr>)"

definition awaits :: "runtime_scheduler \<Rightarrow> string \<Rightarrow> active_runtime \<Rightarrow> runtime_completion \<Rightarrow> bool" where
  "awaits s sid r c \<longleftrightarrow> rt_session_id c = sid \<and> rt_command_id c = ar_command_id r
     \<and> map_of (sc_suppressed s) (rt_command_id c) = None"

definition completions_ok :: "runtime_scheduler \<Rightarrow> bool" where
  "completions_ok s \<longleftrightarrow>
     (\<forall>c \<in> set (sc_channel s). map_of (sc_suppressed s) (rt_command_id c) \<noteq> None
        \<or> (\<exists>r. map_of (sc_active s) (rt_session_id c) = Some r \<and> ar_command_id r = rt_command_id c))
     \<and> (\<forall>cid a. map_of (sc_suppressed s) cid = Some a \<longrightarrow> cid \<in> rt_command_id ` set (sc_channel s))
     \<and> (\<forall>sid r. map_of (sc_active s) sid = Some r \<longrightarrow>
          (\<exists>w \<in> set (sc_workers s). qr_session w = sid) \<or> (\<exists>c \<in> set (sc_channel s). awaits s sid r c))"

definition controls_ok :: "runtime_scheduler \<Rightarrow> bool" where
  "controls_ok s \<longleftrightarrow>
     (\<forall>sid a. map_of (sc_controls s) sid = Some a \<longrightarrow> a < length (sc_store s) \<and> ct_session_id (sc_store s ! a) = sid)
     \<and> (\<forall>q \<in> set (sc_queued s). map_of (sc_controls s) (qr_session q) = Some (qr_control q))
     \<and> (\<forall>sid r. map_of (sc_active s) sid = Some r \<longrightarrow> map_of (sc_controls s) sid = Some (ar_control r))
     \<and> (\<forall>cid a. map_of (sc_suppressed s) cid = Some a
          \<longrightarrow> map_of (sc_controls s) (ct_session_id (sc_store s ! a)) = Some a)"

definition pending_ok :: "runtime_scheduler \<Rightarrow> bool" where
  "pending_ok s \<longleftrightarrow> distinct (map fst (sc_pending_cancellations s))
     \<and> (\<forall>(sid, c) \<in> set (sc_pending_cancellations s). ce_session_id c = sid \<and> is_cancel (ce_command c)
          \<and> (is_active sid s \<or> (\<exists>d \<in> set (sc_channel s). rt_session_id d = sid)))"

definition scheduler_ok :: "runtime_scheduler \<Rightarrow> bool" where
  "scheduler_ok s \<longleftrightarrow> workers_ok s \<and> completions_ok s \<and> controls_ok s \<and> pending_ok s
     \<and> distinct (in_custody s) \<and> sc_receiving s"

lemmas scheduler_ok_defs =
  scheduler_ok_def workers_ok_def completions_ok_def controls_ok_def pending_ok_def awaits_def

section \<open>Association lists and the store\<close>

lemma update_absent: "map_of al k = None \<Longrightarrow> AList.update k v al = al @ [(k, v)]"
  by (induction al) (auto split: if_splits)

declare update_conv' [simp] delete_conv' [simp]

lemma delete_absent: "map_of al k = None \<Longrightarrow> AList.delete k al = al"
  by (induction al) (auto split: if_splits)

lemma mset_delete:
  assumes "map_of al k = Some v" "distinct (map fst al)"
  shows "mset al = add_mset (k, v) (mset (AList.delete k al))"
  using assms
proof (induction al)
  case (Cons p al)
  show ?case
  proof (cases "fst p = k")
    case True
    then have "map_of al k = None" using Cons.prems by (cases p) (auto simp: map_of_eq_None_iff)
    then show ?thesis using True Cons.prems by (cases p) (auto simp: delete_absent)
  next
    case False
    then show ?thesis using Cons by (cases p) auto
  qed
qed simp

text \<open>Changing a control keeps its session when the change does.\<close>

definition session_kept :: "(runtime_control \<Rightarrow> runtime_control) \<Rightarrow> bool" where
  "session_kept f \<longleftrightarrow> (\<forall>ct. ct_session_id (f ct) = ct_session_id ct)"

lemma session_kept_ops [simp]:
  "session_kept (set_lifecycle l)" "session_kept (set_active_command_id cid)" "session_kept request_cancellation"
  "session_kept (\<lambda>ct. snd (mark_terminal_fact_emitted ct))"
  by (simp_all add: session_kept_def set_lifecycle_def set_active_command_id_def request_cancellation_def
      mark_terminal_fact_emitted_def)

lemma on_control_fields [simp]:
  "sc_active (on_control a f s) = sc_active s" "sc_controls (on_control a f s) = sc_controls s"
  "sc_pending_cancellations (on_control a f s) = sc_pending_cancellations s"
  "sc_suppressed (on_control a f s) = sc_suppressed s" "sc_queued (on_control a f s) = sc_queued s"
  "sc_permits (on_control a f s) = sc_permits s" "sc_workers (on_control a f s) = sc_workers s"
  "sc_channel (on_control a f s) = sc_channel s" "sc_receiving (on_control a f s) = sc_receiving s"
  "length (sc_store (on_control a f s)) = length (sc_store s)"
  by (simp_all add: on_control_def)

lemma on_control_session [simp]:
  "session_kept f \<Longrightarrow> ct_session_id (sc_store (on_control a f s) ! b) = ct_session_id (sc_store s ! b)"
  by (cases "a < length (sc_store s)"; cases "a = b") (auto simp: on_control_def session_kept_def list_update_beyond)

lemma is_active_cong: "sc_active s' = sc_active s \<Longrightarrow> is_active sid s' = is_active sid s"
  by (simp add: is_active_def)

lemma on_control_ok [simp]: "session_kept f \<Longrightarrow> scheduler_ok (on_control a f s) = scheduler_ok s"
  by (simp add: scheduler_ok_defs in_custody_def is_active_def)

section \<open>Operations that move commands\<close>

text \<open>What every internal move keeps: the controls and their cancellation flags, the pending
  cancellations, and the work already started; new workers never run cancelled work.\<close>

definition may_start :: "runtime_scheduler \<Rightarrow> queued_runtime \<Rightarrow> bool" where
  "may_start s w \<longleftrightarrow> is_cancel (ce_command (qr_command w)) \<or> \<not> cancelled s (qr_control w)"

definition moved :: "runtime_scheduler \<Rightarrow> runtime_scheduler \<Rightarrow> bool" where
  "moved s s' \<longleftrightarrow> sc_controls s' = sc_controls s \<and> sc_pending_cancellations s' = sc_pending_cancellations s
     \<and> (\<forall>b. cancelled s' b = cancelled s b)
     \<and> (\<exists>new. sc_workers s' = sc_workers s @ new \<and> (\<forall>w \<in> set new. may_start s w))
     \<and> (\<exists>sent. sc_channel s' = sc_channel s @ sent)
     \<and> (\<forall>sid. is_active sid s \<longrightarrow> is_active sid s')"

lemma moved_refl [simp]: "moved s s"
  by (simp add: moved_def)

lemma may_start_cong: "\<forall>b. cancelled s' b = cancelled s b \<Longrightarrow> may_start s' w = may_start s w"
  by (simp add: may_start_def)

lemma moved_trans:
  assumes "moved s s1" "moved s1 s2"
  shows "moved s s2"
proof -
  obtain new new2 where "sc_workers s1 = sc_workers s @ new" "\<forall>w \<in> set new. may_start s w"
    "sc_workers s2 = sc_workers s1 @ new2" "\<forall>w \<in> set new2. may_start s1 w"
    using assms unfolding moved_def by blast
  moreover have "may_start s1 w = may_start s w" for w
    using assms(1) may_start_cong unfolding moved_def by blast
  ultimately have "sc_workers s2 = sc_workers s @ (new @ new2) \<and> (\<forall>w \<in> set (new @ new2). may_start s w)" by auto
  then show ?thesis using assms unfolding moved_def by fastforce
qed

lemma cancelled_on_control:
  assumes "\<And>ct. ct_cancellation_requested (f ct) = ct_cancellation_requested ct"
  shows "cancelled (on_control a f s) b = cancelled s b"
  using assms by (cases "a < length (sc_store s)"; cases "a = b") (auto simp: cancelled_def on_control_def list_update_beyond)

lemma cancelled_ops [simp]:
  "cancelled (on_control a (set_lifecycle l) s) b = cancelled s b"
  "cancelled (on_control a (set_active_command_id cid) s) b = cancelled s b"
  "cancelled (on_control a (\<lambda>ct. snd (mark_terminal_fact_emitted ct)) s) b = cancelled s b"
  by (rule cancelled_on_control,
      simp add: set_lifecycle_def set_active_command_id_def mark_terminal_fact_emitted_def)+

text \<open>The completion that \<open>suppress\<close> sends.\<close>

definition suppressed_completion :: "command_envelope \<Rightarrow> bool \<Rightarrow> runtime_completion" where
  "suppressed_completion c first =
     \<lparr>rt_session_id = ce_session_id c, rt_command_id = ce_command_id c, rt_runtime_operation_id = ce_command_id c,
      rt_outcome = DispatchSucceeded,
      rt_events = (if first then [SessionCompleted ''Clarification runtime cancelled before execution''] else [])\<rparr>"

lemma suppress_run:
  assumes "sc_receiving s"
  shows "suppress c a s =
    (Inr (), (on_control a (\<lambda>ct. snd (mark_terminal_fact_emitted ct)) s)
       \<lparr>sc_suppressed := AList.update (ce_command_id c) a (sc_suppressed s),
        sc_channel := sc_channel s @ [suppressed_completion c (\<not> ct_terminal_fact_emitted (sc_store s ! a))]\<rparr>)"
  using assms
  by (simp add: suppress_def send_completion_def mark_terminal_fact_emitted_def on_control_def suppressed_completion_def)

lemma suppressed_completion_fields [simp]:
  "rt_session_id (suppressed_completion c b) = ce_session_id c"
  "rt_command_id (suppressed_completion c b) = ce_command_id c"
  by (simp_all add: suppressed_completion_def)

text \<open>An operation takes charge of a command: it succeeds, keeps the scheduler in order and adds exactly
  that command to the custody. The load weighs a command by the stages it still has to pass.\<close>

definition load :: "runtime_scheduler \<Rightarrow> nat" where
  "load s = 5 * length (sc_pending_cancellations s) + 3 * length (sc_queued s) + 2 * length (sc_workers s) + length (sc_channel s)"

definition takes_charge :: "string \<Rightarrow> unit sched \<Rightarrow> runtime_scheduler \<Rightarrow> bool" where
  "takes_charge cid m s \<longleftrightarrow>
     (\<exists>s'. m s = (Inr (), s') \<and> scheduler_ok s' \<and> moved s s'
        \<and> mset (in_custody s') = add_mset cid (mset (in_custody s)) \<and> load s' \<le> load s + 3)"

lemma custody_channel: "c \<in> set (sc_channel s) \<Longrightarrow> rt_command_id c \<in> set (in_custody s)"
  by (simp add: in_custody_def)

lemma suppress_takes_charge:
  assumes ok: "scheduler_ok s" and new: "ce_command_id c \<notin> set (in_custody s)"
    and ctl: "map_of (sc_controls s) (ce_session_id c) = Some a"
  shows "takes_charge (ce_command_id c) (suppress c a) s"
proof -
  define s1 where "s1 = on_control a (\<lambda>ct. snd (mark_terminal_fact_emitted ct)) s"
  have ok1: "scheduler_ok s1" using ok by (simp add: s1_def)
  have sess: "ct_session_id (sc_store s1 ! a) = ce_session_id c"
    using ok ctl by (simp add: s1_def scheduler_ok_def controls_ok_def)
  define b where "b = (\<not> ct_terminal_fact_emitted (sc_store s ! a))"
  define s' where "s' = s1\<lparr>sc_suppressed := AList.update (ce_command_id c) a (sc_suppressed s1),
      sc_channel := sc_channel s1 @ [suppressed_completion c b]\<rparr>"
  have run: "suppress c a s = (Inr (), s')"
    using ok by (simp add: suppress_run scheduler_ok_def s'_def s1_def b_def)
  have other: "rt_command_id d \<noteq> ce_command_id c" if "d \<in> set (sc_channel s1)" for d
    using custody_channel[of d s] new that by (auto simp: s1_def)
  have "workers_ok s'" "pending_ok s'"
    using ok1 by (auto simp: s'_def scheduler_ok_def workers_ok_def pending_ok_def is_active_def)
  moreover have "completions_ok s'"
    using ok1 other by (auto simp: s'_def scheduler_ok_def completions_ok_def awaits_def)
  moreover have "controls_ok s'"
    using ok1 sess ctl by (auto simp: s'_def scheduler_ok_def controls_ok_def s1_def)
  moreover have m: "mset (in_custody s') = add_mset (ce_command_id c) (mset (in_custody s))"
    by (simp add: s'_def s1_def in_custody_def)
  moreover have "distinct (in_custody s')"
    using mset_eq_imp_distinct_iff[of "in_custody s'" "ce_command_id c # in_custody s"] m new ok
    by (simp add: scheduler_ok_def)
  ultimately have "scheduler_ok s'" using ok by (simp add: scheduler_ok_def s'_def s1_def)
  moreover have "moved s s'" by (simp add: moved_def s'_def s1_def cancelled_def is_active_def)
      (metis cancelled_def cancelled_ops(3))
  moreover have "load s' \<le> load s + 3" by (simp add: s'_def s1_def load_def)
  ultimately show ?thesis using run m unfolding takes_charge_def by blast
qed

lemma enqueue_takes_charge:
  assumes ok: "scheduler_ok s" and new: "ce_command_id c \<notin> set (in_custody s)"
    and ctl: "map_of (sc_controls s) (ce_session_id c) = Some a"
  shows "takes_charge (ce_command_id c) (enqueue c a) s"
proof -
  define s1 where "s1 = on_control a (set_lifecycle LifecycleQueued) s"
  define s' where "s' = s1\<lparr>sc_queued := sc_queued s1 @ [\<lparr>qr_command = c, qr_control = a\<rparr>]\<rparr>"
  have run: "enqueue c a s = (Inr (), s')" by (simp add: enqueue_def s'_def s1_def)
  have ok1: "scheduler_ok s1" using ok by (simp add: s1_def)
  have m: "mset (in_custody s') = add_mset (ce_command_id c) (mset (in_custody s))"
    by (simp add: s'_def s1_def in_custody_def)
  then have "distinct (in_custody s')"
    using mset_eq_imp_distinct_iff[of "in_custody s'" "ce_command_id c # in_custody s"] new ok
    by (simp add: scheduler_ok_def)
  then have "scheduler_ok s'"
    using ok1 ctl unfolding scheduler_ok_defs by (simp add: s'_def is_active_def) (simp add: s1_def)
  moreover have "moved s s'" by (simp add: moved_def s'_def s1_def cancelled_def is_active_def)
      (metis cancelled_def cancelled_ops(1))
  moreover have "load s' \<le> load s + 3" by (simp add: s'_def s1_def load_def)
  ultimately show ?thesis using run m unfolding takes_charge_def by blast
qed

lemma spawn_takes_charge:
  assumes ok: "scheduler_ok s" and new: "ce_command_id c \<notin> set (in_custody s)"
    and ctl: "map_of (sc_controls s) (ce_session_id c) = Some a"
    and free: "\<not> is_active (ce_session_id c) s" "sc_permits s \<noteq> 0"
    and start: "is_cancel (ce_command c) \<or> \<not> cancelled s a"
  shows "takes_charge (ce_command_id c) (\<lambda>s. spawn_runtime c a (s\<lparr>sc_permits := sc_permits s - 1\<rparr>)) s"
proof -
  define s1 where "s1 = on_control a (set_lifecycle Preparing) (on_control a (set_active_command_id (ce_command_id c)) s)"
  define w where "w = \<lparr>qr_command = c, qr_control = a\<rparr>"
  define s' where "s' = s1\<lparr>sc_permits := sc_permits s - 1, sc_active := AList.update (ce_session_id c)
      \<lparr>ar_command_id = ce_command_id c, ar_control = a\<rparr> (sc_active s), sc_workers := sc_workers s @ [w]\<rparr>"
  have run: "spawn_runtime c a (s\<lparr>sc_permits := sc_permits s - 1\<rparr>) = (Inr (), s')"
    using free(1) by (simp add: spawn_runtime_def s'_def s1_def w_def is_active_def on_control_def)
  have ok1: "scheduler_ok s1" using ok by (simp add: s1_def)
  have no: "map_of (sc_active s) (ce_session_id c) = None" using free(1) by (simp add: is_active_def)
  have "workers_ok s'"
    using ok1 free(2) no by (auto simp: s'_def w_def s1_def scheduler_ok_def workers_ok_def)
  moreover have "completions_ok s'"
    using ok1 no
    by (auto simp: s'_def w_def s1_def scheduler_ok_def completions_ok_def awaits_def)
  moreover have "controls_ok s'"
    using ok1 ctl by (auto simp: s'_def w_def s1_def scheduler_ok_def controls_ok_def)
  moreover have "pending_ok s'"
    using ok1 by (auto simp: s'_def s1_def scheduler_ok_def pending_ok_def is_active_def)
  moreover have m: "mset (in_custody s') = add_mset (ce_command_id c) (mset (in_custody s))"
    by (simp add: s'_def s1_def w_def in_custody_def)
  moreover have "distinct (in_custody s')"
    using mset_eq_imp_distinct_iff[of "in_custody s'" "ce_command_id c # in_custody s"] m new ok
    by (simp add: scheduler_ok_def)
  ultimately have "scheduler_ok s'" using ok by (simp add: scheduler_ok_def s'_def s1_def)
  moreover have "cancelled s' b = cancelled s b" for b
    using cancelled_ops(1,2) by (simp add: s'_def s1_def cancelled_def)
  then have "moved s s'"
    using start by (simp add: moved_def s'_def s1_def is_active_def w_def may_start_def)
  moreover have "load s' \<le> load s + 3" by (simp add: s'_def s1_def load_def)
  ultimately show ?thesis using run m unfolding takes_charge_def by blast
qed

lemma schedule_runtime_inner_takes_charge:
  assumes "scheduler_ok s" "ce_command_id c \<notin> set (in_custody s)" "map_of (sc_controls s) (ce_session_id c) = Some a"
  shows "takes_charge (ce_command_id c) (schedule_runtime_inner c a) s"
  using suppress_takes_charge[OF assms] enqueue_takes_charge[OF assms] spawn_takes_charge[OF assms]
  by (auto simp: schedule_runtime_inner_def takes_charge_def)

section \<open>Draining the queue\<close>

lemma popped_ok:
  assumes ok: "scheduler_ok s" and q: "sc_queued s = q # rest"
  shows "scheduler_ok (s\<lparr>sc_queued := rest\<rparr>)" "qr_id q \<notin> set (in_custody (s\<lparr>sc_queued := rest\<rparr>))"
    "map_of (sc_controls s) (qr_session q) = Some (qr_control q)"
    "mset (in_custody s) = add_mset (qr_id q) (mset (in_custody (s\<lparr>sc_queued := rest\<rparr>)))"
    "load s = load (s\<lparr>sc_queued := rest\<rparr>) + 3"
  using ok q by (auto simp: scheduler_ok_defs in_custody_def is_active_def load_def)

lemma moved_queue [simp]:
  "moved (s\<lparr>sc_queued := qs\<rparr>) s' = moved s s'" "moved s (s'\<lparr>sc_queued := qs\<rparr>) = moved s s'"
  by (simp_all add: moved_def cancelled_def may_start_def is_active_def)

lemma rotate_ok:
  assumes "scheduler_ok s" "sc_queued s = q # rest"
  shows "scheduler_ok (s\<lparr>sc_queued := rest @ [q]\<rparr>)"
    "mset (in_custody (s\<lparr>sc_queued := rest @ [q]\<rparr>)) = mset (in_custody s)"
    "load (s\<lparr>sc_queued := rest @ [q]\<rparr>) = load s"
  using assms by (auto simp: scheduler_ok_defs in_custody_def is_active_def load_def)

text \<open>The state after a step of the loop that took charge of the popped command.\<close>

lemma drain_loop_ok:
  "scheduler_ok s \<Longrightarrow> \<exists>s'. drain_loop n s = (Inr (), s') \<and> scheduler_ok s' \<and> moved s s'
     \<and> mset (in_custody s') = mset (in_custody s) \<and> load s' \<le> load s"
proof (induction n arbitrary: s)
  case (Suc n)
  show ?case
  proof (cases "sc_queued s")
    case Nil
    then show ?thesis using Suc.prems by simp
  next
    case (Cons q rest)
    let ?t = "s\<lparr>sc_queued := rest\<rparr>"
    note pop = popped_ok[OF Suc.prems Cons]
    have ctl: "map_of (sc_controls ?t) (qr_session q) = Some (qr_control q)" using pop(3) by simp
    have continue: "\<exists>s'. sched_bind m (\<lambda>_. drain_loop n) ?t = (Inr (), s') \<and> scheduler_ok s' \<and> moved s s'
        \<and> mset (in_custody s') = mset (in_custody s) \<and> load s' \<le> load s" if charge: "takes_charge (qr_id q) m ?t" for m
    proof -
      obtain s1 where s1: "m ?t = (Inr (), s1)" "scheduler_ok s1" "moved s s1"
        "mset (in_custody s1) = mset (in_custody s)" "load s1 \<le> load s"
        using charge pop(4,5) by (auto simp: takes_charge_def)
      with Suc.IH[OF s1(2)] show ?thesis using moved_trans[of s s1] by (fastforce simp: sched_bind_def)
    qed
    have rot: "\<exists>s'. drain_loop n (s\<lparr>sc_queued := rest @ [q]\<rparr>) = (Inr (), s') \<and> scheduler_ok s' \<and> moved s s'
        \<and> mset (in_custody s') = mset (in_custody s) \<and> load s' \<le> load s"
      using Suc.IH[OF rotate_ok(1)[OF Suc.prems Cons]] rotate_ok(2,3)[OF Suc.prems Cons] by simp
    have same: "scheduler_ok (s\<lparr>sc_queued := q # rest\<rparr>)"
      "mset (in_custody (s\<lparr>sc_queued := q # rest\<rparr>)) = mset (in_custody s)"
      "load (s\<lparr>sc_queued := q # rest\<rparr>) \<le> load s"
      using Suc.prems Cons by (simp_all add: load_def in_custody_def)
        (metis (full_types) runtime_scheduler.surjective runtime_scheduler.update_convs(6))
    show ?thesis
      using continue[OF suppress_takes_charge[OF pop(1,2) ctl]] rot same
        continue[OF spawn_takes_charge[OF pop(1,2) ctl]]
      by (auto simp: Cons sched_bind_def Let_def)
  qed
qed simp

lemma drain_queue_ok:
  assumes "scheduler_ok s"
  shows "\<exists>s'. drain_queue s = (Inr (), s') \<and> scheduler_ok s' \<and> moved s s' \<and> mset (in_custody s') = mset (in_custody s)
    \<and> load s' \<le> load s"
  using drain_loop_ok[OF assms] by (simp add: drain_queue_def)

section \<open>Scheduling\<close>

text \<open>The cancellation of a session stands while its control exists with the flag set.\<close>

definition session_cancelled :: "runtime_scheduler \<Rightarrow> string \<Rightarrow> bool" where
  "session_cancelled s sid \<longleftrightarrow> (\<exists>a. map_of (sc_controls s) sid = Some a \<and> cancelled s a)"

definition advanced :: "runtime_scheduler \<Rightarrow> runtime_scheduler \<Rightarrow> bool" where
  "advanced s s' \<longleftrightarrow> (\<exists>new. sc_workers s' = sc_workers s @ new \<and> (\<forall>w \<in> set new. may_start s' w))
     \<and> (\<forall>sid. session_cancelled s sid \<longrightarrow> session_cancelled s' sid)"

lemma moved_advanced:
  assumes "sc_workers s1 = sc_workers s" "\<forall>sid. session_cancelled s sid \<longrightarrow> session_cancelled s1 sid" "moved s1 s2"
  shows "advanced s s2"
proof -
  have same: "\<forall>b. cancelled s2 b = cancelled s1 b" "sc_controls s2 = sc_controls s1" using assms(3) by (simp_all add: moved_def)
  have "session_cancelled s2 sid = session_cancelled s1 sid" for sid using same by (simp add: session_cancelled_def)
  then show ?thesis
    using assms may_start_cong[OF same(1)] by (auto simp: advanced_def moved_def)
qed

lemma control_for_ok:
  assumes ok: "scheduler_ok s" and run: "control_for c s = (a, s1)"
  shows "scheduler_ok s1" "map_of (sc_controls s1) (ce_session_id c) = Some a" "in_custody s1 = in_custody s"
    "sc_workers s1 = sc_workers s" "\<forall>sid. session_cancelled s sid \<longrightarrow> session_cancelled s1 sid"
    "sc_pending_cancellations s1 = sc_pending_cancellations s" "sc_queued s1 = sc_queued s"
    "sc_permits s1 = sc_permits s" "sc_active s1 = sc_active s" "sc_channel s1 = sc_channel s"
proof -
  show "scheduler_ok s1"
  proof (cases "map_of (sc_controls s) (ce_session_id c)")
    case (Some b)
    then show ?thesis using ok run by (simp add: control_for_def)
  next
    case None
    have bound: "a < length (sc_store s)" if "map_of (sc_suppressed s) cid = Some a" for cid a
      using ok that unfolding scheduler_ok_def controls_ok_def by blast
    have no: "map_of (sc_active s) (ce_session_id c) = None" "\<forall>q \<in> set (sc_queued s). qr_session q \<noteq> ce_session_id c"
      using ok None unfolding scheduler_ok_def controls_ok_def by (fastforce intro: ccontr)+
    have sup: "ct_session_id (sc_store s ! a) \<noteq> ce_session_id c" if "map_of (sc_suppressed s) cid = Some a" for cid a
      using ok None that unfolding scheduler_ok_def controls_ok_def by fastforce
    have s1: "s1 = s\<lparr>sc_store := sc_store s @ [new_control (ce_session_id c) (ce_command_id c)],
        sc_controls := AList.update (ce_session_id c) (length (sc_store s)) (sc_controls s)\<rparr>"
      using run None by (auto simp: control_for_def)
    have "controls_ok s1"
      using ok no sup bound unfolding scheduler_ok_def controls_ok_def
      by (auto simp: s1 nth_append new_control_def less_Suc_eq)
    then show ?thesis using ok
      by (auto simp: s1 scheduler_ok_def workers_ok_def completions_ok_def awaits_def pending_ok_def is_active_def in_custody_def)
  qed
  have "cancelled s1 b" if "map_of (sc_controls s) sid = Some b" "cancelled s b" for sid b
  proof -
    have "b < length (sc_store s)" using ok that(1) unfolding scheduler_ok_def controls_ok_def by blast
    then show ?thesis using run that(2) by (auto simp: control_for_def cancelled_def nth_append split: option.splits)
  qed
  then show "\<forall>sid. session_cancelled s sid \<longrightarrow> session_cancelled s1 sid"
    using run by (fastforce simp: control_for_def session_cancelled_def split: option.splits)
  show "map_of (sc_controls s1) (ce_session_id c) = Some a" "in_custody s1 = in_custody s"
    "sc_workers s1 = sc_workers s" "sc_pending_cancellations s1 = sc_pending_cancellations s"
    "sc_queued s1 = sc_queued s" "sc_permits s1 = sc_permits s" "sc_active s1 = sc_active s" "sc_channel s1 = sc_channel s"
    using run by (auto simp: control_for_def in_custody_def split: option.splits)
qed

lemma suppress_all_ok:
  "\<lbrakk>scheduler_ok s; distinct (map qr_id qs); set (map qr_id qs) \<inter> set (in_custody s) = {};
    \<forall>q \<in> set qs. map_of (sc_controls s) (qr_session q) = Some (qr_control q)\<rbrakk>
   \<Longrightarrow> \<exists>s'. suppress_all qs s = (Inr (), s') \<and> scheduler_ok s' \<and> moved s s'
         \<and> mset (in_custody s') = mset (in_custody s) + mset (map qr_id qs)
         \<and> sc_queued s' = sc_queued s \<and> sc_permits s' = sc_permits s \<and> sc_active s' = sc_active s
         \<and> (\<forall>q \<in> set qs. \<exists>d \<in> set (sc_channel s'). rt_session_id d = qr_session q)"
proof (induction qs arbitrary: s)
  case (Cons q qs)
  have "qr_id q \<notin> set (in_custody s)" "map_of (sc_controls s) (qr_session q) = Some (qr_control q)"
    using Cons.prems by simp_all
  from suppress_takes_charge[OF Cons.prems(1) this] obtain s1 where
    s1: "suppress (qr_command q) (qr_control q) s = (Inr (), s1)" "scheduler_ok s1" "moved s s1"
      "mset (in_custody s1) = add_mset (qr_id q) (mset (in_custody s))"
    unfolding takes_charge_def by blast
  have fields: "sc_queued s1 = sc_queued s" "sc_permits s1 = sc_permits s" "sc_active s1 = sc_active s"
    "\<exists>d \<in> set (sc_channel s1). rt_session_id d = qr_session q"
    using s1(1) Cons.prems(1) by (auto simp: suppress_run scheduler_ok_def)
  have "set (in_custody s1) = insert (qr_id q) (set (in_custody s))"
    using s1(4) by (metis set_mset_add_mset_insert set_mset_mset)
  then have "set (map qr_id qs) \<inter> set (in_custody s1) = {}" using Cons.prems(2,3) by auto
  moreover have "\<forall>q \<in> set qs. map_of (sc_controls s1) (qr_session q) = Some (qr_control q)"
    using Cons.prems(4) s1(3) by (simp add: moved_def)
  ultimately obtain s2 where
    s2: "suppress_all qs s1 = (Inr (), s2)" "scheduler_ok s2" "moved s1 s2"
      "mset (in_custody s2) = mset (in_custody s1) + mset (map qr_id qs)"
      "sc_queued s2 = sc_queued s1" "sc_permits s2 = sc_permits s1" "sc_active s2 = sc_active s1"
      "\<forall>q \<in> set qs. \<exists>d \<in> set (sc_channel s2). rt_session_id d = qr_session q"
    using Cons.IH[OF s1(2)] Cons.prems(2) by auto
  have "set (sc_channel s1) \<subseteq> set (sc_channel s2)" using s2(3) by (auto simp: moved_def)
  then show ?case
    using s1 s2 fields moved_trans[OF s1(3) s2(3)] by (auto simp: sched_bind_def)
qed simp

lemma suppress_all_pending:
  "suppress_all qs (s\<lparr>sc_pending_cancellations := p\<rparr>)
     = map_prod id (\<lambda>t. t\<lparr>sc_pending_cancellations := p\<rparr>) (suppress_all qs s)"
proof (induction qs arbitrary: s)
  case (Cons q qs)
  have "suppress c a (s\<lparr>sc_pending_cancellations := p\<rparr>)
      = map_prod id (\<lambda>t. t\<lparr>sc_pending_cancellations := p\<rparr>) (suppress c a s)" for c a
    by (simp add: suppress_def send_completion_def on_control_def mark_terminal_fact_emitted_def Let_def)
  then show ?case using Cons.IH by (auto simp: sched_bind_def split: prod.splits sum.splits)
qed simp

lemma add_pending_ok:
  assumes "scheduler_ok s" "map_of (sc_pending_cancellations s) (ce_session_id c) = None" "is_cancel (ce_command c)"
    and "ce_command_id c \<notin> set (in_custody s)"
    and "is_active (ce_session_id c) s \<or> (\<exists>d \<in> set (sc_channel s). rt_session_id d = ce_session_id c)"
    and p: "p = AList.update (ce_session_id c) c (sc_pending_cancellations s)"
  shows "scheduler_ok (s\<lparr>sc_pending_cancellations := p\<rparr>)"
    "mset (in_custody (s\<lparr>sc_pending_cancellations := p\<rparr>)) = add_mset (ce_command_id c) (mset (in_custody s))"
proof -
  have p': "p = sc_pending_cancellations s @ [(ce_session_id c, c)]" using assms(2) p by (simp add: update_absent)
  show m: "mset (in_custody (s\<lparr>sc_pending_cancellations := p\<rparr>)) = add_mset (ce_command_id c) (mset (in_custody s))"
    by (simp add: p' in_custody_def)
  have "distinct (in_custody (s\<lparr>sc_pending_cancellations := p\<rparr>))"
    using mset_eq_imp_distinct_iff[of "in_custody (s\<lparr>sc_pending_cancellations := p\<rparr>)" "ce_command_id c # in_custody s"]
      m assms(1,4) by (simp add: scheduler_ok_def)
  then show "scheduler_ok (s\<lparr>sc_pending_cancellations := p\<rparr>)"
    using assms(1,2,3,5)
    by (auto simp: p' scheduler_ok_def workers_ok_def completions_ok_def awaits_def controls_ok_def pending_ok_def
        is_active_def map_of_eq_None_iff)
qed

text \<open>The outcome of scheduling: success, and either the command is in custody, or it is a cancellation
  of a session whose cancellation is already pending.\<close>

definition superseded :: "command_envelope \<Rightarrow> runtime_scheduler \<Rightarrow> bool" where
  "superseded c s \<longleftrightarrow> is_cancel (ce_command c) \<and> map_of (sc_pending_cancellations s) (ce_session_id c) \<noteq> None"

definition admitted :: "command_envelope \<Rightarrow> runtime_scheduler \<Rightarrow> (string + unit) \<times> runtime_scheduler \<Rightarrow> bool" where
  "admitted c s res \<longleftrightarrow>
     (\<exists>s'. res = (Inr (), s') \<and> scheduler_ok s' \<and> advanced s s'
        \<and> (is_cancel (ce_command c) \<longrightarrow> session_cancelled s' (ce_session_id c))
        \<and> mset (in_custody s') = (if superseded c s then mset (in_custody s)
             else add_mset (ce_command_id c) (mset (in_custody s))))"

lemma takes_charge_admitted:
  assumes "takes_charge (ce_command_id c) m s1" "sc_workers s1 = sc_workers s" "in_custody s1 = in_custody s"
    and "\<forall>sid. session_cancelled s sid \<longrightarrow> session_cancelled s1 sid"
    and "is_cancel (ce_command c) \<longrightarrow> session_cancelled s1 (ce_session_id c)" "\<not> superseded c s"
  shows "admitted c s (m s1)"
proof -
  obtain s' where s': "m s1 = (Inr (), s')" "scheduler_ok s'" "moved s1 s'"
    "mset (in_custody s') = add_mset (ce_command_id c) (mset (in_custody s1))"
    using assms(1) unfolding takes_charge_def by blast
  moreover have "session_cancelled s' sid = session_cancelled s1 sid" for sid
    using s'(3) by (auto simp: moved_def session_cancelled_def)
  ultimately show ?thesis
    using moved_advanced[OF assms(2,4) s'(3)] assms(3,5,6) unfolding admitted_def by auto
qed

lemma cancel_requested:
  assumes "scheduler_ok s" "map_of (sc_controls s) sid = Some a"
    and s1: "s1 = (on_control a request_cancellation s)\<lparr>sc_interrupts := is\<rparr>"
  shows "scheduler_ok s1" "session_cancelled s1 sid" "\<forall>x. session_cancelled s x \<longrightarrow> session_cancelled s1 x"
proof -
  have "scheduler_ok (on_control a request_cancellation s)" using assms(1) by simp
  then show "scheduler_ok s1" by (simp add: s1 scheduler_ok_defs in_custody_def is_active_def)
  have a: "a < length (sc_store s)" using assms(1,2) unfolding scheduler_ok_def controls_ok_def by blast
  have flags: "cancelled s1 b = (b = a \<or> cancelled s b)" for b
    using a by (cases "b = a") (auto simp: s1 cancelled_def on_control_def request_cancellation_def)
  show "session_cancelled s1 sid" using assms(2) flags by (simp add: session_cancelled_def s1)
  show "\<forall>x. session_cancelled s x \<longrightarrow> session_cancelled s1 x" using flags by (auto simp: session_cancelled_def s1)
qed

lemma removed_queued_ok:
  assumes ok: "scheduler_ok s" and p: "P = (\<lambda>q. qr_session q = sid)"
  defines "t \<equiv> s\<lparr>sc_queued := filter (\<lambda>q. \<not> P q) (sc_queued s)\<rparr>"
  shows "scheduler_ok t" "distinct (map qr_id (filter P (sc_queued s)))"
    "set (map qr_id (filter P (sc_queued s))) \<inter> set (in_custody t) = {}"
    "mset (in_custody s) = mset (in_custody t) + mset (map qr_id (filter P (sc_queued s)))"
    "\<forall>q \<in> set (filter P (sc_queued s)). map_of (sc_controls t) (qr_session q) = Some (qr_control q)"
proof -
  have "mset (map qr_id (sc_queued s))
      = mset (map qr_id (filter (\<lambda>q. \<not> P q) (sc_queued s))) + mset (map qr_id (filter P (sc_queued s)))"
    by (rule mset_partition[symmetric])
  then show m: "mset (in_custody s) = mset (in_custody t) + mset (map qr_id (filter P (sc_queued s)))"
    by (simp add: t_def in_custody_def)
  then have "mset (in_custody s) = mset (map qr_id (filter P (sc_queued s)) @ in_custody t)" by (simp add: add.commute)
  then have d: "distinct (map qr_id (filter P (sc_queued s)) @ in_custody t)"
    using ok mset_eq_imp_distinct_iff unfolding scheduler_ok_def by blast
  then show "distinct (map qr_id (filter P (sc_queued s)))"
    "set (map qr_id (filter P (sc_queued s))) \<inter> set (in_custody t) = {}" by simp_all
  show "scheduler_ok t" using ok d by (auto simp: t_def scheduler_ok_defs is_active_def)
  show "\<forall>q \<in> set (filter P (sc_queued s)). map_of (sc_controls t) (qr_session q) = Some (qr_control q)"
    using ok by (simp add: t_def scheduler_ok_def controls_ok_def)
qed

lemma schedule_cancellation_admitted:
  assumes ok: "scheduler_ok s" and new: "ce_command_id c \<notin> set (in_custody s)"
    and ctl: "map_of (sc_controls s) (ce_session_id c) = Some a" and cancel: "is_cancel (ce_command c)"
  shows "admitted c s (schedule_cancellation c a s)"
proof -
  define sid where "sid = ce_session_id c"
  define s1 where "s1 = (on_control a request_cancellation s)\<lparr>sc_interrupts := sc_interrupts s @ [sid]\<rparr>"
  define qs where "qs = filter (\<lambda>q. qr_session q = sid) (sc_queued s1)"
  define t where "t = s1\<lparr>sc_queued := filter (\<lambda>q. \<not> qr_session q = sid) (sc_queued s1)\<rparr>"
  note s1ok = cancel_requested[OF ok ctl, folded sid_def, OF s1_def]
  note t_ok = removed_queued_ok[OF s1ok(1) refl, of sid, folded t_def qs_def]
  have fields: "sc_workers t = sc_workers s" "in_custody s1 = in_custody s"
    "sc_pending_cancellations t = sc_pending_cancellations s"
    by (simp_all add: t_def s1_def in_custody_def)
  have flags: "\<forall>x. session_cancelled s x \<longrightarrow> session_cancelled t x" "session_cancelled t sid"
    using s1ok(2,3) by (simp_all add: t_def session_cancelled_def cancelled_def)
  have ids: "mset (in_custody s) = mset (in_custody t) + mset (map qr_id qs)" using t_ok(4) fields(2) by simp
  have run: "schedule_cancellation c a s =
      (let p = map_of (sc_pending_cancellations s) sid \<noteq> None in
       if is_active sid t \<or> qs \<noteq> [] then suppress_all qs (if p then t
         else t\<lparr>sc_pending_cancellations := AList.update sid c (sc_pending_cancellations t)\<rparr>)
       else if p then (Inr (), t) else schedule_runtime_inner c a t)"
    by (simp add: schedule_cancellation_def remove_queued_def s1_def t_def qs_def sid_def Let_def on_control_def is_active_def)
  obtain u where u: "suppress_all qs t = (Inr (), u)" "scheduler_ok u" "moved t u"
      "mset (in_custody u) = mset (in_custody t) + mset (map qr_id qs)" "sc_active u = sc_active t"
      "\<forall>q \<in> set qs. \<exists>d \<in> set (sc_channel u). rt_session_id d = qr_session q"
    using suppress_all_ok[OF t_ok(1,2,3,5)] by blast
  have adv: "advanced s u" "session_cancelled u sid"
    using moved_advanced[OF fields(1) flags(1) u(3)] flags(2) u(3)
    by (auto simp: moved_def session_cancelled_def)
  have u_ids: "mset (in_custody u) = mset (in_custody s)" using u(4) ids by simp
  have pend: "sc_pending_cancellations u = sc_pending_cancellations s" using u(3) fields(3) by (simp add: moved_def)
  show ?thesis
  proof (cases "is_active sid t \<or> qs \<noteq> []")
    case True
    then have "is_active sid u \<or> (\<exists>d \<in> set (sc_channel u). rt_session_id d = sid)"
      using u(5,6) by (fastforce simp: qs_def is_active_def neq_Nil_conv)
    moreover have "ce_command_id c \<notin> set (in_custody u)" using new u_ids by (metis set_mset_mset)
    ultimately have "map_of (sc_pending_cancellations s) sid = None \<Longrightarrow>
        admitted c s (Inr (), u\<lparr>sc_pending_cancellations := AList.update sid c (sc_pending_cancellations s)\<rparr>)"
      using add_pending_ok[OF u(2) _ cancel, folded sid_def, OF _ _ _ refl] pend adv u_ids
      by (auto simp: admitted_def superseded_def sid_def advanced_def may_start_def cancelled_def session_cancelled_def)
    moreover have "map_of (sc_pending_cancellations s) sid \<noteq> None \<Longrightarrow> admitted c s (Inr (), u)"
      using u(2) adv u_ids cancel by (simp add: admitted_def superseded_def sid_def)
    ultimately show ?thesis
      using True u(1) fields(3) by (simp add: run Let_def suppress_all_pending)
  next
    case False
    then have same: "in_custody t = in_custody s" by (simp add: t_def s1_def qs_def in_custody_def filter_empty_conv filter_id_conv)
    show ?thesis
    proof (cases "map_of (sc_pending_cancellations s) sid")
      case None
      have "takes_charge (ce_command_id c) (schedule_runtime_inner c a) t"
        using schedule_runtime_inner_takes_charge[OF t_ok(1)] new same ctl by (simp add: t_def s1_def)
      from takes_charge_admitted[OF this fields(1) same flags(1)] show ?thesis
        using False None flags(2) by (simp add: run Let_def sid_def superseded_def)
    next
      case (Some x)
      then show ?thesis using False t_ok(1) same cancel flags fields(1)
        by (simp add: run Let_def admitted_def superseded_def advanced_def sid_def)
    qed
  qed
qed

lemma schedule_admitted:
  assumes "scheduler_ok s" "ce_command_id c \<notin> set (in_custody s)"
  shows "admitted c s (schedule c s)"
proof -
  obtain a s1 where ctl: "control_for c s = (a, s1)" by (cases "control_for c s")
  note c_ok = control_for_ok[OF assms(1) ctl]
  have new: "ce_command_id c \<notin> set (in_custody s1)" using assms(2) c_ok(3) by simp
  show ?thesis
  proof (cases "is_cancel (ce_command c)")
    case True
    from schedule_cancellation_admitted[OF c_ok(1) new c_ok(2) True] c_ok(3-6) True
    show ?thesis by (auto simp: schedule_def ctl admitted_def superseded_def advanced_def)
  next
    case False
    then show ?thesis
      using takes_charge_admitted[OF suppress_takes_charge[OF c_ok(1) new c_ok(2)] c_ok(4,3,5)]
        takes_charge_admitted[OF schedule_runtime_inner_takes_charge[OF c_ok(1) new c_ok(2)] c_ok(4,3,5)]
      by (simp add: schedule_def ctl superseded_def)
  qed
qed

lemma schedule_runtime_admitted:
  assumes "scheduler_ok s" "ce_command_id c \<notin> set (in_custody s)"
  shows "\<exists>s'. schedule_runtime c s = (Inr (), s') \<and> scheduler_ok s' \<and> advanced s s'
    \<and> mset (in_custody s') = add_mset (ce_command_id c) (mset (in_custody s)) \<and> load s' \<le> load s + 3"
proof -
  obtain a s1 where ctl: "control_for c s = (a, s1)" by (cases "control_for c s")
  note c_ok = control_for_ok[OF assms(1) ctl]
  have "ce_command_id c \<notin> set (in_custody s1)" using assms(2) c_ok(3) by simp
  from schedule_runtime_inner_takes_charge[OF c_ok(1) this c_ok(2)] obtain s' where
    "schedule_runtime_inner c a s1 = (Inr (), s')" "scheduler_ok s'" "moved s1 s'"
    "mset (in_custody s') = add_mset (ce_command_id c) (mset (in_custody s1))" "load s' \<le> load s1 + 3"
    unfolding takes_charge_def by blast
  then show ?thesis using moved_advanced[OF c_ok(4,5)] c_ok(3,4,6,7,10) by (simp add: schedule_runtime_def ctl load_def)
qed

section \<open>Completions\<close>

lemma worker_completion_fields [simp]:
  "rt_session_id (worker_completion w r) = qr_session w" "rt_command_id (worker_completion w r) = qr_id w"
  by (simp_all add: worker_completion_def Let_def)

lemma worker_done_ok:
  assumes ok: "scheduler_ok s" and w: "w \<in> set (sc_workers s)"
  shows "scheduler_ok (worker_done w r s)" "mset (in_custody (worker_done w r s)) = mset (in_custody s)"
    "load (worker_done w r s) < load s"
proof -
  let ?s = "worker_done w r s"
  have s': "?s = s\<lparr>sc_workers := remove1 w (sc_workers s), sc_permits := sc_permits s + 1,
      sc_channel := sc_channel s @ [worker_completion w r]\<rparr>"
    using ok by (simp add: worker_done_def send_completion_def scheduler_ok_def)
  have ms: "mset (sc_workers s) = add_mset w (mset (remove1 w (sc_workers s)))" using w by simp
  then have "mset (map qr_id (sc_workers s)) = add_mset (qr_id w) (mset (map qr_id (remove1 w (sc_workers s))))"
    by (metis image_mset_add_mset mset_map)
  then show m: "mset (in_custody ?s) = mset (in_custody s)" by (simp add: s' in_custody_def)
  have d: "distinct (in_custody ?s)"
    using mset_eq_imp_distinct_iff[OF m] ok by (simp add: scheduler_ok_def)
  have act: "map_of (sc_active s) (qr_session w) = Some \<lparr>ar_command_id = qr_id w, ar_control = qr_control w\<rparr>"
    using ok w by (simp add: scheduler_ok_def workers_ok_def)
  have fresh: "map_of (sc_suppressed s) (qr_id w) = None"
  proof (rule ccontr)
    assume "map_of (sc_suppressed s) (qr_id w) \<noteq> None"
    then have "qr_id w \<in> rt_command_id ` set (sc_channel s)"
      using ok unfolding scheduler_ok_def completions_ok_def by blast
    moreover have "distinct (in_custody s)" "qr_id w \<in> set (map qr_id (sc_workers s))"
      using ok w by (auto simp: scheduler_ok_def)
    ultimately show False by (auto simp: in_custody_def)
  qed
  have "Suc (length (remove1 w (sc_workers s))) = length (sc_workers s)"
    using w length_pos_if_in_set[OF w] by (simp add: length_remove1)
  then show "load ?s < load s" by (simp add: s' load_def)
  with \<open>Suc (length (remove1 w (sc_workers s))) = length (sc_workers s)\<close> have "workers_ok ?s"
    using ok w set_remove1_subset[of w "sc_workers s"]
    by (auto simp: s' scheduler_ok_def workers_ok_def)
  moreover have "completions_ok ?s"
    unfolding completions_ok_def
  proof (intro conjI allI impI ballI)
    fix sid x assume a: "map_of (sc_active ?s) sid = Some x"
    show "(\<exists>v \<in> set (sc_workers ?s). qr_session v = sid) \<or> (\<exists>c \<in> set (sc_channel ?s). awaits ?s sid x c)"
    proof (cases "sid = qr_session w")
      case True
      then show ?thesis using a act fresh by (auto simp: s' awaits_def)
    next
      case False
      have "map_of (sc_active s) sid = Some x" using a by (simp add: s')
      then consider v where "v \<in> set (sc_workers s)" "qr_session v = sid"
        | c where "c \<in> set (sc_channel s)" "awaits s sid x c"
        using ok unfolding scheduler_ok_def completions_ok_def by blast
      then show ?thesis
      proof cases
        case 1
        then have "v \<noteq> w" using False by auto
        with 1(1) have "v \<in> set (sc_workers ?s)" by (simp add: s')
        then show ?thesis using 1(2) by blast
      qed (auto simp: s' awaits_def)
    qed
  qed (use ok act in \<open>auto simp: s' scheduler_ok_def completions_ok_def\<close>)
  ultimately show "scheduler_ok ?s" using ok d
    by (auto simp: s' scheduler_ok_def controls_ok_def pending_ok_def is_active_def)
qed

text \<open>The identity of the cancellation that a completion releases.\<close>

definition pending_ids :: "runtime_scheduler \<Rightarrow> string \<Rightarrow> string list" where
  "pending_ids s sid = (case map_of (sc_pending_cancellations s) sid of None \<Rightarrow> [] | Some c \<Rightarrow> [ce_command_id c])"

text \<open>The state when a completion was received and its runtime entry and pending cancellation removed.\<close>

definition released :: "runtime_completion \<Rightarrow> runtime_scheduler \<Rightarrow> runtime_scheduler" where
  "released c s =
     (let s = (if map_of (sc_suppressed s) (rt_command_id c) \<noteq> None
               then s\<lparr>sc_suppressed := AList.delete (rt_command_id c) (sc_suppressed s)\<rparr>
               else s\<lparr>sc_active := AList.delete (rt_session_id c) (sc_active s)\<rparr>)
      in s\<lparr>sc_channel := tl (sc_channel s),
           sc_pending_cancellations := AList.delete (rt_session_id c) (sc_pending_cancellations s)\<rparr>)"

lemma released_custody:
  assumes "scheduler_ok s" "sc_channel s = c # rest"
  shows "mset (in_custody s) = add_mset (rt_command_id c) (mset (pending_ids s (rt_session_id c)) + mset (in_custody (released c s)))"
proof (cases "map_of (sc_pending_cancellations s) (rt_session_id c)")
  case None
  then show ?thesis using assms(2) by (simp add: pending_ids_def released_def in_custody_def delete_absent Let_def)
next
  case (Some d)
  have "distinct (map fst (sc_pending_cancellations s))" using assms(1) by (simp add: scheduler_ok_def pending_ok_def)
  from mset_delete[OF Some this]
  have "image_mset (ce_command_id \<circ> snd) (mset (sc_pending_cancellations s))
      = add_mset (ce_command_id d) (image_mset (ce_command_id \<circ> snd)
          (mset (AList.delete (rt_session_id c) (sc_pending_cancellations s))))" by simp
  then show ?thesis using assms(2) Some by (simp add: pending_ids_def released_def in_custody_def Let_def)
qed

lemma released_ok:
  assumes ok: "scheduler_ok s" and ch: "sc_channel s = c # rest"
  shows "scheduler_ok (released c s)"
proof -
  let ?t = "released c s"
  have cust: "distinct (in_custody s)" using ok by (simp add: scheduler_ok_def)
  have others: "rt_command_id d \<noteq> rt_command_id c" if "d \<in> set rest" for d
    using cust ch that by (auto simp: in_custody_def) (metis image_eqI)
  have notw: "qr_id w \<noteq> rt_command_id c" if "w \<in> set (sc_workers s)" for w
    using cust ch that by (auto simp: in_custody_def) (metis image_eqI)
  have "distinct (rt_command_id c # pending_ids s (rt_session_id c) @ in_custody ?t)"
    using mset_eq_imp_distinct_iff[of "in_custody s" "rt_command_id c # pending_ids s (rt_session_id c) @ in_custody ?t"]
      released_custody[OF ok ch] cust by simp
  then have d: "distinct (in_custody ?t)" by simp
  have fields: "sc_channel ?t = rest" "sc_workers ?t = sc_workers s" "sc_queued ?t = sc_queued s"
    "sc_controls ?t = sc_controls s" "sc_store ?t = sc_store s" "sc_permits ?t = sc_permits s" "sc_receiving ?t = sc_receiving s"
    "sc_pending_cancellations ?t = AList.delete (rt_session_id c) (sc_pending_cancellations s)"
    using ch by (simp_all add: released_def Let_def)
  have pend: "pending_ok ?t" if "\<And>sid. sid \<noteq> rt_session_id c \<Longrightarrow> is_active sid ?t = is_active sid s"
  proof -
    have "distinct (map fst (sc_pending_cancellations ?t))"
      using ok unfolding scheduler_ok_def pending_ok_def by (simp add: fields distinct_delete)
    moreover have "sid \<noteq> rt_session_id c \<and> (sid, x) \<in> set (sc_pending_cancellations s)"
      if "(sid, x) \<in> set (sc_pending_cancellations ?t)" for sid x
      using that by (auto simp: fields AList.delete_eq)
    ultimately show ?thesis
      using ok that ch unfolding scheduler_ok_def pending_ok_def by (fastforce simp: fields)
  qed
  show ?thesis
  proof (cases "map_of (sc_suppressed s) (rt_command_id c)")
    case (Some a)
    then have t: "sc_active ?t = sc_active s" "sc_suppressed ?t = AList.delete (rt_command_id c) (sc_suppressed s)"
      by (simp_all add: released_def Let_def)
    have "completions_ok ?t"
      using ok ch others Some unfolding scheduler_ok_def completions_ok_def
      by (auto simp: fields t awaits_def)
    then show ?thesis using ok d pend
      by (auto simp: scheduler_ok_def workers_ok_def controls_ok_def fields t is_active_def)
  next
    case None
    then have t: "sc_active ?t = AList.delete (rt_session_id c) (sc_active s)" "sc_suppressed ?t = sc_suppressed s"
      by (simp_all add: released_def Let_def)
    obtain x where x: "map_of (sc_active s) (rt_session_id c) = Some x" "ar_command_id x = rt_command_id c"
      using ok ch None by (auto simp: scheduler_ok_def completions_ok_def)
    have w: "qr_session w \<noteq> rt_session_id c" if "w \<in> set (sc_workers s)" for w
      using ok x notw[OF that] that by (auto simp: scheduler_ok_def workers_ok_def)
    have "completions_ok ?t"
      using ok ch others x w None unfolding scheduler_ok_def completions_ok_def
      by (auto simp: fields t awaits_def)
    then show ?thesis using ok d pend w
      by (auto simp: scheduler_ok_def workers_ok_def controls_ok_def fields t is_active_def)
  qed
qed

text \<open>A session without work: nothing runs, waits or is pending for it.\<close>

definition idle :: "string \<Rightarrow> runtime_scheduler \<Rightarrow> bool" where
  "idle sid s \<longleftrightarrow> \<not> is_active sid s \<and> (\<forall>q \<in> set (sc_queued s). qr_session q \<noteq> sid)
     \<and> map_of (sc_pending_cancellations s) sid = None"

lemma cleanup_ok:
  fixes sid :: string
  assumes ok: "scheduler_ok s"
  defines "t \<equiv> maybe_cleanup_control sid s"
  shows "scheduler_ok t" "in_custody t = in_custody s" "sc_workers t = sc_workers s" "cancelled t b = cancelled s b"
    "session_cancelled s x \<Longrightarrow> session_cancelled t x \<or> idle x t"
    "sc_queued t = sc_queued s" "sc_permits t = sc_permits s" "sc_active t = sc_active s" "sc_channel t = sc_channel s"
    "sc_pending_cancellations t = sc_pending_cancellations s"
proof -
  have t: "t = s \<or> (t = s\<lparr>sc_controls := AList.delete sid (sc_controls s)\<rparr> \<and> idle sid s
      \<and> (\<forall>(cid, b) \<in> set (sc_suppressed s). ct_session_id (sc_store s ! b) \<noteq> sid))"
    by (auto simp: t_def maybe_cleanup_control_def idle_def list_ex_iff split: option.splits)
  then show "in_custody t = in_custody s" "sc_workers t = sc_workers s" "cancelled t b = cancelled s b"
    "sc_queued t = sc_queued s" "sc_permits t = sc_permits s" "sc_active t = sc_active s" "sc_channel t = sc_channel s"
    "sc_pending_cancellations t = sc_pending_cancellations s"
    by (auto simp: in_custody_def cancelled_def)
  show "scheduler_ok t"
    using t
  proof
    assume d: "t = s\<lparr>sc_controls := AList.delete sid (sc_controls s)\<rparr> \<and> idle sid s
      \<and> (\<forall>(cid, b) \<in> set (sc_suppressed s). ct_session_id (sc_store s ! b) \<noteq> sid)"
    then have "ct_session_id (sc_store s ! b) \<noteq> sid" if "map_of (sc_suppressed s) cid = Some b" for cid b
      using map_of_SomeD[OF that] by auto
    moreover have "map_of (sc_active s) sid = None" "\<forall>q \<in> set (sc_queued s). qr_session q \<noteq> sid"
      using d by (simp_all add: idle_def is_active_def)
    ultimately have "controls_ok t"
      using ok d unfolding scheduler_ok_def controls_ok_def by auto
    then show ?thesis using ok d
      by (auto simp: scheduler_ok_def workers_ok_def completions_ok_def awaits_def pending_ok_def is_active_def in_custody_def)
  qed (use ok in simp)
  show "session_cancelled s x \<Longrightarrow> session_cancelled t x \<or> idle x t"
    using t by (cases "x = sid") (auto simp: session_cancelled_def idle_def is_active_def cancelled_def)
qed

definition followup_command :: "runtime_followup \<Rightarrow> command_envelope" where
  "followup_command f = (case f of FinishCancellation c \<Rightarrow> c | RescheduleCancellation c \<Rightarrow> c)"

definition followups :: "runtime_finished \<Rightarrow> runtime_followup list" where
  "followups fin = (case rf_followup fin of None \<Rightarrow> [] | Some f \<Rightarrow> [f])"

lemma take_control_released:
  assumes ok: "scheduler_ok s" and ch: "sc_channel s = c # rest"
  shows "\<exists>a s1. take_control c (s\<lparr>sc_channel := rest\<rparr>) = (Inr a, s1)
    \<and> s1\<lparr>sc_pending_cancellations := AList.delete (rt_session_id c) (sc_pending_cancellations s1)\<rparr> = released c s
    \<and> sc_pending_cancellations s1 = sc_pending_cancellations s"
proof (cases "map_of (sc_suppressed s) (rt_command_id c)")
  case (Some a)
  then show ?thesis using ch by (simp add: take_control_def released_def)
next
  case None
  then obtain x where "map_of (sc_active s) (rt_session_id c) = Some x" "ar_command_id x = rt_command_id c"
    using ok ch by (auto simp: scheduler_ok_def completions_ok_def)
  then show ?thesis using None ch by (simp add: take_control_def released_def)
qed

lemma finish_active_stages:
  assumes ok: "scheduler_ok s" and ch: "sc_channel s = c # rest"
  obtains a f s2 fin where
    "f = id \<or> f = on_control a (\<lambda>ct. snd (mark_terminal_fact_emitted ct))" "drain_queue (f (released c s)) = (Inr (), s2)"
    "finish_active c (s\<lparr>sc_channel := rest\<rparr>) = (Inr fin, s2)
     \<or> finish_active c (s\<lparr>sc_channel := rest\<rparr>) = (Inr fin, maybe_cleanup_control (rt_session_id c) s2)"
    "map followup_command (followups fin)
       = (case map_of (sc_pending_cancellations s) (rt_session_id c) of None \<Rightarrow> [] | Some d \<Rightarrow> [d])"
proof -
  obtain a s1 where a: "take_control c (s\<lparr>sc_channel := rest\<rparr>) = (Inr a, s1)"
    "s1\<lparr>sc_pending_cancellations := AList.delete (rt_session_id c) (sc_pending_cancellations s1)\<rparr> = released c s"
    "sc_pending_cancellations s1 = sc_pending_cancellations s"
    using take_control_released[OF assms] by blast
  define f where "f = (if has_terminal_event (rt_events c) then on_control a (\<lambda>ct. snd (mark_terminal_fact_emitted ct)) else id)"
  have pend: "(f s1)\<lparr>sc_pending_cancellations := AList.delete (rt_session_id c) (sc_pending_cancellations (f s1))\<rparr> = f (released c s)"
    "sc_pending_cancellations (f s1) = sc_pending_cancellations s"
    by (simp_all add: f_def on_control_def a(3) flip: a(2))
  have "scheduler_ok (f (released c s))" using released_ok[OF assms] by (simp add: f_def)
  then obtain s2 where s2: "drain_queue (f (released c s)) = (Inr (), s2)" using drain_queue_ok by blast
  define terminal where "terminal = (has_terminal_event (rt_events c) \<or> ct_terminal_fact_emitted (sc_store (f (released c s)) ! a))"
  define fin where "fin = \<lparr>rf_followup = map_option (if terminal then FinishCancellation else RescheduleCancellation)
      (map_of (sc_pending_cancellations s) (rt_session_id c))\<rparr>"
  have store: "sc_store (f (released c s)) = sc_store (f s1)" using arg_cong[OF pend(1), of sc_store] by simp
  have "finish_active c (s\<lparr>sc_channel := rest\<rparr>) = sched_bind drain_queue (\<lambda>_ s. (Inr fin,
      if rf_followup fin = None \<and> terminal then maybe_cleanup_control (rt_session_id c) s else s))
    ((f s1)\<lparr>sc_pending_cancellations := AList.delete (rt_session_id c) (sc_pending_cancellations (f s1))\<rparr>)"
    by (simp add: finish_active_def sched_bind_def[of "take_control c"] a(1) Let_def fin_def terminal_def store pend(2)[symmetric])
      (simp add: f_def)
  then have "finish_active c (s\<lparr>sc_channel := rest\<rparr>) = (Inr fin,
      if rf_followup fin = None \<and> terminal then maybe_cleanup_control (rt_session_id c) s2 else s2)"
    using s2 pend(1) by (simp add: sched_bind_def)
  moreover have "map followup_command (followups fin)
       = (case map_of (sc_pending_cancellations s) (rt_session_id c) of None \<Rightarrow> [] | Some d \<Rightarrow> [d])"
    by (simp add: fin_def followups_def followup_command_def split: option.split)
  ultimately show ?thesis using that[of f a s2 fin] s2 by (auto simp: f_def split: if_splits)
qed

text \<open>Waiting commands have a reason to wait: their session is active, or every permit is taken.\<close>

definition waits_rightly :: "runtime_scheduler \<Rightarrow> bool" where
  "waits_rightly s \<longleftrightarrow> (\<forall>q \<in> set (sc_queued s). is_active (qr_session q) s \<or> sc_permits s = 0)"

lemma drain_loop_waits:
  "\<lbrakk>scheduler_ok s; sc_queued s = xs @ ys; length xs = n; \<forall>q \<in> set ys. is_active (qr_session q) s;
    drain_loop n s = (Inr (), s')\<rbrakk> \<Longrightarrow> waits_rightly s'"
proof (induction n arbitrary: s xs ys)
  case 0
  then show ?case by (auto simp: waits_rightly_def)
next
  case (Suc n)
  then obtain q xs' where xs: "xs = q # xs'" "length xs' = n" by (cases xs) auto
  then have q: "sc_queued s = q # (xs' @ ys)" using Suc.prems(2) by simp
  let ?t = "s\<lparr>sc_queued := xs' @ ys\<rparr>"
  note pop = popped_ok[OF Suc.prems(1) q]
  have ctl: "map_of (sc_controls ?t) (qr_session q) = Some (qr_control q)" using pop(3) by simp
  have continue: "waits_rightly s'" if charge: "takes_charge (qr_id q) m ?t"
    and kept: "\<And>s1. m ?t = (Inr (), s1) \<Longrightarrow> sc_queued s1 = xs' @ ys"
    and run: "sched_bind m (\<lambda>_. drain_loop n) ?t = (Inr (), s')" for m
  proof -
    obtain s1 where s1: "m ?t = (Inr (), s1)" "scheduler_ok s1" "moved s s1"
      using charge by (auto simp: takes_charge_def)
    have "\<forall>q \<in> set ys. is_active (qr_session q) s1" using Suc.prems(4) s1(3) by (simp add: moved_def)
    then show ?thesis using Suc.IH[OF s1(2) kept[OF s1(1)] xs(2)] run s1(1) by (simp add: sched_bind_def)
  qed
  consider (suppress) "cancelled ?t (qr_control q)" "\<not> is_cancel (ce_command (qr_command q))"
    | (rotate) "\<not> (cancelled ?t (qr_control q) \<and> \<not> is_cancel (ce_command (qr_command q)))" "is_active (qr_session q) ?t"
    | (full) "\<not> (cancelled ?t (qr_control q) \<and> \<not> is_cancel (ce_command (qr_command q)))" "\<not> is_active (qr_session q) ?t" "sc_permits ?t = 0"
    | (spawn) "is_cancel (ce_command (qr_command q)) \<or> \<not> cancelled ?t (qr_control q)" "\<not> is_active (qr_session q) ?t" "sc_permits ?t \<noteq> 0"
    by blast
  then show ?case
  proof cases
    case suppress
    have "sc_receiving ?t" using pop(1) by (simp add: scheduler_ok_def)
    then show ?thesis
      using continue[OF suppress_takes_charge[OF pop(1,2) ctl]] Suc.prems(5) suppress
      by (simp add: q suppress_run)
  next
    case rotate
    let ?r = "s\<lparr>sc_queued := xs' @ ys @ [q]\<rparr>"
    have act: "\<forall>q \<in> set (ys @ [q]). is_active (qr_session q) ?r"
      using Suc.prems(4) rotate by (simp add: is_active_def)
    have run: "drain_loop n ?r = (Inr (), s')"
      using Suc.prems(5) rotate by (simp add: q Let_def split: if_splits)
    have "scheduler_ok ?r" using rotate_ok(1)[OF Suc.prems(1) q] by simp
    from Suc.IH[OF this _ xs(2) act run] show ?thesis by simp
  next
    case full
    then show ?thesis using Suc.prems(5) by (auto simp: q Let_def waits_rightly_def split: if_splits)
  next
    case spawn
    note charge = spawn_takes_charge[OF pop(1,2) ctl spawn(2,3,1)]
    have "sched_bind (\<lambda>s. spawn_runtime (qr_command q) (qr_control q) (s\<lparr>sc_permits := sc_permits s - 1\<rparr>)) (\<lambda>_. drain_loop n) ?t = (Inr (), s')"
      using Suc.prems(5) spawn by (auto simp: q Let_def sched_bind_def)
    moreover have "sc_queued s1 = xs' @ ys" if "spawn_runtime (qr_command q) (qr_control q) (?t\<lparr>sc_permits := sc_permits ?t - 1\<rparr>) = (Inr (), s1)" for s1
      using that by (auto simp: spawn_runtime_def Let_def split: if_splits)
    ultimately show ?thesis using continue[OF charge] by blast
  qed
qed

lemma drain_queue_waits: "scheduler_ok s \<Longrightarrow> drain_queue s = (Inr (), s') \<Longrightarrow> waits_rightly s'"
  using drain_loop_waits[of s "sc_queued s" "[]" "length (sc_queued s)" s'] by (simp add: drain_queue_def)

lemma released_load:
  assumes "scheduler_ok s" "sc_channel s = c # rest"
  shows "load (released c s) + 1 + 5 * length (pending_ids s (rt_session_id c)) = load s"
proof (cases "map_of (sc_pending_cancellations s) (rt_session_id c)")
  case None
  then show ?thesis using assms(2) by (simp add: pending_ids_def released_def load_def delete_absent Let_def)
next
  case (Some d)
  have "distinct (map fst (sc_pending_cancellations s))" using assms(1) by (simp add: scheduler_ok_def pending_ok_def)
  from arg_cong[OF mset_delete[OF Some this], of size]
  show ?thesis using assms(2) Some by (simp add: pending_ids_def released_def load_def Let_def)
qed

text \<open>Receiving a completion succeeds, gives up exactly that command and the pending cancellation that it
  releases, and starts no cancelled work.\<close>

lemma finish_active_ok:
  assumes ok: "scheduler_ok s" and ch: "sc_channel s = c # rest"
  shows "\<exists>fin s' new. finish_active c (s\<lparr>sc_channel := rest\<rparr>) = (Inr fin, s') \<and> scheduler_ok s'
    \<and> mset (in_custody s) = add_mset (rt_command_id c)
        (mset (map (ce_command_id \<circ> followup_command) (followups fin)) + mset (in_custody s'))
    \<and> sc_workers s' = sc_workers s @ new \<and> (\<forall>w \<in> set new. may_start s' w)
    \<and> (\<forall>x. session_cancelled s x \<longrightarrow> session_cancelled s' x \<or> idle x s')
    \<and> load s' + 4 * length (followups fin) < load s \<and> waits_rightly s'"
proof -
  obtain a f s2 fin where st:
    "f = id \<or> f = on_control a (\<lambda>ct. snd (mark_terminal_fact_emitted ct))" "drain_queue (f (released c s)) = (Inr (), s2)"
    "finish_active c (s\<lparr>sc_channel := rest\<rparr>) = (Inr fin, s2)
     \<or> finish_active c (s\<lparr>sc_channel := rest\<rparr>) = (Inr fin, maybe_cleanup_control (rt_session_id c) s2)"
    "map followup_command (followups fin)
       = (case map_of (sc_pending_cancellations s) (rt_session_id c) of None \<Rightarrow> [] | Some d \<Rightarrow> [d])"
    by (rule finish_active_stages[OF assms])
  define s1 where "s1 = f (released c s)"
  have "cancelled s1 b = cancelled (released c s) b" for b using st(1) cancelled_ops(3) by (auto simp: s1_def)
  moreover have "cancelled (released c s) b = cancelled s b" for b by (simp add: released_def Let_def cancelled_def)
  moreover have "sc_controls s1 = sc_controls s" using st(1) by (auto simp: s1_def released_def Let_def)
  ultimately have flags: "session_cancelled s1 x = session_cancelled s x" for x by (simp add: session_cancelled_def)
  have s1: "scheduler_ok s1" "in_custody s1 = in_custody (released c s)" "sc_workers s1 = sc_workers s"
    using st(1) released_ok[OF assms] by (auto simp: s1_def in_custody_def released_def Let_def)
  have s2: "scheduler_ok s2" "moved s1 s2" "mset (in_custody s2) = mset (in_custody s1)" "load s2 \<le> load s1"
    using drain_queue_ok[OF s1(1)] st(2) by (auto simp: s1_def)
  have s2w: "waits_rightly s2" using drain_queue_waits[OF s1(1)] st(2) by (simp add: s1_def)
  have "load s1 = load (released c s)" using st(1) by (auto simp: s1_def load_def)
  have ids: "map (ce_command_id \<circ> followup_command) (followups fin) = pending_ids s (rt_session_id c)"
    using arg_cong[OF st(4), of "map ce_command_id"] by (simp add: pending_ids_def split: option.split)
  have lighter: "load s2 + 4 * length (followups fin) < load s"
    using released_load[OF assms] s2(4) \<open>load s1 = load (released c s)\<close> arg_cong[OF ids, of length] by simp
  from ids have m: "mset (in_custody s) = add_mset (rt_command_id c)
      (mset (map (ce_command_id \<circ> followup_command) (followups fin)) + mset (in_custody s2))"
    using released_custody[OF assms] s2(3) s1(2) by simp
  have adv: "advanced s s2" using moved_advanced[OF s1(3) _ s2(2)] flags by simp
  then obtain new where new: "sc_workers s2 = sc_workers s @ new" "\<forall>w \<in> set new. may_start s2 w"
    "\<forall>x. session_cancelled s x \<longrightarrow> session_cancelled s2 x"
    unfolding advanced_def by blast
  note cl = cleanup_ok[OF s2(1), where sid = "rt_session_id c"]
  have started: "\<forall>w \<in> set new. may_start (maybe_cleanup_control (rt_session_id c) s2) w"
    using new(2) cl(4) by (simp add: may_start_def)
  show ?thesis
    using st(3)
  proof
    assume "finish_active c (s\<lparr>sc_channel := rest\<rparr>) = (Inr fin, s2)"
    then show ?thesis using s2(1) s2w lighter m new by blast
  next
    assume run: "finish_active c (s\<lparr>sc_channel := rest\<rparr>) = (Inr fin, maybe_cleanup_control (rt_session_id c) s2)"
    have flags': "\<forall>x. session_cancelled s x \<longrightarrow> session_cancelled (maybe_cleanup_control (rt_session_id c) s2) x
        \<or> idle x (maybe_cleanup_control (rt_session_id c) s2)" using new(3) cl(5) by blast
    show ?thesis
      by (intro exI[of _ fin] exI[of _ "maybe_cleanup_control (rt_session_id c) s2"] exI[of _ new] conjI)
        (use run cl m new(1) started flags' lighter s2w in
          \<open>simp_all add: load_def waits_rightly_def is_active_def\<close>)
  qed
qed

lemma request_shutdown_ok:
  assumes "scheduler_ok s"
  shows "scheduler_ok (request_shutdown s)" "in_custody (request_shutdown s) = in_custody s"
    "sc_workers (request_shutdown s) = sc_workers s" "sc_queued (request_shutdown s) = sc_queued s"
    "sc_channel (request_shutdown s) = sc_channel s" "sc_permits (request_shutdown s) = sc_permits s"
    "sc_active (request_shutdown s) = sc_active s"
    "session_cancelled s x \<Longrightarrow> session_cancelled (request_shutdown s) x"
proof -
  define g where "g = (\<lambda>a s. let s = on_control a request_cancellation s
    in s\<lparr>sc_interrupts := sc_interrupts s @ [ct_session_id (sc_store s ! a)]\<rparr>)"
  have one: "scheduler_ok (g a t) = scheduler_ok t \<and> in_custody (g a t) = in_custody t \<and> sc_workers (g a t) = sc_workers t
      \<and> sc_queued (g a t) = sc_queued t \<and> sc_channel (g a t) = sc_channel t \<and> sc_permits (g a t) = sc_permits t
      \<and> sc_active (g a t) = sc_active t \<and> (session_cancelled t x \<longrightarrow> session_cancelled (g a t) x)" for a t
  proof -
    have "scheduler_ok (g a t) = scheduler_ok (on_control a request_cancellation t)"
      by (simp add: g_def Let_def scheduler_ok_defs in_custody_def is_active_def)
    moreover have "cancelled t b \<Longrightarrow> cancelled (g a t) b" for b
      by (cases "a < length (sc_store t)"; cases "a = b")
        (auto simp: g_def Let_def cancelled_def on_control_def request_cancellation_def list_update_beyond)
    ultimately show ?thesis by (auto simp: g_def Let_def in_custody_def session_cancelled_def)
  qed
  have all: "scheduler_ok (fold g as t) = scheduler_ok t \<and> in_custody (fold g as t) = in_custody t
      \<and> sc_workers (fold g as t) = sc_workers t \<and> sc_queued (fold g as t) = sc_queued t
      \<and> sc_channel (fold g as t) = sc_channel t \<and> sc_permits (fold g as t) = sc_permits t
      \<and> sc_active (fold g as t) = sc_active t \<and> (session_cancelled t x \<longrightarrow> session_cancelled (fold g as t) x)" for as t
    by (induction as arbitrary: t) (use one in auto)
  have run: "request_shutdown s = fold g (map (ar_control \<circ> snd) (sc_active s)) s"
    by (simp add: request_shutdown_def g_def)
  show "scheduler_ok (request_shutdown s)" "in_custody (request_shutdown s) = in_custody s"
    "sc_workers (request_shutdown s) = sc_workers s" "sc_queued (request_shutdown s) = sc_queued s"
    "sc_channel (request_shutdown s) = sc_channel s" "sc_permits (request_shutdown s) = sc_permits s"
    "sc_active (request_shutdown s) = sc_active s"
    "session_cancelled s x \<Longrightarrow> session_cancelled (request_shutdown s) x"
    using all assms unfolding run by blast+
qed

end
