(* ===== verification/Scheduler_Runs.thy ===== *)
theory Scheduler_Runs
  imports Scheduler_Safety
begin

text \<open>
  Runs of the runtime scheduler in its environment, and what holds in all of them.

  \<^item> \<open>loop_state\<close> is the scheduler with the follow-ups that the transport task still has to carry out, and
    the history: the identities scheduled, finished and dropped so far.
  \<^item> \<open>settle_step\<close> is progress without new work: a worker finishes, a completion is received, a follow-up
    is carried out. \<open>scheduler_step\<close> adds new commands and the shutdown request.
  \<^item> The locale \<open>scheduler_invariant\<close> lifts what every step keeps to all reachable states.
\<close>

record loop_state =
  ls_scheduler :: runtime_scheduler
  ls_held :: "runtime_followup list"
  ls_ids :: "string list"
  ls_done :: "string list"
  ls_dropped :: "string list"

definition loop_start :: loop_state where
  "loop_start = \<lparr>ls_scheduler = new_scheduler, ls_held = [], ls_ids = [], ls_done = [], ls_dropped = []\<rparr>"

inductive settle_step :: "loop_state \<Rightarrow> loop_state \<Rightarrow> bool" where
  work: "w \<in> set (sc_workers (ls_scheduler x)) \<Longrightarrow> settle_step x (x\<lparr>ls_scheduler := worker_done w r (ls_scheduler x)\<rparr>)"
| receive: "sc_channel (ls_scheduler x) = c # rest
    \<Longrightarrow> finish_active c ((ls_scheduler x)\<lparr>sc_channel := rest\<rparr>) = (Inr fin, s')
    \<Longrightarrow> settle_step x (x\<lparr>ls_scheduler := s', ls_held := ls_held x @ followups fin, ls_done := ls_done x @ [rt_command_id c]\<rparr>)"
| finish: "FinishCancellation c \<in> set (ls_held x)
    \<Longrightarrow> settle_step x (x\<lparr>ls_scheduler := finish_followup c (ls_scheduler x),
          ls_held := remove1 (FinishCancellation c) (ls_held x), ls_done := ls_done x @ [ce_command_id c]\<rparr>)"
| reschedule: "RescheduleCancellation c \<in> set (ls_held x) \<Longrightarrow> schedule_runtime c (ls_scheduler x) = (r, s')
    \<Longrightarrow> settle_step x (x\<lparr>ls_scheduler := s', ls_held := remove1 (RescheduleCancellation c) (ls_held x)\<rparr>)"

inductive scheduler_step :: "loop_state \<Rightarrow> loop_state \<Rightarrow> bool" where
  admit: "ce_command_id c \<notin> set (ls_ids x) \<Longrightarrow> schedule c (ls_scheduler x) = (r, s')
    \<Longrightarrow> scheduler_step x (x\<lparr>ls_scheduler := s', ls_ids := ls_ids x @ [ce_command_id c],
          ls_dropped := (if superseded c (ls_scheduler x) then ls_dropped x @ [ce_command_id c] else ls_dropped x)\<rparr>)"
| settle: "settle_step x y \<Longrightarrow> scheduler_step x y"
| shutdown: "scheduler_step x (x\<lparr>ls_scheduler := request_shutdown (ls_scheduler x)\<rparr>)"

definition scheduler_reachable :: "loop_state \<Rightarrow> bool" where
  "scheduler_reachable x \<longleftrightarrow> scheduler_step\<^sup>*\<^sup>* loop_start x"

inductive_cases settle_stepE: "settle_step x y"
inductive_cases scheduler_stepE: "scheduler_step x y"

locale scheduler_invariant =
  fixes inv :: "loop_state \<Rightarrow> bool"
  assumes inv_start: "inv loop_start"
    and inv_step: "inv x \<Longrightarrow> scheduler_step x y \<Longrightarrow> inv y"
begin

lemma inv_run: "scheduler_step\<^sup>*\<^sup>* x y \<Longrightarrow> inv x \<Longrightarrow> inv y"
  by (induction rule: rtranclp_induct) (auto intro: inv_step)

lemma inv_reachable: "scheduler_reachable x \<Longrightarrow> inv x"
  using inv_run inv_start by (auto simp: scheduler_reachable_def)

end

section \<open>Nobody waits without a reason\<close>

definition conserving :: "runtime_scheduler \<Rightarrow> bool" where
  "conserving s \<longleftrightarrow> sc_channel s \<noteq> [] \<or> waits_rightly s"

lemma conserving_cong:
  "\<lbrakk>sc_channel s' = sc_channel s; sc_queued s' = sc_queued s; sc_permits s' = sc_permits s; sc_active s' = sc_active s\<rbrakk>
   \<Longrightarrow> conserving s' = conserving s"
  by (simp add: conserving_def waits_rightly_def is_active_def)

lemma inner_conserving:
  assumes "conserving s" "sc_receiving s" "schedule_runtime_inner c a s = (r, s')"
  shows "conserving s'"
proof -
  have "conserving (snd (suppress c a s))" using assms(2) by (simp add: suppress_run conserving_def)
  moreover have "is_active (ce_session_id c) s \<or> sc_permits s = 0 \<Longrightarrow> conserving (snd (enqueue c a s))"
    using assms(1) by (auto simp: enqueue_def conserving_def waits_rightly_def is_active_def)
  moreover have "conserving (snd (spawn_runtime c a (s\<lparr>sc_permits := sc_permits s - 1\<rparr>)))"
    if "\<not> is_active (ce_session_id c) s"
    using assms(1) that by (auto simp: spawn_runtime_def conserving_def waits_rightly_def is_active_def)
  ultimately show ?thesis
    using assms(3) by (auto simp: schedule_runtime_inner_def split: if_splits dest!: arg_cong[of _ _ snd])
qed

lemma suppress_all_conserving:
  "conserving s \<Longrightarrow> sc_receiving s \<Longrightarrow> conserving (snd (suppress_all qs s)) \<and> sc_receiving (snd (suppress_all qs s))"
  by (induction qs arbitrary: s) (simp_all add: sched_bind_def suppress_run conserving_def)

lemma control_for_conserving:
  "control_for c s = (a, s1) \<Longrightarrow> conserving s1 = conserving s \<and> sc_receiving s1 = sc_receiving s"
  by (auto simp: control_for_def conserving_def waits_rightly_def is_active_def split: option.splits)

lemma cancellation_conserving:
  assumes "conserving s" "sc_receiving s" "schedule_cancellation c a s = (r, s')"
  shows "conserving s'"
proof -
  define t where "t = (on_control a request_cancellation s)\<lparr>sc_interrupts := sc_interrupts s @ [ce_session_id c],
    sc_queued := filter (\<lambda>q. qr_session q \<noteq> ce_session_id c) (sc_queued s)\<rparr>"
  have t: "conserving t" "sc_receiving t"
    using assms(1,2) by (auto simp: t_def conserving_def waits_rightly_def is_active_def)
  have "conserving (t\<lparr>sc_pending_cancellations := p\<rparr>)" for p
    using t(1) by (simp add: conserving_def waits_rightly_def is_active_def)
  then show ?thesis
    using assms(3) t inner_conserving[OF t] suppress_all_conserving[of t] suppress_all_conserving[of "t\<lparr>sc_pending_cancellations := p\<rparr>" for p]
    by (auto simp: schedule_cancellation_def remove_queued_def Let_def on_control_def t_def split: if_splits
        dest!: arg_cong[of _ _ snd])
qed

lemma schedule_conserving:
  assumes "conserving s" "sc_receiving s" "schedule c s = (r, s')"
  shows "conserving s'"
proof -
  obtain a s1 where ctl: "control_for c s = (a, s1)" by (cases "control_for c s")
  have s1: "conserving s1" "sc_receiving s1" using control_for_conserving[OF ctl] assms by auto
  then show ?thesis
    using assms(3) inner_conserving[OF s1] cancellation_conserving[OF s1]
    by (auto simp: schedule_def ctl suppress_run conserving_def split: if_splits)
qed

section \<open>The invariant of the transport loop\<close>

definition held_ids :: "loop_state \<Rightarrow> string list" where
  "held_ids x = map (ce_command_id \<circ> followup_command) (ls_held x)"

text \<open>Every scheduled command is in custody, held as a follow-up, finished, or was dropped.\<close>

definition accounted :: "loop_state \<Rightarrow> bool" where
  "accounted x \<longleftrightarrow> distinct (ls_ids x)
     \<and> mset (ls_ids x) = mset (in_custody (ls_scheduler x)) + mset (held_ids x) + mset (ls_done x) + mset (ls_dropped x)"

definition loop_ok :: "loop_state \<Rightarrow> bool" where
  "loop_ok x \<longleftrightarrow> scheduler_ok (ls_scheduler x) \<and> conserving (ls_scheduler x) \<and> accounted x"

lemma accounted_notin_custody:
  assumes "accounted x" "cid \<notin> set (ls_ids x)"
  shows "cid \<notin> set (in_custody (ls_scheduler x))"
proof -
  have "set (in_custody (ls_scheduler x)) \<subseteq> set (ls_ids x)"
    using assms(1) by (metis (no_types, lifting) accounted_def mset_subset_eq_add_left set_mset_mono set_mset_mset union_assoc)
  with assms(2) show ?thesis by blast
qed

lemma held_remove1:
  assumes "f \<in> set (ls_held x)"
  shows "mset (held_ids x) = add_mset (ce_command_id (followup_command f))
    (mset (map (ce_command_id \<circ> followup_command) (remove1 f (ls_held x))))"
proof -
  have "mset (ls_held x) = add_mset f (mset (remove1 f (ls_held x)))" using assms by simp
  then show ?thesis by (metis comp_apply held_ids_def image_mset_add_mset mset_map)
qed

lemma accounted_notin_held:
  assumes "accounted x" "f \<in> set (ls_held x)"
  shows "ce_command_id (followup_command f) \<notin> set (in_custody (ls_scheduler x))"
proof -
  have "mset (ls_ids x) = mset (in_custody (ls_scheduler x) @ held_ids x @ ls_done x @ ls_dropped x)"
    using assms(1) by (simp add: accounted_def)
  then have "distinct (in_custody (ls_scheduler x) @ held_ids x @ ls_done x @ ls_dropped x)"
    using assms(1) mset_eq_imp_distinct_iff unfolding accounted_def by blast
  moreover have "ce_command_id (followup_command f) \<in> set (held_ids x)" using assms(2) by (simp add: held_ids_def)
  ultimately show ?thesis by auto
qed

text \<open>A settling step keeps the invariant and takes weight from the work that is left.\<close>

definition loop_load :: "loop_state \<Rightarrow> nat" where
  "loop_load x = load (ls_scheduler x) + 4 * length (ls_held x)"

definition settled_by :: "loop_state \<Rightarrow> loop_state \<Rightarrow> bool" where
  "settled_by x y \<longleftrightarrow> loop_ok y \<and> loop_load y < loop_load x
     \<and> (\<exists>new. set (sc_workers (ls_scheduler y)) \<subseteq> set (sc_workers (ls_scheduler x)) \<union> new
          \<and> (\<forall>w \<in> new. may_start (ls_scheduler y) w))
     \<and> (\<forall>sid. session_cancelled (ls_scheduler x) sid
          \<longrightarrow> session_cancelled (ls_scheduler y) sid \<or> idle sid (ls_scheduler y))"

lemma settle_step_ok:
  assumes "settle_step x y" and ok: "loop_ok x"
  shows "settled_by x y"
  using assms(1)
proof (cases rule: settle_step.cases)
  case (work w r)
  let ?s = "ls_scheduler x"
  have s: "scheduler_ok ?s" using ok by (simp add: loop_ok_def)
  note wok = worker_done_ok[OF s work(2), of r]
  have wd: "worker_done w r ?s = ?s\<lparr>sc_workers := remove1 w (sc_workers ?s), sc_permits := sc_permits ?s + 1,
      sc_channel := sc_channel ?s @ [worker_completion w r]\<rparr>"
    using s by (simp add: worker_done_def send_completion_def scheduler_ok_def)
  have "conserving (worker_done w r ?s)" by (simp add: wd conserving_def)
  moreover have "session_cancelled (worker_done w r ?s) sid = session_cancelled ?s sid" for sid
    by (simp add: wd session_cancelled_def cancelled_def)
  ultimately show ?thesis
    using work(1) ok wok set_remove1_subset[of w "sc_workers ?s"]
    by (auto simp: settled_by_def loop_ok_def accounted_def held_ids_def loop_load_def wd intro!: exI[of _ "{}"])
next
  case (receive c rest fin s')
  have s: "scheduler_ok (ls_scheduler x)" using ok by (simp add: loop_ok_def)
  obtain new where new: "scheduler_ok s'"
    "mset (in_custody (ls_scheduler x)) = add_mset (rt_command_id c)
        (mset (map (ce_command_id \<circ> followup_command) (followups fin)) + mset (in_custody s'))"
    "sc_workers s' = sc_workers (ls_scheduler x) @ new" "\<forall>w \<in> set new. may_start s' w"
    "\<forall>x'. session_cancelled (ls_scheduler x) x' \<longrightarrow> session_cancelled s' x' \<or> idle x' s'"
    "load s' + 4 * length (followups fin) < load (ls_scheduler x)" "waits_rightly s'"
    using finish_active_ok[OF s receive(2)] receive(3) by auto
  then show ?thesis
    using receive(1) ok
    by (auto simp: settled_by_def loop_ok_def accounted_def held_ids_def loop_load_def conserving_def intro!: exI[of _ "set new"])
next
  case (finish c)
  let ?s = "ls_scheduler x"
  have s: "scheduler_ok ?s" using ok by (simp add: loop_ok_def)
  note cl = cleanup_ok[OF s, where sid = "ce_session_id c"]
  have "conserving (maybe_cleanup_control (ce_session_id c) ?s)" using conserving_cong[of "maybe_cleanup_control (ce_session_id c) ?s" ?s] cl ok
    by (simp add: loop_ok_def)
  moreover have "load (maybe_cleanup_control (ce_session_id c) ?s) = load ?s" using cl by (simp add: load_def)
  moreover have "length (remove1 (FinishCancellation c) (ls_held x)) < length (ls_held x)"
    using finish(2) length_pos_if_in_set[OF finish(2)] by (simp add: length_remove1)
  ultimately show ?thesis
    using finish ok cl held_remove1[OF finish(2)]
    by (auto simp: settled_by_def loop_ok_def accounted_def held_ids_def loop_load_def finish_followup_def
        followup_command_def intro!: exI[of _ "{}"])
next
  case (reschedule c r s')
  let ?s = "ls_scheduler x"
  have s: "scheduler_ok ?s" using ok by (simp add: loop_ok_def)
  have "ce_command_id c \<notin> set (in_custody ?s)"
    using accounted_notin_held[OF _ reschedule(2)] ok by (simp add: loop_ok_def followup_command_def)
  from schedule_runtime_admitted[OF s this] reschedule(3) have
    new: "scheduler_ok s'" "advanced ?s s'" "mset (in_custody s') = add_mset (ce_command_id c) (mset (in_custody ?s))"
      "load s' \<le> load ?s + 3" by auto
  have "conserving s'"
  proof -
    obtain a s1 where ctl: "control_for c ?s = (a, s1)" by (cases "control_for c ?s")
    then show ?thesis
      using control_for_conserving[OF ctl] inner_conserving[of s1 c a r s'] reschedule(3) ok s
      by (simp add: schedule_runtime_def loop_ok_def scheduler_ok_def)
  qed
  moreover have "Suc (length (remove1 (RescheduleCancellation c) (ls_held x))) = length (ls_held x)"
    using reschedule(2) length_pos_if_in_set[OF reschedule(2)] by (simp add: length_remove1)
  moreover obtain n where "sc_workers s' = sc_workers ?s @ n" "\<forall>w \<in> set n. may_start s' w"
    "\<forall>sid. session_cancelled ?s sid \<longrightarrow> session_cancelled s' sid" using new(2) unfolding advanced_def by blast
  ultimately show ?thesis
    using reschedule(1) ok new(1,3,4) held_remove1[OF reschedule(2)]
    by (auto simp: settled_by_def loop_ok_def accounted_def held_ids_def loop_load_def followup_command_def
        intro!: exI[of _ "set n"])
qed

lemma admit_ok:
  assumes ok: "loop_ok x" and new: "ce_command_id c \<notin> set (ls_ids x)" and run: "schedule c (ls_scheduler x) = (r, s')"
  shows "r = Inr ()" "scheduler_ok s'" "conserving s'" "advanced (ls_scheduler x) s'"
    "is_cancel (ce_command c) \<Longrightarrow> session_cancelled s' (ce_session_id c)"
    "mset (in_custody s') = (if superseded c (ls_scheduler x) then mset (in_custody (ls_scheduler x))
       else add_mset (ce_command_id c) (mset (in_custody (ls_scheduler x))))"
proof -
  have s: "scheduler_ok (ls_scheduler x)" "conserving (ls_scheduler x)" "sc_receiving (ls_scheduler x)" "accounted x"
    using ok by (simp_all add: loop_ok_def scheduler_ok_def)
  show "conserving s'" by (rule schedule_conserving[OF s(2,3) run])
  from schedule_admitted[OF s(1) accounted_notin_custody[OF s(4) new]] run
  show "r = Inr ()" "scheduler_ok s'" "advanced (ls_scheduler x) s'"
    "is_cancel (ce_command c) \<Longrightarrow> session_cancelled s' (ce_session_id c)"
    "mset (in_custody s') = (if superseded c (ls_scheduler x) then mset (in_custody (ls_scheduler x))
       else add_mset (ce_command_id c) (mset (in_custody (ls_scheduler x))))"
    by (auto simp: admitted_def)
qed

text \<open>What every step of the loop keeps.\<close>

definition stepped :: "loop_state \<Rightarrow> loop_state \<Rightarrow> bool" where
  "stepped x y \<longleftrightarrow> loop_ok y
     \<and> (\<exists>new. set (sc_workers (ls_scheduler y)) \<subseteq> set (sc_workers (ls_scheduler x)) \<union> new
          \<and> (\<forall>w \<in> new. may_start (ls_scheduler y) w))
     \<and> (\<forall>sid. session_cancelled (ls_scheduler x) sid
          \<longrightarrow> session_cancelled (ls_scheduler y) sid \<or> idle sid (ls_scheduler y))
     \<and> set (ls_dropped x) \<subseteq> set (ls_dropped y)"

lemma settle_step_dropped: "settle_step x y \<Longrightarrow> ls_dropped y = ls_dropped x \<and> ls_ids y = ls_ids x"
  by (auto elim: settle_stepE)

lemma scheduler_step_ok:
  assumes "scheduler_step x y" and ok: "loop_ok x"
  shows "stepped x y"
  using assms(1)
proof (cases rule: scheduler_step.cases)
  case (admit c r s')
  note a = admit_ok[OF ok admit(2,3)]
  obtain n where "sc_workers s' = sc_workers (ls_scheduler x) @ n" "\<forall>w \<in> set n. may_start s' w"
    "\<forall>sid. session_cancelled (ls_scheduler x) sid \<longrightarrow> session_cancelled s' sid" using a(4) unfolding advanced_def by blast
  then show ?thesis
    using admit(1,2) ok a(2,3,6)
    by (auto simp: stepped_def loop_ok_def accounted_def held_ids_def intro!: exI[of _ "set n"])
next
  case settle
  then show ?thesis using settle_step_ok[OF settle ok] settle_step_dropped[OF settle]
    by (simp add: settled_by_def stepped_def)
next
  case shutdown
  have "scheduler_ok (ls_scheduler x)" using ok by (simp add: loop_ok_def)
  note sh = request_shutdown_ok[OF this]
  show ?thesis
    using shutdown ok sh conserving_cong[OF sh(5,4,6,7)]
    by (auto simp: stepped_def loop_ok_def accounted_def held_ids_def intro!: exI[of _ "{}"])
qed

lemma loop_start_ok: "loop_ok loop_start"
  by (simp add: loop_ok_def loop_start_def new_scheduler_def scheduler_ok_defs in_custody_def conserving_def
      waits_rightly_def accounted_def held_ids_def)

interpretation loop: scheduler_invariant loop_ok
proof
  show "loop_ok loop_start" by (rule loop_start_ok)
  show "loop_ok y" if "loop_ok x" "scheduler_step x y" for x y
    using scheduler_step_ok[OF that(2,1)] by (simp add: stepped_def)
qed

lemma settle_enabled:
  assumes ok: "loop_ok x" and left: "in_custody (ls_scheduler x) \<noteq> [] \<or> ls_held x \<noteq> []"
  shows "\<exists>y. settle_step x y"
proof -
  let ?s = "ls_scheduler x"
  have s: "scheduler_ok ?s" "conserving ?s" using ok by (simp_all add: loop_ok_def)
  have active: "sc_workers ?s \<noteq> [] \<or> sc_channel ?s \<noteq> []" if "is_active sid ?s" for sid
    using s(1) that by (fastforce simp: scheduler_ok_def completions_ok_def is_active_def)
  show ?thesis
  proof (cases "ls_held x")
    case (Cons f fs)
    then have f: "f \<in> set (ls_held x)" by simp
    show ?thesis
    proof (cases f)
      case (FinishCancellation c)
      then show ?thesis using settle_step.finish f by blast
    next
      case (RescheduleCancellation c)
      obtain r s' where "schedule_runtime c ?s = (r, s')" by (cases "schedule_runtime c ?s")
      then show ?thesis using settle_step.reschedule f RescheduleCancellation by blast
    qed
  next
    case Nil
    have "sc_workers ?s \<noteq> [] \<or> sc_channel ?s \<noteq> []"
    proof (rule ccontr)
      assume "\<not> ?thesis"
      then have none: "sc_workers ?s = []" "sc_channel ?s = []" by simp_all
      then have "sc_permits ?s \<noteq> 0" using s(1) by (simp add: scheduler_ok_def workers_ok_def MAX_RUNTIME_CONCURRENCY_def)
      then have "sc_queued ?s = []"
        using s(2) none active by (cases "sc_queued ?s") (auto simp: conserving_def waits_rightly_def)
      then obtain sid c where "(sid, c) \<in> set (sc_pending_cancellations ?s)"
        using left Nil none by (cases "sc_pending_cancellations ?s") (auto simp: in_custody_def)
      then show False using s(1) none active by (fastforce simp: scheduler_ok_def pending_ok_def)
    qed
    then show ?thesis
    proof
      assume "sc_workers ?s \<noteq> []"
      then show ?thesis by (metis settle_step.work list.set_sel(1))
    next
      assume "sc_channel ?s \<noteq> []"
      then obtain c rest where ch: "sc_channel ?s = c # rest" by (cases "sc_channel ?s") auto
      then show ?thesis using finish_active_ok[OF s(1) ch] settle_step.receive[OF ch] by blast
    qed
  qed
qed

lemma settles:
  "loop_ok x \<Longrightarrow> \<exists>y. settle_step\<^sup>*\<^sup>* x y \<and> loop_ok y \<and> in_custody (ls_scheduler y) = [] \<and> ls_held y = []
     \<and> ls_ids y = ls_ids x \<and> ls_dropped y = ls_dropped x"
proof (induction "loop_load x" arbitrary: x rule: less_induct)
  case less
  show ?case
  proof (cases "in_custody (ls_scheduler x) \<noteq> [] \<or> ls_held x \<noteq> []")
    case True
    from settle_enabled[OF less.prems this] obtain y where y: "settle_step x y" by blast
    then have "settled_by x y" by (rule settle_step_ok[OF _ less.prems])
    with less.hyps[of y] obtain z where "settle_step\<^sup>*\<^sup>* y z" "loop_ok z" "in_custody (ls_scheduler z) = []" "ls_held z = []"
      "ls_ids z = ls_ids y" "ls_dropped z = ls_dropped y" by (auto simp: settled_by_def)
    then show ?thesis using y settle_step_dropped[OF y] converse_rtranclp_into_rtranclp[of settle_step x y z] by auto
  qed (use less.prems in auto)
qed

section \<open>Properties\<close>

text \<open>A sample run: a command starts, its cancellation waits for it, and a second cancellation arrives.\<close>

definition scheduler_sample :: "string \<Rightarrow> bool \<Rightarrow> command_envelope" where
  "scheduler_sample cid cancel =
     \<lparr>ce_command_id = cid, ce_session_id = ''s'', ce_server_command_seq = 1, ce_sent_at = ''t'', ce_schema_version = SCHEMA_VERSION,
      ce_command = (if cancel then SessionCancel ''stop'' else SessionResume)\<rparr>"

definition loop_admit :: "command_envelope \<Rightarrow> loop_state \<Rightarrow> loop_state" where
  "loop_admit c x = x\<lparr>ls_scheduler := snd (schedule c (ls_scheduler x)), ls_ids := ls_ids x @ [ce_command_id c],
     ls_dropped := (if superseded c (ls_scheduler x) then ls_dropped x @ [ce_command_id c] else ls_dropped x)\<rparr>"

lemma loop_admit_step: "ce_command_id c \<notin> set (ls_ids x) \<Longrightarrow> scheduler_step x (loop_admit c x)"
  unfolding loop_admit_def by (rule scheduler_step.admit[where r = "fst (schedule c (ls_scheduler x))"]) simp_all

lemma loop_admit_reachable:
  "scheduler_reachable x \<Longrightarrow> ce_command_id c \<notin> set (ls_ids x) \<Longrightarrow> scheduler_reachable (loop_admit c x)"
  using loop_admit_step by (auto simp: scheduler_reachable_def intro: rtranclp.rtrancl_into_rtrancl)

lemma loop_start_reachable: "scheduler_reachable loop_start"
  by (simp add: scheduler_reachable_def)

definition loop_sample :: loop_state where
  "loop_sample = loop_admit (scheduler_sample ''b'' True) (loop_admit (scheduler_sample ''a'' False) loop_start)"

lemma loop_sample_reachable: "scheduler_reachable loop_sample"
  unfolding loop_sample_def
  by (intro loop_admit_reachable loop_start_reachable)
    (simp_all add: loop_admit_def loop_start_def scheduler_sample_def)

lemma scheduler_sample_fields:
  "ce_command_id (scheduler_sample cid b) = cid" "ce_session_id (scheduler_sample cid b) = ''s''"
  "is_cancel (ce_command (scheduler_sample cid True))"
  by (simp_all add: scheduler_sample_def is_cancel_def)

lemma loop_sample_ids: "ls_ids loop_sample = [''a'', ''b'']"
  by (simp add: loop_sample_def loop_admit_def loop_start_def scheduler_sample_fields)

text \<open>C4. The scheduler never fails. While commands are scheduled under fresh identities, scheduling a
  command, receiving a completion and rescheduling a cancellation all succeed: no completion is for an
  inactive session or another command, and no session is started twice. (An error of these calls ends
  the daemon.)\<close>

theorem scheduler_never_fails:
  assumes "scheduler_reachable x"
  shows "(\<forall>c. ce_command_id c \<notin> set (ls_ids x) \<longrightarrow> fst (schedule c (ls_scheduler x)) = Inr ())
    \<and> (\<forall>c rest. sc_channel (ls_scheduler x) = c # rest
         \<longrightarrow> (\<exists>fin. fst (finish_active c ((ls_scheduler x)\<lparr>sc_channel := rest\<rparr>)) = Inr fin))
    \<and> (\<forall>c. RescheduleCancellation c \<in> set (ls_held x) \<longrightarrow> fst (schedule_runtime c (ls_scheduler x)) = Inr ())"
proof -
  have ok: "loop_ok x" by (rule loop.inv_reachable[OF assms])
  then have s: "scheduler_ok (ls_scheduler x)" "accounted x" by (simp_all add: loop_ok_def)
  have "fst (schedule c (ls_scheduler x)) = Inr ()" if "ce_command_id c \<notin> set (ls_ids x)" for c
    using admit_ok(1)[OF ok that] by (cases "schedule c (ls_scheduler x)") simp
  moreover have "\<exists>fin. fst (finish_active c ((ls_scheduler x)\<lparr>sc_channel := rest\<rparr>)) = Inr fin"
    if "sc_channel (ls_scheduler x) = c # rest" for c rest
    using finish_active_ok[OF s(1) that] by fastforce
  moreover have "fst (schedule_runtime c (ls_scheduler x)) = Inr ()" if "RescheduleCancellation c \<in> set (ls_held x)" for c
    using schedule_runtime_admitted[OF s(1)] accounted_notin_held[OF s(2) that] by (fastforce simp: followup_command_def)
  ultimately show ?thesis by blast
qed

theorem scheduler_never_fails_witness:
  "fst (schedule (scheduler_sample ''c'' False) (ls_scheduler loop_sample)) = Inr ()"
  using scheduler_never_fails[OF loop_sample_reachable] by (simp add: loop_sample_ids scheduler_sample_fields)

text \<open>C5. Workers are bounded. In every reachable state at most four workers run, the free permits are the
  rest of the four, no two workers serve the same session, and each worker is the registered active
  runtime of its session.\<close>

theorem workers_bounded:
  assumes "scheduler_reachable x"
  shows "length (sc_workers (ls_scheduler x)) \<le> MAX_RUNTIME_CONCURRENCY
    \<and> sc_permits (ls_scheduler x) = MAX_RUNTIME_CONCURRENCY - length (sc_workers (ls_scheduler x))
    \<and> distinct (map qr_session (sc_workers (ls_scheduler x)))
    \<and> (\<forall>w \<in> set (sc_workers (ls_scheduler x)). map_of (sc_active (ls_scheduler x)) (qr_session w)
         = Some \<lparr>ar_command_id = qr_id w, ar_control = qr_control w\<rparr>)"
proof -
  have s: "scheduler_ok (ls_scheduler x)" using loop.inv_reachable[OF assms] by (simp add: loop_ok_def)
  then have w: "workers_ok (ls_scheduler x)" "distinct (map qr_id (sc_workers (ls_scheduler x)))"
    by (simp_all add: scheduler_ok_def in_custody_def)
  have "inj_on qr_session (set (sc_workers (ls_scheduler x)))"
  proof (rule inj_onI)
    fix v u assume *: "v \<in> set (sc_workers (ls_scheduler x))" "u \<in> set (sc_workers (ls_scheduler x))" "qr_session v = qr_session u"
    then have "map_of (sc_active (ls_scheduler x)) (qr_session u) = Some \<lparr>ar_command_id = qr_id v, ar_control = qr_control v\<rparr>"
      "map_of (sc_active (ls_scheduler x)) (qr_session u) = Some \<lparr>ar_command_id = qr_id u, ar_control = qr_control u\<rparr>"
      using w(1) unfolding workers_ok_def by metis+
    then have "qr_id v = qr_id u" by simp
    then show "v = u" using w(2) * by (auto simp: distinct_map dest: inj_onD)
  qed
  then have "distinct (map qr_session (sc_workers (ls_scheduler x)))" using w(2) by (simp add: distinct_map)
  then show ?thesis using w(1) by (auto simp: workers_ok_def)
qed

theorem workers_bounded_witness:
  "length (sc_workers (ls_scheduler loop_sample)) \<le> MAX_RUNTIME_CONCURRENCY"
  using workers_bounded[OF loop_sample_reachable] by simp

text \<open>C6. Cancelled work never starts. A worker that a step starts in a session whose cancellation stands
  runs a cancellation command; scheduling a cancellation makes it stand; and it stands until nothing of
  the session runs, waits or is pending.\<close>

theorem cancelled_work_never_starts:
  assumes "scheduler_reachable x" "scheduler_step x y"
  shows "(\<forall>w \<in> set (sc_workers (ls_scheduler y)) - set (sc_workers (ls_scheduler x)).
           session_cancelled (ls_scheduler y) (qr_session w) \<longrightarrow> is_cancel (ce_command (qr_command w)))
    \<and> (\<forall>c. ce_command_id c \<notin> set (ls_ids x) \<and> is_cancel (ce_command c)
         \<longrightarrow> session_cancelled (snd (schedule c (ls_scheduler x))) (ce_session_id c))
    \<and> (\<forall>sid. session_cancelled (ls_scheduler x) sid
         \<longrightarrow> session_cancelled (ls_scheduler y) sid \<or> idle sid (ls_scheduler y))"
proof -
  have ok: "loop_ok x" by (rule loop.inv_reachable[OF assms(1)])
  have y: "stepped x y" by (rule scheduler_step_ok[OF assms(2) ok])
  then have s: "scheduler_ok (ls_scheduler y)" by (simp add: stepped_def loop_ok_def)
  have "is_cancel (ce_command (qr_command w))"
    if w: "w \<in> set (sc_workers (ls_scheduler y)) - set (sc_workers (ls_scheduler x))"
      and c: "session_cancelled (ls_scheduler y) (qr_session w)" for w
  proof -
    have "map_of (sc_controls (ls_scheduler y)) (qr_session w) = Some (qr_control w)"
      using s w unfolding scheduler_ok_def workers_ok_def controls_ok_def by fastforce
    then have "cancelled (ls_scheduler y) (qr_control w)" using c by (simp add: session_cancelled_def)
    moreover have "may_start (ls_scheduler y) w" using y w unfolding stepped_def by blast
    ultimately show ?thesis by (simp add: may_start_def)
  qed
  moreover have "session_cancelled (snd (schedule c (ls_scheduler x))) (ce_session_id c)"
    if "ce_command_id c \<notin> set (ls_ids x)" "is_cancel (ce_command c)" for c
    using admit_ok(5)[OF ok that(1) _ that(2)] by (cases "schedule c (ls_scheduler x)") simp
  ultimately show ?thesis using y by (simp add: stepped_def)
qed

theorem cancelled_work_never_starts_witness:
  "session_cancelled (snd (schedule (scheduler_sample ''c'' True) (ls_scheduler loop_sample))) ''s''"
proof -
  let ?c = "scheduler_sample ''c'' True"
  have "ce_command_id ?c \<notin> set (ls_ids loop_sample) \<and> is_cancel (ce_command ?c)"
    by (simp add: loop_sample_ids scheduler_sample_fields)
  then have "session_cancelled (snd (schedule ?c (ls_scheduler loop_sample))) (ce_session_id ?c)"
    using cancelled_work_never_starts[OF loop_sample_reachable scheduler_step.shutdown] by blast
  then show ?thesis by (simp add: scheduler_sample_fields)
qed

text \<open>C7. Scheduled work completes. While a command is in custody or a follow-up is held, some progress
  step is possible (a worker finishes, a completion is received, a follow-up is carried out), and each
  one decreases the load; so the progress steps end with nothing left, and then every scheduled command
  is finished exactly once or was dropped as a second cancellation.\<close>

theorem scheduled_work_completes:
  assumes "scheduler_reachable x"
  shows "(\<forall>y. settle_step x y \<longrightarrow> loop_load y < loop_load x)
    \<and> (in_custody (ls_scheduler x) \<noteq> [] \<or> ls_held x \<noteq> [] \<longrightarrow> (\<exists>y. settle_step x y))
    \<and> (\<exists>y. settle_step\<^sup>*\<^sup>* x y \<and> in_custody (ls_scheduler y) = [] \<and> ls_held y = []
         \<and> mset (ls_done y) + mset (ls_dropped x) = mset (ls_ids x) \<and> distinct (ls_ids x))"
proof -
  have ok: "loop_ok x" by (rule loop.inv_reachable[OF assms])
  obtain y where y: "settle_step\<^sup>*\<^sup>* x y" "loop_ok y" "in_custody (ls_scheduler y) = []" "ls_held y = []"
    "ls_ids y = ls_ids x" "ls_dropped y = ls_dropped x" using settles[OF ok] by blast
  then have "mset (ls_done y) + mset (ls_dropped x) = mset (ls_ids x) \<and> distinct (ls_ids x)"
    by (simp add: loop_ok_def accounted_def held_ids_def)
  then show ?thesis
    using y settle_enabled[OF ok] settle_step_ok[OF _ ok] by (auto simp: settled_by_def)
qed

theorem scheduled_work_completes_witness:
  "\<exists>y. settle_step\<^sup>*\<^sup>* loop_sample y \<and> in_custody (ls_scheduler y) = [] \<and> ls_held y = []"
  using scheduled_work_completes[OF loop_sample_reachable] by blast

text \<open>C39. A second cancellation is lost. When a cancellation is scheduled for a session whose cancellation is
  already pending, scheduling reports success, but the scheduler takes no charge of the command: it is
  neither in custody nor held nor finished, then or in any later state, so no completion of it is ever
  reported.\<close>

theorem second_cancellation_lost:
  assumes "scheduler_reachable x" "superseded c (ls_scheduler x)" "ce_command_id c \<notin> set (ls_ids x)"
    and "scheduler_step\<^sup>*\<^sup>* (loop_admit c x) y"
  shows "fst (schedule c (ls_scheduler x)) = Inr ()
    \<and> ce_command_id c \<notin> set (in_custody (ls_scheduler y)) \<union> set (held_ids y) \<union> set (ls_done y)"
proof -
  have ok: "loop_ok x" by (rule loop.inv_reachable[OF assms(1)])
  have ok1: "loop_ok (loop_admit c x)" using loop.inv_step[OF ok loop_admit_step[OF assms(3)]] .
  have "ce_command_id c \<in> set (ls_dropped y) \<and> loop_ok y"
    using assms(4)
  proof (induction rule: rtranclp_induct)
    case base
    then show ?case using assms(2) ok1 by (simp add: loop_admit_def)
  next
    case (step y z)
    then show ?case using scheduler_step_ok[OF step(2)] by (auto simp: stepped_def)
  qed
  then have d: "ce_command_id c \<in> set (ls_dropped y)" "accounted y" by (simp_all add: loop_ok_def)
  have "mset (ls_ids y) = mset (ls_dropped y @ in_custody (ls_scheduler y) @ held_ids y @ ls_done y)"
    using d(2) by (simp add: accounted_def)
  then have "distinct (ls_dropped y @ in_custody (ls_scheduler y) @ held_ids y @ ls_done y)"
    using d(2) mset_eq_imp_distinct_iff unfolding accounted_def by blast
  then show ?thesis
    using d(1) admit_ok(1)[OF ok assms(3)] by (cases "schedule c (ls_scheduler x)") auto
qed

theorem second_cancellation_lost_witness:
  "''c'' \<notin> set (in_custody (snd (schedule (scheduler_sample ''c'' True) (ls_scheduler loop_sample))))"
proof -
  have "superseded (scheduler_sample ''c'' True) (ls_scheduler loop_sample)" by code_simp
  from second_cancellation_lost[OF loop_sample_reachable this _ rtranclp.rtrancl_refl]
  show ?thesis by (simp add: loop_sample_ids scheduler_sample_fields loop_admit_def)
qed

end
