(* ===== verification/Daemon_Loop.thy ===== *)
theory Daemon_Loop
  imports Coordination Scheduler_Runs
begin

text \<open>
  The daemon's main loop, \<open>start\<close> in \<open>north-daemon/src/main.rs\<close>: it joins the coordinator with the runtime
  scheduler and the connection supervisor.

  \<^item> \<open>daemon\<close> is the state of the loop: the journal behind the coordinator, the scheduler, the frames sent
    to the supervisor, and what recovery left for the first handshake.
  \<^item> Each arm of the \<open>select!\<close> is an operation. \<open>None\<close> says that a coordinator call never returns; an
    error is the \<open>CliError\<close> that ends the process, with one constructor of \<open>daemon_exit\<close> per message.
  \<^item> Reading the state file, the command line, the heartbeat task and the terminal output are not
    modelled; \<open>boot_daemon\<close> starts after the journal was opened.
\<close>

section \<open>State\<close>

datatype daemon_exit =
    FinishScheduledRuntime string
  | FinishRuntimeCommand coordination_error
  | FinishCancellationCommand coordination_error
  | ScheduleCancellationCommand string
  | ScheduleRuntimeCommand string
  | ScheduleRecoveredCommand string
  | ReconcileJournal coordination_error
  | ProcessServerFrame coordination_error
  | SupervisorStopped string

record ('b, 'e) daemon =
  dm_journal :: "('b, 'e) journal_state"
  dm_scheduler :: runtime_scheduler
  dm_outbound :: "daemon_frame list"
  dm_supervised :: bool
  dm_close_requests :: nat
  dm_pending_frames :: "daemon_frame list"
  dm_pending_commands :: "command_envelope list"

type_synonym ('b, 'e, 'a) dm = "('b, 'e) daemon \<Rightarrow> ((daemon_exit + 'a) \<times> ('b, 'e) daemon) option"

definition dm_return :: "'a \<Rightarrow> ('b, 'e, 'a) dm" where
  "dm_return a d = Some (Inr a, d)"

definition dm_bind :: "('b, 'e, 'a) dm \<Rightarrow> ('a \<Rightarrow> ('b, 'e, 'c) dm) \<Rightarrow> ('b, 'e, 'c) dm" where
  "dm_bind m k d =
     (case m d of
        None \<Rightarrow> None
      | Some (Inl e, d') \<Rightarrow> Some (Inl e, d')
      | Some (Inr a, d') \<Rightarrow> k a d')"

text \<open>A call of the scheduler and a call of the coordinator, with \<open>map_err\<close> on the result.\<close>

definition on_scheduler :: "(string \<Rightarrow> daemon_exit) \<Rightarrow> 'a sched \<Rightarrow> ('b, 'e, 'a) dm" where
  "on_scheduler err m d = (case m (dm_scheduler d) of (r, s) \<Rightarrow> Some (map_err err r, d\<lparr>dm_scheduler := s\<rparr>))"

definition on_coordinator :: "(coordination_error \<Rightarrow> daemon_exit) \<Rightarrow> ('b, 'e, 'a) cm \<Rightarrow> ('b, 'e, 'a) dm" where
  "on_coordinator err m d =
     map_option (\<lambda>(r, st). (map_err err r, d\<lparr>dm_journal := st\<rparr>)) (m (dm_journal d))"

definition send_outbound :: "string \<Rightarrow> daemon_frame list \<Rightarrow> ('b, 'e, unit) dm" where
  "send_outbound err frames d =
     (if dm_supervised d \<or> frames = [] then Some (Inr (), d\<lparr>dm_outbound := dm_outbound d @ frames\<rparr>)
      else Some (Inl (SupervisorStopped err), d))"

primrec schedule_all :: "(string \<Rightarrow> daemon_exit) \<Rightarrow> command_envelope list \<Rightarrow> ('b, 'e, unit) dm" where
  "schedule_all err [] = dm_return ()"
| "schedule_all err (c # cs) = dm_bind (on_scheduler err (schedule c)) (\<lambda>_. schedule_all err cs)"

section \<open>Operations\<close>

definition emit_runtime_actions :: "runtime_actions \<Rightarrow> ('b, 'e, unit) dm" where
  "emit_runtime_actions actions =
     dm_bind (send_outbound ''supervisor stopped while sending runtime frame'' (ra_frames actions)) (\<lambda>_.
       schedule_all ScheduleRuntimeCommand (ra_commands actions))"

definition handle_followup :: "'b journal_env \<Rightarrow> runtime_followup \<Rightarrow> ('b, 'e, unit) dm" where
  "handle_followup env f =
     (case f of
        FinishCancellation c \<Rightarrow>
          dm_bind (on_coordinator FinishCancellationCommand
                     (finish_runtime env (ce_session_id c) (ce_command_id c) DispatchSucceeded [])) (\<lambda>actions.
          dm_bind (emit_runtime_actions actions) (\<lambda>_ d.
            Some (Inr (), d\<lparr>dm_scheduler := finish_followup c (dm_scheduler d)\<rparr>)))
      | RescheduleCancellation c \<Rightarrow> on_scheduler ScheduleCancellationCommand (schedule_runtime c))"

definition handle_completion :: "'b journal_env \<Rightarrow> runtime_completion \<Rightarrow> ('b, 'e, unit) dm" where
  "handle_completion env c =
     dm_bind (on_scheduler FinishScheduledRuntime (finish_active c)) (\<lambda>finished.
     dm_bind (on_coordinator FinishRuntimeCommand
                (finish_runtime env (rt_session_id c) (rt_command_id c) (rt_outcome c) (rt_events c))) (\<lambda>actions.
     dm_bind (emit_runtime_actions actions) (\<lambda>_.
       case rf_followup finished of None \<Rightarrow> dm_return () | Some f \<Rightarrow> handle_followup env f)))"

definition handle_handshake :: "'b journal_env \<Rightarrow> reconcile_snapshot \<Rightarrow> ('b, 'e, unit) dm" where
  "handle_handshake env snapshot =
     dm_bind (on_coordinator ReconcileJournal (reconcile env snapshot)) (\<lambda>actions d.
     let replay = ha_replay actions @ dm_pending_frames d; d = d\<lparr>dm_pending_frames := []\<rparr>
     in if \<not> dm_supervised d then Some (Inl (SupervisorStopped ''supervisor stopped during handshake''), d)
        else dm_bind (send_outbound ''supervisor stopped during event replay'' replay) (\<lambda>_ d.
               schedule_all ScheduleRecoveredCommand (dm_pending_commands d) (d\<lparr>dm_pending_commands := []\<rparr>)) d)"

definition handle_frame :: "'b journal_env \<Rightarrow> server_frame \<Rightarrow> ('b, 'e, unit) dm" where
  "handle_frame env frame d =
     (case accept_server_frame env frame (dm_journal d) of
        None \<Rightarrow> None
      | Some (Inr actions, st) \<Rightarrow> emit_runtime_actions actions (d\<lparr>dm_journal := st\<rparr>)
      | Some (Inl (RetryableGap _ _), st) \<Rightarrow>
          if dm_supervised d
          then emit_runtime_actions no_actions (d\<lparr>dm_journal := st, dm_close_requests := dm_close_requests d + 1\<rparr>)
          else Some (Inl (SupervisorStopped ''supervisor stopped at gap boundary''), d\<lparr>dm_journal := st\<rparr>)
      | Some (Inl e, st) \<Rightarrow>
          Some (Inl (ProcessServerFrame e), d\<lparr>dm_journal := st, dm_scheduler := request_shutdown (dm_scheduler d)\<rparr>))"

definition boot_daemon ::
  "'b journal_env \<Rightarrow> 'e runtime_executor \<Rightarrow> ('b, 'e) journal_state
   \<Rightarrow> ((coordination_error + ('b, 'e) daemon) \<times> ('b, 'e) journal_state) option" where
  "boot_daemon env ex st =
     map_option (\<lambda>(r, st'). (map_sum id (\<lambda>recovered.
         \<lparr>dm_journal = st', dm_scheduler = new_scheduler, dm_outbound = [], dm_supervised = True, dm_close_requests = 0,
          dm_pending_frames = ra_frames recovered, dm_pending_commands = ra_commands recovered\<rparr>) r, st'))
       (coord_recover_for_scheduler env ex st)"

section \<open>Runs\<close>

text \<open>A daemon boots from the disk that any earlier life left behind, also one that ended between two
  writes; then its handlers run, one at a time, while workers finish and the runtime changes its own state.\<close>

inductive daemon_reachable ::
  "'b journal_env \<Rightarrow> 'e runtime_executor \<Rightarrow> ('b, 'e) daemon \<Rightarrow> bool" for env ex where
  boot: "journal_reachable env (st :: ('b, 'e) journal_state) \<Longrightarrow> open_with_config env (js_disk st) clock writes x = Inr st1
    \<Longrightarrow> boot_daemon env ex st1 = Some (Inr d, st2) \<Longrightarrow> daemon_reachable env ex d"
| first: "open_with_config env None clock writes x = Inr st1
    \<Longrightarrow> boot_daemon env ex st1 = Some (Inr d, st2) \<Longrightarrow> daemon_reachable env ex d"
| completion: "daemon_reachable env ex d \<Longrightarrow> sc_channel (dm_scheduler d) = c # rest
    \<Longrightarrow> handle_completion env c (d\<lparr>dm_scheduler := (dm_scheduler d)\<lparr>sc_channel := rest\<rparr>\<rparr>) = Some (Inr (), d')
    \<Longrightarrow> daemon_reachable env ex d'"
| handshake: "daemon_reachable env ex d \<Longrightarrow> handle_handshake env snapshot d = Some (Inr (), d') \<Longrightarrow> daemon_reachable env ex d'"
| frame: "daemon_reachable env ex d \<Longrightarrow> handle_frame env frame d = Some (Inr (), d') \<Longrightarrow> daemon_reachable env ex d'"
| work: "daemon_reachable env ex d \<Longrightarrow> w \<in> set (sc_workers (dm_scheduler d))
    \<Longrightarrow> daemon_reachable env ex (d\<lparr>dm_scheduler := worker_done w r (dm_scheduler d)\<rparr>)"
| runtime: "daemon_reachable env ex d \<Longrightarrow> daemon_reachable env ex (d\<lparr>dm_journal := (dm_journal d)\<lparr>js_exec := x\<rparr>\<rparr>)"
| supervisor: "daemon_reachable env ex d \<Longrightarrow> daemon_reachable env ex (d\<lparr>dm_supervised := False\<rparr>)"

section \<open>The loop follows the scheduler's environment\<close>

text \<open>The labels of the journal's whole history, over all lives of the daemon.\<close>

definition labelled :: "'b journal_env \<Rightarrow> string list \<Rightarrow> ('b, 'e) journal_state \<Rightarrow> bool" where
  "labelled env ls st \<longleftrightarrow>
     (\<exists>clock writes x st0. open_with_config env None clock writes x = Inr st0 \<and> journal_trace env st0 ls st)"

lemma labelled_distinct:
  assumes "serde_roundtrip env" "labelled env ls st"
  shows "distinct ls"
proof -
  obtain clock writes x st0 where o: "open_with_config env None clock writes x = Inr st0" "journal_trace env st0 ls st"
    using assms(2) unfolding labelled_def by blast
  show ?thesis
    by (rule trace_dispatches_once[OF assms(1) o(2)], rule opened_held[OF o(1) assms(1)], rule default_unique_ids)
qed

lemma labelled_append: "labelled env ls st \<Longrightarrow> journal_trace env st ms st' \<Longrightarrow> labelled env (ls @ ms) st'"
  unfolding labelled_def using journal_trace_append by blast

text \<open>The daemon stands in state \<open>x\<close> of the scheduler's environment, with the follow-ups \<open>fs\<close> and with
  the released commands \<open>owed\<close> still to be scheduled; every identity was released by the journal, once.\<close>

definition tracks ::
  "'b journal_env \<Rightarrow> loop_state \<Rightarrow> runtime_followup list \<Rightarrow> string list \<Rightarrow> ('b, 'e) daemon \<Rightarrow> bool" where
  "tracks env x fs owed d \<longleftrightarrow> scheduler_reachable x \<and> ls_scheduler x = dm_scheduler d \<and> ls_held x = fs
     \<and> (\<exists>ls. labelled env ls (dm_journal d)
          \<and> mset (ls_ids x) + mset (map ce_command_id (dm_pending_commands d)) + mset owed \<subseteq># mset ls)"

definition scheduler_exit :: "daemon_exit \<Rightarrow> bool" where
  "scheduler_exit e = (case e of FinishScheduledRuntime _ \<Rightarrow> True | ScheduleCancellationCommand _ \<Rightarrow> True
     | ScheduleRuntimeCommand _ \<Rightarrow> True | ScheduleRecoveredCommand _ \<Rightarrow> True | _ \<Rightarrow> False)"

definition follows ::
  "'b journal_env \<Rightarrow> runtime_followup list \<Rightarrow> string list \<Rightarrow> ('b, 'e, 'a) dm
   \<Rightarrow> ('a \<Rightarrow> runtime_followup list) \<Rightarrow> ('a \<Rightarrow> string list) \<Rightarrow> bool" where
  "follows env fs owed m fs' owed' \<longleftrightarrow>
     (\<forall>x d r d'. tracks env x fs owed d \<and> m d = Some (r, d') \<longrightarrow>
        (case r of Inl e \<Rightarrow> \<not> scheduler_exit e | Inr a \<Rightarrow> \<exists>x'. tracks env x' (fs' a) (owed' a) d'))"

lemma dm_bind_assoc: "dm_bind (dm_bind m k) l = dm_bind m (\<lambda>a. dm_bind (k a) l)"
  by (rule ext) (simp add: dm_bind_def split: option.split prod.split sum.split)

lemma follows_return: "follows env (fs a) (owed a) (dm_return a) fs owed"
  by (auto simp: follows_def dm_return_def)

lemma follows_bind:
  assumes "follows env fs owed m fs1 owed1" "\<And>a. follows env (fs1 a) (owed1 a) (k a) fs2 owed2"
  shows "follows env fs owed (dm_bind m k) fs2 owed2"
  unfolding follows_def
proof (intro allI impI)
  fix x d r d' assume *: "tracks env x fs owed d \<and> dm_bind m k d = Some (r, d')"
  then obtain q d1 where q: "m d = Some (q, d1)" by (cases "m d") (auto simp: dm_bind_def)
  show "case r of Inl e \<Rightarrow> \<not> scheduler_exit e | Inr a \<Rightarrow> \<exists>x'. tracks env x' (fs2 a) (owed2 a) d'"
  proof (cases q)
    case (Inl e)
    then have "r = Inl e" using * q by (simp add: dm_bind_def)
    then show ?thesis using assms(1) * q Inl unfolding follows_def by fastforce
  next
    case (Inr a)
    then have run: "k a d1 = Some (r, d')" using * q by (simp add: dm_bind_def)
    have "\<exists>x1. tracks env x1 (fs1 a) (owed1 a) d1" using assms(1) * q Inr unfolding follows_def by fastforce
    with run show ?thesis using assms(2)[of a] unfolding follows_def by blast
  qed
qed

lemma follows_coordinator:
  assumes "handed env m ids" "\<And>e. \<not> scheduler_exit (err e)"
  shows "follows env fs owed (on_coordinator err m) (\<lambda>_. fs) (\<lambda>a. ids a @ owed)"
  unfolding follows_def
proof (intro allI impI)
  fix x d r d' assume *: "tracks env x fs owed d \<and> on_coordinator err m d = Some (r, d')"
  then obtain q st where q: "m (dm_journal d) = Some (q, st)" "r = map_err err q" "d' = d\<lparr>dm_journal := st\<rparr>"
    by (auto simp: on_coordinator_def)
  obtain ms where ms: "journal_trace env (dm_journal d) ms st" "\<forall>a. q = Inr a \<longrightarrow> ids a = [] \<or> ids a = ms"
    using assms(1) q(1) unfolding handed_def by blast
  obtain ls where ls: "labelled env ls (dm_journal d)"
    "mset (ls_ids x) + mset (map ce_command_id (dm_pending_commands d)) + mset owed \<subseteq># mset ls"
    using * unfolding tracks_def by blast
  show "case r of Inl e \<Rightarrow> \<not> scheduler_exit e | Inr a \<Rightarrow> \<exists>x'. tracks env x' fs (ids a @ owed) d'"
  proof (cases q)
    case (Inl e)
    then show ?thesis using assms(2) q(2) by simp
  next
    case (Inr a)
    then have "mset (ids a) \<subseteq># mset ms" using ms(2) by auto
    from subset_mset.add_mono[OF ls(2) this]
    have "mset (ls_ids x) + mset (map ce_command_id (dm_pending_commands d)) + mset (ids a @ owed) \<subseteq># mset (ls @ ms)"
      by (simp add: ac_simps)
    then have "tracks env x fs (ids a @ owed) d'"
      using * labelled_append[OF ls(1) ms(1)] q(3) unfolding tracks_def by auto
    then show ?thesis using q(2) Inr by auto
  qed
qed

lemma follows_send: "follows env fs owed (send_outbound err frames) (\<lambda>_. fs) (\<lambda>_. owed)"
  by (auto simp: follows_def send_outbound_def tracks_def scheduler_exit_def split: if_splits)

lemma tracks_fresh:
  assumes "serde_roundtrip env" "tracks env x fs (cid # owed) d"
  shows "cid \<notin> set (ls_ids x)"
proof -
  obtain ls where ls: "labelled env ls (dm_journal d)"
    "mset (ls_ids x) + mset (map ce_command_id (dm_pending_commands d)) + mset (cid # owed) \<subseteq># mset ls"
    using assms(2) unfolding tracks_def by blast
  have "add_mset cid (mset (ls_ids x)) \<subseteq># mset ls"
    using ls(2) by (rule subset_mset.order_trans[rotated]) simp
  then obtain rest where "mset ls = add_mset cid (mset (ls_ids x)) + rest" using subset_mset.le_iff_add by metis
  moreover obtain ys where "rest = mset ys" using ex_mset by metis
  ultimately have "mset ls = mset (cid # ls_ids x @ ys)" by simp
  then have "distinct (cid # ls_ids x @ ys)"
    using labelled_distinct[OF assms(1) ls(1)] mset_eq_imp_distinct_iff by blast
  then show ?thesis by simp
qed

lemma follows_schedule:
  assumes "serde_roundtrip env"
  shows "follows env fs (ce_command_id c # owed) (on_scheduler err (schedule c)) (\<lambda>_. fs) (\<lambda>_. owed)"
  unfolding follows_def
proof (intro allI impI)
  fix x d r d' assume *: "tracks env x fs (ce_command_id c # owed) d \<and> on_scheduler err (schedule c) d = Some (r, d')"
  have fresh: "ce_command_id c \<notin> set (ls_ids x)" using tracks_fresh[OF assms] * by blast
  have x: "scheduler_reachable x" "ls_scheduler x = dm_scheduler d" using * by (simp_all add: tracks_def)
  have "fst (schedule c (dm_scheduler d)) = Inr ()"
    using admit_ok(1)[OF loop.inv_reachable[OF x(1)] fresh] x(2) by (metis prod.collapse)
  then have r: "r = Inr ()" "d' = d\<lparr>dm_scheduler := snd (schedule c (dm_scheduler d))\<rparr>"
    using * by (auto simp: on_scheduler_def split: prod.splits)
  have "tracks env (loop_admit c x) fs owed d'"
    using * loop_admit_reachable[OF x(1) fresh] unfolding tracks_def
    by (auto simp: loop_admit_def r(2))
  then show "case r of Inl e \<Rightarrow> \<not> scheduler_exit e | Inr a \<Rightarrow> \<exists>x'. tracks env x' fs owed d'" using r(1) by auto
qed

lemma follows_schedule_all:
  assumes "serde_roundtrip env"
  shows "follows env fs (map ce_command_id cs @ owed) (schedule_all err cs) (\<lambda>_. fs) (\<lambda>_. owed)"
proof (induction cs)
  case Nil
  then show ?case using follows_return[of env "\<lambda>_. fs" "()" "\<lambda>_. owed"] by simp
next
  case (Cons c cs)
  show ?case using follows_bind[OF follows_schedule[OF assms] Cons.IH] by simp
qed

lemma follows_emit:
  assumes "serde_roundtrip env"
  shows "follows env fs (command_ids actions @ owed) (emit_runtime_actions actions) (\<lambda>_. fs) (\<lambda>_. owed)"
  unfolding emit_runtime_actions_def command_ids_def by (intro follows_bind[OF follows_send] follows_schedule_all assms)

lemma follows_finish_runtime:
  assumes "serde_roundtrip env" "\<And>e. \<not> scheduler_exit (err e)"
  shows "follows env fs [] (dm_bind (on_coordinator err (finish_runtime env s c out evs)) emit_runtime_actions)
    (\<lambda>_. fs) (\<lambda>_. [])"
  by (rule follows_bind[OF follows_coordinator[OF handed_finish_runtime assms(2)] follows_emit[OF assms(1)]])

lemma tracks_settle:
  assumes "tracks env x fs owed d" "settle_step x x'" "dm_scheduler d' = ls_scheduler x'" "ls_ids x' = ls_ids x"
    "dm_journal d' = dm_journal d" "dm_pending_commands d' = dm_pending_commands d"
  shows "tracks env x' (ls_held x') owed d'"
proof -
  have "scheduler_reachable x'"
    using assms(1) scheduler_step.settle[OF assms(2)] unfolding tracks_def scheduler_reachable_def
    by (metis rtranclp.rtrancl_into_rtrancl)
  then show ?thesis using assms by (simp add: tracks_def)
qed

lemma follows_followup:
  fixes env :: "'b journal_env"
  assumes "serde_roundtrip env"
  shows "follows env [f] [] (handle_followup env f :: ('b, 'e, unit) dm) (\<lambda>_. []) (\<lambda>_. [])"
proof (cases f)
  case (FinishCancellation c)
  let ?fin = "(\<lambda>d. Some (Inr (), d\<lparr>dm_scheduler := finish_followup c (dm_scheduler d)\<rparr>)) :: ('b, 'e, unit) dm"
  have "follows env [f] [] ?fin (\<lambda>_. []) (\<lambda>_. [])"
    unfolding follows_def
  proof (intro allI impI)
    fix x r and d d' :: "('b, 'e) daemon" assume *: "tracks env x [f] [] d \<and> ?fin d = Some (r, d')"
    then have h: "FinishCancellation c \<in> set (ls_held x)" "ls_held x = [FinishCancellation c]"
      "ls_scheduler x = dm_scheduler d" using FinishCancellation by (simp_all add: tracks_def)
    have "tracks env (x\<lparr>ls_scheduler := finish_followup c (ls_scheduler x),
        ls_held := remove1 (FinishCancellation c) (ls_held x), ls_done := ls_done x @ [ce_command_id c]\<rparr>) [] [] d'"
      using tracks_settle[OF _ settle_step.finish[OF h(1)], of env "[f]" "[]" d d'] * h by auto
    then show "case r of Inl e \<Rightarrow> \<not> scheduler_exit e | Inr a \<Rightarrow> \<exists>x'. tracks env x' [] [] d'" using * by auto
  qed
  from follows_bind[OF follows_finish_runtime[OF assms] this, of FinishCancellationCommand]
  show ?thesis
    by (simp add: FinishCancellation handle_followup_def scheduler_exit_def dm_bind_assoc)
next
  case (RescheduleCancellation c)
  show ?thesis
    unfolding follows_def
  proof (intro allI impI)
    fix x d r d' assume *: "tracks env x [f] [] d \<and> handle_followup env f d = Some (r, d')"
    have x: "scheduler_reachable x" "ls_scheduler x = dm_scheduler d" "RescheduleCancellation c \<in> set (ls_held x)"
      using * RescheduleCancellation by (simp_all add: tracks_def)
    obtain q s where q: "schedule_runtime c (ls_scheduler x) = (q, s)" by (cases "schedule_runtime c (ls_scheduler x)")
    have ok: "scheduler_ok (ls_scheduler x)" "accounted x" using loop.inv_reachable[OF x(1)] by (simp_all add: loop_ok_def)
    have "ce_command_id c \<notin> set (in_custody (ls_scheduler x))"
      using accounted_notin_held[OF ok(2) x(3)] by (simp add: followup_command_def)
    from schedule_runtime_admitted[OF ok(1) this] have "q = Inr ()" using q by auto
    moreover have "tracks env (x\<lparr>ls_scheduler := s, ls_held := remove1 f (ls_held x)\<rparr>) [] [] d'"
      using tracks_settle[OF _ settle_step.reschedule[OF x(3) q], of env "[f]" "[]" d d'] * q x(2) RescheduleCancellation
      by (auto simp: handle_followup_def on_scheduler_def tracks_def split: prod.splits)
    ultimately show "case r of Inl e \<Rightarrow> \<not> scheduler_exit e | Inr a \<Rightarrow> \<exists>x'. tracks env x' [] [] d'"
      using * q x(2) RescheduleCancellation by (auto simp: handle_followup_def on_scheduler_def)
  qed
qed

text \<open>Receiving a completion: the state before is the one with the completion still in the channel.\<close>

lemma handle_completion_follows:
  assumes rt: "serde_roundtrip env" and d: "tracks env x [] [] d" and ch: "sc_channel (dm_scheduler d) = c # rest"
    and run: "handle_completion env c (d\<lparr>dm_scheduler := (dm_scheduler d)\<lparr>sc_channel := rest\<rparr>\<rparr>) = Some (r, d')"
  shows "case r of Inl e \<Rightarrow> \<not> scheduler_exit e | Inr _ \<Rightarrow> \<exists>x'. tracks env x' [] [] d'"
proof -
  let ?d = "d\<lparr>dm_scheduler := (dm_scheduler d)\<lparr>sc_channel := rest\<rparr>\<rparr>"
  have x: "scheduler_reachable x" "ls_scheduler x = dm_scheduler d" "ls_held x = []" using d by (simp_all add: tracks_def)
  have ok: "scheduler_ok (ls_scheduler x)" using loop.inv_reachable[OF x(1)] by (simp add: loop_ok_def)
  have chx: "sc_channel (ls_scheduler x) = c # rest" using ch x(2) by simp
  obtain fin s' where fin: "finish_active c ((ls_scheduler x)\<lparr>sc_channel := rest\<rparr>) = (Inr fin, s')"
    using finish_active_ok[OF ok chx] by blast
  define x1 where "x1 = x\<lparr>ls_scheduler := s', ls_held := ls_held x @ followups fin, ls_done := ls_done x @ [rt_command_id c]\<rparr>"
  have t1: "tracks env x1 (followups fin) [] (?d\<lparr>dm_scheduler := s'\<rparr>)"
    using tracks_settle[OF d settle_step.receive[OF chx fin], of "?d\<lparr>dm_scheduler := s'\<rparr>"] x(3) by (simp add: x1_def)
  let ?k = "dm_bind (dm_bind (on_coordinator FinishRuntimeCommand
      (finish_runtime env (rt_session_id c) (rt_command_id c) (rt_outcome c) (rt_events c))) emit_runtime_actions)
      (\<lambda>_. case rf_followup fin of None \<Rightarrow> dm_return () | Some f \<Rightarrow> handle_followup env f)"
  have "?k (?d\<lparr>dm_scheduler := s'\<rparr>) = Some (r, d')"
    using run fin x(2) by (simp add: handle_completion_def dm_bind_assoc) (simp add: dm_bind_def[of "on_scheduler _ _"] on_scheduler_def)
  moreover have "follows env (followups fin) [] ?k (\<lambda>_. []) (\<lambda>_. [])"
  proof (rule follows_bind[OF follows_finish_runtime[OF rt]])
    show "\<not> scheduler_exit (FinishRuntimeCommand e)" for e by (simp add: scheduler_exit_def)
    show "follows env (followups fin) [] (case rf_followup fin of None \<Rightarrow> dm_return () | Some f \<Rightarrow> handle_followup env f)
        (\<lambda>_. []) (\<lambda>_. [])"
      using follows_followup[OF rt] follows_return[of env "\<lambda>_. []" "()" "\<lambda>_. []"]
      by (cases "rf_followup fin") (simp_all add: followups_def)
  qed
  ultimately show ?thesis using t1 unfolding follows_def by fastforce
qed

lemma tracks_cong:
  "\<lbrakk>tracks env x fs owed d; dm_scheduler d' = dm_scheduler d; dm_journal d' = dm_journal d;
    dm_pending_commands d' = dm_pending_commands d\<rbrakk> \<Longrightarrow> tracks env x fs owed d'"
  by (simp add: tracks_def)

lemma handle_handshake_follows:
  assumes rt: "serde_roundtrip env"
  shows "follows env [] [] (handle_handshake env snapshot) (\<lambda>_. []) (\<lambda>_. [])"
  unfolding handle_handshake_def
proof (rule follows_bind[OF follows_coordinator[OF handed_reconcile]])
  show "\<not> scheduler_exit (ReconcileJournal e)" for e by (simp add: scheduler_exit_def)
  fix actions
  show "follows env [] ([] @ []) (\<lambda>d. let replay = ha_replay actions @ dm_pending_frames d; d = d\<lparr>dm_pending_frames := []\<rparr>
     in if \<not> dm_supervised d then Some (Inl (SupervisorStopped ''supervisor stopped during handshake''), d)
        else dm_bind (send_outbound ''supervisor stopped during event replay'' replay) (\<lambda>_ d.
               schedule_all ScheduleRecoveredCommand (dm_pending_commands d) (d\<lparr>dm_pending_commands := []\<rparr>)) d) (\<lambda>_. []) (\<lambda>_. [])"
    unfolding follows_def
  proof (intro allI impI)
    fix x d r d' assume *: "tracks env x [] ([] @ []) d \<and> (let replay = ha_replay actions @ dm_pending_frames d; d = d\<lparr>dm_pending_frames := []\<rparr>
     in if \<not> dm_supervised d then Some (Inl (SupervisorStopped ''supervisor stopped during handshake''), d)
        else dm_bind (send_outbound ''supervisor stopped during event replay'' replay) (\<lambda>_ d.
               schedule_all ScheduleRecoveredCommand (dm_pending_commands d) (d\<lparr>dm_pending_commands := []\<rparr>)) d) = Some (r, d')"
    show "case r of Inl e \<Rightarrow> \<not> scheduler_exit e | Inr a \<Rightarrow> \<exists>x'. tracks env x' [] [] d'"
    proof (cases "dm_supervised d")
      case True
      define d1 where "d1 = d\<lparr>dm_pending_frames := [], dm_outbound := dm_outbound d @ ha_replay actions @ dm_pending_frames d,
        dm_pending_commands := []\<rparr>"
      have "schedule_all ScheduleRecoveredCommand (dm_pending_commands d) d1 = Some (r, d')"
        using * True by (simp add: Let_def dm_bind_def send_outbound_def d1_def)
      moreover have "tracks env x [] (map ce_command_id (dm_pending_commands d) @ []) d1"
        using * by (simp add: tracks_def d1_def)
      ultimately show ?thesis using follows_schedule_all[OF rt] unfolding follows_def by blast
    next
      case False
      then show ?thesis using * by (auto simp: Let_def scheduler_exit_def)
    qed
  qed
qed

lemma handle_frame_follows:
  assumes rt: "serde_roundtrip env"
  shows "follows env [] [] (handle_frame env frame) (\<lambda>_. []) (\<lambda>_. [])"
  unfolding follows_def
proof (intro allI impI)
  fix x d r d' assume *: "tracks env x [] [] d \<and> handle_frame env frame d = Some (r, d')"
  then obtain q st where q: "accept_server_frame env frame (dm_journal d) = Some (q, st)"
    by (cases "accept_server_frame env frame (dm_journal d)") (auto simp: handle_frame_def)
  have "follows env [] [] (on_coordinator ProcessServerFrame (accept_server_frame env frame)) (\<lambda>_. []) (\<lambda>a. command_ids a @ [])"
    by (rule follows_coordinator[OF handed_accept_server_frame]) (simp add: scheduler_exit_def)
  then have journal: "case map_err ProcessServerFrame q of Inl e \<Rightarrow> \<not> scheduler_exit e
      | Inr a \<Rightarrow> \<exists>x'. tracks env x' [] (command_ids a @ []) (d\<lparr>dm_journal := st\<rparr>)"
    using * q unfolding follows_def by (fastforce simp: on_coordinator_def)
  show "case r of Inl e \<Rightarrow> \<not> scheduler_exit e | Inr a \<Rightarrow> \<exists>x'. tracks env x' [] [] d'"
  proof (cases q)
    case (Inr actions)
    then have "emit_runtime_actions actions (d\<lparr>dm_journal := st\<rparr>) = Some (r, d')" using * q by (simp add: handle_frame_def)
    moreover obtain x1 where "tracks env x1 [] (command_ids actions @ []) (d\<lparr>dm_journal := st\<rparr>)"
      using journal Inr by auto
    ultimately show ?thesis using follows_emit[OF rt, of "[]" actions "[]"] unfolding follows_def by blast
  next
    case (Inl e)
    obtain ms where ms: "journal_trace env (dm_journal d) ms st"
      using handed_accept_server_frame q unfolding handed_def by blast
    obtain ls where ls: "labelled env ls (dm_journal d)"
      "mset (ls_ids x) + mset (map ce_command_id (dm_pending_commands d)) \<subseteq># mset ls"
      using * by (auto simp: tracks_def)
    have "mset (ls_ids x) + mset (map ce_command_id (dm_pending_commands d)) \<subseteq># mset (ls @ ms)"
      using ls(2) by (simp add: subset_mset.add_increasing2)
    then have "tracks env x [] [] (d\<lparr>dm_journal := st, dm_close_requests := n\<rparr>)" for n
      using * labelled_append[OF ls(1) ms] unfolding tracks_def by auto
    then have gap: "emit_runtime_actions no_actions (d\<lparr>dm_journal := st, dm_close_requests := n\<rparr>) = Some (r, d') \<Longrightarrow> ?thesis" for n
      using follows_emit[OF rt, of "[]" no_actions "[]"] unfolding follows_def by (fastforce simp: command_ids_def no_actions_def)
    then show ?thesis
      using * q Inl by (cases e) (auto simp: handle_frame_def scheduler_exit_def split: if_splits)
  qed
qed

lemma booted_tracks:
  assumes "labelled env ls st" "boot_daemon env ex st = Some (Inr d, st')"
  shows "tracks env loop_start [] [] d"
proof -
  obtain actions where a: "coord_recover_for_scheduler env ex st = Some (Inr actions, st')"
    "d = \<lparr>dm_journal = st', dm_scheduler = new_scheduler, dm_outbound = [], dm_supervised = True, dm_close_requests = 0,
          dm_pending_frames = ra_frames actions, dm_pending_commands = ra_commands actions\<rparr>"
    using assms(2) by (auto simp: boot_daemon_def) (metis (no_types, lifting) Inl_Inr_False Inr_inject map_sum.simps sum.exhaust)
  obtain ms where ms: "journal_trace env st ms st'" "command_ids actions = [] \<or> command_ids actions = ms"
    using handed_recover_for_scheduler a(1) unfolding handed_def by blast
  have "mset (command_ids actions) \<subseteq># mset (ls @ ms)" using ms(2) by auto
  then show ?thesis
    using labelled_append[OF assms(1) ms(1)] loop_start_reachable
    by (auto simp: tracks_def a(2) loop_start_def command_ids_def)
qed

lemma daemon_reachable_tracks:
  assumes rt: "serde_roundtrip env"
  shows "daemon_reachable env ex d \<Longrightarrow> \<exists>x. tracks env x [] [] d"
proof (induction rule: daemon_reachable.induct)
  case (boot st clock writes x st1 d st2)
  obtain ls where "labelled env ls st" using boot(1) unfolding journal_reachable_def labelled_def by blast
  then have "labelled env (ls @ []) st1"
    using labelled_append journal_trace_one[OF journal_step.restart[OF boot(2)]] by blast
  then show ?case using booted_tracks boot(3) by blast
next
  case (first clock writes x st1 d st2)
  then have "labelled env [] st1" unfolding labelled_def using journal_trace.stop by blast
  then show ?case using booted_tracks first(2) by blast
next
  case (completion d c rest d')
  then show ?case using handle_completion_follows[OF rt] by fastforce
next
  case (handshake d snapshot d')
  then show ?case using handle_handshake_follows[OF rt, of snapshot] unfolding follows_def by fastforce
next
  case (frame d fr d')
  then show ?case using handle_frame_follows[OF rt, of fr] unfolding follows_def by fastforce
next
  case (work d w r)
  then obtain x where x: "tracks env x [] [] d" by blast
  then have "w \<in> set (sc_workers (ls_scheduler x))" using work(2) by (simp add: tracks_def)
  from tracks_settle[OF x settle_step.work[OF this], of "d\<lparr>dm_scheduler := worker_done w r (dm_scheduler d)\<rparr>" r] x
  show ?case by (fastforce simp: tracks_def)
next
  case (runtime d y)
  then obtain x ls where x: "tracks env x [] [] d" "labelled env ls (dm_journal d)"
    "mset (ls_ids x) + mset (map ce_command_id (dm_pending_commands d)) \<subseteq># mset ls" by (auto simp: tracks_def)
  have "labelled env (ls @ []) ((dm_journal d)\<lparr>js_exec := y\<rparr>)"
    by (rule labelled_append[OF x(2)]) (rule journal_trace_one[OF journal_step.runtime])
  then show ?case using x by (auto simp: tracks_def)
next
  case (supervisor d)
  then obtain x where "tracks env x [] [] d" by blast
  then have "tracks env x [] [] (d\<lparr>dm_supervised := False\<rparr>)" by (rule tracks_cong) simp_all
  then show ?case by blast
qed

text \<open>C3. The daemon loop never ends because of its scheduler. In every state that a daemon reaches over any
  number of lives, with failing writes and crashes between two writes, its scheduler is in a state of
  the scheduler's own environment, where the scheduler's guarantees hold, and no handler ends the
  process with a scheduling error: what remains are journal, protocol and connection failures.\<close>

theorem daemon_loop_never_fails_to_schedule:
  assumes "serde_roundtrip env" "daemon_reachable env ex d"
  shows "(\<exists>x. scheduler_reachable x \<and> ls_scheduler x = dm_scheduler d \<and> ls_held x = [])
    \<and> (\<forall>frame e d'. handle_frame env frame d = Some (Inl e, d') \<longrightarrow> \<not> scheduler_exit e)
    \<and> (\<forall>snapshot e d'. handle_handshake env snapshot d = Some (Inl e, d') \<longrightarrow> \<not> scheduler_exit e)
    \<and> (\<forall>c rest e d'. sc_channel (dm_scheduler d) = c # rest
         \<and> handle_completion env c (d\<lparr>dm_scheduler := (dm_scheduler d)\<lparr>sc_channel := rest\<rparr>\<rparr>) = Some (Inl e, d')
         \<longrightarrow> \<not> scheduler_exit e)"
proof -
  obtain x where x: "tracks env x [] [] d" using daemon_reachable_tracks[OF assms] by blast
  have "\<not> scheduler_exit e" if "handle_frame env frame d = Some (Inl e, d')" for frame e d'
    using handle_frame_follows[OF assms(1), of frame] x that unfolding follows_def by fastforce
  moreover have "\<not> scheduler_exit e" if "handle_handshake env snapshot d = Some (Inl e, d')" for snapshot e d'
    using handle_handshake_follows[OF assms(1), of snapshot] x that unfolding follows_def by fastforce
  moreover have "\<not> scheduler_exit e" if "sc_channel (dm_scheduler d) = c # rest"
    "handle_completion env c (d\<lparr>dm_scheduler := (dm_scheduler d)\<lparr>sc_channel := rest\<rparr>\<rparr>) = Some (Inl e, d')" for c rest e d'
    using handle_completion_follows[OF assms(1) x that] by simp
  ultimately show ?thesis using x unfolding tracks_def by blast
qed

definition sample_daemon :: "(journal_file, unit) daemon" where
  "sample_daemon = \<lparr>dm_journal = sample_start, dm_scheduler = new_scheduler, dm_outbound = [], dm_supervised = True,
     dm_close_requests = 0, dm_pending_frames = [], dm_pending_commands = []\<rparr>"

lemma sample_daemon_booted: "boot_daemon sample_env sample_executor sample_start = Some (Inr sample_daemon, sample_start)"
  by code_simp

theorem daemon_loop_never_fails_to_schedule_witness:
  "\<exists>x. scheduler_reachable x \<and> ls_scheduler x = dm_scheduler sample_daemon \<and> ls_held x = []"
  using daemon_loop_never_fails_to_schedule[OF sample_roundtrip daemon_reachable.first[OF sample_opened sample_daemon_booted]]
  by blast

end
