(* ===== verification/Transport_Model.thy ===== *)
theory Transport_Model
  imports Wire_Protocol "HOL-Library.Sublist" "HOL-Library.Code_Target_Nat"
begin

text \<open>
  The connection supervisor of the daemon, \<open>north-daemon/src/transport.rs\<close>.

  \<^item> A connection is three tasks: \<open>connect_once\<close> itself, \<open>read_loop\<close> and \<open>write_loop\<close>. Their program points are the
    datatypes \<open>main_task\<close>, \<open>reader_task\<close> and \<open>writer_task\<close>; the bounded channels between them are lists, and a send waits
    while its channel is full. One definition is the work of a task between two awaits, or one arm of a \<open>select!\<close>.
  \<^item> \<open>link_step\<close> lets any task that can move make its next move, in any order. The socket's answers, expired timeouts
    and the host's use of its channel ends are the choices of the environment.
  \<^item> When \<open>connect_once\<close> returns, the other tasks are aborted and the channels between them dropped.
  \<^item> Text is of any type \<open>'t\<close>; \<open>serde_json\<close>, the rendering of its errors and the sending of text are parameters.
    Durations are nanoseconds. Panics of the spawned tasks (\<open>ConnectionError::Task\<close>) do not occur.
  \<^item> The fields under \<open>History\<close> are not part of the program: they record what went through a channel.
\<close>

section \<open>Phases and failures\<close>

datatype connection_phase = Connecting | AwaitingWelcome | Authenticated | Reconciling | ReconciliationReceived | Active

datatype 'j connection_error =
    Connect string
  | Socket string
  | ProtocolFailed "'j frame_error"
  | BinaryFrame
  | PeerClosed
  | ChannelClosed string
  | TaskFailed string
  | HandshakeTimeout string
  | HandshakeViolation string
  | TerminalProtocol string string

datatype failure = Retryable | Terminal | Shutdown

definition hello_sent :: "connection_phase \<Rightarrow> 'j connection_error + connection_phase" where
  "hello_sent p = (if p = Connecting then Inr AwaitingWelcome else Inl (HandshakeViolation ''hello sent outside Connecting phase''))"

definition welcome_received :: "connection_phase \<Rightarrow> 'j connection_error + connection_phase" where
  "welcome_received p = (if p = AwaitingWelcome then Inr Authenticated
     else Inl (HandshakeViolation ''welcome received outside AwaitingWelcome phase''))"

definition begin_reconciliation :: "connection_phase \<Rightarrow> 'j connection_error + connection_phase" where
  "begin_reconciliation p = (if p = Authenticated then Inr Reconciling
     else Inl (HandshakeViolation ''reconciliation started before authentication''))"

definition reconciliation_received :: "connection_phase \<Rightarrow> 'j connection_error + connection_phase" where
  "reconciliation_received p = (if p = Reconciling then Inr ReconciliationReceived
     else Inl (HandshakeViolation ''reconciliation received outside Reconciling phase''))"

definition coordination_ready :: "connection_phase \<Rightarrow> 'j connection_error + connection_phase" where
  "coordination_ready p = (if p = ReconciliationReceived then Inr Active
     else Inl (HandshakeViolation ''coordination became ready before reconciliation was received''))"

definition allows_application_traffic :: "connection_phase \<Rightarrow> bool" where
  "allows_application_traffic p \<longleftrightarrow> p = Active"

definition failure_class :: "'j connection_error \<Rightarrow> failure" where
  "failure_class e = (case e of ChannelClosed _ \<Rightarrow> Shutdown
     | ProtocolFailed _ \<Rightarrow> Terminal | BinaryFrame \<Rightarrow> Terminal | HandshakeViolation _ \<Rightarrow> Terminal | TerminalProtocol _ _ \<Rightarrow> Terminal
     | Connect _ \<Rightarrow> Retryable | Socket _ \<Rightarrow> Retryable | PeerClosed \<Rightarrow> Retryable | TaskFailed _ \<Rightarrow> Retryable
     | HandshakeTimeout _ \<Rightarrow> Retryable)"

section \<open>Backoff\<close>

record reconnect_backoff =
  rb_initial :: nat
  rb_maximum :: nat

definition default_backoff :: reconnect_backoff where
  "default_backoff = \<lparr>rb_initial = 1000000000, rb_maximum = 30000000000\<rparr>"

text \<open>A \<open>Duration\<close> is a \<open>u64\<close> of seconds and the nanoseconds of a second; \<open>checked_mul\<close> fails when the seconds overflow.\<close>

definition duration_limit :: nat where "duration_limit = 2 ^ 64 * 10 ^ 9"

definition checked_mul :: "nat \<Rightarrow> u32 \<Rightarrow> nat option" where
  "checked_mul d m = (if d * unat m < duration_limit then Some (d * unat m) else None)"

definition delay :: "reconnect_backoff \<Rightarrow> u32 \<Rightarrow> nat" where
  "delay b attempt =
     (let exponent = min attempt 16; multiplier = push_bit (unat exponent) (1 :: u32)
      in min (case checked_mul (rb_initial b) multiplier of None \<Rightarrow> rb_maximum b | Some d \<Rightarrow> d) (rb_maximum b))"

section \<open>State\<close>

definition OUTBOUND_QUEUE_CAPACITY :: nat where "OUTBOUND_QUEUE_CAPACITY = 256"
definition INCOMING_QUEUE_CAPACITY :: nat where "INCOMING_QUEUE_CAPACITY = 256"
definition CONTROL_QUEUE_CAPACITY :: nat where "CONTROL_QUEUE_CAPACITY = 8"

datatype 't ws_message = WsText 't | WsBinary string | WsPing string | WsPong string | WsClose | WsFrame

record handshake_result =
  hs_welcome :: welcome_frame
  hs_reconciliation :: reconcile_snapshot

datatype connection_event = HandshakeComplete handshake_result | EventFrame server_frame

text \<open>Who waits for the receipt of \<open>FrameAndWait\<close>.\<close>

datatype waiter = ByMain | ByReader

text \<open>History: who made a frame that was written, the host, the reader or the supervisor itself.\<close>

datatype frame_source = FromHost | FromReader | FromSupervisor

datatype writer_command = WriteFrame daemon_frame | FrameAndWait daemon_frame waiter

type_synonym 'j outcome = "'j connection_error + unit"

datatype 'j main_task =
    AwaitWelcome
  | AwaitReconcile welcome_frame
  | Announce handshake_result
  | AwaitReady
  | Live
  | Deliver server_frame
  | Forward daemon_frame
  | SendTerminal protocol_error_frame
  | AwaitReceipt protocol_error_frame
  | AwaitReader "'j outcome"
  | MainDone "'j outcome"

datatype 'j reader_task =
    Reading
  | SendIncoming server_frame
  | SendPong string
  | ReaderSendTerminal protocol_error_frame
  | ReaderAwaitReceipt protocol_error_frame
  | ForwardError protocol_error_frame "'j outcome"
  | ReaderDone "'j outcome"

datatype 'j writer_task = Writing | WriterDone "'j outcome"

record ('j, 't) connection =
  cn_phase :: connection_phase
  cn_main :: "'j main_task"
  cn_reader :: "'j reader_task"
  cn_writer :: "'j writer_task"
  cn_incoming :: "server_frame list"
  cn_commands :: "writer_command list"
  cn_controls :: "'t ws_message list"
  cn_receipts :: "(waiter \<times> (string + unit)) list"
  \<comment> \<open>History\<close>
  cn_read :: "'t ws_message list"
  cn_received :: "server_frame list"
  cn_consumed :: "server_frame list"
  cn_events :: "connection_event list"
  cn_taken :: "daemon_frame list"
  cn_sent :: "(frame_source \<times> daemon_frame) list"

text \<open>\<open>lk_control\<close> is the number of \<open>CloseRetryable\<close> messages that wait in the host's control channel.\<close>

record ('j, 't) link =
  lk_attempt :: u32
  lk_outbound :: "daemon_frame list"
  lk_outbound_open :: bool
  lk_control :: nat
  lk_control_open :: bool
  lk_inbound_open :: bool
  lk_conn :: "('j, 't) connection option"
  lk_result :: "'j outcome option"
  \<comment> \<open>History\<close>
  lk_accepted :: "daemon_frame list"
  lk_taken :: "daemon_frame list"
  lk_wire :: "(frame_source \<times> daemon_frame) list"
  lk_sleeps :: "nat list"
  lk_signal_dropped :: bool
  lk_last :: "('j, 't) connection option"

record ('j, 't) link_env =
  le_to_string :: "daemon_frame \<Rightarrow> 'j + 't"
  le_from_str :: "'t \<Rightarrow> 'j + server_frame"
  le_show :: "'j frame_error \<Rightarrow> string"
  le_hello :: hello
  le_backoff :: reconnect_backoff

type_synonym ('j, 't) cstep = "('j, 't) connection \<Rightarrow> ('j, 't) connection"

section \<open>The codec on messages\<close>

definition encode_daemon_message :: "('j, 't) link_env \<Rightarrow> daemon_frame \<Rightarrow> 'j connection_error + 't ws_message" where
  "encode_daemon_message env f =
     and_then (map_err ProtocolFailed (encode_daemon_frame (le_to_string env) f)) (\<lambda>text. Inr (WsText text))"

definition decode_server_message :: "('j, 't) link_env \<Rightarrow> 't ws_message \<Rightarrow> 'j connection_error + server_frame option" where
  "decode_server_message env m =
     (case m of
        WsText text \<Rightarrow> map_err ProtocolFailed (map_sum id Some (decode_server_frame (le_from_str env) text))
      | WsBinary _ \<Rightarrow> Inl BinaryFrame
      | WsPing _ \<Rightarrow> Inr None
      | WsPong _ \<Rightarrow> Inr None
      | WsClose \<Rightarrow> Inl PeerClosed
      | WsFrame \<Rightarrow> Inl (Socket ''unexpected raw WebSocket frame''))"

section \<open>The writer\<close>

text \<open>\<open>write_loop\<close>: the arm of the control messages and the arm of the commands. \<open>sent\<close> is what the socket answers. The
  commands' \<open>None\<close> arm needs both senders dropped, which \<open>connect_once\<close> holds until it aborts the task.\<close>

definition writer_done :: "('j, 't) connection \<Rightarrow> bool" where
  "writer_done c \<longleftrightarrow> cn_writer c \<noteq> Writing"

definition reader_done :: "('j, 't) connection \<Rightarrow> bool" where
  "reader_done c \<longleftrightarrow> (case cn_reader c of ReaderDone _ \<Rightarrow> True | _ \<Rightarrow> False)"

definition write_control :: "string + unit \<Rightarrow> ('j, 't) cstep" where
  "write_control sent c =
     (case cn_controls c of
        [] \<Rightarrow> c\<lparr>cn_writer := WriterDone (Inl PeerClosed)\<rparr>
      | m # rest \<Rightarrow>
          (case sent of
             Inr _ \<Rightarrow> c\<lparr>cn_controls := rest\<rparr>
           | Inl reason \<Rightarrow> c\<lparr>cn_controls := rest, cn_writer := WriterDone (Inl (Socket reason))\<rparr>))"

definition send_frame :: "('j, 't) link_env \<Rightarrow> string + unit \<Rightarrow> daemon_frame \<Rightarrow> 'j outcome" where
  "send_frame env sent f =
     and_then (map_err ProtocolFailed (encode_daemon_frame (le_to_string env) f)) (\<lambda>_. map_err Socket sent)"

definition error_display :: "('j, 't) link_env \<Rightarrow> 'j connection_error \<Rightarrow> string" where
  "error_display env e =
     (case e of
        Connect reason \<Rightarrow> ''tokio-tungstenite connect failed: '' @ reason
      | Socket reason \<Rightarrow> ''WebSocket transport error: '' @ reason
      | ProtocolFailed error \<Rightarrow> ''North protocol error: '' @ le_show env error
      | BinaryFrame \<Rightarrow> ''North 0.1 accepts JSON text frames only''
      | PeerClosed \<Rightarrow> ''server WebSocket closed''
      | ChannelClosed side \<Rightarrow> side @ '' connection channel closed''
      | TaskFailed reason \<Rightarrow> ''connection task failed: '' @ reason
      | HandshakeTimeout stage \<Rightarrow> ''handshake timed out waiting for '' @ stage
      | HandshakeViolation reason \<Rightarrow> ''handshake violation: '' @ reason
      | TerminalProtocol code message \<Rightarrow> ''terminal North protocol error ('' @ code @ ''): '' @ message)"

definition waiter_source :: "waiter \<Rightarrow> frame_source" where
  "waiter_source w = (case w of ByMain \<Rightarrow> FromHost | ByReader \<Rightarrow> FromReader)"

definition write_command :: "('j, 't) link_env \<Rightarrow> string + unit \<Rightarrow> ('j, 't) cstep" where
  "write_command env sent c =
     (case cn_commands c of
        [] \<Rightarrow> c
      | WriteFrame f # rest \<Rightarrow>
          (case send_frame env sent f of
             Inr _ \<Rightarrow> c\<lparr>cn_commands := rest, cn_sent := cn_sent c @ [(FromHost, f)]\<rparr>
           | Inl e \<Rightarrow> c\<lparr>cn_commands := rest, cn_writer := WriterDone (Inl e)\<rparr>)
      | FrameAndWait f w # rest \<Rightarrow>
          (case send_frame env sent f of
             Inr _ \<Rightarrow> c\<lparr>cn_commands := rest, cn_receipts := (w, Inr ()) # cn_receipts c, cn_sent := cn_sent c @ [(waiter_source w, f)]\<rparr>
           | Inl e \<Rightarrow> c\<lparr>cn_commands := rest, cn_receipts := (w, Inl (error_display env e)) # cn_receipts c, cn_writer := WriterDone (Inl e)\<rparr>))"

section \<open>Terminal protocol errors\<close>

text \<open>\<open>send_terminal_protocol_error\<close>: the send, which waits for room and fails when the writer is gone, and the wait for the
  receipt, which ends with the receipt, with the writer's end or after a second.\<close>

definition terminal_receipt :: "waiter \<Rightarrow> bool \<Rightarrow> protocol_error_frame \<Rightarrow> ('j, 't) connection \<Rightarrow> 'j outcome" where
  "terminal_receipt w timed_out e c =
     (case map_of (cn_receipts c) w of
        Some (Inr _) \<Rightarrow> Inl (TerminalProtocol (pe_code e) (pe_message e))
      | Some (Inl reason) \<Rightarrow> Inl (Socket reason)
      | None \<Rightarrow> if timed_out then Inl (HandshakeTimeout ''protocol_error'') else Inl PeerClosed)"

definition receipt_settled :: "waiter \<Rightarrow> bool \<Rightarrow> ('j, 't) connection \<Rightarrow> bool" where
  "receipt_settled w timed_out c \<longleftrightarrow> map_of (cn_receipts c) w \<noteq> None \<or> timed_out \<or> writer_done c"

section \<open>The reader\<close>

definition protocol_error_of :: "string \<Rightarrow> string \<Rightarrow> protocol_error_frame" where
  "protocol_error_of code message = \<lparr>pe_schema_version = SCHEMA_VERSION, pe_code = code, pe_message = message\<rparr>"

text \<open>What \<open>reader.next()\<close> yields: \<open>None\<close> at the end of the stream.\<close>

definition read_item :: "('j, 't) link_env \<Rightarrow> (string + 't ws_message) option \<Rightarrow> 'j reader_task" where
  "read_item env item =
     (case item of
        None \<Rightarrow> ReaderDone (Inl PeerClosed)
      | Some (Inl reason) \<Rightarrow> ReaderDone (Inl (Socket reason))
      | Some (Inr m) \<Rightarrow>
          (case m of
             WsText text \<Rightarrow>
               (case decode_server_frame (le_from_str env) text of
                  Inr frame \<Rightarrow> SendIncoming frame
                | Inl e \<Rightarrow> ReaderSendTerminal (protocol_error_of ''invalid_frame'' (le_show env e)))
           | WsBinary _ \<Rightarrow> ReaderSendTerminal (protocol_error_of ''binary_frame'' ''North 0.1 accepts JSON text frames only'')
           | WsPing payload \<Rightarrow> SendPong payload
           | WsPong _ \<Rightarrow> Reading
           | WsClose \<Rightarrow> ReaderDone (Inl PeerClosed)
           | WsFrame \<Rightarrow> ReaderSendTerminal (protocol_error_of ''invalid_frame'' ''invalid North frame: unexpected raw WebSocket frame'')))"

definition read_step :: "('j, 't) link_env \<Rightarrow> (string + 't ws_message) option \<Rightarrow> ('j, 't) cstep" where
  "read_step env item c =
     c\<lparr>cn_reader := read_item env item, cn_read := cn_read c @ (case item of Some (Inr m) \<Rightarrow> [m] | _ \<Rightarrow> [])\<rparr>"

definition push_incoming :: "server_frame \<Rightarrow> 'j reader_task \<Rightarrow> ('j, 't) cstep" where
  "push_incoming f next c = c\<lparr>cn_incoming := cn_incoming c @ [f], cn_received := cn_received c @ [f], cn_reader := next\<rparr>"

text \<open>The reader's second half of each arm, once its channel has room or its receiver is gone. The receiver of its frames is held by
  \<open>connect_once\<close> until it has aborted the reader, so that sending one never fails.\<close>

definition reader_continue :: "bool \<Rightarrow> ('j, 't) cstep" where
  "reader_continue timed_out c =
     (case cn_reader c of
        SendIncoming f \<Rightarrow> push_incoming f Reading c
      | SendPong payload \<Rightarrow>
          if writer_done c then c\<lparr>cn_reader := ReaderDone (Inl PeerClosed)\<rparr>
          else c\<lparr>cn_controls := cn_controls c @ [WsPong payload], cn_reader := Reading\<rparr>
      | ReaderSendTerminal e \<Rightarrow>
          if writer_done c then c\<lparr>cn_reader := ForwardError e (Inl PeerClosed)\<rparr>
          else c\<lparr>cn_commands := cn_commands c @ [FrameAndWait (DF_ProtocolError e) ByReader], cn_reader := ReaderAwaitReceipt e\<rparr>
      | ReaderAwaitReceipt e \<Rightarrow> c\<lparr>cn_reader := ForwardError e (terminal_receipt ByReader timed_out e c)\<rparr>
      | ForwardError e r \<Rightarrow> push_incoming (SF_ProtocolError e) (ReaderDone r) c
      | _ \<Rightarrow> c)"

definition reader_can_continue :: "bool \<Rightarrow> ('j, 't) connection \<Rightarrow> bool" where
  "reader_can_continue timed_out c \<longleftrightarrow>
     (case cn_reader c of
        SendIncoming _ \<Rightarrow> length (cn_incoming c) < INCOMING_QUEUE_CAPACITY
      | SendPong _ \<Rightarrow> writer_done c \<or> length (cn_controls c) < CONTROL_QUEUE_CAPACITY
      | ReaderSendTerminal _ \<Rightarrow> writer_done c \<or> length (cn_commands c) < OUTBOUND_QUEUE_CAPACITY
      | ReaderAwaitReceipt _ \<Rightarrow> receipt_settled ByReader timed_out c
      | ForwardError _ _ \<Rightarrow> length (cn_incoming c) < INCOMING_QUEUE_CAPACITY
      | _ \<Rightarrow> False)"

section \<open>The connection\<close>

definition finish :: "'j outcome \<Rightarrow> ('j, 't) cstep" where
  "finish r c = c\<lparr>cn_main := MainDone r\<rparr>"

definition protocol_failure :: "server_frame \<Rightarrow> 'j connection_error" where
  "protocol_failure f = (case f of SF_ProtocolError e \<Rightarrow> TerminalProtocol (pe_code e) (pe_message e)
     | _ \<Rightarrow> HandshakeViolation ''expected protocol error frame'')"

text \<open>\<open>receive_frame\<close> and \<open>incoming_receiver.recv()\<close>: they wait while the channel is empty and the reader lives.\<close>

definition can_receive :: "bool \<Rightarrow> ('j, 't) connection \<Rightarrow> bool" where
  "can_receive timed_out c \<longleftrightarrow> (if timed_out then cn_incoming c = [] else cn_incoming c \<noteq> [] \<or> reader_done c)"

definition pop_incoming :: "('j, 't) connection \<Rightarrow> server_frame option \<times> ('j, 't) connection" where
  "pop_incoming c = (case cn_incoming c of [] \<Rightarrow> (None, c)
     | f # rest \<Rightarrow> (Some f, c\<lparr>cn_incoming := rest, cn_consumed := cn_consumed c @ [f]\<rparr>))"

definition receive_frame :: "bool \<Rightarrow> string \<Rightarrow> ('j, 't) connection \<Rightarrow> ('j connection_error + server_frame) \<times> ('j, 't) connection" where
  "receive_frame timed_out stage c =
     (if timed_out then (Inl (HandshakeTimeout stage), c)
      else (case pop_incoming c of (None, c) \<Rightarrow> (Inl PeerClosed, c) | (Some f, c) \<Rightarrow> (Inr f, c)))"

definition welcome_step :: "bool \<Rightarrow> ('j, 't) cstep" where
  "welcome_step timed_out c =
     (case receive_frame timed_out ''welcome'' c of
        (Inl e, c) \<Rightarrow> finish (Inl e) c
      | (Inr (SF_Welcome w), c) \<Rightarrow>
          (case and_then (welcome_received (cn_phase c)) begin_reconciliation of
             Inl e \<Rightarrow> finish (Inl e) c
           | Inr p \<Rightarrow> c\<lparr>cn_phase := p, cn_main := AwaitReconcile w\<rparr>)
      | (Inr (SF_ProtocolError e), c) \<Rightarrow> finish (Inl (protocol_failure (SF_ProtocolError e))) c
      | (Inr _, c) \<Rightarrow> finish (Inl (HandshakeViolation ''expected welcome before application traffic'')) c)"

definition reconcile_step :: "bool \<Rightarrow> welcome_frame \<Rightarrow> ('j, 't) cstep" where
  "reconcile_step timed_out w c =
     (case receive_frame timed_out ''reconciliation'' c of
        (Inl e, c) \<Rightarrow> finish (Inl e) c
      | (Inr (SF_Reconcile r), c) \<Rightarrow>
          (case reconciliation_received (cn_phase c) of
             Inl e \<Rightarrow> finish (Inl e) c
           | Inr p \<Rightarrow> c\<lparr>cn_phase := p, cn_main := Announce \<lparr>hs_welcome = w, hs_reconciliation = r\<rparr>\<rparr>)
      | (Inr (SF_ProtocolError e), c) \<Rightarrow> finish (Inl (protocol_failure (SF_ProtocolError e))) c
      | (Inr _, c) \<Rightarrow> finish (Inl (HandshakeViolation ''expected reconcile before application traffic'')) c)"

text \<open>\<open>await_coordination_ready\<close>: one timeout over the send to the host and the host's signal.\<close>

definition announce_step :: "bool \<Rightarrow> bool \<Rightarrow> handshake_result \<Rightarrow> ('j, 't) cstep" where
  "announce_step timed_out inbound_open h c =
     (if timed_out then finish (Inl (HandshakeTimeout ''coordination'')) c
      else if \<not> inbound_open then finish (Inl (ChannelClosed ''inbound'')) c
      else c\<lparr>cn_events := cn_events c @ [HandshakeComplete h], cn_main := AwaitReady\<rparr>)"

datatype signal = Signalled | SignalDropped | SignalLate

definition ready_step :: "signal \<Rightarrow> ('j, 't) cstep" where
  "ready_step s c =
     (case s of
        SignalLate \<Rightarrow> finish (Inl (HandshakeTimeout ''coordination'')) c
      | SignalDropped \<Rightarrow> finish (Inl (ChannelClosed ''coordination'')) c
      | Signalled \<Rightarrow>
          (case coordination_ready (cn_phase c) of
             Inl e \<Rightarrow> finish (Inl e) c
           | Inr p \<Rightarrow> c\<lparr>cn_phase := p, cn_main := Live\<rparr>))"

text \<open>The arms of the final loop: the reader's channel, \<open>inbound.send\<close>, the writer's channel and the ends of the two tasks.\<close>

definition incoming_arm :: "('j, 't) cstep" where
  "incoming_arm c =
     (case pop_incoming c of
        (None, c) \<Rightarrow> (case cn_reader c of ReaderDone r \<Rightarrow> finish r c | _ \<Rightarrow> c)
      | (Some (SF_ProtocolError e), c) \<Rightarrow> finish (Inl (protocol_failure (SF_ProtocolError e))) c
      | (Some (SF_Welcome _), c) \<Rightarrow> finish (Inl (HandshakeViolation ''welcome repeated after Active'')) c
      | (Some (SF_Reconcile _), c) \<Rightarrow> finish (Inl (HandshakeViolation ''reconciliation repeated after Active'')) c
      | (Some f, c) \<Rightarrow> c\<lparr>cn_main := Deliver f\<rparr>)"

definition deliver_step :: "bool \<Rightarrow> server_frame \<Rightarrow> ('j, 't) cstep" where
  "deliver_step inbound_open f c =
     (if inbound_open then c\<lparr>cn_events := cn_events c @ [EventFrame f], cn_main := Live\<rparr>
      else finish (Inl (ChannelClosed ''inbound'')) c)"

definition forward_step :: "daemon_frame \<Rightarrow> ('j, 't) cstep" where
  "forward_step f c =
     (if writer_done c then finish (Inl PeerClosed) c
      else c\<lparr>cn_commands := cn_commands c @ [WriteFrame f], cn_main := Live\<rparr>)"

definition terminal_step :: "bool \<Rightarrow> ('j, 't) cstep" where
  "terminal_step timed_out c =
     (case cn_main c of
        SendTerminal e \<Rightarrow>
          if writer_done c then finish (Inl PeerClosed) c
          else c\<lparr>cn_commands := cn_commands c @ [FrameAndWait (DF_ProtocolError e) ByMain], cn_main := AwaitReceipt e\<rparr>
      | AwaitReceipt e \<Rightarrow> finish (terminal_receipt ByMain timed_out e c) c
      | _ \<Rightarrow> c)"

definition reader_end_arm :: "('j, 't) cstep" where
  "reader_end_arm c = (case cn_reader c of ReaderDone r \<Rightarrow> finish r c | _ \<Rightarrow> c)"

definition writer_end_arm :: "('j, 't) cstep" where
  "writer_end_arm c = (case cn_writer c of WriterDone r \<Rightarrow> c\<lparr>cn_main := AwaitReader r\<rparr> | _ \<Rightarrow> c)"

text \<open>The hundred milliseconds in which the reader's result is preferred to the writer's.\<close>

definition grace_step :: "bool \<Rightarrow> 'j outcome \<Rightarrow> ('j, 't) cstep" where
  "grace_step timed_out r c = (case cn_reader c of ReaderDone r' \<Rightarrow> finish r' c | _ \<Rightarrow> if timed_out then finish r c else c)"

section \<open>The supervisor\<close>

text \<open>The beginning of \<open>connect_once\<close>, up to the two spawned tasks.\<close>

datatype dial = DialFailed string | HelloLate | HelloFailed string | HelloSent

definition new_connection :: "connection_phase \<Rightarrow> ('j, 't) connection" where
  "new_connection p =
     \<lparr>cn_phase = p, cn_main = AwaitWelcome, cn_reader = Reading, cn_writer = Writing, cn_incoming = [], cn_commands = [],
      cn_controls = [], cn_receipts = [], cn_read = [], cn_received = [], cn_consumed = [], cn_events = [], cn_taken = [], cn_sent = []\<rparr>"

definition open_connection :: "('j, 't) link_env \<Rightarrow> dial \<Rightarrow> 'j connection_error + ('j, 't) connection" where
  "open_connection env d =
     (case d of
        DialFailed reason \<Rightarrow> Inl (Connect reason)
      | _ \<Rightarrow>
          and_then (map_err ProtocolFailed (encode_daemon_frame (le_to_string env) (DF_Hello (le_hello env)))) (\<lambda>_.
          case d of
            HelloLate \<Rightarrow> Inl (HandshakeTimeout ''hello'')
          | HelloFailed reason \<Rightarrow> Inl (Socket reason)
          | _ \<Rightarrow> and_then (hello_sent Connecting) (\<lambda>p. Inr (new_connection p))))"

definition u32_saturating_inc :: "u32 \<Rightarrow> u32" where
  "u32_saturating_inc a = (if a = - 1 then a else a + 1)"

text \<open>The match of \<open>run_with_control\<close> on the result of a connection. The frames a connection took and did not write are lost
  with its writer's channel.\<close>

definition after_connection :: "('j, 't) link_env \<Rightarrow> 'j outcome \<Rightarrow> ('j, 't) link \<Rightarrow> ('j, 't) link" where
  "after_connection env r l =
     (case r of
        Inr _ \<Rightarrow> l\<lparr>lk_conn := None, lk_last := lk_conn l, lk_result := Some (Inr ())\<rparr>
      | Inl e \<Rightarrow>
          if failure_class e = Retryable
          then l\<lparr>lk_conn := None, lk_last := lk_conn l, lk_sleeps := lk_sleeps l @ [delay (le_backoff env) (lk_attempt l)], lk_attempt := u32_saturating_inc (lk_attempt l)\<rparr>
          else l\<lparr>lk_conn := None, lk_last := lk_conn l, lk_result := Some (Inl e)\<rparr>)"

definition connect_step :: "('j, 't) link_env \<Rightarrow> dial \<Rightarrow> ('j, 't) link \<Rightarrow> ('j, 't) link" where
  "connect_step env d l =
     (case open_connection env d of
        Inl e \<Rightarrow> after_connection env (Inl e) l
      | Inr c \<Rightarrow> l\<lparr>lk_conn := Some c, lk_wire := lk_wire l @ [(FromSupervisor, DF_Hello (le_hello env))]\<rparr>)"

definition on_conn :: "('j, 't) connection \<Rightarrow> ('j, 't) link \<Rightarrow> ('j, 't) link" where
  "on_conn c l = l\<lparr>lk_conn := Some c\<rparr>"

text \<open>\<open>reset_transport_backoff\<close> follows the phase change of the ready signal.\<close>

definition link_ready :: "signal \<Rightarrow> ('j, 't) connection \<Rightarrow> ('j, 't) link \<Rightarrow> ('j, 't) link" where
  "link_ready s c l =
     (let c' = ready_step s c
      in if cn_main c' = Live then (on_conn c' l)\<lparr>lk_attempt := 0, lk_sleeps := []\<rparr>
         else (on_conn c' l)\<lparr>lk_signal_dropped := lk_signal_dropped l \<or> s = SignalDropped\<rparr>)"

definition control_arm :: "('j, 't) connection \<Rightarrow> ('j, 't) link \<Rightarrow> ('j, 't) link" where
  "control_arm c l =
     (if 0 < lk_control l then on_conn (finish (Inl PeerClosed) c) (l\<lparr>lk_control := lk_control l - 1\<rparr>)
      else on_conn (finish (Inl (ChannelClosed ''control'')) c) l)"

definition outbound_arm :: "('j, 't) connection \<Rightarrow> ('j, 't) link \<Rightarrow> ('j, 't) link" where
  "outbound_arm c l =
     (case lk_outbound l of
        [] \<Rightarrow> on_conn (finish (Inl (ChannelClosed ''outbound'')) c) l
      | DF_ProtocolError e # rest \<Rightarrow>
          on_conn (c\<lparr>cn_main := SendTerminal e, cn_taken := cn_taken c @ [DF_ProtocolError e]\<rparr>) (l\<lparr>lk_outbound := rest, lk_taken := lk_taken l @ [DF_ProtocolError e]\<rparr>)
      | f # rest \<Rightarrow>
          on_conn (c\<lparr>cn_main := Forward f, cn_taken := cn_taken c @ [f]\<rparr>) (l\<lparr>lk_outbound := rest, lk_taken := lk_taken l @ [f]\<rparr>))"

definition link_write :: "('j, 't) link_env \<Rightarrow> string + unit \<Rightarrow> ('j, 't) connection \<Rightarrow> ('j, 't) link \<Rightarrow> ('j, 't) link" where
  "link_write env sent c l =
     (let c' = write_command env sent c
      in (on_conn c' l)\<lparr>lk_wire := lk_wire l @ drop (length (cn_sent c)) (cn_sent c')\<rparr>)"

text \<open>A running connection: its main task has not returned.\<close>

definition running :: "('j, 't) connection \<Rightarrow> bool" where
  "running c \<longleftrightarrow> (\<forall>r. cn_main c \<noteq> MainDone r)"

inductive link_step :: "('j, 't) link_env \<Rightarrow> ('j, 't) link \<Rightarrow> ('j, 't) link \<Rightarrow> bool" for env where
  dial: "lk_conn l = None \<Longrightarrow> lk_result l = None \<Longrightarrow> link_step env l (connect_step env d l)"
| returned: "lk_conn l = Some c \<Longrightarrow> cn_main c = MainDone r \<Longrightarrow> link_step env l (after_connection env r l)"
| read: "lk_conn l = Some c \<Longrightarrow> running c \<Longrightarrow> cn_reader c = Reading \<Longrightarrow> link_step env l (on_conn (read_step env item c) l)"
| read_on: "lk_conn l = Some c \<Longrightarrow> running c \<Longrightarrow> reader_can_continue timed_out c \<Longrightarrow> link_step env l (on_conn (reader_continue timed_out c) l)"
| write_pong: "lk_conn l = Some c \<Longrightarrow> running c \<Longrightarrow> cn_writer c = Writing \<Longrightarrow> cn_controls c \<noteq> [] \<or> reader_done c
    \<Longrightarrow> link_step env l (on_conn (write_control sent c) l)"
| write_next: "lk_conn l = Some c \<Longrightarrow> running c \<Longrightarrow> cn_writer c = Writing \<Longrightarrow> cn_commands c \<noteq> [] \<Longrightarrow> link_step env l (link_write env sent c l)"
| welcomed: "lk_conn l = Some c \<Longrightarrow> cn_main c = AwaitWelcome \<Longrightarrow> can_receive timed_out c \<Longrightarrow> link_step env l (on_conn (welcome_step timed_out c) l)"
| reconcile: "lk_conn l = Some c \<Longrightarrow> cn_main c = AwaitReconcile w \<Longrightarrow> can_receive timed_out c
    \<Longrightarrow> link_step env l (on_conn (reconcile_step timed_out w c) l)"
| announce: "lk_conn l = Some c \<Longrightarrow> cn_main c = Announce h \<Longrightarrow> link_step env l (on_conn (announce_step timed_out (lk_inbound_open l) h c) l)"
| ready: "lk_conn l = Some c \<Longrightarrow> cn_main c = AwaitReady \<Longrightarrow> link_step env l (link_ready s c l)"
| control: "lk_conn l = Some c \<Longrightarrow> cn_main c = Live \<Longrightarrow> 0 < lk_control l \<or> \<not> lk_control_open l \<Longrightarrow> link_step env l (control_arm c l)"
| incoming: "lk_conn l = Some c \<Longrightarrow> cn_main c = Live \<Longrightarrow> can_receive False c \<Longrightarrow> link_step env l (on_conn (incoming_arm c) l)"
| deliver: "lk_conn l = Some c \<Longrightarrow> cn_main c = Deliver f \<Longrightarrow> link_step env l (on_conn (deliver_step (lk_inbound_open l) f c) l)"
| outbound: "lk_conn l = Some c \<Longrightarrow> cn_main c = Live \<Longrightarrow> allows_application_traffic (cn_phase c)
    \<Longrightarrow> lk_outbound l \<noteq> [] \<or> \<not> lk_outbound_open l \<Longrightarrow> link_step env l (outbound_arm c l)"
| forward: "lk_conn l = Some c \<Longrightarrow> cn_main c = Forward f \<Longrightarrow> writer_done c \<or> length (cn_commands c) < OUTBOUND_QUEUE_CAPACITY
    \<Longrightarrow> link_step env l (on_conn (forward_step f c) l)"
| send_terminal: "lk_conn l = Some c \<Longrightarrow> cn_main c = SendTerminal e \<Longrightarrow> writer_done c \<or> length (cn_commands c) < OUTBOUND_QUEUE_CAPACITY
    \<Longrightarrow> link_step env l (on_conn (terminal_step False c) l)"
| receipt: "lk_conn l = Some c \<Longrightarrow> cn_main c = AwaitReceipt e \<Longrightarrow> receipt_settled ByMain timed_out c
    \<Longrightarrow> link_step env l (on_conn (terminal_step timed_out c) l)"
| reader_end: "lk_conn l = Some c \<Longrightarrow> cn_main c = Live \<Longrightarrow> reader_done c \<Longrightarrow> link_step env l (on_conn (reader_end_arm c) l)"
| writer_end: "lk_conn l = Some c \<Longrightarrow> cn_main c = Live \<Longrightarrow> writer_done c \<Longrightarrow> link_step env l (on_conn (writer_end_arm c) l)"
| grace: "lk_conn l = Some c \<Longrightarrow> cn_main c = AwaitReader r \<Longrightarrow> timed_out \<or> reader_done c \<Longrightarrow> link_step env l (on_conn (grace_step timed_out r c) l)"
| host_sends: "lk_outbound_open l \<Longrightarrow> length (lk_outbound l) < OUTBOUND_QUEUE_CAPACITY
    \<Longrightarrow> link_step env l (l\<lparr>lk_outbound := lk_outbound l @ [f], lk_accepted := lk_accepted l @ [f]\<rparr>)"
| host_closes: "lk_control_open l \<Longrightarrow> lk_control l = 0 \<Longrightarrow> link_step env l (l\<lparr>lk_control := 1\<rparr>)"
| host_drops: "(outbound \<longrightarrow> lk_outbound_open l) \<Longrightarrow> (control \<longrightarrow> lk_control_open l) \<Longrightarrow> (inbound \<longrightarrow> lk_inbound_open l)
    \<Longrightarrow> link_step env l (l\<lparr>lk_outbound_open := outbound, lk_control_open := control, lk_inbound_open := inbound\<rparr>)"

definition new_link :: "('j, 't) link" where
  "new_link = \<lparr>lk_attempt = 0, lk_outbound = [], lk_outbound_open = True, lk_control = 0, lk_control_open = True,
     lk_inbound_open = True, lk_conn = None, lk_result = None, lk_accepted = [], lk_taken = [], lk_wire = [], lk_sleeps = [],
     lk_signal_dropped = False, lk_last = None\<rparr>"

inductive link_run :: "('j, 't) link_env \<Rightarrow> ('j, 't) link \<Rightarrow> bool" for env where
  run_start: "link_run env new_link"
| run_step: "link_run env l \<Longrightarrow> link_step env l l' \<Longrightarrow> link_run env l'"

section \<open>Invariants\<close>

text \<open>What holds at the start and survives every step holds in every run.\<close>

locale link_invariant =
  fixes env :: "('j, 't) link_env"
    and inv :: "('j, 't) link \<Rightarrow> bool"
  assumes start: "inv new_link"
    and step: "link_step env l l' \<Longrightarrow> inv l \<Longrightarrow> inv l'"
begin

lemma always: "link_run env l \<Longrightarrow> inv l"
  by (induction rule: link_run.induct) (auto intro: start step)

end

definition app_frame :: "server_frame \<Rightarrow> bool" where
  "app_frame f = (case f of SF_Command _ \<Rightarrow> True | SF_EventAck _ \<Rightarrow> True | _ \<Rightarrow> False)"

text \<open>The events of a connection: none, or the handshake of the first two frames followed by application frames in the order received.\<close>

definition opened :: "handshake_result \<Rightarrow> server_frame list \<Rightarrow> server_frame list \<Rightarrow> ('j, 't) connection \<Rightarrow> bool" where
  "opened h fs rest c \<longleftrightarrow> cn_consumed c = SF_Welcome (hs_welcome h) # SF_Reconcile (hs_reconciliation h) # fs @ rest
     \<and> cn_events c = HandshakeComplete h # map EventFrame fs \<and> list_all app_frame fs"

fun gate_ok :: "'j main_task \<Rightarrow> ('j, 't) connection \<Rightarrow> bool" where
  "gate_ok AwaitWelcome c \<longleftrightarrow> cn_phase c = AwaitingWelcome \<and> cn_consumed c = [] \<and> cn_events c = []"
| "gate_ok (AwaitReconcile w) c \<longleftrightarrow> cn_phase c = Reconciling \<and> cn_consumed c = [SF_Welcome w] \<and> cn_events c = []"
| "gate_ok (Announce h) c \<longleftrightarrow> cn_phase c = ReconciliationReceived
     \<and> cn_consumed c = [SF_Welcome (hs_welcome h), SF_Reconcile (hs_reconciliation h)] \<and> cn_events c = []"
| "gate_ok AwaitReady c \<longleftrightarrow> cn_phase c = ReconciliationReceived \<and> (\<exists>h. opened h [] [] c)"
| "gate_ok (Deliver f) c \<longleftrightarrow> cn_phase c = Active \<and> app_frame f \<and> (\<exists>h fs. opened h fs [f] c)"
| "gate_ok (MainDone r) c \<longleftrightarrow> cn_events c = [] \<or> (\<exists>h fs rest. opened h fs rest c \<and> (fs \<noteq> [] \<longrightarrow> cn_phase c = Active))"
| "gate_ok _ c \<longleftrightarrow> cn_phase c = Active \<and> (\<exists>h fs. opened h fs [] c)"

definition traffic_ok :: "('j, 't) connection \<Rightarrow> bool" where
  "traffic_ok c \<longleftrightarrow> cn_received c = cn_consumed c @ cn_incoming c \<and> gate_ok (cn_main c) c \<and> (cn_taken c \<noteq> [] \<longrightarrow> cn_phase c = Active)"

definition conn_inv :: "(('j, 't) connection \<Rightarrow> bool) \<Rightarrow> ('j, 't) link \<Rightarrow> bool" where
  "conn_inv P l = (case lk_conn l of None \<Rightarrow> True | Some c \<Rightarrow> P c)"

text \<open>The tasks beside the main task change neither the phase nor what the main task has seen and done.\<close>

definition beside :: "('j, 't) connection \<Rightarrow> ('j, 't) connection \<Rightarrow> bool" where
  "beside c c' \<longleftrightarrow> cn_main c' = cn_main c \<and> cn_phase c' = cn_phase c \<and> cn_consumed c' = cn_consumed c \<and> cn_events c' = cn_events c
     \<and> cn_taken c' = cn_taken c \<and> (\<exists>fs. cn_incoming c' = cn_incoming c @ fs \<and> cn_received c' = cn_received c @ fs)"

lemma beside_tasks: "beside c (read_step env item c)" "beside c (reader_continue timed_out c)" "beside c (write_control sent c)"
    "beside c (write_command env sent c)"
  by (auto simp: beside_def read_step_def reader_continue_def push_incoming_def write_control_def write_command_def
      split: reader_task.splits list.splits sum.splits writer_command.splits)

lemma beside_traffic: "beside c c' \<Longrightarrow> traffic_ok c \<Longrightarrow> traffic_ok c'"
proof -
  assume b: "beside c c'" and t: "traffic_ok c"
  have "gate_ok m c' = gate_ok m c" if "beside c c'" for m using that by (cases m) (auto simp: beside_def opened_def)
  then show ?thesis using b t by (auto simp: traffic_ok_def beside_def)
qed

lemma traffic_finish: "traffic_ok c \<Longrightarrow> traffic_ok (finish r c)"
proof -
  assume t: "traffic_ok c"
  have "gate_ok m c \<Longrightarrow> gate_ok (MainDone r) (finish r c)" for m
    by (cases m) (force simp: opened_def finish_def)+
  then show ?thesis using t by (auto simp: traffic_ok_def finish_def)
qed

lemma pop_incoming_Some:
  assumes "pop_incoming c = (Some f, c')"
  shows "c' = c\<lparr>cn_incoming := tl (cn_incoming c), cn_consumed := cn_consumed c @ [f]\<rparr>" "cn_incoming c = f # tl (cn_incoming c)"
  using assms by (auto simp: pop_incoming_def split: list.splits)

lemma receive_frame_Inr: "receive_frame timed_out stage c = (Inr f, c') \<Longrightarrow> pop_incoming c = (Some f, c')"
  by (auto simp: receive_frame_def split: if_splits prod.splits option.splits)

lemma receive_frame_Inl: "receive_frame timed_out stage c = (Inl e, c') \<Longrightarrow> c' = c"
  by (auto simp: receive_frame_def pop_incoming_def split: if_splits prod.splits option.splits list.splits)

text \<open>A frame that was taken from the channel and ends the connection.\<close>

lemma traffic_popped_finish:
  assumes t: "traffic_ok c" and pop: "pop_incoming c = (Some f, c')" and m: "\<forall>g. cn_main c \<noteq> Deliver g"
  shows "traffic_ok (finish r c')"
proof -
  have "gate_ok m c \<Longrightarrow> m = cn_main c \<Longrightarrow> gate_ok (MainDone r) (finish r c')" for m
    using m by (cases m) (force simp: opened_def finish_def pop_incoming_Some(1)[OF pop])+
  then show ?thesis using t pop_incoming_Some[OF pop] by (auto simp: traffic_ok_def finish_def)
qed

lemma traffic_welcome:
  assumes t: "traffic_ok c" and m: "cn_main c = AwaitWelcome"
  shows "traffic_ok (welcome_step timed_out c)"
proof (cases "receive_frame timed_out ''welcome'' c")
  case (Pair r c')
  show ?thesis
  proof (cases r)
    case (Inl e)
    then show ?thesis using Pair receive_frame_Inl[of timed_out "''welcome''" c e c'] traffic_finish[OF t] by (simp add: welcome_step_def)
  next
    case (Inr f)
    then have pop: "pop_incoming c = (Some f, c')" using receive_frame_Inr Pair by blast
    note stop = traffic_popped_finish[OF t pop]
    show ?thesis
    proof (cases f)
      case (SF_Welcome w)
      then show ?thesis using t m Pair Inr pop_incoming_Some[OF pop]
        by (auto simp: welcome_step_def traffic_ok_def welcome_received_def begin_reconciliation_def)
    qed (use stop m Pair Inr in \<open>simp_all add: welcome_step_def\<close>)
  qed
qed

lemma traffic_reconcile:
  assumes t: "traffic_ok c" and m: "cn_main c = AwaitReconcile w"
  shows "traffic_ok (reconcile_step timed_out w c)"
proof (cases "receive_frame timed_out ''reconciliation'' c")
  case (Pair r c')
  show ?thesis
  proof (cases r)
    case (Inl e)
    then show ?thesis using Pair receive_frame_Inl[of timed_out "''reconciliation''" c e c'] traffic_finish[OF t] by (simp add: reconcile_step_def)
  next
    case (Inr f)
    then have pop: "pop_incoming c = (Some f, c')" using receive_frame_Inr Pair by blast
    note stop = traffic_popped_finish[OF t pop]
    show ?thesis
    proof (cases f)
      case (SF_Reconcile rs)
      then show ?thesis using t m Pair Inr pop_incoming_Some[OF pop]
        by (auto simp: reconcile_step_def traffic_ok_def reconciliation_received_def)
    qed (use stop m Pair Inr in \<open>simp_all add: reconcile_step_def\<close>)
  qed
qed

lemma traffic_incoming:
  assumes t: "traffic_ok c" and m: "cn_main c = Live"
  shows "traffic_ok (incoming_arm c)"
proof (cases "pop_incoming c")
  case (Pair r c')
  show ?thesis
  proof (cases r)
    case None
    then have "c' = c" using Pair by (auto simp: pop_incoming_def split: list.splits)
    then show ?thesis using None Pair t traffic_finish[OF t] by (simp add: incoming_arm_def split: reader_task.splits)
  next
    case (Some f)
    then have pop: "pop_incoming c = (Some f, c')" using Pair by blast
    note stop = traffic_popped_finish[OF t pop]
    have "traffic_ok (c'\<lparr>cn_main := Deliver f\<rparr>)" if "app_frame f"
      using t m that pop_incoming_Some[OF pop] by (auto simp: traffic_ok_def opened_def)
    then show ?thesis using stop m pop by (cases f) (simp_all add: incoming_arm_def app_frame_def)
  qed
qed

lemma traffic_announce: "traffic_ok c \<Longrightarrow> cn_main c = Announce h \<Longrightarrow> traffic_ok (announce_step timed_out inbound_open h c)"
  using traffic_finish[of c] by (auto simp: announce_step_def traffic_ok_def opened_def)

lemma traffic_ready: "traffic_ok c \<Longrightarrow> cn_main c = AwaitReady \<Longrightarrow> traffic_ok (ready_step s c)"
  using traffic_finish[of c] by (auto simp: ready_step_def coordination_ready_def traffic_ok_def opened_def split: signal.splits)

lemma traffic_deliver: "traffic_ok c \<Longrightarrow> cn_main c = Deliver f \<Longrightarrow> traffic_ok (deliver_step inbound_open f c)"
proof -
  assume t: "traffic_ok c" and m: "cn_main c = Deliver f"
  then obtain h fs where "opened h fs [f] c" "app_frame f" "cn_phase c = Active" by (auto simp: traffic_ok_def)
  then have "opened h (fs @ [f]) [] (c\<lparr>cn_events := cn_events c @ [EventFrame f], cn_main := Live\<rparr>)" by (simp add: opened_def)
  then show ?thesis using t traffic_finish[OF t] \<open>cn_phase c = Active\<close> by (auto simp: deliver_step_def traffic_ok_def)
qed

fun live :: "'j main_task \<Rightarrow> bool" where
  "live Live = True" | "live (Forward _) = True" | "live (SendTerminal _) = True" | "live (AwaitReceipt _) = True"
| "live (AwaitReader _) = True" | "live _ = False"

lemma traffic_live:
  assumes "traffic_ok c" "live (cn_main c)" "live (cn_main c')"
    and "cn_phase c' = cn_phase c" "cn_consumed c' = cn_consumed c" "cn_events c' = cn_events c"
      "cn_incoming c' = cn_incoming c" "cn_received c' = cn_received c"
  shows "traffic_ok c'"
proof -
  have "live m \<Longrightarrow> gate_ok m x \<longleftrightarrow> cn_phase x = Active \<and> (\<exists>h fs. opened h fs [] x)" for m and x :: "('j, 't) connection"
    by (cases m) auto
  then have "gate_ok (cn_main c) c = (cn_phase c = Active \<and> (\<exists>h fs. opened h fs [] c))"
    "gate_ok (cn_main c') c' = (cn_phase c' = Active \<and> (\<exists>h fs. opened h fs [] c'))" using assms(2,3) by blast+
  then show ?thesis using assms(1,4-8) by (auto simp: traffic_ok_def opened_def)
qed

lemma traffic_arms:
  assumes t: "traffic_ok c"
  shows "cn_main c = Forward f \<Longrightarrow> traffic_ok (forward_step f c)"
    "cn_main c = SendTerminal e \<Longrightarrow> traffic_ok (terminal_step timed_out c)"
    "cn_main c = AwaitReceipt e \<Longrightarrow> traffic_ok (terminal_step timed_out c)"
    "cn_main c = Live \<Longrightarrow> traffic_ok (reader_end_arm c)"
    "cn_main c = Live \<Longrightarrow> traffic_ok (writer_end_arm c)"
    "cn_main c = AwaitReader r \<Longrightarrow> traffic_ok (grace_step timed_out r c)"
  using t
  by (auto simp: forward_step_def terminal_step_def reader_end_arm_def writer_end_arm_def grace_step_def
      intro: traffic_finish[OF t] traffic_live[OF t] split: reader_task.splits writer_task.splits)

lemma traffic_new: "traffic_ok (new_connection AwaitingWelcome)"
  by (simp add: traffic_ok_def new_connection_def)

lemma open_connection_Inr: "open_connection env d = Inr c \<Longrightarrow> c = new_connection AwaitingWelcome"
  by (auto simp: open_connection_def and_then_Inr_iff hello_sent_def split: dial.splits)

lemma conn_inv_on_conn [simp]: "conn_inv P (on_conn c l) = P c"
  by (simp add: conn_inv_def on_conn_def)

lemma conn_inv_idle [simp]: "lk_conn l = None \<Longrightarrow> conn_inv P l"
  by (simp add: conn_inv_def)

lemma after_connection_conn [simp]: "lk_conn (after_connection env r l) = None"
  by (simp add: after_connection_def split: sum.splits)

lemma conn_inv_connect: "P (new_connection AwaitingWelcome) \<Longrightarrow> conn_inv P (connect_step env d l)"
  using open_connection_Inr[of env d] by (auto simp: connect_step_def conn_inv_def split: sum.splits)

lemma conn_inv_cong: "lk_conn l' = lk_conn l \<Longrightarrow> conn_inv P l' = conn_inv P l"
  by (simp add: conn_inv_def)

lemma conn_invD: "conn_inv P l \<Longrightarrow> lk_conn l = Some c \<Longrightarrow> P c"
  by (simp add: conn_inv_def)

lemma lk_conn_arms: "lk_conn (link_ready s c l) = Some (ready_step s c)" "lk_conn (link_write env sent c l) = Some (write_command env sent c)"
    "\<exists>r. lk_conn (control_arm c l) = Some (finish r c)"
  by (auto simp: link_ready_def Let_def on_conn_def link_write_def control_arm_def)

lemma lk_conn_outbound:
  obtains (none) r where "lk_conn (outbound_arm c l) = Some (finish r c)"
  | (error) e where "lk_conn (outbound_arm c l) = Some (c\<lparr>cn_main := SendTerminal e, cn_taken := cn_taken c @ [DF_ProtocolError e]\<rparr>)"
  | (frame) f where "lk_conn (outbound_arm c l) = Some (c\<lparr>cn_main := Forward f, cn_taken := cn_taken c @ [f]\<rparr>)"
  by (cases "lk_outbound l"; cases "hd (lk_outbound l)") (auto simp: outbound_arm_def on_conn_def)

text \<open>An invariant of the connections: it holds at the start of one, and each task's next move keeps it.\<close>

locale connection_invariant =
  fixes env :: "('j, 't) link_env"
    and P :: "('j, 't) connection \<Rightarrow> bool"
  assumes new: "P (new_connection AwaitingWelcome)"
    and finished: "P c \<Longrightarrow> cn_main c = Live \<Longrightarrow> e = PeerClosed \<or> (\<exists>side. e = ChannelClosed side) \<Longrightarrow> P (finish (Inl e) c)"
    and reads: "P c \<Longrightarrow> running c \<Longrightarrow> P (read_step env item c)"
    and reads_on: "P c \<Longrightarrow> running c \<Longrightarrow> reader_can_continue late c \<Longrightarrow> P (reader_continue late c)"
    and writes_control: "P c \<Longrightarrow> cn_writer c = Writing \<Longrightarrow> P (write_control sent c)"
    and writes: "P c \<Longrightarrow> running c \<Longrightarrow> cn_writer c = Writing \<Longrightarrow> cn_commands c \<noteq> [] \<Longrightarrow> P (write_command env sent c)"
    and welcomes: "P c \<Longrightarrow> cn_main c = AwaitWelcome \<Longrightarrow> P (welcome_step late c)"
    and reconciles: "P c \<Longrightarrow> cn_main c = AwaitReconcile w \<Longrightarrow> P (reconcile_step late w c)"
    and announces: "P c \<Longrightarrow> cn_main c = Announce h \<Longrightarrow> P (announce_step late inbound_open h c)"
    and readies: "P c \<Longrightarrow> cn_main c = AwaitReady \<Longrightarrow> P (ready_step s c)"
    and receives: "P c \<Longrightarrow> cn_main c = Live \<Longrightarrow> P (incoming_arm c)"
    and delivers: "P c \<Longrightarrow> cn_main c = Deliver f \<Longrightarrow> P (deliver_step inbound_open f c)"
    and takes_error: "P c \<Longrightarrow> cn_main c = Live \<Longrightarrow> allows_application_traffic (cn_phase c)
        \<Longrightarrow> P (c\<lparr>cn_main := SendTerminal pe, cn_taken := cn_taken c @ [DF_ProtocolError pe]\<rparr>)"
    and takes: "P c \<Longrightarrow> cn_main c = Live \<Longrightarrow> allows_application_traffic (cn_phase c) \<Longrightarrow> P (c\<lparr>cn_main := Forward g, cn_taken := cn_taken c @ [g]\<rparr>)"
    and forwards: "P c \<Longrightarrow> cn_main c = Forward g \<Longrightarrow> P (forward_step g c)"
    and sends_error: "P c \<Longrightarrow> cn_main c = SendTerminal pe \<Longrightarrow> P (terminal_step late c)"
    and settles: "P c \<Longrightarrow> cn_main c = AwaitReceipt pe \<Longrightarrow> P (terminal_step late c)"
    and reader_ends: "P c \<Longrightarrow> cn_main c = Live \<Longrightarrow> P (reader_end_arm c)"
    and writer_ends: "P c \<Longrightarrow> cn_main c = Live \<Longrightarrow> P (writer_end_arm c)"
    and waits: "P c \<Longrightarrow> cn_main c = AwaitReader q \<Longrightarrow> P (grace_step late q c)"
begin

lemma keeps:
  assumes "link_step env l l'" "conn_inv P l"
  shows "conn_inv P l'"
  using assms(1)
proof cases
  case (control c)
  then show ?thesis using finished[OF conn_invD[OF assms(2)]] by (simp add: control_arm_def)
next
  case (outbound c)
  note c = conn_invD[OF assms(2) outbound(2)]
  have "P (finish (Inl (ChannelClosed side)) c)" for side using finished[OF c] outbound(3) by simp
  then show ?thesis unfolding outbound(1) using takes_error[OF c outbound(3,4)] takes[OF c outbound(3,4)]
    by (auto simp: outbound_arm_def split: list.splits daemon_frame.splits)
next
  case (ready c s)
  then show ?thesis using readies[OF conn_invD[OF assms(2)]] by (simp add: conn_inv_def lk_conn_arms(1))
next
  case (write_next c sent)
  then show ?thesis using writes[OF conn_invD[OF assms(2)]] by (simp add: conn_inv_def lk_conn_arms(2))
next
  case (dial d)
  then show ?thesis by (simp add: conn_inv_connect new)
next
  case (host_sends f)
  then show ?thesis using assms(2) by (simp add: conn_inv_def)
next
  case host_closes
  then show ?thesis using assms(2) by (simp add: conn_inv_def)
next
  case (host_drops outbound control inbound)
  then show ?thesis using assms(2) by (simp add: conn_inv_def)
qed (use conn_invD[OF assms(2)] in \<open>simp_all add: reads reads_on writes_control welcomes reconciles announces
    receives delivers forwards sends_error settles reader_ends writer_ends waits\<close>)

end

sublocale connection_invariant \<subseteq> link_invariant env "conn_inv P"
proof
  show "conn_inv P new_link" by (simp add: conn_inv_def new_link_def)
qed (rule keeps)

interpretation traffic: connection_invariant env traffic_ok for env :: "('j, 't) link_env"
proof
  fix c :: "('j, 't) connection" and g
  assume c: "traffic_ok c" "cn_main c = Live" "allows_application_traffic (cn_phase c)"
  show "traffic_ok (c\<lparr>cn_main := Forward g, cn_taken := cn_taken c @ [g]\<rparr>)" by (rule traffic_live[OF c(1)]) (use c in simp_all)
next
  fix c :: "('j, 't) connection" and pe
  assume c: "traffic_ok c" "cn_main c = Live" "allows_application_traffic (cn_phase c)"
  show "traffic_ok (c\<lparr>cn_main := SendTerminal pe, cn_taken := cn_taken c @ [DF_ProtocolError pe]\<rparr>)" by (rule traffic_live[OF c(1)]) (use c in simp_all)
qed (auto intro: traffic_new traffic_finish beside_traffic[OF beside_tasks(1)] beside_traffic[OF beside_tasks(2)]
    beside_traffic[OF beside_tasks(3)] beside_traffic[OF beside_tasks(4)] traffic_welcome traffic_reconcile traffic_announce
    traffic_ready traffic_incoming traffic_deliver traffic_arms)

section \<open>Every connection ends with an error\<close>

definition errors_ok :: "('j, 't) connection \<Rightarrow> bool" where
  "errors_ok c \<longleftrightarrow> (case cn_main c of MainDone r \<Rightarrow> isl r | AwaitReader r \<Rightarrow> isl r | _ \<Rightarrow> True)
     \<and> (case cn_reader c of ReaderDone r \<Rightarrow> isl r | ForwardError _ r \<Rightarrow> isl r | _ \<Rightarrow> True)
     \<and> (case cn_writer c of WriterDone r \<Rightarrow> isl r | _ \<Rightarrow> True)"

lemma isl_terminal_receipt: "isl (terminal_receipt w timed_out e c)"
  by (simp add: terminal_receipt_def split: option.splits sum.splits)

lemma errors_main:
  assumes "errors_ok c" "cn_reader c' = cn_reader c" "cn_writer c' = cn_writer c" "case cn_main c' of MainDone r \<Rightarrow> isl r | AwaitReader r \<Rightarrow> isl r | _ \<Rightarrow> True"
  shows "errors_ok c'"
  using assms by (simp add: errors_ok_def)

lemma pop_incoming_keeps: "pop_incoming c = (r, c') \<Longrightarrow> cn_reader c' = cn_reader c \<and> cn_writer c' = cn_writer c \<and> cn_main c' = cn_main c
    \<and> cn_taken c' = cn_taken c \<and> cn_sent c' = cn_sent c \<and> cn_commands c' = cn_commands c"
  by (auto simp: pop_incoming_def split: list.splits)

lemma receive_frame_keeps: "receive_frame timed_out stage c = (r, c') \<Longrightarrow> cn_reader c' = cn_reader c \<and> cn_writer c' = cn_writer c \<and> cn_main c' = cn_main c
    \<and> cn_taken c' = cn_taken c \<and> cn_sent c' = cn_sent c \<and> cn_commands c' = cn_commands c"
  by (auto simp: receive_frame_def dest: pop_incoming_keeps split: if_splits prod.splits option.splits)

text \<open>The handshake and the incoming arm end with an error or go on, and touch neither the other tasks nor the frames on their way out.\<close>

definition moves_on :: "('j, 't) connection \<Rightarrow> ('j, 't) connection \<Rightarrow> bool" where
  "moves_on c c' \<longleftrightarrow> cn_reader c' = cn_reader c \<and> cn_writer c' = cn_writer c \<and> cn_taken c' = cn_taken c \<and> cn_sent c' = cn_sent c
     \<and> cn_commands c' = cn_commands c \<and> (\<forall>f. cn_main c' \<noteq> Forward f) \<and> (\<forall>e. cn_main c' \<noteq> SendTerminal e) \<and> (\<forall>e. cn_main c' \<noteq> AwaitReceipt e)
     \<and> (\<forall>r. cn_main c' \<noteq> AwaitReader r)
     \<and> (\<forall>r. cn_main c' = MainDone r \<longrightarrow> isl r \<or> cn_reader c = ReaderDone r)"

lemma handshake_moves_on: "moves_on c (welcome_step timed_out c)" "moves_on c (reconcile_step timed_out w c)"
    "moves_on c (announce_step timed_out inbound_open h c)" "moves_on c (ready_step s c)" "moves_on c (deliver_step inbound_open f c)"
proof -
  show "moves_on c (welcome_step timed_out c)"
    by (cases "receive_frame timed_out ''welcome'' c") (frule receive_frame_keeps, auto simp: welcome_step_def moves_on_def finish_def
      split: sum.splits server_frame.splits)
  show "moves_on c (reconcile_step timed_out w c)"
    by (cases "receive_frame timed_out ''reconciliation'' c") (frule receive_frame_keeps, auto simp: reconcile_step_def moves_on_def finish_def
      split: sum.splits server_frame.splits)
qed (auto simp: announce_step_def ready_step_def deliver_step_def moves_on_def finish_def split: signal.splits sum.splits)

lemma incoming_moves_on: "cn_main c = Live \<Longrightarrow> moves_on c (incoming_arm c)"
  by (cases "pop_incoming c") (frule pop_incoming_keeps, auto simp: incoming_arm_def moves_on_def finish_def
      split: option.splits server_frame.splits reader_task.splits)

lemma moves_on_errors: "moves_on c c' \<Longrightarrow> errors_ok c \<Longrightarrow> errors_ok c'"
  by (auto simp: errors_ok_def moves_on_def split: main_task.splits reader_task.splits)

lemma errors_new: "errors_ok (new_connection p)"
  by (simp add: errors_ok_def new_connection_def)

lemma errors_finish: "errors_ok c \<Longrightarrow> isl r \<Longrightarrow> errors_ok (finish r c)"
  by (simp add: errors_ok_def finish_def)

lemma errors_arms:
  assumes "errors_ok c"
  shows "errors_ok (c\<lparr>cn_main := SendTerminal pe, cn_taken := ts\<rparr>)" "errors_ok (c\<lparr>cn_main := Forward g, cn_taken := ts\<rparr>)" "errors_ok (forward_step g c)"
    "cn_main c = SendTerminal pe \<Longrightarrow> errors_ok (terminal_step late c)" "cn_main c = AwaitReceipt pe \<Longrightarrow> errors_ok (terminal_step late c)"
    "errors_ok (reader_end_arm c)" "errors_ok (writer_end_arm c)" "cn_main c = AwaitReader q \<Longrightarrow> errors_ok (grace_step late q c)"
  using assms isl_terminal_receipt
  by (simp_all add: errors_ok_def finish_def forward_step_def terminal_step_def reader_end_arm_def writer_end_arm_def grace_step_def
      split: reader_task.splits writer_task.splits)

interpretation errors: connection_invariant env errors_ok for env :: "('j, 't) link_env"
proof
  fix c :: "('j, 't) connection" and late
  assume "errors_ok c"
  then show "errors_ok (reader_continue late c)"
    by (auto simp: errors_ok_def reader_continue_def push_incoming_def isl_terminal_receipt split: reader_task.splits)
next
  fix c :: "('j, 't) connection" and sent
  assume "errors_ok c" "cn_writer c = Writing"
  then show "errors_ok (write_control sent c)" by (auto simp: errors_ok_def write_control_def split: list.splits sum.splits)
next
  fix c :: "('j, 't) connection" and sent
  assume "errors_ok c" "cn_writer c = Writing"
  then show "errors_ok (write_command env sent c)" by (auto simp: errors_ok_def write_command_def split: list.splits sum.splits writer_command.splits)
next
  fix c :: "('j, 't) connection" and item
  assume "errors_ok c"
  moreover have "case read_item env item of ReaderDone r \<Rightarrow> isl r | ForwardError _ r \<Rightarrow> isl r | _ \<Rightarrow> True"
    by (auto simp: read_item_def split: option.splits sum.splits ws_message.splits)
  ultimately show "errors_ok (read_step env item c)" by (simp add: errors_ok_def read_step_def)
qed (simp_all add: errors_new errors_finish errors_arms moves_on_errors[OF handshake_moves_on(1)] moves_on_errors[OF handshake_moves_on(2)]
    moves_on_errors[OF handshake_moves_on(3)] moves_on_errors[OF handshake_moves_on(4)] moves_on_errors[OF handshake_moves_on(5)]
    moves_on_errors[OF incoming_moves_on])

section \<open>Frames on their way out\<close>

fun pending :: "'j main_task \<Rightarrow> daemon_frame list" where
  "pending (Forward f) = [f]"
| "pending (SendTerminal e) = [DF_ProtocolError e]"
| "pending _ = []"

fun queued :: "writer_command list \<Rightarrow> daemon_frame list" where
  "queued [] = []"
| "queued (WriteFrame f # cs) = f # queued cs"
| "queued (FrameAndWait f ByMain # cs) = f # queued cs"
| "queued (FrameAndWait f ByReader # cs) = queued cs"

lemma queued_append [simp]: "queued (xs @ ys) = queued xs @ queued ys"
  by (induction xs rule: queued.induct) simp_all

text \<open>While the writer works, the frames taken from the host are those written, those queued and the one in hand; when it has
  ended, those written are the first of those taken.\<close>

definition from_source :: "frame_source \<Rightarrow> (frame_source \<times> daemon_frame) list \<Rightarrow> daemon_frame list" where
  "from_source s xs = map snd (filter (\<lambda>x. fst x = s) xs)"

lemma from_source_simps [simp]:
  "from_source s [] = []" "from_source s (xs @ ys) = from_source s xs @ from_source s ys"
  "from_source s ((s', f) # xs) = (if s' = s then f # from_source s xs else from_source s xs)"
  by (simp_all add: from_source_def)

definition sends_ok :: "('j, 't) connection \<Rightarrow> bool" where
  "sends_ok c \<longleftrightarrow> (if cn_writer c = Writing
     then from_source FromHost (cn_sent c) @ queued (cn_commands c) @ pending (cn_main c) = cn_taken c
     else prefix (from_source FromHost (cn_sent c)) (cn_taken c))"

lemma sends_prefix: "sends_ok c \<Longrightarrow> prefix (from_source FromHost (cn_sent c)) (cn_taken c)"
  by (metis prefix_def sends_ok_def)

lemma moves_on_sends: "moves_on c c' \<Longrightarrow> pending (cn_main c) = [] \<Longrightarrow> sends_ok c \<Longrightarrow> sends_ok c'"
proof -
  assume m: "moves_on c c'" "pending (cn_main c) = []" "sends_ok c"
  then have "pending (cn_main c') = []" by (cases "cn_main c'") (auto simp: moves_on_def)
  then show ?thesis using m by (simp add: sends_ok_def moves_on_def split: if_splits)
qed

lemma sends_new: "sends_ok (new_connection p)" and sends_read: "sends_ok c \<Longrightarrow> sends_ok (read_step env item c)"
  by (simp_all add: sends_ok_def new_connection_def read_step_def)

lemma sends_arms:
  assumes "sends_ok c"
  shows "cn_main c = Live \<Longrightarrow> sends_ok (finish r c)" "cn_main c = Live \<Longrightarrow> sends_ok (c\<lparr>cn_main := SendTerminal pe, cn_taken := cn_taken c @ [DF_ProtocolError pe]\<rparr>)"
    "cn_main c = Live \<Longrightarrow> sends_ok (c\<lparr>cn_main := Forward g, cn_taken := cn_taken c @ [g]\<rparr>)" "cn_main c = Forward g \<Longrightarrow> sends_ok (forward_step g c)"
    "cn_main c = SendTerminal pe \<Longrightarrow> sends_ok (terminal_step late c)" "cn_main c = AwaitReceipt pe \<Longrightarrow> sends_ok (terminal_step late c)"
    "cn_main c = Live \<Longrightarrow> sends_ok (reader_end_arm c)" "cn_main c = Live \<Longrightarrow> sends_ok (writer_end_arm c)" "cn_main c = AwaitReader q \<Longrightarrow> sends_ok (grace_step late q c)"
  using assms
  by (auto simp: sends_ok_def finish_def forward_step_def writer_done_def terminal_step_def reader_end_arm_def writer_end_arm_def grace_step_def
      split: reader_task.splits writer_task.splits if_splits)

interpretation sends: connection_invariant env sends_ok for env :: "('j, 't) link_env"
proof
  fix c :: "('j, 't) connection" and late
  assume "sends_ok c"
  then show "sends_ok (reader_continue late c)"
    by (simp add: sends_ok_def reader_continue_def push_incoming_def split: reader_task.splits)
next
  fix c :: "('j, 't) connection" and sent
  assume "sends_ok c" "cn_writer c = Writing"
  then show "sends_ok (write_control sent c)" using sends_prefix[of c] by (auto simp: sends_ok_def write_control_def split: list.splits sum.splits)
next
  fix c :: "('j, 't) connection" and sent
  assume "sends_ok c" "cn_writer c = Writing"
  then show "sends_ok (write_command env sent c)" using sends_prefix[of c]
    by (auto simp: sends_ok_def write_command_def waiter_source_def split: list.splits sum.splits writer_command.splits waiter.splits)
qed (simp_all add: sends_arms sends_new sends_read
    moves_on_sends[OF handshake_moves_on(1)] moves_on_sends[OF handshake_moves_on(2)]
    moves_on_sends[OF handshake_moves_on(3)] moves_on_sends[OF handshake_moves_on(4)] moves_on_sends[OF handshake_moves_on(5)]
    moves_on_sends[OF incoming_moves_on])

definition same_out :: "('j, 't) connection \<Rightarrow> ('j, 't) connection \<Rightarrow> bool" where
  "same_out c c' \<longleftrightarrow> cn_taken c' = cn_taken c \<and> cn_sent c' = cn_sent c"

lemma moves_on_out: "moves_on c c' \<Longrightarrow> same_out c c'"
  by (simp add: same_out_def moves_on_def)

lemma same_out_steps: "same_out c (read_step env item c)" "same_out c (reader_continue late c)" "same_out c (write_control sent c)"
    "same_out c (finish r c)" "same_out c (forward_step g c)" "same_out c (terminal_step late c)" "same_out c (reader_end_arm c)"
    "same_out c (writer_end_arm c)" "same_out c (grace_step late q c)" "cn_main c = Live \<Longrightarrow> same_out c (incoming_arm c)"
  by (auto simp: same_out_def read_step_def reader_continue_def push_incoming_def write_control_def finish_def forward_step_def
      terminal_step_def reader_end_arm_def writer_end_arm_def grace_step_def
      split: reader_task.splits list.splits sum.splits main_task.splits writer_task.splits
      dest: moves_on_out[OF incoming_moves_on, unfolded same_out_def])

text \<open>The frames the host handed over, those taken by some connection and those written by one.\<close>

definition wire_ok :: "('j, 't) link_env \<Rightarrow> ('j, 't) link \<Rightarrow> bool" where
  "wire_ok env l \<longleftrightarrow> lk_accepted l = lk_taken l @ lk_outbound l
     \<and> (case lk_conn l of None \<Rightarrow> subseq (from_source FromHost (lk_wire l)) (lk_taken l)
        | Some c \<Rightarrow> \<exists>ws ts us. lk_wire l = ws @ (FromSupervisor, DF_Hello (le_hello env)) # cn_sent c \<and> lk_taken l = ts @ us
            \<and> subseq (from_source FromHost ws) ts \<and> subseq (cn_taken c) us)"

lemma wire_same_out:
  assumes "wire_ok env l" "lk_conn l = Some c" "same_out c c'"
  shows "wire_ok env (on_conn c' l)"
  using assms by (simp add: wire_ok_def on_conn_def same_out_def)

lemma wire_returned:
  assumes w: "wire_ok env l" and c: "lk_conn l = Some c" and s: "sends_ok c"
  shows "wire_ok env (after_connection env r l)"
proof -
  obtain ws ts us where "lk_wire l = ws @ (FromSupervisor, DF_Hello (le_hello env)) # cn_sent c" "lk_taken l = ts @ us"
      "subseq (from_source FromHost ws) ts" "subseq (cn_taken c) us"
    using w c by (auto simp: wire_ok_def)
  moreover have "subseq (from_source FromHost (cn_sent c)) (cn_taken c)" by (rule prefix_imp_subseq[OF sends_prefix[OF s]])
  ultimately have "subseq (from_source FromHost (lk_wire l)) (lk_taken l)" by (auto intro: list_emb_append_mono subseq_order.order_trans)
  then show ?thesis using w by (auto simp: wire_ok_def after_connection_def split: sum.splits)
qed

lemma wire_outbound:
  assumes w: "wire_ok env l" and c: "lk_conn l = Some c"
  shows "wire_ok env (outbound_arm c l)"
proof (cases "lk_outbound l")
  case Nil
  then show ?thesis using wire_same_out[OF w c same_out_steps(4)] by (simp add: outbound_arm_def)
next
  case (Cons f rest)
  obtain ws ts us where u: "lk_wire l = ws @ (FromSupervisor, DF_Hello (le_hello env)) # cn_sent c" "lk_taken l = ts @ us"
      "subseq (from_source FromHost ws) ts" "subseq (cn_taken c) us"
    using w c by (auto simp: wire_ok_def)
  have "subseq (cn_taken c @ [f]) (us @ [f])" "subseq (cn_taken c) (us @ [f])" using u(4) by (auto intro: list_emb_append_mono subseq_order.order_trans)
  moreover have "lk_taken l @ [f] = ts @ (us @ [f])" using u(2) by simp
  moreover have "lk_accepted l = (lk_taken l @ [f]) @ rest" using w Cons by (simp add: wire_ok_def)
  ultimately show ?thesis using u(1,3) Cons unfolding wire_ok_def outbound_arm_def on_conn_def
    by (cases f) (fastforce simp: Cons)+
qed

lemma write_command_sent: "\<exists>fs. cn_sent (write_command env sent c) = cn_sent c @ fs \<and> cn_taken (write_command env sent c) = cn_taken c"
  by (auto simp: write_command_def split: list.splits writer_command.splits sum.splits)

lemma wire_write:
  assumes w: "wire_ok env l" and c: "lk_conn l = Some c"
  shows "wire_ok env (link_write env sent c l)"
proof -
  obtain fs where fs: "cn_sent (write_command env sent c) = cn_sent c @ fs" "cn_taken (write_command env sent c) = cn_taken c"
    using write_command_sent by blast
  show ?thesis using w c by (auto simp: wire_ok_def link_write_def Let_def on_conn_def fs)
qed

lemma wire_connect: "wire_ok env l \<Longrightarrow> lk_conn l = None \<Longrightarrow> wire_ok env (connect_step env d l)"
proof -
  assume w: "wire_ok env l" "lk_conn l = None"
  show ?thesis
  proof (cases "open_connection env d")
    case (Inl e)
    then show ?thesis using w by (auto simp: connect_step_def after_connection_def wire_ok_def)
  next
    case (Inr c)
    then have "cn_sent c = []" "cn_taken c = []" using open_connection_Inr[of env d c] by (simp_all add: new_connection_def)
    then show ?thesis using w Inr by (force simp: connect_step_def wire_ok_def)
  qed
qed

lemma wire_step:
  assumes "link_step env l l'" "wire_ok env l" "conn_inv sends_ok l"
  shows "wire_ok env l'"
  using assms(1)
proof cases
  case (returned c r)
  then show ?thesis using wire_returned[OF assms(2)] conn_invD[OF assms(3)] by blast
next
  case (ready c s)
  have "wire_ok env (on_conn (ready_step s c) l)" using wire_same_out[OF assms(2) ready(2) moves_on_out[OF handshake_moves_on(4)]] .
  then show ?thesis unfolding ready(1) link_ready_def Let_def by (simp add: wire_ok_def on_conn_def)
next
  case (control c)
  have "wire_ok env (on_conn (finish r c) l)" for r using wire_same_out[OF assms(2) control(2) same_out_steps(4)] .
  then show ?thesis unfolding control(1) control_arm_def by (simp add: wire_ok_def on_conn_def)
next
  case (dial d)
  then show ?thesis using wire_connect[OF assms(2)] by blast
next
  case (outbound c)
  then show ?thesis using wire_outbound[OF assms(2)] by blast
next
  case (write_next c sent)
  then show ?thesis using wire_write[OF assms(2)] by blast
next
  case (host_sends f)
  then show ?thesis using assms(2) by (simp add: wire_ok_def split: option.splits)
next
  case host_closes
  then show ?thesis using assms(2) by (simp add: wire_ok_def split: option.splits)
next
  case (host_drops outbound control inbound)
  then show ?thesis using assms(2) by (simp add: wire_ok_def split: option.splits)
qed (use wire_same_out[OF assms(2)] in \<open>auto intro: same_out_steps moves_on_out[OF handshake_moves_on(1)] moves_on_out[OF handshake_moves_on(2)]
    moves_on_out[OF handshake_moves_on(3)] moves_on_out[OF handshake_moves_on(5)]\<close>)

interpretation wire: link_invariant env "\<lambda>l. wire_ok env l \<and> conn_inv sends_ok l" for env :: "('j, 't) link_env"
proof
  show "wire_ok env new_link \<and> conn_inv sends_ok new_link" by (simp add: wire_ok_def new_link_def conn_inv_def)
qed (use wire_step sends.keeps in blast)

end
