(* ===== verification/Daemon_Transport.thy ===== *)
theory Daemon_Transport
  imports Transport_Model
begin

text \<open>
  What holds in every run of the connection supervisor of \<open>Transport_Model\<close>: the order of the handshake, the frames on the wire, the
  reasons for which it returns and the pauses between its attempts. An error is followed back from the task that returns it to
  the message, frame or channel end it comes from, by invariants of single connections (\<open>reader_knows\<close>, \<open>host_knows\<close>, \<open>results_known\<close>)
  that are interpretations of \<open>connection_invariant\<close>, and of the whole link, interpretations of \<open>link_invariant\<close>.
\<close>

section \<open>What an error goes back to\<close>

text \<open>The reader was given a message it complains about, or an error frame of the server.\<close>

definition complaint :: "('j, 't) link_env \<Rightarrow> ('j, 't) connection \<Rightarrow> protocol_error_frame \<Rightarrow> bool" where
  "complaint env c pe \<longleftrightarrow> (\<exists>m \<in> set (cn_read c). read_item env (Some (Inr m)) = ReaderSendTerminal pe)"

definition server_error :: "('j, 't) link_env \<Rightarrow> ('j, 't) connection \<Rightarrow> protocol_error_frame \<Rightarrow> bool" where
  "server_error env c pe \<longleftrightarrow> (\<exists>m \<in> set (cn_read c). read_item env (Some (Inr m)) = SendIncoming (SF_ProtocolError pe))"

text \<open>The order the server has to keep: welcome, snapshot, then application frames; errors may come anywhere.\<close>

definition orderly :: "server_frame list \<Rightarrow> bool" where
  "orderly fs =
     (case filter (\<lambda>f. case f of SF_ProtocolError _ \<Rightarrow> False | _ \<Rightarrow> True) fs of
        [] \<Rightarrow> True
      | w # ws \<Rightarrow> (case w of SF_Welcome _ \<Rightarrow> True | _ \<Rightarrow> False)
          \<and> (case ws of [] \<Rightarrow> True | r # rs \<Rightarrow> (case r of SF_Reconcile _ \<Rightarrow> True | _ \<Rightarrow> False) \<and> list_all app_frame rs))"

text \<open>What must have happened on a connection that an error comes from.\<close>

definition explained :: "('j, 't) link_env \<Rightarrow> ('j, 't) connection \<Rightarrow> 'j connection_error \<Rightarrow> bool" where
  "explained env c e =
     (case e of
        TerminalProtocol code message \<Rightarrow> \<exists>pe. pe_code pe = code \<and> pe_message pe = message
          \<and> (server_error env c pe \<or> complaint env c pe \<or> DF_ProtocolError pe \<in> set (cn_taken c))
      | HandshakeViolation _ \<Rightarrow> \<not> orderly (cn_received c)
      | ProtocolFailed fe \<Rightarrow> \<exists>f. encode_daemon_frame (le_to_string env) f = Inl fe
          \<and> (f \<in> set (cn_taken c) \<or> (\<exists>pe. f = DF_ProtocolError pe \<and> complaint env c pe))
      | ChannelClosed _ \<Rightarrow> False | BinaryFrame \<Rightarrow> False | TaskFailed _ \<Rightarrow> False
      | _ \<Rightarrow> True)"

definition later :: "('j, 't) connection \<Rightarrow> ('j, 't) connection \<Rightarrow> bool" where
  "later c c' \<longleftrightarrow> set (cn_read c) \<subseteq> set (cn_read c') \<and> set (cn_taken c) \<subseteq> set (cn_taken c') \<and> prefix (cn_received c) (cn_received c')"

lemma orderly_prefix: "prefix xs ys \<Longrightarrow> orderly ys \<Longrightarrow> orderly xs"
  by (auto simp: prefix_def orderly_def split: list.splits)

lemma later_mono:
  assumes "later c c'"
  shows "complaint env c pe \<Longrightarrow> complaint env c' pe" "server_error env c pe \<Longrightarrow> server_error env c' pe" "explained env c e \<Longrightarrow> explained env c' e"
proof -
  show 1: "complaint env c pe \<Longrightarrow> complaint env c' pe" "server_error env c pe \<Longrightarrow> server_error env c' pe" for pe
    using assms by (auto simp: later_def complaint_def server_error_def)
  show "explained env c e \<Longrightarrow> explained env c' e"
    using assms 1 orderly_prefix[of "cn_received c" "cn_received c'"] unfolding later_def explained_def
    by (cases e) (simp; blast)+
qed

lemma later_refl [simp]: "later c c"
  by (simp add: later_def)

text \<open>What the reader holds, hands on and writes comes from messages it was given.\<close>

definition reader_knows :: "('j, 't) link_env \<Rightarrow> ('j, 't) connection \<Rightarrow> bool" where
  "reader_knows env c \<longleftrightarrow>
     (case cn_reader c of
        SendIncoming f \<Rightarrow> (\<exists>m \<in> set (cn_read c). read_item env (Some (Inr m)) = SendIncoming f)
      | ReaderSendTerminal pe \<Rightarrow> complaint env c pe | ReaderAwaitReceipt pe \<Rightarrow> complaint env c pe | ForwardError pe _ \<Rightarrow> complaint env c pe
      | _ \<Rightarrow> True)
     \<and> (\<forall>pe. SF_ProtocolError pe \<in> set (cn_received c) \<longrightarrow> server_error env c pe \<or> complaint env c pe)
     \<and> (\<forall>f. FrameAndWait f ByReader \<in> set (cn_commands c) \<or> (FromReader, f) \<in> set (cn_sent c)
          \<longrightarrow> (\<exists>pe. f = DF_ProtocolError pe \<and> complaint env c pe))
     \<and> FromSupervisor \<notin> fst ` set (cn_sent c)"

text \<open>What goes out for the host was taken from it.\<close>

definition host_knows :: "('j, 't) connection \<Rightarrow> bool" where
  "host_knows c \<longleftrightarrow>
     (case cn_main c of Forward f \<Rightarrow> f \<in> set (cn_taken c) | SendTerminal pe \<Rightarrow> DF_ProtocolError pe \<in> set (cn_taken c)
      | AwaitReceipt pe \<Rightarrow> DF_ProtocolError pe \<in> set (cn_taken c) | _ \<Rightarrow> True)
     \<and> (\<forall>f. WriteFrame f \<in> set (cn_commands c) \<or> FrameAndWait f ByMain \<in> set (cn_commands c) \<longrightarrow> f \<in> set (cn_taken c))"

definition channel_error :: "'j connection_error \<Rightarrow> bool" where
  "channel_error e = (case e of ChannelClosed _ \<Rightarrow> True | _ \<Rightarrow> False)"

definition results_known :: "('j, 't) link_env \<Rightarrow> ('j, 't) connection \<Rightarrow> bool" where
  "results_known env c \<longleftrightarrow>
     (\<forall>e. cn_reader c = ReaderDone (Inl e) \<or> (\<exists>pe. cn_reader c = ForwardError pe (Inl e)) \<or> cn_writer c = WriterDone (Inl e)
        \<or> cn_main c = AwaitReader (Inl e) \<or> cn_main c = MainDone (Inl e) \<and> \<not> channel_error e \<longrightarrow> explained env c e)"

definition causes_ok :: "('j, 't) link_env \<Rightarrow> ('j, 't) connection \<Rightarrow> bool" where
  "causes_ok env c \<longleftrightarrow> traffic_ok c \<and> reader_knows env c \<and> host_knows c \<and> results_known env c"

text \<open>A step that leaves the reader's side alone, and one that leaves the host's side alone.\<close>

lemma reader_knows_same:
  assumes "reader_knows env c" "later c c'" "cn_reader c' = cn_reader c" "cn_received c' = cn_received c" "cn_sent c' = cn_sent c"
    "set (cn_commands c') \<subseteq> set (cn_commands c) \<union> range WriteFrame \<union> range (\<lambda>f. FrameAndWait f ByMain)"
  shows "reader_knows env c'"
proof -
  have "\<exists>m \<in> set (cn_read c'). P m" if "\<exists>m \<in> set (cn_read c). P m" for P using that assms(2) by (auto simp: later_def)
  moreover have "FrameAndWait f ByReader \<in> set (cn_commands c)" if "FrameAndWait f ByReader \<in> set (cn_commands c')" for f
    using that assms(6) by auto
  moreover note later_mono(1,2)[OF assms(2)]
  ultimately show ?thesis using assms(1) unfolding reader_knows_def assms(3-5)
    by (cases "cn_reader c") (simp; meson)+
qed

lemma results_mono:
  assumes "results_known env c" "later c c'"
    and "\<And>e. cn_reader c' = ReaderDone (Inl e) \<Longrightarrow> cn_reader c = ReaderDone (Inl e) \<or> (\<exists>pe. cn_reader c = ForwardError pe (Inl e)) \<or> explained env c' e"
    and "\<And>e pe. cn_reader c' = ForwardError pe (Inl e) \<Longrightarrow> cn_reader c = ForwardError pe (Inl e) \<or> explained env c' e"
    and "\<And>e. cn_writer c' = WriterDone (Inl e) \<Longrightarrow> cn_writer c = WriterDone (Inl e) \<or> explained env c' e"
    and "\<And>e. cn_main c' = AwaitReader (Inl e) \<Longrightarrow> cn_main c = AwaitReader (Inl e) \<or> cn_writer c = WriterDone (Inl e) \<or> explained env c' e"
    and "\<And>e. cn_main c' = MainDone (Inl e) \<Longrightarrow> cn_main c = MainDone (Inl e) \<or> cn_main c = AwaitReader (Inl e) \<or> cn_reader c = ReaderDone (Inl e)
      \<or> channel_error e \<or> explained env c' e"
  shows "results_known env c'"
  unfolding results_known_def using assms(1) later_mono(3)[OF assms(2)] assms(3-7) unfolding results_known_def by blast

text \<open>The main task leaves alone what the other tasks hold, what was read and what was written.\<close>

definition aside :: "('j, 't) connection \<Rightarrow> ('j, 't) connection \<Rightarrow> bool" where
  "aside c c' \<longleftrightarrow> cn_reader c' = cn_reader c \<and> cn_writer c' = cn_writer c \<and> cn_received c' = cn_received c \<and> cn_read c' = cn_read c
     \<and> cn_sent c' = cn_sent c \<and> set (cn_taken c) \<subseteq> set (cn_taken c')
     \<and> set (cn_commands c') \<subseteq> set (cn_commands c) \<union> range WriteFrame \<union> range (\<lambda>f. FrameAndWait f ByMain)"

lemma pop_incoming_aside: "pop_incoming c = (r, c') \<Longrightarrow> aside c c' \<and> cn_taken c' = cn_taken c \<and> cn_commands c' = cn_commands c"
  by (auto simp: pop_incoming_def aside_def split: list.splits)

lemma receive_frame_aside: "receive_frame late stage c = (r, c') \<Longrightarrow> aside c c' \<and> cn_taken c' = cn_taken c \<and> cn_commands c' = cn_commands c"
  by (auto simp: receive_frame_def aside_def dest!: pop_incoming_aside split: if_splits prod.splits option.splits)

lemma aside_handshake: "aside c (welcome_step late c)" "aside c (reconcile_step late w c)"
proof -
  show "aside c (welcome_step late c)"
    by (cases "receive_frame late ''welcome'' c") (frule receive_frame_aside, auto simp: welcome_step_def aside_def finish_def
      split: sum.splits server_frame.splits)
  show "aside c (reconcile_step late w c)"
    by (cases "receive_frame late ''reconciliation'' c") (frule receive_frame_aside, auto simp: reconcile_step_def aside_def finish_def
      split: sum.splits server_frame.splits)
qed

lemma aside_incoming: "aside c (incoming_arm c)"
  by (cases "pop_incoming c") (frule pop_incoming_aside, auto simp: incoming_arm_def aside_def finish_def
      split: option.splits server_frame.splits reader_task.splits)

lemma aside_steps: "aside c (announce_step late inbound_open h c)" "aside c (ready_step s c)" "aside c (deliver_step inbound_open f c)"
    "aside c (finish r c)" "aside c (forward_step g c)" "aside c (terminal_step late c)" "aside c (reader_end_arm c)" "aside c (writer_end_arm c)"
    "aside c (grace_step late q c)" "aside c (c\<lparr>cn_main := SendTerminal pe, cn_taken := cn_taken c @ [DF_ProtocolError pe]\<rparr>)"
    "aside c (c\<lparr>cn_main := Forward g, cn_taken := cn_taken c @ [g]\<rparr>)"
  by (auto simp: aside_def announce_step_def ready_step_def deliver_step_def finish_def forward_step_def terminal_step_def reader_end_arm_def
      writer_end_arm_def grace_step_def split: signal.splits sum.splits main_task.splits reader_task.splits writer_task.splits)

lemmas aside_all = aside_handshake aside_incoming aside_steps

lemma aside_later: "aside c c' \<Longrightarrow> later c c'"
  by (simp add: aside_def later_def)

lemma aside_reader: "aside c c' \<Longrightarrow> reader_knows env c \<Longrightarrow> reader_knows env c'"
  using reader_knows_same[of env c c'] aside_later[of c c'] by (simp add: aside_def)

lemma reader_knows_read: "reader_knows env c \<Longrightarrow> reader_knows env (read_step env item c)"
proof -
  assume k: "reader_knows env c"
  let ?c = "read_step env item c"
  have l: "later c ?c" by (auto simp: later_def read_step_def)
  have "(\<exists>m \<in> set (cn_read ?c). read_item env (Some (Inr m)) = read_item env item) \<or> (\<exists>r. read_item env item = ReaderDone r)"
    by (cases item) (auto simp: read_step_def read_item_def split: sum.splits)
  moreover have "read_item env item \<noteq> ReaderAwaitReceipt pe" "read_item env item \<noteq> ForwardError pe r" for pe r
    by (auto simp: read_item_def split: option.splits sum.splits ws_message.splits)
  ultimately have "case cn_reader ?c of SendIncoming f \<Rightarrow> (\<exists>m \<in> set (cn_read ?c). read_item env (Some (Inr m)) = SendIncoming f)
      | ReaderSendTerminal pe \<Rightarrow> complaint env ?c pe | ReaderAwaitReceipt pe \<Rightarrow> complaint env ?c pe | ForwardError pe _ \<Rightarrow> complaint env ?c pe | _ \<Rightarrow> True"
    by (auto simp: complaint_def read_step_def split: reader_task.splits)
  moreover have "cn_received ?c = cn_received c" "cn_commands ?c = cn_commands c" "cn_sent ?c = cn_sent c" by (simp_all add: read_step_def)
  ultimately show ?thesis using k later_mono(1,2)[OF l] unfolding reader_knows_def by (simp; blast)
qed

lemma reader_knows_continue: "reader_knows env c \<Longrightarrow> reader_knows env (reader_continue late c)"
proof -
  assume k: "reader_knows env c"
  have same: "complaint env (reader_continue late c) = complaint env c" "server_error env (reader_continue late c) = server_error env c"
    by (auto simp: fun_eq_iff complaint_def server_error_def reader_continue_def push_incoming_def split: reader_task.splits)
  show ?thesis
  proof (cases "cn_reader c")
    case (SendIncoming f)
    then show ?thesis using k same by (auto simp: reader_knows_def reader_continue_def push_incoming_def server_error_def)
  next
    case (ReaderSendTerminal pe)
    then show ?thesis using k same by (auto simp: reader_knows_def reader_continue_def)
  next
    case (ForwardError pe r)
    then show ?thesis using k same by (auto simp: reader_knows_def reader_continue_def push_incoming_def)
  qed (use k same in \<open>auto simp: reader_knows_def reader_continue_def\<close>)
qed

lemma reader_knows_write: "reader_knows env c \<Longrightarrow> reader_knows env (write_control sent c)" "reader_knows env c \<Longrightarrow> reader_knows env (write_command env sent c)"
proof -
  assume k: "reader_knows env c"
  show "reader_knows env (write_control sent c)"
    by (rule reader_knows_same[OF k]) (auto simp: later_def write_control_def split: list.splits sum.splits)
  have same: "complaint env (write_command env sent c) = complaint env c" "server_error env (write_command env sent c) = server_error env c"
      "cn_reader (write_command env sent c) = cn_reader c" "cn_received (write_command env sent c) = cn_received c" "cn_read (write_command env sent c) = cn_read c"
    by (auto simp: fun_eq_iff complaint_def server_error_def write_command_def split: list.splits sum.splits writer_command.splits)
  have new: "set (cn_commands (write_command env sent c)) \<subseteq> set (cn_commands c)"
    "\<And>f. (FromReader, f) \<in> set (cn_sent (write_command env sent c)) \<Longrightarrow> (FromReader, f) \<in> set (cn_sent c) \<or> FrameAndWait f ByReader \<in> set (cn_commands c)"
    "\<And>f. (FromSupervisor, f) \<in> set (cn_sent (write_command env sent c)) \<Longrightarrow> (FromSupervisor, f) \<in> set (cn_sent c)"
    by (auto simp: write_command_def waiter_source_def split: list.splits sum.splits writer_command.splits waiter.splits)
  then show "reader_knows env (write_command env sent c)" using k unfolding reader_knows_def same
    by (auto dest: new(2,3) subsetD[OF new(1)])
qed

interpretation reader_knowledge: connection_invariant env "reader_knows env" for env :: "('j, 't) link_env"
  by unfold_locales (simp_all add: reader_knows_read reader_knows_continue reader_knows_write aside_reader[OF aside_all(1)] aside_reader[OF aside_all(2)]
    aside_reader[OF aside_all(3)] aside_reader[OF aside_all(4)] aside_reader[OF aside_all(5)] aside_reader[OF aside_all(6)] aside_reader[OF aside_all(7)]
    aside_reader[OF aside_all(8)] aside_reader[OF aside_all(9)] aside_reader[OF aside_all(10)] aside_reader[OF aside_all(11)] aside_reader[OF aside_all(12)]
    aside_reader[OF aside_all(13)] aside_reader[OF aside_all(14)], simp add: reader_knows_def new_connection_def)

lemma host_knows_beside:
  assumes "host_knows c" "cn_main c' = cn_main c" "cn_taken c' = cn_taken c" "set (cn_commands c') \<subseteq> set (cn_commands c) \<union> range (\<lambda>f. FrameAndWait f ByReader)"
  shows "host_knows c'"
  using assms(1) subsetD[OF assms(4)] unfolding host_knows_def assms(2,3) by blast

lemma host_knows_tasks:
  assumes "host_knows c"
  shows "host_knows (read_step env item c)" "host_knows (reader_continue late c)" "host_knows (write_control sent c)" "host_knows (write_command env sent c)"
  by (rule host_knows_beside[OF assms]; auto simp: read_step_def reader_continue_def push_incoming_def write_control_def write_command_def
      split: reader_task.splits list.splits sum.splits writer_command.splits)+

text \<open>The handshake and the incoming arm take nothing up for the host.\<close>

lemma moves_on_host: "moves_on c c' \<Longrightarrow> host_knows c \<Longrightarrow> host_knows c'"
  by (cases "cn_main c'") (auto simp: host_knows_def moves_on_def)

lemma host_knows_arms:
  assumes "host_knows c"
  shows "host_knows (finish r c)" "host_knows (c\<lparr>cn_main := SendTerminal pe, cn_taken := cn_taken c @ [DF_ProtocolError pe]\<rparr>)"
    "host_knows (c\<lparr>cn_main := Forward g, cn_taken := cn_taken c @ [g]\<rparr>)" "cn_main c = Forward g \<Longrightarrow> host_knows (forward_step g c)"
    "cn_main c = SendTerminal pe \<Longrightarrow> host_knows (terminal_step late c)" "cn_main c = AwaitReceipt pe \<Longrightarrow> host_knows (terminal_step late c)"
    "host_knows (reader_end_arm c)" "host_knows (writer_end_arm c)" "cn_main c = AwaitReader q \<Longrightarrow> host_knows (grace_step late q c)"
  using assms by (auto simp: host_knows_def finish_def forward_step_def terminal_step_def reader_end_arm_def writer_end_arm_def grace_step_def
      split: reader_task.splits writer_task.splits)

interpretation host_knowledge: connection_invariant env host_knows for env :: "('j, 't) link_env"
  by unfold_locales (simp_all add: host_knows_tasks host_knows_arms moves_on_host[OF handshake_moves_on(1)] moves_on_host[OF handshake_moves_on(2)]
    moves_on_host[OF handshake_moves_on(3)] moves_on_host[OF handshake_moves_on(4)] moves_on_host[OF handshake_moves_on(5)]
    moves_on_host[OF incoming_moves_on], simp add: host_knows_def new_connection_def)

lemma explained_simps [simp]:
  "explained env c PeerClosed" "explained env c (Socket reason)" "explained env c (HandshakeTimeout stage)"
  by (simp_all add: explained_def)

text \<open>A frame that the main task finds in its channel.\<close>

lemma popped_received:
  assumes "traffic_ok c" "pop_incoming c = (Some f, c')"
  shows "prefix (cn_consumed c @ [f]) (cn_received c)"
  using assms pop_incoming_Some(2)[OF assms(2)] by (metis append.assoc append_Cons append_Nil prefix_def traffic_ok_def)

lemma popped_error:
  assumes "causes_ok env c" "pop_incoming c = (Some (SF_ProtocolError pe), c')"
  shows "explained env c (protocol_failure (SF_ProtocolError pe))"
proof -
  have "SF_ProtocolError pe \<in> set (cn_received c)"
    using popped_received[OF _ assms(2)] assms(1) set_mono_prefix by (fastforce simp: causes_ok_def)
  then have "server_error env c pe \<or> complaint env c pe" using assms(1) by (simp add: causes_ok_def reader_knows_def)
  then show ?thesis by (auto simp: explained_def protocol_failure_def)
qed

lemma popped_violation:
  assumes t: "traffic_ok c" and pop: "pop_incoming c = (Some f, c')" and "\<forall>pe. f \<noteq> SF_ProtocolError pe"
    and wrong: "cn_main c = AwaitWelcome \<and> (\<forall>w. f \<noteq> SF_Welcome w) \<or> cn_main c = AwaitReconcile w \<and> (\<forall>r. f \<noteq> SF_Reconcile r)
      \<or> cn_main c = Live \<and> \<not> app_frame f"
  shows "explained env c (HandshakeViolation s)"
proof -
  have "\<not> orderly (cn_consumed c @ [f])"
    using wrong
  proof (elim disjE conjE)
    assume "cn_main c = AwaitWelcome" "\<forall>w. f \<noteq> SF_Welcome w"
    then show ?thesis using t assms(3) by (cases f) (auto simp: traffic_ok_def orderly_def)
  next
    assume "cn_main c = AwaitReconcile w" "\<forall>r. f \<noteq> SF_Reconcile r"
    then show ?thesis using t assms(3) by (cases f) (auto simp: traffic_ok_def orderly_def)
  next
    assume f: "cn_main c = Live" "\<not> app_frame f"
    then obtain h fs where o: "opened h fs [] c" using t by (auto simp: traffic_ok_def)
    have "filter (\<lambda>f. case f of SF_ProtocolError _ \<Rightarrow> False | _ \<Rightarrow> True) fs = fs"
      using o by (intro filter_True) (auto simp: opened_def list_all_iff app_frame_def split: server_frame.splits)
    moreover have "(case f of SF_ProtocolError _ \<Rightarrow> False | _ \<Rightarrow> True) = True" using assms(3) by (simp split: server_frame.split)
    ultimately show ?thesis using o f(2) by (simp add: opened_def orderly_def)
  qed
  then show ?thesis using orderly_prefix[OF popped_received[OF t pop]] by (auto simp: explained_def)
qed

text \<open>The ends of the main task: a result it found, an error that is explained, or a channel of the host.\<close>

lemma results_main:
  assumes "results_known env c" "aside c c'"
    and "\<forall>e. cn_main c' = AwaitReader (Inl e) \<longrightarrow> cn_main c = AwaitReader (Inl e) \<or> cn_writer c = WriterDone (Inl e)"
    and "\<forall>e. cn_main c' = MainDone (Inl e) \<longrightarrow> cn_main c = AwaitReader (Inl e) \<or> cn_reader c = ReaderDone (Inl e) \<or> channel_error e \<or> explained env c e"
  shows "results_known env c'"
proof (rule results_mono[OF assms(1) aside_later[OF assms(2)]])
qed (use assms(2-4) later_mono(3)[OF aside_later[OF assms(2)]] in \<open>auto simp: aside_def\<close>)

lemma receive_frame_explained: "receive_frame late stage c = (Inl e, c') \<Longrightarrow> explained env c0 e"
  by (auto simp: receive_frame_def split: if_splits prod.splits option.splits)

lemma results_welcome:
  assumes c: "causes_ok env c" and m: "cn_main c = AwaitWelcome"
  shows "results_known env (welcome_step late c)"
proof (rule results_main[OF _ aside_handshake(1)])
  have t: "traffic_ok c" using c by (simp add: causes_ok_def)
  show "\<forall>e. cn_main (welcome_step late c) = MainDone (Inl e) \<longrightarrow> cn_main c = AwaitReader (Inl e) \<or> cn_reader c = ReaderDone (Inl e) \<or> channel_error e \<or> explained env c e"
  proof (cases "receive_frame late ''welcome'' c")
    case (Pair r c')
    show ?thesis
    proof (cases r)
      case (Inl e)
      then show ?thesis using Pair receive_frame_explained[of late "''welcome''" c e c' env c] by (simp add: welcome_step_def finish_def)
    next
      case (Inr f)
      then have pop: "pop_incoming c = (Some f, c')" using receive_frame_Inr Pair by blast
      note wrong = popped_violation[OF t pop, of undefined env] and error = popped_error[OF c, of _ c']
      show ?thesis using Pair Inr pop m t pop_incoming_Some[OF pop] wrong error
        by (cases f) (auto simp: welcome_step_def finish_def traffic_ok_def welcome_received_def begin_reconciliation_def)
    qed
  qed
qed (use c handshake_moves_on(1)[of c late] in \<open>auto simp: causes_ok_def moves_on_def\<close>)

lemma results_reconcile:
  assumes c: "causes_ok env c" and m: "cn_main c = AwaitReconcile w"
  shows "results_known env (reconcile_step late w c)"
proof (rule results_main[OF _ aside_handshake(2)])
  have t: "traffic_ok c" using c by (simp add: causes_ok_def)
  show "\<forall>e. cn_main (reconcile_step late w c) = MainDone (Inl e) \<longrightarrow> cn_main c = AwaitReader (Inl e) \<or> cn_reader c = ReaderDone (Inl e) \<or> channel_error e \<or> explained env c e"
  proof (cases "receive_frame late ''reconciliation'' c")
    case (Pair r c')
    show ?thesis
    proof (cases r)
      case (Inl e)
      then show ?thesis using Pair receive_frame_explained[of late "''reconciliation''" c e c' env c] by (simp add: reconcile_step_def finish_def)
    next
      case (Inr f)
      then have pop: "pop_incoming c = (Some f, c')" using receive_frame_Inr Pair by blast
      note wrong = popped_violation[OF t pop, of w env] and error = popped_error[OF c, of _ c']
      show ?thesis using Pair Inr pop m t pop_incoming_Some[OF pop] wrong error
        by (cases f) (auto simp: reconcile_step_def finish_def traffic_ok_def reconciliation_received_def)
    qed
  qed
qed (use c handshake_moves_on(2)[of c late w] in \<open>auto simp: causes_ok_def moves_on_def\<close>)

lemma results_incoming:
  assumes c: "causes_ok env c" and m: "cn_main c = Live"
  shows "results_known env (incoming_arm c)"
proof (rule results_main[OF _ aside_incoming])
  have t: "traffic_ok c" using c by (simp add: causes_ok_def)
  show "\<forall>e. cn_main (incoming_arm c) = MainDone (Inl e) \<longrightarrow> cn_main c = AwaitReader (Inl e) \<or> cn_reader c = ReaderDone (Inl e) \<or> channel_error e \<or> explained env c e"
  proof (cases "pop_incoming c")
    case (Pair r c')
    show ?thesis
    proof (cases r)
      case None
      then have "c' = c" using Pair by (auto simp: pop_incoming_def split: list.splits)
      then show ?thesis using None Pair m by (auto simp: incoming_arm_def finish_def split: reader_task.splits)
    next
      case (Some f)
      then have pop: "pop_incoming c = (Some f, c')" using Pair by blast
      note wrong = popped_violation[OF t pop, of undefined env] and error = popped_error[OF c, of _ c']
      show ?thesis using pop m wrong error
        by (cases f) (auto simp: incoming_arm_def finish_def app_frame_def)
    qed
  qed
qed (use c incoming_moves_on[OF m] in \<open>auto simp: causes_ok_def moves_on_def\<close>)

lemma channel_error_simps [simp]: "channel_error (ChannelClosed side)" "\<not> channel_error PeerClosed"
  by (simp_all add: channel_error_def)

lemma results_announce: "results_known env c \<Longrightarrow> results_known env (announce_step late inbound_open h c)"
  and results_ready: "traffic_ok c \<Longrightarrow> cn_main c = AwaitReady \<Longrightarrow> results_known env c \<Longrightarrow> results_known env (ready_step s c)"
  and results_deliver: "results_known env c \<Longrightarrow> results_known env (deliver_step inbound_open f c)"
  and results_forward: "results_known env c \<Longrightarrow> results_known env (forward_step g c)"
  and results_reader_end: "cn_main c = Live \<Longrightarrow> results_known env c \<Longrightarrow> results_known env (reader_end_arm c)"
  and results_writer_end: "cn_main c = Live \<Longrightarrow> results_known env c \<Longrightarrow> results_known env (writer_end_arm c)"
  and results_grace: "cn_main c = AwaitReader q \<Longrightarrow> results_known env c \<Longrightarrow> results_known env (grace_step late q c)"
  and results_finish: "results_known env c \<Longrightarrow> e = PeerClosed \<or> (\<exists>side. e = ChannelClosed side) \<Longrightarrow> results_known env (finish (Inl e) c)"
  by (erule results_main[OF _ aside_steps(1)] results_main[OF _ aside_steps(2)] results_main[OF _ aside_steps(3)] results_main[OF _ aside_steps(4)]
        results_main[OF _ aside_steps(5)] results_main[OF _ aside_steps(7)] results_main[OF _ aside_steps(8)] results_main[OF _ aside_steps(9)];
      auto simp: announce_step_def ready_step_def coordination_ready_def traffic_ok_def deliver_step_def forward_step_def reader_end_arm_def writer_end_arm_def
        grace_step_def finish_def split: signal.splits reader_task.splits writer_task.splits if_splits)+

lemma results_take: "results_known env c \<Longrightarrow> results_known env (c\<lparr>cn_main := SendTerminal pe, cn_taken := cn_taken c @ [DF_ProtocolError pe]\<rparr>)"
    "results_known env c \<Longrightarrow> results_known env (c\<lparr>cn_main := Forward g, cn_taken := cn_taken c @ [g]\<rparr>)"
  by (erule results_main[OF _ aside_steps(10)] results_main[OF _ aside_steps(11)]; simp)+

lemma results_terminal:
  assumes "results_known env c" "host_knows c" "cn_main c = SendTerminal pe \<or> cn_main c = AwaitReceipt pe"
  shows "results_known env (terminal_step late c)"
proof (rule results_main[OF assms(1) aside_steps(6)])
  have "terminal_receipt ByMain late pe c = Inl e \<Longrightarrow> explained env c e" if "DF_ProtocolError pe \<in> set (cn_taken c)" for e
    using that by (auto simp: terminal_receipt_def explained_def split: option.splits sum.splits if_splits)
  then show "\<forall>e. cn_main (terminal_step late c) = MainDone (Inl e)
      \<longrightarrow> cn_main c = AwaitReader (Inl e) \<or> cn_reader c = ReaderDone (Inl e) \<or> channel_error e \<or> explained env c e"
    using assms(2,3) by (auto simp: terminal_step_def finish_def host_knows_def split: if_splits)
qed (use assms(3) in \<open>auto simp: terminal_step_def finish_def split: if_splits\<close>)

lemma results_read: "results_known env c \<Longrightarrow> results_known env (read_step env item c)"
proof (rule results_mono)
  have "read_item env item \<noteq> ForwardError pe r" "read_item env item = ReaderDone (Inl e) \<Longrightarrow> explained env c' e" for pe r e c'
    by (auto simp: read_item_def split: option.splits sum.splits ws_message.splits)
  then show "cn_reader (read_step env item c) = ReaderDone (Inl e)
      \<Longrightarrow> cn_reader c = ReaderDone (Inl e) \<or> (\<exists>pe. cn_reader c = ForwardError pe (Inl e)) \<or> explained env (read_step env item c) e"
    "cn_reader (read_step env item c) = ForwardError pe (Inl e) \<Longrightarrow> cn_reader c = ForwardError pe (Inl e) \<or> explained env (read_step env item c) e" for e pe
    by (simp_all add: read_step_def)
qed (auto simp: read_step_def later_def)

lemma later_continue: "later c (reader_continue late c)"
  by (auto simp: later_def reader_continue_def push_incoming_def split: reader_task.splits)

lemma results_continue:
  assumes "results_known env c" "reader_knows env c"
  shows "results_known env (reader_continue late c)"
proof (rule results_mono[OF assms(1) later_continue])
  note l = later_mono[OF later_continue]
  have receipt: "terminal_receipt ByReader late pe c = Inl e \<Longrightarrow> explained env c e" if "complaint env c pe" for e pe
    using that by (auto simp: terminal_receipt_def explained_def split: option.splits sum.splits if_splits)
  have "cn_reader (reader_continue late c) = ForwardError pe (Inl e) \<Longrightarrow> cn_reader c = ForwardError pe (Inl e) \<or> explained env c e" for e pe
    using assms(2) receipt by (auto simp: reader_continue_def push_incoming_def reader_knows_def split: reader_task.splits if_splits)
  then show "cn_reader (reader_continue late c) = ForwardError pe (Inl e) \<Longrightarrow> cn_reader c = ForwardError pe (Inl e) \<or> explained env (reader_continue late c) e" for e pe
    using l(3) by blast
qed (auto simp: reader_continue_def push_incoming_def split: reader_task.splits if_splits)

lemma send_frame_explained:
  assumes "send_frame env sent f = Inl e" "f \<in> set (cn_taken c) \<or> (\<exists>pe. f = DF_ProtocolError pe \<and> complaint env c pe)"
  shows "explained env c e"
  using assms by (cases sent) (auto simp: send_frame_def explained_def and_then_def map_err_def split: sum.splits; blast)+

lemma later_write: "later c (write_control sent c)" "later c (write_command env sent c)"
  by (auto simp: later_def write_control_def write_command_def split: list.splits sum.splits writer_command.splits)

lemma results_write_control: "results_known env c \<Longrightarrow> results_known env (write_control sent c)"
  by (erule results_mono[OF _ later_write(1)]) (auto simp: write_control_def split: list.splits sum.splits)

lemma results_write_command:
  assumes "results_known env c" "reader_knows env c" "host_knows c"
  shows "results_known env (write_command env sent c)"
proof (rule results_mono[OF assms(1) later_write(2)])
  have "explained env c e" if "FrameAndWait f w \<in> set (cn_commands c) \<or> WriteFrame f \<in> set (cn_commands c)" "send_frame env sent f = Inl e" for f w e
    by (rule send_frame_explained[OF that(2)]) (use that(1) assms(2,3) in \<open>cases w; auto simp: reader_knows_def host_knows_def\<close>)
  then have "cn_writer (write_command env sent c) = WriterDone (Inl e) \<Longrightarrow> cn_writer c = WriterDone (Inl e) \<or> explained env c e" for e
    by (fastforce simp: write_command_def split: list.splits sum.splits writer_command.splits)
  then show "cn_writer (write_command env sent c) = WriterDone (Inl e) \<Longrightarrow> cn_writer c = WriterDone (Inl e) \<or> explained env (write_command env sent c) e" for e
    using later_mono(3)[OF later_write(2)] by blast
qed (auto simp: write_command_def split: list.splits sum.splits writer_command.splits)

lemma causes_parts:
  assumes "causes_ok env c"
  shows "traffic_ok c" "reader_knows env c" "host_knows c" "results_known env c"
  using assms by (simp_all add: causes_ok_def)

interpretation causes: connection_invariant env "causes_ok env" for env :: "('j, 't) link_env"
proof
  show "causes_ok env (new_connection AwaitingWelcome)"
    by (simp add: causes_ok_def traffic.new reader_knowledge.new host_knowledge.new) (simp add: results_known_def new_connection_def)
qed (auto simp: causes_ok_def intro: traffic.finished reader_knowledge.finished host_knowledge.finished results_finish
    traffic.reads reader_knowledge.reads host_knowledge.reads results_read
    traffic.reads_on reader_knowledge.reads_on host_knowledge.reads_on results_continue
    traffic.writes_control reader_knowledge.writes_control host_knowledge.writes_control results_write_control
    traffic.writes reader_knowledge.writes host_knowledge.writes results_write_command
    traffic.welcomes reader_knowledge.welcomes host_knowledge.welcomes results_welcome[unfolded causes_ok_def]
    traffic.reconciles reader_knowledge.reconciles host_knowledge.reconciles results_reconcile[unfolded causes_ok_def]
    traffic.announces reader_knowledge.announces host_knowledge.announces results_announce
    traffic.readies reader_knowledge.readies host_knowledge.readies results_ready
    traffic.receives reader_knowledge.receives host_knowledge.receives results_incoming[unfolded causes_ok_def]
    traffic.delivers reader_knowledge.delivers host_knowledge.delivers results_deliver
    traffic.takes_error reader_knowledge.takes_error host_knowledge.takes_error results_take
    traffic.takes reader_knowledge.takes host_knowledge.takes
    traffic.forwards reader_knowledge.forwards host_knowledge.forwards results_forward
    traffic.sends_error reader_knowledge.sends_error host_knowledge.sends_error results_terminal
    traffic.settles reader_knowledge.settles host_knowledge.settles
    traffic.reader_ends reader_knowledge.reader_ends host_knowledge.reader_ends results_reader_end
    traffic.writer_ends reader_knowledge.writer_ends host_knowledge.writer_ends results_writer_end
    traffic.waits reader_knowledge.waits host_knowledge.waits results_grace)

text \<open>The frames on the wire that are not the host's: the hello of each connection and the reader's complaints.\<close>

definition wire_frame :: "('j, 't) link_env \<Rightarrow> frame_source \<Rightarrow> daemon_frame \<Rightarrow> bool" where
  "wire_frame env s f \<longleftrightarrow>
     (case s of
        FromHost \<Rightarrow> True
      | FromReader \<Rightarrow> \<exists>code message. f = DF_ProtocolError (protocol_error_of code message) \<and> code \<in> {''invalid_frame'', ''binary_frame''}
      | FromSupervisor \<Rightarrow> f = DF_Hello (le_hello env))"

definition wire_frames :: "('j, 't) link_env \<Rightarrow> ('j, 't) link \<Rightarrow> bool" where
  "wire_frames env l \<longleftrightarrow> (\<forall>(s, f) \<in> set (lk_wire l). wire_frame env s f)"

lemma complaint_code:
  assumes "complaint env c pe"
  obtains code message where "pe = protocol_error_of code message" "code = ''invalid_frame'' \<or> code = ''binary_frame''"
proof -
  obtain m where m: "read_item env (Some (Inr m)) = ReaderSendTerminal pe" using assms by (auto simp: complaint_def)
  show thesis
  proof (cases m)
    case (WsText t)
    then show thesis using m that by (cases "decode_server_frame (le_from_str env) t") (auto simp: read_item_def)
  qed (use m that in \<open>auto simp: read_item_def\<close>)
qed

lemma sent_wire_frame:
  assumes "reader_knows env c" "(s, f) \<in> set (cn_sent c)"
  shows "wire_frame env s f"
proof (cases s)
  case FromReader
  then obtain pe where pe: "f = DF_ProtocolError pe" "complaint env c pe" using assms by (auto simp: reader_knows_def)
  show ?thesis using FromReader pe(1) by (cases rule: complaint_code[OF pe(2)]) (auto simp: wire_frame_def)
next
  case FromSupervisor
  then show ?thesis using assms by (force simp: reader_knows_def)
qed (simp add: wire_frame_def)

lemma wire_frames_cong: "wire_frames env l \<Longrightarrow> lk_wire l' = lk_wire l \<Longrightarrow> wire_frames env l'"
  by (simp add: wire_frames_def)

lemma wire_frames_returned: "wire_frames env l \<Longrightarrow> wire_frames env (after_connection env r l)"
  by (erule wire_frames_cong) (simp add: after_connection_def split: sum.splits)

lemma wire_frames_step:
  assumes "link_step env l l'" "wire_frames env l" "conn_inv (reader_knows env) l"
  shows "wire_frames env l'"
  using assms(1)
proof cases
  case (dial d)
  then show ?thesis using wire_frames_returned[OF assms(2)] assms(2)
    by (auto simp: connect_step_def wire_frames_def wire_frame_def split: sum.splits)
next
  case (returned c r)
  then show ?thesis using wire_frames_returned[OF assms(2)] by simp
next
  case (write_next c sent)
  have "reader_knows env (write_command env sent c)" using reader_knows_write(2) conn_invD[OF assms(3) write_next(2)] by blast
  then have "\<forall>(s, f) \<in> set (drop n (cn_sent (write_command env sent c))). wire_frame env s f" for n
    using sent_wire_frame in_set_dropD by fastforce
  then show ?thesis using assms(2) unfolding write_next(1) by (auto simp: wire_frames_def link_write_def Let_def on_conn_def)
qed (auto intro!: wire_frames_cong[OF assms(2)] simp: on_conn_def link_ready_def Let_def control_arm_def outbound_arm_def
    split: list.splits daemon_frame.splits)

interpretation frames: link_invariant env "\<lambda>l. wire_frames env l \<and> conn_inv (reader_knows env) l" for env :: "('j, 't) link_env"
proof
  show "wire_frames env new_link \<and> conn_inv (reader_knows env) new_link" by (simp add: wire_frames_def new_link_def conn_inv_def)
qed (use wire_frames_step reader_knowledge.keeps in blast)

section \<open>What a result goes back to\<close>

text \<open>The end of one of the host's channels, as the connection sees it.\<close>

definition host_closed :: "string \<Rightarrow> ('j, 't) link \<Rightarrow> bool" where
  "host_closed side l \<longleftrightarrow> side = ''inbound'' \<and> \<not> lk_inbound_open l \<or> side = ''control'' \<and> \<not> lk_control_open l \<and> lk_control l = 0
     \<or> side = ''outbound'' \<and> \<not> lk_outbound_open l \<and> lk_outbound l = [] \<or> side = ''coordination'' \<and> lk_signal_dropped l"

definition cause :: "('j, 't) link_env \<Rightarrow> ('j, 't) link \<Rightarrow> 'j connection_error \<Rightarrow> bool" where
  "cause env l e \<longleftrightarrow>
     (case e of
        ChannelClosed side \<Rightarrow> host_closed side l
      | ProtocolFailed fe \<Rightarrow> encode_daemon_frame (le_to_string env) (DF_Hello (le_hello env)) = Inl fe \<or> (\<exists>c. lk_last l = Some c \<and> explained env c e)
      | HandshakeViolation _ \<Rightarrow> \<exists>c. lk_last l = Some c \<and> explained env c e
      | TerminalProtocol _ _ \<Rightarrow> \<exists>c. lk_last l = Some c \<and> explained env c e
      | _ \<Rightarrow> False)"

definition closing :: "string \<Rightarrow> ('j, 't) connection \<Rightarrow> bool" where
  "closing side c \<longleftrightarrow> cn_main c = MainDone (Inl (ChannelClosed side))"

definition closed_ok :: "('j, 't) link \<Rightarrow> bool" where
  "closed_ok l \<longleftrightarrow> (\<forall>c side. lk_conn l = Some c \<longrightarrow> closing side c \<longrightarrow> host_closed side l)"

definition ended_ok :: "('j, 't) link_env \<Rightarrow> ('j, 't) link \<Rightarrow> bool" where
  "ended_ok env l \<longleftrightarrow> (\<forall>r. lk_result l = Some r \<longrightarrow> lk_conn l = None \<and> (\<exists>e. r = Inl e \<and> cause env l e))"

lemma quiet_handshake: "\<not> closing side (welcome_step late c)" "\<not> closing side (reconcile_step late w c)"
proof -
  show "\<not> closing side (welcome_step late c)"
    by (cases "receive_frame late ''welcome'' c") (auto simp: closing_def welcome_step_def finish_def protocol_failure_def receive_frame_def
        welcome_received_def begin_reconciliation_def and_then_def split: if_splits sum.splits server_frame.splits prod.splits option.splits)
  show "\<not> closing side (reconcile_step late w c)"
    by (cases "receive_frame late ''reconciliation'' c") (auto simp: closing_def reconcile_step_def finish_def protocol_failure_def receive_frame_def
        reconciliation_received_def split: if_splits sum.splits server_frame.splits prod.splits option.splits)
qed

lemma quiet_tasks: "running c \<Longrightarrow> beside c c' \<Longrightarrow> \<not> closing side c'"
  by (simp add: closing_def beside_def running_def)

lemma quiet_arms:
  assumes "results_known env c"
  shows "cn_main c = Live \<Longrightarrow> \<not> closing side (incoming_arm c)" "\<not> closing side (forward_step f c)"
    "cn_main c = SendTerminal e \<Longrightarrow> \<not> closing side (terminal_step late c)" "cn_main c = AwaitReceipt e \<Longrightarrow> \<not> closing side (terminal_step late c)"
    "cn_main c = Live \<Longrightarrow> \<not> closing side (reader_end_arm c)" "cn_main c = Live \<Longrightarrow> \<not> closing side (writer_end_arm c)"
    "cn_main c = AwaitReader r \<Longrightarrow> \<not> closing side (grace_step late r c)"
proof -
  have no: "cn_reader c \<noteq> ReaderDone (Inl (ChannelClosed side))" "cn_main c \<noteq> AwaitReader (Inl (ChannelClosed side))"
    using assms by (auto simp: results_known_def explained_def)
  show "\<not> closing side (incoming_arm c)" if "cn_main c = Live"
    using no that by (auto simp: closing_def incoming_arm_def finish_def protocol_failure_def pop_incoming_def
        split: list.splits server_frame.splits reader_task.splits)
qed (use assms in \<open>auto simp: closing_def forward_step_def terminal_step_def terminal_receipt_def reader_end_arm_def writer_end_arm_def grace_step_def
    finish_def results_known_def explained_def split: if_splits option.splits sum.splits reader_task.splits writer_task.splits\<close>)

lemma closing_arms:
  "closing side (announce_step late inbound_open h c) \<Longrightarrow> side = ''inbound'' \<and> \<not> inbound_open"
  "closing side (deliver_step inbound_open f c) \<Longrightarrow> side = ''inbound'' \<and> \<not> inbound_open"
  "closing side (ready_step s c) \<Longrightarrow> side = ''coordination'' \<and> s = SignalDropped"
  by (auto simp: closing_def announce_step_def deliver_step_def ready_step_def coordination_ready_def finish_def split: if_splits signal.splits sum.splits)

lemma host_closed_cong:
  assumes "host_closed side l" "lk_inbound_open l' = lk_inbound_open l" "lk_control_open l' = lk_control_open l" "lk_control l' = lk_control l"
    "lk_outbound_open l' = lk_outbound_open l" "lk_outbound l' = lk_outbound l" "lk_signal_dropped l' = lk_signal_dropped l"
  shows "host_closed side l'"
  using assms by (simp add: host_closed_def)

lemma host_closed_steps:
  assumes "host_closed side l"
  shows "lk_outbound_open l \<Longrightarrow> host_closed side (l\<lparr>lk_outbound := lk_outbound l @ [f], lk_accepted := lk_accepted l @ [f]\<rparr>)"
    "lk_control_open l \<Longrightarrow> host_closed side (l\<lparr>lk_control := 1\<rparr>)"
    "(outbound \<longrightarrow> lk_outbound_open l) \<Longrightarrow> (control \<longrightarrow> lk_control_open l) \<Longrightarrow> (inbound \<longrightarrow> lk_inbound_open l)
      \<Longrightarrow> host_closed side (l\<lparr>lk_outbound_open := outbound, lk_control_open := control, lk_inbound_open := inbound\<rparr>)"
  using assms by (auto simp: host_closed_def)

lemma closed_on_conn: "\<forall>side. \<not> closing side c \<Longrightarrow> closed_ok (on_conn c l)"
  by (simp add: closed_ok_def on_conn_def)

lemma closed_idle: "lk_conn l = None \<Longrightarrow> closed_ok l"
  by (simp add: closed_ok_def)

lemma closed_step:
  assumes "link_step env l l'" "closed_ok l" "conn_inv (causes_ok env) l"
  shows "closed_ok l'"
  using assms(1)
proof cases
  case (dial d)
  then show ?thesis using open_connection_Inr[of env d]
    by (auto simp: connect_step_def closed_ok_def closing_def new_connection_def split: sum.splits)
next
  case (returned c r)
  then show ?thesis by (simp add: closed_idle)
next
  case (announce c h late)
  then show ?thesis using closing_arms(1) by (fastforce simp: closed_ok_def on_conn_def host_closed_def)
next
  case (deliver c f)
  then show ?thesis using closing_arms(2) by (fastforce simp: closed_ok_def on_conn_def host_closed_def)
next
  case (ready c s)
  then show ?thesis using closing_arms(3)[of _ s c] by (auto simp: closed_ok_def link_ready_def Let_def on_conn_def host_closed_def closing_def)
next
  case (control c)
  then show ?thesis by (auto simp: closed_ok_def control_arm_def on_conn_def finish_def closing_def host_closed_def)
next
  case (outbound c)
  then show ?thesis by (auto simp: closed_ok_def outbound_arm_def on_conn_def finish_def closing_def host_closed_def split: list.splits daemon_frame.splits)
next
  case (write_next c sent)
  then show ?thesis using quiet_tasks[OF write_next(3) beside_tasks(4)] by (simp add: closed_ok_def link_write_def Let_def on_conn_def)
next
  case (host_sends f)
  then show ?thesis using assms(2) by (auto simp: closed_ok_def intro!: host_closed_steps(1))
next
  case host_closes
  then show ?thesis using assms(2) by (auto simp: closed_ok_def simp del: One_nat_def intro!: host_closed_steps(2))
next
  case (host_drops outbound control inbound)
  then show ?thesis using assms(2) by (auto simp: closed_ok_def intro!: host_closed_steps(3))
qed (use conn_invD[OF assms(3)] in \<open>auto intro!: closed_on_conn simp: quiet_handshake quiet_tasks[OF _ beside_tasks(1)] quiet_tasks[OF _ beside_tasks(2)]
    quiet_tasks[OF _ beside_tasks(3)] quiet_arms[OF causes_parts(4)]\<close>)

lemma cause_cong:
  assumes "cause env l e" "\<And>side. host_closed side l \<Longrightarrow> host_closed side l'" "lk_last l' = lk_last l"
  shows "cause env l' e"
  using assms by (cases e) (auto simp: cause_def)

lemma cause_end:
  assumes "explained env c e \<or> (\<exists>side. e = ChannelClosed side \<and> host_closed side l)" "failure_class e \<noteq> Retryable" "lk_conn l = Some c"
  shows "cause env (l\<lparr>lk_conn := None, lk_last := lk_conn l, lk_result := r\<rparr>) e"
  using assms by (cases e) (auto simp: cause_def explained_def failure_class_def host_closed_def)

lemma ended_returned:
  assumes c: "lk_conn l = Some c" "cn_main c = MainDone r" and e: "ended_ok env l" "closed_ok l" "causes_ok env c" "errors_ok c"
  shows "ended_ok env (after_connection env r l)"
proof -
  obtain x where x: "r = Inl x" using c(2) e(4) by (cases r) (simp_all add: errors_ok_def)
  have "explained env c x \<or> (\<exists>side. x = ChannelClosed side \<and> host_closed side l)"
    using e(2,3) c x by (cases x) (auto simp: closed_ok_def closing_def causes_ok_def results_known_def channel_error_def)
  then show ?thesis using cause_end[of env c x l] c(1) x e(1) by (auto simp: after_connection_def ended_ok_def)
qed

lemma ended_open: "ended_ok env l \<Longrightarrow> lk_conn l = Some c \<Longrightarrow> lk_result l' = lk_result l \<Longrightarrow> ended_ok env l'"
  by (simp add: ended_ok_def)

lemma ended_host:
  assumes "ended_ok env l" "lk_result l' = lk_result l" "lk_conn l' = lk_conn l" "lk_last l' = lk_last l" "\<And>side. host_closed side l \<Longrightarrow> host_closed side l'"
  shows "ended_ok env l'"
  using assms cause_cong[of env l _ l'] by (auto simp: ended_ok_def)

lemma ended_dial:
  assumes "lk_result l = None" "lk_conn l = None"
  shows "ended_ok env (connect_step env d l)"
proof (cases "open_connection env d")
  case (Inl e)
  then have "failure_class e = Retryable \<or> (\<exists>fe. e = ProtocolFailed fe \<and> encode_daemon_frame (le_to_string env) (DF_Hello (le_hello env)) = Inl fe)"
    by (auto simp: open_connection_def failure_class_def and_then_def map_err_def hello_sent_def split: dial.splits sum.splits)
  then show ?thesis using assms Inl by (auto simp: connect_step_def after_connection_def ended_ok_def cause_def)
qed (use assms in \<open>simp add: connect_step_def ended_ok_def\<close>)

lemma ended_step:
  assumes "link_step env l l'" "ended_ok env l" "closed_ok l" "conn_inv (causes_ok env) l" "conn_inv errors_ok l"
  shows "ended_ok env l'"
  using assms(1)
proof cases
  case (dial d)
  then show ?thesis using ended_dial by simp
next
  case (returned c r)
  then show ?thesis using ended_returned[OF returned(2,3) assms(2,3)] conn_invD[OF assms(4)] conn_invD[OF assms(5)] by simp
next
  case (host_sends f)
  then show ?thesis using host_closed_steps(1)[OF _ host_sends(2)] by (intro ended_host[OF assms(2)]) simp_all
next
  case host_closes
  then show ?thesis using host_closed_steps(2)[OF _ host_closes(2)] by (intro ended_host[OF assms(2)]) simp_all
next
  case (host_drops outbound control inbound)
  then show ?thesis using host_closed_steps(3)[OF _ host_drops(2-4)] by (intro ended_host[OF assms(2)]) simp_all
qed (auto intro: ended_open[OF assms(2)] simp: on_conn_def link_ready_def Let_def control_arm_def outbound_arm_def link_write_def
    split: list.splits daemon_frame.splits)

interpretation ends: link_invariant env "\<lambda>l. ended_ok env l \<and> closed_ok l \<and> conn_inv (causes_ok env) l \<and> conn_inv errors_ok l"
  for env :: "('j, 't) link_env"
proof
  show "ended_ok env new_link \<and> closed_ok new_link \<and> conn_inv (causes_ok env) new_link \<and> conn_inv errors_ok new_link"
    by (simp add: ended_ok_def closed_ok_def new_link_def conn_inv_def)
qed (use ended_step closed_step causes.keeps errors.keeps in blast)

section \<open>Results and sleeps\<close>

definition result_ok :: "('j, 't) link \<Rightarrow> bool" where
  "result_ok l = (case lk_result l of None \<Rightarrow> True | Some (Inl e) \<Rightarrow> failure_class e \<noteq> Retryable \<and> lk_conn l = None | Some (Inr _) \<Rightarrow> False)"

definition nth_attempt :: "nat \<Rightarrow> u32" where
  "nth_attempt n = of_nat (min n (2 ^ 32 - 1))"

definition sleeps_ok :: "reconnect_backoff \<Rightarrow> ('j, 't) link \<Rightarrow> bool" where
  "sleeps_ok b l \<longleftrightarrow> lk_sleeps l = map (\<lambda>i. delay b (nth_attempt i)) [0..<length (lk_sleeps l)]
     \<and> lk_attempt l = nth_attempt (length (lk_sleeps l))"

definition loop_inv :: "('j, 't) link_env \<Rightarrow> ('j, 't) link \<Rightarrow> bool" where
  "loop_inv env l \<longleftrightarrow> result_ok l \<and> sleeps_ok (le_backoff env) l"

lemma nth_attempt_Suc: "u32_saturating_inc (nth_attempt n) = nth_attempt (Suc n)"
proof (cases "n < 2 ^ 32 - 1")
  case True
  then have "unat (nth_attempt n) = n" by (simp add: nth_attempt_def unat_of_nat take_bit_nat_eq_self)
  moreover have "unat (of_nat (2 ^ 32 - 1) :: u32) = 2 ^ 32 - 1" unfolding unat_of_nat by simp
  moreover have "(of_nat (2 ^ 32 - 1) :: u32) = - 1" by simp
  ultimately have "nth_attempt n \<noteq> - 1" using True by (metis less_irrefl)
  then show ?thesis using True by (simp add: u32_saturating_inc_def nth_attempt_def min_def add.commute)
next
  case False
  have "(of_nat (2 ^ 32 - 1) :: u32) = - 1" by simp
  then show ?thesis using False by (simp add: u32_saturating_inc_def nth_attempt_def min_def)
qed

lemma loop_cong:
  assumes "loop_inv env l" "lk_result l' = lk_result l" "lk_sleeps l' = lk_sleeps l" "lk_attempt l' = lk_attempt l"
    "lk_conn l = None \<Longrightarrow> lk_result l \<noteq> None \<Longrightarrow> lk_conn l' = None"
  shows "loop_inv env l'"
  using assms by (auto simp: loop_inv_def sleeps_ok_def result_ok_def split: option.splits sum.splits)

lemma loop_returned:
  assumes "loop_inv env l" "lk_result l = None"
  shows "loop_inv env (after_connection env (Inl e) l)"
proof (cases "failure_class e = Retryable")
  case True
  then show ?thesis using assms nth_attempt_Suc[of "length (lk_sleeps l)"]
    by (simp add: after_connection_def loop_inv_def result_ok_def sleeps_ok_def)
next
  case False
  then show ?thesis using assms by (simp add: after_connection_def loop_inv_def result_ok_def sleeps_ok_def)
qed

lemma result_running: "loop_inv env l \<Longrightarrow> lk_conn l = Some c \<Longrightarrow> lk_result l = None"
  by (auto simp: loop_inv_def result_ok_def split: option.splits sum.splits)

lemma loop_on_conn: "loop_inv env l \<Longrightarrow> lk_conn l = Some c \<Longrightarrow> loop_inv env (on_conn c' l)"
  by (rule loop_cong) (auto simp: on_conn_def)

lemma loop_step:
  assumes "link_step env l l'" "loop_inv env l" "conn_inv errors_ok l"
  shows "loop_inv env l'"
  using assms(1)
proof cases
  case (returned c r)
  have "isl r" using conn_invD[OF assms(3) returned(2)] returned(3) by (simp add: errors_ok_def)
  then obtain e where "r = Inl e" by (cases r) auto
  then show ?thesis using loop_returned[OF assms(2) result_running[OF assms(2) returned(2)]] returned(1) by simp
next
  case (dial d)
  show ?thesis
  proof (cases "open_connection env d")
    case (Inl e)
    then show ?thesis using dial loop_returned[OF assms(2)] by (simp add: connect_step_def)
  next
    case (Inr c)
    then show ?thesis using dial by (intro loop_cong[OF assms(2)]) (auto simp: connect_step_def)
  qed
next
  case (ready c s)
  have r: "loop_inv env (on_conn (ready_step s c) l)" by (rule loop_on_conn[OF assms(2) ready(2)])
  then have "loop_inv env ((on_conn (ready_step s c) l)\<lparr>lk_attempt := 0, lk_sleeps := []\<rparr>)"
    by (simp add: loop_inv_def result_ok_def sleeps_ok_def nth_attempt_def split: option.splits sum.splits)
  moreover have "loop_inv env ((on_conn (ready_step s c) l)\<lparr>lk_signal_dropped := b\<rparr>)" for b
    by (rule loop_cong[OF r]) (simp_all add: on_conn_def)
  ultimately show ?thesis unfolding ready(1) link_ready_def Let_def by simp
next
  case (control c)
  then show ?thesis by (intro loop_cong[OF assms(2)]) (auto simp: control_arm_def on_conn_def)
next
  case (outbound c)
  then show ?thesis by (intro loop_cong[OF assms(2)]) (auto simp: outbound_arm_def on_conn_def split: list.splits daemon_frame.splits)
next
  case (write_next c sent)
  then show ?thesis by (intro loop_cong[OF assms(2)]) (auto simp: link_write_def Let_def on_conn_def)
next
  case (host_sends f)
  then show ?thesis by (intro loop_cong[OF assms(2)]) auto
next
  case host_closes
  then show ?thesis by (intro loop_cong[OF assms(2)]) auto
next
  case (host_drops outbound control inbound)
  then show ?thesis by (intro loop_cong[OF assms(2)]) auto
qed (use loop_on_conn[OF assms(2)] in blast)+

interpretation loop: link_invariant env "\<lambda>l. loop_inv env l \<and> conn_inv errors_ok l" for env :: "('j, 't) link_env"
proof
  show "loop_inv env new_link \<and> conn_inv errors_ok new_link"
    by (simp add: loop_inv_def result_ok_def sleeps_ok_def nth_attempt_def new_link_def conn_inv_def)
qed (use loop_step errors.keeps in blast)

lemma delay_closed:
  assumes "rb_maximum b < duration_limit"
  shows "delay b (nth_attempt n) = min (rb_initial b * 2 ^ min n 16) (rb_maximum b)"
proof -
  have "unat (min (nth_attempt n) 16) = min n 16"
    by (simp add: nth_attempt_def min_def word_le_nat_alt unat_of_nat take_bit_nat_eq_self)
  moreover have "unat (push_bit (min n 16) (1 :: u32)) = 2 ^ min n 16"
  proof -
    have "(2 :: nat) ^ min n 16 < 2 ^ 32" by (rule power_strict_increasing) simp_all
    then have "unat (of_nat (2 ^ min n 16) :: u32) = 2 ^ min n 16" unfolding unat_of_nat by simp
    then show ?thesis by (simp add: push_bit_of_1)
  qed
  ultimately show ?thesis using assms by (auto simp: delay_def Let_def checked_mul_def)
qed

section \<open>Properties\<close>

text \<open>The run of the witnesses: text is a server frame or nothing.\<close>

lemma running_code [code]: "running c = (case cn_main c of MainDone _ \<Rightarrow> False | _ \<Rightarrow> True)"
  by (auto simp: running_def split: main_task.splits)

type_synonym demo_link = "(unit, server_frame option) link"

definition demo_hello :: hello where "demo_hello = new_hello ''d1'' ''secret'' []"
definition demo_welcome :: welcome_frame where
  "demo_welcome = \<lparr>we_protocol_version = PROTOCOL_VERSION, we_schema_version = SCHEMA_VERSION, we_daemon_id = ''d1'', we_server_time = ''now''\<rparr>"
definition demo_snapshot :: reconcile_snapshot where
  "demo_snapshot = \<lparr>rs_schema_version = SCHEMA_VERSION, rs_sessions = []\<rparr>"
definition demo_beat :: daemon_frame where
  "demo_beat = DF_Heartbeat \<lparr>hb_schema_version = SCHEMA_VERSION, hb_daemon_id = ''d1'', hb_sent_at = ''now'', hb_application_state = ''connected''\<rparr>"
definition demo_refusal :: protocol_error_frame where
  "demo_refusal = \<lparr>pe_schema_version = SCHEMA_VERSION, pe_code = ''revoked'', pe_message = ''revoked''\<rparr>"

definition demo_net :: "(unit, server_frame option) link_env" where
  "demo_net = \<lparr>le_to_string = (\<lambda>_. Inr None), le_from_str = (\<lambda>t. case t of None \<Rightarrow> Inl () | Some f \<Rightarrow> Inr f), le_show = (\<lambda>_. []),
     le_hello = demo_hello, le_backoff = default_backoff\<rparr>"

definition with_conn :: "((unit, server_frame option) connection \<Rightarrow> demo_link \<Rightarrow> demo_link) \<Rightarrow> demo_link \<Rightarrow> demo_link" where
  "with_conn g l = (case lk_conn l of None \<Rightarrow> l | Some c \<Rightarrow> g c l)"

lemma with_conn_the: "\<not> Option.is_none (lk_conn l) \<Longrightarrow> with_conn g l = g (the (lk_conn l)) l"
  by (cases "lk_conn l") (simp_all add: with_conn_def)

text \<open>A frame arrives: the reader reads it and passes it on.\<close>

definition demo_arrives :: "server_frame \<Rightarrow> demo_link \<Rightarrow> demo_link" where
  "demo_arrives f = with_conn (\<lambda>c. on_conn (reader_continue False (read_step demo_net (Some (Inr (WsText (Some f)))) c)))"

definition demo_ready :: "demo_link \<Rightarrow> bool" where
  "demo_ready l = (case lk_conn l of None \<Rightarrow> False | Some c \<Rightarrow> running c \<and> cn_reader c = Reading \<and> length (cn_incoming c) < INCOMING_QUEUE_CAPACITY)"

lemma demo_arrives_run:
  assumes l: "link_run demo_net l" "demo_ready l" and f: "server_frame_validate f = Inr ()"
  shows "link_run demo_net (demo_arrives f l)"
proof -
  obtain c where c: "lk_conn l = Some c" "running c" "cn_reader c = Reading" "length (cn_incoming c) < INCOMING_QUEUE_CAPACITY"
    using l(2) by (auto simp: demo_ready_def split: option.splits)
  let ?c = "read_step demo_net (Some (Inr (WsText (Some f)))) c"
  have "?c = c\<lparr>cn_reader := SendIncoming f, cn_read := cn_read c @ [WsText (Some f)]\<rparr>"
    using f by (simp add: read_step_def read_item_def decode_server_frame_def server_from_json_def demo_net_def)
  then have on: "lk_conn (on_conn ?c l) = Some ?c" "running ?c" "reader_can_continue False ?c"
    using c by (simp_all add: on_conn_def running_def reader_can_continue_def)
  have "link_run demo_net (on_conn (reader_continue False ?c) (on_conn ?c l))"
    by (rule run_step[OF run_step[OF l(1) read[OF c(1-3)]] read_on[OF on]])
  then show ?thesis by (simp add: demo_arrives_def with_conn_def c(1) on_conn_def)
qed

lemma conn_the: "\<not> Option.is_none (lk_conn l) \<Longrightarrow> lk_conn l = Some (the (lk_conn l))"
  by (cases "lk_conn l") simp_all

definition demo_l1 :: demo_link where "demo_l1 = connect_step demo_net HelloSent new_link"
definition demo_l2 :: demo_link where "demo_l2 = demo_arrives (SF_Welcome demo_welcome) demo_l1"
definition demo_l3 :: demo_link where "demo_l3 = with_conn (\<lambda>c. on_conn (welcome_step False c)) demo_l2"
definition demo_l4 :: demo_link where "demo_l4 = demo_arrives (SF_Reconcile demo_snapshot) demo_l3"
definition demo_l5 :: demo_link where "demo_l5 = with_conn (\<lambda>c. on_conn (reconcile_step False demo_welcome c)) demo_l4"
definition demo_l6 :: demo_link where
  "demo_l6 = with_conn (\<lambda>c l. on_conn (announce_step False (lk_inbound_open l) \<lparr>hs_welcome = demo_welcome, hs_reconciliation = demo_snapshot\<rparr> c) l) demo_l5"
definition demo_l7 :: demo_link where "demo_l7 = with_conn (link_ready Signalled) demo_l6"
definition demo_l8 :: demo_link where "demo_l8 = with_conn (\<lambda>c l. l\<lparr>lk_outbound := lk_outbound l @ [demo_beat], lk_accepted := lk_accepted l @ [demo_beat]\<rparr>) demo_l7"
definition demo_l9 :: demo_link where "demo_l9 = with_conn outbound_arm demo_l8"
definition demo_l10 :: demo_link where "demo_l10 = with_conn (\<lambda>c. on_conn (forward_step demo_beat c)) demo_l9"
definition demo_l11 :: demo_link where "demo_l11 = with_conn (link_write demo_net (Inr ())) demo_l10"

lemma demo_run1: "link_run demo_net demo_l1"
  unfolding demo_l1_def by (rule run_step[OF run_start dial]) (simp_all add: new_link_def)

lemma demo_run2: "link_run demo_net demo_l2"
  unfolding demo_l2_def by (rule demo_arrives_run[OF demo_run1]) code_simp+

lemma demo_run3: "link_run demo_net demo_l3"
  unfolding demo_l3_def by (subst with_conn_the, code_simp, rule run_step[OF demo_run2 welcomed[OF conn_the]]) code_simp+

lemma demo_run5: "link_run demo_net demo_l5"
proof -
  have "link_run demo_net demo_l4" unfolding demo_l4_def by (rule demo_arrives_run[OF demo_run3]) code_simp+
  then show ?thesis unfolding demo_l5_def by (subst with_conn_the, code_simp, rule run_step[OF _ reconcile[OF conn_the]]) code_simp+
qed

lemma demo_run7: "link_run demo_net demo_l7"
proof -
  have "link_run demo_net demo_l6" unfolding demo_l6_def by (subst with_conn_the, code_simp, rule run_step[OF demo_run5 announce[OF conn_the]]) code_simp+
  then show ?thesis unfolding demo_l7_def by (subst with_conn_the, code_simp, rule run_step[OF _ ready[OF conn_the]]) code_simp+
qed

lemma demo_run9: "link_run demo_net demo_l9"
proof -
  have "link_run demo_net demo_l8" unfolding demo_l8_def by (subst with_conn_the, code_simp, rule run_step[OF demo_run7 host_sends]) code_simp+
  then show ?thesis unfolding demo_l9_def by (subst with_conn_the, code_simp, rule run_step[OF _ outbound[OF conn_the]]) code_simp+
qed

lemma demo_run11: "link_run demo_net demo_l11"
proof -
  have "link_run demo_net demo_l10" unfolding demo_l10_def by (subst with_conn_the, code_simp, rule run_step[OF demo_run9 forward[OF conn_the]]) code_simp+
  then show ?thesis unfolding demo_l11_def by (subst with_conn_the, code_simp, rule run_step[OF _ write_next[OF conn_the]]) code_simp+
qed

text \<open>C24. No application traffic before the handshake, in any run of the supervisor over any number of connections: a connection hands
  nothing to the host, or first the welcome and the snapshot that were the first two frames it received and then, only in the phase
  \<open>Active\<close>, commands and event acknowledgements in the order received, none left out; and it takes no frame from the host
  before the phase is \<open>Active\<close>.\<close>

theorem handshake_before_traffic:
  assumes "link_run env l" "lk_conn l = Some c"
  shows "(cn_events c = [] \<or> (\<exists>h fs. cn_events c = HandshakeComplete h # map EventFrame fs \<and> list_all app_frame fs
      \<and> prefix (SF_Welcome (hs_welcome h) # SF_Reconcile (hs_reconciliation h) # fs) (cn_received c) \<and> (fs \<noteq> [] \<longrightarrow> cn_phase c = Active)))
    \<and> (cn_taken c \<noteq> [] \<longrightarrow> cn_phase c = Active)"
proof -
  have t: "traffic_ok c" using traffic.always[OF assms(1)] assms(2) by (rule conn_invD)
  then have received: "cn_received c = cn_consumed c @ cn_incoming c" and taken: "cn_taken c \<noteq> [] \<longrightarrow> cn_phase c = Active"
    by (simp_all add: traffic_ok_def)
  have "gate_ok m c \<Longrightarrow> gate_ok (MainDone (Inl PeerClosed)) c" for m by (cases m) force+
  then have "gate_ok (MainDone (Inl PeerClosed)) c" using t by (auto simp: traffic_ok_def)
  then consider "cn_events c = []" | h fs rest where "opened h fs rest c" "fs \<noteq> [] \<longrightarrow> cn_phase c = Active" by auto
  then show ?thesis
  proof cases
    case (2 h fs rest)
    then have "prefix (SF_Welcome (hs_welcome h) # SF_Reconcile (hs_reconciliation h) # fs) (cn_received c)"
      by (simp add: received opened_def)
    then show ?thesis using 2 taken by (auto simp: opened_def)
  qed (use taken in simp)
qed

theorem handshake_before_traffic_witness:
  "\<exists>c h. lk_conn demo_l11 = Some c \<and> cn_taken c \<noteq> [] \<and> cn_phase c = Active \<and> cn_events c = [HandshakeComplete h]
     \<and> prefix [SF_Welcome (hs_welcome h), SF_Reconcile (hs_reconciliation h)] (cn_received c)"
proof -
  have "(case lk_conn demo_l11 of None \<Rightarrow> False | Some c \<Rightarrow> cn_taken c \<noteq> [] \<and> length (cn_events c) = 1)" by code_simp
  then obtain c where c: "lk_conn demo_l11 = Some c" "cn_taken c \<noteq> []" "length (cn_events c) = 1" by (auto split: option.splits)
  then show ?thesis using handshake_before_traffic[OF demo_run11 c(1)] by fastforce
qed

text \<open>C25. Frames go out in order and at most once, across reconnections. Of all frames written to the sockets, those of the host form a
  subsequence of what it handed over, and a frame it handed over is either still in its channel or was taken by exactly one
  connection. Every other frame written is the hello of the supervisor or an \<open>invalid_frame\<close> or \<open>binary_frame\<close> error of the reader; the hello
  is written once on a connection and before everything else.\<close>

theorem frames_sent_in_order:
  assumes "link_run env l"
  shows "subseq (from_source FromHost (lk_wire l)) (lk_accepted l) \<and> lk_accepted l = lk_taken l @ lk_outbound l
    \<and> (\<forall>(s, f) \<in> set (lk_wire l). wire_frame env s f)
    \<and> (\<forall>c. lk_conn l = Some c \<longrightarrow> (\<exists>ws. lk_wire l = ws @ (FromSupervisor, DF_Hello (le_hello env)) # cn_sent c) \<and> FromSupervisor \<notin> fst ` set (cn_sent c))"
proof -
  have w: "wire_ok env l" "conn_inv sends_ok l" using wire.always[OF assms] by blast+
  have k: "wire_frames env l" "conn_inv (reader_knows env) l" using frames.always[OF assms] by blast+
  have "subseq (from_source FromHost (lk_wire l)) (lk_taken l)"
  proof (cases "lk_conn l")
    case (Some c)
    have "wire_ok env (after_connection env (Inl PeerClosed) l)" by (rule wire_returned[OF w(1) Some conn_invD[OF w(2) Some]])
    then show ?thesis by (simp add: wire_ok_def after_connection_def failure_class_def)
  qed (use w in \<open>simp add: wire_ok_def\<close>)
  moreover have "lk_accepted l = lk_taken l @ lk_outbound l" using w(1) by (simp add: wire_ok_def)
  moreover have "FromSupervisor \<notin> fst ` set (cn_sent c)" if "lk_conn l = Some c" for c
    using conn_invD[OF k(2) that] by (simp add: reader_knows_def)
  ultimately show ?thesis using w(1) k(1) by (auto simp: wire_ok_def wire_frames_def intro: subseq_order.order_trans)
qed

theorem frames_sent_in_order_witness:
  "lk_wire demo_l11 = [(FromSupervisor, DF_Hello demo_hello), (FromHost, demo_beat)] \<and> subseq [demo_beat] (lk_accepted demo_l11)"
proof -
  have "lk_wire demo_l11 = [(FromSupervisor, DF_Hello demo_hello), (FromHost, demo_beat)]" by code_simp
  moreover have "subseq (from_source FromHost (lk_wire demo_l11)) (lk_accepted demo_l11)" using frames_sent_in_order[OF demo_run11] by blast
  ultimately show ?thesis by simp
qed

text \<open>C26. The supervisor gives up only for cause: whatever the socket, the server and the host do, it never returns success, no connection is open
  when it has returned, and what it returns goes back to one of four things. A closed channel: the host dropped its end of the inbound or the control channel, dropped
  its end of the outbound channel after everything in it was taken, or dropped the ready signal. A terminal protocol error: on the last connection
  the server sent that error frame, the reader was given a message it answers with that error, or the host itself handed over that error frame. A
  handshake violation: the server's frames on the last connection were not in order. A protocol failure: the hello, a frame of the host or the reader's
  error cannot be encoded. A peer that closes, a socket that fails, a dial that fails and a timeout never end it.\<close>

theorem supervisor_returns_for_cause:
  assumes "link_run env l" "lk_result l = Some r"
  shows "lk_conn l = None \<and>
    ((\<exists>side. r = Inl (ChannelClosed side) \<and> host_closed side l)
     \<or> (\<exists>c pe. lk_last l = Some c \<and> r = Inl (TerminalProtocol (pe_code pe) (pe_message pe))
          \<and> (server_error env c pe \<or> complaint env c pe \<or> DF_ProtocolError pe \<in> set (cn_taken c)))
     \<or> (\<exists>c reason. lk_last l = Some c \<and> r = Inl (HandshakeViolation reason) \<and> \<not> orderly (cn_received c))
     \<or> (\<exists>fe f. r = Inl (ProtocolFailed fe) \<and> encode_daemon_frame (le_to_string env) f = Inl fe \<and> (f = DF_Hello (le_hello env)
          \<or> (\<exists>c. lk_last l = Some c \<and> (f \<in> set (cn_taken c) \<or> (\<exists>pe. f = DF_ProtocolError pe \<and> complaint env c pe))))))"
proof -
  obtain e where e: "lk_conn l = None" "r = Inl e" "cause env l e"
    using ends.always[OF assms(1)] assms(2) by (auto simp: ended_ok_def)
  show ?thesis
  proof (cases e)
    case (TerminalProtocol code message)
    then show ?thesis using e by (auto simp: cause_def explained_def)
  next
    case (ProtocolFailed fe)
    then show ?thesis using e unfolding cause_def explained_def by simp blast
  qed (use e in \<open>simp_all add: cause_def explained_def\<close>)
qed

definition demo_l2r :: demo_link where "demo_l2r = demo_arrives (SF_ProtocolError demo_refusal) demo_l1"
definition demo_l3r :: demo_link where "demo_l3r = with_conn (\<lambda>c. on_conn (welcome_step False c)) demo_l2r"
definition demo_end :: demo_link where "demo_end = after_connection demo_net (Inl (TerminalProtocol ''revoked'' ''revoked'')) demo_l3r"

lemma demo_run_end: "link_run demo_net demo_end"
proof -
  have "link_run demo_net demo_l2r" unfolding demo_l2r_def by (rule demo_arrives_run[OF demo_run1]) code_simp+
  then have "link_run demo_net demo_l3r" unfolding demo_l3r_def by (subst with_conn_the, code_simp, rule run_step[OF _ welcomed[OF conn_the]]) code_simp+
  moreover have "cn_main (the (lk_conn demo_l3r)) = MainDone (Inl (TerminalProtocol ''revoked'' ''revoked''))" by code_simp
  moreover have "lk_conn demo_l3r = Some (the (lk_conn demo_l3r))" by (rule conn_the) code_simp
  ultimately show ?thesis unfolding demo_end_def by (metis run_step returned)
qed

theorem supervisor_returns_for_cause_witness:
  "lk_result demo_end = Some (Inl (TerminalProtocol ''revoked'' ''revoked''))
   \<and> (\<exists>c pe. lk_last demo_end = Some c \<and> pe_code pe = ''revoked''
        \<and> (server_error demo_net c pe \<or> complaint demo_net c pe \<or> DF_ProtocolError pe \<in> set (cn_taken c)))"
proof -
  have r: "lk_result demo_end = Some (Inl (TerminalProtocol ''revoked'' ''revoked''))" by code_simp
  then show ?thesis using supervisor_returns_for_cause[OF demo_run_end r] by fastforce
qed

text \<open>The pauses between attempts double from the initial one up to the maximum and start afresh after every completed handshake: the
  pauses since the last one are exactly that sequence, whatever made the attempts fail and however many there were.\<close>

theorem backoff_schedule:
  assumes "link_run env l" "rb_maximum (le_backoff env) < duration_limit"
  shows "lk_sleeps l = map (\<lambda>i. min (rb_initial (le_backoff env) * 2 ^ min i 16) (rb_maximum (le_backoff env))) [0..<length (lk_sleeps l)]"
proof -
  have "sleeps_ok (le_backoff env) l" using loop.always[OF assms(1)] by (simp add: loop_inv_def)
  then show ?thesis unfolding sleeps_ok_def delay_closed[OF assms(2)] by blast
qed

definition demo_lost :: demo_link where
  "demo_lost = connect_step demo_net (DialFailed ''refused'') (connect_step demo_net HelloLate (connect_step demo_net (DialFailed ''refused'') new_link))"

theorem backoff_schedule_witness: "lk_sleeps demo_lost = [1000000000, 2000000000, 4000000000]"
proof -
  have "link_run demo_net demo_lost" unfolding demo_lost_def
    by (rule run_step[OF run_step[OF run_step[OF run_start dial] dial] dial]) code_simp+
  moreover have "rb_maximum (le_backoff demo_net) < duration_limit" "length (lk_sleeps demo_lost) = 3" by code_simp+
  ultimately have "lk_sleeps demo_lost = map (\<lambda>i. min (rb_initial (le_backoff demo_net) * 2 ^ min i 16) (rb_maximum (le_backoff demo_net))) [0..<3]"
    using backoff_schedule[of demo_net demo_lost] by simp
  then show ?thesis by (simp add: demo_net_def default_backoff_def upt_rec)
qed

end
