(* ===== verification/Rust_Ip.thy ===== *)
theory Rust_Ip
  imports North_Prelude
begin

text \<open>
  The standard library's textual IP address parser (\<open>core::net::parser\<close>), which
  \<open>north-domain/src/repository.rs\<close> calls as \<open>parse::<Ipv6Addr>()\<close>. A parser consumes a
  prefix of its input and returns the rest; a parser that fails consumes nothing
  (\<open>read_atomically\<close>). An IPv6 address is the list of its eight 16-bit groups.

  The lemmas bound what a successful parse returns: eight groups below \<open>2 ^ 16\<close>, four
  octets below \<open>2 ^ 8\<close>.
\<close>

definition to_digit :: "nat \<Rightarrow> char \<Rightarrow> nat option" where
  "to_digit radix c =
     (let n = of_char c :: nat;
          d = (if is_ascii_digit c then Some (n - 48)
               else if CHR ''a'' \<le> c \<and> c \<le> CHR ''z'' then Some (n - 87)
               else if CHR ''A'' \<le> c \<and> c \<le> CHR ''Z'' then Some (n - 55) else None)
      in case d of None \<Rightarrow> None | Some k \<Rightarrow> if k < radix then Some k else None)"

text \<open>The digit loop of \<open>read_number\<close>: \<open>None\<close> on overflow of the target type or on more than
  \<open>max_digits\<close> digits; otherwise the value, the number of digits and the rest.\<close>

fun read_digits :: "nat \<Rightarrow> nat \<Rightarrow> nat \<Rightarrow> nat \<Rightarrow> nat \<Rightarrow> string \<Rightarrow> (nat \<times> nat \<times> string) option" where
  "read_digits radix bound max_digits acc n [] = Some (acc, n, [])"
| "read_digits radix bound max_digits acc n (c # s) =
     (case to_digit radix c of
        None \<Rightarrow> Some (acc, n, c # s)
      | Some d \<Rightarrow>
          if bound < acc * radix + d then None
          else if max_digits < Suc n then None
          else read_digits radix bound max_digits (acc * radix + d) (Suc n) s)"

definition read_number :: "nat \<Rightarrow> nat \<Rightarrow> nat \<Rightarrow> bool \<Rightarrow> string \<Rightarrow> (nat \<times> string) option" where
  "read_number radix bound max_digits allow_zero_prefix s =
     (case read_digits radix bound max_digits 0 0 s of
        None \<Rightarrow> None
      | Some (v, n, rest) \<Rightarrow>
          if n = 0 then None
          else if \<not> allow_zero_prefix \<and> starts_with ''0'' s \<and> 1 < n then None
          else Some (v, rest))"

definition read_separator ::
  "char \<Rightarrow> nat \<Rightarrow> (string \<Rightarrow> ('a \<times> string) option) \<Rightarrow> string \<Rightarrow> ('a \<times> string) option" where
  "read_separator sep index inner s =
     (if index = 0 then inner s
      else (case strip_prefix [sep] s of None \<Rightarrow> None | Some r \<Rightarrow> inner r))"

definition read_octet :: "nat \<Rightarrow> string \<Rightarrow> (nat \<times> string) option" where
  "read_octet i = read_separator CHR ''.'' i (read_number 10 255 3 False)"

definition read_ipv4_addr :: "string \<Rightarrow> ((nat \<times> nat \<times> nat \<times> nat) \<times> string) option" where
  "read_ipv4_addr s =
     (case read_octet 0 s of None \<Rightarrow> None | Some (a, s1) \<Rightarrow>
     (case read_octet 1 s1 of None \<Rightarrow> None | Some (b, s2) \<Rightarrow>
     (case read_octet 2 s2 of None \<Rightarrow> None | Some (c, s3) \<Rightarrow>
     (case read_octet 3 s3 of None \<Rightarrow> None | Some (d, s4) \<Rightarrow> Some ((a, b, c, d), s4)))))"

function read_groups :: "nat \<Rightarrow> nat \<Rightarrow> string \<Rightarrow> nat list \<times> bool \<times> string" where
  "read_groups limit i s =
     (if limit \<le> i then ([], False, s)
      else (case (if i < limit - 1 then read_separator CHR '':'' i read_ipv4_addr s else None) of
              Some ((a, b, c, d), r) \<Rightarrow> ([a * 256 + b, c * 256 + d], True, r)
            | None \<Rightarrow>
                (case read_separator CHR '':'' i (read_number 16 65535 4 True) s of
                   None \<Rightarrow> ([], False, s)
                 | Some (g, r) \<Rightarrow>
                     (case read_groups limit (Suc i) r of (gs, v4, r') \<Rightarrow> (g # gs, v4, r')))))"
  by pat_completeness auto
termination
  by (relation "measure (\<lambda>(limit, i, s). limit - i)") auto

declare read_groups.simps [simp del]

definition read_ipv6_addr :: "string \<Rightarrow> (nat list \<times> string) option" where
  "read_ipv6_addr s =
     (case read_groups 8 0 s of (head, head_ipv4, r) \<Rightarrow>
        if length head = 8 then Some (head, r)
        else if head_ipv4 then None
        else (case strip_prefix ''::'' r of
                None \<Rightarrow> None
              | Some r1 \<Rightarrow>
                  (case read_groups (8 - (length head + 1)) 0 r1 of (tail, _, r2) \<Rightarrow>
                     Some (head @ replicate (8 - length head - length tail) 0 @ tail, r2))))"

text \<open>\<open>Parser::parse_with\<close>: the whole input must be consumed.\<close>

definition parse_ipv6 :: "string \<Rightarrow> nat list option" where
  "parse_ipv6 s = (case read_ipv6_addr s of Some (groups, []) \<Rightarrow> Some groups | _ \<Rightarrow> None)"

text \<open>\<open>Ipv4Addr::from_str\<close> also refuses inputs of more than 15 bytes.\<close>

definition parse_ipv4 :: "string \<Rightarrow> (nat \<times> nat \<times> nat \<times> nat) option" where
  "parse_ipv4 s =
     (if 15 < length s then None
      else (case read_ipv4_addr s of Some (octets, []) \<Rightarrow> Some octets | _ \<Rightarrow> None))"

section \<open>Bounds of parsed addresses\<close>

lemma read_digits_bound:
  "read_digits radix bound mx acc n s = Some (v, k, r) \<Longrightarrow> acc \<le> bound \<Longrightarrow> v \<le> bound"
  by (induction radix bound mx acc n s rule: read_digits.induct) (auto split: option.splits if_splits)

lemma read_number_bound: "read_number radix bound mx z s = Some (v, r) \<Longrightarrow> v \<le> bound"
  by (auto simp: read_number_def dest: read_digits_bound split: option.splits if_splits)

lemma read_separator_SomeD:
  "read_separator sep i p s = Some x \<Longrightarrow> \<exists>s'. p s' = Some x"
  by (auto simp: read_separator_def split: if_splits option.splits)

lemma read_octet_bound: "read_octet i s = Some (v, r) \<Longrightarrow> v < 256"
proof -
  assume "read_octet i s = Some (v, r)"
  then obtain s' where "read_number 10 255 3 False s' = Some (v, r)"
    unfolding read_octet_def by (blast dest: read_separator_SomeD)
  then show ?thesis using read_number_bound by fastforce
qed

lemma read_ipv4_addr_bound:
  "read_ipv4_addr s = Some ((a, b, c, d), r) \<Longrightarrow> a < 256 \<and> b < 256 \<and> c < 256 \<and> d < 256"
  by (auto simp: read_ipv4_addr_def split: option.splits dest!: read_octet_bound)

lemma read_groups_bound:
  "read_groups limit i s = (gs, v4, r) \<Longrightarrow> length gs \<le> limit - i \<and> (\<forall>g \<in> set gs. g < 65536)"
proof (induction limit i s arbitrary: gs v4 r rule: read_groups.induct)
  case (1 limit i s)
  show ?case
  proof (cases "limit \<le> i")
    case True
    with "1.prems" show ?thesis by (simp add: read_groups.simps [of limit i])
  next
    case False
    let ?v4 = "if i < limit - 1 then read_separator CHR '':'' i read_ipv4_addr s else None"
    let ?g = "read_separator CHR '':'' i (read_number 16 65535 4 True) s"
    show ?thesis
    proof (cases ?v4)
      case (Some x)
      obtain a b c d q where x: "x = ((a, b, c, d), q)" by (cases x) auto
      have i: "i < limit - 1" "read_separator CHR '':'' i read_ipv4_addr s = Some ((a, b, c, d), q)"
        using Some x by (auto split: if_splits)
      then have "a < 256 \<and> b < 256 \<and> c < 256 \<and> d < 256"
        using read_separator_SomeD read_ipv4_addr_bound by blast
      with i False "1.prems" show ?thesis by (auto simp: read_groups.simps [of limit i])
    next
      case None
      show ?thesis
      proof (cases ?g)
        case None
        with False \<open>?v4 = None\<close> "1.prems" show ?thesis by (auto simp: read_groups.simps [of limit i])
      next
        case (Some x)
        obtain g q where x: "x = (g, q)" by (cases x) auto
        obtain gs' v4' r' where rec: "read_groups limit (Suc i) q = (gs', v4', r')"
          by (cases "read_groups limit (Suc i) q") auto
        have gs: "gs = g # gs'"
          using False \<open>?v4 = None\<close> Some x rec "1.prems" by (auto simp: read_groups.simps [of limit i])
        have IH: "length gs' \<le> limit - Suc i \<and> (\<forall>g \<in> set gs'. g < 65536)"
          using "1.IH" [OF False \<open>?v4 = None\<close> Some x [symmetric] rec] by simp
        have "g \<le> 65535"
          using Some x read_separator_SomeD read_number_bound by blast
        with IH gs False show ?thesis by auto
      qed
    qed
  qed
qed

lemma parse_ipv6_groups: "parse_ipv6 s = Some gs \<Longrightarrow> length gs = 8 \<and> (\<forall>g \<in> set gs. g < 65536)"
proof -
  assume "parse_ipv6 s = Some gs"
  then have p: "read_ipv6_addr s = Some (gs, [])"
    by (auto simp: parse_ipv6_def split: option.splits prod.splits list.splits)
  obtain hd' v4 r where h: "read_groups 8 0 s = (hd', v4, r)" by (cases "read_groups 8 0 s") auto
  note hb = read_groups_bound [OF h]
  show ?thesis
  proof (cases "length hd' = 8")
    case True
    with p h hb show ?thesis by (auto simp: read_ipv6_addr_def)
  next
    case False
    with p h obtain r1 tl' w r2 where t: "read_groups (8 - (length hd' + 1)) 0 r1 = (tl', w, r2)"
      and gs: "gs = hd' @ replicate (8 - length hd' - length tl') 0 @ tl'"
      by (auto simp: read_ipv6_addr_def split: if_splits option.splits prod.splits)
    note tb = read_groups_bound [OF t]
    show ?thesis using hb tb False gs by auto
  qed
qed

end
