(* ===== verification/Repository_Url.thy ===== *)
theory Repository_Url
  imports Rust_Ip
begin

text \<open>
  \<open>north-domain/src/repository.rs\<close>: validation of repository metadata and of the
  credential-free Git locations North accepts.

  The specification is the grammar \<open>git_location\<close>, one rule per accepted shape; the
  recogniser \<open>supported_git_url\<close> of the source accepts exactly that language. Unicode
  lower-casing (\<open>str::to_lowercase\<close>) is a parameter of \<open>validate_metadata\<close>.
\<close>

definition MAX_NAME_BYTES :: nat where "MAX_NAME_BYTES = 100"
definition MAX_DESCRIPTION_BYTES :: nat where "MAX_DESCRIPTION_BYTES = 10000"
definition MAX_URL_BYTES :: nat where "MAX_URL_BYTES = 2048"

record repository_metadata =
  rm_name :: string
  rm_name_normalized :: string
  rm_url :: string
  rm_description :: string

datatype repository_error =
  EmptyName | NameTooLong | DescriptionTooLong | EmptyUrl | UrlTooLong | InvalidUrl

fun repository_error_code :: "repository_error \<Rightarrow> string" where
  "repository_error_code EmptyName = ''empty_name''"
| "repository_error_code NameTooLong = ''name_too_long''"
| "repository_error_code DescriptionTooLong = ''description_too_long''"
| "repository_error_code EmptyUrl = ''empty_url''"
| "repository_error_code UrlTooLong = ''url_too_long''"
| "repository_error_code InvalidUrl = ''invalid_url''"

definition valid_ipv6 :: "string \<Rightarrow> bool" where
  "valid_ipv6 host \<longleftrightarrow> parse_ipv6 host \<noteq> None"

definition valid_label :: "string \<Rightarrow> bool" where
  "valid_label label \<longleftrightarrow>
     label \<noteq> [] \<and> \<not> starts_with ''-'' label \<and> last label \<noteq> CHR ''-''
     \<and> list_all (\<lambda>c. is_ascii_alphanumeric c \<or> c = CHR ''-'') label"

definition valid_host :: "string \<Rightarrow> bool" where
  "valid_host host \<longleftrightarrow> host \<noteq> [] \<and> list_all valid_label (split_on CHR ''.'' host)"

text \<open>\<open>port.parse::<u16>()\<close> on a string of ASCII digits.\<close>

definition parse_u16_digits :: "string \<Rightarrow> nat option" where
  "parse_u16_digits s =
     (if s = [] then None
      else let v = foldl (\<lambda>acc c. acc * 10 + (of_char c - 48)) 0 s
           in if v \<le> 65535 then Some v else None)"

definition valid_port :: "string option \<Rightarrow> bool" where
  "valid_port port =
     (case port of
        None \<Rightarrow> True
      | Some p \<Rightarrow> list_all is_ascii_digit p
                  \<and> (case parse_u16_digits p of None \<Rightarrow> False | Some v \<Rightarrow> 0 < v))"

definition valid_host_port :: "string \<Rightarrow> bool" where
  "valid_host_port authority =
     (case strip_prefix ''['' authority of
        Some v \<Rightarrow>
          (case split_once CHR '']'' v of
             None \<Rightarrow> False
           | Some (host, suffix) \<Rightarrow>
               if suffix = [] then valid_ipv6 host \<and> valid_port None
               else (case strip_prefix '':'' suffix of
                       None \<Rightarrow> False
                     | Some port \<Rightarrow>
                         if port = [] then False else valid_ipv6 host \<and> valid_port (Some port)))
      | None \<Rightarrow>
          (case rsplit_once CHR '':'' authority of
             Some (host, port) \<Rightarrow>
               if port \<noteq> [] then valid_host host \<and> valid_port (Some port)
               else valid_host authority \<and> valid_port None
           | None \<Rightarrow> valid_host authority \<and> valid_port None))"

definition contains_any :: "string \<Rightarrow> string \<Rightarrow> bool" where
  "contains_any cs s = list_ex (\<lambda>c. c \<in> set cs) s"

definition https_location :: "string \<Rightarrow> bool" where
  "https_location rest =
     (case split_once CHR ''/'' rest of
        None \<Rightarrow> False
      | Some (authority, path) \<Rightarrow>
          authority \<noteq> [] \<and> \<not> contains_any ''@?#%'' authority \<and> path \<noteq> []
          \<and> \<not> starts_with ''/'' path \<and> \<not> starts_with ''?'' path \<and> \<not> starts_with ''#'' path
          \<and> \<not> contains_any ''?#'' path \<and> valid_host_port authority)"

definition ssh_location :: "string \<Rightarrow> bool" where
  "ssh_location rest =
     (case split_once CHR ''/'' rest of
        None \<Rightarrow> False
      | Some (authority, path) \<Rightarrow>
          if authority = [] \<or> path = [] \<or> starts_with ''/'' path \<or> starts_with ''?'' path then False
          else
            (case split_once CHR ''@'' authority of
               Some (user, host) \<Rightarrow>
                 if user \<noteq> ''git'' \<or> host = [] \<or> contains_any ''@'' host \<or> contains_any '':'' user
                 then False
                 else valid_host_port host \<and> \<not> contains_any ''?#'' path
             | None \<Rightarrow> valid_host_port authority \<and> \<not> contains_any ''?#'' path))"

definition scp_path_ok :: "string \<Rightarrow> bool" where
  "scp_path_ok path \<longleftrightarrow> path \<noteq> [] \<and> \<not> starts_with ''/'' path \<and> \<not> contains_any ''?#'' path"

definition scp_location :: "string \<Rightarrow> bool" where
  "scp_location v =
     (case split_once CHR ''@'' v of
        None \<Rightarrow> False
      | Some (user, rest) \<Rightarrow>
          if user \<noteq> ''git'' \<or> contains_any ''@'' rest \<or> contains_str ''://'' rest then False
          else
            (case strip_prefix ''['' rest of
               Some value \<Rightarrow>
                 (case split_once CHR '']'' value of
                    None \<Rightarrow> False
                  | Some (host, suffix) \<Rightarrow>
                      (case strip_prefix '':'' suffix of
                         None \<Rightarrow> False
                       | Some path \<Rightarrow> valid_ipv6 host \<and> scp_path_ok path))
             | None \<Rightarrow>
                 (case split_once CHR '':'' rest of
                    None \<Rightarrow> False
                  | Some (host, path) \<Rightarrow> valid_host host \<and> scp_path_ok path)))"

definition supported_git_url :: "string \<Rightarrow> bool" where
  "supported_git_url v =
     (if v = [] \<or> has_whitespace v then False
      else (case strip_prefix ''https://'' v of
              Some rest \<Rightarrow> https_location rest
            | None \<Rightarrow>
                (case strip_prefix ''ssh://'' v of
                   Some rest \<Rightarrow> ssh_location rest
                 | None \<Rightarrow> scp_location v)))"

definition validate_metadata ::
  "(string \<Rightarrow> string) \<Rightarrow> string \<Rightarrow> string \<Rightarrow> string \<Rightarrow> repository_error + repository_metadata" where
  "validate_metadata to_lowercase name0 url0 description0 =
     (let name = trim name0 in
      if name = [] then Inl EmptyName
      else if MAX_NAME_BYTES < length name then Inl NameTooLong
      else let description = trim description0 in
      if MAX_DESCRIPTION_BYTES < length description then Inl DescriptionTooLong
      else let url = trim url0 in
      if url = [] then Inl EmptyUrl
      else if MAX_URL_BYTES < length url then Inl UrlTooLong
      else if \<not> supported_git_url url then Inl InvalidUrl
      else Inr \<lparr>rm_name = name, rm_name_normalized = to_lowercase name,
                rm_url = url, rm_description = description\<rparr>)"

section \<open>The grammar of supported locations\<close>

text \<open>A path component: not empty, not absolute, no query and no fragment.\<close>

definition plain_path :: "string \<Rightarrow> bool" where
  "plain_path p \<longleftrightarrow> p \<noteq> [] \<and> hd p \<noteq> CHR ''/'' \<and> set p \<inter> {CHR ''?'', CHR ''#''} = {}"

inductive host_port :: "string \<Rightarrow> bool" where
  name_only: "valid_host h \<Longrightarrow> host_port h"
| name_port: "valid_host h \<Longrightarrow> valid_port (Some p) \<Longrightarrow> host_port (h @ '':'' @ p)"
| v6_only: "valid_ipv6 h \<Longrightarrow> CHR '']'' \<notin> set h \<Longrightarrow> host_port (''['' @ h @ '']'')"
| v6_port: "valid_ipv6 h \<Longrightarrow> CHR '']'' \<notin> set h \<Longrightarrow> valid_port (Some p) \<Longrightarrow> host_port (''['' @ h @ '']:'' @ p)"

inductive git_location :: "string \<Rightarrow> bool" where
  https: "host_port a \<Longrightarrow> set a \<inter> {CHR ''/'', CHR ''@'', CHR ''?'', CHR ''#'', CHR ''%''} = {} \<Longrightarrow> plain_path p \<Longrightarrow>
     git_location (''https://'' @ a @ ''/'' @ p)"
| ssh: "host_port a \<Longrightarrow> set a \<inter> {CHR ''/'', CHR ''@''} = {} \<Longrightarrow> plain_path p \<Longrightarrow>
     git_location (''ssh://'' @ a @ ''/'' @ p)"
| ssh_git: "host_port a \<Longrightarrow> set a \<inter> {CHR ''/'', CHR ''@''} = {} \<Longrightarrow> plain_path p \<Longrightarrow>
     git_location (''ssh://git@'' @ a @ ''/'' @ p)"
| scp: "valid_host h \<Longrightarrow> plain_path p \<Longrightarrow> CHR ''@'' \<notin> set p \<Longrightarrow> \<not> contains_str ''://'' (h @ '':'' @ p) \<Longrightarrow>
     git_location (''git@'' @ h @ '':'' @ p)"
| scp_v6: "valid_ipv6 h \<Longrightarrow> CHR '']'' \<notin> set h \<Longrightarrow> CHR ''@'' \<notin> set h \<Longrightarrow> plain_path p \<Longrightarrow> CHR ''@'' \<notin> set p \<Longrightarrow>
     \<not> contains_str ''://'' (''['' @ h @ '']:'' @ p) \<Longrightarrow> git_location (''git@['' @ h @ '']:'' @ p)"

section \<open>The recogniser accepts exactly the grammar\<close>

lemma contains_any_iff: "contains_any cs s \<longleftrightarrow> set s \<inter> set cs \<noteq> {}"
  by (auto simp: contains_any_def list_ex_iff)

lemma starts_with_single: "starts_with [c] s \<longleftrightarrow> s \<noteq> [] \<and> hd s = c"
  by (cases s) (auto simp: starts_with_def)

lemma scp_path_ok_iff: "scp_path_ok p \<longleftrightarrow> plain_path p"
  by (auto simp: scp_path_ok_def plain_path_def contains_any_iff starts_with_single)

lemma plain_path_iff:
  "plain_path p \<longleftrightarrow> p \<noteq> [] \<and> \<not> starts_with ''/'' p \<and> \<not> starts_with ''?'' p \<and> \<not> starts_with ''#'' p
     \<and> \<not> contains_any ''?#'' p"
  by (cases p) (auto simp: plain_path_def starts_with_single contains_any_iff)

lemma set_split_on: "set s \<subseteq> insert d (\<Union>p \<in> set (split_on d s). set p)"
proof (induction s)
  case (Cons c s)
  then show ?case by (cases "split_on d s") auto
qed simp

lemma valid_host_chars:
  "valid_host h \<Longrightarrow> c \<in> set h \<Longrightarrow> is_ascii_alphanumeric c \<or> c = CHR ''-'' \<or> c = CHR ''.''"
proof -
  assume h: "valid_host h" and c: "c \<in> set h"
  then consider "c = CHR ''.''" | l where "l \<in> set (split_on CHR ''.'' h)" "c \<in> set l"
    using set_split_on [of h "CHR ''.''"] by blast
  then show ?thesis
  proof cases
    case 2
    then have "valid_label l" using h by (simp add: valid_host_def list_all_iff)
    with 2(2) have "is_ascii_alphanumeric c \<or> c = CHR ''-''"
      unfolding valid_label_def list_all_iff by blast
    then show ?thesis by blast
  qed blast
qed

lemma valid_host_no_special:
  assumes "valid_host h"
  shows "set h \<inter> {CHR '':'', CHR ''['', CHR '']'', CHR ''@'', CHR ''/''} = {}" and "h \<noteq> []"
proof -
  have no: "\<not> is_ascii_alphanumeric CHR '':''" "\<not> is_ascii_alphanumeric CHR ''[''"
    "\<not> is_ascii_alphanumeric CHR '']''" "\<not> is_ascii_alphanumeric CHR ''@''"
    "\<not> is_ascii_alphanumeric CHR ''/''"
    by code_simp+
  have "c \<notin> set h" if "\<not> is_ascii_alphanumeric c" "c \<noteq> CHR ''-''" "c \<noteq> CHR ''.''" for c
    using valid_host_chars [OF assms, of c] that by blast
  from this [OF no(1)] this [OF no(2)] this [OF no(3)] this [OF no(4)] this [OF no(5)]
  show "set h \<inter> {CHR '':'', CHR ''['', CHR '']'', CHR ''@'', CHR ''/''} = {}" by simp
  show "h \<noteq> []" using assms by (simp add: valid_host_def)
qed

lemma valid_port_chars:
  assumes "valid_port (Some p)"
  shows "CHR '':'' \<notin> set p" and "p \<noteq> []"
proof -
  have "\<not> is_ascii_digit CHR '':''" by code_simp
  then show "CHR '':'' \<notin> set p" using assms by (auto simp: valid_port_def list_all_iff)
  show "p \<noteq> []" using assms by (auto simp: valid_port_def parse_u16_digits_def)
qed

lemma rsplit_once_Some_iff: "rsplit_once d s = Some (a, b) \<longleftrightarrow> s = a @ d # b \<and> d \<notin> set b"
proof -
  have "rsplit_once d s = Some (a, b) \<longleftrightarrow> split_once d (rev s) = Some (rev b, rev a)"
    by (auto simp: rsplit_once_def)
  also have "\<dots> \<longleftrightarrow> rev s = rev b @ d # rev a \<and> d \<notin> set b"
    by (simp add: split_once_Some_iff)
  also have "rev s = rev b @ d # rev a \<longleftrightarrow> s = a @ d # b"
    by (metis append.assoc append_Cons append_Nil rev.simps(2) rev_append rev_rev_ident)
  finally show ?thesis .
qed

lemma rsplit_once_None_iff: "rsplit_once d s = None \<longleftrightarrow> d \<notin> set s"
  by (auto simp: rsplit_once_def split_once_None_iff)

lemma valid_host_port_sound: "valid_host_port a \<Longrightarrow> host_port a"
proof (cases "strip_prefix ''['' a")
  case (Some v)
  assume valid: "valid_host_port a"
  with Some obtain h suffix where s: "split_once CHR '']'' v = Some (h, suffix)"
    by (auto simp: valid_host_port_def split: option.splits)
  have a: "a = ''['' @ v" "v = h @ CHR '']'' # suffix" "CHR '']'' \<notin> set h"
    using Some s by (auto simp: strip_prefix_Some_iff split_once_Some_iff)
  show ?thesis
  proof (cases "strip_prefix '':'' suffix")
    case None
    with valid Some s have "suffix = [] \<and> valid_ipv6 h"
      by (auto simp: valid_host_port_def split: if_splits)
    then show ?thesis using a host_port.v6_only by auto
  next
    case port: (Some p)
    then have "suffix = '':'' @ p" by (simp add: strip_prefix_Some_iff)
    moreover from this valid Some s port have "valid_ipv6 h \<and> valid_port (Some p)"
      by (auto simp: valid_host_port_def split: if_splits)
    ultimately show ?thesis using a host_port.v6_port [of h p] by auto
  qed
next
  case None
  assume valid: "valid_host_port a"
  show ?thesis
  proof (cases "rsplit_once CHR '':'' a")
    case none: None
    with None valid show ?thesis by (auto simp: valid_host_port_def intro: host_port.name_only)
  next
    case (Some x)
    obtain h p where x: "x = (h, p)" by (cases x)
    with Some have "a = h @ '':'' @ p" by (simp add: rsplit_once_Some_iff)
    moreover have "valid_host a \<or> valid_host h \<and> valid_port (Some p)"
      using None Some x valid by (auto simp: valid_host_port_def split: if_splits)
    ultimately show ?thesis by (metis host_port.name_only host_port.name_port)
  qed
qed

lemma valid_host_port_complete: "host_port a \<Longrightarrow> valid_host_port a"
proof (induction rule: host_port.induct)
  case (name_only h)
  note h = valid_host_no_special [OF name_only]
  have n: "strip_prefix ''['' h = None" using h by (cases h) (auto simp: strip_prefix_def starts_with_def)
  have "rsplit_once CHR '':'' h = None" using h(1) by (auto simp: rsplit_once_None_iff)
  with n name_only show ?case by (simp add: valid_host_port_def valid_port_def)
next
  case (name_port h p)
  note h = valid_host_no_special [OF name_port(1)] and p = valid_port_chars [OF name_port(2)]
  have n: "strip_prefix ''['' (h @ '':'' @ p) = None"
    using h by (cases h) (auto simp: strip_prefix_def starts_with_def)
  have "rsplit_once CHR '':'' (h @ '':'' @ p) = Some (h, p)"
    using p(1) by (simp add: rsplit_once_Some_iff)
  with n name_port p(2) show ?case by (simp add: valid_host_port_def)
next
  case (v6_only h)
  have "strip_prefix ''['' (''['' @ h @ '']'') = Some (h @ '']'')"
    "split_once CHR '']'' (h @ '']'') = Some (h, [])"
    using v6_only(2) by (simp_all add: strip_prefix_Some_iff split_once_Some_iff)
  with v6_only(1) show ?case by (simp add: valid_host_port_def valid_port_def)
next
  case (v6_port h p)
  note p = valid_port_chars [OF v6_port(3)]
  have "strip_prefix ''['' (''['' @ h @ '']:'' @ p) = Some (h @ '']:'' @ p)"
    "split_once CHR '']'' (h @ '']:'' @ p) = Some (h, '':'' @ p)"
    "strip_prefix '':'' ('':'' @ p) = Some p"
    using v6_port(2) by (simp_all add: strip_prefix_Some_iff split_once_Some_iff)
  with v6_port p(2) show ?case by (simp add: valid_host_port_def)
qed

lemma valid_host_port_iff: "valid_host_port a \<longleftrightarrow> host_port a"
  using valid_host_port_sound valid_host_port_complete by blast

lemma host_port_nonempty: "host_port a \<Longrightarrow> a \<noteq> []"
  by (induction rule: host_port.induct) (auto simp: valid_host_def)

lemma https_location_iff:
  "https_location rest \<longleftrightarrow>
     (\<exists>a p. rest = a @ ''/'' @ p \<and> host_port a
        \<and> set a \<inter> {CHR ''/'', CHR ''@'', CHR ''?'', CHR ''#'', CHR ''%''} = {} \<and> plain_path p)"
proof (cases "split_once CHR ''/'' rest")
  case None
  then have "\<not> https_location rest" "CHR ''/'' \<notin> set rest"
    by (simp_all add: https_location_def) (simp add: split_once_None_iff)
  then show ?thesis by auto
next
  case (Some x)
  obtain a p where x: "x = (a, p)" by (cases x)
  have ap: "rest = a @ CHR ''/'' # p" "CHR ''/'' \<notin> set a" using Some x by (auto simp: split_once_Some_iff)
  have uniq: "a' = a \<and> p' = p" if "rest = a' @ ''/'' @ p'" "CHR ''/'' \<notin> set a'" for a' p'
    using that Some x by (metis append_Cons append_Nil option.inject prod.inject split_once_Some_iff)
  have "https_location rest \<longleftrightarrow> host_port a
      \<and> set a \<inter> {CHR ''/'', CHR ''@'', CHR ''?'', CHR ''#'', CHR ''%''} = {} \<and> plain_path p"
    using Some x ap(2) host_port_nonempty [of a] plain_path_iff [of p]
    by (auto simp: https_location_def contains_any_iff valid_host_port_iff)
  also have "\<dots> \<longleftrightarrow> (\<exists>a p. rest = a @ ''/'' @ p \<and> host_port a
        \<and> set a \<inter> {CHR ''/'', CHR ''@'', CHR ''?'', CHR ''#'', CHR ''%''} = {} \<and> plain_path p)"
    using uniq ap(1) by fastforce
  finally show ?thesis .
qed

lemma ssh_location_iff:
  "ssh_location rest \<longleftrightarrow>
     (\<exists>a p. (rest = a @ ''/'' @ p \<or> rest = ''git@'' @ a @ ''/'' @ p) \<and> host_port a
        \<and> set a \<inter> {CHR ''/'', CHR ''@''} = {} \<and> plain_path p)"
proof (cases "split_once CHR ''/'' rest")
  case None
  then have "\<not> ssh_location rest" "CHR ''/'' \<notin> set rest"
    by (simp_all add: ssh_location_def) (simp add: split_once_None_iff)
  then show ?thesis by auto
next
  case (Some x)
  obtain b p where x: "x = (b, p)" by (cases x)
  have ap: "rest = b @ CHR ''/'' # p" "CHR ''/'' \<notin> set b" using Some x by (auto simp: split_once_Some_iff)
  have uniq: "b' = b \<and> p' = p" if "rest = b' @ ''/'' @ p'" "CHR ''/'' \<notin> set b'" for b' p'
    using that Some x by (metis append_Cons append_Nil option.inject prod.inject split_once_Some_iff)
  have pp: "plain_path p \<longleftrightarrow> p \<noteq> [] \<and> \<not> starts_with ''/'' p \<and> \<not> starts_with ''?'' p \<and> \<not> contains_any ''?#'' p"
    by (cases p) (auto simp: plain_path_def starts_with_single contains_any_iff)
  have "ssh_location rest \<longleftrightarrow>
     (\<exists>a. (b = a \<or> b = ''git@'' @ a) \<and> host_port a \<and> set a \<inter> {CHR ''/'', CHR ''@''} = {}) \<and> plain_path p"
  proof (cases "split_once CHR ''@'' b")
    case None
    then have at: "CHR ''@'' \<notin> set b" by (simp add: split_once_None_iff)
    have "ssh_location rest \<longleftrightarrow> host_port b \<and> plain_path p"
      using Some x None host_port_nonempty [of b] by (auto simp: ssh_location_def pp valid_host_port_iff)
    then show ?thesis using at ap(2) by auto
  next
    case user: (Some y)
    obtain u h where y: "y = (u, h)" by (cases y)
    have b: "b = u @ CHR ''@'' # h" "CHR ''@'' \<notin> set u" using user y by (auto simp: split_once_Some_iff)
    have "ssh_location rest \<longleftrightarrow> u = ''git'' \<and> host_port h \<and> CHR ''@'' \<notin> set h \<and> plain_path p"
      using Some x user y b(1) host_port_nonempty [of h]
      by (auto simp: ssh_location_def pp valid_host_port_iff contains_any_iff)
    moreover have "(\<exists>a. (b = a \<or> b = ''git@'' @ a) \<and> host_port a \<and> set a \<inter> {CHR ''/'', CHR ''@''} = {})
        \<longleftrightarrow> u = ''git'' \<and> host_port h \<and> CHR ''@'' \<notin> set h" (is "?L \<longleftrightarrow> ?R")
    proof
      assume ?L
      then obtain a where a: "b = a \<or> b = ''git@'' @ a" "host_port a" "CHR ''@'' \<notin> set a" by auto
      with b have "''git'' @ CHR ''@'' # a = u @ CHR ''@'' # h" by auto
      moreover have "CHR ''@'' \<notin> set ''git''" by simp
      ultimately have "split_once CHR ''@'' (u @ CHR ''@'' # h) = Some (''git'', a)"
        by (metis split_once_Some_iff)
      then show ?R using user y b(1) a by simp
    next
      assume ?R
      then show ?L using b ap(2) by auto
    qed
    ultimately show ?thesis by blast
  qed
  also have "\<dots> \<longleftrightarrow> (\<exists>a p. (rest = a @ ''/'' @ p \<or> rest = ''git@'' @ a @ ''/'' @ p) \<and> host_port a
        \<and> set a \<inter> {CHR ''/'', CHR ''@''} = {} \<and> plain_path p)" (is "?L \<longleftrightarrow> ?R")
  proof
    assume ?L
    then obtain a where "b = a \<or> b = ''git@'' @ a" "host_port a" "set a \<inter> {CHR ''/'', CHR ''@''} = {}"
      "plain_path p" by blast
    moreover from this ap(1) have "rest = a @ ''/'' @ p \<or> rest = ''git@'' @ a @ ''/'' @ p" by auto
    ultimately show ?R by blast
  next
    assume ?R
    then obtain a q where q: "rest = a @ ''/'' @ q \<or> rest = (''git@'' @ a) @ ''/'' @ q" "host_port a"
      "set a \<inter> {CHR ''/'', CHR ''@''} = {}" "plain_path q" by auto
    have "CHR ''/'' \<notin> set a" "CHR ''/'' \<notin> set (''git@'' @ a)" using q(3) by auto
    with q(1) have "(a = b \<or> ''git@'' @ a = b) \<and> q = p" using uniq by blast
    with q show ?L by auto
  qed
  finally show ?thesis .
qed

lemma scp_location_sound: "scp_location v \<Longrightarrow> git_location v"
proof -
  assume scp: "scp_location v"
  then obtain u rest where "split_once CHR ''@'' v = Some (u, rest)"
    by (auto simp: scp_location_def split: option.splits)
  with scp have v: "v = ''git@'' @ rest" and at: "CHR ''@'' \<notin> set rest" and ns: "\<not> contains_str ''://'' rest"
    and body: "case strip_prefix ''['' rest of
               Some value \<Rightarrow>
                 (case split_once CHR '']'' value of
                    None \<Rightarrow> False
                  | Some (host, suffix) \<Rightarrow>
                      (case strip_prefix '':'' suffix of
                         None \<Rightarrow> False
                       | Some path \<Rightarrow> valid_ipv6 host \<and> scp_path_ok path))
             | None \<Rightarrow>
                 (case split_once CHR '':'' rest of
                    None \<Rightarrow> False
                  | Some (host, path) \<Rightarrow> valid_host host \<and> scp_path_ok path)"
    by (auto simp: scp_location_def split_once_Some_iff contains_any_iff split: if_splits)
  show ?thesis
  proof (cases "strip_prefix ''['' rest")
    case None
    with body obtain h p where "split_once CHR '':'' rest = Some (h, p)" "valid_host h" "plain_path p"
      by (auto simp: scp_path_ok_iff split: option.splits)
    then show ?thesis using v at ns git_location.scp [of h p] by (auto simp: split_once_Some_iff)
  next
    case (Some w)
    with body obtain h q p where "split_once CHR '']'' w = Some (h, q)" "strip_prefix '':'' q = Some p"
      "valid_ipv6 h" "plain_path p"
      by (auto simp: scp_path_ok_iff split: option.splits)
    then show ?thesis using v at ns Some git_location.scp_v6 [of h p]
      by (auto simp: split_once_Some_iff strip_prefix_Some_iff)
  qed
qed

lemma scp_location_git:
  "CHR ''@'' \<notin> set rest \<Longrightarrow> \<not> contains_str ''://'' rest \<Longrightarrow> strip_prefix ''['' rest = None \<Longrightarrow>
     split_once CHR '':'' rest = Some (h, p) \<Longrightarrow> valid_host h \<Longrightarrow> plain_path p \<Longrightarrow> scp_location (''git@'' @ rest)"
  by (simp add: scp_location_def contains_any_iff scp_path_ok_iff)

lemma scp_location_git_v6:
  "CHR ''@'' \<notin> set rest \<Longrightarrow> \<not> contains_str ''://'' rest \<Longrightarrow> strip_prefix ''['' rest = Some w \<Longrightarrow>
     split_once CHR '']'' w = Some (h, CHR '':'' # p) \<Longrightarrow> valid_ipv6 h \<Longrightarrow> plain_path p \<Longrightarrow>
     scp_location (''git@'' @ rest)"
  by (simp add: scp_location_def contains_any_iff scp_path_ok_iff strip_prefix_def starts_with_def)

lemma git_location_shape:
  "git_location v \<Longrightarrow>
     (case strip_prefix ''https://'' v of
        Some rest \<Rightarrow> https_location rest
      | None \<Rightarrow> (case strip_prefix ''ssh://'' v of Some rest \<Rightarrow> ssh_location rest | None \<Rightarrow> scp_location v))"
proof (induction rule: git_location.induct)
  case (https a p)
  then have "https_location (a @ ''/'' @ p)" by (subst https_location_iff) blast
  then show ?case by (simp add: strip_prefix_def starts_with_def)
next
  case (ssh a p)
  then have "ssh_location (a @ ''/'' @ p)" by (subst ssh_location_iff) blast
  then show ?case by (simp add: strip_prefix_def starts_with_def)
next
  case (ssh_git a p)
  then have "ssh_location (''git@'' @ a @ ''/'' @ p)" by (subst ssh_location_iff) blast
  then show ?case by (simp add: strip_prefix_def starts_with_def)
next
  case (scp h p)
  note h = valid_host_no_special [OF scp(1)]
  have "strip_prefix ''['' (h @ '':'' @ p) = None"
    using h by (cases h) (auto simp: strip_prefix_def starts_with_def)
  moreover have "split_once CHR '':'' (h @ '':'' @ p) = Some (h, p)"
    using h(1) by (simp add: split_once_Some_iff)
  moreover have "CHR ''@'' \<notin> set (h @ '':'' @ p)" using h(1) scp(3) by auto
  ultimately have "scp_location (''git@'' @ h @ '':'' @ p)"
    using scp(1,2,4) by (intro scp_location_git) auto
  then show ?case by (simp add: strip_prefix_def starts_with_def)
next
  case (scp_v6 h p)
  have "strip_prefix ''['' (''['' @ h @ '']:'' @ p) = Some (h @ '']:'' @ p)"
    by (simp add: strip_prefix_Some_iff)
  moreover have "split_once CHR '']'' (h @ '']:'' @ p) = Some (h, CHR '':'' # p)"
    using scp_v6(2) by (simp add: split_once_Some_iff)
  moreover have "CHR ''@'' \<notin> set (''['' @ h @ '']:'' @ p)" using scp_v6(3,5) by auto
  ultimately have "scp_location (''git@'' @ ''['' @ h @ '']:'' @ p)"
    using scp_v6(1,4,6) by (intro scp_location_git_v6) auto
  then show ?case by (simp add: strip_prefix_def starts_with_def)
qed

text \<open>C40. The URL validator accepts exactly the strings without white space that the grammar
  \<open>git_location\<close> derives: an https location whose authority has no user, query, fragment
  or percent sign; an ssh location whose only possible user is \<open>git\<close>; or an scp-like
  location of user \<open>git\<close>. No accepted shape can carry a password, a token or a query.\<close>

theorem supported_git_url_grammar:
  "supported_git_url v \<longleftrightarrow> \<not> has_whitespace v \<and> git_location v"
proof
  assume s: "supported_git_url v"
  then have ws: "\<not> has_whitespace v" by (auto simp: supported_git_url_def split: if_splits)
  show "\<not> has_whitespace v \<and> git_location v"
  proof (cases "strip_prefix ''https://'' v")
    case (Some rest)
    then have "v = ''https://'' @ rest" by (simp add: strip_prefix_Some_iff)
    moreover from s Some have "https_location rest" by (simp add: supported_git_url_def split: if_splits)
    ultimately show ?thesis using ws git_location.https by (auto simp: https_location_iff)
  next
    case None
    show ?thesis
    proof (cases "strip_prefix ''ssh://'' v")
      case (Some rest)
      then have "v = ''ssh://'' @ rest" by (simp add: strip_prefix_Some_iff)
      moreover from s None Some have "ssh_location rest"
        by (simp add: supported_git_url_def split: if_splits)
      ultimately show ?thesis using ws git_location.ssh git_location.ssh_git
        by (auto simp: ssh_location_iff)
    next
      case none: None
      with s None have "scp_location v" by (auto simp: supported_git_url_def split: if_splits)
      then show ?thesis using ws scp_location_sound by blast
    qed
  qed
next
  assume g: "\<not> has_whitespace v \<and> git_location v"
  then have "v \<noteq> []" by (auto elim: git_location.cases)
  with g show "supported_git_url v"
    using git_location_shape by (simp add: supported_git_url_def)
qed

text \<open>Metadata validation normalises: an accepted record has trimmed, non-blank fields within
  their byte limits and a supported URL, its normalised name is the lower-case name, and
  validating its own fields again returns the same record.\<close>

theorem validate_metadata_normal_form:
  assumes "validate_metadata lower name url description = Inr m"
  shows "rm_name m = trim name \<and> rm_url m = trim url \<and> rm_description m = trim description
    \<and> rm_name_normalized m = lower (rm_name m)
    \<and> 0 < length (rm_name m) \<and> length (rm_name m) \<le> MAX_NAME_BYTES
    \<and> 0 < length (rm_url m) \<and> length (rm_url m) \<le> MAX_URL_BYTES
    \<and> length (rm_description m) \<le> MAX_DESCRIPTION_BYTES \<and> supported_git_url (rm_url m)
    \<and> validate_metadata lower (rm_name m) (rm_url m) (rm_description m) = Inr m"
  using assms by (auto simp: validate_metadata_def Let_def split: if_splits)

theorem validate_metadata_normal_form_witness:
  "(\<exists>m. validate_metadata (map (\<lambda>c. if c = CHR ''N'' then CHR ''n'' else c)) '' North ''
          ''git@h:r'' ''d '' = Inr m \<and> rm_name m = ''North'' \<and> rm_name_normalized m = ''north'')"
proof -
  let ?l = "map (\<lambda>c. if c = CHR ''N'' then CHR ''n'' else c)"
  have h: "validate_metadata ?l '' North '' ''git@h:r'' ''d '' =
     Inr \<lparr>rm_name = ''North'', rm_name_normalized = ''north'', rm_url = ''git@h:r'',
           rm_description = ''d''\<rparr>"
    by code_simp
  show ?thesis using validate_metadata_normal_form [OF h] h by auto
qed

end
