(* ===== verification/Server_Delivery.thy ===== *)
theory Server_Delivery
  imports Wire_Protocol Repository_Url
begin

text \<open>
  \<open>north-persistence/src/delivery.rs\<close>: the server's delivery ledger, the transactions that record
  command acknowledgements and event receipts, and the digest helpers of
  \<open>north-persistence/src/lib.rs\<close> that they use.

  \<^item> The tables of the transactions are lists of rows in \<open>delivery_db\<close>, with the columns the queries
    read or write; \<open>acknowledged_at IS NOT NULL\<close> is a boolean.
  \<^item> A method is a function from the tables to an error or a value with the new tables: an error
    drops the transaction, so the tables stay. Failures of the database itself are not modelled,
    except that \<open>fetch_one\<close> on a missing row is an error.
  \<^item> A \<open>BIGINT\<close> or \<open>i64\<close> is an \<open>int\<close> with the range checks written out.
  \<^item> \<open>serde_json\<close> and the hash functions are the record \<open>digest_env\<close>. \<open>Database\<close> keeps the message of
    the \<open>sqlx\<close> error.
\<close>

section \<open>Data\<close>

datatype persistence_error =
    Database string
  | InvalidCode
  | InvalidRole string
  | RateLimited
  | InvalidDaemonCredential
  | RevokedDaemon
  | DaemonNotFound
  | SetupNotFound
  | SetupExpired
  | SetupAlreadyApproved
  | SetupAlreadyClaimed
  | InvalidSetup
  | NoEligibleDaemon
  | InvalidCapabilities
  | InvalidCommandPayload
  | InvalidSessionState
  | SessionRequirementMismatch
  | InvalidRepository repository_error
  | RepositoryNotFound
  | RepositoryNameConflict
  | RepositoryUrlImmutable
  | ProtocolIntegrity string
  | EventSequenceGap u64 u64

datatype event_receipt_outcome = ReceiptAccepted | ReceiptRejected

definition outcome_as_str :: "event_receipt_outcome \<Rightarrow> string" where
  "outcome_as_str out = (case out of ReceiptAccepted \<Rightarrow> ''accepted'' | ReceiptRejected \<Rightarrow> ''rejected'')"

record event_receipt =
  rc_event_id :: string
  rc_session_id :: string
  rc_daemon_event_seq :: u64
  rc_outcome :: event_receipt_outcome
  rc_rejection_reason :: "string option"
  rc_duplicate :: bool

record event_receipt_request =
  rq_event_id :: string
  rq_session_id :: string
  rq_daemon_event_seq :: u64
  rq_payload_digest :: string
  rq_payload :: string
  rq_outcome :: event_receipt_outcome
  rq_rejection_reason :: "string option"

record pinned_command =
  pc_command_id :: string
  pc_session_id :: string
  pc_daemon_id :: string
  pc_server_command_seq :: u64
  pc_payload :: string
  pc_payload_digest :: string
  pc_command_identity_digest :: string
  pc_compacted :: bool

text \<open>Rows of \<open>execution_sessions\<close>, \<open>server_command_outbox\<close>, \<open>server_command_tombstones\<close> and
  \<open>server_event_dedupe\<close>.\<close>

record session_row =
  ss_command_ack_through_seq :: int
  ss_event_ack_through_seq :: int
  ss_event_ack_sparse :: "int list"

record outbox_row =
  so_command_id :: string
  so_session_id :: string
  so_daemon_id :: string
  so_server_command_seq :: int
  so_payload :: string
  so_payload_digest :: string
  so_command_identity_digest :: string
  so_acknowledged :: bool

record tombstone_row =
  tr_command_id :: string
  tr_session_id :: string
  tr_daemon_id :: string
  tr_server_command_seq :: int
  tr_payload :: "string option"
  tr_payload_digest :: string
  tr_command_identity_digest :: string

record event_receipt_row =
  ev_event_id :: string
  ev_session_id :: string
  ev_daemon_event_seq :: int
  ev_payload_digest :: string
  ev_payload :: string
  ev_outcome :: string
  ev_rejection_reason :: "string option"

record delivery_db =
  db_sessions :: "(string \<times> session_row) list"
  db_outbox :: "outbox_row list"
  db_tombstones :: "tombstone_row list"
  db_events :: "event_receipt_row list"
  db_readiness_events :: "string list"

section \<open>Digests\<close>

datatype json = JNull | JBool bool | JNumber string | JString string | JArray "json list"
  | JObject "(string \<times> json) list"

record digest_env =
  dg_from_str :: "string \<Rightarrow> json option"
  dg_to_vec :: "json \<Rightarrow> string option"
  dg_md5_hex :: "string \<Rightarrow> string"
  dg_sha256_hex :: "string \<Rightarrow> string"

definition payload_digest :: "digest_env \<Rightarrow> string \<Rightarrow> string" where
  "payload_digest dg payload = dg_md5_hex dg payload"

text \<open>\<open>value.get_mut("payload").as_object_mut()\<close> with \<open>remove("sent_at")\<close>\<close>

definition without_sent_at :: "json \<Rightarrow> json" where
  "without_sent_at v =
     (case v of
        JObject members \<Rightarrow>
          JObject (map (\<lambda>(k, x).
            if k = ''payload''
            then (k, case x of JObject inner \<Rightarrow> JObject (filter (\<lambda>(k', _). k' \<noteq> ''sent_at'') inner) | _ \<Rightarrow> x)
            else (k, x)) members)
      | _ \<Rightarrow> v)"

definition or_empty :: "string option \<Rightarrow> string" where
  "or_empty b = (case b of None \<Rightarrow> [] | Some s \<Rightarrow> s)"

definition command_identity_digest :: "digest_env \<Rightarrow> string \<Rightarrow> string" where
  "command_identity_digest dg payload =
     (let v = (case dg_from_str dg payload of None \<Rightarrow> JString payload | Some v \<Rightarrow> v)
      in dg_md5_hex dg (or_empty (dg_to_vec dg (without_sent_at v))))"

definition command_identity_digest_valid :: "digest_env \<Rightarrow> string \<Rightarrow> string \<Rightarrow> bool" where
  "command_identity_digest_valid dg payload stored \<longleftrightarrow>
     command_identity_digest dg payload = stored \<or> payload_digest dg payload = stored"

definition canonical_payload_digest :: "digest_env \<Rightarrow> json \<Rightarrow> string" where
  "canonical_payload_digest dg payload = dg_sha256_hex dg (or_empty (dg_to_vec dg payload))"

definition payload_digest_matches :: "digest_env \<Rightarrow> string \<Rightarrow> string \<Rightarrow> bool" where
  "payload_digest_matches dg payload expected =
     (case dg_from_str dg payload of
        Some v \<Rightarrow> canonical_payload_digest dg v = expected
      | None \<Rightarrow> payload = expected)"

section \<open>Integers\<close>

definition i64_max :: int where
  "i64_max = 2 ^ 63 - 1"

definition i64_from_u64 :: "u64 \<Rightarrow> persistence_error + int" where
  "i64_from_u64 n = (if uint n \<le> i64_max then Inr (uint n) else Inl InvalidSessionState)"

definition u64_from_i64 :: "int \<Rightarrow> persistence_error + u64" where
  "u64_from_i64 n = (if 0 \<le> n then Inr (word_of_int n) else Inl InvalidSessionState)"

definition i64_checked_inc :: "int \<Rightarrow> persistence_error + int" where
  "i64_checked_inc n = (if n < i64_max then Inr (n + 1) else Inl InvalidSessionState)"

definition i64_sat_inc :: "int \<Rightarrow> int" where
  "i64_sat_inc n = (if n < i64_max then n + 1 else i64_max)"

section \<open>Commands\<close>

definition fetch_session :: "delivery_db \<Rightarrow> string \<Rightarrow> persistence_error + session_row" where
  "fetch_session db s =
     (case map_of (db_sessions db) s of None \<Rightarrow> Inl (Database ''row not found'') | Some x \<Rightarrow> Inr x)"

definition update_session :: "string \<Rightarrow> (session_row \<Rightarrow> session_row) \<Rightarrow> delivery_db \<Rightarrow> delivery_db" where
  "update_session s g db = db\<lparr>db_sessions := map (\<lambda>(k, x). if k = s then (k, g x) else (k, x)) (db_sessions db)\<rparr>"

definition list_min :: "int list \<Rightarrow> int option" where
  "list_min xs = (case xs of [] \<Rightarrow> None | y # ys \<Rightarrow> Some (fold min ys y))"

text \<open>\<open>COALESCE(MAX(...), 0)\<close>\<close>

definition list_max_or_0 :: "int list \<Rightarrow> int" where
  "list_max_or_0 xs = (case xs of [] \<Rightarrow> 0 | y # ys \<Rightarrow> fold max ys y)"

definition advance_command_watermark :: "string \<Rightarrow> delivery_db \<Rightarrow> persistence_error + u64 \<times> delivery_db" where
  "advance_command_watermark s db =
     and_then (fetch_session db s) (\<lambda>session.
     let current = ss_command_ack_through_seq session;
         first_unacknowledged = list_min (map so_server_command_seq
           (filter (\<lambda>r. so_session_id r = s \<and> current < so_server_command_seq r \<and> \<not> so_acknowledged r) (db_outbox db)));
         maximum = list_max_or_0 (map so_server_command_seq (filter (\<lambda>r. so_session_id r = s) (db_outbox db)));
         watermark = max (case first_unacknowledged of None \<Rightarrow> maximum | Some n \<Rightarrow> n - 1) current
     in and_then (u64_from_i64 watermark) (\<lambda>w.
        Inr (w, update_session s (\<lambda>x. x\<lparr>ss_command_ack_through_seq := watermark\<rparr>) db)))"

definition to_tombstone_row :: "outbox_row \<Rightarrow> tombstone_row" where
  "to_tombstone_row r =
     \<lparr>tr_command_id = so_command_id r, tr_session_id = so_session_id r, tr_daemon_id = so_daemon_id r,
      tr_server_command_seq = so_server_command_seq r,
      tr_payload = (if so_command_identity_digest r = so_payload_digest r then Some (so_payload r) else None),
      tr_payload_digest = so_payload_digest r, tr_command_identity_digest = so_command_identity_digest r\<rparr>"

text \<open>\<open>INSERT ... ON CONFLICT DO NOTHING\<close>, with the primary key and \<open>UNIQUE (session_id, server_command_seq)\<close>.\<close>

definition insert_tombstone :: "tombstone_row \<Rightarrow> tombstone_row list \<Rightarrow> tombstone_row list" where
  "insert_tombstone t ts =
     (if list_ex (\<lambda>u. tr_command_id u = tr_command_id t
          \<or> (tr_session_id u = tr_session_id t \<and> tr_server_command_seq u = tr_server_command_seq t)) ts
      then ts else ts @ [t])"

definition compactable_row :: "string \<Rightarrow> int \<Rightarrow> outbox_row \<Rightarrow> bool" where
  "compactable_row s watermark r \<longleftrightarrow> so_session_id r = s \<and> so_server_command_seq r \<le> watermark \<and> so_acknowledged r"

definition compact_server_commands_in_transaction ::
  "string \<Rightarrow> delivery_db \<Rightarrow> persistence_error + nat \<times> delivery_db" where
  "compact_server_commands_in_transaction s db =
     and_then (fetch_session db s) (\<lambda>session.
     let p = compactable_row s (ss_command_ack_through_seq session) in
     Inr (length (filter p (db_outbox db)),
          db\<lparr>db_tombstones := fold insert_tombstone (map to_tombstone_row (filter p (db_outbox db))) (db_tombstones db),
             db_outbox := filter (\<lambda>r. \<not> p r) (db_outbox db)\<rparr>))"

definition compact_server_commands :: "string \<Rightarrow> delivery_db \<Rightarrow> persistence_error + nat \<times> delivery_db" where
  "compact_server_commands s db = compact_server_commands_in_transaction s db"

definition row_digests_ok :: "digest_env \<Rightarrow> outbox_row \<Rightarrow> bool" where
  "row_digests_ok dg r \<longleftrightarrow>
     payload_digest dg (so_payload r) = so_payload_digest r
     \<and> command_identity_digest_valid dg (so_payload r) (so_command_identity_digest r)"

definition acknowledge_row :: "string \<Rightarrow> outbox_row \<Rightarrow> outbox_row" where
  "acknowledge_row cid r = (if so_command_id r = cid then r\<lparr>so_acknowledged := True\<rparr> else r)"

definition acknowledge_command ::
  "digest_env \<Rightarrow> string \<Rightarrow> string \<Rightarrow> u64 \<Rightarrow> delivery_db \<Rightarrow> persistence_error + u64 \<times> delivery_db" where
  "acknowledge_command dg cid sid server_command_seq db =
     (if blank cid \<or> blank sid \<or> server_command_seq = 0
      then Inl (ProtocolIntegrity ''invalid command ACK identity'')
      else
        and_then (i64_from_u64 server_command_seq) (\<lambda>seq.
        and_then
          (case find (\<lambda>r. so_command_id r = cid) (db_outbox db) of
             Some row \<Rightarrow>
               if so_session_id row \<noteq> sid \<or> so_server_command_seq row \<noteq> seq
               then Inl (ProtocolIntegrity ''command ACK identity conflicts with outbox'')
               else if \<not> row_digests_ok dg row
               then Inl (ProtocolIntegrity ''command outbox payload digest mismatch'')
               else advance_command_watermark sid
                      (if so_acknowledged row then db
                       else db\<lparr>db_outbox := map (acknowledge_row cid) (db_outbox db)\<rparr>)
           | None \<Rightarrow>
               (case find (\<lambda>t. tr_command_id t = cid) (db_tombstones db) of
                  None \<Rightarrow> Inl (ProtocolIntegrity ''command ACK references unknown command'')
                | Some t \<Rightarrow>
                    if tr_session_id t \<noteq> sid \<or> tr_server_command_seq t \<noteq> seq
                    then Inl (ProtocolIntegrity ''command ACK identity conflicts with tombstone'')
                    else and_then (fetch_session db sid) (\<lambda>session.
                         and_then (u64_from_i64 (ss_command_ack_through_seq session)) (\<lambda>w. Inr (w, db)))))
          (\<lambda>(watermark, db1).
        and_then (compact_server_commands_in_transaction sid db1) (\<lambda>(_, db2).
        Inr (watermark, db2)))))"

definition pinned_command_of_row :: "digest_env \<Rightarrow> outbox_row \<Rightarrow> persistence_error + pinned_command" where
  "pinned_command_of_row dg r =
     (if \<not> row_digests_ok dg r
      then Inl (ProtocolIntegrity ''command outbox payload digest mismatch'')
      else and_then (u64_from_i64 (so_server_command_seq r)) (\<lambda>n.
           Inr \<lparr>pc_command_id = so_command_id r, pc_session_id = so_session_id r, pc_daemon_id = so_daemon_id r,
                pc_server_command_seq = n, pc_payload = so_payload r, pc_payload_digest = so_payload_digest r,
                pc_command_identity_digest = so_command_identity_digest r, pc_compacted = False\<rparr>))"

fun collect_results :: "('e + 'a) list \<Rightarrow> 'e + 'a list" where
  "collect_results [] = Inr []"
| "collect_results (r # rs) = and_then r (\<lambda>a. and_then (collect_results rs) (\<lambda>as. Inr (a # as)))"

text \<open>\<open>ORDER BY session_id, server_command_seq\<close>, with session identities in byte order; the payload
  of an outbox row is never null.\<close>

definition unacknowledged_commands ::
  "digest_env \<Rightarrow> string \<Rightarrow> delivery_db \<Rightarrow> persistence_error + pinned_command list" where
  "unacknowledged_commands dg daemon_id db =
     collect_results (map (pinned_command_of_row dg)
       (sort_key so_session_id (sort_key so_server_command_seq
         (filter (\<lambda>r. so_daemon_id r = daemon_id \<and> \<not> so_acknowledged r) (db_outbox db)))))"

section \<open>Event receipts\<close>

text \<open>The loop of \<open>advance_event_watermark\<close>.\<close>

function absorb_sparse :: "int \<Rightarrow> int list \<Rightarrow> int \<times> int list" where
  "absorb_sparse through sparse =
     (let n = i64_sat_inc through in
      if n \<in> set sparse then absorb_sparse n (remove1 n sparse) else (through, sparse))"
  by auto
termination
  by (relation "measure (\<lambda>(_, sparse). length sparse)")
    (auto simp: length_remove1 dest: length_pos_if_in_set)

definition advance_event_watermark :: "string \<Rightarrow> int \<Rightarrow> delivery_db \<Rightarrow> persistence_error + delivery_db" where
  "advance_event_watermark s seq db =
     and_then (fetch_session db s) (\<lambda>cursor.
     let (through, sparse) = absorb_sparse (max (ss_event_ack_through_seq cursor) seq) (ss_event_ack_sparse cursor)
     in Inr (update_session s (\<lambda>x. x\<lparr>ss_event_ack_through_seq := through,
               ss_event_ack_sparse := filter (\<lambda>v. through < v) sparse\<rparr>) db))"

text \<open>The loop that finds the next expected sequence number.\<close>

function next_expected :: "int \<Rightarrow> int list \<Rightarrow> persistence_error + int" where
  "next_expected expected sparse =
     (if expected \<in> set sparse
      then (if expected < i64_max then next_expected (expected + 1) sparse else Inl InvalidSessionState)
      else Inr expected)"
  by auto
termination
proof (relation "measure (\<lambda>(n, sparse). card {x \<in> set sparse. n \<le> x})")
  fix expected :: int and sparse :: "int list"
  assume "expected \<in> set sparse"
  then have "expected \<in> {x \<in> set sparse. expected \<le> x} - {x \<in> set sparse. expected + 1 \<le> x}" by simp
  moreover have "{x \<in> set sparse. expected + 1 \<le> x} \<subseteq> {x \<in> set sparse. expected \<le> x}" by auto
  ultimately have "{x \<in> set sparse. expected + 1 \<le> x} \<subset> {x \<in> set sparse. expected \<le> x}" by blast
  then show "((expected + 1, sparse), expected, sparse) \<in> measure (\<lambda>(n, sparse). card {x \<in> set sparse. n \<le> x})"
    by (simp add: psubset_card_mono)
qed auto

declare absorb_sparse.simps [simp del] next_expected.simps [simp del]

definition event_receipt_from_row :: "event_receipt_row \<Rightarrow> bool \<Rightarrow> persistence_error + event_receipt" where
  "event_receipt_from_row row duplicate =
     and_then (if ev_outcome row = ''accepted'' then Inr ReceiptAccepted
               else if ev_outcome row = ''rejected'' then Inr ReceiptRejected
               else Inl InvalidSessionState) (\<lambda>out.
     and_then (u64_from_i64 (ev_daemon_event_seq row)) (\<lambda>n.
     Inr \<lparr>rc_event_id = ev_event_id row, rc_session_id = ev_session_id row, rc_daemon_event_seq = n,
          rc_outcome = out, rc_rejection_reason = ev_rejection_reason row, rc_duplicate = duplicate\<rparr>))"

definition receipt_row :: "event_receipt_request \<Rightarrow> int \<Rightarrow> event_receipt_row" where
  "receipt_row rq seq =
     \<lparr>ev_event_id = rq_event_id rq, ev_session_id = rq_session_id rq, ev_daemon_event_seq = seq,
      ev_payload_digest = rq_payload_digest rq, ev_payload = rq_payload rq,
      ev_outcome = outcome_as_str (rq_outcome rq), ev_rejection_reason = rq_rejection_reason rq\<rparr>"

text \<open>The checks of a receipt request before its transaction.\<close>

definition receipt_request_check :: "digest_env \<Rightarrow> event_receipt_request \<Rightarrow> persistence_error + unit" where
  "receipt_request_check dg rq =
     (if blank (rq_event_id rq) \<or> blank (rq_session_id rq) \<or> blank (rq_payload_digest rq) \<or> blank (rq_payload rq)
         \<or> rq_daemon_event_seq rq = 0
      then Inl (ProtocolIntegrity ''invalid event identity'')
      else if \<not> payload_digest_matches dg (rq_payload rq) (rq_payload_digest rq)
      then Inl (ProtocolIntegrity ''event payload digest mismatch'')
      else if rq_outcome rq = ReceiptAccepted \<and> rq_rejection_reason rq \<noteq> None
      then Inl (ProtocolIntegrity ''accepted event receipt cannot have a rejection reason'')
      else if rq_outcome rq = ReceiptRejected \<and> (rq_rejection_reason rq = None \<or> rq_rejection_reason rq = Some [])
      then Inl (ProtocolIntegrity ''rejected event receipt needs a reason'')
      else Inr ())"

definition show_int :: "int \<Rightarrow> string" where
  "show_int n = (if n < 0 then ''-'' @ show_nat (nat (- n)) else show_nat (nat n))"

definition record_event_receipt_with_payload ::
  "digest_env \<Rightarrow> event_receipt_request \<Rightarrow> delivery_db \<Rightarrow> persistence_error + event_receipt \<times> delivery_db" where
  "record_event_receipt_with_payload dg rq db =
     and_then (receipt_request_check dg rq) (\<lambda>_.
     and_then (i64_from_u64 (rq_daemon_event_seq rq)) (\<lambda>seq.
     case map_of (db_sessions db) (rq_session_id rq) of
       None \<Rightarrow> Inl InvalidSessionState
     | Some session \<Rightarrow>
         if rq_event_id rq \<in> set (db_readiness_events db)
         then Inl (ProtocolIntegrity ''event ID belongs to readiness event ledger'')
         else
           (case find (\<lambda>r. ev_event_id r = rq_event_id rq) (db_events db) of
              Some row \<Rightarrow>
                if ev_session_id row \<noteq> rq_session_id rq \<or> ev_daemon_event_seq row \<noteq> seq
                   \<or> ev_payload_digest row \<noteq> rq_payload_digest rq
                then Inl (ProtocolIntegrity ''event identity or payload conflicts with retained event'')
                else and_then (event_receipt_from_row row True) (\<lambda>r. Inr (r, db))
            | None \<Rightarrow>
                (case find (\<lambda>r. ev_session_id r = rq_session_id rq \<and> ev_daemon_event_seq r = seq) (db_events db) of
                   Some row \<Rightarrow>
                     Inl (ProtocolIntegrity (''event sequence '' @ show_int seq @ '' already belongs to '' @ ev_event_id row))
                 | None \<Rightarrow>
                     and_then (i64_checked_inc (ss_event_ack_through_seq session)) (\<lambda>first.
                     and_then (next_expected first (ss_event_ack_sparse session)) (\<lambda>expected.
                     if expected < seq
                     then Inl (EventSequenceGap (if 0 \<le> expected then word_of_int expected else u64_max)
                                 (rq_daemon_event_seq rq))
                     else if seq \<le> ss_event_ack_through_seq session
                     then Inl (ProtocolIntegrity ''event watermark has no retained matching identity'')
                     else
                       and_then (advance_event_watermark (rq_session_id rq) seq
                                   (db\<lparr>db_events := db_events db @ [receipt_row rq seq]\<rparr>)) (\<lambda>db'.
                       Inr (\<lparr>rc_event_id = rq_event_id rq, rc_session_id = rq_session_id rq,
                             rc_daemon_event_seq = rq_daemon_event_seq rq, rc_outcome = rq_outcome rq,
                             rc_rejection_reason = rq_rejection_reason rq, rc_duplicate = False\<rparr>, db'))))))))"

definition record_event_receipt ::
  "digest_env \<Rightarrow> string \<Rightarrow> string \<Rightarrow> u64 \<Rightarrow> string \<Rightarrow> event_receipt_outcome \<Rightarrow> string option
   \<Rightarrow> delivery_db \<Rightarrow> persistence_error + event_receipt \<times> delivery_db" where
  "record_event_receipt dg event_id session_id seq digest out reason =
     record_event_receipt_with_payload dg
       \<lparr>rq_event_id = event_id, rq_session_id = session_id, rq_daemon_event_seq = seq, rq_payload_digest = digest,
        rq_payload = digest, rq_outcome = out, rq_rejection_reason = reason\<rparr>"

section \<open>Facts about sessions and loops\<close>

lemma map_of_update_session:
  "map_of (db_sessions (update_session s g db)) k
   = (if k = s then map_option g (map_of (db_sessions db) k) else map_of (db_sessions db) k)"
proof -
  have "map_of (map (\<lambda>(k, x). if k = s then (k, g x) else (k, x)) xs) k
      = (if k = s then map_option g (map_of xs k) else map_of xs k)" for xs
    by (induction xs) auto
  then show ?thesis by (simp add: update_session_def)
qed

lemma update_session_fields [simp]:
  "db_outbox (update_session s g db) = db_outbox db" "db_tombstones (update_session s g db) = db_tombstones db"
  "db_events (update_session s g db) = db_events db"
  "db_readiness_events (update_session s g db) = db_readiness_events db"
  by (simp_all add: update_session_def)

lemma fetch_session_Inr: "fetch_session db s = Inr x \<longleftrightarrow> map_of (db_sessions db) s = Some x"
  by (simp add: fetch_session_def split: option.split)

lemma insert_remove1: "x \<in> set xs \<Longrightarrow> insert x (set (remove1 x xs)) = set xs"
  by (induction xs) auto

lemma absorb_sparse_spec:
  assumes "absorb_sparse t sp = (t', sp')" "t \<le> i64_max"
  shows "t \<le> t' \<and> t' \<le> i64_max \<and> {..t} \<union> set sp = {..t'} \<union> set sp'"
  using assms
proof (induction t sp rule: absorb_sparse.induct)
  case (1 t sp)
  let ?n = "i64_sat_inc t"
  show ?case
  proof (cases "?n \<in> set sp")
    case False
    then show ?thesis using 1(2,3) by (auto simp: absorb_sparse.simps[of t] Let_def)
  next
    case True
    have n: "t \<le> ?n" "?n \<le> i64_max" "{..?n} = insert ?n {..t}"
      using 1(3) by (auto simp: i64_sat_inc_def split: if_splits)
    have "absorb_sparse ?n (remove1 ?n sp) = (t', sp')"
      using 1(2) True by (simp add: absorb_sparse.simps[of t] Let_def)
    from 1(1)[OF refl True this n(2)] have ih: "?n \<le> t'" "t' \<le> i64_max"
      "{..?n} \<union> set (remove1 ?n sp) = {..t'} \<union> set sp'" by auto
    have "{..t} \<union> set sp = {..?n} \<union> set (remove1 ?n sp)"
      using n(3) insert_remove1[OF True] by (metis Un_insert_left Un_insert_right)
    then show ?thesis using ih n(1) by auto
  qed
qed

lemma next_expected_spec:
  assumes "next_expected n sp = Inr m"
  shows "n \<le> m \<and> m \<notin> set sp \<and> (\<forall>k. n \<le> k \<and> k < m \<longrightarrow> k \<in> set sp)"
  using assms
proof (induction n sp rule: next_expected.induct)
  case (1 n sp)
  show ?case
  proof (cases "n \<in> set sp")
    case True
    then have "n < i64_max" "next_expected (n + 1) sp = Inr m"
      using 1(2) by (auto simp: next_expected.simps[of n] split: if_splits)
    from 1(1)[OF True this] have "n + 1 \<le> m" "m \<notin> set sp" "\<forall>k. n + 1 \<le> k \<and> k < m \<longrightarrow> k \<in> set sp" by auto
    moreover have "k \<in> set sp" if "n \<le> k" "k < m" for k
      using True that calculation(3) by (cases "k = n") auto
    ultimately show ?thesis by auto
  next
    case False
    then show ?thesis using 1(2) by (auto simp: next_expected.simps[of n])
  qed
qed

section \<open>Event receipts\<close>

lemma uint_word_of_int_uint [simp]: "u64_from_i64 (uint n) = Inr n"
  by (simp add: u64_from_i64_def)

lemma find_snoc: "find p (xs @ [y]) = (case find p xs of None \<Rightarrow> if p y then Some y else None | Some x \<Rightarrow> Some x)"
  by (induction xs) auto

text \<open>A recorded new receipt: the request passed its checks, its identity and place are free, and its
  sequence number is the next one.\<close>

lemma receipt_new:
  assumes run: "record_event_receipt_with_payload dg rq db = Inr (r, db')" and new: "\<not> rc_duplicate r"
  obtains seq session expected where
    "receipt_request_check dg rq = Inr ()" "seq = uint (rq_daemon_event_seq rq)" "seq \<le> i64_max"
    "map_of (db_sessions db) (rq_session_id rq) = Some session" "rq_event_id rq \<notin> set (db_readiness_events db)"
    "find (\<lambda>r. ev_event_id r = rq_event_id rq) (db_events db) = None"
    "next_expected (ss_event_ack_through_seq session + 1) (ss_event_ack_sparse session) = Inr expected"
    "ss_event_ack_through_seq session < seq" "seq \<le> expected"
    "advance_event_watermark (rq_session_id rq) seq (db\<lparr>db_events := db_events db @ [receipt_row rq seq]\<rparr>) = Inr db'"
    "r = \<lparr>rc_event_id = rq_event_id rq, rc_session_id = rq_session_id rq, rc_daemon_event_seq = rq_daemon_event_seq rq,
          rc_outcome = rq_outcome rq, rc_rejection_reason = rq_rejection_reason rq, rc_duplicate = False\<rparr>"
proof -
  obtain seq where 1: "receipt_request_check dg rq = Inr ()" "i64_from_u64 (rq_daemon_event_seq rq) = Inr seq"
    using run by (auto simp: record_event_receipt_with_payload_def and_then_Inr_iff)
  then have seq: "seq = uint (rq_daemon_event_seq rq)" "seq \<le> i64_max"
    by (auto simp: i64_from_u64_def split: if_splits)
  obtain session where 2: "map_of (db_sessions db) (rq_session_id rq) = Some session"
    using run 1 by (auto simp: record_event_receipt_with_payload_def split: option.splits)
  have 3: "rq_event_id rq \<notin> set (db_readiness_events db)"
    using run 1 2 by (auto simp: record_event_receipt_with_payload_def split: if_splits)
  have 4: "find (\<lambda>r. ev_event_id r = rq_event_id rq) (db_events db) = None"
    using run new 1 2 3
    by (auto simp: record_event_receipt_with_payload_def event_receipt_from_row_def and_then_Inr_iff
        split: option.splits if_splits)
  have 5: "find (\<lambda>r. ev_session_id r = rq_session_id rq \<and> ev_daemon_event_seq r = seq) (db_events db) = None"
    using run 1 2 3 4 by (auto simp: record_event_receipt_with_payload_def split: option.splits)
  show thesis
    using run 1 2 3 4 5 seq that
    by (auto simp: record_event_receipt_with_payload_def and_then_Inr_iff i64_checked_inc_def split: if_splits)
qed

lemma advance_event_watermark_Inr:
  assumes "advance_event_watermark s seq db = Inr db'" "map_of (db_sessions db) s = Some x"
  obtains through sparse where
    "absorb_sparse (max (ss_event_ack_through_seq x) seq) (ss_event_ack_sparse x) = (through, sparse)"
    "db' = update_session s (\<lambda>x. x\<lparr>ss_event_ack_through_seq := through,
        ss_event_ack_sparse := filter (\<lambda>v. through < v) sparse\<rparr>) db"
  using assms
  by (auto simp: advance_event_watermark_def fetch_session_def Let_def split: prod.splits)

text \<open>After a successful request the ledger retains a row with the identity of the request.\<close>

lemma receipt_retained:
  assumes run: "record_event_receipt_with_payload dg rq db = Inr (r, db')"
  shows "\<exists>row seq session. receipt_request_check dg rq = Inr () \<and> i64_from_u64 (rq_daemon_event_seq rq) = Inr seq
    \<and> map_of (db_sessions db') (rq_session_id rq) = Some session \<and> rq_event_id rq \<notin> set (db_readiness_events db')
    \<and> find (\<lambda>r. ev_event_id r = rq_event_id rq) (db_events db') = Some row \<and> ev_session_id row = rq_session_id rq
    \<and> ev_daemon_event_seq row = seq \<and> ev_payload_digest row = rq_payload_digest rq
    \<and> event_receipt_from_row row True = Inr (r\<lparr>rc_duplicate := True\<rparr>) \<and> (rc_duplicate r \<longrightarrow> db' = db)"
proof (cases "rc_duplicate r")
  case False
  show ?thesis
    using run False
  proof (rule receipt_new, goal_cases)
    case (1 seq session expected)
    let ?row = "receipt_row rq seq"
    let ?db = "db\<lparr>db_events := db_events db @ [?row]\<rparr>"
    have "map_of (db_sessions ?db) (rq_session_id rq) = Some session" using 1(4) by simp
    with 1(10) obtain g where db': "db' = update_session (rq_session_id rq) g ?db"
      by (elim advance_event_watermark_Inr) blast
    have "find (\<lambda>r. ev_event_id r = rq_event_id rq) (db_events db') = Some ?row"
      using 1(6) by (simp add: db' find_snoc receipt_row_def)
    moreover have "event_receipt_from_row ?row True = Inr (r\<lparr>rc_duplicate := True\<rparr>)"
      using 1(2,11) by (cases "rq_outcome rq") (simp_all add: event_receipt_from_row_def receipt_row_def outcome_as_str_def)
    ultimately show ?case
      using 1(1-5) False by (simp add: db' map_of_update_session i64_from_u64_def receipt_row_def)
  qed
next
  case True
  obtain seq where 1: "receipt_request_check dg rq = Inr ()" "i64_from_u64 (rq_daemon_event_seq rq) = Inr seq"
    using run by (auto simp: record_event_receipt_with_payload_def and_then_Inr_iff)
  obtain session where 2: "map_of (db_sessions db) (rq_session_id rq) = Some session"
    using run 1 by (auto simp: record_event_receipt_with_payload_def split: option.splits)
  have 3: "rq_event_id rq \<notin> set (db_readiness_events db)"
    using run 1 2 by (auto simp: record_event_receipt_with_payload_def split: if_splits)
  show ?thesis
  proof (cases "find (\<lambda>r. ev_event_id r = rq_event_id rq) (db_events db)")
    case (Some row)
    then have "ev_session_id row = rq_session_id rq" "ev_daemon_event_seq row = seq"
      "ev_payload_digest row = rq_payload_digest rq" "event_receipt_from_row row True = Inr r" "db' = db"
      using run 1 2 3 by (auto simp: record_event_receipt_with_payload_def and_then_Inr_iff split: if_splits)
    moreover have "r\<lparr>rc_duplicate := True\<rparr> = r" using True by (cases r) simp
    ultimately show ?thesis using 1 2 3 Some by simp
  next
    case None
    have "find (\<lambda>r. ev_session_id r = rq_session_id rq \<and> ev_daemon_event_seq r = seq) (db_events db) = None"
      using run 1 2 3 None by (auto simp: record_event_receipt_with_payload_def split: option.splits)
    then show ?thesis
      using run True 1 2 3 None
      by (auto simp: record_event_receipt_with_payload_def and_then_Inr_iff split: if_splits)
  qed
qed

text \<open>A receipt is recorded once. After a receipt request succeeded, the same request succeeds again
  with the same receipt, now marked as a duplicate, and leaves the ledger as it is; and a request that
  reuses the event identity with another session, sequence number or payload digest is refused.\<close>

theorem receipt_recorded_once:
  assumes "record_event_receipt_with_payload dg rq db = Inr (r, db')"
  shows "record_event_receipt_with_payload dg rq db' = Inr (r\<lparr>rc_duplicate := True\<rparr>, db')
    \<and> (rq_event_id rq' = rq_event_id rq
       \<and> (rq_session_id rq' \<noteq> rq_session_id rq \<or> rq_daemon_event_seq rq' \<noteq> rq_daemon_event_seq rq
          \<or> rq_payload_digest rq' \<noteq> rq_payload_digest rq)
       \<longrightarrow> (\<exists>e. record_event_receipt_with_payload dg rq' db' = Inl e))"
proof -
  obtain row seq session where
    1: "receipt_request_check dg rq = Inr ()" "i64_from_u64 (rq_daemon_event_seq rq) = Inr seq"
    and 2: "map_of (db_sessions db') (rq_session_id rq) = Some session" "rq_event_id rq \<notin> set (db_readiness_events db')"
    and row: "find (\<lambda>r. ev_event_id r = rq_event_id rq) (db_events db') = Some row" "ev_session_id row = rq_session_id rq"
      "ev_daemon_event_seq row = seq" "ev_payload_digest row = rq_payload_digest rq"
      "event_receipt_from_row row True = Inr (r\<lparr>rc_duplicate := True\<rparr>)"
    using receipt_retained[OF assms] by blast
  have "record_event_receipt_with_payload dg rq db' = Inr (r\<lparr>rc_duplicate := True\<rparr>, db')"
    using 1 2 row by (simp add: record_event_receipt_with_payload_def)
  moreover have "\<exists>e. record_event_receipt_with_payload dg rq' db' = Inl e"
    if same: "rq_event_id rq' = rq_event_id rq" and diff: "rq_session_id rq' \<noteq> rq_session_id rq
      \<or> rq_daemon_event_seq rq' \<noteq> rq_daemon_event_seq rq \<or> rq_payload_digest rq' \<noteq> rq_payload_digest rq"
  proof (rule ccontr)
    assume "\<nexists>e. record_event_receipt_with_payload dg rq' db' = Inl e"
    then obtain r2 db2 where "record_event_receipt_with_payload dg rq' db' = Inr (r2, db2)"
      by (metis sum.exhaust surj_pair)
    then obtain seq' where "ev_session_id row = rq_session_id rq'" "ev_daemon_event_seq row = seq'"
      "ev_payload_digest row = rq_payload_digest rq'" "i64_from_u64 (rq_daemon_event_seq rq') = Inr seq'"
      using row(1) same
      by (auto simp: record_event_receipt_with_payload_def and_then_Inr_iff split: option.splits if_splits)
    then show False using diff row(2-4) 1(2) by (auto simp: i64_from_u64_def word_uint_eq_iff split: if_splits)
  qed
  ultimately show ?thesis by blast
qed

section \<open>The event watermark\<close>

text \<open>The event numbers of a session that the server has handled.\<close>

definition handled :: "session_row \<Rightarrow> int set" where
  "handled x = {..ss_event_ack_through_seq x} \<union> set (ss_event_ack_sparse x)"

text \<open>A new receipt marks exactly its own event as handled. When a receipt request is not a
  duplicate, its number was not handled before unless it stood in the sparse list, the handled
  numbers of the session grow by exactly that number, the watermark never moves back and reaches it,
  the sparse list stays beyond the watermark, and one row is added to the ledger.\<close>

theorem receipt_marks_exactly_its_event:
  assumes "record_event_receipt_with_payload dg rq db = Inr (r, db')" "\<not> rc_duplicate r"
    and "map_of (db_sessions db) (rq_session_id rq) = Some x" "ss_event_ack_through_seq x \<le> i64_max"
  shows "\<exists>x'. map_of (db_sessions db') (rq_session_id rq) = Some x'
    \<and> handled x' = insert (uint (rq_daemon_event_seq rq)) (handled x)
    \<and> ss_event_ack_through_seq x < uint (rq_daemon_event_seq rq)
    \<and> uint (rq_daemon_event_seq rq) \<le> ss_event_ack_through_seq x'
    \<and> list_all (\<lambda>n. ss_event_ack_through_seq x' < n) (ss_event_ack_sparse x')
    \<and> db_events db' = db_events db @ [receipt_row rq (uint (rq_daemon_event_seq rq))]"
  using assms(1,2)
proof (rule receipt_new, goal_cases)
  case (1 seq session expected)
  have x: "session = x" using 1(4) assms(3) by simp
  let ?t = "ss_event_ack_through_seq x" and ?sp = "ss_event_ack_sparse x"
  let ?db = "db\<lparr>db_events := db_events db @ [receipt_row rq seq]\<rparr>"
  have "map_of (db_sessions ?db) (rq_session_id rq) = Some x" using assms(3) by simp
  with 1(10) obtain through sparse where
    abs: "absorb_sparse (max ?t seq) ?sp = (through, sparse)"
    and db': "db' = update_session (rq_session_id rq) (\<lambda>x. x\<lparr>ss_event_ack_through_seq := through,
        ss_event_ack_sparse := filter (\<lambda>v. through < v) sparse\<rparr>) ?db"
    by (rule advance_event_watermark_Inr)
  have seq: "max ?t seq = seq" "?t < seq" using 1(8) x by auto
  note spec = absorb_sparse_spec[OF abs[unfolded seq] 1(3)]
  have below: "k \<in> set ?sp" if "?t < k" "k < seq" for k
    using next_expected_spec[OF 1(7)[unfolded x]] that 1(9) by auto
  have "{..through} \<union> set (filter (\<lambda>v. through < v) sparse) = {..through} \<union> set sparse" by auto
  also have "\<dots> = {..seq} \<union> set ?sp" using spec by simp
  also have "\<dots> = insert seq ({..?t} \<union> set ?sp)"
  proof (rule set_eqI)
    fix k show "k \<in> {..seq} \<union> set ?sp \<longleftrightarrow> k \<in> insert seq ({..?t} \<union> set ?sp)"
    proof -
      consider "k \<le> ?t" | "?t < k" "k < seq" | "k = seq" | "seq < k" by linarith
      then show ?thesis using below[of k] seq(2) by cases auto
    qed
  qed
  finally have "handled (x\<lparr>ss_event_ack_through_seq := through, ss_event_ack_sparse := filter (\<lambda>v. through < v) sparse\<rparr>)
      = insert seq (handled x)" by (simp add: handled_def)
  then show ?case
    using 1(2) spec seq(2) assms(3) by (simp add: db' map_of_update_session list_all_iff)
qed

section \<open>Sample ledger\<close>

definition sample_digests :: digest_env where
  "sample_digests = \<lparr>dg_from_str = \<lambda>_. None, dg_to_vec = \<lambda>_. None, dg_md5_hex = id, dg_sha256_hex = id\<rparr>"

definition sample_request :: "string \<Rightarrow> u64 \<Rightarrow> event_receipt_request" where
  "sample_request eid n = \<lparr>rq_event_id = eid, rq_session_id = ''s'', rq_daemon_event_seq = n, rq_payload_digest = eid,
     rq_payload = eid, rq_outcome = ReceiptAccepted, rq_rejection_reason = None\<rparr>"

definition sample_row :: "string \<Rightarrow> int \<Rightarrow> bool \<Rightarrow> outbox_row" where
  "sample_row cid n acknowledged = \<lparr>so_command_id = cid, so_session_id = ''s'', so_daemon_id = ''d'',
     so_server_command_seq = n, so_payload = cid, so_payload_digest = cid, so_command_identity_digest = cid,
     so_acknowledged = acknowledged\<rparr>"

definition sample_db :: delivery_db where
  "sample_db = \<lparr>db_sessions = [(''s'', \<lparr>ss_command_ack_through_seq = 0, ss_event_ack_through_seq = 0, ss_event_ack_sparse = [2]\<rparr>)],
     db_outbox = [sample_row ''a'' 1 False, sample_row ''b'' 2 True], db_tombstones = [], db_events = [],
     db_readiness_events = []\<rparr>"

definition sample_receipt :: event_receipt where
  "sample_receipt = \<lparr>rc_event_id = ''e'', rc_session_id = ''s'', rc_daemon_event_seq = 1, rc_outcome = ReceiptAccepted,
     rc_rejection_reason = None, rc_duplicate = False\<rparr>"

definition sample_received :: delivery_db where
  "sample_received = sample_db\<lparr>
     db_sessions := [(''s'', \<lparr>ss_command_ack_through_seq = 0, ss_event_ack_through_seq = 2, ss_event_ack_sparse = []\<rparr>)],
     db_events := [receipt_row (sample_request ''e'' 1) 1]\<rparr>"

lemma sample_receipt_run:
  "record_event_receipt_with_payload sample_digests (sample_request ''e'' 1) sample_db = Inr (sample_receipt, sample_received)"
  by code_simp

theorem receipt_recorded_once_witness:
  "record_event_receipt_with_payload sample_digests (sample_request ''e'' 1) sample_received
     = Inr (sample_receipt\<lparr>rc_duplicate := True\<rparr>, sample_received)
   \<and> (\<exists>e. record_event_receipt_with_payload sample_digests (sample_request ''e'' 3) sample_received = Inl e)"
  using receipt_recorded_once[OF sample_receipt_run, of "sample_request ''e'' 3"]
  by (simp add: sample_request_def)

theorem receipt_marks_exactly_its_event_witness:
  "\<exists>x x'. map_of (db_sessions sample_db) ''s'' = Some x \<and> map_of (db_sessions sample_received) ''s'' = Some x'
     \<and> handled x' = insert 1 (handled x)"
  using receipt_marks_exactly_its_event[OF sample_receipt_run]
  by (simp add: sample_receipt_def sample_request_def sample_db_def i64_max_def) blast

section \<open>Command acknowledgements\<close>

text \<open>The constraints of the command tables: primary keys, sequence numbers that are unique in a session
  over outbox and tombstones, and watermarks behind which every command is acknowledged.\<close>

definition command_tables_ok :: "delivery_db \<Rightarrow> bool" where
  "command_tables_ok db \<longleftrightarrow>
     distinct (map fst (db_sessions db))
     \<and> distinct (map so_command_id (db_outbox db) @ map tr_command_id (db_tombstones db))
     \<and> distinct (map (\<lambda>r. (so_session_id r, so_server_command_seq r)) (db_outbox db)
         @ map (\<lambda>t. (tr_session_id t, tr_server_command_seq t)) (db_tombstones db))
     \<and> (\<forall>r \<in> set (db_outbox db). \<forall>x. map_of (db_sessions db) (so_session_id r) = Some x
          \<and> so_server_command_seq r \<le> ss_command_ack_through_seq x \<longrightarrow> so_acknowledged r)"

lemma to_tombstone_row_fields [simp]:
  "tr_command_id (to_tombstone_row r) = so_command_id r" "tr_session_id (to_tombstone_row r) = so_session_id r"
  "tr_server_command_seq (to_tombstone_row r) = so_server_command_seq r"
  by (simp_all add: to_tombstone_row_def)

lemma distinct_shift: "distinct ((a # xs) @ ys) \<Longrightarrow> distinct (xs @ ys @ [a])"
  by auto

lemma fold_insert_tombstone:
  assumes "distinct (map so_command_id rs @ map tr_command_id ts)"
    and "distinct (map (\<lambda>r. (so_session_id r, so_server_command_seq r)) rs
         @ map (\<lambda>t. (tr_session_id t, tr_server_command_seq t)) ts)"
  shows "fold insert_tombstone (map to_tombstone_row rs) ts = ts @ map to_tombstone_row rs"
  using assms
proof (induction rs arbitrary: ts)
  case (Cons r rs)
  let ?t = "to_tombstone_row r"
  have "so_command_id r \<notin> tr_command_id ` set ts"
    "(so_session_id r, so_server_command_seq r) \<notin> (\<lambda>t. (tr_session_id t, tr_server_command_seq t)) ` set ts"
    using Cons.prems by simp_all
  then have "insert_tombstone ?t ts = ts @ [?t]" by (auto simp: insert_tombstone_def list_ex_iff image_iff)
  moreover have "fold insert_tombstone (map to_tombstone_row rs) (ts @ [?t]) = (ts @ [?t]) @ map to_tombstone_row rs"
    using Cons.prems distinct_shift[of "so_command_id r"] distinct_shift[of "(so_session_id r, so_server_command_seq r)"]
    by (intro Cons.IH) simp_all
  ultimately show ?case by simp
qed simp

lemma distinct_filter_left: "distinct (map g xs @ map h ys) \<Longrightarrow> distinct (map g (filter p xs) @ map h ys)"
  by (auto intro: distinct_map_filter)

lemma compact_tables:
  assumes "command_tables_ok db" "compact_server_commands_in_transaction s db = Inr (n, db')"
    and "map_of (db_sessions db) s = Some x"
  shows "db' = db\<lparr>db_tombstones := db_tombstones db
          @ map to_tombstone_row (filter (compactable_row s (ss_command_ack_through_seq x)) (db_outbox db)),
        db_outbox := filter (\<lambda>r. \<not> compactable_row s (ss_command_ack_through_seq x) r) (db_outbox db)\<rparr>"
  using assms fold_insert_tombstone[OF distinct_filter_left distinct_filter_left]
  by (auto simp: compact_server_commands_in_transaction_def fetch_session_def Let_def command_tables_ok_def)

lemma fold_min_spec: "fold min xs (y :: int) \<in> insert y (set xs) \<and> (\<forall>z \<in> insert y (set xs). fold min xs y \<le> z)"
proof (induction xs arbitrary: y)
  case (Cons x xs)
  from Cons[of "min x y"] show ?case by (auto simp: min_def split: if_splits)
qed simp

lemma list_min_spec:
  "list_min xs = None \<longleftrightarrow> xs = []" "list_min xs = Some m \<Longrightarrow> m \<in> set xs \<and> (\<forall>z \<in> set xs. m \<le> z)"
  using fold_min_spec by (auto simp: list_min_def split: list.splits)

lemma fold_max_int_ge: "\<forall>z \<in> insert y (set xs). (z :: int) \<le> fold max xs y"
proof (induction xs arbitrary: y)
  case (Cons x xs)
  from Cons[of "max x y"] show ?case by auto
qed simp

lemma list_max_or_0_ge: "z \<in> set xs \<Longrightarrow> z \<le> list_max_or_0 xs"
  using fold_max_int_ge by (cases xs) (auto simp: list_max_or_0_def)

lemma advance_command_watermark_Inr:
  assumes run: "advance_command_watermark s db = Inr (w, db')"
  obtains x wm where "map_of (db_sessions db) s = Some x" "u64_from_i64 wm = Inr w" "ss_command_ack_through_seq x \<le> wm"
    "db' = update_session s (\<lambda>x. x\<lparr>ss_command_ack_through_seq := wm\<rparr>) db"
    "\<And>r. r \<in> set (db_outbox db) \<Longrightarrow> so_session_id r = s \<Longrightarrow> so_server_command_seq r \<le> wm
       \<Longrightarrow> ss_command_ack_through_seq x < so_server_command_seq r \<Longrightarrow> so_acknowledged r"
proof -
  obtain x where x: "map_of (db_sessions db) s = Some x"
    using run by (auto simp: advance_command_watermark_def fetch_session_def split: option.splits)
  let ?c = "ss_command_ack_through_seq x"
  define unacked where "unacked = map so_server_command_seq
      (filter (\<lambda>r. so_session_id r = s \<and> ?c < so_server_command_seq r \<and> \<not> so_acknowledged r) (db_outbox db))"
  define wm where "wm = max (case list_min unacked of
      None \<Rightarrow> list_max_or_0 (map so_server_command_seq (filter (\<lambda>r. so_session_id r = s) (db_outbox db)))
    | Some n \<Rightarrow> n - 1) ?c"
  have 1: "u64_from_i64 wm = Inr w" "db' = update_session s (\<lambda>x. x\<lparr>ss_command_ack_through_seq := wm\<rparr>) db"
    using run x by (auto simp: advance_command_watermark_def fetch_session_def Let_def and_then_Inr_iff wm_def unacked_def)
  have "so_acknowledged r" if r: "r \<in> set (db_outbox db)" "so_session_id r = s" "so_server_command_seq r \<le> wm"
    "?c < so_server_command_seq r" for r
  proof (rule ccontr)
    assume "\<not> so_acknowledged r"
    then have mem: "so_server_command_seq r \<in> set unacked" using r by (auto simp: unacked_def)
    then obtain n where n: "list_min unacked = Some n" using list_min_spec(1)[of unacked] by fastforce
    have "n \<le> so_server_command_seq r" using list_min_spec(2)[OF n] mem by blast
    then show False using r(3,4) n by (simp add: wm_def)
  qed
  then show thesis using that[OF x 1(1) _ 1(2)] by (simp add: wm_def)
qed

lemma acknowledge_row_fields [simp]:
  "so_command_id (acknowledge_row cid r) = so_command_id r" "so_session_id (acknowledge_row cid r) = so_session_id r"
  "so_server_command_seq (acknowledge_row cid r) = so_server_command_seq r"
  "so_acknowledged (acknowledge_row cid r) = (so_acknowledged r \<or> so_command_id r = cid)"
  "to_tombstone_row (acknowledge_row cid r) = to_tombstone_row r"
  by (simp_all add: acknowledge_row_def to_tombstone_row_def)

lemma acknowledge_row_same: "so_command_id r \<noteq> cid \<or> so_acknowledged r \<Longrightarrow> acknowledge_row cid r = r"
  by (auto simp: acknowledge_row_def)

lemma update_session_same:
  assumes "distinct (map fst (db_sessions db))" "map_of (db_sessions db) s = Some x" "g x = x"
  shows "update_session s g db = db"
proof -
  have "(if k = s then (k, g y) else (k, y)) = (k, y)" if "(k, y) \<in> set (db_sessions db)" for k y
    using assms(2,3) map_of_is_SomeI[OF assms(1) that] by (cases "k = s") (simp_all del: map_of_eq_Some_iff)
  then have "map (\<lambda>(k, y). if k = s then (k, g y) else (k, y)) (db_sessions db) = db_sessions db"
    by (intro map_idI) auto
  then show ?thesis by (simp add: update_session_def)
qed

lemma update_session_outbox [simp]:
  "update_session s g (db\<lparr>db_outbox := rs\<rparr>) = (update_session s g db)\<lparr>db_outbox := rs\<rparr>"
  by (simp add: update_session_def)

text \<open>The tables between the acknowledgement and the compaction: the row is acknowledged and the
  watermark of the session has become \<open>wm\<close>.\<close>

lemma acknowledge_command_stages:
  assumes ok: "command_tables_ok db" and run: "acknowledge_command dg cid sid n db = Inr (w, db')"
  obtains x wm db1 k where
    "map_of (db_sessions db) sid = Some x" "u64_from_i64 wm = Inr w" "ss_command_ack_through_seq x \<le> wm"
    "db1 = (update_session sid (\<lambda>x. x\<lparr>ss_command_ack_through_seq := wm\<rparr>) db)
       \<lparr>db_outbox := map (acknowledge_row cid) (db_outbox db)\<rparr>"
    "\<And>r. r \<in> set (db_outbox db1) \<Longrightarrow> so_session_id r = sid \<Longrightarrow> so_server_command_seq r \<le> wm \<Longrightarrow> so_acknowledged r"
    "compact_server_commands_in_transaction sid db1 = Inr (k, db')"
proof -
  have behind: "so_acknowledged r" if "r \<in> set (db_outbox db)" "so_session_id r = sid"
    "map_of (db_sessions db) sid = Some x" "so_server_command_seq r \<le> ss_command_ack_through_seq x" for r x
    using ok that unfolding command_tables_ok_def by blast
  show thesis
  proof (cases "find (\<lambda>r. so_command_id r = cid) (db_outbox db)")
    case (Some row)
    let ?db0 = "db\<lparr>db_outbox := map (acknowledge_row cid) (db_outbox db)\<rparr>"
    note row = find_Some_mem[OF Some]
    have "map (acknowledge_row cid) (db_outbox db) = db_outbox db" if "so_acknowledged row"
    proof (rule map_idI)
      fix r assume r: "r \<in> set (db_outbox db)"
      have "inj_on so_command_id (set (db_outbox db))" using ok by (simp add: command_tables_ok_def distinct_map)
      from inj_onD[OF this, of r row] r row that show "acknowledge_row cid r = r"
        by (intro acknowledge_row_same) auto
    qed
    then have same: "(if so_acknowledged row then db else ?db0) = ?db0" by simp
    obtain db1 k where adv: "advance_command_watermark sid (if so_acknowledged row then db else ?db0) = Inr (w, db1)"
      and comp: "compact_server_commands_in_transaction sid db1 = Inr (k, db')"
      using run Some by (auto simp: acknowledge_command_def and_then_Inr_iff split: if_splits)
    from adv[unfolded same] show thesis
    proof (rule advance_command_watermark_Inr)
      fix x wm
      assume x: "map_of (db_sessions ?db0) sid = Some x" and w: "u64_from_i64 wm = Inr w" "ss_command_ack_through_seq x \<le> wm"
        and db1: "db1 = update_session sid (\<lambda>x. x\<lparr>ss_command_ack_through_seq := wm\<rparr>) ?db0"
        and acked: "\<And>r. r \<in> set (db_outbox ?db0) \<Longrightarrow> so_session_id r = sid \<Longrightarrow> so_server_command_seq r \<le> wm
          \<Longrightarrow> ss_command_ack_through_seq x < so_server_command_seq r \<Longrightarrow> so_acknowledged r"
      have "so_acknowledged r" if "r \<in> set (db_outbox db1)" "so_session_id r = sid" "so_server_command_seq r \<le> wm" for r
        using acked[of r] that behind[OF _ _ x[simplified]]
        by (cases "ss_command_ack_through_seq x < so_server_command_seq r") (auto simp: db1)
      then show thesis using that[of x wm db1 k] x w db1 comp by simp
    qed
  next
    case None
    have same: "map (acknowledge_row cid) (db_outbox db) = db_outbox db"
      by (rule map_idI) (use None in \<open>auto simp: find_None_iff intro: acknowledge_row_same\<close>)
    obtain x k where x: "map_of (db_sessions db) sid = Some x" "u64_from_i64 (ss_command_ack_through_seq x) = Inr w"
      and comp: "compact_server_commands_in_transaction sid db = Inr (k, db')"
      using run None by (auto simp: acknowledge_command_def and_then_Inr_iff fetch_session_Inr split: option.splits if_splits)
    have "update_session sid (\<lambda>y. y\<lparr>ss_command_ack_through_seq := ss_command_ack_through_seq x\<rparr>) db = db"
      by (rule update_session_same[OF _ x(1)]) (use ok in \<open>simp_all add: command_tables_ok_def\<close>)
    then show thesis using that[of x "ss_command_ack_through_seq x" db k] x comp same behind by auto
  qed
qed

lemma map_fst_update_session [simp]: "map fst (db_sessions (update_session s g db)) = map fst (db_sessions db)"
  by (auto simp: update_session_def comp_def)

lemma acknowledged_tables_ok:
  assumes ok: "command_tables_ok db" and x: "map_of (db_sessions db) sid = Some x"
    and db1: "db1 = (update_session sid (\<lambda>x. x\<lparr>ss_command_ack_through_seq := wm\<rparr>) db)
       \<lparr>db_outbox := map (acknowledge_row cid) (db_outbox db)\<rparr>"
    and acked: "\<And>r. r \<in> set (db_outbox db1) \<Longrightarrow> so_session_id r = sid \<Longrightarrow> so_server_command_seq r \<le> wm \<Longrightarrow> so_acknowledged r"
  shows "command_tables_ok db1"
proof -
  have "so_acknowledged r" if r: "r \<in> set (db_outbox db1)" "map_of (db_sessions db1) (so_session_id r) = Some y"
    "so_server_command_seq r \<le> ss_command_ack_through_seq y" for r y
  proof (cases "so_session_id r = sid")
    case True
    then have "y = x\<lparr>ss_command_ack_through_seq := wm\<rparr>" using r(2) x by (simp add: db1 map_of_update_session)
    then show ?thesis using acked[OF r(1) True] r(3) by simp
  next
    case False
    then have y: "map_of (db_sessions db) (so_session_id r) = Some y"
      using r(2) by (simp add: db1 map_of_update_session)
    obtain r0 where r0: "r0 \<in> set (db_outbox db)" "r = acknowledge_row cid r0" using r(1) by (auto simp: db1)
    then have "so_acknowledged r0" using ok y r(3) unfolding command_tables_ok_def by auto
    then show ?thesis using r0 by simp
  qed
  moreover have "distinct (map fst (db_sessions db1))"
    "distinct (map so_command_id (db_outbox db1) @ map tr_command_id (db_tombstones db1))"
    "distinct (map (\<lambda>r. (so_session_id r, so_server_command_seq r)) (db_outbox db1)
       @ map (\<lambda>t. (tr_session_id t, tr_server_command_seq t)) (db_tombstones db1))"
    using ok by (simp_all add: db1 comp_def command_tables_ok_def)
  ultimately show ?thesis unfolding command_tables_ok_def by blast
qed

lemma compacted_tables_ok:
  assumes ok: "command_tables_ok db"
  shows "command_tables_ok (db\<lparr>db_tombstones := db_tombstones db @ map to_tombstone_row (filter p (db_outbox db)),
        db_outbox := filter (\<lambda>r. \<not> p r) (db_outbox db)\<rparr>)"
  using ok
    distinct_compact[of so_command_id "db_outbox db" tr_command_id "db_tombstones db" to_tombstone_row p]
    distinct_compact[of "\<lambda>r. (so_session_id r, so_server_command_seq r)" "db_outbox db"
      "\<lambda>t. (tr_session_id t, tr_server_command_seq t)" "db_tombstones db" to_tombstone_row p]
  unfolding command_tables_ok_def by simp

text \<open>A command acknowledgement keeps the command tables consistent and the watermark contiguous. It
  never moves the watermark back; afterwards every command of the session that is still in the outbox
  is beyond the watermark, the commands that wait for an acknowledgement are untouched apart from the
  acknowledged one, and no command identity is forgotten.\<close>

theorem command_acknowledgement_contiguous:
  assumes "command_tables_ok db" "acknowledge_command dg cid sid n db = Inr (w, db')"
  shows "command_tables_ok db'
    \<and> (\<exists>x x'. map_of (db_sessions db) sid = Some x \<and> map_of (db_sessions db') sid = Some x'
         \<and> ss_command_ack_through_seq x \<le> ss_command_ack_through_seq x'
         \<and> u64_from_i64 (ss_command_ack_through_seq x') = Inr w
         \<and> list_all (\<lambda>r. so_session_id r \<noteq> sid \<or> ss_command_ack_through_seq x' < so_server_command_seq r) (db_outbox db'))
    \<and> filter (\<lambda>r. \<not> so_acknowledged r) (db_outbox db')
        = filter (\<lambda>r. \<not> so_acknowledged r \<and> so_command_id r \<noteq> cid) (db_outbox db)
    \<and> so_command_id ` set (db_outbox db') \<union> tr_command_id ` set (db_tombstones db')
        = so_command_id ` set (db_outbox db) \<union> tr_command_id ` set (db_tombstones db)"
  using assms
proof (rule acknowledge_command_stages)
  fix x wm db1 k
  assume x: "map_of (db_sessions db) sid = Some x" and w: "u64_from_i64 wm = Inr w" "ss_command_ack_through_seq x \<le> wm"
    and db1: "db1 = (update_session sid (\<lambda>x. x\<lparr>ss_command_ack_through_seq := wm\<rparr>) db)
       \<lparr>db_outbox := map (acknowledge_row cid) (db_outbox db)\<rparr>"
    and acked: "\<And>r. r \<in> set (db_outbox db1) \<Longrightarrow> so_session_id r = sid \<Longrightarrow> so_server_command_seq r \<le> wm \<Longrightarrow> so_acknowledged r"
    and comp: "compact_server_commands_in_transaction sid db1 = Inr (k, db')"
  let ?p = "compactable_row sid wm"
  have ok1: "command_tables_ok db1" by (rule acknowledged_tables_ok[OF assms(1) x db1 acked])
  have x1: "map_of (db_sessions db1) sid = Some (x\<lparr>ss_command_ack_through_seq := wm\<rparr>)"
    using x by (simp add: db1 map_of_update_session)
  have db': "db' = db1\<lparr>db_tombstones := db_tombstones db1 @ map to_tombstone_row (filter ?p (db_outbox db1)),
      db_outbox := filter (\<lambda>r. \<not> ?p r) (db_outbox db1)\<rparr>"
    using compact_tables[OF ok1 comp x1] by simp
  have "command_tables_ok db'" unfolding db' by (rule compacted_tables_ok[OF ok1])
  moreover have "list_all (\<lambda>r. so_session_id r \<noteq> sid \<or> wm < so_server_command_seq r) (db_outbox db')"
    using acked by (fastforce simp: db' list_all_iff compactable_row_def)
  moreover have "filter (\<lambda>r. \<not> so_acknowledged r) (db_outbox db')
      = filter (\<lambda>r. \<not> so_acknowledged r \<and> so_command_id r \<noteq> cid) (db_outbox db)"
  proof -
    have "filter (\<lambda>r. \<not> so_acknowledged r) (db_outbox db') = filter (\<lambda>r. \<not> so_acknowledged r) (db_outbox db1)"
      unfolding db' by (simp, rule filter_cong) (auto simp: compactable_row_def)
    also have "\<dots> = filter (\<lambda>r. \<not> so_acknowledged r \<and> so_command_id r \<noteq> cid) (db_outbox db)"
      by (simp add: db1 filter_map comp_def) (rule map_idI, simp add: acknowledge_row_same)
    finally show ?thesis .
  qed
  moreover have "so_command_id ` set (db_outbox db') \<union> tr_command_id ` set (db_tombstones db')
        = so_command_id ` set (db_outbox db1) \<union> tr_command_id ` set (db_tombstones db1)"
    by (auto simp: db' image_Un image_image)
  moreover have "so_command_id ` set (db_outbox db1) = so_command_id ` set (db_outbox db)" "db_tombstones db1 = db_tombstones db"
    by (simp_all add: db1 image_image)
  moreover have "map_of (db_sessions db') sid = Some (x\<lparr>ss_command_ack_through_seq := wm\<rparr>)" using x1 by (simp add: db')
  ultimately show ?thesis using x w by simp
qed

lemma sample_acknowledged:
  "acknowledge_command sample_digests ''a'' ''s'' 1 sample_db = Inr (2, sample_db\<lparr>
     db_sessions := [(''s'', \<lparr>ss_command_ack_through_seq = 2, ss_event_ack_through_seq = 0, ss_event_ack_sparse = [2]\<rparr>)],
     db_outbox := [], db_tombstones := map to_tombstone_row [sample_row ''a'' 1 True, sample_row ''b'' 2 True]\<rparr>)"
  by code_simp

theorem command_acknowledgement_contiguous_witness:
  "\<exists>db'. acknowledge_command sample_digests ''a'' ''s'' 1 sample_db = Inr (2, db') \<and> command_tables_ok db'"
proof -
  have "command_tables_ok sample_db"
    by (simp add: command_tables_ok_def sample_db_def sample_row_def)
  then show ?thesis using command_acknowledgement_contiguous[OF _ sample_acknowledged] sample_acknowledged by blast
qed

end
