(* ===== verification/Requirement_Store.thy ===== *)
theory Requirement_Store
  imports Server_Delivery Requirement_Domain
begin

text \<open>
  \<open>north-persistence/src/requirements.rs\<close>: requirements in the database, their optimistic updates
  and the transition audit.

  \<^item> \<open>server_db\<close> holds the tables of the requirement, readiness and clarification transactions as lists
    of rows, with the columns the queries read or write (\<open>src/migrations\<close>).
  \<^item> A transaction is a function from the tables to an error, which leaves them as they were, or to a
    value and the new tables. \<open>run_tx\<close> commits and then converts the row that is returned, so an error
    of the conversion does not undo the commit. Row locks and advisory locks serialise the
    transactions, so a history is a sequence of them.
  \<^item> A timestamp is a number of microseconds, \<open>now\<close> the time of the transaction; the rendering of timestamps as text
    is left out. The strings of \<open>random_hex\<close> are rendered from random bytes, an argument.
  \<^item> Primary keys and unique indexes are checked by the inserts; \<open>sv_repositories\<close> pairs an identity with whether it
    is disabled, and \<open>sv_legacy_events\<close> lists the events with \<open>legacy_identity\<close>. The other \<open>CHECK\<close> constraints on texts,
    foreign keys to tables that are not modelled, and \<open>ILIKE\<close> are the parameters \<open>store_env\<close>.
\<close>

section \<open>Tables\<close>

record requirement_row =
  rw_id :: string
  rw_title :: string
  rw_description :: string
  rw_summary :: string
  rw_acceptance_criteria :: "string list"
  rw_assumptions :: "string list"
  rw_open_questions :: "string list"
  rw_status :: string
  rw_revision :: int
  rw_state_version :: int
  rw_created_by :: string
  rw_created_at :: nat
  rw_updated_at :: nat

text \<open>Rows of \<open>transition_audit\<close>, \<open>readiness_assessments\<close> and \<open>execution_sessions\<close>.\<close>

record audit_row =
  au_requirement_id :: string
  au_actor_id :: string
  au_transition :: string
  au_from_status :: string
  au_to_status :: string
  au_feedback :: "string option"
  au_assessment_id :: "string option"
  au_state_version :: int

record assessment_row =
  asr_id :: string
  asr_event_id :: string
  asr_session_id :: string
  asr_daemon_event_seq :: int
  asr_event_requirement_id :: string
  asr_requirement_id :: "string option"
  asr_requirement_revision :: int
  asr_verdict :: string
  asr_blockers :: "string list"
  asr_assumptions :: "string list"
  asr_repositories_reviewed :: json
  asr_outcome :: string
  asr_accepted_state_version :: "int option"
  asr_rejection_reason :: "string option"
  asr_assessed_at_ms :: int
  asr_generation_unknown :: bool
  asr_created_at :: nat

record execution_session =
  es_daemon_id :: "string option"
  es_requirement_id :: "string option"
  es_state :: string
  es_start_message_id :: "string option"
  es_start_context :: "json option"
  es_start_command_id :: "string option"
  es_cancel_command_id :: "string option"
  es_cancel_requested :: bool
  es_runtime_id :: "string option"
  es_terminal_summary :: "string option"
  es_failure_class :: "string option"
  es_failure_reason :: "string option"
  es_attempt_count :: int
  es_max_attempts :: int
  es_next_retry_at :: "nat option"
  es_current_attempt_id :: "string option"
  es_command_ack_through_seq :: int
  es_event_ack_through_seq :: int
  es_event_ack_sparse :: "int list"
  es_repository_ids :: "string list"
  es_repository_context_initialized :: bool
  es_started_at :: "nat option"
  es_created_at :: nat
  es_updated_at :: nat
  es_last_activity_at :: nat

text \<open>Rows of \<open>execution_attempts\<close>, \<open>messages\<close>, \<open>server_message_command_map\<close>, \<open>clarification_activities\<close> and
  \<open>daemon_registrations\<close>.\<close>

record attempt_row =
  at_id :: string
  at_session_id :: string
  at_attempt_number :: int
  at_command_id :: string
  at_command_kind :: string
  at_outcome :: "string option"
  at_failure_event_id :: "string option"
  at_failure_class :: "string option"
  at_failure_reason :: "string option"

record message_row =
  mg_id :: string
  mg_conversation_id :: string
  mg_author_user_id :: "string option"
  mg_kind :: string
  mg_body :: string
  mg_source_event_id :: "string option"

record message_map_row =
  mm_session_id :: string
  mm_message_id :: string
  mm_command_id :: string
  mm_content_digest :: string

record activity_row =
  ac_event_id :: string
  ac_session_id :: string
  ac_activity :: string
  ac_created_at :: nat
  ac_expires_at :: nat

record daemon_row =
  dn_daemon_id :: string
  dn_capabilities :: string
  dn_protocol_version :: string
  dn_connected :: bool
  dn_revoked :: bool
  dn_last_seen_at :: "nat option"

record server_db =
  sv_requirements :: "requirement_row list"
  sv_conversations :: "(string \<times> string) list"
  sv_audit :: "audit_row list"
  sv_assessments :: "assessment_row list"
  sv_sessions :: "(string \<times> execution_session) list"
  sv_events :: "event_receipt_row list"
  sv_legacy_events :: "string list"
  sv_repositories :: "(string \<times> bool) list"
  sv_attempts :: "attempt_row list"
  sv_outbox :: "outbox_row list"
  sv_tombstones :: "tombstone_row list"
  sv_messages :: "message_row list"
  sv_message_map :: "message_map_row list"
  sv_activities :: "activity_row list"
  sv_daemons :: "daemon_row list"

record store_env =
  st_row_ok :: "requirement_row \<Rightarrow> bool"
  st_feedback_ok :: "string \<Rightarrow> bool"
  st_ilike :: "string \<Rightarrow> string \<Rightarrow> bool"

section \<open>Values\<close>

datatype requirement_error =
    ReqDatabase string
  | ReqNotFound
  | ReqConflict
  | ReqInvalidStatus string
  | ReqInvalidRevision
  | ReqInvalidStateVersion
  | ReqInvalidTransition invalid_transition
  | ReqEdit edit_error

record requirement_record =
  rcd_id :: string
  rcd_title :: string
  rcd_description :: string
  rcd_summary :: string
  rcd_acceptance_criteria :: "string list"
  rcd_assumptions :: "string list"
  rcd_open_questions :: "string list"
  rcd_status :: requirement_status
  rcd_revision :: u64
  rcd_state_version :: u64
  rcd_created_by :: string
  rcd_created_at :: nat
  rcd_updated_at :: nat

datatype requirement_transition = TBeginDiscussion | TAccept | TReject | TRequestChanges | TReopen

definition transition_as_str :: "requirement_transition \<Rightarrow> string" where
  "transition_as_str t =
     (case t of TBeginDiscussion \<Rightarrow> ''begin_discussion'' | TAccept \<Rightarrow> ''accept'' | TReject \<Rightarrow> ''reject''
      | TRequestChanges \<Rightarrow> ''request_changes'' | TReopen \<Rightarrow> ''reopen'')"

definition apply_transition ::
  "requirement_transition \<Rightarrow> requirement \<Rightarrow> (requirement_error + unit) \<times> requirement" where
  "apply_transition t r =
     (case (case t of TBeginDiscussion \<Rightarrow> begin_discussion r | TAccept \<Rightarrow> accept r | TReject \<Rightarrow> reject r
            | TRequestChanges \<Rightarrow> request_changes r | TReopen \<Rightarrow> reopen r) of
        (res, r') \<Rightarrow> (map_err ReqInvalidTransition res, r'))"

definition hex_byte :: "nat \<Rightarrow> string" where
  "hex_byte b = [''0123456789abcdef'' ! (b div 16 mod 16), ''0123456789abcdef'' ! (b mod 16)]"

definition random_hex :: "nat \<Rightarrow> (nat \<Rightarrow> nat) \<Rightarrow> string" where
  "random_hex byte_count bytes = concat (map (\<lambda>i. hex_byte (bytes i)) [0..<byte_count])"

definition i64_try :: "'e \<Rightarrow> u64 \<Rightarrow> 'e + int" where
  "i64_try e n = (if uint n \<le> i64_max then Inr (uint n) else Inl e)"

definition u64_try :: "'e \<Rightarrow> int \<Rightarrow> 'e + u64" where
  "u64_try e n = (if 0 \<le> n then Inr (word_of_int n) else Inl e)"

section \<open>Rows\<close>

definition persisted_status :: "requirement_status \<Rightarrow> string" where
  "persisted_status s =
     (case s of Draft \<Rightarrow> ''Draft'' | Discussing \<Rightarrow> ''Discussing'' | Ready \<Rightarrow> ''Ready''
      | Accepted \<Rightarrow> ''Accepted'' | Rejected \<Rightarrow> ''Rejected'')"

definition row_status :: "requirement_row \<Rightarrow> requirement_error + requirement_status" where
  "row_status row =
     (if rw_status row = ''Draft'' then Inr Draft
      else if rw_status row = ''Discussing'' then Inr Discussing
      else if rw_status row = ''Ready'' then Inr Ready
      else if rw_status row = ''Accepted'' then Inr Accepted
      else if rw_status row = ''Rejected'' then Inr Rejected
      else Inl (ReqInvalidStatus (rw_status row)))"

definition restore_requirement_error :: "restore_error \<Rightarrow> requirement_error" where
  "restore_requirement_error e =
     (case e of InvalidRevision \<Rightarrow> ReqInvalidRevision | InvalidStateVersion \<Rightarrow> ReqInvalidStateVersion)"

definition to_domain :: "requirement_row \<Rightarrow> requirement_error + requirement" where
  "to_domain row =
     and_then (row_status row) (\<lambda>status.
     and_then (u64_try ReqInvalidRevision (rw_revision row)) (\<lambda>revision.
     and_then (u64_try ReqInvalidStateVersion (rw_state_version row)) (\<lambda>state_version.
     map_err restore_requirement_error (from_persisted
       \<lparr>per_id = rw_id row, per_title = rw_title row, per_description = rw_description row, per_summary = rw_summary row,
        per_acceptance_criteria = rw_acceptance_criteria row, per_assumptions = rw_assumptions row,
        per_open_questions = rw_open_questions row, per_status = status, per_revision = revision,
        per_state_version = state_version, per_created_by = rw_created_by row\<rparr>))))"

definition into_record :: "requirement_row \<Rightarrow> requirement_error + requirement_record" where
  "into_record row =
     and_then (to_domain row) (\<lambda>_.
     and_then (row_status row) (\<lambda>status.
     and_then (u64_try ReqInvalidRevision (rw_revision row)) (\<lambda>revision.
     and_then (u64_try ReqInvalidStateVersion (rw_state_version row)) (\<lambda>state_version.
     Inr \<lparr>rcd_id = rw_id row, rcd_title = rw_title row, rcd_description = rw_description row, rcd_summary = rw_summary row,
          rcd_acceptance_criteria = rw_acceptance_criteria row, rcd_assumptions = rw_assumptions row,
          rcd_open_questions = rw_open_questions row, rcd_status = status, rcd_revision = revision,
          rcd_state_version = state_version, rcd_created_by = rw_created_by row,
          rcd_created_at = rw_created_at row, rcd_updated_at = rw_updated_at row\<rparr>))))"

section \<open>Transactions\<close>

definition run_tx :: "(server_db \<Rightarrow> 'e + 'a \<times> server_db) \<Rightarrow> ('a \<Rightarrow> 'e + 'b) \<Rightarrow> server_db \<Rightarrow> ('e + 'b) \<times> server_db" where
  "run_tx tx after db = (case tx db of Inl e \<Rightarrow> (Inl e, db) | Inr (a, db') \<Rightarrow> (after a, db'))"

definition find_requirement :: "string \<Rightarrow> server_db \<Rightarrow> requirement_row option" where
  "find_requirement rid db = find (\<lambda>row. rw_id row = rid) (sv_requirements db)"

definition lock_requirement :: "string \<Rightarrow> server_db \<Rightarrow> requirement_error + requirement_row" where
  "lock_requirement rid db = (case find_requirement rid db of None \<Rightarrow> Inl ReqNotFound | Some row \<Rightarrow> Inr row)"

definition insert_requirement :: "store_env \<Rightarrow> requirement_row \<Rightarrow> server_db \<Rightarrow> requirement_error + server_db" where
  "insert_requirement env row db =
     (if \<not> st_row_ok env row then Inl (ReqDatabase ''check constraint'')
      else if find_requirement (rw_id row) db \<noteq> None then Inl (ReqDatabase ''duplicate key'')
      else Inr (db\<lparr>sv_requirements := sv_requirements db @ [row]\<rparr>))"

definition insert_conversation :: "string \<Rightarrow> string \<Rightarrow> server_db \<Rightarrow> requirement_error + server_db" where
  "insert_conversation cid rid db =
     (if list_ex (\<lambda>(c, r). c = cid \<or> r = rid) (sv_conversations db) then Inl (ReqDatabase ''duplicate key'')
      else Inr (db\<lparr>sv_conversations := sv_conversations db @ [(cid, rid)]\<rparr>))"

definition create_requirement_tx ::
  "store_env \<Rightarrow> (nat \<Rightarrow> nat) \<Rightarrow> (nat \<Rightarrow> nat) \<Rightarrow> string \<Rightarrow> string \<Rightarrow> string \<Rightarrow> nat \<Rightarrow> server_db
   \<Rightarrow> requirement_error + requirement_row \<times> server_db" where
  "create_requirement_tx env rnd1 rnd2 title description created_by now db =
     (let r = new_requirement (random_hex 16 rnd1) title description created_by in
      and_then (i64_try ReqInvalidRevision (req_revision r)) (\<lambda>revision.
      and_then (i64_try ReqInvalidStateVersion (req_state_version r)) (\<lambda>state_version.
      let row = \<lparr>rw_id = req_id r, rw_title = req_title r, rw_description = req_description r, rw_summary = req_summary r,
                 rw_acceptance_criteria = req_acceptance_criteria r, rw_assumptions = req_assumptions r,
                 rw_open_questions = req_open_questions r, rw_status = persisted_status (req_status r),
                 rw_revision = revision, rw_state_version = state_version, rw_created_by = req_created_by r,
                 rw_created_at = now, rw_updated_at = now\<rparr>
      in and_then (insert_requirement env row db) (\<lambda>db.
         and_then (insert_conversation (random_hex 16 rnd2) (req_id r) db) (\<lambda>db.
         Inr (row, db))))))"

definition create_requirement ::
  "store_env \<Rightarrow> (nat \<Rightarrow> nat) \<Rightarrow> (nat \<Rightarrow> nat) \<Rightarrow> string \<Rightarrow> string \<Rightarrow> string \<Rightarrow> nat \<Rightarrow> server_db
   \<Rightarrow> (requirement_error + requirement_record) \<times> server_db" where
  "create_requirement env rnd1 rnd2 title description created_by now =
     run_tx (create_requirement_tx env rnd1 rnd2 title description created_by now) into_record"

definition requirement_by_id :: "string \<Rightarrow> server_db \<Rightarrow> requirement_error + requirement_record option" where
  "requirement_by_id rid db =
     (case find_requirement rid db of None \<Rightarrow> Inr None | Some row \<Rightarrow> map_sum id Some (into_record row))"

definition current_review_assessment ::
  "string \<Rightarrow> u64 \<Rightarrow> u64 \<Rightarrow> string \<Rightarrow> server_db \<Rightarrow> requirement_error + unit" where
  "current_review_assessment rid revision state_version assessment_id db =
     and_then (i64_try ReqInvalidRevision revision) (\<lambda>revision.
     and_then (i64_try ReqInvalidStateVersion state_version) (\<lambda>state_version.
     if list_ex (\<lambda>a. asr_id a = assessment_id \<and> asr_requirement_id a = Some rid \<and> asr_requirement_revision a = revision
                 \<and> asr_accepted_state_version a = Some state_version \<and> \<not> asr_generation_unknown a
                 \<and> asr_outcome a = ''accepted'') (sv_assessments db)
     then Inr () else Inl ReqConflict))"

definition updated_row :: "requirement \<Rightarrow> int \<Rightarrow> int \<Rightarrow> nat \<Rightarrow> requirement_row \<Rightarrow> requirement_row" where
  "updated_row r revision state_version now row =
     row\<lparr>rw_title := req_title r, rw_description := req_description r, rw_summary := req_summary r,
         rw_acceptance_criteria := req_acceptance_criteria r, rw_assumptions := req_assumptions r,
         rw_open_questions := req_open_questions r, rw_status := persisted_status (req_status r),
         rw_revision := revision, rw_state_version := state_version, rw_updated_at := now\<rparr>"

definition update_requirement ::
  "store_env \<Rightarrow> requirement \<Rightarrow> u64 \<Rightarrow> nat \<Rightarrow> server_db \<Rightarrow> requirement_error + requirement_row \<times> server_db" where
  "update_requirement env r expected now db =
     and_then (i64_try ReqInvalidRevision (req_revision r)) (\<lambda>revision.
     and_then (i64_try ReqInvalidStateVersion (req_state_version r)) (\<lambda>state_version.
     and_then (i64_try ReqInvalidStateVersion expected) (\<lambda>expected.
     case find (\<lambda>row. rw_id row = req_id r \<and> rw_state_version row = expected) (sv_requirements db) of
       None \<Rightarrow> Inl ReqConflict
     | Some row \<Rightarrow>
         (let row' = updated_row r revision state_version now row in
          if \<not> st_row_ok env row' then Inl (ReqDatabase ''check constraint'')
          else Inr (row', db\<lparr>sv_requirements :=
                 update_first (\<lambda>row. rw_id row = req_id r \<and> rw_state_version row = expected) (\<lambda>_. row')
                   (sv_requirements db)\<rparr>)))))"

definition insert_audit :: "store_env \<Rightarrow> audit_row \<Rightarrow> server_db \<Rightarrow> requirement_error + server_db" where
  "insert_audit env a db =
     (if (case au_feedback a of None \<Rightarrow> False | Some f \<Rightarrow> \<not> st_feedback_ok env f) then Inl (ReqDatabase ''check constraint'')
      else Inr (db\<lparr>sv_audit := sv_audit db @ [a]\<rparr>))"

definition check_packet ::
  "requirement_transition \<Rightarrow> string option \<Rightarrow> requirement \<Rightarrow> server_db \<Rightarrow> requirement_error + unit" where
  "check_packet t assessment_id r db =
     (if t \<in> {TAccept, TReject, TRequestChanges}
      then (case assessment_id of
              None \<Rightarrow> Inl ReqConflict
            | Some i \<Rightarrow>
                if blank i then Inl ReqConflict
                else current_review_assessment (req_id r) (req_revision r) (req_state_version r) i db)
      else if assessment_id \<noteq> None then Inl ReqConflict
      else Inr ())"

definition transition_requirement_tx ::
  "store_env \<Rightarrow> string \<Rightarrow> u64 \<Rightarrow> string \<Rightarrow> requirement_transition \<Rightarrow> string option \<Rightarrow> string option \<Rightarrow> nat \<Rightarrow> server_db
   \<Rightarrow> requirement_error + requirement_row \<times> server_db" where
  "transition_requirement_tx env rid expected actor t feedback assessment_id now db =
     and_then (lock_requirement rid db) (\<lambda>row.
     and_then (to_domain row) (\<lambda>r.
     if req_state_version r \<noteq> expected then Inl ReqConflict
     else
       and_then (check_packet t assessment_id r db) (\<lambda>_.
       case apply_transition t r of
         (Inl e, _) \<Rightarrow> Inl e
       | (Inr _, r') \<Rightarrow>
           and_then (update_requirement env r' expected now db) (\<lambda>(updated, db).
           and_then (i64_try ReqInvalidStateVersion (req_state_version r')) (\<lambda>state_version.
           and_then (insert_audit env
             \<lparr>au_requirement_id = req_id r', au_actor_id = actor, au_transition = transition_as_str t,
              au_from_status = persisted_status (req_status r), au_to_status = persisted_status (req_status r'),
              au_feedback = feedback, au_assessment_id = assessment_id, au_state_version = state_version\<rparr> db) (\<lambda>db.
           Inr (updated, db)))))))"

definition transition_requirement_with_feedback ::
  "store_env \<Rightarrow> string \<Rightarrow> u64 \<Rightarrow> string \<Rightarrow> requirement_transition \<Rightarrow> string option \<Rightarrow> string option \<Rightarrow> nat \<Rightarrow> server_db
   \<Rightarrow> (requirement_error + requirement_record) \<times> server_db" where
  "transition_requirement_with_feedback env rid expected actor t feedback assessment_id now =
     run_tx (transition_requirement_tx env rid expected actor t feedback assessment_id now) into_record"

definition transition_requirement ::
  "store_env \<Rightarrow> string \<Rightarrow> u64 \<Rightarrow> string \<Rightarrow> requirement_transition \<Rightarrow> nat \<Rightarrow> server_db
   \<Rightarrow> (requirement_error + requirement_record) \<times> server_db" where
  "transition_requirement env rid expected actor t now =
     transition_requirement_with_feedback env rid expected actor t None None now"

text \<open>The value of the transaction is the record itself when nothing was edited, and otherwise the row that
  is converted after the commit.\<close>

definition edit_requirement_tx ::
  "store_env \<Rightarrow> string \<Rightarrow> u64 \<Rightarrow> string \<Rightarrow> requirement_edit \<Rightarrow> nat \<Rightarrow> server_db
   \<Rightarrow> requirement_error + (requirement_record + requirement_row) \<times> server_db" where
  "edit_requirement_tx env rid expected actor edit now db =
     and_then (lock_requirement rid db) (\<lambda>row.
     and_then (into_record row) (\<lambda>original.
     and_then (to_domain row) (\<lambda>r.
     if req_state_version r \<noteq> expected then Inl ReqConflict
     else
       (case apply_edit edit r of
          (Inl e, _) \<Rightarrow> Inl (ReqEdit e)
        | (Inr _, r') \<Rightarrow>
            if req_state_version r' = expected then Inr (Inl original, db)
            else
              and_then (update_requirement env r' expected now db) (\<lambda>(updated, db).
              if req_status r = Ready
              then and_then (i64_try ReqInvalidStateVersion (req_state_version r')) (\<lambda>state_version.
                   and_then (insert_audit env
                     \<lparr>au_requirement_id = req_id r', au_actor_id = actor, au_transition = ''edit_demotes_ready'',
                      au_from_status = persisted_status Ready, au_to_status = persisted_status (req_status r'),
                      au_feedback = None, au_assessment_id = None, au_state_version = state_version\<rparr> db) (\<lambda>db.
                   Inr (Inr updated, db)))
              else Inr (Inr updated, db))))))"

definition edit_requirement_with_actor ::
  "store_env \<Rightarrow> string \<Rightarrow> u64 \<Rightarrow> string \<Rightarrow> requirement_edit \<Rightarrow> nat \<Rightarrow> server_db
   \<Rightarrow> (requirement_error + requirement_record) \<times> server_db" where
  "edit_requirement_with_actor env rid expected actor edit now =
     run_tx (edit_requirement_tx env rid expected actor edit now) (case_sum Inr into_record)"

definition edit_requirement ::
  "store_env \<Rightarrow> string \<Rightarrow> u64 \<Rightarrow> requirement_edit \<Rightarrow> nat \<Rightarrow> server_db
   \<Rightarrow> (requirement_error + requirement_record) \<times> server_db" where
  "edit_requirement env rid expected = edit_requirement_with_actor env rid expected ''system''"

section \<open>Lists of requirements\<close>

datatype requirement_sort = UpdatedAscending | UpdatedDescending

record requirement_list_query =
  lq_search :: "string option"
  lq_status :: "requirement_status option"
  lq_created_by :: "string option"
  lq_sort :: requirement_sort

definition array_to_string :: "string list \<Rightarrow> string" where
  "array_to_string xs = concat (case xs of [] \<Rightarrow> [] | y # ys \<Rightarrow> y # map (\<lambda>z. '' '' @ z) ys)"

definition query_matches :: "store_env \<Rightarrow> requirement_list_query \<Rightarrow> requirement_row \<Rightarrow> bool" where
  "query_matches env q row \<longleftrightarrow>
     (case lq_search q of
        None \<Rightarrow> True
      | Some s \<Rightarrow> list_ex (\<lambda>text. st_ilike env text (''%'' @ s @ ''%''))
          [rw_title row, rw_description row, rw_summary row, array_to_string (rw_acceptance_criteria row),
           array_to_string (rw_assumptions row), array_to_string (rw_open_questions row)])
     \<and> (case lq_status q of None \<Rightarrow> True | Some s \<Rightarrow> rw_status row = persisted_status s)
     \<and> (case lq_created_by q of None \<Rightarrow> True | Some u \<Rightarrow> rw_created_by row = u)"

definition list_requirements ::
  "store_env \<Rightarrow> requirement_list_query \<Rightarrow> server_db \<Rightarrow> requirement_error + requirement_record list" where
  "list_requirements env q db =
     collect_results (map into_record
       (sort_key (\<lambda>row. case lq_sort q of UpdatedAscending \<Rightarrow> int (rw_updated_at row)
                                       | UpdatedDescending \<Rightarrow> - int (rw_updated_at row))
         (sort_key rw_id (filter (query_matches env q) (sv_requirements db)))))"

end
