(* ===== verification/Auth_Store.thy ===== *)
theory Auth_Store
  imports Requirement_Store
begin

text \<open>
  Sign-in: \<open>OtpKey\<close> and the \<open>AuthStore\<close> transactions on verification codes, users and sessions of
  \<open>north-persistence/src/lib.rs\<close>.

  \<^item> The tables are lists of rows. A transaction is a function from the tables to an error or a value and
    the new tables; \<open>auth_tx\<close> commits. A verification that does not match commits its count and then
    reports the error. Transactions run one after the other.
  \<^item> HMAC-SHA-256 and SHA-256 are the parameters \<open>ax_hmac\<close> and \<open>ax_sha256\<close>. Byte strings are \<open>char list\<close>s.
  \<^item> A panic is the value \<open>Panicked\<close>; the transaction is dropped.
  \<^item> The sequence of the code identities is the column \<open>ad_next_code_id\<close>. Times are microseconds.
\<close>

section \<open>The key\<close>

datatype otp_key_error = KeyMissing | KeyInvalidEncoding | KeyInvalidLength | KeyInvalidHex

definition OTP_HMAC_KEY_HEX_LENGTH :: nat where "OTP_HMAC_KEY_HEX_LENGTH = 64"

definition hex_value :: "char \<Rightarrow> nat option" where
  "hex_value c =
     (if CHR ''0'' \<le> c \<and> c \<le> CHR ''9'' then Some (of_char c - of_char CHR ''0'')
      else if CHR ''a'' \<le> c \<and> c \<le> CHR ''f'' then Some (of_char c - of_char CHR ''a'' + 10)
      else if CHR ''A'' \<le> c \<and> c \<le> CHR ''F'' then Some (of_char c - of_char CHR ''A'' + 10)
      else None)"

text \<open>The loop over the pairs of \<open>from_hex\<close>.\<close>

fun hex_pairs :: "string \<Rightarrow> otp_key_error + nat list" where
  "hex_pairs (high # low # rest) =
     (case hex_value high of
        None \<Rightarrow> Inl KeyInvalidHex
      | Some h \<Rightarrow>
          (case hex_value low of
             None \<Rightarrow> Inl KeyInvalidHex
           | Some l \<Rightarrow> and_then (hex_pairs rest) (\<lambda>bytes. Inr ((16 * h + l) # bytes))))"
| "hex_pairs _ = Inr []"

definition from_hex :: "string \<Rightarrow> otp_key_error + nat list" where
  "from_hex value = (if length value \<noteq> OTP_HMAC_KEY_HEX_LENGTH then Inl KeyInvalidLength else hex_pairs value)"

datatype env_var = VarMissing | VarNotUnicode | VarSet string

definition from_env :: "env_var \<Rightarrow> otp_key_error + nat list" where
  "from_env v = (case v of VarMissing \<Rightarrow> Inl KeyMissing | VarNotUnicode \<Rightarrow> Inl KeyInvalidEncoding | VarSet s \<Rightarrow> from_hex s)"

section \<open>The MAC of a code\<close>

record auth_env =
  ax_hmac :: "nat list \<Rightarrow> string \<Rightarrow> string"
  ax_sha256 :: "string \<Rightarrow> string"
  ax_key :: "nat list"

fun be_bytes :: "nat \<Rightarrow> nat \<Rightarrow> string" where
  "be_bytes 0 n = []"
| "be_bytes (Suc k) n = be_bytes k (n div 256) @ [char_of (n mod 256)]"

text \<open>\<open>u32::try_from\<close> panics when the component is too long.\<close>

definition append_len_prefixed :: "string \<Rightarrow> string \<Rightarrow> string option" where
  "append_len_prefixed output value = (if length value < 2 ^ 32 then Some (output @ be_bytes 4 (length value) @ value) else None)"

definition otp_context :: string where
  "otp_context = ''north/otp/verification-code/v1'' @ [CHR 0x00]"

definition otp_message :: "string \<Rightarrow> int \<Rightarrow> string \<Rightarrow> string option" where
  "otp_message email cid code =
     (if cid < 0 then None
      else Option.bind (append_len_prefixed otp_context email)
             (\<lambda>m. append_len_prefixed (m @ be_bytes 8 (nat cid)) code))"

definition otp_digest :: "auth_env \<Rightarrow> string \<Rightarrow> int \<Rightarrow> string \<Rightarrow> string option" where
  "otp_digest env email cid code = map_option (ax_hmac env (ax_key env)) (otp_message email cid code)"

definition hash_secret :: "auth_env \<Rightarrow> string \<Rightarrow> string" where
  "hash_secret env secret = ax_sha256 env secret"

section \<open>Tables\<close>

definition VERIFICATION_CODE_TTL_SECONDS :: nat where "VERIFICATION_CODE_TTL_SECONDS = 10 * 60"
definition VERIFICATION_CODE_MAX_ATTEMPTS :: int where "VERIFICATION_CODE_MAX_ATTEMPTS = 5"
definition CODE_REQUEST_COOLDOWN_SECONDS :: nat where "CODE_REQUEST_COOLDOWN_SECONDS = 60"
definition SESSION_TTL_SECONDS :: nat where "SESSION_TTL_SECONDS = 30 * 24 * 60 * 60"

record verification_code_row =
  vc_id :: int
  vc_email :: string
  vc_code_hash :: string
  vc_failed_attempts :: int
  vc_expires_at :: nat
  vc_used_at :: "nat option"
  vc_created_at :: nat

record user_row =
  ur_id :: string
  ur_email :: string
  ur_role :: string

record auth_session_row =
  ss_id :: string
  ss_user_id :: string
  ss_token_hash :: string
  ss_expires_at :: nat
  ss_invalidated_at :: "nat option"

record auth_db =
  ad_codes :: "verification_code_row list"
  ad_next_code_id :: int
  ad_users :: "user_row list"
  ad_sessions :: "auth_session_row list"
  ad_owner_user_id :: "string option"

record user_record =
  us_id :: string
  us_email :: string
  us_role :: role

record authenticated_session =
  au_user :: user_record
  au_token :: string

datatype auth_fault = Refused persistence_error | Panicked

definition persisted_role :: "role \<Rightarrow> string" where
  "persisted_role r = (case r of Owner \<Rightarrow> ''Owner'' | Admin \<Rightarrow> ''Admin'' | RequirementManager \<Rightarrow> ''RequirementManager''
     | Requester \<Rightarrow> ''Requester'')"

definition user_into_domain :: "user_row \<Rightarrow> persistence_error + user_record" where
  "user_into_domain u =
     and_then (if ur_role u = ''Owner'' then Inr Owner else if ur_role u = ''Admin'' then Inr Admin
               else if ur_role u = ''RequirementManager'' then Inr RequirementManager
               else if ur_role u = ''Requester'' then Inr Requester else Inl (InvalidRole (ur_role u))) (\<lambda>r.
     Inr \<lparr>us_id = ur_id u, us_email = ur_email u, us_role = r\<rparr>)"

section \<open>Codes\<close>

definition recently_requested :: "nat \<Rightarrow> string \<Rightarrow> auth_db \<Rightarrow> bool" where
  "recently_requested now email db \<longleftrightarrow>
     list_ex (\<lambda>c. vc_email c = email \<and> now < vc_created_at c + CODE_REQUEST_COOLDOWN_SECONDS * 1000000) (ad_codes db)"

definition supersede :: "nat \<Rightarrow> string \<Rightarrow> verification_code_row \<Rightarrow> verification_code_row" where
  "supersede now email c = (if vc_email c = email \<and> vc_used_at c = None then c\<lparr>vc_used_at := Some now\<rparr> else c)"

definition new_code :: "nat \<Rightarrow> string \<Rightarrow> int \<Rightarrow> string \<Rightarrow> verification_code_row" where
  "new_code now email cid digest =
     \<lparr>vc_id = cid, vc_email = email, vc_code_hash = digest, vc_failed_attempts = 0,
      vc_expires_at = now + VERIFICATION_CODE_TTL_SECONDS * 1000000, vc_used_at = None, vc_created_at = now\<rparr>"

text \<open>A value drawn from the sequence stays drawn when the transaction is dropped afterwards.\<close>

definition issue_code :: "auth_env \<Rightarrow> nat \<Rightarrow> string \<Rightarrow> string \<Rightarrow> auth_db \<Rightarrow> (auth_fault + unit) \<times> auth_db" where
  "issue_code env now email code db =
     (if recently_requested now email db then (Inl (Refused RateLimited), db)
      else
        (let codes = map (supersede now email) (ad_codes db);
             cid = ad_next_code_id db;
             db' = db\<lparr>ad_next_code_id := cid + 1\<rparr> in
         case otp_digest env email cid code of
           None \<Rightarrow> (Inl Panicked, db')
         | Some digest \<Rightarrow>
             if list_ex (\<lambda>c. vc_id c = cid) codes then (Inl (Refused (Database ''duplicate key'')), db')
             else (Inr (), db'\<lparr>ad_codes := codes @ [new_code now email cid digest]\<rparr>)))"

text \<open>The query of \<open>verify_code\<close>: \<open>ORDER BY created_at DESC LIMIT 1\<close>.\<close>

definition usable :: "nat \<Rightarrow> string \<Rightarrow> verification_code_row \<Rightarrow> bool" where
  "usable now email c \<longleftrightarrow> vc_email c = email \<and> vc_used_at c = None \<and> now < vc_expires_at c"

definition active_code :: "nat \<Rightarrow> string \<Rightarrow> auth_db \<Rightarrow> verification_code_row option" where
  "active_code now email db =
     (case filter (usable now email) (ad_codes db) of [] \<Rightarrow> None | cs \<Rightarrow> Some (last (sort_key vc_created_at cs)))"

definition i32_saturating_inc :: "int \<Rightarrow> int" where
  "i32_saturating_inc n = min (n + 1) (2 ^ 31 - 1)"

definition fail_code :: "nat \<Rightarrow> verification_code_row \<Rightarrow> verification_code_row \<Rightarrow> verification_code_row" where
  "fail_code now row c =
     (if vc_id c = vc_id row \<and> vc_used_at c = None
      then (let failed = i32_saturating_inc (vc_failed_attempts row)
            in c\<lparr>vc_failed_attempts := failed, vc_used_at := (if VERIFICATION_CODE_MAX_ATTEMPTS \<le> failed then Some now else vc_used_at c)\<rparr>)
      else c)"

definition consume_code :: "nat \<Rightarrow> verification_code_row \<Rightarrow> verification_code_row \<Rightarrow> verification_code_row" where
  "consume_code now row c = (if vc_id c = vc_id row \<and> vc_used_at c = None then c\<lparr>vc_used_at := Some now\<rparr> else c)"

text \<open>\<open>INSERT INTO users ... ON CONFLICT (email) DO NOTHING\<close>\<close>

definition ensure_user :: "string \<Rightarrow> string \<Rightarrow> auth_db \<Rightarrow> auth_fault + auth_db" where
  "ensure_user user_id email db =
     (if list_ex (\<lambda>u. ur_email u = email) (ad_users db) then Inr db
      else if list_ex (\<lambda>u. ur_id u = user_id) (ad_users db) then Inl (Refused (Database ''duplicate key''))
      else Inr (db\<lparr>ad_users := ad_users db @ [\<lparr>ur_id = user_id, ur_email = email, ur_role = ''Requester''\<rparr>]\<rparr>))"

definition claim_owner :: "user_record \<Rightarrow> auth_db \<Rightarrow> user_record \<times> auth_db" where
  "claim_owner user db =
     (if ad_owner_user_id db = None
      then (user\<lparr>us_role := Owner\<rparr>,
            db\<lparr>ad_owner_user_id := Some (us_id user),
               ad_users := map (\<lambda>u. if ur_id u = us_id user then u\<lparr>ur_role := ''Owner''\<rparr> else u) (ad_users db)\<rparr>)
      else (user, db))"

definition insert_auth_session :: "auth_session_row \<Rightarrow> auth_db \<Rightarrow> auth_fault + auth_db" where
  "insert_auth_session s db =
     (if list_ex (\<lambda>x. ss_id x = ss_id s \<or> ss_token_hash x = ss_token_hash s) (ad_sessions db)
      then Inl (Refused (Database ''duplicate key''))
      else Inr (db\<lparr>ad_sessions := ad_sessions db @ [s]\<rparr>))"

definition open_session ::
  "auth_env \<Rightarrow> (nat \<Rightarrow> nat) \<Rightarrow> (nat \<Rightarrow> nat) \<Rightarrow> (nat \<Rightarrow> nat) \<Rightarrow> nat \<Rightarrow> string \<Rightarrow> auth_db \<Rightarrow> auth_fault + authenticated_session \<times> auth_db" where
  "open_session env rnd1 rnd2 rnd3 now email db =
     and_then (ensure_user (random_hex 16 rnd1) email db) (\<lambda>db.
     case find (\<lambda>u. ur_email u = email) (ad_users db) of
       None \<Rightarrow> Inl (Refused (Database ''row not found''))
     | Some row \<Rightarrow>
         and_then (map_err Refused (user_into_domain row)) (\<lambda>user.
         case claim_owner user db of
           (user, db) \<Rightarrow>
             (let token = random_hex 32 rnd2 in
              and_then (insert_auth_session
                \<lparr>ss_id = random_hex 16 rnd3, ss_user_id = us_id user, ss_token_hash = hash_secret env token,
                 ss_expires_at = now + SESSION_TTL_SECONDS * 1000000, ss_invalidated_at = None\<rparr> db) (\<lambda>db.
              Inr (\<lparr>au_user = user, au_token = token\<rparr>, db)))))"

definition verify_code_tx ::
  "auth_env \<Rightarrow> (nat \<Rightarrow> nat) \<Rightarrow> (nat \<Rightarrow> nat) \<Rightarrow> (nat \<Rightarrow> nat) \<Rightarrow> nat \<Rightarrow> string \<Rightarrow> string \<Rightarrow> auth_db
   \<Rightarrow> auth_fault + (auth_fault + authenticated_session) \<times> auth_db" where
  "verify_code_tx env rnd1 rnd2 rnd3 now email code db =
     (case active_code now email db of
        None \<Rightarrow> Inl (Refused InvalidCode)
      | Some row \<Rightarrow>
          (case otp_digest env (vc_email row) (vc_id row) code of
             None \<Rightarrow> Inl Panicked
           | Some candidate \<Rightarrow>
               if vc_code_hash row \<noteq> candidate
               then Inr (Inl (Refused InvalidCode), db\<lparr>ad_codes := map (fail_code now row) (ad_codes db)\<rparr>)
               else if length (filter (\<lambda>c. vc_id c = vc_id row \<and> vc_used_at c = None) (ad_codes db)) \<noteq> 1
               then Inl (Refused InvalidCode)
               else
                 and_then (open_session env rnd1 rnd2 rnd3 now email (db\<lparr>ad_codes := map (consume_code now row) (ad_codes db)\<rparr>)) (\<lambda>(s, db).
                 Inr (Inr s, db))))"

definition auth_tx :: "(auth_db \<Rightarrow> auth_fault + 'a \<times> auth_db) \<Rightarrow> ('a \<Rightarrow> auth_fault + 'b) \<Rightarrow> auth_db \<Rightarrow> (auth_fault + 'b) \<times> auth_db" where
  "auth_tx tx after db = (case tx db of Inl e \<Rightarrow> (Inl e, db) | Inr (a, db') \<Rightarrow> (after a, db'))"

definition verify_code ::
  "auth_env \<Rightarrow> (nat \<Rightarrow> nat) \<Rightarrow> (nat \<Rightarrow> nat) \<Rightarrow> (nat \<Rightarrow> nat) \<Rightarrow> nat \<Rightarrow> string \<Rightarrow> string \<Rightarrow> auth_db
   \<Rightarrow> (auth_fault + authenticated_session) \<times> auth_db" where
  "verify_code env rnd1 rnd2 rnd3 now email code = auth_tx (verify_code_tx env rnd1 rnd2 rnd3 now email code) id"

section \<open>Sessions and users\<close>

definition user_for_session :: "auth_env \<Rightarrow> nat \<Rightarrow> string \<Rightarrow> auth_db \<Rightarrow> persistence_error + user_record option" where
  "user_for_session env now token db =
     (case find (\<lambda>s. ss_token_hash s = hash_secret env token \<and> ss_invalidated_at s = None \<and> now < ss_expires_at s
              \<and> list_ex (\<lambda>u. ur_id u = ss_user_id s) (ad_users db)) (ad_sessions db) of
        None \<Rightarrow> Inr None
      | Some s \<Rightarrow>
          (case find (\<lambda>u. ur_id u = ss_user_id s) (ad_users db) of
             None \<Rightarrow> Inr None
           | Some u \<Rightarrow> map_sum id Some (user_into_domain u)))"

definition list_users :: "auth_db \<Rightarrow> persistence_error + user_record list" where
  "list_users db = collect_results (map user_into_domain (sort_key ur_email (sort_key ur_id (ad_users db))))"

definition user_by_id :: "string \<Rightarrow> auth_db \<Rightarrow> persistence_error + user_record option" where
  "user_by_id uid db =
     (case find (\<lambda>u. ur_id u = uid) (ad_users db) of None \<Rightarrow> Inr None | Some u \<Rightarrow> map_sum id Some (user_into_domain u))"

definition update_user_role :: "string \<Rightarrow> role \<Rightarrow> auth_db \<Rightarrow> (persistence_error + user_record option) \<times> auth_db" where
  "update_user_role uid r db =
     (let db' = db\<lparr>ad_users := map (\<lambda>u. if ur_id u = uid then u\<lparr>ur_role := persisted_role r\<rparr> else u) (ad_users db)\<rparr>
      in (user_by_id uid db', db'))"

definition invalidate_session :: "auth_env \<Rightarrow> nat \<Rightarrow> string \<Rightarrow> auth_db \<Rightarrow> auth_db" where
  "invalidate_session env now token db =
     db\<lparr>ad_sessions := map (\<lambda>s. if ss_token_hash s = hash_secret env token \<and> ss_invalidated_at s = None
                                then s\<lparr>ss_invalidated_at := Some now\<rparr> else s) (ad_sessions db)\<rparr>"

end
