(* ===== verification/Readiness_Store.thy ===== *)
theory Readiness_Store
  imports Requirement_Store
begin

text \<open>
  \<open>north-persistence/src/readiness.rs\<close>: readiness assessments as immutable evidence, the promotion to
  \<open>Ready\<close> in the same transaction, and the review packet of a requirement.
  The conventions are those of \<open>Requirement_Store\<close>; JSON values are those of \<open>Server_Delivery\<close>.
\<close>

section \<open>Values\<close>

datatype assessment_outcome = OutcomeAccepted | OutcomeRejected

datatype readiness_error =
    RdDatabase string
  | RdRequirementNotFound
  | RdInvalidStatus string
  | RdInvalidRevision
  | RdInvalidOutcome string
  | RdInvalidEvidence
  | RdSequenceConflict
  | RdEventIdentityConflict
  | RdSessionRequirementMismatch
  | RdSequenceGap u64 u64
  | RdStaleAssessment u64 u64
  | RdStaleStateVersion u64 u64
  | RdNotReady

definition assessment_outcome_as_str :: "assessment_outcome \<Rightarrow> string" where
  "assessment_outcome_as_str out = (case out of OutcomeAccepted \<Rightarrow> ''accepted'' | OutcomeRejected \<Rightarrow> ''rejected'')"

definition outcome_from_persisted :: "string \<Rightarrow> readiness_error + assessment_outcome" where
  "outcome_from_persisted v =
     (if v = ''accepted'' then Inr OutcomeAccepted else if v = ''rejected'' then Inr OutcomeRejected
      else Inl (RdInvalidOutcome v))"

record readiness_assessment_record =
  ar_id :: string
  ar_event_id :: string
  ar_session_id :: string
  ar_daemon_event_seq :: u64
  ar_event_requirement_id :: string
  ar_requirement_id :: "string option"
  ar_assessment :: readiness_assessment
  ar_outcome :: assessment_outcome
  ar_accepted_state_version :: "u64 option"
  ar_rejection_reason :: "string option"
  ar_created_at :: nat

record readiness_assessment_result =
  rar_record :: readiness_assessment_record
  rar_duplicate :: bool

record assessment_event =
  ae_event_id :: string
  ae_session_id :: string
  ae_daemon_event_seq :: u64

definition readiness_error_of :: "requirement_error \<Rightarrow> readiness_error" where
  "readiness_error_of e =
     (case e of
        ReqDatabase m \<Rightarrow> RdDatabase m
      | ReqNotFound \<Rightarrow> RdRequirementNotFound
      | ReqInvalidStatus s \<Rightarrow> RdInvalidStatus s
      | ReqInvalidRevision \<Rightarrow> RdInvalidRevision
      | _ \<Rightarrow> RdInvalidEvidence)"

definition persisted_verdict :: "verdict \<Rightarrow> string" where
  "persisted_verdict v = (case v of VerdictReady \<Rightarrow> ''ready'' | NeedsClarification \<Rightarrow> ''needs_clarification'')"

definition mark_ready_reason :: "mark_ready_error \<Rightarrow> string" where
  "mark_ready_reason e =
     (case e of
        MR_StaleAssessment assessed current \<Rightarrow>
          ''stale_assessment:'' @ show_nat (unat assessed) @ ''!='' @ show_nat (unat current)
      | VerdictNotReady \<Rightarrow> ''verdict_not_ready''
      | BlockersPresent \<Rightarrow> ''blockers_present''
      | MissingAcceptanceCriteria \<Rightarrow> ''missing_acceptance_criteria''
      | MR_Transition t \<Rightarrow>
          ''invalid_transition:'' @ persisted_status (it_from t) @ ''->'' @ persisted_status (it_to t))"

definition same_assessment_content :: "readiness_assessment \<Rightarrow> readiness_assessment \<Rightarrow> bool" where
  "same_assessment_content a b \<longleftrightarrow>
     ra_requirement_revision a = ra_requirement_revision b \<and> ra_verdict a = ra_verdict b
     \<and> ra_blockers a = ra_blockers b \<and> ra_assumptions a = ra_assumptions b
     \<and> ra_repositories_reviewed a = ra_repositories_reviewed b"

section \<open>JSON of the evidence\<close>

definition json_get :: "string \<Rightarrow> json \<Rightarrow> json option" where
  "json_get k v = (case v of JObject members \<Rightarrow> map_of members k | _ \<Rightarrow> None)"

definition json_str :: "json \<Rightarrow> string option" where
  "json_str v = (case v of JString s \<Rightarrow> Some s | _ \<Rightarrow> None)"

definition json_array :: "json \<Rightarrow> json list option" where
  "json_array v = (case v of JArray xs \<Rightarrow> Some xs | _ \<Rightarrow> None)"

definition reviewed_json :: "reviewed_repository \<Rightarrow> json" where
  "reviewed_json r = JObject [(''repository_id'', JString (rr_repository_id r)), (''commit_sha'', JString (rr_commit_sha r))]"

definition string_member :: "string \<Rightarrow> (string \<Rightarrow> bool) \<Rightarrow> json \<Rightarrow> readiness_error + string" where
  "string_member k p v =
     (case Option.bind (json_get k v) json_str of
        None \<Rightarrow> Inl RdInvalidEvidence
      | Some s \<Rightarrow> if p s then Inr s else Inl RdInvalidEvidence)"

definition reviewed_of_json :: "json \<Rightarrow> readiness_error + reviewed_repository" where
  "reviewed_of_json v =
     and_then (string_member ''repository_id'' (\<lambda>s. s \<noteq> []) v) (\<lambda>repository_id.
     and_then (string_member ''commit_sha'' complete_commit_sha v) (\<lambda>commit_sha.
     Inr \<lparr>rr_repository_id = repository_id, rr_commit_sha = commit_sha\<rparr>))"

definition verdict_of :: "string \<Rightarrow> readiness_error + verdict" where
  "verdict_of v =
     (if v = ''ready'' then Inr VerdictReady
      else if v = ''needs_clarification'' then Inr NeedsClarification
      else Inl RdInvalidEvidence)"

definition assessment_into_record :: "assessment_row \<Rightarrow> readiness_error + readiness_assessment_record" where
  "assessment_into_record row =
     and_then (case json_array (asr_repositories_reviewed row) of
                 None \<Rightarrow> Inl RdInvalidEvidence
               | Some vs \<Rightarrow> collect_results (map reviewed_of_json vs)) (\<lambda>repositories.
     and_then (u64_try RdInvalidEvidence (asr_daemon_event_seq row)) (\<lambda>seq.
     and_then (u64_try RdInvalidRevision (asr_requirement_revision row)) (\<lambda>revision.
     and_then (verdict_of (asr_verdict row)) (\<lambda>v.
     and_then (u64_try RdInvalidEvidence (asr_assessed_at_ms row)) (\<lambda>assessed.
     and_then (outcome_from_persisted (asr_outcome row)) (\<lambda>out.
     and_then (case asr_accepted_state_version row of
                 None \<Rightarrow> Inr None
               | Some n \<Rightarrow> map_sum id Some (u64_try RdInvalidEvidence n)) (\<lambda>accepted.
     Inr \<lparr>ar_id = asr_id row, ar_event_id = asr_event_id row, ar_session_id = asr_session_id row, ar_daemon_event_seq = seq,
          ar_event_requirement_id = asr_event_requirement_id row, ar_requirement_id = asr_requirement_id row,
          ar_assessment = \<lparr>ra_requirement_revision = revision, ra_verdict = v, ra_blockers = asr_blockers row,
             ra_assumptions = asr_assumptions row, ra_repositories_reviewed = repositories, ra_assessed_at_ms = assessed\<rparr>,
          ar_outcome = out, ar_accepted_state_version = accepted, ar_rejection_reason = asr_rejection_reason row,
          ar_created_at = asr_created_at row\<rparr>)))))))"

definition readiness_event_digest ::
  "digest_env \<Rightarrow> string \<Rightarrow> string \<Rightarrow> u64 \<Rightarrow> string \<Rightarrow> readiness_assessment \<Rightarrow> readiness_error + string" where
  "readiness_event_digest dg event_id session_id seq rid a =
     (let value = JObject [
        (''event_id'', JString event_id), (''session_id'', JString session_id),
        (''daemon_event_seq'', JNumber (show_nat (unat seq))), (''requirement_id'', JString rid),
        (''assessment'', JObject [
           (''requirement_revision'', JNumber (show_nat (unat (ra_requirement_revision a)))),
           (''verdict'', JString (persisted_verdict (ra_verdict a))),
           (''blockers'', JArray (map JString (ra_blockers a))),
           (''assumptions'', JArray (map JString (ra_assumptions a))),
           (''repositories_reviewed'', JArray (map reviewed_json (ra_repositories_reviewed a)))])]
      in case dg_to_vec dg value of None \<Rightarrow> Inl RdInvalidEvidence | Some bytes \<Rightarrow> Inr (dg_sha256_hex dg bytes))"

section \<open>Queries\<close>

definition readiness_event_by_id :: "string \<Rightarrow> server_db \<Rightarrow> event_receipt_row option" where
  "readiness_event_by_id event_id db = find (\<lambda>r. ev_event_id r = event_id) (sv_events db)"

definition assessment_by_event :: "string \<Rightarrow> server_db \<Rightarrow> assessment_row option" where
  "assessment_by_event event_id db = find (\<lambda>a. asr_event_id a = event_id) (sv_assessments db)"

definition assessment_by_sequence :: "string \<Rightarrow> int \<Rightarrow> server_db \<Rightarrow> assessment_row option" where
  "assessment_by_sequence sid seq db =
     find (\<lambda>a. asr_session_id a = sid \<and> asr_daemon_event_seq a = seq) (sv_assessments db)"

definition repository_citations_exist :: "string list \<Rightarrow> reviewed_repository list \<Rightarrow> server_db \<Rightarrow> bool" where
  "repository_citations_exist session_repository_ids repositories db \<longleftrightarrow>
     list_all (\<lambda>r. rr_repository_id r \<in> set session_repository_ids
                 \<and> rr_repository_id r \<in> fst ` set (sv_repositories db)) repositories"

definition insert_event_dedupe ::
  "assessment_event \<Rightarrow> int \<Rightarrow> string \<Rightarrow> assessment_outcome \<Rightarrow> string option \<Rightarrow> server_db \<Rightarrow> readiness_error + server_db" where
  "insert_event_dedupe ev seq digest out reason db =
     (if list_ex (\<lambda>r. ev_event_id r = ae_event_id ev
            \<or> (ev_session_id r = ae_session_id ev \<and> ev_daemon_event_seq r = seq)) (sv_events db)
      then Inl (RdDatabase ''duplicate key'')
      else Inr (db\<lparr>sv_events := sv_events db @
             [\<lparr>ev_event_id = ae_event_id ev, ev_session_id = ae_session_id ev, ev_daemon_event_seq = seq,
               ev_payload_digest = digest, ev_payload = digest, ev_outcome = assessment_outcome_as_str out,
               ev_rejection_reason = reason\<rparr>]\<rparr>))"

definition on_session :: "string \<Rightarrow> (execution_session \<Rightarrow> execution_session) \<Rightarrow> server_db \<Rightarrow> server_db" where
  "on_session s g db = db\<lparr>sv_sessions := map (\<lambda>(k, x). if k = s then (k, g x) else (k, x)) (sv_sessions db)\<rparr>"

definition advance_session_watermark :: "string \<Rightarrow> int \<Rightarrow> server_db \<Rightarrow> readiness_error + server_db" where
  "advance_session_watermark s seq db =
     (case map_of (sv_sessions db) s of
        None \<Rightarrow> Inl (RdDatabase ''row not found'')
      | Some cursor \<Rightarrow>
          (let (through, sparse) = absorb_sparse (max (es_event_ack_through_seq cursor) seq) (es_event_ack_sparse cursor)
           in Inr (on_session s (\<lambda>x. x\<lparr>es_event_ack_through_seq := through,
                     es_event_ack_sparse := filter (\<lambda>v. through < v) sparse\<rparr>) db)))"

text \<open>The unique keys of \<open>readiness_assessments\<close>: the identity, the event, the place in the session, and
  the accepted generation of a requirement.\<close>

definition assessment_conflict :: "assessment_row \<Rightarrow> assessment_row \<Rightarrow> bool" where
  "assessment_conflict a b \<longleftrightarrow>
     asr_id a = asr_id b \<or> asr_event_id a = asr_event_id b
     \<or> (asr_session_id a = asr_session_id b \<and> asr_daemon_event_seq a = asr_daemon_event_seq b)
     \<or> (asr_outcome a = ''accepted'' \<and> asr_outcome b = ''accepted'' \<and> \<not> asr_generation_unknown a \<and> \<not> asr_generation_unknown b
        \<and> asr_requirement_id a \<noteq> None \<and> asr_requirement_id a = asr_requirement_id b
        \<and> asr_accepted_state_version a \<noteq> None \<and> asr_accepted_state_version a = asr_accepted_state_version b)"

record assessment_insert =
  ai_event :: assessment_event
  ai_event_requirement_id :: string
  ai_requirement_id :: "string option"
  ai_assessment :: readiness_assessment
  ai_outcome :: assessment_outcome
  ai_accepted_state_version :: "u64 option"
  ai_rejection_reason :: "string option"

definition insert_assessment ::
  "(nat \<Rightarrow> nat) \<Rightarrow> nat \<Rightarrow> assessment_insert \<Rightarrow> server_db \<Rightarrow> readiness_error + assessment_row \<times> server_db" where
  "insert_assessment rnd now i db =
     (let a = ai_assessment i in
      and_then (i64_try RdInvalidEvidence (ra_assessed_at_ms a)) (\<lambda>assessed.
      and_then (i64_try RdInvalidRevision (ra_requirement_revision a)) (\<lambda>revision.
      and_then (i64_try RdInvalidEvidence (ae_daemon_event_seq (ai_event i))) (\<lambda>seq.
      and_then (case ai_accepted_state_version i of
                  None \<Rightarrow> Inr None
                | Some v \<Rightarrow> map_sum id Some (i64_try RdInvalidEvidence v)) (\<lambda>accepted.
      let row = \<lparr>asr_id = random_hex 16 rnd, asr_event_id = ae_event_id (ai_event i), asr_session_id = ae_session_id (ai_event i),
                 asr_daemon_event_seq = seq, asr_event_requirement_id = ai_event_requirement_id i,
                 asr_requirement_id = ai_requirement_id i, asr_requirement_revision = revision,
                 asr_verdict = persisted_verdict (ra_verdict a), asr_blockers = ra_blockers a,
                 asr_assumptions = ra_assumptions a,
                 asr_repositories_reviewed = JArray (map reviewed_json (ra_repositories_reviewed a)),
                 asr_outcome = assessment_outcome_as_str (ai_outcome i), asr_accepted_state_version = accepted,
                 asr_rejection_reason = ai_rejection_reason i, asr_assessed_at_ms = assessed,
                 asr_generation_unknown = False, asr_created_at = now\<rparr>
      in if list_ex (assessment_conflict row) (sv_assessments db) then Inl (RdDatabase ''duplicate key'')
         else Inr (row, db\<lparr>sv_assessments := sv_assessments db @ [row]\<rparr>))))))"

section \<open>Recording an assessment\<close>

definition assessment_input_ok :: "assessment_event \<Rightarrow> string \<Rightarrow> readiness_assessment \<Rightarrow> bool" where
  "assessment_input_ok ev digest a \<longleftrightarrow>
     \<not> blank (ae_event_id ev) \<and> \<not> blank (ae_session_id ev) \<and> \<not> blank digest \<and> ae_daemon_event_seq ev \<noteq> 0
     \<and> ra_requirement_revision a \<noteq> 0
     \<and> list_all (\<lambda>r. \<not> blank (rr_repository_id r) \<and> complete_commit_sha (rr_commit_sha r)) (ra_repositories_reviewed a)
     \<and> list_all (\<lambda>b. \<not> blank b) (ra_blockers a) \<and> list_all (\<lambda>b. \<not> blank b) (ra_assumptions a)"

text \<open>The part of the transaction behind the checks: the requirement is locked and judged, the evidence
  inserted, an accepted verdict carried out and audited, and the event marked as handled.\<close>

definition judge_assessment ::
  "execution_session \<Rightarrow> readiness_assessment \<Rightarrow> requirement \<Rightarrow> server_db
   \<Rightarrow> assessment_outcome \<times> string option \<times> requirement" where
  "judge_assessment session a r db =
     (if \<not> repository_citations_exist (es_repository_ids session) (ra_repositories_reviewed a) db
      then (OutcomeRejected, Some ''unknown_repository'', r)
      else (case mark_ready a r of
              (Inr _, r') \<Rightarrow> (OutcomeAccepted, None, r')
            | (Inl e, r') \<Rightarrow> (OutcomeRejected, Some (mark_ready_reason e), r')))"

definition finish_event ::
  "assessment_event \<Rightarrow> int \<Rightarrow> string \<Rightarrow> assessment_outcome \<Rightarrow> string option \<Rightarrow> server_db \<Rightarrow> readiness_error + server_db" where
  "finish_event ev seq digest out reason db =
     and_then (insert_event_dedupe ev seq digest out reason db) (advance_session_watermark (ae_session_id ev) seq)"

definition promote_requirement ::
  "store_env \<Rightarrow> requirement \<Rightarrow> u64 \<Rightarrow> string \<Rightarrow> string \<Rightarrow> nat \<Rightarrow> server_db \<Rightarrow> readiness_error + server_db" where
  "promote_requirement env r expected event_id assessment_id now db =
     and_then (map_err readiness_error_of (update_requirement env r expected now db)) (\<lambda>(_, db).
     and_then (i64_try RdInvalidEvidence (req_state_version r)) (\<lambda>state_version.
     map_err readiness_error_of (insert_audit env
       \<lparr>au_requirement_id = req_id r, au_actor_id = event_id, au_transition = ''mark_ready'',
        au_from_status = persisted_status Discussing, au_to_status = persisted_status (req_status r),
        au_feedback = None, au_assessment_id = Some assessment_id, au_state_version = state_version\<rparr> db)))"

definition settle_assessment ::
  "store_env \<Rightarrow> (nat \<Rightarrow> nat) \<Rightarrow> nat \<Rightarrow> assessment_event \<Rightarrow> int \<Rightarrow> string \<Rightarrow> readiness_assessment \<Rightarrow> string
   \<Rightarrow> execution_session \<Rightarrow> server_db \<Rightarrow> readiness_error + assessment_row \<times> server_db" where
  "settle_assessment env rnd now ev seq rid a digest session db =
     (case lock_requirement rid db of
        Inl ReqNotFound \<Rightarrow>
          and_then (insert_assessment rnd now
            \<lparr>ai_event = ev, ai_event_requirement_id = rid, ai_requirement_id = None, ai_assessment = a,
             ai_outcome = OutcomeRejected, ai_accepted_state_version = None,
             ai_rejection_reason = Some ''requirement_not_found''\<rparr> db) (\<lambda>(row, db).
          and_then (finish_event ev seq digest OutcomeRejected (Some ''requirement_not_found'') db) (\<lambda>db.
          Inr (row, db)))
      | Inl e \<Rightarrow> Inl (readiness_error_of e)
      | Inr locked \<Rightarrow>
          and_then (map_err readiness_error_of (to_domain locked)) (\<lambda>r.
          case judge_assessment session a r db of
            (out, reason, r') \<Rightarrow>
              and_then (insert_assessment rnd now
                \<lparr>ai_event = ev, ai_event_requirement_id = rid, ai_requirement_id = Some rid, ai_assessment = a,
                 ai_outcome = out,
                 ai_accepted_state_version = (if out = OutcomeAccepted then Some (req_state_version r') else None),
                 ai_rejection_reason = reason\<rparr> db) (\<lambda>(row, db).
              and_then (if out = OutcomeAccepted
                        then promote_requirement env r' (req_state_version r) (ae_event_id ev) (asr_id row) now db
                        else Inr db) (\<lambda>db.
              and_then (insert_event_dedupe ev seq digest out reason db) (\<lambda>db.
              and_then (advance_session_watermark (ae_session_id ev) seq
                  (on_session (ae_session_id ev) (\<lambda>s. s\<lparr>es_updated_at := now, es_last_activity_at := now\<rparr>) db)) (\<lambda>db.
              Inr (row, db)))))))"

definition record_assessment_tx ::
  "store_env \<Rightarrow> (nat \<Rightarrow> nat) \<Rightarrow> nat \<Rightarrow> assessment_event \<Rightarrow> string \<Rightarrow> readiness_assessment \<Rightarrow> string \<Rightarrow> server_db
   \<Rightarrow> readiness_error + (readiness_assessment_record + assessment_row) \<times> server_db" where
  "record_assessment_tx env rnd now ev rid a digest db =
     (if \<not> assessment_input_ok ev digest a then Inl RdInvalidEvidence
      else
        and_then (i64_try RdInvalidEvidence (ae_daemon_event_seq ev)) (\<lambda>seq.
        case map_of (sv_sessions db) (ae_session_id ev) of
          None \<Rightarrow> Inl RdSessionRequirementMismatch
        | Some session \<Rightarrow>
            if es_requirement_id session \<noteq> Some rid then Inl RdSessionRequirementMismatch
            else if (case readiness_event_by_id (ae_event_id ev) db of
                       None \<Rightarrow> False
                     | Some row \<Rightarrow> ev_session_id row \<noteq> ae_session_id ev \<or> ev_daemon_event_seq row \<noteq> seq
                         \<or> (ae_event_id ev \<notin> set (sv_legacy_events db) \<and> ev_payload_digest row \<noteq> digest))
            then Inl RdEventIdentityConflict
            else
              (case assessment_by_event (ae_event_id ev) db of
                 Some row \<Rightarrow>
                   and_then (assessment_into_record row) (\<lambda>record.
                   if ar_session_id record \<noteq> ae_session_id ev \<or> ar_daemon_event_seq record \<noteq> ae_daemon_event_seq ev
                      \<or> ar_event_requirement_id record \<noteq> rid \<or> \<not> same_assessment_content (ar_assessment record) a
                   then Inl RdEventIdentityConflict
                   else Inr (Inl record, db))
               | None \<Rightarrow>
                   and_then (if es_event_ack_through_seq session < i64_max then Inr (es_event_ack_through_seq session + 1)
                             else Inl RdInvalidEvidence) (\<lambda>first.
                   and_then (map_err (\<lambda>_. RdInvalidEvidence) (next_expected first (es_event_ack_sparse session))) (\<lambda>expected.
                   if expected < seq
                   then and_then (u64_try RdInvalidEvidence expected) (\<lambda>n. Inl (RdSequenceGap n (ae_daemon_event_seq ev)))
                   else if seq \<le> es_event_ack_through_seq session then Inl RdSequenceConflict
                   else if (case assessment_by_sequence (ae_session_id ev) seq db of
                              None \<Rightarrow> False | Some row \<Rightarrow> asr_event_id row \<noteq> ae_event_id ev)
                   then Inl RdSequenceConflict
                   else if list_ex (\<lambda>r. ev_session_id r = ae_session_id ev \<and> ev_daemon_event_seq r = seq) (sv_events db)
                   then Inl RdSequenceConflict
                   else map_sum id (\<lambda>(row, db). (Inr row, db))
                          (settle_assessment env rnd now ev seq rid a digest session db))))))"

definition assessment_result ::
  "readiness_assessment_record + assessment_row \<Rightarrow> readiness_error + readiness_assessment_result" where
  "assessment_result v =
     (case v of
        Inl record \<Rightarrow> Inr \<lparr>rar_record = record, rar_duplicate = True\<rparr>
      | Inr row \<Rightarrow> and_then (assessment_into_record row) (\<lambda>record. Inr \<lparr>rar_record = record, rar_duplicate = False\<rparr>))"

definition record_readiness_assessment_with_event_digest ::
  "store_env \<Rightarrow> (nat \<Rightarrow> nat) \<Rightarrow> nat \<Rightarrow> assessment_event \<Rightarrow> string \<Rightarrow> readiness_assessment \<Rightarrow> string \<Rightarrow> server_db
   \<Rightarrow> (readiness_error + readiness_assessment_result) \<times> server_db" where
  "record_readiness_assessment_with_event_digest env rnd now ev rid a digest =
     run_tx (record_assessment_tx env rnd now ev rid a digest) assessment_result"

definition record_readiness_assessment ::
  "digest_env \<Rightarrow> store_env \<Rightarrow> (nat \<Rightarrow> nat) \<Rightarrow> nat \<Rightarrow> assessment_event \<Rightarrow> string \<Rightarrow> readiness_assessment \<Rightarrow> server_db
   \<Rightarrow> (readiness_error + readiness_assessment_result) \<times> server_db" where
  "record_readiness_assessment dg env rnd now ev rid a db =
     (case readiness_event_digest dg (ae_event_id ev) (ae_session_id ev) (ae_daemon_event_seq ev) rid a of
        Inl e \<Rightarrow> (Inl e, db)
      | Inr digest \<Rightarrow> record_readiness_assessment_with_event_digest env rnd now ev rid a digest db)"

section \<open>Review packets\<close>

text \<open>\<open>ORDER BY created_at DESC, id DESC LIMIT 1\<close>\<close>

definition newest :: "assessment_row list \<Rightarrow> assessment_row option" where
  "newest rows = (case rows of [] \<Rightarrow> None | _ \<Rightarrow> Some (last (sort_key asr_created_at (sort_key asr_id rows))))"

definition current_evidence :: "string \<Rightarrow> int \<Rightarrow> int \<Rightarrow> assessment_row \<Rightarrow> bool" where
  "current_evidence rid revision state_version a \<longleftrightarrow>
     asr_requirement_id a = Some rid \<and> asr_requirement_revision a = revision
     \<and> asr_accepted_state_version a = Some state_version \<and> \<not> asr_generation_unknown a \<and> asr_outcome a = ''accepted''"

definition readiness_error_of_packet :: "packet_error \<Rightarrow> readiness_error" where
  "readiness_error_of_packet e =
     (case e of
        PE_StaleAssessment a c \<Rightarrow> RdStaleAssessment a c
      | PE_StaleStateVersion a c \<Rightarrow> RdStaleStateVersion a c
      | _ \<Rightarrow> RdInvalidEvidence)"

definition review_packet_for :: "string \<Rightarrow> server_db \<Rightarrow> readiness_error + review_packet" where
  "review_packet_for rid db =
     and_then (map_err readiness_error_of (lock_requirement rid db)) (\<lambda>row.
     and_then (map_err readiness_error_of (to_domain row)) (\<lambda>r.
     if req_status r \<noteq> Ready then Inl RdNotReady
     else
       and_then (i64_try RdInvalidRevision (req_revision r)) (\<lambda>revision.
       and_then (i64_try RdInvalidEvidence (req_state_version r)) (\<lambda>state_version.
       case newest (filter (current_evidence rid revision state_version) (sv_assessments db)) of
         None \<Rightarrow> Inl (RdStaleAssessment 0 (req_revision r))
       | Some a \<Rightarrow>
           and_then (assessment_into_record a) (\<lambda>record.
           case ar_accepted_state_version record of
             None \<Rightarrow> Inl RdInvalidEvidence
           | Some v \<Rightarrow>
               map_err readiness_error_of_packet
                 (project_packet r \<lparr>ev_id = ar_id record, ev_state_version = v, ev_assessment = ar_assessment record\<rparr>))))))"

section \<open>Lookups after an update\<close>

lemma map_of_on_session: "map_of (sv_sessions (on_session s g db)) k = map_option (if k = s then g else id) (map_of (sv_sessions db) k)"
proof -
  have "map_of (map (\<lambda>(k, x). if k = s then (k, g x) else (k, x)) xs) k = map_option (if k = s then g else id) (map_of xs k)" for xs
    by (induction xs) auto
  then show ?thesis by (simp add: on_session_def)
qed

lemma find_snoc_new: "\<not> list_ex p xs \<Longrightarrow> p x \<Longrightarrow> find p (xs @ [x]) = Some x"
  by (induction xs) auto

end
