(* ===== verification/Clarification_Store.thy ===== *)
theory Clarification_Store
  imports Readiness_Store
begin

text \<open>
  \<open>north-persistence/src/clarification.rs\<close>: clarification runs, their execution attempts, the projection of
  the daemon's events on them, cancellation and retries. The conventions are those of
  \<open>Requirement_Store\<close>.

  \<^item> A closure that builds a command payload is a function argument; its error is dropped by the code, so
    it is \<open>None\<close>. The parsing of the capabilities and the digests are the parameters \<open>cl_capabilities\<close>
    and \<open>cl_digests\<close>; \<open>cl_message_ok\<close> stands for the \<open>CHECK\<close> on a message body.
  \<^item> The jitter of a retry delay is an argument. The sessions that other transactions have locked are the
    argument \<open>locked\<close> of \<open>claim_due_retries\<close>, whose query skips them.
\<close>

section \<open>Values\<close>

record clarification_env =
  cl_store :: store_env
  cl_digests :: digest_env
  cl_capabilities :: "string \<Rightarrow> string list option"
  cl_message_ok :: "string \<Rightarrow> bool"
  cl_retention_seconds :: nat

definition DEFAULT_MAX_ATTEMPTS :: int where "DEFAULT_MAX_ATTEMPTS = 3"
definition RETRY_BASE_SECONDS :: int where "RETRY_BASE_SECONDS = 5"
definition RETRY_MAX_SECONDS :: int where "RETRY_MAX_SECONDS = 5 * 60"
definition MAX_ACTIVITY_CHARS :: nat where "MAX_ACTIVITY_CHARS = 1000"

datatype clarification_phase = AwaitingAssignment | PhaseActive | PhaseTerminal

datatype clarification_status = RunStarting | RunRunning | RunRetrying | RunCompleted | RunFailed | RunUnavailable

definition phase_as_str :: "clarification_phase \<Rightarrow> string" where
  "phase_as_str p = (case p of AwaitingAssignment \<Rightarrow> ''awaiting_assignment'' | PhaseActive \<Rightarrow> ''active'' | PhaseTerminal \<Rightarrow> ''terminal'')"

definition run_status_as_str :: "clarification_status \<Rightarrow> string" where
  "run_status_as_str s =
     (case s of RunStarting \<Rightarrow> ''starting'' | RunRunning \<Rightarrow> ''running'' | RunRetrying \<Rightarrow> ''retrying''
      | RunCompleted \<Rightarrow> ''completed'' | RunFailed \<Rightarrow> ''failed'' | RunUnavailable \<Rightarrow> ''unavailable'')"

record clarification_run =
  clr_run_id :: string
  clr_requirement_id :: string
  clr_start_message_id :: string
  clr_phase :: clarification_phase
  clr_status :: clarification_status
  clr_cancel_requested :: bool
  clr_created_at :: nat
  clr_updated_at :: nat
  clr_last_activity_at :: nat
  clr_attempt_count :: u64
  clr_next_retry_at :: "nat option"
  clr_failure_reason :: "string option"
  clr_daemon_id :: "string option"
  clr_current_attempt_id :: "string option"
  clr_start_command_id :: "string option"
  clr_cancel_command_id :: "string option"

record clarification_start_input =
  csi_requirement_id :: string
  csi_start_message_id :: string
  csi_expected_state_version :: u64
  csi_context :: json
  csi_context_requirement_revision :: u64
  csi_repository_ids :: "string list"
  csi_required_capabilities :: "string list"

record clarification_start_result =
  csr_run :: clarification_run
  csr_command_id :: "string option"
  csr_reused :: bool

record clarification_command_result =
  ccr_run :: clarification_run
  ccr_command_id :: string

datatype clarification_error =
    ClDatabase string
  | ClRequirementNotFound
  | ClMessageNotFound
  | ClInvalidMessage
  | ClStateVersionConflict
  | ClExistingRunDifferentStart
  | ClRunNotFound
  | ClRunNotEligible
  | ClInvalidContext
  | ClInvalidSessionState
  | ClCommandConflict

definition clarification_error_of :: "requirement_error \<Rightarrow> clarification_error" where
  "clarification_error_of e =
     (case e of
        ReqDatabase m \<Rightarrow> ClDatabase m
      | ReqNotFound \<Rightarrow> ClRequirementNotFound
      | ReqConflict \<Rightarrow> ClStateVersionConflict
      | _ \<Rightarrow> ClInvalidContext)"

section \<open>The start context\<close>

definition json_u64 :: "json \<Rightarrow> u64 option" where
  "json_u64 v =
     (case v of
        JNumber s \<Rightarrow>
          if s \<noteq> [] \<and> list_all is_ascii_digit s
          then (let n = foldl (\<lambda>n c. 10 * n + (of_char c - 48)) (0 :: nat) s in if n < 2 ^ 64 then Some (of_nat n) else None)
          else None
      | _ \<Rightarrow> None)"

definition json_object :: "json \<Rightarrow> json option" where
  "json_object v = (case v of JObject _ \<Rightarrow> Some v | _ \<Rightarrow> None)"

fun option_list :: "'a option list \<Rightarrow> 'a list option" where
  "option_list [] = Some []"
| "option_list (x # xs) =
     (case x of None \<Rightarrow> None | Some y \<Rightarrow> (case option_list xs of None \<Rightarrow> None | Some ys \<Rightarrow> Some (y # ys)))"

definition adjacent_equal :: "'a list \<Rightarrow> bool" where
  "adjacent_equal xs \<longleftrightarrow> list_ex (\<lambda>(a, b). a = b) (zip xs (tl xs))"

definition valid_start_context :: "json \<Rightarrow> string \<Rightarrow> string \<Rightarrow> u64 \<Rightarrow> string list \<Rightarrow> string list \<Rightarrow> bool" where
  "valid_start_context context rid mid revision repository_ids capabilities \<longleftrightarrow>
     (case Option.bind (json_get ''requirement'' context) json_object of
        None \<Rightarrow> False
      | Some requirement \<Rightarrow>
          Option.bind (json_get ''id'' requirement) json_str = Some rid
          \<and> Option.bind (json_get ''revision'' requirement) json_u64 = Some revision)
     \<and> (case Option.bind (Option.bind (json_get ''conversation'' context) (json_get ''excerpt'')) json_array of
          None \<Rightarrow> False
        | Some excerpt \<Rightarrow> list_ex (\<lambda>m. Option.bind (json_get ''message_id'' m) json_str = Some mid) excerpt)
     \<and> (case Option.bind (Option.bind (json_get ''repositories'' context) json_array)
               (\<lambda>rs. option_list (map (\<lambda>r. Option.bind (json_get ''repository_id'' r) json_str) rs)) of
          None \<Rightarrow> False
        | Some ids \<Rightarrow> ids = repository_ids)
     \<and> \<not> adjacent_equal repository_ids \<and> capabilities \<noteq> [] \<and> list_all (\<lambda>c. \<not> blank c) capabilities"

section \<open>Runs\<close>

definition daemon_connected :: "nat \<Rightarrow> string option \<Rightarrow> server_db \<Rightarrow> bool" where
  "daemon_connected now daemon_id db =
     (case find (\<lambda>d. Some (dn_daemon_id d) = daemon_id) (sv_daemons db) of
        None \<Rightarrow> False
      | Some d \<Rightarrow> dn_connected d \<and> \<not> dn_revoked d
          \<and> (case dn_last_seen_at d of None \<Rightarrow> False | Some t \<Rightarrow> now < t + 45 * 1000000))"

definition is_terminal :: "string \<Rightarrow> bool" where
  "is_terminal state \<longleftrightarrow> state \<in> {''Completed'', ''Failed''}"

text \<open>\<open>RunRow::into_run\<close> on the columns of a session. The columns \<open>requirement_id\<close> and \<open>start_message_id\<close> are
  decoded as strings that are not null.\<close>

definition into_run :: "nat \<Rightarrow> string \<Rightarrow> execution_session \<Rightarrow> server_db \<Rightarrow> clarification_error + clarification_run" where
  "into_run now sid s db =
     (case (es_requirement_id s, es_start_message_id s) of
        (Some rid, Some mid) \<Rightarrow>
          (let connected = daemon_connected now (es_daemon_id s) db; assigned = (es_daemon_id s \<noteq> None); state = es_state s in
           and_then (if is_terminal state then Inr PhaseTerminal
                     else if state = ''Idle'' \<and> \<not> assigned then Inr AwaitingAssignment
                     else if state \<in> {''Idle'', ''Running'', ''Retrying''} \<and> assigned then Inr PhaseActive
                     else Inl ClInvalidSessionState) (\<lambda>phase.
           and_then (u64_try ClInvalidSessionState (es_attempt_count s)) (\<lambda>attempt_count.
           and_then (if state = ''Idle'' then Inr (if assigned \<and> connected then RunStarting else RunUnavailable)
                     else if state = ''Running''
                     then Inr (if es_runtime_id s = None \<and> es_current_attempt_id s \<noteq> None \<and> connected then RunStarting
                               else if connected then RunRunning else RunUnavailable)
                     else if state = ''Retrying'' then Inr RunRetrying
                     else if state = ''Completed'' then Inr RunCompleted
                     else if state = ''Failed'' then Inr RunFailed
                     else Inl ClInvalidSessionState) (\<lambda>status.
           Inr \<lparr>clr_run_id = sid, clr_requirement_id = rid, clr_start_message_id = mid, clr_phase = phase, clr_status = status,
                clr_cancel_requested = es_cancel_requested s, clr_created_at = es_created_at s, clr_updated_at = es_updated_at s,
                clr_last_activity_at = es_last_activity_at s, clr_attempt_count = attempt_count,
                clr_next_retry_at = es_next_retry_at s, clr_failure_reason = es_failure_class s,
                clr_daemon_id = es_daemon_id s, clr_current_attempt_id = es_current_attempt_id s,
                clr_start_command_id = es_start_command_id s, clr_cancel_command_id = es_cancel_command_id s\<rparr>))))
      | _ \<Rightarrow> Inl (ClDatabase ''unexpected null''))"

definition run_of :: "nat \<Rightarrow> string \<Rightarrow> server_db \<Rightarrow> clarification_error + clarification_run" where
  "run_of now sid db =
     (case map_of (sv_sessions db) sid of
        None \<Rightarrow> Inl (ClDatabase ''row not found'')
      | Some s \<Rightarrow> into_run now sid s db)"

definition run_session :: "string \<Rightarrow> string \<Rightarrow> server_db \<Rightarrow> execution_session option" where
  "run_session rid sid db =
     (case map_of (sv_sessions db) sid of
        None \<Rightarrow> None
      | Some s \<Rightarrow> if es_requirement_id s = Some rid \<and> es_start_message_id s \<noteq> None then Some s else None)"

text \<open>\<open>ORDER BY created_at DESC, id DESC LIMIT 1\<close>\<close>

definition newest_session :: "(string \<times> execution_session) list \<Rightarrow> (string \<times> execution_session) option" where
  "newest_session xs = (case xs of [] \<Rightarrow> None | _ \<Rightarrow> Some (last (sort_key (\<lambda>(_, s). es_created_at s) (sort_key fst xs))))"

definition in_slot :: "string \<Rightarrow> execution_session \<Rightarrow> bool" where
  "in_slot rid s \<longleftrightarrow> es_requirement_id s = Some rid \<and> es_start_message_id s \<noteq> None \<and> \<not> is_terminal (es_state s)"

definition slot_occupant :: "string \<Rightarrow> server_db \<Rightarrow> (string \<times> execution_session) option" where
  "slot_occupant rid db = newest_session (filter (\<lambda>(_, s). in_slot rid s) (sv_sessions db))"

definition latest_clarification_run :: "nat \<Rightarrow> string \<Rightarrow> server_db \<Rightarrow> clarification_error + clarification_run option" where
  "latest_clarification_run now rid db =
     (case newest_session (filter (\<lambda>(_, s). es_requirement_id s = Some rid \<and> es_start_message_id s \<noteq> None) (sv_sessions db)) of
        None \<Rightarrow> Inr None
      | Some (sid, s) \<Rightarrow> map_sum id Some (into_run now sid s db))"

definition clarification_run_by_id :: "nat \<Rightarrow> string \<Rightarrow> string \<Rightarrow> server_db \<Rightarrow> clarification_error + clarification_run" where
  "clarification_run_by_id now rid sid db =
     (case run_session rid sid db of None \<Rightarrow> Inl ClRunNotFound | Some s \<Rightarrow> into_run now sid s db)"

section \<open>Commands and attempts\<close>

definition choose_eligible_daemon :: "clarification_env \<Rightarrow> nat \<Rightarrow> string list \<Rightarrow> server_db \<Rightarrow> string option" where
  "choose_eligible_daemon env now required db =
     map_option dn_daemon_id (find
       (\<lambda>d. case cl_capabilities env (dn_capabilities d) of
              None \<Rightarrow> False
            | Some capabilities \<Rightarrow> list_all (\<lambda>c. c \<in> set capabilities) required)
       (sort_key dn_daemon_id (filter
         (\<lambda>d. \<not> dn_revoked d \<and> dn_connected d \<and> dn_protocol_version d = ''0.1''
            \<and> (case dn_last_seen_at d of None \<Rightarrow> False | Some t \<Rightarrow> now < t + 45 * 1000000)) (sv_daemons db))))"

definition next_command_sequence :: "string \<Rightarrow> server_db \<Rightarrow> clarification_error + u64" where
  "next_command_sequence sid db =
     (let outbox = list_max_or_0 (map so_server_command_seq (filter (\<lambda>r. so_session_id r = sid) (sv_outbox db)));
          tombstones = list_max_or_0 (map tr_server_command_seq (filter (\<lambda>t. tr_session_id t = sid) (sv_tombstones db)));
          acked = (case map_of (sv_sessions db) sid of None \<Rightarrow> 0 | Some s \<Rightarrow> es_command_ack_through_seq s);
          n = max outbox (max tombstones acked)
      in if n < i64_max then u64_try ClInvalidSessionState (n + 1) else Inl (ClDatabase ''bigint out of range''))"

definition execution_attempt_id :: "clarification_env \<Rightarrow> string \<Rightarrow> nat \<Rightarrow> string" where
  "execution_attempt_id env sid number = ''attempt-'' @ payload_digest (cl_digests env) sid @ ''-'' @ show_nat number"

definition insert_execution_attempt ::
  "string \<Rightarrow> string \<Rightarrow> int \<Rightarrow> string \<Rightarrow> string \<Rightarrow> server_db \<Rightarrow> clarification_error + server_db" where
  "insert_execution_attempt attempt_id sid number cid kind db =
     (if kind \<notin> {''session.start'', ''session.resume''} then Inl ClInvalidSessionState
      else if list_ex (\<lambda>a. at_id a = attempt_id \<or> at_command_id a = cid
             \<or> (at_session_id a = sid \<and> at_attempt_number a = number)) (sv_attempts db)
      then Inl (ClDatabase ''duplicate key'')
      else Inr (db\<lparr>sv_attempts := sv_attempts db @
             [\<lparr>at_id = attempt_id, at_session_id = sid, at_attempt_number = number, at_command_id = cid, at_command_kind = kind,
               at_outcome = None, at_failure_event_id = None, at_failure_class = None, at_failure_reason = None\<rparr>]\<rparr>))"

definition insert_command ::
  "clarification_env \<Rightarrow> string \<Rightarrow> string \<Rightarrow> string \<Rightarrow> u64 \<Rightarrow> string \<Rightarrow> server_db \<Rightarrow> clarification_error + server_db" where
  "insert_command env cid sid did seq payload db =
     and_then (i64_try ClInvalidSessionState seq) (\<lambda>n.
     if list_ex (\<lambda>r. so_command_id r = cid \<or> (so_session_id r = sid \<and> so_server_command_seq r = n)) (sv_outbox db)
     then Inl (ClDatabase ''duplicate key'')
     else Inr (db\<lparr>sv_outbox := sv_outbox db @
            [\<lparr>so_command_id = cid, so_session_id = sid, so_daemon_id = did, so_server_command_seq = n, so_payload = payload,
              so_payload_digest = payload_digest (cl_digests env) payload,
              so_command_identity_digest = command_identity_digest (cl_digests env) payload, so_acknowledged = False\<rparr>]\<rparr>))"

section \<open>Starting a run\<close>

type_synonym start_payload = "string \<Rightarrow> string \<Rightarrow> string \<Rightarrow> u64 \<Rightarrow> json \<Rightarrow> string option"

definition requester_message :: "string \<Rightarrow> string \<Rightarrow> server_db \<Rightarrow> message_row option" where
  "requester_message rid mid db =
     find (\<lambda>m. mg_id m = mid \<and> mg_kind m = ''requester'' \<and> (mg_conversation_id m, rid) \<in> set (sv_conversations db)) (sv_messages db)"

definition built :: "string option \<Rightarrow> clarification_error + string" where
  "built p = (case p of None \<Rightarrow> Inl ClInvalidContext | Some payload \<Rightarrow> Inr payload)"

text \<open>The first command of a run with its attempt.\<close>

definition dispatch_start ::
  "clarification_env \<Rightarrow> string \<Rightarrow> string \<Rightarrow> string \<Rightarrow> u64 \<Rightarrow> string \<Rightarrow> server_db \<Rightarrow> clarification_error + server_db" where
  "dispatch_start env cid sid did seq payload db =
     and_then (insert_command env cid sid did seq payload db)
       (insert_execution_attempt (execution_attempt_id env sid 1) sid 1 cid ''session.start'')"

definition assign_occupant ::
  "clarification_env \<Rightarrow> start_payload \<Rightarrow> (nat \<Rightarrow> nat) \<Rightarrow> nat \<Rightarrow> string \<Rightarrow> string \<Rightarrow> execution_session \<Rightarrow> server_db
   \<Rightarrow> clarification_error + string \<times> server_db" where
  "assign_occupant env build rnd now did sid s db =
     (let cid = random_hex 16 rnd in
      and_then (next_command_sequence sid db) (\<lambda>seq.
      case es_start_context s of
        None \<Rightarrow> Inl (ClDatabase ''unexpected null'')
      | Some context \<Rightarrow>
          and_then (built (build did sid cid seq context)) (\<lambda>payload.
          and_then (dispatch_start env cid sid did seq payload db) (\<lambda>db.
          Inr (cid, on_session sid (\<lambda>s. s\<lparr>es_daemon_id := Some did, es_start_command_id := Some cid, es_attempt_count := 1,
             es_current_attempt_id := Some (execution_attempt_id env sid 1), es_updated_at := now, es_last_activity_at := now\<rparr>) db)))))"

definition start_occupied ::
  "clarification_env \<Rightarrow> start_payload \<Rightarrow> (nat \<Rightarrow> nat) \<Rightarrow> nat \<Rightarrow> clarification_start_input \<Rightarrow> string \<Rightarrow> execution_session \<Rightarrow> server_db
   \<Rightarrow> clarification_error + clarification_start_result \<times> server_db" where
  "start_occupied env build rnd now i sid s db =
     (if es_start_message_id s \<noteq> Some (csi_start_message_id i) then Inl ClExistingRunDifferentStart
      else
        and_then (into_run now sid s db) (\<lambda>run.
        case (if clr_daemon_id run = None \<and> \<not> clr_cancel_requested run
              then Some (choose_eligible_daemon env now (csi_required_capabilities i) db) else None) of
          Some None \<Rightarrow> Inr (\<lparr>csr_run = run, csr_command_id = clr_start_command_id run, csr_reused = True\<rparr>, db)
        | chosen \<Rightarrow>
            and_then (case chosen of
                        Some (Some did) \<Rightarrow> assign_occupant env build rnd now did sid s db
                      | _ \<Rightarrow> Inr (case clr_start_command_id run of None \<Rightarrow> [] | Some c \<Rightarrow> c, db)) (\<lambda>(cid, db).
            and_then (run_of now sid db) (\<lambda>run.
            Inr (\<lparr>csr_run = run,
                  csr_command_id = (if clr_status run = RunRetrying \<or> cid = [] then None else Some cid),
                  csr_reused = True\<rparr>, db)))))"

definition insert_session :: "string \<Rightarrow> execution_session \<Rightarrow> server_db \<Rightarrow> clarification_error + server_db" where
  "insert_session sid s db =
     (if map_of (sv_sessions db) sid \<noteq> None
         \<or> list_ex (\<lambda>(_, x). \<exists>rid \<in> set_option (es_requirement_id s). in_slot rid s \<and> in_slot rid x) (sv_sessions db)
      then Inl (ClDatabase ''duplicate key'')
      else Inr (db\<lparr>sv_sessions := sv_sessions db @ [(sid, s)]\<rparr>))"

definition new_session ::
  "nat \<Rightarrow> string option \<Rightarrow> string option \<Rightarrow> clarification_start_input \<Rightarrow> execution_session" where
  "new_session now did cid i =
     \<lparr>es_daemon_id = did, es_requirement_id = Some (csi_requirement_id i), es_state = ''Idle'',
      es_start_message_id = Some (csi_start_message_id i), es_start_context = Some (csi_context i), es_start_command_id = cid,
      es_cancel_command_id = None, es_cancel_requested = False, es_runtime_id = None, es_terminal_summary = None,
      es_failure_class = None, es_failure_reason = None, es_attempt_count = 0, es_max_attempts = DEFAULT_MAX_ATTEMPTS,
      es_next_retry_at = None, es_current_attempt_id = None, es_command_ack_through_seq = 0, es_event_ack_through_seq = 0,
      es_event_ack_sparse = [], es_repository_ids = csi_repository_ids i, es_repository_context_initialized = True, es_started_at = None, es_created_at = now,
      es_updated_at = now, es_last_activity_at = now\<rparr>"

text \<open>\<open>Draft\<close> moves to \<open>Discussing\<close> in the transaction that starts the run.\<close>

definition open_discussion ::
  "clarification_env \<Rightarrow> nat \<Rightarrow> requirement \<Rightarrow> u64 \<Rightarrow> server_db \<Rightarrow> clarification_error + server_db" where
  "open_discussion env now r expected db =
     (if req_status r \<noteq> Draft then Inr db
      else
        (case begin_discussion r of
           (Inl _, _) \<Rightarrow> Inl ClStateVersionConflict
         | (Inr _, r') \<Rightarrow>
             and_then (map_err clarification_error_of (update_requirement (cl_store env) r' expected now db)) (\<lambda>(_, db).
             and_then (i64_try ClInvalidSessionState (req_state_version r')) (\<lambda>state_version.
             map_err clarification_error_of (insert_audit (cl_store env)
               \<lparr>au_requirement_id = req_id r, au_actor_id = ''clarification'', au_transition = ''begin_discussion'',
                au_from_status = ''Draft'', au_to_status = ''Discussing'', au_feedback = None, au_assessment_id = None,
                au_state_version = state_version\<rparr> db)))))"

definition start_fresh ::
  "clarification_env \<Rightarrow> start_payload \<Rightarrow> (nat \<Rightarrow> nat) \<Rightarrow> (nat \<Rightarrow> nat) \<Rightarrow> nat \<Rightarrow> clarification_start_input \<Rightarrow> requirement \<Rightarrow> server_db
   \<Rightarrow> clarification_error + clarification_start_result \<times> server_db" where
  "start_fresh env build rnd1 rnd2 now i r db =
     (if list_ex (\<lambda>(_, s). es_requirement_id s = Some (csi_requirement_id i)
            \<and> es_start_message_id s = Some (csi_start_message_id i) \<and> is_terminal (es_state s)) (sv_sessions db)
      then Inl ClRunNotEligible
      else if req_state_version r \<noteq> csi_expected_state_version i then Inl ClStateVersionConflict
      else if req_revision r \<noteq> csi_context_requirement_revision i then Inl ClStateVersionConflict
      else
        and_then (open_discussion env now r (csi_expected_state_version i) db) (\<lambda>db.
        if \<not> list_all (\<lambda>x. (x, False) \<in> set (sv_repositories db)) (csi_repository_ids i) then Inl ClInvalidContext
        else
          (let sid = random_hex 16 rnd1 in
           case choose_eligible_daemon env now (csi_required_capabilities i) db of
             None \<Rightarrow>
               and_then (insert_session sid (new_session now None None i) db) (\<lambda>db.
               and_then (run_of now sid db) (\<lambda>run.
               Inr (\<lparr>csr_run = run, csr_command_id = None, csr_reused = False\<rparr>, db)))
           | Some did \<Rightarrow>
               (let cid = random_hex 16 rnd2 in
                and_then (built (build did sid cid 1 (csi_context i))) (\<lambda>payload.
                and_then (insert_session sid (new_session now (Some did) (Some cid) i) db) (\<lambda>db.
                and_then (dispatch_start env cid sid did 1 payload db) (\<lambda>db.
                let db = on_session sid (\<lambda>s. s\<lparr>es_attempt_count := 1,
                           es_current_attempt_id := Some (execution_attempt_id env sid 1)\<rparr>) db
                in and_then (run_of now sid db) (\<lambda>run.
                   Inr (\<lparr>csr_run = run, csr_command_id = Some cid, csr_reused = False\<rparr>, db)))))))))"

definition start_clarification_tx ::
  "clarification_env \<Rightarrow> start_payload \<Rightarrow> (nat \<Rightarrow> nat) \<Rightarrow> (nat \<Rightarrow> nat) \<Rightarrow> nat \<Rightarrow> clarification_start_input \<Rightarrow> server_db
   \<Rightarrow> clarification_error + clarification_start_result \<times> server_db" where
  "start_clarification_tx env build rnd1 rnd2 now i db =
     (if blank (csi_requirement_id i) \<or> blank (csi_start_message_id i) \<or> csi_expected_state_version i = 0
         \<or> csi_context_requirement_revision i = 0
         \<or> \<not> valid_start_context (csi_context i) (csi_requirement_id i) (csi_start_message_id i)
               (csi_context_requirement_revision i) (csi_repository_ids i) (csi_required_capabilities i)
      then Inl ClInvalidContext
      else
        and_then (map_err clarification_error_of (lock_requirement (csi_requirement_id i) db)) (\<lambda>row.
        and_then (map_err clarification_error_of (to_domain row)) (\<lambda>r.
        if requester_message (csi_requirement_id i) (csi_start_message_id i) db = None then Inl ClMessageNotFound
        else
          (case slot_occupant (csi_requirement_id i) db of
             Some (sid, s) \<Rightarrow> start_occupied env build rnd1 now i sid s db
           | None \<Rightarrow> start_fresh env build rnd1 rnd2 now i r db))))"

definition start_clarification ::
  "clarification_env \<Rightarrow> start_payload \<Rightarrow> (nat \<Rightarrow> nat) \<Rightarrow> (nat \<Rightarrow> nat) \<Rightarrow> nat \<Rightarrow> clarification_start_input \<Rightarrow> server_db
   \<Rightarrow> (clarification_error + clarification_start_result) \<times> server_db" where
  "start_clarification env build rnd1 rnd2 now i = run_tx (start_clarification_tx env build rnd1 rnd2 now i) Inr"

section \<open>Follow-up messages and cancellation\<close>

definition dispatch_message_tx ::
  "clarification_env \<Rightarrow> (string \<Rightarrow> string \<Rightarrow> string \<Rightarrow> u64 \<Rightarrow> string \<Rightarrow> string \<Rightarrow> string option) \<Rightarrow> (nat \<Rightarrow> nat) \<Rightarrow> nat
   \<Rightarrow> string \<Rightarrow> string \<Rightarrow> string \<Rightarrow> server_db \<Rightarrow> clarification_error + clarification_command_result \<times> server_db" where
  "dispatch_message_tx env build rnd now rid sid mid db =
     (case run_session rid sid db of
        None \<Rightarrow> Inl ClRunNotFound
      | Some s \<Rightarrow>
          and_then (into_run now sid s db) (\<lambda>run.
          if clr_phase run \<noteq> PhaseActive \<or> clr_cancel_requested run \<or> clr_daemon_id run = None \<or> clr_current_attempt_id run = None
          then Inl ClRunNotEligible
          else if clr_start_message_id run = mid then Inl ClInvalidMessage
          else
            (case requester_message rid mid db of
               None \<Rightarrow> Inl ClMessageNotFound
             | Some message \<Rightarrow>
                 (let digest = payload_digest (cl_digests env) (mg_body message) in
                  and_then
                    (case find (\<lambda>m. mm_session_id m = sid \<and> mm_message_id m = mid) (sv_message_map db) of
                       Some m \<Rightarrow> if mm_content_digest m \<noteq> digest then Inl ClCommandConflict else Inr (mm_command_id m, db)
                     | None \<Rightarrow>
                         (let cid = random_hex 16 rnd in
                          and_then (next_command_sequence sid db) (\<lambda>seq.
                          case clr_daemon_id run of
                            None \<Rightarrow> Inl ClRunNotEligible
                          | Some did \<Rightarrow>
                              and_then (built (build did sid cid seq mid (mg_body message))) (\<lambda>payload.
                              if list_ex (\<lambda>m. mm_command_id m = cid) (sv_message_map db) then Inl (ClDatabase ''duplicate key'')
                              else
                                and_then (insert_command env cid sid did seq payload
                                  (db\<lparr>sv_message_map := sv_message_map db @
                                     [\<lparr>mm_session_id = sid, mm_message_id = mid, mm_command_id = cid, mm_content_digest = digest\<rparr>]\<rparr>))
                                  (\<lambda>db. Inr (cid, db))))))
                    (\<lambda>(cid, db).
                  and_then (run_of now sid db) (\<lambda>run. Inr (\<lparr>ccr_run = run, ccr_command_id = cid\<rparr>, db)))))))"

definition dispatch_clarification_message ::
  "clarification_env \<Rightarrow> (string \<Rightarrow> string \<Rightarrow> string \<Rightarrow> u64 \<Rightarrow> string \<Rightarrow> string \<Rightarrow> string option) \<Rightarrow> (nat \<Rightarrow> nat) \<Rightarrow> nat
   \<Rightarrow> string \<Rightarrow> string \<Rightarrow> string \<Rightarrow> server_db \<Rightarrow> (clarification_error + clarification_command_result) \<times> server_db" where
  "dispatch_clarification_message env build rnd now rid sid mid = run_tx (dispatch_message_tx env build rnd now rid sid mid) Inr"

definition cancelled_session :: "nat \<Rightarrow> execution_session \<Rightarrow> execution_session" where
  "cancelled_session now s =
     (if es_current_attempt_id s = None
      then s\<lparr>es_cancel_requested := True, es_state := ''Failed'', es_next_retry_at := None, es_failure_class := Some ''cancelled'',
             es_failure_reason := Some ''cancelled'', es_updated_at := now, es_last_activity_at := now\<rparr>
      else s\<lparr>es_cancel_requested := True, es_updated_at := now, es_last_activity_at := now\<rparr>)"

definition cancel_clarification_tx ::
  "clarification_env \<Rightarrow> (string \<Rightarrow> string \<Rightarrow> string \<Rightarrow> u64 \<Rightarrow> string option) \<Rightarrow> (nat \<Rightarrow> nat) \<Rightarrow> nat
   \<Rightarrow> string \<Rightarrow> string \<Rightarrow> server_db \<Rightarrow> clarification_error + clarification_command_result \<times> server_db" where
  "cancel_clarification_tx env build rnd now rid sid db =
     (case run_session rid sid db of
        None \<Rightarrow> Inl ClRunNotFound
      | Some s \<Rightarrow>
          and_then (into_run now sid s db) (\<lambda>current.
          if clr_phase current = PhaseTerminal
          then (if \<not> clr_cancel_requested current then Inl ClRunNotEligible
                else Inr (\<lparr>ccr_run = current, ccr_command_id = []\<rparr>, db))
          else
            (let db = on_session sid (cancelled_session now) db in
             and_then (run_of now sid db) (\<lambda>current.
             case (clr_current_attempt_id current, clr_daemon_id current) of
               (Some _, Some did) \<Rightarrow>
                 and_then
                   (case clr_cancel_command_id current of
                      Some cid \<Rightarrow> Inr (cid, db)
                    | None \<Rightarrow>
                        (let cid = random_hex 16 rnd in
                         and_then (next_command_sequence sid db) (\<lambda>seq.
                         and_then (built (build did sid cid seq)) (\<lambda>payload.
                         and_then (insert_command env cid sid did seq payload db) (\<lambda>db.
                         Inr (cid, on_session sid (\<lambda>s. s\<lparr>es_cancel_command_id := Some cid, es_updated_at := now,
                                     es_last_activity_at := now\<rparr>) db))))))
                   (\<lambda>(cid, db). and_then (run_of now sid db) (\<lambda>run. Inr (\<lparr>ccr_run = run, ccr_command_id = cid\<rparr>, db)))
             | _ \<Rightarrow> Inr (\<lparr>ccr_run = current, ccr_command_id = []\<rparr>, db)))))"

definition cancel_clarification ::
  "clarification_env \<Rightarrow> (string \<Rightarrow> string \<Rightarrow> string \<Rightarrow> u64 \<Rightarrow> string option) \<Rightarrow> (nat \<Rightarrow> nat) \<Rightarrow> nat
   \<Rightarrow> string \<Rightarrow> string \<Rightarrow> server_db \<Rightarrow> (clarification_error + clarification_command_result) \<times> server_db" where
  "cancel_clarification env build rnd now rid sid = run_tx (cancel_clarification_tx env build rnd now rid sid) Inr"

section \<open>Events of the daemon\<close>

datatype clarification_event =
    EvSessionStarted string
  | EvAgentMessage string string
  | EvActivity string
  | EvCompleted string
  | EvFailed bool string

datatype clarification_event_error =
    CeIntegrity
  | CeGap u64 u64
  | CeSequenceConflict string
  | CeNotClarificationSession
  | CeProjection
  | CeDatabase string

definition char_count :: "string \<Rightarrow> nat" where
  "char_count s = length (filter (\<lambda>c. \<not> (128 \<le> (of_char c :: nat) \<and> (of_char c :: nat) < 192)) s)"

definition is_unknown_failure :: "string \<Rightarrow> bool" where
  "is_unknown_failure reason \<longleftrightarrow> contains_str ''execution_outcome_unknown'' (to_ascii_lowercase reason)"

definition i64_saturate :: "int \<Rightarrow> int" where
  "i64_saturate n = max (- (2 ^ 63)) (min n i64_max)"

text \<open>The exponent is cast to \<open>u32\<close> and the shift takes it modulo 64, as in a release build.\<close>

definition shift_one :: "int \<Rightarrow> int" where
  "shift_one exponent = (let k = nat (exponent mod 2 ^ 32) mod 64 in if k = 63 then - (2 ^ 63) else 2 ^ k)"

definition div_trunc :: "int \<Rightarrow> int \<Rightarrow> int" where
  "div_trunc a b = (if a < 0 then - ((- a) div b) else a div b)"

definition retry_delay_seconds :: "int \<Rightarrow> int \<Rightarrow> int" where
  "retry_delay_seconds attempt_count jitter_percent =
     (let exponent = min (i64_saturate (attempt_count - 1)) 6;
          base = min (i64_saturate (RETRY_BASE_SECONDS * shift_one exponent)) RETRY_MAX_SECONDS
      in min (i64_saturate (base + div_trunc (i64_saturate (base * jitter_percent)) 100)) RETRY_MAX_SECONDS)"

definition receipt_of_row :: "bool \<Rightarrow> event_receipt_row \<Rightarrow> clarification_event_error + event_receipt" where
  "receipt_of_row duplicate r =
     and_then (u64_try CeIntegrity (ev_daemon_event_seq r)) (\<lambda>n.
     Inr \<lparr>rc_event_id = ev_event_id r, rc_session_id = ev_session_id r, rc_daemon_event_seq = n,
          rc_outcome = (if ev_outcome r = ''accepted'' then ReceiptAccepted else ReceiptRejected),
          rc_rejection_reason = ev_rejection_reason r, rc_duplicate = duplicate\<rparr>)"

definition insert_generic_event_dedupe :: "event_receipt_row \<Rightarrow> server_db \<Rightarrow> clarification_event_error + server_db" where
  "insert_generic_event_dedupe r db =
     (if list_ex (\<lambda>x. ev_event_id x = ev_event_id r
            \<or> (ev_session_id x = ev_session_id r \<and> ev_daemon_event_seq x = ev_daemon_event_seq r)) (sv_events db)
      then Inl (CeDatabase ''duplicate key'')
      else Inr (db\<lparr>sv_events := sv_events db @ [r]\<rparr>))"

definition touch_session :: "nat \<Rightarrow> string \<Rightarrow> server_db \<Rightarrow> server_db" where
  "touch_session now sid = on_session sid (\<lambda>s. s\<lparr>es_updated_at := now, es_last_activity_at := now\<rparr>)"

text \<open>The loop of \<open>advance_event_watermark\<close>.\<close>

function absorb_next :: "int \<Rightarrow> int list \<Rightarrow> int \<times> int list" where
  "absorb_next through sparse =
     (if through + 1 \<in> set sparse then absorb_next (through + 1) (remove1 (through + 1) sparse) else (through, sparse))"
  by auto
termination
  by (relation "measure (\<lambda>(_, sparse). length sparse)") (auto simp: length_remove1 dest: length_pos_if_in_set)

declare absorb_next.simps [simp del]

definition advance_cursor :: "int \<Rightarrow> int \<Rightarrow> int list \<Rightarrow> int \<times> int list" where
  "advance_cursor seq through sparse =
     (if through < seq
      then (if seq = through + 1 then absorb_next seq sparse
            else if seq \<in> set sparse then (through, sparse) else (through, sort (sparse @ [seq])))
      else (through, sparse))"

definition advance_clarification_watermark :: "string \<Rightarrow> int \<Rightarrow> server_db \<Rightarrow> clarification_event_error + server_db" where
  "advance_clarification_watermark sid seq db =
     (case map_of (sv_sessions db) sid of
        None \<Rightarrow> Inl (CeDatabase ''row not found'')
      | Some s \<Rightarrow>
          (case advance_cursor seq (es_event_ack_through_seq s) (es_event_ack_sparse s) of
             (through, sparse) \<Rightarrow>
               Inr (on_session sid (\<lambda>s. s\<lparr>es_event_ack_through_seq := through, es_event_ack_sparse := sparse\<rparr>) db)))"

definition projection_refusal :: "execution_session \<Rightarrow> clarification_event \<Rightarrow> string option" where
  "projection_refusal s ev =
     (if is_terminal (es_state s) then Some ''session_terminal''
      else if es_daemon_id s = None then Some ''session_unassigned''
      else if es_current_attempt_id s = None then Some ''attempt_not_active''
      else if (case ev of EvSessionStarted _ \<Rightarrow> True | _ \<Rightarrow> False) \<and> es_state s \<noteq> ''Idle''
              \<and> \<not> (es_state s = ''Running'' \<and> es_runtime_id s = None)
      then Some ''session_already_started''
      else None)"

text \<open>\<open>UPDATE execution_attempts ... WHERE id = $1 AND session_id = $2 AND outcome IS NULL\<close>, which has to
  affect one row.\<close>

definition close_attempt :: "string \<Rightarrow> string \<Rightarrow> (attempt_row \<Rightarrow> attempt_row) \<Rightarrow> server_db \<Rightarrow> clarification_event_error + server_db" where
  "close_attempt attempt_id sid g db =
     (let p = (\<lambda>a. at_id a = attempt_id \<and> at_session_id a = sid \<and> at_outcome a = None)
      in if length (filter p (sv_attempts db)) \<noteq> 1 then Inl CeProjection
         else Inr (db\<lparr>sv_attempts := map (\<lambda>a. if p a then g a else a) (sv_attempts db)\<rparr>))"

definition owner_valid :: "string option \<Rightarrow> server_db \<Rightarrow> bool" where
  "owner_valid did db \<longleftrightarrow> list_ex (\<lambda>d. Some (dn_daemon_id d) = did \<and> \<not> dn_revoked d) (sv_daemons db)"

text \<open>The state, the retry delay and the class of a failed attempt.\<close>

definition failure_verdict :: "execution_session \<Rightarrow> string \<Rightarrow> int \<Rightarrow> server_db \<Rightarrow> string \<times> int option \<times> string" where
  "failure_verdict s reason jitter db =
     (let safe_class = (if es_cancel_requested s then ''cancelled''
                        else if is_unknown_failure reason then ''execution_outcome_unknown'' else ''runtime_failure'')
      in if es_cancel_requested s then (''Failed'', None, ''cancelled'')
         else if safe_class = ''execution_outcome_unknown'' then (''Failed'', None, safe_class)
         else if \<not> owner_valid (es_daemon_id s) db then (''Failed'', None, ''owner_unavailable'')
         else if es_max_attempts s \<le> es_attempt_count s then (''Failed'', None, ''retry_exhausted'')
         else (''Retrying'', Some (retry_delay_seconds (es_attempt_count s) jitter), safe_class))"

definition apply_event ::
  "clarification_env \<Rightarrow> int \<Rightarrow> nat \<Rightarrow> string \<Rightarrow> string \<Rightarrow> execution_session \<Rightarrow> clarification_event \<Rightarrow> server_db
   \<Rightarrow> clarification_event_error + server_db" where
  "apply_event env jitter now event_id sid s ev db =
     (case ev of
        EvSessionStarted runtime_id \<Rightarrow>
          Inr (on_session sid (\<lambda>s. s\<lparr>es_state := ''Running'', es_runtime_id := Some runtime_id, es_next_retry_at := None,
             es_failure_class := None, es_failure_reason := None,
             es_started_at := (case es_started_at s of None \<Rightarrow> Some now | t \<Rightarrow> t),
             es_updated_at := now, es_last_activity_at := now\<rparr>) db)
      | EvAgentMessage message_id body \<Rightarrow>
          (case find (\<lambda>(_, rid). Some rid = es_requirement_id s) (sv_conversations db) of
             None \<Rightarrow> Inl (CeDatabase ''row not found'')
           | Some (conversation_id, _) \<Rightarrow>
               if list_ex (\<lambda>m. mg_id m = message_id \<or> mg_source_event_id m = Some event_id) (sv_messages db) then Inl CeIntegrity
               else if \<not> cl_message_ok env body then Inl CeProjection
               else Inr (touch_session now sid (db\<lparr>sv_messages := sv_messages db @
                      [\<lparr>mg_id = message_id, mg_conversation_id = conversation_id, mg_author_user_id = None, mg_kind = ''agent'',
                        mg_body = body, mg_source_event_id = Some event_id\<rparr>]\<rparr>)))
      | EvActivity activity \<Rightarrow>
          if list_ex (\<lambda>a. ac_event_id a = event_id) (sv_activities db) then Inl (CeDatabase ''duplicate key'')
          else Inr (touch_session now sid (db\<lparr>sv_activities := sv_activities db @
                 [\<lparr>ac_event_id = event_id, ac_session_id = sid, ac_activity = activity, ac_created_at = now,
                   ac_expires_at = now + cl_retention_seconds env * 1000000\<rparr>]\<rparr>))
      | EvCompleted summary \<Rightarrow>
          (case es_current_attempt_id s of
             None \<Rightarrow> Inl CeProjection
           | Some attempt_id \<Rightarrow>
               and_then (close_attempt attempt_id sid (\<lambda>a. a\<lparr>at_outcome := Some ''completed''\<rparr>) db) (\<lambda>db.
               Inr (on_session sid (\<lambda>s. s\<lparr>es_state := ''Completed'', es_terminal_summary := Some summary,
                  es_current_attempt_id := None, es_next_retry_at := None, es_failure_class := None,
                  es_failure_reason := None, es_updated_at := now, es_last_activity_at := now\<rparr>) db)))
      | EvFailed _ reason \<Rightarrow>
          (case es_current_attempt_id s of
             None \<Rightarrow> Inl CeProjection
           | Some attempt_id \<Rightarrow>
               (case failure_verdict s reason jitter db of
                  (state, retry_delay, final_class) \<Rightarrow>
                    and_then (close_attempt attempt_id sid (\<lambda>a. a\<lparr>at_outcome := Some ''failed'', at_failure_event_id := Some event_id,
                        at_failure_class := Some final_class, at_failure_reason := Some final_class\<rparr>) db) (\<lambda>db.
                    Inr (on_session sid (\<lambda>s. s\<lparr>es_state := state, es_runtime_id := None, es_current_attempt_id := None,
                       es_next_retry_at := map_option (\<lambda>d. now + nat d * 1000000) retry_delay,
                       es_failure_class := Some final_class, es_failure_reason := Some final_class,
                       es_updated_at := now, es_last_activity_at := now\<rparr>) db)))))"

definition event_row :: "string \<Rightarrow> string \<Rightarrow> int \<Rightarrow> string \<Rightarrow> string \<Rightarrow> string option \<Rightarrow> event_receipt_row" where
  "event_row event_id sid seq digest payload reason =
     \<lparr>ev_event_id = event_id, ev_session_id = sid, ev_daemon_event_seq = seq, ev_payload_digest = digest, ev_payload = payload,
      ev_outcome = (if reason = None then ''accepted'' else ''rejected''), ev_rejection_reason = reason\<rparr>"

definition event_input_ok :: "clarification_env \<Rightarrow> string \<Rightarrow> string \<Rightarrow> u64 \<Rightarrow> string \<Rightarrow> string \<Rightarrow> clarification_event
   \<Rightarrow> clarification_event_error + unit" where
  "event_input_ok env event_id sid seq digest payload ev =
     (if blank event_id \<or> blank sid \<or> seq = 0 \<or> blank digest \<or> blank payload then Inl CeIntegrity
      else if (case ev of EvActivity activity \<Rightarrow> blank activity \<or> MAX_ACTIVITY_CHARS < char_count activity | _ \<Rightarrow> False)
      then Inl CeProjection
      else (case dg_from_str (cl_digests env) payload of
              None \<Rightarrow> Inl CeIntegrity
            | Some v \<Rightarrow> if canonical_payload_digest (cl_digests env) v \<noteq> digest then Inl CeIntegrity else Inr ()))"

definition project_event_tx ::
  "clarification_env \<Rightarrow> int \<Rightarrow> nat \<Rightarrow> string \<Rightarrow> string \<Rightarrow> u64 \<Rightarrow> string \<Rightarrow> string \<Rightarrow> clarification_event \<Rightarrow> server_db
   \<Rightarrow> clarification_event_error + (event_receipt_row + event_receipt) \<times> server_db" where
  "project_event_tx env jitter now event_id sid event_seq digest payload ev db =
     and_then (event_input_ok env event_id sid event_seq digest payload ev) (\<lambda>_.
     and_then (i64_try CeIntegrity event_seq) (\<lambda>seq.
     case map_of (sv_sessions db) sid of
       None \<Rightarrow> Inl CeNotClarificationSession
     | Some s \<Rightarrow>
         if es_start_message_id s = None then Inl CeNotClarificationSession
         else
           (case find (\<lambda>r. ev_event_id r = event_id) (sv_events db) of
              Some existing \<Rightarrow>
                if ev_session_id existing \<noteq> sid \<or> ev_daemon_event_seq existing \<noteq> seq \<or> ev_payload_digest existing \<noteq> digest
                then Inl CeIntegrity
                else Inr (Inl existing, db)
            | None \<Rightarrow>
                and_then (if es_event_ack_through_seq s < i64_max then Inr (es_event_ack_through_seq s + 1) else Inl CeIntegrity) (\<lambda>first.
                and_then (map_err (\<lambda>_. CeIntegrity) (next_expected first (es_event_ack_sparse s))) (\<lambda>expected.
                if expected < seq then Inl (CeGap (if 0 \<le> expected then word_of_int expected else u64_max) event_seq)
                else if seq \<le> es_event_ack_through_seq s then Inl CeIntegrity
                else
                  (case find (\<lambda>r. ev_session_id r = sid \<and> ev_daemon_event_seq r = seq) (sv_events db) of
                     Some existing \<Rightarrow> Inl (CeSequenceConflict (ev_event_id existing))
                   | None \<Rightarrow>
                       (let reason = projection_refusal s ev in
                        and_then (if reason = None then apply_event env jitter now event_id sid s ev db else Inr db) (\<lambda>db.
                        and_then (insert_generic_event_dedupe (event_row event_id sid seq digest payload reason) db) (\<lambda>db.
                        and_then (advance_clarification_watermark sid seq db) (\<lambda>db.
                        Inr (Inr \<lparr>rc_event_id = event_id, rc_session_id = sid, rc_daemon_event_seq = event_seq,
                                  rc_outcome = (if reason = None then ReceiptAccepted else ReceiptRejected),
                                  rc_rejection_reason = reason, rc_duplicate = False\<rparr>, db)))))))))))"

definition project_clarification_event ::
  "clarification_env \<Rightarrow> int \<Rightarrow> nat \<Rightarrow> string \<Rightarrow> string \<Rightarrow> u64 \<Rightarrow> string \<Rightarrow> string \<Rightarrow> clarification_event \<Rightarrow> server_db
   \<Rightarrow> (clarification_event_error + event_receipt) \<times> server_db" where
  "project_clarification_event env jitter now event_id sid seq digest payload ev =
     run_tx (project_event_tx env jitter now event_id sid seq digest payload ev) (case_sum (receipt_of_row True) Inr)"

section \<open>Retries\<close>

record retry_work =
  rk_requirement_id :: "string option"
  rk_command :: "pinned_command option"

definition due_retries :: "nat \<Rightarrow> string set \<Rightarrow> nat \<Rightarrow> server_db \<Rightarrow> string list" where
  "due_retries now locked limit db =
     take limit (map fst (sort_key (\<lambda>(_, s). case es_next_retry_at s of None \<Rightarrow> 0 | Some t \<Rightarrow> t)
       (sort_key fst (filter (\<lambda>(sid, s). es_state s = ''Retrying'' \<and> es_current_attempt_id s = None \<and> sid \<notin> locked
          \<and> (case es_next_retry_at s of None \<Rightarrow> False | Some t \<Rightarrow> t \<le> now)) (sv_sessions db)))))"

definition terminal_class :: "execution_session \<Rightarrow> server_db \<Rightarrow> string option" where
  "terminal_class s db =
     (if es_cancel_requested s then Some ''cancelled''
      else if es_max_attempts s \<le> es_attempt_count s then Some ''retry_exhausted''
      else if \<not> owner_valid (es_daemon_id s) db then Some ''owner_unavailable''
      else None)"

definition claim_retry ::
  "clarification_env \<Rightarrow> (string \<Rightarrow> string \<Rightarrow> string \<Rightarrow> u64 \<Rightarrow> string option) \<Rightarrow> (string \<Rightarrow> nat \<Rightarrow> nat) \<Rightarrow> nat
   \<Rightarrow> string \<Rightarrow> server_db \<Rightarrow> clarification_error + retry_work \<times> server_db" where
  "claim_retry env build rnd now sid db =
     (case map_of (sv_sessions db) sid of
        None \<Rightarrow> Inl (ClDatabase ''row not found'')
      | Some s \<Rightarrow>
          (case terminal_class s db of
             Some class \<Rightarrow>
               Inr (\<lparr>rk_requirement_id = es_requirement_id s, rk_command = None\<rparr>,
                    on_session sid (\<lambda>s. s\<lparr>es_state := ''Failed'', es_next_retry_at := None, es_current_attempt_id := None,
                       es_failure_class := Some class, es_failure_reason := Some class, es_updated_at := now,
                       es_last_activity_at := now\<rparr>) db)
           | None \<Rightarrow>
               (case es_daemon_id s of
                  None \<Rightarrow> Inl ClInvalidSessionState
                | Some did \<Rightarrow>
                    and_then (if es_attempt_count s < i64_max then u64_try ClInvalidSessionState (es_attempt_count s + 1)
                              else Inl ClInvalidSessionState) (\<lambda>number.
                    let cid = random_hex 16 (rnd sid); attempt_id = execution_attempt_id env sid (unat number) in
                    and_then (next_command_sequence sid db) (\<lambda>seq.
                    and_then (built (build did sid cid seq)) (\<lambda>payload.
                    and_then (insert_command env cid sid did seq payload db) (\<lambda>db.
                    and_then (i64_try ClInvalidSessionState number) (\<lambda>n.
                    and_then (insert_execution_attempt attempt_id sid n cid ''session.resume'' db) (\<lambda>db.
                    Inr (\<lparr>rk_requirement_id = es_requirement_id s, rk_command = Some
                           \<lparr>pc_command_id = cid, pc_session_id = sid, pc_daemon_id = did, pc_server_command_seq = seq,
                            pc_payload = payload, pc_payload_digest = payload_digest (cl_digests env) payload,
                            pc_command_identity_digest = command_identity_digest (cl_digests env) payload, pc_compacted = False\<rparr>\<rparr>,
                         on_session sid (\<lambda>x. x\<lparr>es_state := ''Running'', es_attempt_count := es_attempt_count s + 1,
                           es_current_attempt_id := Some attempt_id, es_next_retry_at := None, es_runtime_id := None,
                           es_failure_class := None, es_failure_reason := None, es_updated_at := now,
                           es_last_activity_at := now\<rparr>) db)))))))))) "

fun claim_retries ::
  "clarification_env \<Rightarrow> (string \<Rightarrow> string \<Rightarrow> string \<Rightarrow> u64 \<Rightarrow> string option) \<Rightarrow> (string \<Rightarrow> nat \<Rightarrow> nat) \<Rightarrow> nat
   \<Rightarrow> string list \<Rightarrow> server_db \<Rightarrow> clarification_error + retry_work list \<times> server_db" where
  "claim_retries env build rnd now [] db = Inr ([], db)"
| "claim_retries env build rnd now (sid # sids) db =
     and_then (claim_retry env build rnd now sid db) (\<lambda>(w, db).
     and_then (claim_retries env build rnd now sids db) (\<lambda>(ws, db). Inr (w # ws, db)))"

definition claim_due_retries ::
  "clarification_env \<Rightarrow> (string \<Rightarrow> string \<Rightarrow> string \<Rightarrow> u64 \<Rightarrow> string option) \<Rightarrow> (string \<Rightarrow> nat \<Rightarrow> nat) \<Rightarrow> nat
   \<Rightarrow> string set \<Rightarrow> int \<Rightarrow> server_db \<Rightarrow> (clarification_error + retry_work list) \<times> server_db" where
  "claim_due_retries env build rnd now locked limit =
     run_tx (\<lambda>db. if limit < 1 \<or> 1000 < limit then Inl ClInvalidContext
                  else claim_retries env build rnd now (due_retries now locked (nat limit) db) db) Inr"

end
