(* ===== verification/Daemon_Registry.thy ===== *)
theory Daemon_Registry
  imports Auth_Store Clarification_Store
begin

text \<open>
  Pairing of daemons and their connection leases: the first half of \<open>north-persistence/src/daemon.rs\<close>, up to
  \<open>revoke_daemon\<close>.

  \<^item> The tables \<open>daemon_setup_requests\<close> and \<open>daemon_registrations\<close> are lists of rows with their unique keys, foreign keys
    and \<open>CHECK\<close>s. The users' identities are an argument where a foreign key needs them. \<open>CURRENT_TIMESTAMP\<close> is the
    argument \<open>now\<close>, in microseconds, the same for the statements of one call.
  \<^item> The removal of old requests is a statement of its own: it stays when the transaction after it is dropped.
  \<^item> The input syntax of PostgreSQL's type \<open>cidr\<close> and \<open>serde_json\<close> on lists of strings are parameters.
\<close>

section \<open>Data\<close>

definition DAEMON_SETUP_TTL_SECONDS :: nat where "DAEMON_SETUP_TTL_SECONDS = 10 * 60"
definition DAEMON_SETUP_RETENTION_SECONDS :: nat where "DAEMON_SETUP_RETENTION_SECONDS = 24 * 60 * 60"
definition DAEMON_SETUP_CLEANUP_BATCH_SIZE :: nat where "DAEMON_SETUP_CLEANUP_BATCH_SIZE = 100"
definition DAEMON_SETUP_PENDING_LIMIT :: nat where "DAEMON_SETUP_PENDING_LIMIT = 3"

record daemon_setup_request =
  dsr_request_token :: string
  dsr_label :: string

datatype daemon_setup_claim = ClaimPending | ClaimClaimed string string

datatype daemon_setup_state = SetupPending | SetupApproved | SetupClaimed

record daemon_setup_preview =
  dsp_label :: string
  dsp_state :: daemon_setup_state

record daemon_registration =
  dr_daemon_id :: string
  dr_label :: string
  dr_created_by :: string
  dr_created_at :: nat
  dr_revoked_at :: "nat option"
  dr_last_seen_at :: "nat option"
  dr_connected :: bool
  dr_protocol_version :: string
  dr_capabilities :: "string list"

record authenticated_daemon =
  ad_daemon_id :: string
  ad_connection_id :: string

record setup_row =
  sr_id :: string
  sr_token_hash :: string
  sr_label :: string
  sr_created_by :: "string option"
  sr_expires_at :: nat
  sr_approved_at :: "nat option"
  sr_claimed_at :: "nat option"
  sr_daemon_id :: "string option"
  sr_network_key :: "string option"

record registration_row =
  rr_daemon_id :: string
  rr_credential_hash :: string
  rr_label :: string
  rr_created_by :: string
  rr_created_at :: nat
  rr_revoked_at :: "nat option"
  rr_last_seen_at :: "nat option"
  rr_connected_at :: "nat option"
  rr_connection_id :: "string option"
  rr_protocol_version :: string
  rr_capabilities :: string

record registry =
  rg_setups :: "setup_row list"
  rg_daemons :: "registration_row list"

record registry_env =
  re_auth :: auth_env
  re_cidr :: "string \<Rightarrow> string option"
  re_to_string :: "string list \<Rightarrow> string option"
  re_from_str :: "string \<Rightarrow> string list option"

section \<open>Setup requests\<close>

definition long_expired :: "nat \<Rightarrow> setup_row \<Rightarrow> bool" where
  "long_expired now s \<longleftrightarrow> sr_expires_at s + DAEMON_SETUP_RETENTION_SECONDS * 1000000 < now"

definition cleanup_expired_daemon_setup_requests :: "nat \<Rightarrow> registry \<Rightarrow> nat \<times> registry" where
  "cleanup_expired_daemon_setup_requests now rg =
     (let expired = take DAEMON_SETUP_CLEANUP_BATCH_SIZE (sort_key sr_expires_at (filter (long_expired now) (rg_setups rg)));
          kept = filter (\<lambda>s. sr_id s \<notin> sr_id ` set expired) (rg_setups rg)
      in (length (rg_setups rg) - length kept, rg\<lparr>rg_setups := kept\<rparr>))"

text \<open>\<open>CHECK (char_length(btrim(label)) BETWEEN 1 AND 100)\<close>; \<open>btrim\<close> removes spaces only.\<close>

definition btrim :: "string \<Rightarrow> string" where
  "btrim s = rev (dropWhile ((=) CHR '' '') (rev (dropWhile ((=) CHR '' '') s)))"

definition label_ok :: "string \<Rightarrow> bool" where
  "label_ok label \<longleftrightarrow> 1 \<le> char_count (btrim label) \<and> char_count (btrim label) \<le> 100"

definition pending_setup :: "nat \<Rightarrow> string \<Rightarrow> setup_row \<Rightarrow> bool" where
  "pending_setup now key s \<longleftrightarrow> sr_network_key s = Some key \<and> sr_claimed_at s = None \<and> now < sr_expires_at s"

definition insert_setup :: "setup_row \<Rightarrow> registry \<Rightarrow> persistence_error + registry" where
  "insert_setup s rg =
     (if list_ex (\<lambda>x. sr_id x = sr_id s \<or> sr_token_hash x = sr_token_hash s) (rg_setups rg) then Inl (Database ''duplicate key'')
      else if \<not> label_ok (sr_label s) then Inl (Database ''check constraint'')
      else Inr (rg\<lparr>rg_setups := rg_setups rg @ [s]\<rparr>))"

definition create_setup_tx ::
  "registry_env \<Rightarrow> (nat \<Rightarrow> nat) \<Rightarrow> (nat \<Rightarrow> nat) \<Rightarrow> nat \<Rightarrow> string \<Rightarrow> string \<Rightarrow> registry \<Rightarrow> persistence_error + daemon_setup_request \<times> registry" where
  "create_setup_tx env rnd1 rnd2 now label client_network_key rg =
     (case re_cidr env client_network_key of
        None \<Rightarrow> Inl (Database ''invalid cidr'')
      | Some key \<Rightarrow>
          if DAEMON_SETUP_PENDING_LIMIT \<le> length (filter (pending_setup now key) (rg_setups rg)) then Inl RateLimited
          else
            (let request_token = random_hex 32 rnd1 in
             and_then (insert_setup
               \<lparr>sr_id = random_hex 16 rnd2, sr_token_hash = hash_secret (re_auth env) request_token, sr_label = label,
                sr_created_by = None, sr_expires_at = now + DAEMON_SETUP_TTL_SECONDS * 1000000, sr_approved_at = None,
                sr_claimed_at = None, sr_daemon_id = None, sr_network_key = Some key\<rparr> rg) (\<lambda>rg.
             Inr (\<lparr>dsr_request_token = request_token, dsr_label = label\<rparr>, rg))))"

definition registry_tx :: "(registry \<Rightarrow> persistence_error + 'a \<times> registry) \<Rightarrow> registry \<Rightarrow> (persistence_error + 'a) \<times> registry" where
  "registry_tx tx rg = (case tx rg of Inl e \<Rightarrow> (Inl e, rg) | Inr (a, rg') \<Rightarrow> (Inr a, rg'))"

definition create_daemon_setup_request ::
  "registry_env \<Rightarrow> (nat \<Rightarrow> nat) \<Rightarrow> (nat \<Rightarrow> nat) \<Rightarrow> nat \<Rightarrow> string \<Rightarrow> string \<Rightarrow> registry \<Rightarrow> (persistence_error + daemon_setup_request) \<times> registry" where
  "create_daemon_setup_request env rnd1 rnd2 now label client_network_key rg =
     (if blank client_network_key then (Inl InvalidSetup, rg)
      else registry_tx (create_setup_tx env rnd1 rnd2 now label client_network_key)
             (snd (cleanup_expired_daemon_setup_requests now rg)))"

definition setup_by_token :: "registry_env \<Rightarrow> string \<Rightarrow> registry \<Rightarrow> setup_row option" where
  "setup_by_token env request_token rg =
     find (\<lambda>s. sr_token_hash s = hash_secret (re_auth env) request_token) (rg_setups rg)"

definition preview_daemon_setup_request :: "registry_env \<Rightarrow> nat \<Rightarrow> string \<Rightarrow> registry \<Rightarrow> persistence_error + daemon_setup_preview" where
  "preview_daemon_setup_request env now request_token rg =
     (case setup_by_token env request_token rg of
        None \<Rightarrow> Inl SetupNotFound
      | Some s \<Rightarrow>
          if sr_expires_at s \<le> now then Inl SetupExpired
          else Inr \<lparr>dsp_label = sr_label s,
                    dsp_state = (if sr_claimed_at s \<noteq> None then SetupClaimed
                                 else if sr_approved_at s \<noteq> None then SetupApproved else SetupPending)\<rparr>)"

definition approvable :: "nat \<Rightarrow> setup_row \<Rightarrow> bool" where
  "approvable now s \<longleftrightarrow> now < sr_expires_at s \<and> sr_approved_at s = None \<and> sr_claimed_at s = None"

definition approve_row :: "nat \<Rightarrow> string \<Rightarrow> string \<Rightarrow> setup_row \<Rightarrow> setup_row" where
  "approve_row now token_hash user_id s =
     (if sr_token_hash s = token_hash \<and> approvable now s
      then s\<lparr>sr_created_by := Some user_id, sr_approved_at := Some now\<rparr> else s)"

definition approve_daemon_setup_request ::
  "registry_env \<Rightarrow> string list \<Rightarrow> nat \<Rightarrow> string \<Rightarrow> string \<Rightarrow> registry \<Rightarrow> (persistence_error + unit) \<times> registry" where
  "approve_daemon_setup_request env users now request_token user_id rg =
     (let token_hash = hash_secret (re_auth env) request_token;
          updated = filter (\<lambda>s. sr_token_hash s = token_hash \<and> approvable now s) (rg_setups rg)
      in if updated \<noteq> [] \<and> user_id \<notin> set users then (Inl (Database ''foreign key''), rg)
         else if length updated = 1 then (Inr (), rg\<lparr>rg_setups := map (approve_row now token_hash user_id) (rg_setups rg)\<rparr>)
         else
           (Inl (case setup_by_token env request_token rg of
                   None \<Rightarrow> SetupNotFound
                 | Some s \<Rightarrow> if sr_claimed_at s \<noteq> None then SetupAlreadyClaimed
                     else if sr_approved_at s \<noteq> None then SetupAlreadyApproved
                     else if sr_expires_at s \<le> now then SetupExpired else SetupNotFound), rg))"

text \<open>\<open>length updated = 1\<close> is \<open>rows_affected() == 1\<close>; the hash is unique, so more rows never match.\<close>

definition insert_registration :: "string list \<Rightarrow> registration_row \<Rightarrow> registry \<Rightarrow> persistence_error + registry" where
  "insert_registration users d rg =
     (if list_ex (\<lambda>x. rr_daemon_id x = rr_daemon_id d \<or> rr_credential_hash x = rr_credential_hash d) (rg_daemons rg)
      then Inl (Database ''duplicate key'')
      else if rr_created_by d \<notin> set users then Inl (Database ''foreign key'')
      else if \<not> label_ok (rr_label d) then Inl (Database ''check constraint'')
      else Inr (rg\<lparr>rg_daemons := rg_daemons rg @ [d]\<rparr>))"

definition claim_row :: "nat \<Rightarrow> string \<Rightarrow> string \<Rightarrow> setup_row \<Rightarrow> setup_row" where
  "claim_row now token_hash daemon_id s =
     (if sr_token_hash s = token_hash then s\<lparr>sr_claimed_at := Some now, sr_daemon_id := Some daemon_id\<rparr> else s)"

definition new_registration :: "nat \<Rightarrow> string \<Rightarrow> string \<Rightarrow> string \<Rightarrow> string \<Rightarrow> registration_row" where
  "new_registration now daemon_id credential_hash label created_by =
     \<lparr>rr_daemon_id = daemon_id, rr_credential_hash = credential_hash, rr_label = label, rr_created_by = created_by,
      rr_created_at = now, rr_revoked_at = None, rr_last_seen_at = None, rr_connected_at = None, rr_connection_id = None,
      rr_protocol_version = ''0.1'', rr_capabilities = ''[]''\<rparr>"

definition claim_setup_tx ::
  "registry_env \<Rightarrow> string list \<Rightarrow> (nat \<Rightarrow> nat) \<Rightarrow> (nat \<Rightarrow> nat) \<Rightarrow> nat \<Rightarrow> string \<Rightarrow> registry \<Rightarrow> persistence_error + daemon_setup_claim \<times> registry" where
  "claim_setup_tx env users rnd1 rnd2 now request_token rg =
     (case setup_by_token env request_token rg of
        None \<Rightarrow> Inl SetupNotFound
      | Some s \<Rightarrow>
          if sr_claimed_at s \<noteq> None then Inl SetupAlreadyClaimed
          else if sr_expires_at s \<le> now then Inl SetupExpired
          else if sr_approved_at s = None then Inr (ClaimPending, rg)
          else
            (case sr_created_by s of
               None \<Rightarrow> Inl InvalidSetup
             | Some created_by \<Rightarrow>
                 (let daemon_id = random_hex 16 rnd1; credential = random_hex 32 rnd2 in
                  and_then (insert_registration users
                    (new_registration now daemon_id (hash_secret (re_auth env) credential) (sr_label s) created_by) rg) (\<lambda>rg.
                  Inr (ClaimClaimed daemon_id credential,
                       rg\<lparr>rg_setups := map (claim_row now (hash_secret (re_auth env) request_token) daemon_id) (rg_setups rg)\<rparr>)))))"

definition claim_daemon_setup_request ::
  "registry_env \<Rightarrow> string list \<Rightarrow> (nat \<Rightarrow> nat) \<Rightarrow> (nat \<Rightarrow> nat) \<Rightarrow> nat \<Rightarrow> string \<Rightarrow> registry \<Rightarrow> (persistence_error + daemon_setup_claim) \<times> registry" where
  "claim_daemon_setup_request env users rnd1 rnd2 now request_token rg =
     registry_tx (claim_setup_tx env users rnd1 rnd2 now request_token) (snd (cleanup_expired_daemon_setup_requests now rg))"

section \<open>Registrations\<close>

definition seen_recently :: "nat \<Rightarrow> registration_row \<Rightarrow> bool" where
  "seen_recently now d \<longleftrightarrow> (case rr_last_seen_at d of None \<Rightarrow> False | Some t \<Rightarrow> now < t + 45 * 1000000)"

definition decode_capabilities :: "registry_env \<Rightarrow> string \<Rightarrow> persistence_error + string list" where
  "decode_capabilities env value = (case re_from_str env value of None \<Rightarrow> Inl InvalidCapabilities | Some cs \<Rightarrow> Inr cs)"

definition encode_capabilities :: "registry_env \<Rightarrow> string list \<Rightarrow> persistence_error + string" where
  "encode_capabilities env capabilities = (case re_to_string env capabilities of None \<Rightarrow> Inl InvalidCapabilities | Some s \<Rightarrow> Inr s)"

definition registration_into_domain :: "registry_env \<Rightarrow> nat \<Rightarrow> registration_row \<Rightarrow> persistence_error + daemon_registration" where
  "registration_into_domain env now d =
     and_then (decode_capabilities env (rr_capabilities d)) (\<lambda>capabilities.
     Inr \<lparr>dr_daemon_id = rr_daemon_id d, dr_label = rr_label d, dr_created_by = rr_created_by d, dr_created_at = rr_created_at d,
          dr_revoked_at = rr_revoked_at d, dr_last_seen_at = rr_last_seen_at d,
          dr_connected = (rr_connected_at d \<noteq> None \<and> rr_revoked_at d = None \<and> seen_recently now d),
          dr_protocol_version = rr_protocol_version d, dr_capabilities = capabilities\<rparr>)"

definition list_daemons :: "registry_env \<Rightarrow> nat \<Rightarrow> registry \<Rightarrow> persistence_error + daemon_registration list" where
  "list_daemons env now rg =
     collect_results (map (registration_into_domain env now) (sort_key rr_label (sort_key rr_daemon_id (rg_daemons rg))))"

definition find_registration :: "string \<Rightarrow> registry \<Rightarrow> registration_row option" where
  "find_registration daemon_id rg = find (\<lambda>d. rr_daemon_id d = daemon_id) (rg_daemons rg)"

definition daemon_by_id :: "registry_env \<Rightarrow> nat \<Rightarrow> string \<Rightarrow> registry \<Rightarrow> persistence_error + daemon_registration option" where
  "daemon_by_id env now daemon_id rg =
     (case find_registration daemon_id rg of
        None \<Rightarrow> Inr None
      | Some d \<Rightarrow> map_sum id Some (registration_into_domain env now d))"

definition update_registrations :: "(registration_row \<Rightarrow> bool) \<Rightarrow> (registration_row \<Rightarrow> registration_row) \<Rightarrow> registry \<Rightarrow> registry" where
  "update_registrations P f rg = rg\<lparr>rg_daemons := map (\<lambda>d. if P d then f d else d) (rg_daemons rg)\<rparr>"

definition drop_lease :: "registration_row \<Rightarrow> registration_row" where
  "drop_lease d = d\<lparr>rr_connected_at := None, rr_connection_id := None\<rparr>"

definition invalidate_daemon_connections :: "registry \<Rightarrow> nat \<times> registry" where
  "invalidate_daemon_connections rg =
     (let P = (\<lambda>d. rr_connected_at d \<noteq> None \<or> rr_connection_id d \<noteq> None)
      in (length (filter P (rg_daemons rg)), update_registrations P drop_lease rg))"

definition take_lease :: "nat \<Rightarrow> string \<Rightarrow> string \<Rightarrow> string \<Rightarrow> registration_row \<Rightarrow> registration_row" where
  "take_lease now protocol_version capabilities connection_id d =
     d\<lparr>rr_protocol_version := protocol_version, rr_capabilities := capabilities, rr_connected_at := Some now,
       rr_last_seen_at := Some now, rr_connection_id := Some connection_id\<rparr>"

definition connect_tx ::
  "registry_env \<Rightarrow> (nat \<Rightarrow> nat) \<Rightarrow> nat \<Rightarrow> string \<Rightarrow> string \<Rightarrow> string \<Rightarrow> string \<Rightarrow> registry \<Rightarrow> persistence_error + authenticated_daemon \<times> registry" where
  "connect_tx env rnd now daemon_id credential protocol_version capabilities rg =
     (case find_registration daemon_id rg of
        None \<Rightarrow> Inl InvalidDaemonCredential
      | Some d \<Rightarrow>
          if rr_revoked_at d \<noteq> None then Inl RevokedDaemon
          else if rr_credential_hash d \<noteq> hash_secret (re_auth env) credential then Inl InvalidDaemonCredential
          else
            (let connection_id = random_hex 16 rnd in
             if list_ex (\<lambda>x. rr_daemon_id x \<noteq> daemon_id \<and> rr_connection_id x = Some connection_id) (rg_daemons rg)
             then Inl (Database ''duplicate key'')
             else if btrim protocol_version = [] then Inl (Database ''check constraint'')
             else Inr (\<lparr>ad_daemon_id = daemon_id, ad_connection_id = connection_id\<rparr>,
                       update_registrations (\<lambda>x. rr_daemon_id x = daemon_id \<and> rr_revoked_at x = None)
                         (take_lease now protocol_version capabilities connection_id) rg)))"

definition connect_daemon ::
  "registry_env \<Rightarrow> (nat \<Rightarrow> nat) \<Rightarrow> nat \<Rightarrow> string \<Rightarrow> string \<Rightarrow> string \<Rightarrow> string list \<Rightarrow> registry
   \<Rightarrow> (persistence_error + authenticated_daemon) \<times> registry" where
  "connect_daemon env rnd now daemon_id credential protocol_version capabilities rg =
     (case encode_capabilities env capabilities of
        Inl e \<Rightarrow> (Inl e, rg)
      | Inr encoded \<Rightarrow> registry_tx (connect_tx env rnd now daemon_id credential protocol_version encoded) rg)"

definition holds_lease :: "string \<Rightarrow> string \<Rightarrow> registration_row \<Rightarrow> bool" where
  "holds_lease daemon_id connection_id d \<longleftrightarrow> rr_daemon_id d = daemon_id \<and> rr_connection_id d = Some connection_id"

definition touch_daemon :: "nat \<Rightarrow> string \<Rightarrow> string \<Rightarrow> registry \<Rightarrow> (persistence_error + unit) \<times> registry" where
  "touch_daemon now daemon_id connection_id rg =
     (let P = (\<lambda>d. holds_lease daemon_id connection_id d \<and> rr_revoked_at d = None)
      in (if length (filter P (rg_daemons rg)) = 1 then Inr () else Inl InvalidDaemonCredential,
          update_registrations P (\<lambda>d. d\<lparr>rr_last_seen_at := Some now\<rparr>) rg))"

definition disconnect_daemon :: "string \<Rightarrow> string \<Rightarrow> registry \<Rightarrow> registry" where
  "disconnect_daemon daemon_id connection_id rg = update_registrations (holds_lease daemon_id connection_id) drop_lease rg"

definition revoke_row :: "nat \<Rightarrow> registration_row \<Rightarrow> registration_row" where
  "revoke_row now d = drop_lease (d\<lparr>rr_revoked_at := (case rr_revoked_at d of None \<Rightarrow> Some now | r \<Rightarrow> r)\<rparr>)"

definition revoke_daemon :: "nat \<Rightarrow> string \<Rightarrow> registry \<Rightarrow> (persistence_error + string option) \<times> registry" where
  "revoke_daemon now daemon_id rg =
     (case find_registration daemon_id rg of
        None \<Rightarrow> (Inl DaemonNotFound, rg)
      | Some d \<Rightarrow> (Inr (rr_connection_id d), update_registrations (\<lambda>x. rr_daemon_id x = daemon_id) (revoke_row now) rg))"

text \<open>The columns that the assignment of runs reads.\<close>

definition daemon_row_of :: "registration_row \<Rightarrow> daemon_row" where
  "daemon_row_of d =
     \<lparr>dn_daemon_id = rr_daemon_id d, dn_capabilities = rr_capabilities d, dn_protocol_version = rr_protocol_version d,
      dn_connected = (rr_connected_at d \<noteq> None), dn_revoked = (rr_revoked_at d \<noteq> None), dn_last_seen_at = rr_last_seen_at d\<rparr>"

end
