(* ===== verification/Daemon_Pairing.thy ===== *)
theory Daemon_Pairing
  imports Daemon_Registry "HOL-Library.Code_Target_Nat"
begin

text \<open>
  What pairing and the connection leases guarantee over every history of the registry.

  \<^item> \<open>registry_effect\<close> is the contract of one call, by its label; \<open>registry_operation\<close> is the locale of the callers that
    keep it, and the histories are proved in it once. It is interpreted for the store's own calls.
  \<^item> \<open>lease_of\<close> is the reference: the lease of a daemon as a fold over the labels of the history.
\<close>

section \<open>The contract of a call\<close>

text \<open>A request is named by the hash of its token. \<open>Registered\<close> carries the hash, the daemon, the approving user and the
  hash of the credential.\<close>

datatype reg_label =
    Requested string string
  | Approved string string
  | Registered string string string string
  | Leased string string
  | Touched string string
  | Released string string
  | Revoked string
  | Reset
  | Quiet

definition cleaned :: "nat \<Rightarrow> registry \<Rightarrow> registry \<Rightarrow> bool" where
  "cleaned now rg m \<longleftrightarrow> rg_daemons m = rg_daemons rg
     \<and> (\<exists>P. rg_setups m = filter P (rg_setups rg) \<and> (\<forall>s\<in>set (rg_setups rg). \<not> P s \<longrightarrow> sr_expires_at s < now))"

inductive registry_effect :: "nat \<Rightarrow> reg_label \<Rightarrow> registry \<Rightarrow> registry \<Rightarrow> bool" for now where
  quiet: "cleaned now rg m \<Longrightarrow> registry_effect now Quiet rg m"
| requested: "cleaned now rg m \<Longrightarrow> sr_token_hash s \<notin> sr_token_hash ` set (rg_setups m) \<Longrightarrow> sr_id s \<notin> sr_id ` set (rg_setups m)
    \<Longrightarrow> length (filter (pending_setup now key) (rg_setups m)) < DAEMON_SETUP_PENDING_LIMIT
    \<Longrightarrow> sr_created_by s = None \<Longrightarrow> sr_approved_at s = None \<Longrightarrow> sr_claimed_at s = None \<Longrightarrow> sr_network_key s = Some key
    \<Longrightarrow> sr_expires_at s = now + DAEMON_SETUP_TTL_SECONDS * 1000000
    \<Longrightarrow> registry_effect now (Requested (sr_token_hash s) key) rg (m\<lparr>rg_setups := rg_setups m @ [s]\<rparr>)"
| approved: "s \<in> set (rg_setups rg) \<Longrightarrow> sr_token_hash s = h \<Longrightarrow> approvable now s
    \<Longrightarrow> registry_effect now (Approved h uid) rg (rg\<lparr>rg_setups := map (approve_row now h uid) (rg_setups rg)\<rparr>)"
| registered: "cleaned now rg m \<Longrightarrow> s \<in> set (rg_setups m) \<Longrightarrow> sr_token_hash s = h \<Longrightarrow> sr_claimed_at s = None \<Longrightarrow> now < sr_expires_at s
    \<Longrightarrow> sr_approved_at s \<noteq> None \<Longrightarrow> sr_created_by s = Some uid \<Longrightarrow> did \<notin> rr_daemon_id ` set (rg_daemons m)
    \<Longrightarrow> c \<notin> rr_credential_hash ` set (rg_daemons m)
    \<Longrightarrow> registry_effect now (Registered h did uid c) rg
          (m\<lparr>rg_daemons := rg_daemons m @ [new_registration now did c label uid], rg_setups := map (claim_row now h did) (rg_setups m)\<rparr>)"
| leased: "d \<in> set (rg_daemons rg) \<Longrightarrow> rr_daemon_id d = did \<Longrightarrow> rr_revoked_at d = None
    \<Longrightarrow> (\<And>x. x \<in> set (rg_daemons rg) \<Longrightarrow> rr_daemon_id x \<noteq> did \<Longrightarrow> rr_connection_id x \<noteq> Some conn)
    \<Longrightarrow> registry_effect now (Leased did conn) rg
          (update_registrations (\<lambda>x. rr_daemon_id x = did \<and> rr_revoked_at x = None) (take_lease now version capabilities conn) rg)"
| touched: "d \<in> set (rg_daemons rg) \<Longrightarrow> holds_lease did conn d \<Longrightarrow> rr_revoked_at d = None
    \<Longrightarrow> registry_effect now (Touched did conn) rg
          (update_registrations (\<lambda>x. holds_lease did conn x \<and> rr_revoked_at x = None) (\<lambda>x. x\<lparr>rr_last_seen_at := Some now\<rparr>) rg)"
| released: "registry_effect now (Released did conn) rg (disconnect_daemon did conn rg)"
| revoked: "did \<in> rr_daemon_id ` set (rg_daemons rg) \<Longrightarrow> registry_effect now (Revoked did) rg (update_registrations (\<lambda>x. rr_daemon_id x = did) (revoke_row now) rg)"
| reset: "registry_effect now Reset rg (snd (invalidate_daemon_connections rg))"

inductive_cases effect_cases: "registry_effect now l rg rg'"

section \<open>The invariant\<close>

definition setups_ok :: "setup_row list \<Rightarrow> bool" where
  "setups_ok ss \<longleftrightarrow> distinct (map sr_token_hash ss) \<and> distinct (map sr_id ss) \<and> list_all (\<lambda>s. (sr_approved_at s = None) = (sr_created_by s = None)) ss"

definition lease_ok :: "registration_row \<Rightarrow> bool" where
  "lease_ok d \<longleftrightarrow> (rr_connected_at d = None) = (rr_connection_id d = None) \<and> (rr_revoked_at d \<noteq> None \<longrightarrow> rr_connection_id d = None)"

definition leases_distinct :: "registration_row list \<Rightarrow> bool" where
  "leases_distinct ds \<longleftrightarrow> (\<forall>x\<in>set ds. \<forall>y\<in>set ds. \<forall>c. rr_connection_id x = Some c \<longrightarrow> rr_connection_id y = Some c \<longrightarrow> rr_daemon_id x = rr_daemon_id y)"

definition daemons_ok :: "registration_row list \<Rightarrow> bool" where
  "daemons_ok ds \<longleftrightarrow> distinct (map rr_daemon_id ds) \<and> distinct (map rr_credential_hash ds) \<and> list_all lease_ok ds \<and> leases_distinct ds"

definition registry_ok :: "registry \<Rightarrow> bool" where
  "registry_ok rg \<longleftrightarrow> setups_ok (rg_setups rg) \<and> daemons_ok (rg_daemons rg)"

lemma cleaned_refl: "cleaned now rg rg"
  unfolding cleaned_def by (rule conjI[OF refl], rule exI[of _ "\<lambda>_. True"]) simp


lemma cleanup_cleaned:
  assumes "setups_ok (rg_setups rg)"
  shows "cleaned now rg (snd (cleanup_expired_daemon_setup_requests now rg))"
proof -
  let ?x = "take DAEMON_SETUP_CLEANUP_BATCH_SIZE (sort_key sr_expires_at (filter (long_expired now) (rg_setups rg)))"
  have x: "s \<in> set (rg_setups rg) \<and> sr_expires_at s < now" if "s \<in> set ?x" for s
    using in_set_takeD[OF that] by (auto simp: long_expired_def)
  have "sr_expires_at s < now" if s: "s \<in> set (rg_setups rg)" and i: "sr_id s \<in> sr_id ` set ?x" for s
  proof -
    obtain y where "y \<in> set ?x" "sr_id s = sr_id y" using i by blast
    then have "s = y" using assms s x[of y] by (auto simp: setups_ok_def distinct_map dest: inj_onD)
    then show ?thesis using x[OF \<open>y \<in> set ?x\<close>] by simp
  qed
  then show ?thesis
    unfolding cleaned_def cleanup_expired_daemon_setup_requests_def Let_def by (intro conjI exI[of _ "\<lambda>s. sr_id s \<notin> sr_id ` set ?x"]) auto
qed

lemma cleaned_sub: "cleaned now rg m \<Longrightarrow> set (rg_setups m) \<subseteq> set (rg_setups rg)"
  by (auto simp: cleaned_def)

lemma cleaned_daemons: "cleaned now rg m \<Longrightarrow> rg_daemons m = rg_daemons rg"
  by (simp add: cleaned_def)

lemma setups_ok_cleaned:
  assumes "cleaned now rg m" "setups_ok (rg_setups rg)"
  shows "setups_ok (rg_setups m)"
proof -
  obtain P where P: "rg_setups m = filter P (rg_setups rg)" using assms(1) by (auto simp: cleaned_def)
  show ?thesis using assms(2) unfolding P by (auto simp: setups_ok_def distinct_map inj_on_def list_all_iff)
qed

lemma setups_ok_map:
  assumes "setups_ok ss" "\<And>s. s \<in> set ss \<Longrightarrow> sr_token_hash (f s) = sr_token_hash s \<and> sr_id (f s) = sr_id s
    \<and> (sr_approved_at (f s) = None) = (sr_created_by (f s) = None)"
  shows "setups_ok (map f ss)"
proof -
  have "map sr_token_hash (map f ss) = map sr_token_hash ss" "map sr_id (map f ss) = map sr_id ss" using assms(2) by simp_all
  then have "distinct (map sr_token_hash (map f ss))" "distinct (map sr_id (map f ss))" using assms(1) by (simp_all only: setups_ok_def)
  then show ?thesis using assms(2) by (simp add: setups_ok_def list_all_iff)
qed

lemma setups_okD: "setups_ok ss \<Longrightarrow> s \<in> set ss \<Longrightarrow> (sr_approved_at s = None) = (sr_created_by s = None)"
  by (simp add: setups_ok_def list_all_iff)

lemma setups_ok_effect:
  assumes "registry_effect now l rg rg'" "setups_ok (rg_setups rg)"
  shows "setups_ok (rg_setups rg')"
  using assms(1)
proof cases
  case (requested m s key)
  have "setups_ok (rg_setups m)" by (rule setups_ok_cleaned[OF requested(3) assms(2)])
  then show ?thesis using requested by (auto simp: setups_ok_def)
next
  case (approved s h uid)
  show ?thesis unfolding approved(2) by (simp add: setups_ok_map[OF assms(2)] approve_row_def setups_okD[OF assms(2)])
next
  case (registered m s h uid did c label)
  have "setups_ok (rg_setups m)" by (rule setups_ok_cleaned[OF registered(3) assms(2)])
  then show ?thesis unfolding registered(2) by (simp add: setups_ok_map claim_row_def setups_okD)
qed (use assms(2) in \<open>auto simp: update_registrations_def disconnect_daemon_def invalidate_daemon_connections_def Let_def
      intro: setups_ok_cleaned\<close>)

text \<open>An update of the registrations that keeps identities and credentials and hands out no lease that another daemon has.\<close>

lemma daemons_ok_update:
  assumes "daemons_ok (rg_daemons rg)"
    and "\<And>x. x \<in> set (rg_daemons rg) \<Longrightarrow> P x \<Longrightarrow> rr_daemon_id (f x) = rr_daemon_id x \<and> rr_credential_hash (f x) = rr_credential_hash x \<and> lease_ok (f x)"
    and "\<And>x y c. x \<in> set (rg_daemons rg) \<Longrightarrow> P x \<Longrightarrow> rr_connection_id (f x) = Some c \<Longrightarrow> y \<in> set (rg_daemons rg)
      \<Longrightarrow> rr_daemon_id y \<noteq> rr_daemon_id x \<Longrightarrow> rr_connection_id (if P y then f y else y) \<noteq> Some c"
  shows "daemons_ok (rg_daemons (update_registrations P f rg))"
proof -
  let ?g = "\<lambda>x. if P x then f x else x" and ?ds = "rg_daemons rg"
  have "map rr_daemon_id (map ?g ?ds) = map rr_daemon_id ?ds" "map rr_credential_hash (map ?g ?ds) = map rr_credential_hash ?ds"
    using assms(2) by simp_all
  then have "distinct (map rr_daemon_id (map ?g ?ds))" "distinct (map rr_credential_hash (map ?g ?ds))"
    using assms(1) by (simp_all only: daemons_ok_def)
  moreover have "list_all lease_ok (map ?g ?ds)" using assms(1,2) unfolding daemons_ok_def list_all_iff by fastforce
  moreover have "leases_distinct (map ?g ?ds)"
    unfolding leases_distinct_def
  proof (intro ballI allI impI)
    fix x y c assume "x \<in> set (map ?g ?ds)" "y \<in> set (map ?g ?ds)" and c: "rr_connection_id x = Some c" "rr_connection_id y = Some c"
    then obtain a b where ab: "a \<in> set ?ds" "x = ?g a" "b \<in> set ?ds" "y = ?g b" by auto
    have ids: "rr_daemon_id (?g a) = rr_daemon_id a" "rr_daemon_id (?g b) = rr_daemon_id b" using assms(2) ab by auto
    show "rr_daemon_id x = rr_daemon_id y"
    proof (rule ccontr)
      assume "rr_daemon_id x \<noteq> rr_daemon_id y"
      then have ne: "rr_daemon_id a \<noteq> rr_daemon_id b" "rr_daemon_id b \<noteq> rr_daemon_id a" using ab ids by simp_all
      consider "P a" | "P b" | "\<not> P a" "\<not> P b" by blast
      then show False
      proof cases
        case 1
        then show ?thesis using assms(3)[OF ab(1) _ _ ab(3) ne(2), of c] c ab by simp
      next
        case 2
        then show ?thesis using assms(3)[OF ab(3) _ _ ab(1) ne(1), of c] c ab by simp
      next
        case 3
        then have "rr_connection_id a = Some c" "rr_connection_id b = Some c" using c ab by simp_all
        then show ?thesis using assms(1) ab(1,3) ne unfolding daemons_ok_def leases_distinct_def by blast
      qed
    qed
  qed
  ultimately show ?thesis by (simp add: daemons_ok_def update_registrations_def)
qed

lemma leases_distinct_snoc:
  assumes "leases_distinct ds" "rr_connection_id n = None"
  shows "leases_distinct (ds @ [n])"
  unfolding leases_distinct_def
proof (intro ballI allI impI)
  fix x y c assume x: "x \<in> set (ds @ [n])" "rr_connection_id x = Some c" and y: "y \<in> set (ds @ [n])" "rr_connection_id y = Some c"
  have "x \<noteq> n" "y \<noteq> n" using assms(2) x(2) y(2) by force+
  then have "x \<in> set ds" "y \<in> set ds" using x(1) y(1) by simp_all
  then show "rr_daemon_id x = rr_daemon_id y" using assms(1) x(2) y(2) unfolding leases_distinct_def by blast
qed

lemma daemons_okD:
  assumes "daemons_ok ds" "x \<in> set ds"
  shows "lease_ok x" "y \<in> set ds \<Longrightarrow> rr_daemon_id x = rr_daemon_id y \<Longrightarrow> x = y"
    "y \<in> set ds \<Longrightarrow> rr_connection_id x = Some c \<Longrightarrow> rr_connection_id y = Some c \<Longrightarrow> rr_daemon_id x = rr_daemon_id y"
    "y \<in> set ds \<Longrightarrow> rr_credential_hash x = rr_credential_hash y \<Longrightarrow> x = y"
proof -
  have ok: "distinct (map rr_daemon_id ds)" "distinct (map rr_credential_hash ds)" "list_all lease_ok ds" "leases_distinct ds"
    using assms(1) by (simp_all add: daemons_ok_def)
  show "lease_ok x" using ok(3) assms(2) by (simp add: list_all_iff)
  show "y \<in> set ds \<Longrightarrow> rr_daemon_id x = rr_daemon_id y \<Longrightarrow> x = y" using ok(1) assms(2) by (auto simp: distinct_map dest: inj_onD)
  show "y \<in> set ds \<Longrightarrow> rr_credential_hash x = rr_credential_hash y \<Longrightarrow> x = y" using ok(2) assms(2) by (auto simp: distinct_map dest: inj_onD)
  show "y \<in> set ds \<Longrightarrow> rr_connection_id x = Some c \<Longrightarrow> rr_connection_id y = Some c \<Longrightarrow> rr_daemon_id x = rr_daemon_id y"
    using ok(4) assms(2) unfolding leases_distinct_def by blast
qed

lemma lease_ok_rows: "lease_ok (drop_lease d)" "lease_ok (revoke_row now d)"
  "rr_revoked_at d = None \<Longrightarrow> lease_ok (take_lease now version capabilities conn d)"
  by (simp_all add: lease_ok_def drop_lease_def revoke_row_def take_lease_def)

lemma row_ids [simp]:
  "rr_daemon_id (drop_lease d) = rr_daemon_id d" "rr_credential_hash (drop_lease d) = rr_credential_hash d" "rr_connection_id (drop_lease d) = None"
  "rr_daemon_id (revoke_row now d) = rr_daemon_id d" "rr_credential_hash (revoke_row now d) = rr_credential_hash d" "rr_connection_id (revoke_row now d) = None"
  "rr_daemon_id (take_lease now version capabilities conn d) = rr_daemon_id d"
  "rr_credential_hash (take_lease now version capabilities conn d) = rr_credential_hash d"
  "rr_connection_id (take_lease now version capabilities conn d) = Some conn"
  by (simp_all add: drop_lease_def revoke_row_def take_lease_def)

lemma daemons_ok_effect:
  assumes "registry_effect now l rg rg'" "daemons_ok (rg_daemons rg)"
  shows "daemons_ok (rg_daemons rg')"
  using assms(1)
proof cases
  case (registered m s h uid did c label)
  have ds: "rg_daemons m = rg_daemons rg" by (rule cleaned_daemons[OF registered(3)])
  have new: "rr_daemon_id n = did" "rr_credential_hash n = c" "lease_ok n" "rr_connection_id n = None" if "n = new_registration now did c label uid" for n
    using that by (simp_all add: new_registration_def lease_ok_def)
  have "rg_daemons rg' = rg_daemons rg @ [new_registration now did c label uid]" using registered(2) ds by simp
  moreover have "leases_distinct (rg_daemons rg @ [new_registration now did c label uid])"
    by (rule leases_distinct_snoc) (use assms(2) new(4) in \<open>simp_all add: daemons_ok_def\<close>)
  ultimately show ?thesis using registered(10,11) assms(2) new[OF refl] unfolding ds daemons_ok_def by simp
next
  case (leased d did conn version capabilities)
  show ?thesis unfolding leased(2) by (rule daemons_ok_update[OF assms(2)]) (use leased(6) in \<open>auto simp: lease_ok_rows\<close>)
next
  case (touched d did conn)
  show ?thesis unfolding touched(2)
  proof (rule daemons_ok_update[OF assms(2)])
    fix x y c assume "x \<in> set (rg_daemons rg)" "y \<in> set (rg_daemons rg)" "rr_daemon_id y \<noteq> rr_daemon_id x"
      "rr_connection_id (x\<lparr>rr_last_seen_at := Some now\<rparr>) = Some c"
    then have "rr_connection_id y \<noteq> Some c" using daemons_okD(3)[OF assms(2), of y x c] by auto
    then show "rr_connection_id (if holds_lease did conn y \<and> rr_revoked_at y = None then y\<lparr>rr_last_seen_at := Some now\<rparr> else y) \<noteq> Some c"
      by simp
  qed (use daemons_okD(1)[OF assms(2)] in \<open>simp add: lease_ok_def\<close>)
next
  case (released did conn)
  show ?thesis unfolding released(2) disconnect_daemon_def by (rule daemons_ok_update[OF assms(2)]) (auto simp: lease_ok_rows)
next
  case (revoked did)
  show ?thesis unfolding revoked(2) by (rule daemons_ok_update[OF assms(2)]) (auto simp: lease_ok_rows)
next
  case reset
  show ?thesis unfolding reset(2) invalidate_daemon_connections_def Let_def snd_conv
    by (rule daemons_ok_update[OF assms(2)]) (auto simp: lease_ok_rows)
qed (use assms(2) in \<open>auto simp: cleaned_daemons\<close>)

lemma registry_ok_effect: "registry_effect now l rg rg' \<Longrightarrow> registry_ok rg \<Longrightarrow> registry_ok rg'"
  by (simp add: registry_ok_def setups_ok_effect daemons_ok_effect)

section \<open>Histories\<close>

inductive op_trace :: "(nat \<Rightarrow> reg_label \<Rightarrow> registry \<Rightarrow> registry \<Rightarrow> bool) \<Rightarrow> nat \<Rightarrow> (nat \<times> reg_label) list \<Rightarrow> registry \<Rightarrow> bool" for op where
  trace_start: "op_trace op 0 [] \<lparr>rg_setups = [], rg_daemons = []\<rparr>"
| trace_call: "op_trace op t ls rg \<Longrightarrow> t \<le> now \<Longrightarrow> op now l rg rg' \<Longrightarrow> op_trace op now (ls @ [(now, l)]) rg'"

text \<open>The events of a token.\<close>

fun about :: "string \<Rightarrow> reg_label \<Rightarrow> bool" where
  "about h (Requested h' _) \<longleftrightarrow> h' = h"
| "about h (Approved h' _) \<longleftrightarrow> h' = h"
| "about h (Registered h' _ _ _) \<longleftrightarrow> h' = h"
| "about h _ \<longleftrightarrow> False"

definition token_events :: "string \<Rightarrow> (nat \<times> reg_label) list \<Rightarrow> (nat \<times> reg_label) list" where
  "token_events h ls = filter (\<lambda>(_, l). about h l) ls"

lemma token_events_snoc: "token_events h (ls @ [(t, l)]) = token_events h ls @ (if about h l then [(t, l)] else [])"
  by (simp add: token_events_def)

text \<open>What the history says of a stored request.\<close>

definition setup_story :: "(nat \<times> reg_label) list \<Rightarrow> setup_row \<Rightarrow> bool" where
  "setup_story evs s \<longleftrightarrow> sr_claimed_at s \<noteq> None
     \<or> (\<exists>before t key. sr_expires_at s = t + DAEMON_SETUP_TTL_SECONDS * 1000000
          \<and> (case sr_approved_at s of
               None \<Rightarrow> evs = before @ [(t, Requested (sr_token_hash s) key)]
             | Some t' \<Rightarrow> \<exists>uid. sr_created_by s = Some uid \<and> evs = before @ [(t, Requested (sr_token_hash s) key), (t', Approved (sr_token_hash s) uid)]))"

definition stories_ok :: "(nat \<times> reg_label) list \<Rightarrow> registry \<Rightarrow> bool" where
  "stories_ok ls rg \<longleftrightarrow> (\<forall>s\<in>set (rg_setups rg). setup_story (token_events (sr_token_hash s) ls) s)"

definition registrations_of :: "(nat \<times> reg_label) list \<Rightarrow> (string \<times> string \<times> string) list" where
  "registrations_of ls = List.map_filter (\<lambda>(_, l). case l of Registered h did uid c \<Rightarrow> Some (did, uid, c) | _ \<Rightarrow> None) ls"

definition registration_key :: "registration_row \<Rightarrow> string \<times> string \<times> string" where
  "registration_key d = (rr_daemon_id d, rr_created_by d, rr_credential_hash d)"

text \<open>The lease of a daemon, read from the labels.\<close>

definition lease_step :: "string \<Rightarrow> string option \<Rightarrow> reg_label \<Rightarrow> string option" where
  "lease_step did lease l =
     (case l of
        Leased d c \<Rightarrow> if d = did then Some c else lease
      | Released d c \<Rightarrow> if d = did \<and> lease = Some c then None else lease
      | Revoked d \<Rightarrow> if d = did then None else lease
      | Reset \<Rightarrow> None
      | _ \<Rightarrow> lease)"

definition lease_of :: "string \<Rightarrow> (nat \<times> reg_label) list \<Rightarrow> string option" where
  "lease_of did ls = foldl (lease_step did) None (map snd ls)"

lemma lease_of_snoc [simp]: "lease_of did (ls @ [(t, l)]) = lease_step did (lease_of did ls) l" "lease_of did [] = None"
  by (simp_all add: lease_of_def)

definition leases_ok :: "(nat \<times> reg_label) list \<Rightarrow> registry \<Rightarrow> bool" where
  "leases_ok ls rg \<longleftrightarrow> (\<forall>d\<in>set (rg_daemons rg). rr_connection_id d = lease_of (rr_daemon_id d) ls
     \<and> (rr_revoked_at d \<noteq> None \<longleftrightarrow> Revoked (rr_daemon_id d) \<in> snd ` set ls))"

lemma token_hash_rows [simp]: "sr_token_hash (approve_row now h uid s) = sr_token_hash s" "sr_token_hash (claim_row now h did s) = sr_token_hash s"
  by (simp_all add: approve_row_def claim_row_def)

lemma approve_row_story:
  assumes "setups_ok ss" "x \<in> set ss" "sr_token_hash x = h" "approvable now x" "s \<in> set ss"
    and "setup_story (token_events (sr_token_hash s) ls) s"
  shows "setup_story (token_events (sr_token_hash s) (ls @ [(now, Approved h uid)])) (approve_row now h uid s)"
proof (cases "sr_token_hash s = h")
  case True
  then have "s = x" using assms(1,2,3,5) by (auto simp: setups_ok_def distinct_map dest: inj_onD)
  then show ?thesis using assms(3,4,6) by (auto simp: setup_story_def approve_row_def approvable_def token_events_snoc)
qed (use assms(6) in \<open>simp add: approve_row_def token_events_snoc\<close>)

lemma claim_row_story:
  "setup_story (token_events (sr_token_hash s) ls) s \<Longrightarrow> setup_story (token_events (sr_token_hash s) (ls @ [(now, Registered h did uid c)])) (claim_row now h did s)"
  by (cases "sr_token_hash s = h") (simp_all add: setup_story_def claim_row_def token_events_snoc)

lemma story_cong: "\<not> about (sr_token_hash s) l \<Longrightarrow> setup_story (token_events (sr_token_hash s) (ls @ [(now, l)])) s = setup_story (token_events (sr_token_hash s) ls) s"
  by (simp add: token_events_snoc)

lemma stories_effect:
  assumes "registry_effect now l rg rg'" "stories_ok ls rg" "setups_ok (rg_setups rg)"
  shows "stories_ok (ls @ [(now, l)]) rg'"
  using assms(1)
proof cases
  case (quiet)
  then show ?thesis using assms(2) cleaned_sub[OF quiet(2)] by (auto simp: stories_ok_def token_events_snoc)
next
  case (requested m s key)
  have old: "setup_story (token_events (sr_token_hash x) (ls @ [(now, l)])) x" if "x \<in> set (rg_setups m)" for x
  proof -
    have "sr_token_hash x \<noteq> sr_token_hash s" using requested(4) that by (metis imageI)
    then show ?thesis using assms(2) cleaned_sub[OF requested(3)] that unfolding requested(1) by (auto simp: stories_ok_def token_events_snoc)
  qed
  have "setup_story (token_events (sr_token_hash s) (ls @ [(now, l)])) s"
    using requested by (auto simp: setup_story_def token_events_snoc)
  then show ?thesis using old unfolding stories_ok_def requested(2) by simp
next
  case (approved s h uid)
  show ?thesis
    unfolding stories_ok_def approved(1,2)
    using approve_row_story[OF assms(3) approved(3-5)] assms(2) by (simp add: stories_ok_def)
next
  case (registered m s h uid did c label)
  have "setup_story (token_events (sr_token_hash x) ls) x" if "x \<in> set (rg_setups m)" for x
    using assms(2) cleaned_sub[OF registered(3)] that by (auto simp: stories_ok_def)
  then have "setup_story (token_events (sr_token_hash (claim_row now h did x)) (ls @ [(now, l)])) (claim_row now h did x)" if "x \<in> set (rg_setups m)" for x
    using claim_row_story[of x ls] that unfolding registered(1) by simp
  then show ?thesis unfolding registered(2) stories_ok_def by auto
qed (use assms(2) in \<open>auto simp: stories_ok_def token_events_snoc update_registrations_def disconnect_daemon_def
      invalidate_daemon_connections_def Let_def\<close>)

lemma update_keys:
  assumes "\<And>x. P x \<Longrightarrow> registration_key (f x) = registration_key x"
  shows "map registration_key (rg_daemons (update_registrations P f rg)) = map registration_key (rg_daemons rg)"
  using assms by (simp add: update_registrations_def)

definition new_key :: "reg_label \<Rightarrow> (string \<times> string \<times> string) list" where
  "new_key l = (case l of Registered h did uid c \<Rightarrow> [(did, uid, c)] | _ \<Rightarrow> [])"

lemma registrations_of_snoc:
  "registrations_of (ls @ [(t, l)]) = registrations_of ls @ new_key l"
  by (simp add: registrations_of_def new_key_def map_filter_def split: reg_label.split)

lemma keys_effect:
  assumes "registry_effect now l rg rg'"
  shows "map registration_key (rg_daemons rg') = map registration_key (rg_daemons rg) @ new_key l"
  using assms
proof cases
  case (registered m s h uid did c label)
  then show ?thesis using cleaned_daemons[OF registered(3)] by (simp add: new_key_def registration_key_def new_registration_def)
qed (simp_all add: new_key_def cleaned_daemons update_keys disconnect_daemon_def
      invalidate_daemon_connections_def registration_key_def take_lease_def drop_lease_def revoke_row_def Let_def)

lemma revoked_snoc: "Revoked d \<in> snd ` set (ls @ [(t, l)]) \<longleftrightarrow> Revoked d \<in> snd ` set ls \<or> l = Revoked d"
  by auto

lemma leases_ok_update:
  assumes "leases_ok ls rg"
    and "\<And>x. x \<in> set (rg_daemons rg) \<Longrightarrow> rr_connection_id x = lease_of (rr_daemon_id x) ls
      \<Longrightarrow> rr_revoked_at x \<noteq> None \<longleftrightarrow> Revoked (rr_daemon_id x) \<in> snd ` set ls
      \<Longrightarrow> (let y = (if P x then f x else x) in rr_daemon_id y = rr_daemon_id x \<and> rr_connection_id y = lease_step (rr_daemon_id x) (rr_connection_id x) l
            \<and> (rr_revoked_at y \<noteq> None \<longleftrightarrow> rr_revoked_at x \<noteq> None \<or> l = Revoked (rr_daemon_id x)))"
  shows "leases_ok (ls @ [(now, l)]) (update_registrations P f rg)"
  unfolding leases_ok_def
proof
  fix y assume "y \<in> set (rg_daemons (update_registrations P f rg))"
  then obtain x where x: "x \<in> set (rg_daemons rg)" "y = (if P x then f x else x)" by (auto simp: update_registrations_def)
  have old: "rr_connection_id x = lease_of (rr_daemon_id x) ls" "rr_revoked_at x \<noteq> None \<longleftrightarrow> Revoked (rr_daemon_id x) \<in> snd ` set ls"
    using assms(1) x(1) unfolding leases_ok_def by blast+
  note new = assms(2)[OF x(1) old, unfolded Let_def, folded x(2)]
  show "rr_connection_id y = lease_of (rr_daemon_id y) (ls @ [(now, l)])
    \<and> (rr_revoked_at y \<noteq> None \<longleftrightarrow> Revoked (rr_daemon_id y) \<in> snd ` set (ls @ [(now, l)]))"
    unfolding revoked_snoc lease_of_snoc using new old by simp
qed

lemma leases_ok_quiet:
  "leases_ok ls rg \<Longrightarrow> rg_daemons rg' = rg_daemons rg \<Longrightarrow> (\<And>did lease. lease_step did lease l = lease) \<Longrightarrow> (\<And>did. l \<noteq> Revoked did)
    \<Longrightarrow> leases_ok (ls @ [(now, l)]) rg'"
  unfolding leases_ok_def revoked_snoc by simp

text \<open>A daemon that is not registered has no lease in the history.\<close>

definition unknown_ok :: "(nat \<times> reg_label) list \<Rightarrow> registry \<Rightarrow> bool" where
  "unknown_ok ls rg \<longleftrightarrow> (\<forall>did. did \<notin> rr_daemon_id ` set (rg_daemons rg) \<longrightarrow> lease_of did ls = None \<and> Revoked did \<notin> snd ` set ls)"

lemma leases_effect:
  assumes "registry_effect now l rg rg'" "leases_ok ls rg" "unknown_ok ls rg" "daemons_ok (rg_daemons rg)"
  shows "leases_ok (ls @ [(now, l)]) rg'"
  using assms(1)
proof cases
  case (registered m s h uid did c label)
  let ?n = "new_registration now did c label uid"
  have ds: "rg_daemons rg' = rg_daemons rg @ [?n]" using registered(2) cleaned_daemons[OF registered(3)] by simp
  have n: "rr_daemon_id ?n = did" "rr_connection_id ?n = None" "rr_revoked_at ?n = None" by (simp_all add: new_registration_def)
  have unknown: "lease_of did ls = None" "Revoked did \<notin> snd ` set ls"
    using assms(3) registered(10) cleaned_daemons[OF registered(3)] by (auto simp: unknown_ok_def)
  show ?thesis using assms(2) unknown unfolding leases_ok_def ds registered(1) revoked_snoc lease_of_snoc by (simp add: n lease_step_def)
next
  case (leased d did conn version capabilities)
  have "rr_revoked_at x = None" if "x \<in> set (rg_daemons rg)" "rr_daemon_id x = did" for x
    using daemons_okD(2)[OF assms(4) leased(3) that(1)] leased(4,5) that(2) by simp
  then show ?thesis unfolding leased(1,2) by (intro leases_ok_update[OF assms(2)]) (auto simp: lease_step_def take_lease_def)
next
  case (touched d did conn)
  show ?thesis unfolding touched(1,2) by (rule leases_ok_update[OF assms(2)]) (auto simp: lease_step_def)
next
  case (released did conn)
  show ?thesis unfolding released disconnect_daemon_def
    by (rule leases_ok_update[OF assms(2)]) (auto simp: lease_step_def holds_lease_def drop_lease_def)
next
  case (revoked did)
  show ?thesis unfolding revoked(1,2)
    by (rule leases_ok_update[OF assms(2)]) (auto simp: lease_step_def revoke_row_def drop_lease_def split: option.split)
next
  case reset
  show ?thesis unfolding reset invalidate_daemon_connections_def Let_def snd_conv
    by (rule leases_ok_update[OF assms(2)]) (auto simp: lease_step_def drop_lease_def)
qed (use assms(2) in \<open>auto simp: cleaned_daemons lease_step_def intro: leases_ok_quiet\<close>)

lemma lease_step_none: "lease_step did None l = None \<or> (\<exists>c. l = Leased did c)"
  by (cases l) (auto simp: lease_step_def)

lemma known_effect:
  assumes "registry_effect now l rg rg'"
  shows "rr_daemon_id ` set (rg_daemons rg) \<subseteq> rr_daemon_id ` set (rg_daemons rg')"
proof -
  have ids: "rr_daemon_id = fst \<circ> registration_key" by (simp add: fun_eq_iff registration_key_def)
  have "fst ` set (map registration_key (rg_daemons rg)) \<subseteq> fst ` set (map registration_key (rg_daemons rg'))"
    unfolding keys_effect[OF assms] by auto
  then show ?thesis by (simp only: ids set_map image_comp)
qed

lemma unknown_effect:
  assumes "registry_effect now l rg rg'" "unknown_ok ls rg"
  shows "unknown_ok (ls @ [(now, l)]) rg'"
  unfolding unknown_ok_def
proof (intro allI impI)
  fix did assume "did \<notin> rr_daemon_id ` set (rg_daemons rg')"
  then have un: "did \<notin> rr_daemon_id ` set (rg_daemons rg)" using known_effect[OF assms(1)] by blast
  then have "\<nexists>c. l = Leased did c" "l \<noteq> Revoked did" using assms(1) by (auto elim: effect_cases)
  then show "lease_of did (ls @ [(now, l)]) = None \<and> Revoked did \<notin> snd ` set (ls @ [(now, l)])"
    using assms(2) un lease_step_none[of did l] unfolding unknown_ok_def revoked_snoc lease_of_snoc by auto
qed

text \<open>Requests that wait, and what a later moment makes of them.\<close>

lemma pending_later: "now \<le> t \<Longrightarrow> length (filter (pending_setup t key) ss) \<le> length (filter (pending_setup now key) ss)"
  by (induction ss) (auto simp: pending_setup_def)

lemma pending_map:
  assumes "\<And>s. s \<in> set ss \<Longrightarrow> pending_setup t key (f s) \<Longrightarrow> pending_setup t key s"
  shows "length (filter (pending_setup t key) (map f ss)) \<le> length (filter (pending_setup t key) ss)"
  using assms by (induction ss) auto

lemma pending_cleaned: "cleaned now rg m \<Longrightarrow> length (filter (pending_setup t key) (rg_setups m)) \<le> length (filter (pending_setup t key) (rg_setups rg))"
proof -
  have "length (filter Q (filter P xs)) \<le> length (filter Q xs)" for P Q and xs :: "setup_row list" by (induction xs) auto
  then show "cleaned now rg m \<Longrightarrow> ?thesis" by (auto simp: cleaned_def)
qed

definition pending_ok :: "nat \<Rightarrow> registry \<Rightarrow> bool" where
  "pending_ok now rg \<longleftrightarrow> (\<forall>key t. now \<le> t \<longrightarrow> length (filter (pending_setup t key) (rg_setups rg)) \<le> DAEMON_SETUP_PENDING_LIMIT)"

lemma pending_effect:
  assumes "registry_effect now l rg rg'" "pending_ok now rg"
  shows "pending_ok now rg'"
  unfolding pending_ok_def
proof (intro allI impI)
  fix key t assume t: "now \<le> t"
  have old: "length (filter (pending_setup t key) (rg_setups rg)) \<le> DAEMON_SETUP_PENDING_LIMIT" using assms(2) t by (simp add: pending_ok_def)
  show "length (filter (pending_setup t key) (rg_setups rg')) \<le> DAEMON_SETUP_PENDING_LIMIT"
    using assms(1)
  proof cases
    case (requested m s k)
    have "length (filter (pending_setup t k) (rg_setups m)) < DAEMON_SETUP_PENDING_LIMIT"
      using pending_later[OF t, of k "rg_setups m"] requested(6) by simp
    moreover have "\<not> pending_setup t key s" if "key \<noteq> k" using that requested(10) by (simp add: pending_setup_def)
    ultimately show ?thesis unfolding requested(2) using old pending_cleaned[OF requested(3), of t key] by (cases "key = k") auto
  next
    case (approved s h uid)
    have "length (filter (pending_setup t key) (map (approve_row now h uid) (rg_setups rg))) \<le> length (filter (pending_setup t key) (rg_setups rg))"
      by (rule pending_map) (auto simp: approve_row_def pending_setup_def split: if_splits)
    then show ?thesis unfolding approved(2) using old by simp
  next
    case (registered m s h uid did c label)
    have "length (filter (pending_setup t key) (map (claim_row now h did) (rg_setups m))) \<le> length (filter (pending_setup t key) (rg_setups m))"
      by (rule pending_map) (auto simp: claim_row_def pending_setup_def split: if_splits)
    then show ?thesis unfolding registered(2) using old pending_cleaned[OF registered(3), of t key] by simp
  qed (use old pending_cleaned[of now rg rg' t key] in \<open>auto simp: update_registrations_def disconnect_daemon_def invalidate_daemon_connections_def Let_def\<close>)
qed

section \<open>Callers that keep the contract\<close>

locale registry_operation =
  fixes op :: "nat \<Rightarrow> reg_label \<Rightarrow> registry \<Rightarrow> registry \<Rightarrow> bool"
  assumes effect: "registry_ok rg \<Longrightarrow> op now l rg rg' \<Longrightarrow> registry_effect now l rg rg'"
begin

lemma history:
  assumes "op_trace op t ls rg"
  shows "registry_ok rg" "stories_ok ls rg" "map registration_key (rg_daemons rg) = registrations_of ls" "leases_ok ls rg"
    "unknown_ok ls rg" "pending_ok t rg"
proof -
  have "registry_ok rg \<and> stories_ok ls rg \<and> map registration_key (rg_daemons rg) = registrations_of ls \<and> leases_ok ls rg
    \<and> unknown_ok ls rg \<and> pending_ok t rg"
    using assms
  proof induction
    case trace_start
    show ?case by (simp add: registry_ok_def setups_ok_def daemons_ok_def leases_distinct_def stories_ok_def registrations_of_def
          map_filter_def leases_ok_def unknown_ok_def pending_ok_def)
  next
    case (trace_call t ls rg now l rg')
    then have IH: "setups_ok (rg_setups rg)" "daemons_ok (rg_daemons rg)" "registry_ok rg" by (simp_all add: registry_ok_def)
    have e: "registry_effect now l rg rg'" by (rule effect[OF IH(3) trace_call.hyps(3)])
    have "pending_ok now rg" using trace_call.IH trace_call.hyps(2) by (simp add: pending_ok_def)
    then show ?case
      using trace_call.IH registry_ok_effect[OF e IH(3)] stories_effect[OF e _ IH(1)] keys_effect[OF e] leases_effect[OF e _ _ IH(2)]
        unknown_effect[OF e] pending_effect[OF e] by (simp add: registrations_of_snoc)
  qed
  then show "registry_ok rg" "stories_ok ls rg" "map registration_key (rg_daemons rg) = registrations_of ls" "leases_ok ls rg"
    "unknown_ok ls rg" "pending_ok t rg" by blast+
qed

lemma trace_split: "op_trace op t (pre @ (t', l) # post) rg \<Longrightarrow> \<exists>t0 rg0 rg1. op_trace op t0 pre rg0 \<and> op t' l rg0 rg1"
proof (induction post arbitrary: t rg rule: rev_induct)
  case Nil
  then have "op_trace op t (pre @ [(t', l)]) rg" by simp
  then obtain t0 rg0 where "op_trace op t0 pre rg0" "op t' l rg0 rg" by cases auto
  then show ?case by blast
next
  case (snoc x post)
  from snoc.prems obtain t0 rg0 where "op_trace op t0 (pre @ (t', l) # post) rg0" by cases auto
  then show ?case by (rule snoc.IH)
qed

lemma registered_after_approval:
  assumes "op_trace op t (pre @ (t', Registered h did uid c) # post) rg"
  shows "\<exists>before t1 t2 key. token_events h pre = before @ [(t1, Requested h key), (t2, Approved h uid)]
    \<and> t' < t1 + DAEMON_SETUP_TTL_SECONDS * 1000000"
proof -
  obtain t0 rg0 rg1 where tr: "op_trace op t0 pre rg0" and c: "op t' (Registered h did uid c) rg0 rg1" using trace_split[OF assms] by blast
  note H = history[OF tr]
  have "registry_effect t' (Registered h did uid c) rg0 rg1" by (rule effect[OF H(1) c])
  then show ?thesis
  proof cases
    case (registered m s label)
    have "setup_story (token_events h pre) s" using H(2) cleaned_sub[OF registered(2)] registered(3,4) by (auto simp: stories_ok_def)
    then show ?thesis using registered(4-8) by (auto simp: setup_story_def)
  qed
qed

lemma lease_holder:
  assumes "op_trace op t ls rg"
  shows "list_ex (\<lambda>d. holds_lease did conn d \<and> rr_revoked_at d = None) (rg_daemons rg) \<longleftrightarrow> lease_of did ls = Some conn"
proof -
  note H = history[OF assms]
  have rows: "rr_connection_id d = lease_of (rr_daemon_id d) ls \<and> lease_ok d" if "d \<in> set (rg_daemons rg)" for d
    using that H(1,4) daemons_okD(1)[OF _ that] by (simp add: leases_ok_def registry_ok_def)
  have "\<exists>d\<in>set (rg_daemons rg). rr_daemon_id d = did" if l: "lease_of did ls = Some conn"
  proof (rule ccontr)
    assume "\<not> ?thesis"
    then have "did \<notin> rr_daemon_id ` set (rg_daemons rg)" by auto
    then show False using l H(5) by (simp add: unknown_ok_def)
  qed
  then show ?thesis using rows by (force simp: list_ex_iff holds_lease_def lease_ok_def)
qed

end

section \<open>The store's own calls\<close>

definition create_label :: "registry_env \<Rightarrow> string \<Rightarrow> persistence_error + daemon_setup_request \<Rightarrow> reg_label" where
  "create_label env key r = (case r of Inl _ \<Rightarrow> Quiet | Inr q \<Rightarrow>
     Requested (hash_secret (re_auth env) (dsr_request_token q)) (case re_cidr env key of None \<Rightarrow> [] | Some k \<Rightarrow> k))"

definition approve_label :: "registry_env \<Rightarrow> string \<Rightarrow> string \<Rightarrow> persistence_error + unit \<Rightarrow> reg_label" where
  "approve_label env token uid r = (case r of Inl _ \<Rightarrow> Quiet | Inr _ \<Rightarrow> Approved (hash_secret (re_auth env) token) uid)"

definition claim_label :: "registry_env \<Rightarrow> string \<Rightarrow> registry \<Rightarrow> persistence_error + daemon_setup_claim \<Rightarrow> reg_label" where
  "claim_label env token rg' r =
     (case r of
        Inr (ClaimClaimed did credential) \<Rightarrow>
          (case find_registration did rg' of
             None \<Rightarrow> Quiet
           | Some d \<Rightarrow> Registered (hash_secret (re_auth env) token) did (rr_created_by d) (hash_secret (re_auth env) credential))
      | _ \<Rightarrow> Quiet)"

definition connect_label :: "string \<Rightarrow> persistence_error + authenticated_daemon \<Rightarrow> reg_label" where
  "connect_label did r = (case r of Inl _ \<Rightarrow> Quiet | Inr a \<Rightarrow> Leased did (ad_connection_id a))"

definition touch_label :: "string \<Rightarrow> string \<Rightarrow> persistence_error + unit \<Rightarrow> reg_label" where
  "touch_label did conn r = (case r of Inl _ \<Rightarrow> Quiet | Inr _ \<Rightarrow> Touched did conn)"

definition revoke_label :: "string \<Rightarrow> persistence_error + string option \<Rightarrow> reg_label" where
  "revoke_label did r = (case r of Inl _ \<Rightarrow> Quiet | Inr _ \<Rightarrow> Revoked did)"

inductive registry_call :: "registry_env \<Rightarrow> nat \<Rightarrow> reg_label \<Rightarrow> registry \<Rightarrow> registry \<Rightarrow> bool" for env now where
  call_create: "create_daemon_setup_request env rnd1 rnd2 now label key rg = (r, rg') \<Longrightarrow> registry_call env now (create_label env key r) rg rg'"
| call_approve: "approve_daemon_setup_request env users now token uid rg = (r, rg') \<Longrightarrow> registry_call env now (approve_label env token uid r) rg rg'"
| call_claim: "claim_daemon_setup_request env users rnd1 rnd2 now token rg = (r, rg') \<Longrightarrow> registry_call env now (claim_label env token rg' r) rg rg'"
| call_connect: "connect_daemon env rnd now did credential version capabilities rg = (r, rg') \<Longrightarrow> registry_call env now (connect_label did r) rg rg'"
| call_touch: "touch_daemon now did conn rg = (r, rg') \<Longrightarrow> registry_call env now (touch_label did conn r) rg rg'"
| call_disconnect: "registry_call env now (Released did conn) rg (disconnect_daemon did conn rg)"
| call_revoke: "revoke_daemon now did rg = (r, rg') \<Longrightarrow> registry_call env now (revoke_label did r) rg rg'"
| call_invalidate: "registry_call env now Reset rg (snd (invalidate_daemon_connections rg))"

lemma create_effect:
  assumes "setups_ok (rg_setups rg)" "create_daemon_setup_request env rnd1 rnd2 now label key rg = (r, rg')"
  shows "registry_effect now (create_label env key r) rg rg'"
proof -
  let ?m = "snd (cleanup_expired_daemon_setup_requests now rg)"
  have m: "cleaned now rg ?m" by (rule cleanup_cleaned[OF assms(1)])
  show ?thesis
  proof (cases "blank key")
    case True
    then have "r = Inl InvalidSetup" "rg' = rg" using assms(2) by (auto simp: create_daemon_setup_request_def)
    then show ?thesis by (simp add: create_label_def quiet cleaned_refl)
  next
    case False
    then have tx: "registry_tx (create_setup_tx env rnd1 rnd2 now label key) ?m = (r, rg')" using assms(2) by (simp add: create_daemon_setup_request_def)
    show ?thesis
    proof (cases "create_setup_tx env rnd1 rnd2 now label key ?m")
      case (Inl e)
      then show ?thesis using tx m by (auto simp: registry_tx_def create_label_def intro: quiet)
    next
      case (Inr q)
      then obtain k s where k: "re_cidr env key = Some k" "length (filter (pending_setup now k) (rg_setups ?m)) < DAEMON_SETUP_PENDING_LIMIT"
        and s: "insert_setup s ?m = Inr (snd q)" "sr_token_hash s = hash_secret (re_auth env) (dsr_request_token (fst q))" "sr_created_by s = None"
          "sr_approved_at s = None" "sr_claimed_at s = None" "sr_network_key s = Some k" "sr_expires_at s = now + DAEMON_SETUP_TTL_SECONDS * 1000000"
        by (auto simp: create_setup_tx_def Let_def and_then_Inr_iff not_le split: option.splits if_splits)
      have ins: "sr_token_hash s \<notin> sr_token_hash ` set (rg_setups ?m)" "sr_id s \<notin> sr_id ` set (rg_setups ?m)"
        "snd q = ?m\<lparr>rg_setups := rg_setups ?m @ [s]\<rparr>"
        using s(1) by (force simp: insert_setup_def list_ex_iff split: if_splits)+
      have "r = Inr (fst q)" "rg' = snd q" using tx Inr by (auto simp: registry_tx_def split: prod.splits)
      then show ?thesis using requested[OF m ins(1,2) k(2) s(3-7)] k(1) by (simp add: create_label_def ins(3) s(2))
    qed
  qed
qed

lemma approve_effect:
  assumes "approve_daemon_setup_request env users now token uid rg = (r, rg')"
  shows "registry_effect now (approve_label env token uid r) rg rg'"
proof (cases r)
  case (Inl e)
  then have "rg' = rg" using assms by (auto simp: approve_daemon_setup_request_def Let_def split: if_splits)
  then show ?thesis using Inl by (simp add: approve_label_def quiet cleaned_refl)
next
  case (Inr u)
  let ?h = "hash_secret (re_auth env) token"
  have one: "length (filter (\<lambda>s. sr_token_hash s = ?h \<and> approvable now s) (rg_setups rg)) = 1"
    and rg': "rg' = rg\<lparr>rg_setups := map (approve_row now ?h uid) (rg_setups rg)\<rparr>"
    using assms Inr by (auto simp: approve_daemon_setup_request_def Let_def split: if_splits)
  from one have "filter (\<lambda>s. sr_token_hash s = ?h \<and> approvable now s) (rg_setups rg) \<noteq> []" by auto
  then obtain s where "s \<in> set (rg_setups rg)" "sr_token_hash s = ?h" "approvable now s" by (auto simp: filter_empty_conv)
  then show ?thesis using Inr rg' approved[of s rg ?h now uid] by (simp add: approve_label_def)
qed

lemma find_registration_Some: "find_registration did rg = Some d \<Longrightarrow> d \<in> set (rg_daemons rg) \<and> rr_daemon_id d = did"
  by (auto simp: find_registration_def find_Some_iff)

lemma find_registration_None: "find_registration did rg = None \<longleftrightarrow> did \<notin> rr_daemon_id ` set (rg_daemons rg)"
  by (auto simp: find_registration_def find_None_iff)

lemma find_registration_unique:
  assumes "daemons_ok (rg_daemons rg)" "d \<in> set (rg_daemons rg)"
  shows "find_registration (rr_daemon_id d) rg = Some d"
proof (cases "find_registration (rr_daemon_id d) rg")
  case None
  then show ?thesis using assms(2) by (simp add: find_registration_None)
next
  case (Some x)
  then show ?thesis using find_registration_Some[OF Some] daemons_okD(2)[OF assms(1) _ assms(2), of x] by simp
qed

lemma find_registration_snoc:
  "did \<notin> rr_daemon_id ` set (rg_daemons rg) \<Longrightarrow> rr_daemon_id n = did \<Longrightarrow> find (\<lambda>d. rr_daemon_id d = did) (rg_daemons rg @ [n]) = Some n"
  by (rule find_snoc_new) (auto simp: list_ex_iff image_iff)

lemma setup_by_token_Some: "setup_by_token env token rg = Some s \<Longrightarrow> s \<in> set (rg_setups rg) \<and> sr_token_hash s = hash_secret (re_auth env) token"
  by (auto simp: setup_by_token_def find_Some_iff)

lemma claim_effect:
  assumes "setups_ok (rg_setups rg)" "claim_daemon_setup_request env users rnd1 rnd2 now token rg = (r, rg')"
  shows "registry_effect now (claim_label env token rg' r) rg rg'"
proof -
  let ?m = "snd (cleanup_expired_daemon_setup_requests now rg)" and ?h = "hash_secret (re_auth env) token"
  have m: "cleaned now rg ?m" by (rule cleanup_cleaned[OF assms(1)])
  have tx: "registry_tx (claim_setup_tx env users rnd1 rnd2 now token) ?m = (r, rg')" using assms(2) by (simp add: claim_daemon_setup_request_def)
  show ?thesis
  proof (cases "claim_setup_tx env users rnd1 rnd2 now token ?m")
    case (Inl e)
    then show ?thesis using tx m by (auto simp: registry_tx_def claim_label_def intro: quiet)
  next
    case (Inr q)
    then have r: "r = Inr (fst q)" "rg' = snd q" using tx by (auto simp: registry_tx_def split: prod.splits)
    show ?thesis
    proof (cases "fst q")
      case ClaimPending
      then have "rg' = ?m" using Inr r by (auto simp: claim_setup_tx_def Let_def and_then_Inr_iff split: option.splits if_splits)
      then show ?thesis using ClaimPending r m by (simp add: claim_label_def quiet)
    next
      case (ClaimClaimed did credential)
      let ?n = "\<lambda>s uid. new_registration now did (hash_secret (re_auth env) credential) (sr_label s) uid"
      from Inr ClaimClaimed obtain s uid m' where s: "setup_by_token env token ?m = Some s" "sr_claimed_at s = None" "now < sr_expires_at s"
          "sr_approved_at s \<noteq> None" "sr_created_by s = Some uid"
        and ins: "insert_registration users (?n s uid) ?m = Inr m'" "snd q = m'\<lparr>rg_setups := map (claim_row now ?h did) (rg_setups m')\<rparr>"
        by (auto simp: claim_setup_tx_def Let_def and_then_Inr_iff not_le split: option.splits if_splits)
      have fresh: "did \<notin> rr_daemon_id ` set (rg_daemons ?m)" "hash_secret (re_auth env) credential \<notin> rr_credential_hash ` set (rg_daemons ?m)"
        and m': "m' = ?m\<lparr>rg_daemons := rg_daemons ?m @ [?n s uid]\<rparr>"
        using ins(1) by (force simp: insert_registration_def new_registration_def list_ex_iff split: if_splits)+
      have rg': "rg' = ?m\<lparr>rg_daemons := rg_daemons ?m @ [?n s uid], rg_setups := map (claim_row now ?h did) (rg_setups ?m)\<rparr>"
        using r(2) ins(2) m' by simp
      have "find_registration did rg' = Some (?n s uid)"
        using find_registration_snoc[OF fresh(1), of "?n s uid"] by (simp add: rg' find_registration_def new_registration_def)
      then show ?thesis
        using registered[OF m conjunct1[OF setup_by_token_Some[OF s(1)]] conjunct2[OF setup_by_token_Some[OF s(1)]] s(2-5) fresh, of "sr_label s"]
        unfolding rg'[symmetric] by (simp add: claim_label_def r(1) ClaimClaimed new_registration_def)
    qed
  qed
qed

lemma connect_effect:
  assumes "connect_daemon env rnd now did credential version capabilities rg = (r, rg')"
  shows "registry_effect now (connect_label did r) rg rg'"
proof (cases r)
  case (Inl e)
  then have "rg' = rg" using assms by (auto simp: connect_daemon_def registry_tx_def split: sum.splits prod.splits)
  then show ?thesis using Inl by (simp add: connect_label_def quiet cleaned_refl)
next
  case (Inr a)
  then obtain encoded where tx: "connect_tx env rnd now did credential version encoded rg = Inr (a, rg')"
    using assms by (auto simp: connect_daemon_def registry_tx_def split: sum.splits prod.splits)
  then obtain d where d: "find_registration did rg = Some d" "rr_revoked_at d = None"
      "\<not> list_ex (\<lambda>x. rr_daemon_id x \<noteq> did \<and> rr_connection_id x = Some (ad_connection_id a)) (rg_daemons rg)"
      "rg' = update_registrations (\<lambda>x. rr_daemon_id x = did \<and> rr_revoked_at x = None) (take_lease now version encoded (ad_connection_id a)) rg"
    by (auto simp: connect_tx_def Let_def split: option.splits if_splits)
  then show ?thesis using leased[of d rg did "ad_connection_id a" now version encoded] find_registration_Some[OF d(1)] Inr
    by (auto simp: connect_label_def list_ex_iff)
qed

lemma no_match_update: "filter P (rg_daemons rg) = [] \<Longrightarrow> update_registrations P f rg = rg"
proof -
  assume "filter P (rg_daemons rg) = []"
  then have "map (\<lambda>d. if P d then f d else d) (rg_daemons rg) = rg_daemons rg" by (intro map_idI) (auto simp: filter_empty_conv)
  then show ?thesis by (simp add: update_registrations_def)
qed

lemma distinct_filter_1:
  "distinct (map f xs) \<Longrightarrow> (\<And>x. x \<in> set xs \<Longrightarrow> P x \<Longrightarrow> f x = k) \<Longrightarrow> x \<in> set xs \<Longrightarrow> P x \<Longrightarrow> length (filter P xs) = 1"
proof (induction xs)
  case (Cons y ys)
  show ?case
  proof (cases "P y")
    case True
    then have "\<not> P z" if "z \<in> set ys" for z using that Cons.prems(1,2) by (metis distinct.simps(2) image_eqI list.set_intros list.set_map list.simps(9))
    then have "filter P ys = []" by (simp add: filter_empty_conv)
    then show ?thesis using True by simp
  next
    case False
    then show ?thesis using Cons by auto
  qed
qed simp

lemma touch_effect:
  assumes "daemons_ok (rg_daemons rg)" "touch_daemon now did conn rg = (r, rg')"
  shows "registry_effect now (touch_label did conn r) rg rg'"
proof (cases "filter (\<lambda>d. holds_lease did conn d \<and> rr_revoked_at d = None) (rg_daemons rg) = []")
  case True
  then have "r = Inl InvalidDaemonCredential" "rg' = rg" using assms(2) no_match_update[OF True] by (auto simp: touch_daemon_def Let_def)
  then show ?thesis by (simp add: touch_label_def quiet cleaned_refl)
next
  case False
  then obtain d where d: "d \<in> set (rg_daemons rg)" "holds_lease did conn d" "rr_revoked_at d = None" by (auto simp: filter_empty_conv)
  have "length (filter (\<lambda>d. holds_lease did conn d \<and> rr_revoked_at d = None) (rg_daemons rg)) = 1"
    by (rule distinct_filter_1[of rr_daemon_id _ _ did d]) (use assms(1) d in \<open>auto simp: daemons_ok_def holds_lease_def\<close>)
  then show ?thesis using assms(2) touched[OF d] by (auto simp: touch_daemon_def Let_def touch_label_def)
qed

lemma revoke_effect:
  assumes "revoke_daemon now did rg = (r, rg')"
  shows "registry_effect now (revoke_label did r) rg rg'"
proof (cases "find_registration did rg")
  case None
  then have "r = Inl DaemonNotFound" "rg' = rg" using assms by (auto simp: revoke_daemon_def)
  then show ?thesis by (simp add: revoke_label_def quiet cleaned_refl)
next
  case (Some d)
  then have "did \<in> rr_daemon_id ` set (rg_daemons rg)" using find_registration_None[of did rg] by auto
  then show ?thesis using assms Some revoked[of did rg now] by (auto simp: revoke_daemon_def revoke_label_def)
qed

interpretation store: registry_operation "registry_call env" for env
proof
  fix rg now l rg' assume ok: "registry_ok rg" and c: "registry_call env now l rg rg'"
  have s: "setups_ok (rg_setups rg)" and d: "daemons_ok (rg_daemons rg)" using ok by (simp_all add: registry_ok_def)
  from c show "registry_effect now l rg rg'"
    by cases (auto intro: create_effect[OF s] approve_effect claim_effect[OF s] connect_effect touch_effect[OF d] released revoke_effect reset)
qed

section \<open>A history\<close>

text \<open>A daemon is requested, approved by a user, claimed and connected.\<close>

definition demo_env :: registry_env where
  "demo_env = \<lparr>re_auth = \<lparr>ax_hmac = (\<lambda>_ m. m), ax_sha256 = id, ax_key = []\<rparr>, re_cidr = Some, re_to_string = Some \<circ> concat, re_from_str = (\<lambda>s. Some [s])\<rparr>"

definition demo_rg1 :: registry where
  "demo_rg1 = snd (create_daemon_setup_request demo_env (\<lambda>_. 1) (\<lambda>_. 2) 1000 ''box'' ''10.0.0.0/24'' \<lparr>rg_setups = [], rg_daemons = []\<rparr>)"

definition demo_token :: string where "demo_token = random_hex 32 (\<lambda>_. 1)"
definition demo_did :: string where "demo_did = random_hex 16 (\<lambda>_. 3)"
definition demo_credential :: string where "demo_credential = random_hex 32 (\<lambda>_. 4)"
definition demo_conn :: string where "demo_conn = random_hex 16 (\<lambda>_. 5)"

definition demo_rg2 :: registry where "demo_rg2 = snd (approve_daemon_setup_request demo_env [''u1''] 2000 demo_token ''u1'' demo_rg1)"
definition demo_rg3 :: registry where "demo_rg3 = snd (claim_daemon_setup_request demo_env [''u1''] (\<lambda>_. 3) (\<lambda>_. 4) 3000 demo_token demo_rg2)"
definition demo_rg4 :: registry where "demo_rg4 = snd (connect_daemon demo_env (\<lambda>_. 5) 4000 demo_did demo_credential ''0.1'' [''agent''] demo_rg3)"

definition demo_history :: "(nat \<times> reg_label) list" where
  "demo_history = [(1000, Requested demo_token ''10.0.0.0/24''), (2000, Approved demo_token ''u1''),
     (3000, Registered demo_token demo_did ''u1'' demo_credential), (4000, Leased demo_did demo_conn)]"

lemma demo_trace: "op_trace (registry_call demo_env) 4000 demo_history demo_rg4"
proof -
  have 1: "registry_call demo_env 1000 (Requested demo_token ''10.0.0.0/24'') \<lparr>rg_setups = [], rg_daemons = []\<rparr> demo_rg1"
  proof -
    have "create_label demo_env ''10.0.0.0/24'' (fst (create_daemon_setup_request demo_env (\<lambda>_. 1) (\<lambda>_. 2) 1000 ''box'' ''10.0.0.0/24''
       \<lparr>rg_setups = [], rg_daemons = []\<rparr>)) = Requested demo_token ''10.0.0.0/24''" by code_simp
    then show ?thesis unfolding demo_rg1_def by (metis call_create prod.collapse)
  qed
  have 2: "registry_call demo_env 2000 (Approved demo_token ''u1'') demo_rg1 demo_rg2"
  proof -
    have "approve_label demo_env demo_token ''u1'' (fst (approve_daemon_setup_request demo_env [''u1''] 2000 demo_token ''u1'' demo_rg1)) = Approved demo_token ''u1''" by code_simp
    then show ?thesis unfolding demo_rg2_def by (metis call_approve prod.collapse)
  qed
  have 3: "registry_call demo_env 3000 (Registered demo_token demo_did ''u1'' demo_credential) demo_rg2 demo_rg3"
  proof -
    have "claim_label demo_env demo_token demo_rg3 (fst (claim_daemon_setup_request demo_env [''u1''] (\<lambda>_. 3) (\<lambda>_. 4) 3000 demo_token demo_rg2))
      = Registered demo_token demo_did ''u1'' demo_credential" by code_simp
    then show ?thesis by (metis call_claim prod.collapse demo_rg3_def)
  qed
  have 4: "registry_call demo_env 4000 (Leased demo_did demo_conn) demo_rg3 demo_rg4"
  proof -
    have "connect_label demo_did (fst (connect_daemon demo_env (\<lambda>_. 5) 4000 demo_did demo_credential ''0.1'' [''agent''] demo_rg3)) = Leased demo_did demo_conn" by code_simp
    then show ?thesis unfolding demo_rg4_def by (metis call_connect prod.collapse)
  qed
  note call = trace_call[where op = "registry_call demo_env"]
  have "op_trace (registry_call demo_env) 1000 [(1000, Requested demo_token ''10.0.0.0/24'')] demo_rg1" using call[OF trace_start _ 1] by simp
  from call[OF call[OF call[OF this _ 2] _ 3] _ 4] show ?thesis by (simp add: demo_history_def)
qed

section \<open>Properties\<close>

text \<open>C27. No daemon without an approval of its own: over every history of the registry the registrations are exactly those of the
  successful claims, each with the user who approved it and the hash of the credential that was handed out, and a claim succeeds
  only when the last two events of its token were its request, less than ten minutes before, and that user's approval. So an
  approval is good for one daemon.\<close>

theorem pairing_needs_approval:
  assumes "op_trace (registry_call env) t ls rg"
  shows "map registration_key (rg_daemons rg) = registrations_of ls
    \<and> (\<forall>pre t' h did uid c post. ls = pre @ (t', Registered h did uid c) # post \<longrightarrow>
        (\<exists>before t1 t2 key. token_events h pre = before @ [(t1, Requested h key), (t2, Approved h uid)]
           \<and> t' < t1 + DAEMON_SETUP_TTL_SECONDS * 1000000))"
  using store.history(3)[OF assms] store.registered_after_approval[of env t] assms by blast

theorem pairing_needs_approval_witness:
  "map registration_key (rg_daemons demo_rg4) = [(demo_did, ''u1'', demo_credential)]
    \<and> (\<exists>before t1 t2 key. token_events demo_token (take 2 demo_history) = before @ [(t1, Requested demo_token key), (t2, Approved demo_token ''u1'')])"
proof -
  have "demo_history = take 2 demo_history @ (3000, Registered demo_token demo_did ''u1'' demo_credential) # drop 3 demo_history"
    and "registrations_of demo_history = [(demo_did, ''u1'', demo_credential)]" by (simp_all add: demo_history_def registrations_of_def map_filter_def)
  then show ?thesis using pairing_needs_approval[OF demo_trace] by metis
qed

text \<open>C29. A daemon is served for its latest connection only: a heartbeat is accepted exactly when its connection took the daemon's last
  lease and the lease was not given back, revoked or reset since; giving back a lease that is not held changes nothing; and no two
  daemons hold the same connection.\<close>

theorem lease_exclusive:
  assumes "op_trace (registry_call env) t ls rg"
  shows "(fst (touch_daemon now did conn rg) = Inr () \<longleftrightarrow> lease_of did ls = Some conn)
    \<and> (lease_of did ls \<noteq> Some conn \<longrightarrow> disconnect_daemon did conn rg = rg)
    \<and> (lease_of did ls = Some conn \<and> lease_of did' ls = Some conn \<longrightarrow> did = did')"
proof -
  let ?P = "\<lambda>d. holds_lease did conn d \<and> rr_revoked_at d = None"
  note H = store.history[OF assms] and holder = store.lease_holder[OF assms]
  have ok: "daemons_ok (rg_daemons rg)" using H(1) by (simp add: registry_ok_def)
  have "length (filter ?P (rg_daemons rg)) = 1 \<longleftrightarrow> list_ex ?P (rg_daemons rg)"
  proof
    assume "list_ex ?P (rg_daemons rg)"
    then obtain d where "d \<in> set (rg_daemons rg)" "?P d" by (auto simp: list_ex_iff)
    then show "length (filter ?P (rg_daemons rg)) = 1"
      by (intro distinct_filter_1[of rr_daemon_id _ _ did d]) (use ok in \<open>auto simp: daemons_ok_def holds_lease_def\<close>)
  next
    assume "length (filter ?P (rg_daemons rg)) = 1"
    then have "filter ?P (rg_daemons rg) \<noteq> []" by auto
    then show "list_ex ?P (rg_daemons rg)" by (auto simp: filter_empty_conv list_ex_iff)
  qed
  then have "fst (touch_daemon now did conn rg) = Inr () \<longleftrightarrow> lease_of did ls = Some conn" by (simp add: touch_daemon_def Let_def holder)
  moreover have "disconnect_daemon did conn rg = rg" if "lease_of did ls \<noteq> Some conn"
  proof -
    have "filter (holds_lease did conn) (rg_daemons rg) = []"
      using that H(4) by (auto simp: filter_empty_conv holds_lease_def leases_ok_def)
    then show ?thesis unfolding disconnect_daemon_def by (rule no_match_update)
  qed
  moreover have "did = did'" if both: "lease_of did ls = Some conn \<and> lease_of did' ls = Some conn"
  proof -
    obtain d d' where "d \<in> set (rg_daemons rg)" "holds_lease did conn d" "d' \<in> set (rg_daemons rg)" "holds_lease did' conn d'"
      using both holder[of did conn] holder[of did' conn] by (auto simp: list_ex_iff)
    then show ?thesis using daemons_okD(3)[OF ok, of d d' conn] by (simp add: holds_lease_def)
  qed
  ultimately show ?thesis by blast
qed

theorem lease_exclusive_witness: "fst (touch_daemon 5000 demo_did demo_conn demo_rg4) = Inr () \<and> disconnect_daemon demo_did ''stale'' demo_rg4 = demo_rg4"
proof -
  have "lease_of demo_did demo_history = Some demo_conn" "demo_conn \<noteq> ''stale''" by code_simp+
  then show ?thesis using lease_exclusive[OF demo_trace, of 5000 demo_did] by simp
qed

text \<open>C28. A credential opens its daemon until it is revoked, and nothing else does: over every history a connection is accepted exactly
  when the presented credential hashes to the one handed out for that daemon and the daemon was never revoked. The drawn connection
  identity must not be another daemon's, and the capabilities must be printable.\<close>

theorem credential_opens_until_revoked:
  assumes "op_trace (registry_call env) t ls rg" "re_to_string env capabilities = Some encoded" "btrim version \<noteq> []"
    and "\<forall>other. other \<noteq> did \<longrightarrow> lease_of other ls \<noteq> Some (random_hex 16 rnd)"
  shows "(\<exists>a. fst (connect_daemon env rnd now did credential version capabilities rg) = Inr a)
    \<longleftrightarrow> (\<exists>uid. (did, uid, hash_secret (re_auth env) credential) \<in> set (registrations_of ls)) \<and> Revoked did \<notin> snd ` set ls"
proof -
  note H = store.history[OF assms(1)]
  have ok: "daemons_ok (rg_daemons rg)" using H(1) by (simp add: registry_ok_def)
  have free: "\<not> list_ex (\<lambda>x. rr_daemon_id x \<noteq> did \<and> rr_connection_id x = Some (random_hex 16 rnd)) (rg_daemons rg)"
    using assms(4) H(4) by (auto simp: list_ex_iff leases_ok_def)
  have reg: "(did, uid, c) \<in> set (registrations_of ls) \<longleftrightarrow> (\<exists>d\<in>set (rg_daemons rg). rr_daemon_id d = did \<and> rr_created_by d = uid \<and> rr_credential_hash d = c)" for uid c
    unfolding H(3)[symmetric] by (auto simp: registration_key_def)
  have "(\<exists>a. fst (connect_daemon env rnd now did credential version capabilities rg) = Inr a)
    \<longleftrightarrow> (\<exists>d. find_registration did rg = Some d \<and> rr_revoked_at d = None \<and> rr_credential_hash d = hash_secret (re_auth env) credential)"
    using assms(2,3) free by (auto simp: connect_daemon_def encode_capabilities_def registry_tx_def connect_tx_def Let_def split: option.splits)
  also have "\<dots> \<longleftrightarrow> (\<exists>d\<in>set (rg_daemons rg). rr_daemon_id d = did \<and> rr_revoked_at d = None \<and> rr_credential_hash d = hash_secret (re_auth env) credential)"
    using find_registration_unique[OF ok] find_registration_Some[of did rg] by fastforce
  also have "\<dots> \<longleftrightarrow> (\<exists>uid. (did, uid, hash_secret (re_auth env) credential) \<in> set (registrations_of ls)) \<and> Revoked did \<notin> snd ` set ls"
    using H(4) unfolding reg leases_ok_def by fastforce
  finally show ?thesis .
qed

theorem credential_opens_until_revoked_witness:
  "(\<exists>a. fst (connect_daemon demo_env (\<lambda>_. 6) 5000 demo_did demo_credential ''0.1'' [''agent''] demo_rg4) = Inr a)
    \<and> \<not> (\<exists>a. fst (connect_daemon demo_env (\<lambda>_. 6) 5000 demo_did ''guess'' ''0.1'' [''agent''] demo_rg4) = Inr a)"
proof -
  have regs: "registrations_of demo_history = [(demo_did, ''u1'', demo_credential)]" by (simp add: demo_history_def registrations_of_def map_filter_def)
  have ne: "hash_secret (re_auth demo_env) demo_credential = demo_credential" "hash_secret (re_auth demo_env) ''guess'' \<noteq> demo_credential" by code_simp+
  have other: "lease_of other demo_history \<noteq> Some (random_hex 16 (\<lambda>_. 6))" if "other \<noteq> demo_did" for other
    using that by (simp add: demo_history_def lease_of_def lease_step_def)
  have unrevoked: "Revoked demo_did \<notin> snd ` set demo_history" by (simp add: demo_history_def)
  have "re_to_string demo_env [''agent''] = Some ''agent''" "btrim ''0.1'' \<noteq> []" by code_simp+
  from credential_opens_until_revoked[OF demo_trace this, of demo_did "\<lambda>_. 6" 5000] other unrevoked
  show ?thesis unfolding regs using ne by auto
qed

text \<open>Public pairing cannot be flooded: at every moment after any history at most three requests from one client network wait to be
  claimed.\<close>

theorem pending_setups_bounded:
  assumes "op_trace (registry_call env) t ls rg" "t \<le> now"
  shows "length (filter (pending_setup now key) (rg_setups rg)) \<le> 3"
  using store.history(6)[OF assms(1)] assms(2) by (simp add: pending_ok_def DAEMON_SETUP_PENDING_LIMIT_def)

theorem pending_setups_bounded_witness: "length (filter (pending_setup 5000 ''10.0.0.0/24'') (rg_setups demo_rg4)) \<le> 3"
  by (rule pending_setups_bounded[OF demo_trace]) simp

end
