(* ===== verification/Daemon_Sessions.thy ===== *)
theory Daemon_Sessions
  imports Daemon_Registry "HOL-Library.Code_Target_Nat"
begin

text \<open>
  Sessions and their commands: the second half of \<open>north-persistence/src/daemon.rs\<close>, from \<open>reconciliation_for_daemon\<close> on,
  over the tables of \<open>Requirement_Store\<close>. The transactions of \<open>delivery.rs\<close> act on the same tables by \<open>delivery_view\<close>.

  The closure \<open>build_payload\<close> is a function argument with its error. Foreign keys to \<open>requirements\<close> and the conflict keys of
  \<open>server_message_command_map\<close> are checked.
\<close>

section \<open>The delivery tables\<close>

definition delivery_session :: "execution_session \<Rightarrow> session_row" where
  "delivery_session s = \<lparr>ss_command_ack_through_seq = es_command_ack_through_seq s, ss_event_ack_through_seq = es_event_ack_through_seq s,
     ss_event_ack_sparse = es_event_ack_sparse s\<rparr>"

definition delivery_view :: "server_db \<Rightarrow> delivery_db" where
  "delivery_view db = \<lparr>db_sessions = map (\<lambda>(k, s). (k, delivery_session s)) (sv_sessions db), db_outbox = sv_outbox db,
     db_tombstones = sv_tombstones db, db_events = sv_events db, db_readiness_events = map asr_event_id (sv_assessments db)\<rparr>"

definition put_delivery :: "delivery_db \<Rightarrow> server_db \<Rightarrow> server_db" where
  "put_delivery d db = db\<lparr>sv_sessions := map (\<lambda>(k, s). (k, case map_of (db_sessions d) k of None \<Rightarrow> s
       | Some x \<Rightarrow> s\<lparr>es_command_ack_through_seq := ss_command_ack_through_seq x, es_event_ack_through_seq := ss_event_ack_through_seq x,
                     es_event_ack_sparse := ss_event_ack_sparse x\<rparr>)) (sv_sessions db),
     sv_outbox := db_outbox d, sv_tombstones := db_tombstones d, sv_events := db_events d\<rparr>"

definition on_delivery :: "(delivery_db \<Rightarrow> persistence_error + 'a \<times> delivery_db) \<Rightarrow> server_db \<Rightarrow> (persistence_error + 'a) \<times> server_db" where
  "on_delivery tx db = (case tx (delivery_view db) of Inl e \<Rightarrow> (Inl e, db) | Inr (a, d) \<Rightarrow> (Inr a, put_delivery d db))"

section \<open>Queries\<close>

record daemon_session_state =
  dss_session_id :: string
  dss_command_ack_through_seq :: u64
  dss_event_ack_through_seq :: u64
  dss_event_ack_sparse :: "u64 list"

definition reconcile_row :: "string \<times> execution_session \<Rightarrow> persistence_error + daemon_session_state" where
  "reconcile_row r = (case r of (sid, s) \<Rightarrow>
     and_then (collect_results (map u64_from_i64 (es_event_ack_sparse s))) (\<lambda>sparse.
     and_then (u64_from_i64 (es_command_ack_through_seq s)) (\<lambda>command_ack.
     and_then (u64_from_i64 (es_event_ack_through_seq s)) (\<lambda>event_ack.
     Inr \<lparr>dss_session_id = sid, dss_command_ack_through_seq = command_ack, dss_event_ack_through_seq = event_ack,
          dss_event_ack_sparse = sparse\<rparr>))))"

definition reconciliation_for_daemon :: "string \<Rightarrow> server_db \<Rightarrow> persistence_error + daemon_session_state list" where
  "reconciliation_for_daemon did db =
     collect_results (map reconcile_row (sort_key fst (filter (\<lambda>(_, s). es_daemon_id s = Some did) (sv_sessions db))))"

text \<open>\<open>ExistingCommandRow\<close>, from the outbox or from the tombstones.\<close>

record existing_command =
  ec_command_id :: string
  ec_session_id :: string
  ec_daemon_id :: string
  ec_server_command_seq :: int
  ec_payload :: "string option"
  ec_payload_digest :: string
  ec_command_identity_digest :: string
  ec_compacted :: bool

definition existing_of_outbox :: "outbox_row \<Rightarrow> existing_command" where
  "existing_of_outbox r =
     \<lparr>ec_command_id = so_command_id r, ec_session_id = so_session_id r, ec_daemon_id = so_daemon_id r,
      ec_server_command_seq = so_server_command_seq r, ec_payload = Some (so_payload r), ec_payload_digest = so_payload_digest r,
      ec_command_identity_digest = so_command_identity_digest r, ec_compacted = False\<rparr>"

definition existing_of_tombstone :: "tombstone_row \<Rightarrow> existing_command" where
  "existing_of_tombstone t =
     \<lparr>ec_command_id = tr_command_id t, ec_session_id = tr_session_id t, ec_daemon_id = tr_daemon_id t,
      ec_server_command_seq = tr_server_command_seq t, ec_payload = tr_payload t, ec_payload_digest = tr_payload_digest t,
      ec_command_identity_digest = tr_command_identity_digest t, ec_compacted = True\<rparr>"

definition existing_command_by_id :: "string \<Rightarrow> server_db \<Rightarrow> existing_command option" where
  "existing_command_by_id cid db =
     (case find (\<lambda>r. so_command_id r = cid) (sv_outbox db) of
        Some r \<Rightarrow> Some (existing_of_outbox r)
      | None \<Rightarrow> map_option existing_of_tombstone (find (\<lambda>t. tr_command_id t = cid) (sv_tombstones db)))"

definition into_pinned_command :: "digest_env \<Rightarrow> existing_command \<Rightarrow> persistence_error + pinned_command" where
  "into_pinned_command dg e =
     (let payload = or_empty (ec_payload e) in
      if \<not> ec_compacted e \<and> (payload_digest dg payload \<noteq> ec_payload_digest e
           \<or> \<not> command_identity_digest_valid dg payload (ec_command_identity_digest e))
      then Inl (ProtocolIntegrity ''command outbox payload digest mismatch'')
      else and_then (u64_from_i64 (ec_server_command_seq e)) (\<lambda>n.
           Inr \<lparr>pc_command_id = ec_command_id e, pc_session_id = ec_session_id e, pc_daemon_id = ec_daemon_id e,
                pc_server_command_seq = n, pc_payload = payload, pc_payload_digest = ec_payload_digest e,
                pc_command_identity_digest = ec_command_identity_digest e, pc_compacted = ec_compacted e\<rparr>))"

definition command_by_id :: "digest_env \<Rightarrow> string \<Rightarrow> server_db \<Rightarrow> persistence_error + pinned_command option" where
  "command_by_id dg cid db =
     (case existing_command_by_id cid db of None \<Rightarrow> Inr None | Some e \<Rightarrow> map_sum id Some (into_pinned_command dg e))"

definition message_command_matches :: "digest_env \<Rightarrow> string \<Rightarrow> string \<Rightarrow> string \<Rightarrow> string \<Rightarrow> server_db \<Rightarrow> bool" where
  "message_command_matches dg sid cid mid body db =
     (case find (\<lambda>m. mm_session_id m = sid \<and> mm_message_id m = mid) (sv_message_map db) of
        None \<Rightarrow> False
      | Some m \<Rightarrow> mm_command_id m = cid \<and> mm_content_digest m = payload_digest dg body)"

definition session_owner :: "string \<Rightarrow> server_db \<Rightarrow> string option" where
  "session_owner sid db = Option.bind (map_of (sv_sessions db) sid) es_daemon_id"

definition session_requirement :: "string \<Rightarrow> server_db \<Rightarrow> string option" where
  "session_requirement sid db = Option.bind (map_of (sv_sessions db) sid) es_requirement_id"

section \<open>Commands\<close>

definition command_identity_matches :: "digest_env \<Rightarrow> string \<Rightarrow> string \<Rightarrow> string \<Rightarrow> bool" where
  "command_identity_matches dg existing candidate stored \<longleftrightarrow>
     command_identity_digest dg candidate = stored
     \<or> payload_digest dg existing = stored
       \<and> (case dg_from_str dg existing of
            None \<Rightarrow> False
          | Some x \<Rightarrow> (case dg_from_str dg candidate of None \<Rightarrow> False | Some y \<Rightarrow> without_sent_at x = without_sent_at y))"

definition message_identity :: "digest_env \<Rightarrow> string \<Rightarrow> (string \<times> string) option" where
  "message_identity dg payload =
     Option.bind (dg_from_str dg payload) (\<lambda>value.
     Option.bind (Option.bind (json_get ''payload'' value) (json_get ''command'')) (\<lambda>command.
     Option.bind (Option.bind (json_get ''type'' command) json_str) (\<lambda>ty.
     if ty \<noteq> ''message.send'' then None
     else
       Option.bind (json_get ''payload'' command) (\<lambda>command_payload.
       Option.bind (Option.bind (json_get ''message_id'' command_payload) json_str) (\<lambda>message_id.
       Option.bind (Option.bind (json_get ''content'' command_payload) json_str) (\<lambda>content.
       if \<not> blank message_id \<and> \<not> blank content then Some (message_id, payload_digest dg content) else None))))))"

definition validate_active_repository_ids :: "string list \<Rightarrow> server_db \<Rightarrow> persistence_error + unit" where
  "validate_active_repository_ids ids db =
     (if list_all (\<lambda>x. (x, False) \<in> set (sv_repositories db)) ids then Inr () else Inl RepositoryNotFound)"

definition choose_daemon :: "clarification_env \<Rightarrow> nat \<Rightarrow> string list \<Rightarrow> server_db \<Rightarrow> persistence_error + string" where
  "choose_daemon env now required db =
     (case choose_eligible_daemon env now required db of None \<Rightarrow> Inl NoEligibleDaemon | Some did \<Rightarrow> Inr did)"

type_synonym payload_builder = "string \<Rightarrow> u64 \<Rightarrow> persistence_error + string"

definition repeat_command ::
  "digest_env \<Rightarrow> payload_builder \<Rightarrow> string \<Rightarrow> existing_command \<Rightarrow> persistence_error + pinned_command" where
  "repeat_command dg build sid e =
     (if ec_session_id e \<noteq> sid then Inl (ProtocolIntegrity ''command ID is already bound to another session'')
      else
        and_then (u64_from_i64 (ec_server_command_seq e)) (\<lambda>seq.
        and_then (build (ec_daemon_id e) seq) (\<lambda>candidate.
        if \<not> (case ec_payload e of
                 Some payload \<Rightarrow> command_identity_matches dg payload candidate (ec_command_identity_digest e)
               | None \<Rightarrow> command_identity_digest dg candidate = ec_command_identity_digest e)
        then Inl (ProtocolIntegrity ''command ID is already bound to a different payload'')
        else into_pinned_command dg e)))"

definition requirement_exists :: "string option \<Rightarrow> server_db \<Rightarrow> bool" where
  "requirement_exists rid db \<longleftrightarrow> (case rid of None \<Rightarrow> True | Some r \<Rightarrow> list_ex (\<lambda>x. rw_id x = r) (sv_requirements db))"

text \<open>The columns that the insert leaves out have their defaults.\<close>

definition plain_session :: "nat \<Rightarrow> string \<Rightarrow> string option \<Rightarrow> string list \<Rightarrow> bool \<Rightarrow> execution_session" where
  "plain_session now did rid repository_ids initialized =
     \<lparr>es_daemon_id = Some did, es_requirement_id = rid, es_state = ''Idle'', es_start_message_id = None, es_start_context = None,
      es_start_command_id = None, es_cancel_command_id = None, es_cancel_requested = False, es_runtime_id = None,
      es_terminal_summary = None, es_failure_class = None, es_failure_reason = None, es_attempt_count = 0, es_max_attempts = 3,
      es_next_retry_at = None, es_current_attempt_id = None, es_command_ack_through_seq = 0, es_event_ack_through_seq = 0,
      es_event_ack_sparse = [], es_repository_ids = repository_ids, es_repository_context_initialized = initialized,
      es_started_at = None, es_created_at = now, es_updated_at = now, es_last_activity_at = now\<rparr>"

definition bind_session ::
  "clarification_env \<Rightarrow> nat \<Rightarrow> string \<Rightarrow> string list \<Rightarrow> string option \<Rightarrow> string list option \<Rightarrow> execution_session \<Rightarrow> server_db
   \<Rightarrow> persistence_error + string \<times> server_db" where
  "bind_session env now sid required rid repositories s db =
     (let ids = (case repositories of None \<Rightarrow> [] | Some xs \<Rightarrow> xs); initialized = (repositories \<noteq> None) in
      if (case (es_requirement_id s, rid) of (Some bound, Some requested) \<Rightarrow> bound \<noteq> requested | _ \<Rightarrow> False)
      then Inl SessionRequirementMismatch
      else
        and_then
          (if initialized \<and> \<not> es_repository_context_initialized s
           then and_then (validate_active_repository_ids ids db) (\<lambda>_.
                Inr (on_session sid (\<lambda>s. s\<lparr>es_repository_ids := ids, es_repository_context_initialized := True\<rparr>) db))
           else if initialized \<and> es_repository_context_initialized s \<and> es_repository_ids s \<noteq> ids
           then Inl (ProtocolIntegrity ''session repository context cannot be retargeted'')
           else Inr db) (\<lambda>db.
        and_then
          (if rid \<noteq> None \<and> es_requirement_id s = None
           then if requirement_exists rid db then Inr (on_session sid (\<lambda>s. s\<lparr>es_requirement_id := rid\<rparr>) db)
                else Inl (Database ''foreign key'')
           else Inr db) (\<lambda>db.
        case es_daemon_id s of
          Some did \<Rightarrow> Inr (did, db)
        | None \<Rightarrow>
            and_then (choose_daemon env now required db) (\<lambda>did.
            Inr (did, on_session sid (\<lambda>s. s\<lparr>es_daemon_id := Some did\<rparr>) db)))))"

definition create_session ::
  "clarification_env \<Rightarrow> nat \<Rightarrow> string \<Rightarrow> string list \<Rightarrow> string option \<Rightarrow> string list option \<Rightarrow> server_db
   \<Rightarrow> persistence_error + string \<times> server_db" where
  "create_session env now sid required rid repositories db =
     (let ids = (case repositories of None \<Rightarrow> [] | Some xs \<Rightarrow> xs) in
      and_then (validate_active_repository_ids ids db) (\<lambda>_.
      and_then (choose_daemon env now required db) (\<lambda>did.
      if requirement_exists rid db
      then Inr (did, db\<lparr>sv_sessions := sv_sessions db @ [(sid, plain_session now did rid ids (repositories \<noteq> None))]\<rparr>)
      else Inl (Database ''foreign key''))))"

definition next_sequence :: "string \<Rightarrow> server_db \<Rightarrow> persistence_error + int" where
  "next_sequence sid db =
     (let outbox = list_max_or_0 (map so_server_command_seq (filter (\<lambda>r. so_session_id r = sid) (sv_outbox db)));
          tombstones = list_max_or_0 (map tr_server_command_seq (filter (\<lambda>t. tr_session_id t = sid) (sv_tombstones db)));
          acked = (case map_of (sv_sessions db) sid of None \<Rightarrow> 0 | Some s \<Rightarrow> es_command_ack_through_seq s);
          n = max outbox (max tombstones acked)
      in if n < i64_max then Inr (n + 1) else Inl (Database ''bigint out of range''))"

definition map_message :: "digest_env \<Rightarrow> string \<Rightarrow> string \<Rightarrow> string \<Rightarrow> server_db \<Rightarrow> persistence_error + server_db" where
  "map_message dg sid cid payload db =
     (case message_identity dg payload of
        None \<Rightarrow> Inr db
      | Some (mid, digest) \<Rightarrow>
          if list_ex (\<lambda>m. (mm_session_id m = sid \<and> mm_message_id m = mid) \<or> mm_command_id m = cid) (sv_message_map db)
          then
            (case find (\<lambda>m. mm_session_id m = sid \<and> mm_message_id m = mid) (sv_message_map db) of
               None \<Rightarrow> Inl (Database ''row not found'')
             | Some m \<Rightarrow>
                 if mm_command_id m \<noteq> cid \<or> mm_content_digest m \<noteq> digest
                 then Inl (ProtocolIntegrity ''message ID is already bound to another command'') else Inr db)
          else Inr (db\<lparr>sv_message_map := sv_message_map db @
                 [\<lparr>mm_session_id = sid, mm_message_id = mid, mm_command_id = cid, mm_content_digest = digest\<rparr>]\<rparr>))"

definition insert_outbox :: "outbox_row \<Rightarrow> server_db \<Rightarrow> persistence_error + server_db" where
  "insert_outbox r db =
     (if list_ex (\<lambda>x. so_command_id x = so_command_id r
          \<or> (so_session_id x = so_session_id r \<and> so_server_command_seq x = so_server_command_seq r)) (sv_outbox db)
      then Inl (Database ''duplicate key'')
      else Inr (db\<lparr>sv_outbox := sv_outbox db @ [r]\<rparr>))"

definition new_outbox_row :: "digest_env \<Rightarrow> string \<Rightarrow> string \<Rightarrow> string \<Rightarrow> int \<Rightarrow> string \<Rightarrow> outbox_row" where
  "new_outbox_row dg cid sid did seq payload =
     \<lparr>so_command_id = cid, so_session_id = sid, so_daemon_id = did, so_server_command_seq = seq, so_payload = payload,
      so_payload_digest = payload_digest dg payload, so_command_identity_digest = command_identity_digest dg payload,
      so_acknowledged = False\<rparr>"

definition append_command ::
  "digest_env \<Rightarrow> payload_builder \<Rightarrow> string \<Rightarrow> string \<Rightarrow> string \<Rightarrow> server_db \<Rightarrow> persistence_error + pinned_command \<times> server_db" where
  "append_command dg build sid cid did db =
     and_then (next_sequence sid db) (\<lambda>n.
     and_then (u64_from_i64 n) (\<lambda>seq.
     and_then (build did seq) (\<lambda>payload.
     and_then (map_message dg sid cid payload db) (\<lambda>db.
     and_then (insert_outbox (new_outbox_row dg cid sid did n payload) db) (\<lambda>db.
     Inr (\<lparr>pc_command_id = cid, pc_session_id = sid, pc_daemon_id = did, pc_server_command_seq = seq, pc_payload = payload,
           pc_payload_digest = payload_digest dg payload, pc_command_identity_digest = command_identity_digest dg payload,
           pc_compacted = False\<rparr>, db))))))"

text \<open>The error of the returned row's conversion comes after the commit; nothing was written by then.\<close>

definition start_session_tx ::
  "clarification_env \<Rightarrow> payload_builder \<Rightarrow> nat \<Rightarrow> string \<Rightarrow> string \<Rightarrow> string list \<Rightarrow> string option \<Rightarrow> string list option \<Rightarrow> server_db
   \<Rightarrow> persistence_error + pinned_command \<times> server_db" where
  "start_session_tx env build now sid cid required rid repositories db =
     (case existing_command_by_id cid db of
        Some e \<Rightarrow> and_then (repeat_command (cl_digests env) build sid e) (\<lambda>p. Inr (p, db))
      | None \<Rightarrow>
          and_then (case map_of (sv_sessions db) sid of
                      Some s \<Rightarrow> bind_session env now sid required rid repositories s db
                    | None \<Rightarrow> create_session env now sid required rid repositories db) (\<lambda>(did, db).
          append_command (cl_digests env) build sid cid did db))"

definition start_session_with_command_for_requirement_and_repositories ::
  "clarification_env \<Rightarrow> payload_builder \<Rightarrow> nat \<Rightarrow> string \<Rightarrow> string \<Rightarrow> string list \<Rightarrow> string option \<Rightarrow> string list option \<Rightarrow> server_db
   \<Rightarrow> (persistence_error + pinned_command) \<times> server_db" where
  "start_session_with_command_for_requirement_and_repositories env build now sid cid required rid repositories db =
     (case start_session_tx env build now sid cid required rid repositories db of Inl e \<Rightarrow> (Inl e, db) | Inr (p, db') \<Rightarrow> (Inr p, db'))"

definition start_session_with_command_for_requirement ::
  "clarification_env \<Rightarrow> payload_builder \<Rightarrow> nat \<Rightarrow> string \<Rightarrow> string \<Rightarrow> string list \<Rightarrow> string option \<Rightarrow> server_db
   \<Rightarrow> (persistence_error + pinned_command) \<times> server_db" where
  "start_session_with_command_for_requirement env build now sid cid required rid =
     start_session_with_command_for_requirement_and_repositories env build now sid cid required rid None"

definition start_session_with_command ::
  "clarification_env \<Rightarrow> payload_builder \<Rightarrow> nat \<Rightarrow> string \<Rightarrow> string \<Rightarrow> string list \<Rightarrow> server_db \<Rightarrow> (persistence_error + pinned_command) \<times> server_db" where
  "start_session_with_command env build now sid cid required =
     start_session_with_command_for_requirement_and_repositories env build now sid cid required None None"

section \<open>Consistency of the commands\<close>

text \<open>Every command belongs to the daemon of its session, and no two commands of a session share a number or an identity.\<close>

definition command_keys :: "server_db \<Rightarrow> (string \<times> string \<times> int) list" where
  "command_keys db = map (\<lambda>r. (so_command_id r, so_session_id r, so_server_command_seq r)) (sv_outbox db)
     @ map (\<lambda>t. (tr_command_id t, tr_session_id t, tr_server_command_seq t)) (sv_tombstones db)"

definition commands_owned :: "server_db \<Rightarrow> bool" where
  "commands_owned db \<longleftrightarrow> list_all (\<lambda>r. session_owner (so_session_id r) db = Some (so_daemon_id r)) (sv_outbox db)
     \<and> list_all (\<lambda>t. session_owner (tr_session_id t) db = Some (tr_daemon_id t)) (sv_tombstones db)"

definition commands_ok :: "server_db \<Rightarrow> bool" where
  "commands_ok db \<longleftrightarrow> commands_owned db \<and> distinct (map fst (command_keys db)) \<and> distinct (map snd (command_keys db))"

lemma on_session_tables [simp]: "sv_outbox (on_session sid g db) = sv_outbox db" "sv_tombstones (on_session sid g db) = sv_tombstones db"
  by (simp_all add: on_session_def)

text \<open>What binding does: the tables of commands stay, an owner stays, and the session is owned by the chosen daemon.\<close>

definition bound :: "string \<Rightarrow> string \<Rightarrow> server_db \<Rightarrow> server_db \<Rightarrow> bool" where
  "bound sid did db db' \<longleftrightarrow> sv_outbox db' = sv_outbox db \<and> sv_tombstones db' = sv_tombstones db \<and> session_owner sid db' = Some did
     \<and> (\<forall>x d. session_owner x db = Some d \<longrightarrow> session_owner x db' = Some d)
     \<and> (\<forall>x r. session_requirement x db = Some r \<longrightarrow> session_requirement x db' = Some r)"

definition keeps_bindings :: "string \<Rightarrow> server_db \<Rightarrow> server_db \<Rightarrow> bool" where
  "keeps_bindings sid db db' \<longleftrightarrow> sv_outbox db' = sv_outbox db \<and> sv_tombstones db' = sv_tombstones db
     \<and> (\<forall>x. session_owner x db' = session_owner x db) \<and> (\<forall>x r. session_requirement x db = Some r \<longrightarrow> session_requirement x db' = Some r)"

lemma keeps_bindings_refl: "keeps_bindings sid db db"
  by (simp add: keeps_bindings_def)

lemma keeps_bindings_trans: "keeps_bindings sid a b \<Longrightarrow> keeps_bindings sid b c \<Longrightarrow> keeps_bindings sid a c"
  by (simp add: keeps_bindings_def)

lemma keeps_repositories: "keeps_bindings sid db (on_session sid (\<lambda>s. s\<lparr>es_repository_ids := ids, es_repository_context_initialized := True\<rparr>) db)"
  by (cases "map_of (sv_sessions db) sid") (auto simp: keeps_bindings_def session_owner_def session_requirement_def map_of_on_session option.map_id)

lemma keeps_requirement:
  "map_of (sv_sessions db) sid = Some s \<Longrightarrow> es_requirement_id s = None \<Longrightarrow> keeps_bindings sid db (on_session sid (\<lambda>s. s\<lparr>es_requirement_id := rid\<rparr>) db)"
  by (auto simp: keeps_bindings_def session_owner_def session_requirement_def map_of_on_session option.map_id)

lemma set_daemon_bindings:
  assumes "map_of (sv_sessions db) sid = Some s"
  shows "session_owner x (on_session sid (\<lambda>s. s\<lparr>es_daemon_id := Some did\<rparr>) db) = (if x = sid then Some did else session_owner x db)"
    "session_requirement x (on_session sid (\<lambda>s. s\<lparr>es_daemon_id := Some did\<rparr>) db) = session_requirement x db"
  using assms by (simp_all add: session_owner_def session_requirement_def map_of_on_session option.map_id)

lemma bind_session_bound:
  assumes s: "map_of (sv_sessions db) sid = Some s" and b: "bind_session env now sid required rid repositories s db = Inr (did, db')"
  shows "bound sid did db db'"
proof -
  let ?ids = "case repositories of None \<Rightarrow> [] | Some xs \<Rightarrow> xs"
  obtain db1 db2 where 1: "db1 = db \<or> db1 = on_session sid (\<lambda>s. s\<lparr>es_repository_ids := ?ids, es_repository_context_initialized := True\<rparr>) db"
    and 2: "db2 = db1 \<or> es_requirement_id s = None \<and> db2 = on_session sid (\<lambda>s. s\<lparr>es_requirement_id := rid\<rparr>) db1"
    and 3: "es_daemon_id s = Some did \<and> db' = db2 \<or> es_daemon_id s = None \<and> db' = on_session sid (\<lambda>s. s\<lparr>es_daemon_id := Some did\<rparr>) db2"
    using b by (auto simp: bind_session_def Let_def and_then_Inr_iff split: if_splits option.splits)
  have k1: "keeps_bindings sid db db1" using 1 keeps_repositories keeps_bindings_refl by blast
  have "\<exists>s1. map_of (sv_sessions db1) sid = Some s1 \<and> es_requirement_id s1 = es_requirement_id s" using 1 s by (auto simp: map_of_on_session option.map_id)
  then have k2: "keeps_bindings sid db1 db2" using 2 keeps_requirement keeps_bindings_refl by metis
  note k = keeps_bindings_trans[OF k1 k2]
  have owner: "session_owner sid db2 = es_daemon_id s" using k s by (simp add: keeps_bindings_def session_owner_def)
  from 3 show ?thesis
  proof (elim disjE conjE)
    assume "es_daemon_id s = None" and db': "db' = on_session sid (\<lambda>s. s\<lparr>es_daemon_id := Some did\<rparr>) db2"
    obtain s2 where "map_of (sv_sessions db2) sid = Some s2" using 1 2 s by (auto simp: map_of_on_session option.map_id)
    then show ?thesis using k owner \<open>es_daemon_id s = None\<close> unfolding db' bound_def keeps_bindings_def
      by (simp add: set_daemon_bindings)
  qed (use k owner in \<open>auto simp: bound_def keeps_bindings_def\<close>)
qed

lemma create_session_bound:
  assumes "map_of (sv_sessions db) sid = None" "create_session env now sid required rid repositories db = Inr (did, db')"
  shows "bound sid did db db'"
proof -
  obtain ids i where db': "db' = db\<lparr>sv_sessions := sv_sessions db @ [(sid, plain_session now did rid ids i)]\<rparr>"
    using assms(2) by (auto simp: create_session_def Let_def and_then_Inr_iff split: if_splits)
  have "map_of (sv_sessions db') x = (if x = sid then Some (plain_session now did rid ids i) else map_of (sv_sessions db) x)" for x
    using assms(1) by (simp add: db' map_add_def split: option.splits)
  then show ?thesis using assms(1) by (auto simp: bound_def session_owner_def session_requirement_def db' plain_session_def)
qed

lemma next_sequence_above:
  assumes "next_sequence sid db = Inr n" "(cid, sid, m) \<in> set (command_keys db)"
  shows "m < n"
proof -
  have "m \<le> list_max_or_0 (map so_server_command_seq (filter (\<lambda>r. so_session_id r = sid) (sv_outbox db)))
    \<or> m \<le> list_max_or_0 (map tr_server_command_seq (filter (\<lambda>t. tr_session_id t = sid) (sv_tombstones db)))"
    using assms(2) list_max_or_0_ge[of m] by (auto simp: command_keys_def)
  then show ?thesis using assms(1) by (auto simp: next_sequence_def Let_def max_def split: if_splits)
qed

lemma map_message_tables:
  assumes "map_message dg sid cid payload db = Inr db'"
  shows "sv_outbox db' = sv_outbox db" "sv_tombstones db' = sv_tombstones db" "session_owner x db' = session_owner x db"
    "session_requirement x db' = session_requirement x db"
  using assms by (auto simp: map_message_def session_owner_def session_requirement_def split: option.splits if_splits)

text \<open>A new command: its row, its answer, and its number.\<close>

lemma append_command_Inr:
  assumes "append_command dg build sid cid did db = Inr (p, db')"
  shows "pc_command_id p = cid \<and> pc_session_id p = sid \<and> pc_daemon_id p = did \<and> \<not> pc_compacted p
    \<and> (\<exists>n payload. next_sequence sid db = Inr n \<and> u64_from_i64 n = Inr (pc_server_command_seq p) \<and> build did (pc_server_command_seq p) = Inr payload
        \<and> pc_payload p = payload \<and> pc_payload_digest p = payload_digest dg payload \<and> pc_command_identity_digest p = command_identity_digest dg payload
        \<and> sv_outbox db' = sv_outbox db @ [new_outbox_row dg cid sid did n payload])
    \<and> sv_tombstones db' = sv_tombstones db \<and> (\<forall>x. session_owner x db' = session_owner x db) \<and> (\<forall>x. session_requirement x db' = session_requirement x db)"
proof -
  obtain n seq payload db1 where n: "next_sequence sid db = Inr n" "u64_from_i64 n = Inr seq" "build did seq = Inr payload"
    and m: "map_message dg sid cid payload db = Inr db1" and i: "insert_outbox (new_outbox_row dg cid sid did n payload) db1 = Inr db'"
    and p: "p = \<lparr>pc_command_id = cid, pc_session_id = sid, pc_daemon_id = did, pc_server_command_seq = seq, pc_payload = payload,
        pc_payload_digest = payload_digest dg payload, pc_command_identity_digest = command_identity_digest dg payload, pc_compacted = False\<rparr>"
    using assms by (auto simp: append_command_def and_then_Inr_iff)
  have "db' = db1\<lparr>sv_outbox := sv_outbox db1 @ [new_outbox_row dg cid sid did n payload]\<rparr>"
    using i by (auto simp: insert_outbox_def split: if_splits)
  then show ?thesis using n map_message_tables[OF m] unfolding p by (simp add: session_owner_def session_requirement_def)
qed

lemma existing_None:
  "existing_command_by_id cid db = None \<longleftrightarrow> cid \<notin> fst ` set (command_keys db)"
proof -
  have "fst ` set (command_keys db) = so_command_id ` set (sv_outbox db) \<union> tr_command_id ` set (sv_tombstones db)"
    by (simp add: command_keys_def image_Un image_image)
  moreover have "find (\<lambda>r. so_command_id r = cid) (sv_outbox db) = None \<longleftrightarrow> cid \<notin> so_command_id ` set (sv_outbox db)"
    "find (\<lambda>t. tr_command_id t = cid) (sv_tombstones db) = None \<longleftrightarrow> cid \<notin> tr_command_id ` set (sv_tombstones db)"
    by (auto simp: find_None_iff)
  ultimately show ?thesis by (auto simp: existing_command_by_id_def split: option.splits)
qed

lemma commands_ok_append:
  assumes ok: "commands_ok db" and owner: "session_owner sid db = Some did" and new: "cid \<notin> fst ` set (command_keys db)"
    and a: "append_command dg build sid cid did db = Inr (p, db')"
  shows "commands_ok db'"
proof -
  obtain n payload where n: "next_sequence sid db = Inr n" and out: "sv_outbox db' = sv_outbox db @ [new_outbox_row dg cid sid did n payload]"
    and rest: "sv_tombstones db' = sv_tombstones db" "\<And>x. session_owner x db' = session_owner x db"
    using append_command_Inr[OF a] by blast
  have perm: "set (command_keys db') = insert (cid, sid, n) (set (command_keys db))"
    and len: "length (command_keys db') = Suc (length (command_keys db))"
    by (auto simp: command_keys_def out rest new_outbox_row_def)
  have fresh: "(sid, n) \<notin> snd ` set (command_keys db)" using next_sequence_above[OF n] by fastforce
  have distinct: "distinct (map f (command_keys db'))" if "distinct (map f (command_keys db))" "f (cid, sid, n) \<notin> f ` set (command_keys db)" for f :: "string \<times> string \<times> int \<Rightarrow> 'a"
  proof (rule card_distinct)
    have "card (set (map f (command_keys db'))) = Suc (card (f ` set (command_keys db)))" using that(2) by (simp add: perm)
    then show "card (set (map f (command_keys db'))) = length (map f (command_keys db'))" using distinct_card[OF that(1)] len by simp
  qed
  have "commands_owned db'" using ok owner by (simp add: commands_ok_def commands_owned_def out rest new_outbox_row_def)
  then show ?thesis using ok distinct[of fst] distinct[of snd] new fresh by (simp add: commands_ok_def)
qed

lemma commands_ok_bound:
  assumes "commands_ok db" "bound sid did db db'"
  shows "commands_ok db'"
proof -
  have t: "sv_outbox db' = sv_outbox db" "sv_tombstones db' = sv_tombstones db" "command_keys db' = command_keys db"
    using assms(2) by (simp_all add: bound_def command_keys_def)
  have "commands_owned db'" using assms unfolding commands_ok_def commands_owned_def t list_all_iff bound_def by blast
  then show ?thesis using assms(1) by (simp add: commands_ok_def t)
qed

lemma start_session_cases:
  assumes "start_session_with_command_for_requirement_and_repositories env build now sid cid required rid repositories db = (r, db')"
  obtains (refused) e where "r = Inl e" "db' = db"
  | (repeated) p where "r = Inr p" "db' = db" "existing_command_by_id cid db \<noteq> None"
  | (started) p did db1 where "r = Inr p" "existing_command_by_id cid db = None" "bound sid did db db1"
      "append_command (cl_digests env) build sid cid did db1 = Inr (p, db')"
proof (cases "start_session_tx env build now sid cid required rid repositories db")
  case (Inl e)
  then have "r = Inl e" "db' = db" using assms by (auto simp: start_session_with_command_for_requirement_and_repositories_def)
  then show ?thesis by (rule refused)
next
  case (Inr q)
  then have q: "r = Inr (fst q)" "db' = snd q" using assms
    by (auto simp: start_session_with_command_for_requirement_and_repositories_def split: prod.splits)
  show ?thesis
  proof (cases "existing_command_by_id cid db")
    case None
    then obtain did db1 where 1: "(case map_of (sv_sessions db) sid of Some s \<Rightarrow> bind_session env now sid required rid repositories s db
        | None \<Rightarrow> create_session env now sid required rid repositories db) = Inr (did, db1)"
      and 2: "append_command (cl_digests env) build sid cid did db1 = Inr q"
      using Inr by (auto simp: start_session_tx_def and_then_Inr_iff)
    have "bound sid did db db1" using 1 bind_session_bound create_session_bound by (auto split: option.splits)
    then show ?thesis using started[of "fst q" did db1] q None 2 by simp
  next
    case (Some e)
    then show ?thesis using Inr q repeated[of "fst q"] by (auto simp: start_session_tx_def and_then_Inr_iff)
  qed
qed

section \<open>Properties\<close>

text \<open>C30. A session stays with its daemon: starting a session or adding a command to it keeps every earlier owner and requirement of every
  session, keeps each command with the daemon of its session and all numbers and identities of commands distinct; and a command that
  was not known goes to the session's owner with a number above all earlier ones of the session.\<close>

theorem session_stays_with_daemon:
  assumes "commands_ok db"
    and "start_session_with_command_for_requirement_and_repositories env build now sid cid required rid repositories db = (r, db')"
  shows "commands_ok db'
    \<and> (\<forall>x d. session_owner x db = Some d \<longrightarrow> session_owner x db' = Some d)
    \<and> (\<forall>x q. session_requirement x db = Some q \<longrightarrow> session_requirement x db' = Some q)
    \<and> (\<forall>p. r = Inr p \<and> existing_command_by_id cid db = None \<longrightarrow> session_owner sid db' = Some (pc_daemon_id p)
          \<and> (\<forall>(c, x, m) \<in> set (command_keys db). x = sid \<longrightarrow> m < uint (pc_server_command_seq p)))"
  using assms(2)
proof (cases rule: start_session_cases)
  case (started p did db1)
  note a = append_command_Inr[OF started(4)]
  have keys: "command_keys db1 = command_keys db" using started(3) by (simp add: bound_def command_keys_def)
  have owner: "session_owner sid db1 = Some did" using started(3) by (simp add: bound_def)
  have "commands_ok db'"
    by (rule commands_ok_append[OF commands_ok_bound[OF assms(1) started(3)] owner _ started(4)]) (use started(2) keys existing_None in simp)
  moreover obtain n where n: "next_sequence sid db1 = Inr n" "u64_from_i64 n = Inr (pc_server_command_seq p)" using a by blast
  have "n \<le> i64_max" using n(1) by (auto simp: next_sequence_def Let_def split: if_splits)
  then have "uint (pc_server_command_seq p) = n"
  proof -
    have w: "0 \<le> n" "pc_server_command_seq p = word_of_int n" using n(2) by (auto simp: u64_from_i64_def split: if_splits)
    then show ?thesis using \<open>n \<le> i64_max\<close> by (simp add: i64_max_def uint_word_of_int)
  qed
  then have "\<forall>(c, x, m) \<in> set (command_keys db). x = sid \<longrightarrow> m < uint (pc_server_command_seq p)"
    using next_sequence_above[OF n(1)] keys by auto
  ultimately show ?thesis using a started(1,3) owner by (simp add: bound_def)
qed (use assms(1) in auto)

definition demo_digests :: digest_env where
  "demo_digests = \<lparr>dg_from_str = (\<lambda>_. None), dg_to_vec = (\<lambda>v. case v of JString s \<Rightarrow> Some s | _ \<Rightarrow> None), dg_md5_hex = id, dg_sha256_hex = id\<rparr>"

definition demo_cl :: clarification_env where
  "demo_cl = \<lparr>cl_store = \<lparr>st_row_ok = (\<lambda>_. True), st_feedback_ok = (\<lambda>_. True), st_ilike = (\<lambda>_ _. True)\<rparr>, cl_digests = demo_digests,
     cl_capabilities = (\<lambda>s. Some [s]), cl_message_ok = (\<lambda>_. True), cl_retention_seconds = 60\<rparr>"

definition demo_db :: server_db where
  "demo_db = \<lparr>sv_requirements = [], sv_conversations = [], sv_audit = [], sv_assessments = [], sv_sessions = [], sv_events = [],
     sv_legacy_events = [], sv_repositories = [], sv_attempts = [], sv_outbox = [], sv_tombstones = [], sv_messages = [], sv_message_map = [],
     sv_activities = [], sv_daemons = [\<lparr>dn_daemon_id = ''d1'', dn_capabilities = ''agent'', dn_protocol_version = ''0.1'', dn_connected = True,
       dn_revoked = False, dn_last_seen_at = Some 0\<rparr>]\<rparr>"

definition demo_start :: "(persistence_error + pinned_command) \<times> server_db" where
  "demo_start = start_session_with_command demo_cl (\<lambda>did seq. Inr (did @ '' runs'')) 1000 ''s1'' ''c1'' [''agent''] demo_db"

definition demo_pinned :: pinned_command where
  "demo_pinned = \<lparr>pc_command_id = ''c1'', pc_session_id = ''s1'', pc_daemon_id = ''d1'', pc_server_command_seq = 1, pc_payload = ''d1 runs'',
     pc_payload_digest = ''d1 runs'', pc_command_identity_digest = ''d1 runs'', pc_compacted = False\<rparr>"

lemma demo_start_runs: "fst demo_start = Inr demo_pinned"
  by code_simp

theorem session_stays_with_daemon_witness: "session_owner ''s1'' (snd demo_start) = Some ''d1'' \<and> commands_ok (snd demo_start)"
proof -
  have "start_session_with_command_for_requirement_and_repositories demo_cl (\<lambda>did seq. Inr (did @ '' runs'')) 1000 ''s1'' ''c1'' [''agent''] None None demo_db
    = (Inr demo_pinned, snd demo_start)"
    using demo_start_runs by (metis demo_start_def prod.collapse start_session_with_command_def)
  moreover have "commands_ok demo_db" by (simp add: commands_ok_def commands_owned_def command_keys_def demo_db_def)
  moreover have "existing_command_by_id ''c1'' demo_db = None" by (simp add: existing_command_by_id_def demo_db_def)
  ultimately show ?thesis using session_stays_with_daemon[of demo_db] by (fastforce simp: demo_pinned_def)
qed

text \<open>C31. A command is created once: repeating the call for a command identity, with any context and at any later time, answers the same
  command and changes nothing when the rebuilt payload has the same identity; any other payload and any other session are refused, and
  nothing changes.\<close>

theorem command_repeat_idempotent:
  assumes "start_session_with_command_for_requirement_and_repositories env build now sid cid required rid repositories db = (Inr p, db')"
    and "existing_command_by_id cid db = None"
    and "build' (pc_daemon_id p) (pc_server_command_seq p) = Inr payload'"
  shows "start_session_with_command_for_requirement_and_repositories env build' now' sid' cid required' rid' repositories' db'
    = ((if sid' \<noteq> sid then Inl (ProtocolIntegrity ''command ID is already bound to another session'')
        else if command_identity_matches (cl_digests env) (pc_payload p) payload' (pc_command_identity_digest p) then Inr p
        else Inl (ProtocolIntegrity ''command ID is already bound to a different payload'')), db')"
  using assms(1)
proof (cases rule: start_session_cases)
  case (started q did db1)
  let ?dg = "cl_digests env"
  from started(1) have [simp]: "q = p" by simp
  note a = append_command_Inr[OF started(4), simplified]
  obtain n payload where n: "u64_from_i64 n = Inr (pc_server_command_seq p)" and out: "sv_outbox db' = sv_outbox db1 @ [new_outbox_row ?dg cid sid did n payload]"
    and p: "pc_payload p = payload" "pc_payload_digest p = payload_digest ?dg payload" "pc_command_identity_digest p = command_identity_digest ?dg payload"
    using a by blast
  let ?row = "new_outbox_row ?dg cid sid did n payload"
  have ids: "pc_command_id p = cid" "pc_session_id p = sid" "pc_daemon_id p = did" "\<not> pc_compacted p" using a by blast+
  have "cid \<notin> fst ` set (command_keys db1)"
    using assms(2) started(3) unfolding existing_None by (simp add: bound_def command_keys_def)
  then have "\<not> list_ex (\<lambda>r. so_command_id r = cid) (sv_outbox db1)" by (force simp: command_keys_def list_ex_iff)
  then have "find (\<lambda>r. so_command_id r = cid) (sv_outbox db') = Some ?row"
    unfolding out by (rule find_snoc_new) (simp add: new_outbox_row_def)
  then have e: "existing_command_by_id cid db' = Some (existing_of_outbox ?row)" by (simp add: existing_command_by_id_def)
  have "into_pinned_command ?dg (existing_of_outbox ?row) = Inr p"
    using n p ids by (simp add: into_pinned_command_def existing_of_outbox_def new_outbox_row_def or_empty_def command_identity_digest_valid_def Let_def)
  then have "repeat_command ?dg build' sid' (existing_of_outbox ?row)
    = (if sid' \<noteq> sid then Inl (ProtocolIntegrity ''command ID is already bound to another session'')
       else if command_identity_matches ?dg payload payload' (command_identity_digest ?dg payload) then Inr p
       else Inl (ProtocolIntegrity ''command ID is already bound to a different payload''))"
    using assms(3) n ids by (simp add: repeat_command_def existing_of_outbox_def new_outbox_row_def)
  then show ?thesis
    by (simp add: start_session_with_command_for_requirement_and_repositories_def start_session_tx_def e p)
qed (use assms(2) in auto)

theorem command_repeat_idempotent_witness:
  "start_session_with_command_for_requirement_and_repositories demo_cl (\<lambda>did seq. Inr (did @ '' runs'')) 2000 ''s1'' ''c1'' [] None None (snd demo_start)
    = (Inr demo_pinned, snd demo_start)"
proof -
  have "start_session_with_command_for_requirement_and_repositories demo_cl (\<lambda>did seq. Inr (did @ '' runs'')) 1000 ''s1'' ''c1'' [''agent''] None None demo_db
    = (Inr demo_pinned, snd demo_start)"
    using demo_start_runs by (metis demo_start_def prod.collapse start_session_with_command_def)
  moreover have "existing_command_by_id ''c1'' demo_db = None" by (simp add: existing_command_by_id_def demo_db_def)
  moreover have "command_identity_matches (cl_digests demo_cl) (pc_payload demo_pinned) ''d1 runs'' (pc_command_identity_digest demo_pinned)" by code_simp
  ultimately show ?thesis
    using command_repeat_idempotent[of demo_cl _ 1000 "''s1''" "''c1''" "[''agent'']" None None demo_db demo_pinned "snd demo_start" "\<lambda>did seq. Inr (did @ '' runs'')" "''d1 runs''" 2000 "''s1''" "[]" None None]
    by (simp add: demo_pinned_def)
qed

end
