(* ===== verification/Event_Handling.thy ===== *)
theory Event_Handling
  imports Daemon_Sessions
begin

text \<open>
  What the server does with a daemon's event and with a command for a daemon: \<open>handle_event\<close>, the dispatch of commands and their
  helpers in \<open>north-server/src/daemon.rs\<close>, the ingestion of assessments in \<open>assessment.rs\<close>, and the categories of \<open>events.rs\<close>.

  \<^item> \<open>serde_json\<close>, the rendering of its errors and the clocks are the record \<open>host_env\<close>. A function of the handler's store calls
    returns the tables they leave behind and the browser notifications they publish.
  \<^item> The calls of one handler are modelled one after the other. A store call that fails leaves the tables.
\<close>

section \<open>Notifications\<close>

definition REQUIREMENT_CHANGED :: string where "REQUIREMENT_CHANGED = ''requirement.changed''"
definition CONVERSATION_CHANGED :: string where "CONVERSATION_CHANGED = ''conversation.changed''"
definition READINESS_CHANGED :: string where "READINESS_CHANGED = ''readiness.changed''"
definition ACTIVITY_CHANGED :: string where "ACTIVITY_CHANGED = ''activity.changed''"
definition SESSION_CHANGED :: string where "SESSION_CHANGED = ''session.changed''"

record browser_notification =
  bn_category :: string
  bn_requirement_id :: string

definition notify :: "string \<Rightarrow> string \<Rightarrow> browser_notification" where
  "notify category rid = \<lparr>bn_category = category, bn_requirement_id = rid\<rparr>"

section \<open>Parameters\<close>

record host_env =
  ho_registry :: registry_env
  ho_cl :: clarification_env
  ho_event_value :: "event_envelope \<Rightarrow> string + json"
  ho_event_string :: "event_envelope \<Rightarrow> string + string"
  ho_show :: "string frame_error \<Rightarrow> string"
  ho_to_string :: "server_frame \<Rightarrow> string + string"
  ho_from_str :: "string \<Rightarrow> string + server_frame"

section \<open>Assessments\<close>

datatype assessment_error = AsInvalidPayload "string frame_error" | AsPersistence readiness_error | NotAssessmentEvent

definition readiness_assessment_from_wire :: "requirement_assessed \<Rightarrow> u64 \<Rightarrow> string frame_error + readiness_assessment" where
  "readiness_assessment_from_wire wire assessed_at_ms =
     and_then (map_err Validation (requirement_assessed_validate wire)) (\<lambda>_.
     Inr \<lparr>ra_requirement_revision = as_requirement_revision wire,
          ra_verdict = (case as_verdict wire of WireReady \<Rightarrow> VerdictReady | WireNeedsClarification \<Rightarrow> NeedsClarification),
          ra_blockers = as_blockers wire, ra_assumptions = as_assumptions wire,
          ra_repositories_reviewed = map (\<lambda>r. \<lparr>rr_repository_id = rw_repository_id r, rr_commit_sha = rw_commit_sha r\<rparr>) (as_repositories_reviewed wire),
          ra_assessed_at_ms = assessed_at_ms\<rparr>)"

text \<open>\<open>event_ack\<close> of \<open>assessment.rs\<close>.\<close>

definition assessment_ack :: "string \<Rightarrow> string \<Rightarrow> u64 \<Rightarrow> readiness_assessment_result \<Rightarrow> event_ack" where
  "assessment_ack event_id session_id seq result =
     (let (status, reason) = (case ar_outcome (rar_record result) of
            OutcomeAccepted \<Rightarrow> (AckAccepted, None)
          | OutcomeRejected \<Rightarrow> (AckRejected, ar_rejection_reason (rar_record result)))
      in \<lparr>ea_event_id = event_id, ea_session_id = session_id, ea_daemon_event_seq = seq, ea_schema_version = SCHEMA_VERSION,
          ea_status = status, ea_reason = reason\<rparr>)"

definition process_requirement_assessed ::
  "host_env \<Rightarrow> (nat \<Rightarrow> nat) \<Rightarrow> nat \<Rightarrow> u64 \<Rightarrow> assessment_event \<Rightarrow> requirement_assessed \<Rightarrow> string option \<Rightarrow> server_db
   \<Rightarrow> (assessment_error + event_ack) \<times> browser_notification list \<times> server_db" where
  "process_requirement_assessed env rnd now now_ms ev payload digest db =
     (case readiness_assessment_from_wire payload now_ms of
        Inl e \<Rightarrow> (Inl (AsInvalidPayload e), [], db)
      | Inr a \<Rightarrow>
          (case (case digest of
                   Some d \<Rightarrow> record_readiness_assessment_with_event_digest (cl_store (ho_cl env)) rnd now ev (as_requirement_id payload) a d db
                 | None \<Rightarrow> record_readiness_assessment (cl_digests (ho_cl env)) (cl_store (ho_cl env)) rnd now ev (as_requirement_id payload) a db) of
             (Inl e, db) \<Rightarrow> (Inl (AsPersistence e), [], db)
           | (Inr result, db) \<Rightarrow>
               (Inr (assessment_ack (ar_event_id (rar_record result)) (ar_session_id (rar_record result)) (ar_daemon_event_seq (rar_record result)) result),
                if \<not> rar_duplicate result \<and> ar_outcome (rar_record result) = OutcomeAccepted
                then [notify REQUIREMENT_CHANGED (as_requirement_id payload)] else [],
                db)))"

definition handle_requirement_assessed ::
  "host_env \<Rightarrow> (nat \<Rightarrow> nat) \<Rightarrow> nat \<Rightarrow> u64 \<Rightarrow> event_envelope \<Rightarrow> server_db
   \<Rightarrow> (assessment_error + event_ack) \<times> browser_notification list \<times> server_db" where
  "handle_requirement_assessed env rnd now now_ms e db =
     (case ee_event e of
        RequirementAssessed payload \<Rightarrow>
          (case ho_event_value env e of
             Inl reason \<Rightarrow> (Inl (AsInvalidPayload (Json reason)), [], db)
           | Inr v \<Rightarrow>
               process_requirement_assessed env rnd now now_ms
                 \<lparr>ae_event_id = ee_event_id e, ae_session_id = ee_session_id e, ae_daemon_event_seq = ee_daemon_event_seq e\<rparr>
                 payload (Some (canonical_payload_digest (cl_digests (ho_cl env)) v)) db)
      | _ \<Rightarrow> (Inl NotAssessmentEvent, [], db))"

section \<open>Events\<close>

datatype event_handle_error = EhGap | EhIntegrity string | EhRequirementMismatch | EhInternal

definition map_persistence_event_error :: "persistence_error \<Rightarrow> event_handle_error" where
  "map_persistence_event_error e =
     (case e of EventSequenceGap _ _ \<Rightarrow> EhGap | ProtocolIntegrity reason \<Rightarrow> EhIntegrity reason | _ \<Rightarrow> EhInternal)"

definition map_assessment_event_error :: "host_env \<Rightarrow> assessment_error \<Rightarrow> event_handle_error" where
  "map_assessment_event_error env e =
     (case e of
        AsPersistence (RdSequenceGap _ _) \<Rightarrow> EhGap
      | AsInvalidPayload error \<Rightarrow> EhIntegrity (ho_show env error)
      | AsPersistence RdSequenceConflict \<Rightarrow> EhIntegrity ''event identity conflict''
      | AsPersistence RdEventIdentityConflict \<Rightarrow> EhIntegrity ''event identity conflict''
      | AsPersistence RdSessionRequirementMismatch \<Rightarrow> EhRequirementMismatch
      | _ \<Rightarrow> EhInternal)"

definition map_clarification_event_error :: "clarification_event_error \<Rightarrow> event_handle_error" where
  "map_clarification_event_error e =
     (case e of
        CeGap _ _ \<Rightarrow> EhGap
      | CeIntegrity \<Rightarrow> EhIntegrity ''event identity conflict''
      | CeSequenceConflict _ \<Rightarrow> EhIntegrity ''event identity conflict''
      | _ \<Rightarrow> EhInternal)"

definition event_ack_from_receipt :: "event_receipt \<Rightarrow> event_ack" where
  "event_ack_from_receipt r =
     (let (status, reason) = (case rc_outcome r of ReceiptAccepted \<Rightarrow> (AckAccepted, None) | ReceiptRejected \<Rightarrow> (AckRejected, rc_rejection_reason r))
      in \<lparr>ea_event_id = rc_event_id r, ea_session_id = rc_session_id r, ea_daemon_event_seq = rc_daemon_event_seq r,
          ea_schema_version = SCHEMA_VERSION, ea_status = status, ea_reason = reason\<rparr>)"

definition event_requirement_id :: "event_envelope \<Rightarrow> string" where
  "event_requirement_id e = (case ee_event e of RequirementAssessed payload \<Rightarrow> as_requirement_id payload | _ \<Rightarrow> [])"

definition clarification_event_of :: "event \<Rightarrow> clarification_event option" where
  "clarification_event_of e =
     (case e of
        SessionStarted runtime_id \<Rightarrow> Some (EvSessionStarted runtime_id)
      | AgentMessage m \<Rightarrow> Some (EvAgentMessage (am_message_id m) (am_content m))
      | AgentActivity activity \<Rightarrow> Some (EvActivity activity)
      | SessionCompleted summary \<Rightarrow> Some (EvCompleted summary)
      | SessionFailed f \<Rightarrow> Some (EvFailed (sf_recoverable f) (sf_reason f))
      | RequirementAssessed _ \<Rightarrow> None)"

definition event_notification :: "event \<Rightarrow> string \<Rightarrow> browser_notification list" where
  "event_notification e rid =
     (case e of
        AgentMessage _ \<Rightarrow> [notify CONVERSATION_CHANGED rid]
      | AgentActivity _ \<Rightarrow> [notify ACTIVITY_CHANGED rid]
      | RequirementAssessed _ \<Rightarrow> []
      | _ \<Rightarrow> [notify SESSION_CHANGED rid])"

text \<open>An event of a session that is no clarification run is recorded as rejected.\<close>

definition reject_event ::
  "host_env \<Rightarrow> event_envelope \<Rightarrow> string \<Rightarrow> string \<Rightarrow> server_db \<Rightarrow> (event_handle_error + event_ack) \<times> browser_notification list \<times> server_db" where
  "reject_event env e digest payload db =
     (case on_delivery (record_event_receipt_with_payload (cl_digests (ho_cl env))
        \<lparr>rq_event_id = ee_event_id e, rq_session_id = ee_session_id e, rq_daemon_event_seq = ee_daemon_event_seq e, rq_payload_digest = digest,
         rq_payload = payload, rq_outcome = ReceiptRejected, rq_rejection_reason = Some ''event_handler_not_implemented''\<rparr>) db of
        (Inl err, db) \<Rightarrow> (Inl (map_persistence_event_error err), [], db)
      | (Inr receipt, db) \<Rightarrow> (Inr (event_ack_from_receipt receipt), [], db))"

text \<open>The part of \<open>handle_event\<close> behind the digest, for the event of a run.\<close>

definition handle_run_event ::
  "host_env \<Rightarrow> int \<Rightarrow> nat \<Rightarrow> event_envelope \<Rightarrow> json \<Rightarrow> string \<Rightarrow> clarification_event \<Rightarrow> server_db
   \<Rightarrow> (event_handle_error + event_ack) \<times> browser_notification list \<times> server_db" where
  "handle_run_event env jitter now e v payload ce db =
     (let digest = canonical_payload_digest (cl_digests (ho_cl env)) v in
      case project_clarification_event (ho_cl env) jitter now (ee_event_id e) (ee_session_id e) (ee_daemon_event_seq e) digest payload ce db of
        (Inr receipt, db) \<Rightarrow>
          (Inr (event_ack_from_receipt receipt),
           if \<not> rc_duplicate receipt \<and> rc_outcome receipt = ReceiptAccepted
           then (case session_requirement (ee_session_id e) db of None \<Rightarrow> [] | Some rid \<Rightarrow> event_notification (ee_event e) rid)
           else [],
           db)
      | (Inl CeNotClarificationSession, db) \<Rightarrow> reject_event env e digest payload db
      | (Inl err, db) \<Rightarrow> (Inl (map_clarification_event_error err), [], db))"

definition handle_event ::
  "host_env \<Rightarrow> (nat \<Rightarrow> nat) \<Rightarrow> int \<Rightarrow> nat \<Rightarrow> u64 \<Rightarrow> event_envelope \<Rightarrow> server_db
   \<Rightarrow> (event_handle_error + event_ack) \<times> browser_notification list \<times> server_db" where
  "handle_event env rnd jitter now now_ms e db =
     (case clarification_event_of (ee_event e) of
        None \<Rightarrow>
          (case handle_requirement_assessed env rnd now now_ms e db of
             (Inl err, ns, db) \<Rightarrow> (Inl (map_assessment_event_error env err), ns, db)
           | (Inr ack, ns, db) \<Rightarrow> (Inr ack, ns @ [notify READINESS_CHANGED (event_requirement_id e)], db))
      | Some ce \<Rightarrow>
          (case (ho_event_value env e, ho_event_string env e) of
             (Inl reason, _) \<Rightarrow> (Inl (EhIntegrity reason), [], db)
           | (_, Inl reason) \<Rightarrow> (Inl (EhIntegrity reason), [], db)
           | (Inr v, Inr payload) \<Rightarrow> handle_run_event env jitter now e v payload ce db))"

section \<open>Dispatch\<close>

datatype dispatch_error = DispatchInvalidCommand | DispatchSessionNotFound | DispatchDaemonUnavailable | DispatchInternal

record command_request =
  cr_command_id :: string
  cr_session_id :: string
  cr_command :: command

definition same_retry_command :: "command \<Rightarrow> command \<Rightarrow> bool" where
  "same_retry_command requested persisted \<longleftrightarrow>
     (case (requested, persisted) of
        (SessionStart r, SessionStart p) \<Rightarrow> SessionStart (r\<lparr>ss_repositories := ss_repositories p\<rparr>)
      | _ \<Rightarrow> requested) = persisted"

text \<open>The rows of \<open>active_repositories\<close> are the argument \<open>repositories\<close>.\<close>

definition assemble_session_repositories :: "session_start \<Rightarrow> repository_context list \<Rightarrow> dispatch_error + command" where
  "assemble_session_repositories start repositories =
     (let requested = map rx_repository_id (ss_repositories start) in
      if \<not> distinct requested \<or> list_ex (\<lambda>i. \<not> list_ex (\<lambda>r. rx_repository_id r = i) repositories) requested
      then Inl DispatchInvalidCommand
      else Inr (SessionStart (start\<lparr>ss_repositories := filter (\<lambda>r. requested = [] \<or> rx_repository_id r \<in> set requested) repositories\<rparr>)))"

definition assemble_session_command :: "persistence_error + repository_context list \<Rightarrow> command \<Rightarrow> dispatch_error + command" where
  "assemble_session_command repositories c =
     (case c of
        SessionStart start \<Rightarrow> (case repositories of Inl _ \<Rightarrow> Inl DispatchInternal | Inr rs \<Rightarrow> assemble_session_repositories start rs)
      | _ \<Rightarrow> Inr c)"

definition envelope_matches :: "pinned_command \<Rightarrow> command_envelope \<Rightarrow> bool" where
  "envelope_matches p e \<longleftrightarrow> ce_command_id e = pc_command_id p \<and> ce_session_id e = pc_session_id p \<and> ce_server_command_seq e = pc_server_command_seq p"

definition persisted_envelope :: "host_env \<Rightarrow> string \<Rightarrow> dispatch_error + command_envelope" where
  "persisted_envelope env payload =
     (case server_from_json (ho_from_str env) payload of
        Inr (SF_Command e) \<Rightarrow> Inr e
      | _ \<Rightarrow> Inl DispatchInvalidCommand)"

definition command_payload :: "host_env \<Rightarrow> string \<Rightarrow> string \<Rightarrow> string \<Rightarrow> command \<Rightarrow> u64 \<Rightarrow> string frame_error + string" where
  "command_payload env sent_at cid sid c seq =
     server_to_json (ho_to_string env) (SF_Command \<lparr>ce_command_id = cid, ce_session_id = sid, ce_server_command_seq = seq, ce_sent_at = sent_at,
       ce_schema_version = SCHEMA_VERSION, ce_command = c\<rparr>)"

text \<open>The branch of \<open>persist_and_dispatch_command\<close> for a command that is already stored: the frame to send, if any.\<close>

definition retry_command :: "host_env \<Rightarrow> command_request \<Rightarrow> pinned_command \<Rightarrow> dispatch_error + command_envelope option" where
  "retry_command env rq p =
     (if pc_session_id p \<noteq> cr_session_id rq then Inl DispatchInvalidCommand
      else if pc_compacted p
      then
        and_then
          (if pc_payload p = []
           then and_then (map_err (\<lambda>_. DispatchInvalidCommand) (command_payload env [] (pc_command_id p) (pc_session_id p) (cr_command rq) (pc_server_command_seq p)))
                  (\<lambda>candidate. Inr (command_identity_digest (cl_digests (ho_cl env)) candidate = pc_command_identity_digest p))
           else and_then (persisted_envelope env (pc_payload p)) (\<lambda>e. Inr (same_retry_command (cr_command rq) (ce_command e))))
          (\<lambda>matches. if matches then Inr None else Inl DispatchInvalidCommand)
      else
        and_then (persisted_envelope env (pc_payload p)) (\<lambda>e.
        if \<not> same_retry_command (cr_command rq) (ce_command e) then Inl DispatchInvalidCommand else Inr (Some e)))"

text \<open>A live connection of the daemon: whether it is ready, and whether the channel of its outgoing frames is open.\<close>

record live_connection =
  lc_ready :: bool
  lc_open :: bool

record dispatch_env =
  di_host :: host_env
  di_now :: nat
  di_sent_at :: string
  di_registry :: registry
  di_live :: "string \<Rightarrow> live_connection option"
  di_repositories :: "persistence_error + repository_context list"

text \<open>The daemon the frame goes to.\<close>

definition dispatch_persisted_command :: "dispatch_env \<Rightarrow> pinned_command \<Rightarrow> command_envelope \<Rightarrow> dispatch_error + string" where
  "dispatch_persisted_command di p e =
     (if \<not> envelope_matches p e then Inl DispatchInvalidCommand
      else
        (case daemon_by_id (ho_registry (di_host di)) (di_now di) (pc_daemon_id p) (di_registry di) of
           Inl _ \<Rightarrow> Inl DispatchInternal
         | Inr None \<Rightarrow> Inl DispatchSessionNotFound
         | Inr (Some daemon) \<Rightarrow>
             if dr_revoked_at daemon \<noteq> None \<or> \<not> dr_connected daemon then Inl DispatchDaemonUnavailable
             else (case di_live di (pc_daemon_id p) of
                     None \<Rightarrow> Inl DispatchDaemonUnavailable
                   | Some c \<Rightarrow> if lc_ready c \<and> lc_open c then Inr (pc_daemon_id p) else Inl DispatchDaemonUnavailable)))"

text \<open>\<open>dispatch_pinned_command\<close>: the frame that is sent, if any, and where to.\<close>

definition dispatch_pinned_command :: "dispatch_env \<Rightarrow> pinned_command \<Rightarrow> dispatch_error + (string \<times> command_envelope) option" where
  "dispatch_pinned_command di p =
     (if pc_compacted p then Inr None
      else
        and_then (persisted_envelope (di_host di) (pc_payload p)) (\<lambda>e.
        and_then (dispatch_persisted_command di p e) (\<lambda>did. Inr (Some (did, e)))))"

definition dispatch_error_of :: "persistence_error \<Rightarrow> dispatch_error" where
  "dispatch_error_of e =
     (case e of NoEligibleDaemon \<Rightarrow> DispatchDaemonUnavailable | InvalidCommandPayload \<Rightarrow> DispatchInvalidCommand | _ \<Rightarrow> DispatchInternal)"

text \<open>The rest of \<open>persist_and_dispatch_command\<close>, after the command is stored or found.\<close>

definition send_stored :: "dispatch_env \<Rightarrow> pinned_command \<Rightarrow> command_envelope option \<Rightarrow> (dispatch_error + pinned_command) \<times> (string \<times> command_envelope) list" where
  "send_stored di p frame =
     (case frame of
        None \<Rightarrow> (Inr p, [])
      | Some e \<Rightarrow> (case dispatch_persisted_command di p e of Inl err \<Rightarrow> (Inl err, []) | Inr did \<Rightarrow> (Inr p, [(did, e)])))"

definition start_command :: "dispatch_env \<Rightarrow> string list \<Rightarrow> command_request \<Rightarrow> command \<Rightarrow> server_db \<Rightarrow> (persistence_error + pinned_command) \<times> server_db" where
  "start_command di required rq c =
     start_session_with_command_for_requirement_and_repositories (ho_cl (di_host di))
       (\<lambda>_ seq. map_err (\<lambda>_. InvalidCommandPayload) (command_payload (di_host di) (di_sent_at di) (cr_command_id rq) (cr_session_id rq) c seq))
       (di_now di) (cr_session_id rq) (cr_command_id rq) required
       (case c of SessionStart start \<Rightarrow> Some (rc_id (ss_requirement start)) | _ \<Rightarrow> None)
       (case c of SessionStart start \<Rightarrow> Some (map rx_repository_id (ss_repositories start)) | _ \<Rightarrow> None)"

definition persist_and_dispatch_command ::
  "dispatch_env \<Rightarrow> string list \<Rightarrow> command_request \<Rightarrow> server_db
   \<Rightarrow> (dispatch_error + pinned_command) \<times> (string \<times> command_envelope) list \<times> server_db" where
  "persist_and_dispatch_command di required rq db =
     (case command_by_id (cl_digests (ho_cl (di_host di))) (cr_command_id rq) db of
        Inl _ \<Rightarrow> (Inl DispatchInternal, [], db)
      | Inr (Some p) \<Rightarrow>
          (case retry_command (di_host di) rq p of
             Inl e \<Rightarrow> (Inl e, [], db)
           | Inr frame \<Rightarrow> (case send_stored di p frame of (r, sent) \<Rightarrow> (r, sent, db)))
      | Inr None \<Rightarrow>
          (case assemble_session_command (di_repositories di) (cr_command rq) of
             Inl e \<Rightarrow> (Inl e, [], db)
           | Inr c \<Rightarrow>
               (case start_command di required rq c db of
                  (Inl e, db) \<Rightarrow> (Inl (dispatch_error_of e), [], db)
                | (Inr p, db) \<Rightarrow>
                    if pc_compacted p then (Inr p, [], db)
                    else (case persisted_envelope (di_host di) (pc_payload p) of
                            Inl err \<Rightarrow> (Inl err, [], db)
                          | Inr e \<Rightarrow>
                              if \<not> envelope_matches p e then (Inl DispatchInvalidCommand, [], db)
                              else (case send_stored di p (Some e) of (r, sent) \<Rightarrow> (r, sent, db))))))"

section \<open>The acknowledgement of an event\<close>

definition ack_echoes :: "event_envelope \<Rightarrow> event_ack \<Rightarrow> bool" where
  "ack_echoes e ack \<longleftrightarrow> ea_event_id ack = ee_event_id e \<and> ea_session_id ack = ee_session_id e
     \<and> ea_daemon_event_seq ack = ee_daemon_event_seq e \<and> ea_schema_version ack = SCHEMA_VERSION"

definition receipt_for :: "string \<Rightarrow> string \<Rightarrow> u64 \<Rightarrow> event_receipt \<Rightarrow> bool" where
  "receipt_for event_id sid seq r \<longleftrightarrow> rc_event_id r = event_id \<and> rc_session_id r = sid \<and> rc_daemon_event_seq r = seq"

lemma ack_from_receipt: "receipt_for (ee_event_id e) (ee_session_id e) (ee_daemon_event_seq e) r \<Longrightarrow> ack_echoes e (event_ack_from_receipt r)"
  by (simp add: ack_echoes_def event_ack_from_receipt_def receipt_for_def split: event_receipt_outcome.split)

lemma recorded_receipt_for:
  assumes "record_event_receipt_with_payload dg rq db = Inr (r, db')"
  shows "receipt_for (rq_event_id rq) (rq_session_id rq) (rq_daemon_event_seq rq) r"
proof -
  obtain row where row: "find (\<lambda>r. ev_event_id r = rq_event_id rq) (db_events db') = Some row" "ev_session_id row = rq_session_id rq"
    "event_receipt_from_row row True = Inr (r\<lparr>rc_duplicate := True\<rparr>)" and seq: "i64_from_u64 (rq_daemon_event_seq rq) = Inr (ev_daemon_event_seq row)"
    using receipt_retained[OF assms] by blast
  have "ev_event_id row = rq_event_id rq" using row(1) by (auto simp: find_Some_iff)
  moreover have "ev_daemon_event_seq row = uint (rq_daemon_event_seq rq)" using seq by (auto simp: i64_from_u64_def split: if_splits)
  moreover have "rc_event_id r = ev_event_id row \<and> rc_session_id r = ev_session_id row
      \<and> u64_from_i64 (ev_daemon_event_seq row) = Inr (rc_daemon_event_seq r)"
    using row(3) by (cases r) (auto simp: event_receipt_from_row_def and_then_Inr_iff)
  ultimately show ?thesis using row(2) by (simp add: receipt_for_def)
qed

lemma row_receipt_for:
  assumes "receipt_of_row d row = Inr r" "ev_event_id row = event_id" "ev_session_id row = sid" "ev_daemon_event_seq row = uint seq"
  shows "receipt_for event_id sid seq r"
  using assms by (auto simp: receipt_of_row_def and_then_Inr_iff u64_try_def receipt_for_def)

lemma projected_tx:
  assumes "project_event_tx env jitter now event_id sid seq digest payload ev db = Inr (v, db')"
  shows "case v of Inl row \<Rightarrow> ev_event_id row = event_id \<and> ev_session_id row = sid \<and> ev_daemon_event_seq row = uint seq
    | Inr r \<Rightarrow> receipt_for event_id sid seq r"
proof -
  have ok: "event_input_ok env event_id sid seq digest payload ev = Inr ()"
    using assms by (cases "event_input_ok env event_id sid seq digest payload ev") (simp_all add: project_event_tx_def)
  obtain n where n: "i64_try CeIntegrity seq = Inr n" "event_input_ok env event_id sid seq digest payload ev = Inr ()"
    using assms ok by (cases "i64_try CeIntegrity seq") (simp_all add: project_event_tx_def)
  have s0: "i64_try CeIntegrity seq = Inr (uint seq)" "event_input_ok env event_id sid seq digest payload ev = Inr ()"
    using n by (auto simp: i64_try_def split: if_splits)
  obtain s where s1: "map_of (sv_sessions db) sid = Some s"
    using assms s0 by (cases "map_of (sv_sessions db) sid") (simp_all add: project_event_tx_def)
  have s2: "es_start_message_id s \<noteq> None" using assms s0 s1 by (cases "es_start_message_id s") (simp_all add: project_event_tx_def)
  note s = s0 s1 s2
  show ?thesis
  proof (cases "find (\<lambda>r. ev_event_id r = event_id) (sv_events db)")
    case (Some row)
    then have "ev_event_id row = event_id" by (auto simp: find_Some_iff)
    then show ?thesis using assms s Some by (auto simp: project_event_tx_def split: if_splits)
  next
    case None
    then show ?thesis using assms s
      by (auto simp: project_event_tx_def and_then_Inr_iff receipt_for_def Let_def split: if_splits option.splits)
  qed
qed

lemma projected_receipt_for:
  assumes "project_clarification_event env jitter now event_id sid seq digest payload ev db = (Inr r, db')"
  shows "receipt_for event_id sid seq r"
proof -
  obtain v where v: "project_event_tx env jitter now event_id sid seq digest payload ev db = Inr (v, db')"
    "case_sum (receipt_of_row True) Inr v = Inr r"
    using assms by (auto simp: project_clarification_event_def run_tx_def split: sum.splits)
  show ?thesis using projected_tx[OF v(1)] v(2) row_receipt_for by (cases v) auto
qed

lemma record_identity:
  assumes "assessment_into_record row = Inr x"
  shows "ar_event_id x = asr_event_id row" "ar_session_id x = asr_session_id row" "u64_try RdInvalidEvidence (asr_daemon_event_seq row) = Inr (ar_daemon_event_seq x)"
  using assms by (auto simp: assessment_into_record_def and_then_Inr_iff)

lemma inserted_identity:
  assumes "insert_assessment rnd now i db = Inr (row, db')"
  shows "asr_event_id row = ae_event_id (ai_event i) \<and> asr_session_id row = ae_session_id (ai_event i)
    \<and> asr_daemon_event_seq row = uint (ae_daemon_event_seq (ai_event i))"
  using assms by (auto simp: insert_assessment_def and_then_Inr_iff Let_def i64_try_def split: if_splits)

lemma settled_identity:
  assumes "settle_assessment env rnd now ev seq rid a digest session db = Inr (row, db')"
  shows "asr_event_id row = ae_event_id ev \<and> asr_session_id row = ae_session_id ev \<and> asr_daemon_event_seq row = uint (ae_daemon_event_seq ev)"
proof -
  have "\<exists>i db1. ai_event i = ev \<and> insert_assessment rnd now i db = Inr (row, db1)"
  proof (cases "lock_requirement rid db")
    case (Inl e)
    then show ?thesis using assms
      by (cases e) (simp_all add: settle_assessment_def and_then_Inr_iff split_beta, metis assessment_insert.select_convs(1) prod.collapse)
  next
    case (Inr locked)
    then obtain r where r: "map_err readiness_error_of (to_domain locked) = Inr r"
      using assms by (auto simp: settle_assessment_def and_then_Inr_iff)
    obtain out reason r' where "judge_assessment session a r db = (out, reason, r')" by (metis prod_cases3)
    then show ?thesis using assms Inr r
      by (simp add: settle_assessment_def and_then_Inr_iff split_beta) (metis assessment_insert.select_convs(1) prod.collapse)
  qed
  then show ?thesis using inserted_identity by blast
qed

lemma assessed_tx:
  assumes "record_assessment_tx env rnd now ev rid a digest db = Inr (v, db')" "assessment_result v = Inr x"
  shows "ar_event_id (rar_record x) = ae_event_id ev \<and> ar_session_id (rar_record x) = ae_session_id ev
    \<and> ar_daemon_event_seq (rar_record x) = ae_daemon_event_seq ev"
proof -
  have ok: "assessment_input_ok ev digest a" using assms(1) by (cases "assessment_input_ok ev digest a") (simp_all add: record_assessment_tx_def)
  obtain n where "i64_try RdInvalidEvidence (ae_daemon_event_seq ev) = Inr n"
    using assms(1) ok by (cases "i64_try RdInvalidEvidence (ae_daemon_event_seq ev)") (simp_all add: record_assessment_tx_def)
  then have s0: "assessment_input_ok ev digest a" "i64_try RdInvalidEvidence (ae_daemon_event_seq ev) = Inr (uint (ae_daemon_event_seq ev))"
    using ok by (auto simp: i64_try_def split: if_splits)
  obtain session where s1: "map_of (sv_sessions db) (ae_session_id ev) = Some session"
    using assms(1) s0 by (cases "map_of (sv_sessions db) (ae_session_id ev)") (simp_all add: record_assessment_tx_def)
  note s = s0 s1
  show ?thesis
  proof (cases "assessment_by_event (ae_event_id ev) db")
    case (Some row)
    then have "asr_event_id row = ae_event_id ev" by (auto simp: assessment_by_event_def find_Some_iff)
    then show ?thesis using assms s Some record_identity(1)[of row]
      by (auto simp: record_assessment_tx_def and_then_Inr_iff assessment_result_def split: if_splits)
  next
    case None
    then have "map_sum id (\<lambda>(row, db). (Inr row, db))
        (settle_assessment env rnd now ev (uint (ae_daemon_event_seq ev)) rid a digest session db) = Inr (v, db')"
      using assms(1) s by (auto simp: record_assessment_tx_def and_then_Inr_iff split: if_splits)
    then obtain row where v: "v = Inr row" and row: "settle_assessment env rnd now ev (uint (ae_daemon_event_seq ev)) rid a digest session db = Inr (row, db')"
      by (cases "settle_assessment env rnd now ev (uint (ae_daemon_event_seq ev)) rid a digest session db") auto
    have "assessment_into_record row = Inr (rar_record x)" using assms(2) v by (auto simp: assessment_result_def and_then_Inr_iff)
    from record_identity[OF this] settled_identity[OF row] show ?thesis by (simp add: u64_try_def)
  qed
qed

lemma assessed_identity:
  assumes "record_readiness_assessment_with_event_digest env rnd now ev rid a digest db = (Inr x, db')"
  shows "ar_event_id (rar_record x) = ae_event_id ev \<and> ar_session_id (rar_record x) = ae_session_id ev
    \<and> ar_daemon_event_seq (rar_record x) = ae_daemon_event_seq ev"
proof -
  obtain v where "record_assessment_tx env rnd now ev rid a digest db = Inr (v, db')" "assessment_result v = Inr x"
    using assms by (auto simp: record_readiness_assessment_with_event_digest_def run_tx_def split: sum.splits)
  then show ?thesis by (rule assessed_tx)
qed

lemma assessment_ack_identity:
  "ea_event_id (assessment_ack i s n r) = i" "ea_session_id (assessment_ack i s n r) = s"
  "ea_daemon_event_seq (assessment_ack i s n r) = n" "ea_schema_version (assessment_ack i s n r) = SCHEMA_VERSION"
  by (simp_all add: assessment_ack_def split: assessment_outcome.split)

text \<open>C33. Whatever happens to an event, recorded, refused or repeated, the answer is for that event: an acknowledgement names the event, the
  session and the number of the frame it answers, so the daemon never settles another event with it.\<close>

theorem ack_names_its_event:
  assumes "fst (handle_event env rnd jitter now now_ms e db) = Inr ack"
  shows "ack_echoes e ack"
proof -
  have rejected: "ack_echoes e ack" if "fst (reject_event env e digest payload db1) = Inr ack" for digest payload db1
    using that recorded_receipt_for
    by (fastforce simp: reject_event_def on_delivery_def split: sum.splits prod.splits intro!: ack_from_receipt)
  show ?thesis
  proof (cases "\<exists>payload. ee_event e = RequirementAssessed payload")
    case True
    then obtain payload where p: "ee_event e = RequirementAssessed payload" by blast
    have "fst (handle_requirement_assessed env rnd now now_ms e db) = Inr ack"
      using assms p by (auto simp: handle_event_def clarification_event_of_def split: sum.splits prod.splits)
    then obtain v where "fst (process_requirement_assessed env rnd now now_ms
        \<lparr>ae_event_id = ee_event_id e, ae_session_id = ee_session_id e, ae_daemon_event_seq = ee_daemon_event_seq e\<rparr> payload
        (Some (canonical_payload_digest (cl_digests (ho_cl env)) v)) db) = Inr ack"
      using p by (auto simp: handle_requirement_assessed_def split: sum.splits)
    then show ?thesis
      by (auto simp: process_requirement_assessed_def ack_echoes_def assessment_ack_identity split: sum.splits prod.splits dest!: assessed_identity)
  next
    case False
    then obtain ce where ce: "clarification_event_of (ee_event e) = Some ce" by (cases "ee_event e") (auto simp: clarification_event_of_def)
    have run: "fst (case (ho_event_value env e, ho_event_string env e) of
             (Inl reason, _) \<Rightarrow> (Inl (EhIntegrity reason), [], db)
           | (_, Inl reason) \<Rightarrow> (Inl (EhIntegrity reason), [], db)
           | (Inr v, Inr payload) \<Rightarrow> handle_run_event env jitter now e v payload ce db) = Inr ack"
      using assms False ce by (cases "ee_event e") (simp_all add: handle_event_def)
    then obtain v payload where "fst (handle_run_event env jitter now e v payload ce db) = Inr ack"
      by (auto split: sum.splits)
    then show ?thesis using rejected ack_from_receipt projected_receipt_for
      by (auto simp: handle_run_event_def Let_def split: prod.splits sum.splits clarification_event_error.splits)
  qed
qed

section \<open>The dispatch of a command\<close>

lemma dispatched_owner:
  assumes "dispatch_persisted_command di p e = Inr d"
  shows "d = pc_daemon_id p \<and> envelope_matches p e \<and> (\<exists>x. daemon_by_id (ho_registry (di_host di)) (di_now di) d (di_registry di) = Inr (Some x)
    \<and> dr_revoked_at x = None \<and> dr_connected x)"
  using assms by (auto simp: dispatch_persisted_command_def split: if_splits sum.splits option.splits)

lemma send_stored_sent:
  assumes "send_stored di p frame = (r, sent)" "(d, e) \<in> set sent"
  shows "r = Inr p \<and> sent = [(d, e)] \<and> frame = Some e \<and> dispatch_persisted_command di p e = Inr d"
  using assms by (auto simp: send_stored_def split: option.splits sum.splits)

lemma pinned_identity:
  assumes "into_pinned_command dg x = Inr p"
  shows "pc_command_id p = ec_command_id x" "pc_session_id p = ec_session_id x" "pc_daemon_id p = ec_daemon_id x" "pc_compacted p = ec_compacted x"
  using assms by (auto simp: into_pinned_command_def Let_def and_then_Inr_iff split: if_splits)

lemma stored_pinned:
  assumes "command_by_id dg cid db = Inr (Some p)" "\<not> pc_compacted p" "commands_ok db"
  shows "pc_command_id p = cid \<and> session_owner (pc_session_id p) db = Some (pc_daemon_id p)"
proof -
  obtain x where x: "existing_command_by_id cid db = Some x" "into_pinned_command dg x = Inr p"
    using assms(1) by (cases "existing_command_by_id cid db") (auto simp: command_by_id_def map_sum_def split: sum.splits)
  note p = pinned_identity[OF x(2)]
  have "\<not> ec_compacted x" using assms(2) p by simp
  then obtain r where r: "r \<in> set (sv_outbox db)" "so_command_id r = cid" "x = existing_of_outbox r"
    using x(1) nth_mem by (fastforce simp: existing_command_by_id_def existing_of_tombstone_def find_Some_iff split: option.splits)
  then have "session_owner (so_session_id r) db = Some (so_daemon_id r)"
    using assms(3) by (auto simp: commands_ok_def commands_owned_def list_all_iff)
  then show ?thesis using p r by (simp add: existing_of_outbox_def)
qed

lemma retry_frame:
  assumes "retry_command env rq p = Inr (Some e)"
  shows "pc_session_id p = cr_session_id rq \<and> \<not> pc_compacted p"
  using assms by (auto simp: retry_command_def and_then_Inr_iff split: if_splits)

lemma started_pinned:
  assumes "start_command di required rq c db = (Inr p, db')" "command_by_id dg (cr_command_id rq) db = Inr None"
  shows "pc_command_id p = cr_command_id rq \<and> pc_session_id p = cr_session_id rq \<and> session_owner (cr_session_id rq) db' = Some (pc_daemon_id p)"
  using assms(1) unfolding start_command_def
proof (cases rule: start_session_cases)
  case (started q did db1)
  then have p: "q = p" by simp
  note a = append_command_Inr[OF started(4)[unfolded p]]
  then have "session_owner (cr_session_id rq) db' = session_owner (cr_session_id rq) db1" by blast
  moreover have "pc_command_id p = cr_command_id rq" "pc_session_id p = cr_session_id rq" "pc_daemon_id p = did" using a by blast+
  ultimately show ?thesis using started(3) by (simp add: bound_def)
next
  case (repeated q)
  then show ?thesis using assms(2) by (auto simp: command_by_id_def map_sum_def split: sum.splits)
qed simp

text \<open>C32. A command goes to the daemon of its session and to no other: when a frame is sent, it is the only one, it carries the identity,
  the session and the number of the stored command, the command is the requested one, and the daemon owns the session, is registered,
  is not revoked and is connected.\<close>

theorem dispatch_reaches_owner:
  assumes "commands_ok db" and run: "persist_and_dispatch_command di required rq db = (r, sent, db')" and sent: "(d, e) \<in> set sent"
  shows "\<exists>p x. r = Inr p \<and> sent = [(d, e)] \<and> envelope_matches p e \<and> pc_command_id p = cr_command_id rq \<and> pc_session_id p = cr_session_id rq
    \<and> session_owner (cr_session_id rq) db' = Some d
    \<and> daemon_by_id (ho_registry (di_host di)) (di_now di) d (di_registry di) = Inr (Some x) \<and> dr_revoked_at x = None \<and> dr_connected x"
proof -
  let ?dg = "cl_digests (ho_cl (di_host di))"
  have "\<exists>p. send_stored di p (Some e) = (r, sent) \<and> pc_command_id p = cr_command_id rq \<and> pc_session_id p = cr_session_id rq
      \<and> session_owner (cr_session_id rq) db' = Some (pc_daemon_id p)"
  proof (cases "command_by_id ?dg (cr_command_id rq) db")
    case (Inl err)
    then show ?thesis using run sent by (simp add: persist_and_dispatch_command_def)
  next
    case (Inr found)
    show ?thesis
    proof (cases found)
      case (Some p)
      then obtain frame where f: "retry_command (di_host di) rq p = Inr frame" "send_stored di p frame = (r, sent)" "db' = db"
        using run sent Inr by (auto simp: persist_and_dispatch_command_def split: sum.splits prod.splits)
      then have "frame = Some e" using send_stored_sent[OF f(2) sent] by simp
      then show ?thesis using f retry_frame[of "di_host di" rq p e] stored_pinned[of ?dg "cr_command_id rq" db p] Inr Some assms(1) by auto
    next
      case None
      then obtain c p e' where c: "start_command di required rq c db = (Inr p, db')" "send_stored di p (Some e') = (r, sent)"
        using run sent Inr by (auto simp: persist_and_dispatch_command_def split: sum.splits prod.splits if_splits)
      then have "e' = e" using send_stored_sent[OF c(2) sent] by simp
      then show ?thesis using c started_pinned[OF c(1)] Inr None by auto
    qed
  qed
  then obtain p where p: "send_stored di p (Some e) = (r, sent)" "pc_command_id p = cr_command_id rq" "pc_session_id p = cr_session_id rq"
    "session_owner (cr_session_id rq) db' = Some (pc_daemon_id p)" by blast
  note s = send_stored_sent[OF p(1) sent]
  then show ?thesis using dispatched_owner[of di p e d] p by auto
qed

lemma blank_Nil: "blank []"
  by code_simp

text \<open>The stored command that a compacted row is read as.\<close>

definition compacted_command :: "outbox_row \<Rightarrow> pinned_command" where
  "compacted_command r = \<lparr>pc_command_id = so_command_id r, pc_session_id = so_session_id r, pc_daemon_id = so_daemon_id r,
     pc_server_command_seq = word_of_int (so_server_command_seq r), pc_payload = or_empty (tr_payload (to_tombstone_row r)),
     pc_payload_digest = so_payload_digest r, pc_command_identity_digest = so_command_identity_digest r, pc_compacted = True\<rparr>"

lemma compacted_read:
  assumes "0 \<le> so_server_command_seq r"
  shows "into_pinned_command dg (existing_of_tombstone (to_tombstone_row r)) = Inr (compacted_command r)"
  using assms by (simp add: into_pinned_command_def existing_of_tombstone_def to_tombstone_row_def compacted_command_def u64_from_i64_def Let_def)

lemma bare_payload_refused: "command_payload env [] cid sid c seq \<noteq> Inr json"
  by (auto simp: command_payload_def server_to_json_def and_then_Inr_iff server_frame_validate_def command_envelope_validate_iff blank_Nil)

lemma persisted_envelope_error: "persisted_envelope env payload = Inl err \<Longrightarrow> err = DispatchInvalidCommand"
  by (auto simp: persisted_envelope_def split: sum.splits server_frame.splits)

text \<open>C34. What a repetition of a compacted command gets. A command whose identity digest differs from its payload digest, as every command that
  this server stores, loses its payload in the compaction; the retry then rebuilds the frame with an empty \<open>sent_at\<close> to compare identities, the frame does
  not validate, and every retry is refused, the identical one included. A row whose two digests are equal (rows from before the identity digest) keeps its payload: its
  retry is accepted, with nothing sent, exactly when it names the session of the row and the kept frame reads back as the same command (a session start up
  to its repositories). The state does not change in any case.\<close>

theorem compacted_retry_refused:
  assumes "existing_command_by_id (cr_command_id rq) db = Some (existing_of_tombstone (to_tombstone_row r))"
    and "0 \<le> so_server_command_seq r"
  shows "persist_and_dispatch_command di required rq db
    = (if so_command_identity_digest r = so_payload_digest r \<and> so_payload r \<noteq> [] \<and> so_session_id r = cr_session_id rq
          \<and> (\<exists>e. persisted_envelope (di_host di) (so_payload r) = Inr e \<and> same_retry_command (cr_command rq) (ce_command e))
       then (Inr (compacted_command r), [], db) else (Inl DispatchInvalidCommand, [], db))"
proof -
  let ?p = "compacted_command r"
  have p: "pc_compacted ?p" "pc_session_id ?p = so_session_id r"
    "pc_payload ?p = (if so_command_identity_digest r = so_payload_digest r then so_payload r else [])"
    by (simp_all add: compacted_command_def to_tombstone_row_def or_empty_def)
  obtain err where bare: "command_payload (di_host di) [] (pc_command_id ?p) (pc_session_id ?p) (cr_command rq) (pc_server_command_seq ?p) = Inl err"
    by (metis bare_payload_refused sum.exhaust)
  have "retry_command (di_host di) rq ?p
    = (if so_command_identity_digest r = so_payload_digest r \<and> so_payload r \<noteq> [] \<and> so_session_id r = cr_session_id rq
          \<and> (\<exists>e. persisted_envelope (di_host di) (so_payload r) = Inr e \<and> same_retry_command (cr_command rq) (ce_command e))
       then Inr None else Inl DispatchInvalidCommand)"
    using bare p persisted_envelope_error
    by (cases "persisted_envelope (di_host di) (so_payload r)") (auto simp: retry_command_def)
  then show ?thesis using assms
    by (simp add: persist_and_dispatch_command_def command_by_id_def compacted_read send_stored_def)
qed

section \<open>A server\<close>

text \<open>The session of \<open>demo_start\<close> on a server with the daemon of \<open>demo_db\<close>.\<close>

definition demo_envelope :: command_envelope where
  "demo_envelope = \<lparr>ce_command_id = ''c1'', ce_session_id = ''s1'', ce_server_command_seq = 1, ce_sent_at = ''now'',
     ce_schema_version = SCHEMA_VERSION, ce_command = SessionResume\<rparr>"

definition demo_host :: host_env where
  "demo_host = \<lparr>ho_registry = \<lparr>re_auth = \<lparr>ax_hmac = (\<lambda>_ m. m), ax_sha256 = id, ax_key = []\<rparr>, re_cidr = Some, re_to_string = Some \<circ> concat,
       re_from_str = (\<lambda>s. Some [s])\<rparr>,
     ho_cl = demo_cl\<lparr>cl_digests := demo_digests\<lparr>dg_from_str := Some \<circ> JString\<rparr>\<rparr>,
     ho_event_value = (\<lambda>e. Inr (JString (ee_event_id e))), ho_event_string = (\<lambda>e. Inr (ee_event_id e)), ho_show = (\<lambda>_. ''invalid''),
     ho_to_string = (\<lambda>_. Inr ''c1''), ho_from_str = (\<lambda>_. Inr (SF_Command demo_envelope))\<rparr>"

definition demo_dispatch :: dispatch_env where
  "demo_dispatch = \<lparr>di_host = demo_host, di_now = 1000, di_sent_at = ''now'',
     di_registry = \<lparr>rg_setups = [], rg_daemons = [\<lparr>rr_daemon_id = ''d1'', rr_credential_hash = ''h'', rr_label = ''box'', rr_created_by = ''u1'',
        rr_created_at = 0, rr_revoked_at = None, rr_last_seen_at = Some 0, rr_connected_at = Some 0, rr_connection_id = Some ''k'',
        rr_protocol_version = ''0.1'', rr_capabilities = ''agent''\<rparr>]\<rparr>,
     di_live = (\<lambda>d. if d = ''d1'' then Some \<lparr>lc_ready = True, lc_open = True\<rparr> else None), di_repositories = Inr []\<rparr>"

definition demo_request :: command_request where
  "demo_request = \<lparr>cr_command_id = ''c1'', cr_session_id = ''s1'', cr_command = SessionResume\<rparr>"

definition demo_dispatched :: "(dispatch_error + pinned_command) \<times> (string \<times> command_envelope) list \<times> server_db" where
  "demo_dispatched = persist_and_dispatch_command demo_dispatch [''agent''] demo_request demo_db"

definition demo_event :: event_envelope where
  "demo_event = \<lparr>ee_event_id = ''e1'', ee_session_id = ''s1'', ee_daemon_event_seq = 1, ee_sent_at = ''now'', ee_schema_version = SCHEMA_VERSION,
     ee_event = SessionStarted ''r1''\<rparr>"

definition demo_row :: outbox_row where
  "demo_row = \<lparr>so_command_id = ''c1'', so_session_id = ''s1'', so_daemon_id = ''d1'', so_server_command_seq = 1, so_payload = ''p'',
     so_payload_digest = ''digest'', so_command_identity_digest = ''identity'', so_acknowledged = True\<rparr>"

lemma demo_event_runs:
  "fst (handle_event demo_host (\<lambda>_. 0) 0 2000 2 demo_event (snd demo_start))
   = Inr \<lparr>ea_event_id = ''e1'', ea_session_id = ''s1'', ea_daemon_event_seq = 1, ea_schema_version = SCHEMA_VERSION,
          ea_status = AckRejected, ea_reason = Some ''event_handler_not_implemented''\<rparr>"
  by code_simp

theorem ack_names_its_event_witness:
  "\<exists>ack. fst (handle_event demo_host (\<lambda>_. 0) 0 2000 2 demo_event (snd demo_start)) = Inr ack \<and> ack_echoes demo_event ack"
  using ack_names_its_event[OF demo_event_runs] demo_event_runs by blast

lemma demo_dispatched_runs: "fst (snd demo_dispatched) = [(''d1'', demo_envelope)]"
  by code_simp

theorem dispatch_reaches_owner_witness:
  "fst (snd demo_dispatched) = [(''d1'', demo_envelope)] \<and> session_owner ''s1'' (snd (snd demo_dispatched)) = Some ''d1''"
proof -
  have "persist_and_dispatch_command demo_dispatch [''agent''] demo_request demo_db
      = (fst demo_dispatched, [(''d1'', demo_envelope)], snd (snd demo_dispatched))"
    using demo_dispatched_runs by (metis demo_dispatched_def prod.collapse)
  moreover have "commands_ok demo_db" by (simp add: commands_ok_def commands_owned_def command_keys_def demo_db_def)
  ultimately show ?thesis
    using dispatch_reaches_owner[of demo_db demo_dispatch "[''agent'']" demo_request _ _ _ "''d1''" demo_envelope] demo_dispatched_runs
    by (fastforce simp: demo_request_def)
qed

definition demo_legacy_row :: outbox_row where
  "demo_legacy_row = demo_row\<lparr>so_command_identity_digest := ''digest''\<rparr>"

lemma demo_legacy_retry:
  "persisted_envelope (di_host demo_dispatch) (so_payload demo_legacy_row) = Inr demo_envelope"
  by code_simp

theorem compacted_retry_refused_witness:
  "persist_and_dispatch_command demo_dispatch [''agent''] demo_request (demo_db\<lparr>sv_tombstones := [to_tombstone_row demo_row]\<rparr>)
     = (Inl DispatchInvalidCommand, [], demo_db\<lparr>sv_tombstones := [to_tombstone_row demo_row]\<rparr>)
   \<and> persist_and_dispatch_command demo_dispatch [''agent''] demo_request (demo_db\<lparr>sv_tombstones := [to_tombstone_row demo_legacy_row]\<rparr>)
     = (Inr (compacted_command demo_legacy_row), [], demo_db\<lparr>sv_tombstones := [to_tombstone_row demo_legacy_row]\<rparr>)"
proof -
  have "existing_command_by_id (cr_command_id demo_request) (demo_db\<lparr>sv_tombstones := [to_tombstone_row demo_row]\<rparr>)
      = Some (existing_of_tombstone (to_tombstone_row demo_row))"
    "existing_command_by_id (cr_command_id demo_request) (demo_db\<lparr>sv_tombstones := [to_tombstone_row demo_legacy_row]\<rparr>)
      = Some (existing_of_tombstone (to_tombstone_row demo_legacy_row))"
    by (simp_all add: existing_command_by_id_def demo_request_def demo_row_def demo_legacy_row_def demo_db_def to_tombstone_row_def)
  from this[THEN compacted_retry_refused[of demo_request _ _ demo_dispatch "[''agent'']"]] show ?thesis
    by (simp add: demo_legacy_retry)
      (simp add: demo_request_def demo_row_def demo_legacy_row_def demo_envelope_def same_retry_command_def)
qed

end
