(* ===== verification/Review_History.thy ===== *)
theory Review_History
  imports Clarification_Store
begin

text \<open>
  Histories of the requirement, readiness and clarification transactions. \<open>store_step\<close> is the contract of a transaction:
  it leaves the requirements, the audit and the accepted evidence alone, creates a requirement, or moves
  one requirement by one domain operation and writes the audit row and the evidence that belong to it.
  The locale \<open>store_operation\<close> states the contract and is interpreted for each transaction; the
  invariant of the tables follows from the contract.
\<close>

section \<open>Rows and domain values\<close>

definition stores :: "requirement \<Rightarrow> requirement_row \<Rightarrow> bool" where
  "stores r row \<longleftrightarrow>
     rw_id row = req_id r \<and> rw_title row = req_title r \<and> rw_description row = req_description r
     \<and> rw_summary row = req_summary r \<and> rw_acceptance_criteria row = req_acceptance_criteria r
     \<and> rw_assumptions row = req_assumptions r \<and> rw_open_questions row = req_open_questions r
     \<and> rw_status row = persisted_status (req_status r) \<and> rw_revision row = uint (req_revision r)
     \<and> rw_state_version row = uint (req_state_version r) \<and> rw_created_by row = req_created_by r
     \<and> req_revision r \<noteq> 0 \<and> req_state_version r \<noteq> 0
     \<and> uint (req_revision r) \<le> i64_max \<and> uint (req_state_version r) \<le> i64_max"

definition record_of :: "requirement \<Rightarrow> requirement_row \<Rightarrow> requirement_record" where
  "record_of r row =
     \<lparr>rcd_id = req_id r, rcd_title = req_title r, rcd_description = req_description r, rcd_summary = req_summary r,
      rcd_acceptance_criteria = req_acceptance_criteria r, rcd_assumptions = req_assumptions r,
      rcd_open_questions = req_open_questions r, rcd_status = req_status r, rcd_revision = req_revision r,
      rcd_state_version = req_state_version r, rcd_created_by = req_created_by r,
      rcd_created_at = rw_created_at row, rcd_updated_at = rw_updated_at row\<rparr>"

lemma persisted_status_inject [simp]: "persisted_status s = persisted_status t \<longleftrightarrow> s = t"
  by (cases s; cases t) (simp_all add: persisted_status_def)

lemma row_status_stored: "rw_status row = persisted_status s \<Longrightarrow> row_status row = Inr s"
  by (cases s) (simp_all add: row_status_def persisted_status_def)

lemma u64_try_uint [simp]: "u64_try e (uint (n :: u64)) = Inr n"
  by (simp add: u64_try_def)

lemma i64_try_Inr_iff [simp]: "i64_try e n = Inr i \<longleftrightarrow> uint n \<le> i64_max \<and> i = uint n"
  by (auto simp: i64_try_def)

lemma to_domain_stored: "stores r row \<Longrightarrow> to_domain row = Inr r"
  by (simp add: to_domain_def stores_def row_status_stored from_persisted_def)

lemma into_record_stored: "stores r row \<Longrightarrow> into_record row = Inr (record_of r row)"
  by (simp add: into_record_def to_domain_stored) (simp add: stores_def row_status_stored record_of_def)

lemma stores_updated:
  assumes "stores r row" "req_id r' = req_id r" "req_created_by r' = req_created_by r"
    "req_revision r' \<noteq> 0" "req_state_version r' \<noteq> 0"
    "uint (req_revision r') \<le> i64_max" "uint (req_state_version r') \<le> i64_max"
  shows "stores r' (updated_row r' (uint (req_revision r')) (uint (req_state_version r')) now row)"
  using assms by (simp add: stores_def updated_row_def)

lemma stores_inject: "stores r row \<Longrightarrow> stores r' row \<Longrightarrow> r = r'"
  by (metis to_domain_stored sum.inject(2))

section \<open>The contract of a transaction\<close>

definition accepted_rows :: "server_db \<Rightarrow> assessment_row list" where
  "accepted_rows db = filter (\<lambda>e. asr_outcome e = ''accepted'') (sv_assessments db)"

definition rows_ok :: "server_db \<Rightarrow> bool" where
  "rows_ok db \<longleftrightarrow> (\<forall>row\<in>set (sv_requirements db). \<exists>r. stores r row)"

definition audit_of :: "audit_row \<Rightarrow> requirement \<Rightarrow> requirement \<Rightarrow> bool" where
  "audit_of a r r' \<longleftrightarrow>
     au_requirement_id a = req_id r \<and> au_from_status a = persisted_status (req_status r)
     \<and> au_to_status a = persisted_status (req_status r') \<and> au_state_version a = uint (req_state_version r')"

text \<open>\<open>e\<close> is the row of the assessment \<open>a\<close>, accepted at the state version \<open>v\<close>.\<close>

definition evidence_row :: "assessment_row \<Rightarrow> string \<Rightarrow> readiness_assessment \<Rightarrow> u64 \<Rightarrow> bool" where
  "evidence_row e rid a v \<longleftrightarrow>
     asr_requirement_id e = Some rid \<and> asr_requirement_revision e = uint (ra_requirement_revision a)
     \<and> asr_accepted_state_version e = Some (uint v) \<and> \<not> asr_generation_unknown e \<and> asr_outcome e = ''accepted''
     \<and> \<not> blank (asr_id e)
     \<and> (\<exists>rec. assessment_into_record e = Inr rec \<and> ar_id rec = asr_id e \<and> ar_assessment rec = a
              \<and> ar_accepted_state_version rec = Some v)"

definition replaced :: "requirement_row \<Rightarrow> requirement_row list \<Rightarrow> requirement_row list" where
  "replaced row' rows = update_first (\<lambda>x. rw_id x = rw_id row') (\<lambda>_. row') rows"

inductive store_step :: "server_db \<Rightarrow> server_db \<Rightarrow> bool" where
  step_quiet: "\<lbrakk>sv_requirements db' = sv_requirements db; sv_audit db' = sv_audit db; accepted_rows db' = accepted_rows db\<rbrakk>
    \<Longrightarrow> store_step db db'"
| step_created: "\<lbrakk>find_requirement (rw_id row) db = None; stores (new_requirement i t d c) row;
     sv_requirements db' = sv_requirements db @ [row]; sv_audit db' = sv_audit db; accepted_rows db' = accepted_rows db\<rbrakk>
    \<Longrightarrow> store_step db db'"
| step_moved: "\<lbrakk>find_requirement (req_id r) db = Some row; stores r row; \<forall>a. op \<noteq> OpMarkReady a; r' = run_op op r; r' \<noteq> r;
     stores r' row'; sv_requirements db' = replaced row' (sv_requirements db);
     sv_audit db' = sv_audit db @ audits;
     if req_status r' = req_status r then audits = [] else \<exists>a. audits = [a] \<and> audit_of a r r';
     accepted_rows db' = accepted_rows db\<rbrakk>
    \<Longrightarrow> store_step db db'"
| step_readied: "\<lbrakk>find_requirement (req_id r) db = Some row; stores r row; mark_ready a r = (Inr (), r');
     stores r' row'; sv_requirements db' = replaced row' (sv_requirements db);
     sv_audit db' = sv_audit db @ [x]; audit_of x r r'; au_assessment_id x = Some (asr_id e);
     accepted_rows db' = accepted_rows db @ [e]; evidence_row e (req_id r) a (req_state_version r')\<rbrakk>
    \<Longrightarrow> store_step db db'"

lemma find_conj: "find p xs = Some x \<Longrightarrow> q x \<Longrightarrow> find (\<lambda>y. p y \<and> q y) xs = Some x"
  by (induction xs) (auto split: if_splits)

lemma update_first_conj: "find p xs = Some x \<Longrightarrow> q x \<Longrightarrow> update_first (\<lambda>y. p y \<and> q y) f xs = update_first p f xs"
  by (induction xs) (auto split: if_splits)

lemma find_requirement_id: "find_requirement rid db = Some row \<Longrightarrow> rw_id row = rid \<and> row \<in> set (sv_requirements db)"
  by (auto simp: find_requirement_def dest: find_Some_mem)

lemma version_step_nonzero: "version_step r r' \<Longrightarrow> req_revision r \<noteq> 0 \<Longrightarrow> req_revision r' \<noteq> 0 \<and> req_state_version r' \<noteq> 0"
  by (auto simp: version_step_def unat_eq_zero)

lemma update_requirement_stored:
  assumes found: "find_requirement (req_id r) db = Some row" and stored: "stores r row" and step: "version_step r r'"
    and up: "update_requirement env r' (req_state_version r) now db = Inr (row', db')"
  shows "stores r' row'" "db' = db\<lparr>sv_requirements := replaced row' (sv_requirements db)\<rparr>"
proof -
  let ?p = "\<lambda>x. rw_id x = req_id r" and ?q = "\<lambda>x. rw_state_version x = uint (req_state_version r)"
  have same: "req_id r' = req_id r" "req_created_by r' = req_created_by r" using step by (simp_all add: version_step_def)
  have f: "find ?p (sv_requirements db) = Some row" "?q row" using found stored by (simp_all add: find_requirement_def stores_def)
  have nz: "req_revision r' \<noteq> 0 \<and> req_state_version r' \<noteq> 0" using version_step_nonzero[OF step] stored by (simp add: stores_def)
  have row': "row' = updated_row r' (uint (req_revision r')) (uint (req_state_version r')) now row"
    and db': "db' = db\<lparr>sv_requirements := update_first (\<lambda>x. ?p x \<and> ?q x) (\<lambda>_. row') (sv_requirements db)\<rparr>"
    and max: "uint (req_revision r') \<le> i64_max" "uint (req_state_version r') \<le> i64_max"
    using up same find_conj[where q = ?q, OF f]
    by (auto simp: update_requirement_def and_then_Inr_iff Let_def split: option.splits if_splits)
  show stored': "stores r' row'" unfolding row' by (rule stores_updated[OF stored]) (use same nz max in auto)
  then have "rw_id row' = req_id r" using same by (simp add: stores_def)
  then show "db' = db\<lparr>sv_requirements := replaced row' (sv_requirements db)\<rparr>"
    unfolding replaced_def using db' update_first_conj[where q = ?q, OF f] by simp
qed

lemma locked_stored:
  assumes "rows_ok db" "find_requirement rid db = Some row" "to_domain row = Inr r"
  shows "stores r row" "req_id r = rid" "find_requirement (req_id r) db = Some row"
proof -
  obtain r0 where "stores r0 row" using assms(1,2) find_requirement_id unfolding rows_ok_def by blast
  then show "stores r row" using assms(3) to_domain_stored by fastforce
  then show "req_id r = rid" using find_requirement_id[OF assms(2)] by (simp add: stores_def)
  then show "find_requirement (req_id r) db = Some row" using assms(2) by simp
qed

section \<open>The transactions keep the contract\<close>

locale store_operation =
  fixes op :: "server_db \<Rightarrow> 'r \<times> server_db"
  assumes contract: "rows_ok db \<Longrightarrow> op db = (res, db') \<Longrightarrow> store_step db db'"

lemma store_step_refl [intro, simp]: "store_step db db"
  by (rule step_quiet) simp_all

lemma run_tx_operation:
  assumes "\<And>db a db'. rows_ok db \<Longrightarrow> tx db = Inr (a, db') \<Longrightarrow> store_step db db'"
  shows "store_operation (run_tx tx after)"
proof
  fix db res db'
  assume "rows_ok db" "run_tx tx after db = (res, db')"
  then show "store_step db db'"
    using assms by (cases "tx db") (auto simp: run_tx_def split: prod.splits)
qed

interpretation create_tx: store_operation "create_requirement env rnd1 rnd2 title description created_by now"
  unfolding create_requirement_def
proof (rule run_tx_operation)
  fix db row db'
  assume tx: "create_requirement_tx env rnd1 rnd2 title description created_by now db = Inr (row, db')"
  have "uint (1 :: u64) \<le> i64_max" by (simp add: i64_max_def)
  then have stored: "stores (new_requirement (random_hex 16 rnd1) title description created_by) row"
    and new: "find_requirement (rw_id row) db = None"
    and db': "sv_requirements db' = sv_requirements db @ [row]" "sv_audit db' = sv_audit db" "sv_assessments db' = sv_assessments db"
    using tx
    by (auto simp: create_requirement_tx_def new_requirement_def stores_def insert_requirement_def insert_conversation_def
        and_then_Inr_iff Let_def i64_max_def split: if_splits)
  show "store_step db db'" by (rule step_created[OF new stored db'(1,2)]) (simp add: accepted_rows_def db'(3))
qed

definition transition_edge :: "requirement_transition \<Rightarrow> requirement_status \<times> requirement_status" where
  "transition_edge t =
     (case t of TBeginDiscussion \<Rightarrow> (Draft, Discussing) | TAccept \<Rightarrow> (Ready, Accepted) | TReject \<Rightarrow> (Ready, Rejected)
      | TRequestChanges \<Rightarrow> (Ready, Discussing) | TReopen \<Rightarrow> (Rejected, Discussing))"

definition transition_op :: "requirement_transition \<Rightarrow> domain_op" where
  "transition_op t =
     (case t of TBeginDiscussion \<Rightarrow> OpBeginDiscussion | TAccept \<Rightarrow> OpAccept | TReject \<Rightarrow> OpReject
      | TRequestChanges \<Rightarrow> OpRequestChanges | TReopen \<Rightarrow> OpReopen)"

lemma apply_transition_eq:
  "apply_transition t r =
     (if req_status r = fst (transition_edge t) \<and> req_state_version r \<noteq> u64_max
      then (Inr (), r\<lparr>req_status := snd (transition_edge t), req_state_version := req_state_version r + 1\<rparr>)
      else (Inl (ReqInvalidTransition \<lparr>it_from = req_status r, it_to = snd (transition_edge t)\<rparr>), r))"
  by (cases t) (simp_all add: apply_transition_def transition_edge_def begin_discussion_def accept_def reject_def
      request_changes_def reopen_def transition_from_eq)

lemma transition_op_run: "apply_transition t r = (res, r') \<Longrightarrow> r' = run_op (transition_op t) r"
  by (cases t) (auto simp: apply_transition_def transition_op_def split: prod.splits)

lemma edge_neq: "fst (transition_edge t) \<noteq> snd (transition_edge t)"
  by (cases t) (simp_all add: transition_edge_def)

lemma transition_not_ready: "\<forall>a. transition_op t \<noteq> OpMarkReady a"
  by (cases t) (simp_all add: transition_op_def)

lemma insert_audit_Inr: "insert_audit env a db = Inr db' \<Longrightarrow> db' = db\<lparr>sv_audit := sv_audit db @ [a]\<rparr>"
  by (auto simp: insert_audit_def split: if_splits)

text \<open>What a successful transition does.\<close>

lemma transition_tx_Inr:
  assumes ok: "rows_ok db"
    and tx: "transition_requirement_tx env rid expected actor t feedback aid now db = Inr (row', db')"
  obtains r row r' where
    "find_requirement (req_id r) db = Some row" "stores r row" "req_id r = rid" "req_state_version r = expected"
    "check_packet t aid r db = Inr ()" "apply_transition t r = (Inr (), r')"
    "stores r' row'"
    "db' = db\<lparr>sv_requirements := replaced row' (sv_requirements db), sv_audit := sv_audit db @
       [\<lparr>au_requirement_id = rid, au_actor_id = actor, au_transition = transition_as_str t,
         au_from_status = persisted_status (req_status r), au_to_status = persisted_status (req_status r'),
         au_feedback = feedback, au_assessment_id = aid, au_state_version = uint (req_state_version r')\<rparr>]\<rparr>"
proof -
  obtain row r where l: "find_requirement rid db = Some row" "to_domain row = Inr r"
    and v: "req_state_version r = expected" and c: "check_packet t aid r db = Inr ()"
    using tx by (auto simp: transition_requirement_tx_def lock_requirement_def and_then_Inr_iff split: option.splits if_splits)
  note s = locked_stored[OF ok l]
  obtain r' where r': "apply_transition t r = (Inr (), r')"
    using tx l v c by (auto simp: transition_requirement_tx_def lock_requirement_def apply_transition_eq split: if_splits)
  then obtain db1 where up: "update_requirement env r' (req_state_version r) now db = Inr (row', db1)"
    and au: "insert_audit env
             \<lparr>au_requirement_id = req_id r', au_actor_id = actor, au_transition = transition_as_str t,
              au_from_status = persisted_status (req_status r), au_to_status = persisted_status (req_status r'),
              au_feedback = feedback, au_assessment_id = aid, au_state_version = uint (req_state_version r')\<rparr> db1 = Inr db'"
    using tx l v c by (auto simp: transition_requirement_tx_def lock_requirement_def and_then_Inr_iff)
  have "req_status r' \<noteq> req_status r" using r' edge_neq[of t] by (auto simp: apply_transition_eq split: if_splits)
  then have "r' \<noteq> r" by auto
  then have step: "version_step r r'"
    using transition_op_run[OF r'] run_op_cases[of "transition_op t" r] by metis
  note u = update_requirement_stored[OF s(3,1) step up]
  have "req_id r' = rid" using step s(2) by (simp add: version_step_def)
  then show thesis
    using that[OF s(3,1,2) v c r' u(1)] u(2) insert_audit_Inr[OF au] by simp
qed

lemma transition_contract:
  assumes "rows_ok db" "transition_requirement_tx env rid expected actor t feedback aid now db = Inr (row', db')"
  shows "store_step db db'"
  using assms
proof (rule transition_tx_Inr)
  fix r row r'
  assume f: "find_requirement (req_id r) db = Some row" "stores r row" and i: "req_id r = rid"
    and ap: "apply_transition t r = (Inr (), r')"
    and s: "stores r' row'"
    and db': "db' = db\<lparr>sv_requirements := replaced row' (sv_requirements db), sv_audit := sv_audit db @
       [\<lparr>au_requirement_id = rid, au_actor_id = actor, au_transition = transition_as_str t,
         au_from_status = persisted_status (req_status r), au_to_status = persisted_status (req_status r'),
         au_feedback = feedback, au_assessment_id = aid, au_state_version = uint (req_state_version r')\<rparr>]\<rparr>"
  have d: "req_status r' \<noteq> req_status r" using ap edge_neq[of t] by (auto simp: apply_transition_eq split: if_splits)
  then have n: "run_op (transition_op t) r \<noteq> r" using transition_op_run[OF ap] by auto
  show "store_step db db'"
    by (rule step_moved[OF f transition_not_ready transition_op_run[OF ap] _ s])
      (use d i in \<open>auto simp: db' audit_of_def accepted_rows_def\<close>)
qed

interpretation transition_store: store_operation "transition_requirement_with_feedback env rid expected actor t feedback aid now"
  unfolding transition_requirement_with_feedback_def by (rule run_tx_operation) (rule transition_contract)

lemma edit_contract:
  assumes ok: "rows_ok db" and tx: "edit_requirement_tx env rid expected actor edit now db = Inr (v, db')"
  shows "store_step db db'"
proof -
  obtain row r original where l: "find_requirement rid db = Some row" "to_domain row = Inr r" "into_record row = Inr original"
    and v: "req_state_version r = expected"
    using tx by (auto simp: edit_requirement_tx_def lock_requirement_def and_then_Inr_iff split: option.splits if_splits)
  note s = locked_stored[OF ok l(1,2)]
  obtain n r' where ap: "apply_edit edit r = (Inr n, r')"
    using tx l v by (auto simp: edit_requirement_tx_def lock_requirement_def split: prod.splits sum.splits)
  show ?thesis
  proof (cases "req_state_version r' = expected")
    case True
    then have "db' = db" using tx l v ap by (auto simp: edit_requirement_tx_def lock_requirement_def)
    then show ?thesis by simp
  next
    case False
    then have ne: "r' \<noteq> r" using v by auto
    then have step: "version_step r r'" using edit_op.op_ok[OF ap] by blast
    have st: "req_status r' = (if req_status r = Ready then Discussing else req_status r)"
      using ap ne by (auto simp: apply_edit_eq split: if_splits)
    obtain row' db1 where up: "update_requirement env r' (req_state_version r) now db = Inr (row', db1)"
      and au: "if req_status r = Ready
         then insert_audit env
             \<lparr>au_requirement_id = req_id r', au_actor_id = actor, au_transition = ''edit_demotes_ready'',
              au_from_status = persisted_status Ready, au_to_status = persisted_status (req_status r'),
              au_feedback = None, au_assessment_id = None, au_state_version = uint (req_state_version r')\<rparr> db1 = Inr db'
         else db' = db1"
      using tx l v ap False by (auto simp: edit_requirement_tx_def lock_requirement_def and_then_Inr_iff split: if_splits)
    note u = update_requirement_stored[OF s(3,1) step up]
    have "req_id r' = req_id r" using step by (simp add: version_step_def)
    then obtain audits where db': "db' = db\<lparr>sv_requirements := replaced row' (sv_requirements db), sv_audit := sv_audit db @ audits\<rparr>"
      and a: "if req_status r' = req_status r then audits = [] else \<exists>a. audits = [a] \<and> audit_of a r r'"
      using au st u(2) that[of "[]"] by (cases "req_status r = Ready") (auto simp: insert_audit_def audit_of_def)
    show ?thesis
      by (rule step_moved[OF s(3,1) _ _ ne u(1) _ _ a, of "OpApplyEdit edit"])
        (use ap in \<open>simp_all add: db' accepted_rows_def\<close>)
  qed
qed

interpretation edit_store: store_operation "edit_requirement_with_actor env rid expected actor edit now"
  unfolding edit_requirement_with_actor_def by (rule run_tx_operation) (rule edit_contract)

lemma hex_not_blank: "s \<noteq> [] \<Longrightarrow> set s \<subseteq> set ''0123456789abcdef'' \<Longrightarrow> \<not> blank s"
proof -
  assume s: "s \<noteq> []" "set s \<subseteq> set ''0123456789abcdef''"
  have ends: "list_all (\<lambda>p. hd p \<notin> set ''0123456789abcdef'' \<and> last p \<notin> set ''0123456789abcdef'') str_ws" by code_simp
  have head: "\<not> starts_with p u" if "p \<noteq> []" "hd p \<notin> set ''0123456789abcdef''" "set u \<subseteq> set ''0123456789abcdef''" for p u
    using that by (cases p; cases u) (auto simp: starts_with_def)
  have "trim_start s = s"
    unfolding trim_start_def trim_by_fixed using ends s(2) head by (auto simp: list_all_iff)
  moreover have "trim_end s = s"
  proof -
    have "trim_by (map rev str_ws) (rev s) = rev s"
      unfolding trim_by_fixed using ends s(2) head[of _ "rev s"] by (auto simp: list_all_iff hd_rev)
    then show ?thesis by (simp add: trim_end_def)
  qed
  ultimately show ?thesis using s(1) by (simp add: blank_def trim_def)
qed

lemma random_hex_not_blank: "\<not> blank (random_hex 16 rnd)"
proof (rule hex_not_blank)
  have "''0123456789abcdef'' ! k \<in> set ''0123456789abcdef''" if "k < 16" for k
    using that by (intro nth_mem) simp
  then have "set (hex_byte b) \<subseteq> set ''0123456789abcdef''" for b by (simp add: hex_byte_def)
  then show "set (random_hex 16 rnd) \<subseteq> set ''0123456789abcdef''" by (fastforce simp: random_hex_def)
  show "random_hex 16 rnd \<noteq> []" by (simp add: random_hex_def hex_byte_def upt_rec)
qed

text \<open>An inserted assessment reads back as it was given.\<close>

lemma collect_reviewed:
  "list_all (\<lambda>r. \<not> blank (rr_repository_id r) \<and> complete_commit_sha (rr_commit_sha r)) rs
   \<Longrightarrow> collect_results (map reviewed_of_json (map reviewed_json rs)) = Inr rs"
proof (induction rs)
  case (Cons r rs)
  have "blank []" by code_simp
  then have "rr_repository_id r \<noteq> []" using Cons.prems by auto
  then have "reviewed_of_json (reviewed_json r) = Inr r"
    using Cons.prems by (simp add: reviewed_of_json_def reviewed_json_def string_member_def json_get_def json_str_def)
  then show ?case using Cons by simp
qed simp

lemma insert_assessment_Inr:
  assumes "insert_assessment rnd now i db = Inr (row, db')" "assessment_input_ok ev digest (ai_assessment i)"
  shows "db' = db\<lparr>sv_assessments := sv_assessments db @ [row]\<rparr>" "\<not> list_ex (assessment_conflict row) (sv_assessments db)"
    "asr_outcome row = assessment_outcome_as_str (ai_outcome i)" "asr_id row = random_hex 16 rnd"
    "asr_event_id row = ae_event_id (ai_event i)" "asr_session_id row = ae_session_id (ai_event i)"
    "assessment_into_record row = Inr \<lparr>ar_id = asr_id row, ar_event_id = ae_event_id (ai_event i),
       ar_session_id = ae_session_id (ai_event i), ar_daemon_event_seq = ae_daemon_event_seq (ai_event i),
       ar_event_requirement_id = ai_event_requirement_id i, ar_requirement_id = ai_requirement_id i,
       ar_assessment = ai_assessment i, ar_outcome = ai_outcome i,
       ar_accepted_state_version = ai_accepted_state_version i, ar_rejection_reason = ai_rejection_reason i, ar_created_at = now\<rparr>"
    "\<And>v rid. \<lbrakk>ai_accepted_state_version i = Some v; ai_outcome i = OutcomeAccepted; ai_requirement_id i = Some rid\<rbrakk>
      \<Longrightarrow> evidence_row row rid (ai_assessment i) v"
proof -
  define accepted where "accepted = map_option (\<lambda>v :: u64. uint v) (ai_accepted_state_version i)"
  have row: "row = \<lparr>asr_id = random_hex 16 rnd, asr_event_id = ae_event_id (ai_event i), asr_session_id = ae_session_id (ai_event i),
                 asr_daemon_event_seq = uint (ae_daemon_event_seq (ai_event i)), asr_event_requirement_id = ai_event_requirement_id i,
                 asr_requirement_id = ai_requirement_id i,
                 asr_requirement_revision = uint (ra_requirement_revision (ai_assessment i)),
                 asr_verdict = persisted_verdict (ra_verdict (ai_assessment i)), asr_blockers = ra_blockers (ai_assessment i),
                 asr_assumptions = ra_assumptions (ai_assessment i),
                 asr_repositories_reviewed = JArray (map reviewed_json (ra_repositories_reviewed (ai_assessment i))),
                 asr_outcome = assessment_outcome_as_str (ai_outcome i), asr_accepted_state_version = accepted,
                 asr_rejection_reason = ai_rejection_reason i, asr_assessed_at_ms = uint (ra_assessed_at_ms (ai_assessment i)),
                 asr_generation_unknown = False, asr_created_at = now\<rparr>"
    and rest: "db' = db\<lparr>sv_assessments := sv_assessments db @ [row]\<rparr>" "\<not> list_ex (assessment_conflict row) (sv_assessments db)"
    using assms(1) unfolding accepted_def
    by (cases "ai_accepted_state_version i"; auto simp: insert_assessment_def and_then_Inr_iff Let_def i64_try_def split: if_splits)+
  show "db' = db\<lparr>sv_assessments := sv_assessments db @ [row]\<rparr>" "\<not> list_ex (assessment_conflict row) (sv_assessments db)"
    by (fact rest)+
  show "asr_outcome row = assessment_outcome_as_str (ai_outcome i)" "asr_id row = random_hex 16 rnd"
    "asr_event_id row = ae_event_id (ai_event i)" "asr_session_id row = ae_session_id (ai_event i)"
    by (simp_all add: row)
  have v: "verdict_of (persisted_verdict x) = Inr x" for x by (cases x) (simp_all add: verdict_of_def persisted_verdict_def)
  have o': "outcome_from_persisted (assessment_outcome_as_str x) = Inr x" for x
    by (cases x) (simp_all add: outcome_from_persisted_def assessment_outcome_as_str_def)
  show rec: "assessment_into_record row = Inr \<lparr>ar_id = asr_id row, ar_event_id = ae_event_id (ai_event i),
       ar_session_id = ae_session_id (ai_event i), ar_daemon_event_seq = ae_daemon_event_seq (ai_event i),
       ar_event_requirement_id = ai_event_requirement_id i, ar_requirement_id = ai_requirement_id i,
       ar_assessment = ai_assessment i, ar_outcome = ai_outcome i,
       ar_accepted_state_version = ai_accepted_state_version i, ar_rejection_reason = ai_rejection_reason i, ar_created_at = now\<rparr>"
    using assms(2) collect_reviewed[of "ra_repositories_reviewed (ai_assessment i)"]
    by (cases "ai_accepted_state_version i")
      (simp_all add: assessment_into_record_def row json_array_def assessment_input_ok_def v o' accepted_def)
  show "evidence_row row rid (ai_assessment i) v"
    if "ai_accepted_state_version i = Some v" "ai_outcome i = OutcomeAccepted" "ai_requirement_id i = Some rid" for v rid
    unfolding evidence_row_def rec using that random_hex_not_blank
    by (simp add: row accepted_def assessment_outcome_as_str_def)
qed

definition same_store :: "server_db \<Rightarrow> server_db \<Rightarrow> bool" where
  "same_store db db' \<longleftrightarrow> sv_requirements db' = sv_requirements db \<and> sv_audit db' = sv_audit db \<and> sv_assessments db' = sv_assessments db"

lemma insert_event_dedupe_same: "insert_event_dedupe ev seq digest out reason db = Inr db' \<Longrightarrow> same_store db db'"
  by (auto simp: insert_event_dedupe_def same_store_def split: if_splits)

lemma on_session_same: "same_store db (on_session s g db)"
  by (simp add: on_session_def same_store_def)

lemma advance_session_same: "advance_session_watermark s seq db = Inr db' \<Longrightarrow> same_store db db'"
  using on_session_same by (auto simp: advance_session_watermark_def Let_def split: option.splits prod.splits)

lemma same_store_trans: "same_store a b \<Longrightarrow> same_store b c \<Longrightarrow> same_store a c"
  by (simp add: same_store_def)

lemma store_step_cong: "store_step db db1 \<Longrightarrow> same_store db1 db' \<Longrightarrow> store_step db db'"
proof (induction rule: store_step.cases)
  case (step_moved r db0 row op r' row' db1' audits)
  show ?case
    by (rule store_step.step_moved[of r db row op r' row' db' audits])
      (use step_moved in \<open>simp_all add: same_store_def accepted_rows_def\<close>)
next
  case (step_readied r db0 row a r' row' db1' x e)
  show ?case
    by (rule store_step.step_readied[of r db row a r' row' db' x e])
      (use step_readied in \<open>simp_all add: same_store_def accepted_rows_def\<close>)
next
  case (step_quiet db1' db0)
  then show ?case by (intro store_step.step_quiet) (simp_all add: same_store_def accepted_rows_def)
next
  case (step_created row db0 i t d c db1')
  show ?case
    by (rule store_step.step_created[of row db i t d c db'])
      (use step_created in \<open>simp_all add: same_store_def accepted_rows_def\<close>)
qed

lemma promote_contract:
  assumes found: "find_requirement (req_id r) db = Some row" "stores r row" and ready: "mark_ready a r = (Inr (), r')"
    and ev: "evidence_row e (req_id r) a (req_state_version r')"
    and up: "promote_requirement env r' (req_state_version r) event_id (asr_id e) now (db\<lparr>sv_assessments := sv_assessments db @ [e]\<rparr>) = Inr db'"
  shows "store_step db db'"
proof -
  let ?db1 = "db\<lparr>sv_assessments := sv_assessments db @ [e]\<rparr>"
  have f1: "find_requirement (req_id r) ?db1 = Some row" using found(1) by (simp add: find_requirement_def)
  have st: "req_status r = Discussing" "req_status r' = Ready" "req_id r' = req_id r"
    using ready by (auto simp: mark_ready_ok_iff ready_gates_def)
  then have "r' \<noteq> r" by auto
  then have step: "version_step r r'" using ready_op.op_ok[OF ready] by blast
  obtain row' db2 where u: "update_requirement env r' (req_state_version r) now ?db1 = Inr (row', db2)"
    using up by (auto simp: promote_requirement_def and_then_Inr_iff map_err_Inr_iff)
  note u' = update_requirement_stored[OF f1 found(2) step u]
  have db': "db' = ?db1\<lparr>sv_requirements := replaced row' (sv_requirements db), sv_audit := sv_audit db @
       [\<lparr>au_requirement_id = req_id r, au_actor_id = event_id, au_transition = ''mark_ready'',
        au_from_status = persisted_status Discussing, au_to_status = persisted_status Ready,
        au_feedback = None, au_assessment_id = Some (asr_id e), au_state_version = uint (req_state_version r')\<rparr>]\<rparr>"
    using up u u'(1,2) st by (simp add: promote_requirement_def insert_audit_def i64_try_def stores_def)
  show ?thesis
    by (rule step_readied[OF found ready u'(1) _ _ _ _ _ ev])
      (use st ev in \<open>auto simp: db' audit_of_def accepted_rows_def evidence_row_def\<close>)
qed

lemma judge_accepted:
  "judge_assessment session a r db = (out, reason, r') \<Longrightarrow> out = OutcomeAccepted \<Longrightarrow> mark_ready a r = (Inr (), r')"
  by (auto simp: judge_assessment_def split: if_splits prod.splits sum.splits)

lemma settle_contract:
  assumes ok: "rows_ok db" and input: "assessment_input_ok ev digest a"
    and tx: "settle_assessment env rnd now ev seq rid a digest session db = Inr (row, db')"
  shows "store_step db db'"
proof (cases "find_requirement rid db")
  case None
  then obtain db1 db2 where i: "insert_assessment rnd now
      \<lparr>ai_event = ev, ai_event_requirement_id = rid, ai_requirement_id = None, ai_assessment = a,
       ai_outcome = OutcomeRejected, ai_accepted_state_version = None,
       ai_rejection_reason = Some ''requirement_not_found''\<rparr> db = Inr (row, db1)"
    and d: "insert_event_dedupe ev seq digest OutcomeRejected (Some ''requirement_not_found'') db1 = Inr db2"
    and w: "advance_session_watermark (ae_session_id ev) seq db2 = Inr db'"
    using tx by (auto simp: settle_assessment_def lock_requirement_def finish_event_def and_then_Inr_iff)
  have "store_step db db1"
    using insert_assessment_Inr(1,3)[OF i] input by (intro step_quiet) (auto simp: accepted_rows_def assessment_outcome_as_str_def)
  then show ?thesis using insert_event_dedupe_same[OF d] advance_session_same[OF w] store_step_cong by blast
next
  case (Some locked)
  obtain r where dom: "to_domain locked = Inr r"
    using tx Some by (auto simp: settle_assessment_def lock_requirement_def and_then_Inr_iff map_err_Inr_iff)
  note s = locked_stored[OF ok Some dom]
  obtain out reason r' where j: "judge_assessment session a r db = (out, reason, r')" by (metis prod.collapse)
  define i where "i = \<lparr>ai_event = ev, ai_event_requirement_id = rid, ai_requirement_id = Some rid, ai_assessment = a,
     ai_outcome = out, ai_accepted_state_version = (if out = OutcomeAccepted then Some (req_state_version r') else None),
     ai_rejection_reason = reason\<rparr>"
  obtain db1 db2 db3 where ins: "insert_assessment rnd now i db = Inr (row, db1)"
    and pr: "(if out = OutcomeAccepted
              then promote_requirement env r' (req_state_version r) (ae_event_id ev) (asr_id row) now db1
              else Inr db1) = Inr db2"
    and d: "insert_event_dedupe ev seq digest out reason db2 = Inr db3"
    and w: "advance_session_watermark (ae_session_id ev) seq
              (on_session (ae_session_id ev) (\<lambda>s. s\<lparr>es_updated_at := now, es_last_activity_at := now\<rparr>) db3) = Inr db'"
    using tx Some dom j by (auto simp: settle_assessment_def lock_requirement_def and_then_Inr_iff i_def)
  note r = insert_assessment_Inr[OF ins, of ev digest]
  have ai: "ai_assessment i = a" "ai_requirement_id i = Some rid" "ai_outcome i = out" by (simp_all add: i_def)
  have "store_step db db2"
  proof (cases out)
    case OutcomeAccepted
    have "evidence_row row (req_id r) a (req_state_version r')"
      using r(8)[of "req_state_version r'" rid] input ai s(2) OutcomeAccepted by (simp add: i_def)
    then show ?thesis
      using promote_contract[OF s(3,1) judge_accepted[OF j OutcomeAccepted]] pr r(1) input ai OutcomeAccepted by simp
  next
    case OutcomeRejected
    then show ?thesis
      using r(1,3) input ai pr by (intro step_quiet) (auto simp: accepted_rows_def assessment_outcome_as_str_def)
  qed
  then show ?thesis
    using insert_event_dedupe_same[OF d] on_session_same advance_session_same[OF w] store_step_cong by blast
qed

lemma map_sum_Inr_iff: "map_sum f g x = Inr y \<longleftrightarrow> (\<exists>b. x = Inr b \<and> g b = y)"
  by (cases x) auto

lemma record_contract:
  assumes "rows_ok db" "record_assessment_tx env rnd now ev rid a digest db = Inr (v, db')"
  shows "store_step db db'"
proof -
  have "db' = db \<or> (\<exists>seq session row. assessment_input_ok ev digest a
      \<and> settle_assessment env rnd now ev seq rid a digest session db = Inr (row, db'))"
    using assms(2)
    by (auto simp: record_assessment_tx_def and_then_Inr_iff map_sum_Inr_iff split: if_splits option.splits)
  then show ?thesis using settle_contract[OF assms(1)] by blast
qed

interpretation readiness_store: store_operation "record_readiness_assessment_with_event_digest env rnd now ev rid a digest"
  unfolding record_readiness_assessment_with_event_digest_def by (rule run_tx_operation) (rule record_contract)

subsection \<open>The discussion that a clarification opens\<close>

lemma open_discussion_contract:
  assumes ok: "rows_ok db" and l: "find_requirement rid db = Some row" "to_domain row = Inr r" and v: "req_state_version r = expected"
    and tx: "open_discussion env now r expected db = Inr db'"
  shows "store_step db db'"
proof (cases "req_status r = Draft")
  case False
  then show ?thesis using tx by (simp add: open_discussion_def)
next
  case True
  note s = locked_stored[OF ok l]
  obtain u r' where ap: "begin_discussion r = (Inr u, r')"
    using tx True by (auto simp: open_discussion_def split: prod.splits sum.splits)
  have ap': "apply_transition TBeginDiscussion r = (Inr (), r')" using ap by (simp add: apply_transition_def)
  have st: "req_status r' = Discussing" using ap' by (auto simp: apply_transition_eq transition_edge_def split: if_splits)
  then have ne: "r' \<noteq> r" using True by auto
  then have step: "version_step r r'"
    using transition_op_run[OF ap'] run_op_cases[of "transition_op TBeginDiscussion" r] by metis
  obtain row' db1 where up: "update_requirement (cl_store env) r' (req_state_version r) now db = Inr (row', db1)"
    and au: "insert_audit (cl_store env)
               \<lparr>au_requirement_id = req_id r, au_actor_id = ''clarification'', au_transition = ''begin_discussion'',
                au_from_status = ''Draft'', au_to_status = ''Discussing'', au_feedback = None, au_assessment_id = None,
                au_state_version = uint (req_state_version r')\<rparr> db1 = Inr db'"
    using tx True ap v by (auto simp: open_discussion_def and_then_Inr_iff map_err_Inr_iff)
  note u = update_requirement_stored[OF s(3,1) step up]
  show ?thesis
    by (rule step_moved[OF s(3,1) transition_not_ready transition_op_run[OF ap'] _ u(1)])
      (use ne st True transition_op_run[OF ap'] in \<open>auto simp: insert_audit_Inr[OF au] u(2) audit_of_def persisted_status_def accepted_rows_def\<close>)
qed

lemma same_store_on_session [simp]: "same_store a (on_session sid g b) = same_store a b"
  by (simp add: on_session_def same_store_def)

lemma insert_command_same: "insert_command env cid sid did seq payload db = Inr db' \<Longrightarrow> same_store db db'"
  by (auto simp: insert_command_def and_then_Inr_iff same_store_def split: if_splits)

lemma insert_execution_attempt_same: "insert_execution_attempt aid sid n cid kind db = Inr db' \<Longrightarrow> same_store db db'"
  by (auto simp: insert_execution_attempt_def same_store_def split: if_splits)

lemma insert_session_same: "insert_session sid s db = Inr db' \<Longrightarrow> same_store db db'"
  by (auto simp: insert_session_def same_store_def split: if_splits)

lemma dispatch_start_same: "dispatch_start env cid sid did seq payload db = Inr db' \<Longrightarrow> same_store db db'"
  by (auto simp: dispatch_start_def and_then_Inr_iff intro: same_store_trans dest: insert_command_same insert_execution_attempt_same)

lemma assign_occupant_same: "assign_occupant env build rnd now did sid s db = Inr (cid, db') \<Longrightarrow> same_store db db'"
  by (auto simp: assign_occupant_def and_then_Inr_iff Let_def dest!: dispatch_start_same split: option.splits)

lemma start_occupied_same: "start_occupied env build rnd now i sid s db = Inr (r, db') \<Longrightarrow> same_store db db'"
  by (auto simp: start_occupied_def and_then_Inr_iff same_store_def dest!: assign_occupant_same split: if_splits option.splits)

lemma start_fresh_contract:
  assumes "rows_ok db" "find_requirement rid db = Some row" "to_domain row = Inr r"
    and tx: "start_fresh env build rnd1 rnd2 now i r db = Inr (res, db')"
  shows "store_step db db'"
proof -
  obtain db1 where o: "open_discussion env now r (csi_expected_state_version i) db = Inr db1"
    and v: "req_state_version r = csi_expected_state_version i"
    using tx by (auto simp: start_fresh_def and_then_Inr_iff split: if_splits)
  have "same_store db1 db'"
    using tx o
    by (auto simp: start_fresh_def and_then_Inr_iff Let_def intro: same_store_trans dest!: insert_session_same dispatch_start_same
        split: if_splits option.splits)
  then show ?thesis using open_discussion_contract[OF assms(1-3) v o] store_step_cong by blast
qed

lemma start_clarification_contract:
  assumes "rows_ok db" "start_clarification_tx env build rnd1 rnd2 now i db = Inr (r, db')"
  shows "store_step db db'"
proof -
  obtain row q where "find_requirement (csi_requirement_id i) db = Some row" "to_domain row = Inr q"
    and "same_store db db' \<or> start_fresh env build rnd1 rnd2 now i q db = Inr (r, db')"
    using assms(2)
    by (auto simp: start_clarification_tx_def lock_requirement_def and_then_Inr_iff map_err_Inr_iff dest: start_occupied_same
        split: if_splits option.splits)
  then show ?thesis using start_fresh_contract[OF assms(1)] store_step_cong[OF store_step_refl] by blast
qed

interpretation start_store: store_operation "start_clarification env build rnd1 rnd2 now i"
  unfolding start_clarification_def by (rule run_tx_operation) (rule start_clarification_contract)

section \<open>The invariant of the tables\<close>

fun audit_path :: "string \<Rightarrow> audit_row list \<Rightarrow> string \<Rightarrow> bool" where
  "audit_path s [] t \<longleftrightarrow> s = t"
| "audit_path s (a # as) t \<longleftrightarrow> au_from_status a = s \<and> audit_path (au_to_status a) as t"

lemma audit_path_append: "audit_path s (xs @ ys) t \<longleftrightarrow> (\<exists>u. audit_path s xs u \<and> audit_path u ys t)"
  by (induction xs arbitrary: s) auto

definition audit_edge :: "audit_row \<Rightarrow> bool" where
  "audit_edge a \<longleftrightarrow> (\<exists>s t. can_transition_to s t \<and> au_from_status a = persisted_status s \<and> au_to_status a = persisted_status t)"

lemma audit_edge_step: "version_step r r' \<Longrightarrow> req_status r' \<noteq> req_status r \<Longrightarrow> audit_of a r r' \<Longrightarrow> audit_edge a"
  unfolding audit_edge_def audit_of_def version_step_def by (auto split: if_splits)

definition trail :: "string \<Rightarrow> server_db \<Rightarrow> audit_row list" where
  "trail rid db = filter (\<lambda>a. au_requirement_id a = rid) (sv_audit db)"

definition evidence_of :: "string \<Rightarrow> server_db \<Rightarrow> assessment_row list" where
  "evidence_of rid db = filter (\<lambda>e. asr_requirement_id e = Some rid) (accepted_rows db)"

definition version_of :: "assessment_row \<Rightarrow> int" where
  "version_of e = (case asr_accepted_state_version e of None \<Rightarrow> 0 | Some v \<Rightarrow> v)"

text \<open>A requirement with its audit rows and its accepted evidence.\<close>

definition backed :: "audit_row list \<Rightarrow> assessment_row list \<Rightarrow> requirement \<Rightarrow> bool" where
  "backed tr es r \<longleftrightarrow>
     audit_path ''Draft'' tr (persisted_status (req_status r)) \<and> list_all audit_edge tr
     \<and> sorted_wrt (<) (map au_state_version tr) \<and> (\<forall>a\<in>set tr. au_state_version a \<le> uint (req_state_version r))
     \<and> sorted_wrt (<) (map version_of es) \<and> (\<forall>e\<in>set es. version_of e \<le> uint (req_state_version r))
     \<and> (\<exists>g. reachable r g \<and> (case g of None \<Rightarrow> es = [] | Some (a, v) \<Rightarrow> es \<noteq> [] \<and> evidence_row (last es) (req_id r) a v))"

lemma backedI:
  assumes "audit_path ''Draft'' tr (persisted_status (req_status r))" "list_all audit_edge tr"
    and "sorted_wrt (<) (map au_state_version tr)" "\<And>a. a \<in> set tr \<Longrightarrow> au_state_version a \<le> uint (req_state_version r)"
    and "sorted_wrt (<) (map version_of es)" "\<And>e. e \<in> set es \<Longrightarrow> version_of e \<le> uint (req_state_version r)"
    and "reachable r g" "case g of None \<Rightarrow> es = [] | Some (a, v) \<Rightarrow> es \<noteq> [] \<and> evidence_row (last es) (req_id r) a v"
  shows "backed tr es r"
  using assms unfolding backed_def by blast

lemma backedE:
  assumes "backed tr es r"
  obtains g where "audit_path ''Draft'' tr (persisted_status (req_status r))" "list_all audit_edge tr"
    "sorted_wrt (<) (map au_state_version tr)" "\<And>a. a \<in> set tr \<Longrightarrow> au_state_version a \<le> uint (req_state_version r)"
    "sorted_wrt (<) (map version_of es)" "\<And>e. e \<in> set es \<Longrightarrow> version_of e \<le> uint (req_state_version r)"
    "reachable r g" "case g of None \<Rightarrow> es = [] | Some (a, v) \<Rightarrow> es \<noteq> [] \<and> evidence_row (last es) (req_id r) a v"
  using assms unfolding backed_def by blast

lemma backed_new: "backed [] [] (new_requirement i t d c)"
  by (rule backedI[OF _ _ _ _ _ _ reach_new]) (simp_all add: new_requirement_def persisted_status_def)

lemma version_step_uint: "version_step r r' \<Longrightarrow> uint (req_state_version r) < uint (req_state_version r')"
  using version_step_sv by (simp add: word_less_def)

lemma backed_moved:
  assumes b: "backed tr es r" and op: "\<forall>a. op \<noteq> OpMarkReady a" "r' = run_op op r" "r' \<noteq> r"
    and au: "if req_status r' = req_status r then audits = [] else \<exists>a. audits = [a] \<and> audit_of a r r'"
  shows "backed (tr @ audits) es r'"
proof -
  have step: "version_step r r'" using op run_op_cases[of op r] by metis
  have lt: "uint (req_state_version r) < uint (req_state_version r')" by (rule version_step_uint[OF step])
  have i: "req_id r' = req_id r" using step by (simp add: version_step_def)
  from b show ?thesis
  proof (rule backedE)
    fix g
    assume p: "audit_path ''Draft'' tr (persisted_status (req_status r))" "list_all audit_edge tr"
      and a: "sorted_wrt (<) (map au_state_version tr)" "\<And>a. a \<in> set tr \<Longrightarrow> au_state_version a \<le> uint (req_state_version r)"
      and e: "sorted_wrt (<) (map version_of es)" "\<And>e. e \<in> set es \<Longrightarrow> version_of e \<le> uint (req_state_version r)"
      and g: "reachable r g" "case g of None \<Rightarrow> es = [] | Some (a, v) \<Rightarrow> es \<noteq> [] \<and> evidence_row (last es) (req_id r) a v"
    have a': "au_state_version x < uint (req_state_version r')" if "x \<in> set tr" for x
      using a(2)[OF that] lt by linarith
    have e': "version_of x \<le> uint (req_state_version r')" if "x \<in> set es" for x using e(2)[OF that] lt by linarith
    have r: "reachable r' g" using reach_op[OF g(1) op(1)] op(2) by simp
    have g': "case g of None \<Rightarrow> es = [] | Some (a, v) \<Rightarrow> es \<noteq> [] \<and> evidence_row (last es) (req_id r') a v"
      unfolding i by (rule g(2))
    show ?thesis
    proof (cases "req_status r' = req_status r")
      case True
      then show ?thesis using backedI[OF _ p(2) a(1) _ e(1) e' r g'] p(1) a' au by (simp add: less_imp_le)
    next
      case False
      then obtain x where x: "audits = [x]" "audit_of x r r'" using au by auto
      have "audit_path ''Draft'' (tr @ [x]) (persisted_status (req_status r'))"
        using p(1) x(2) by (auto simp: audit_path_append audit_of_def)
      moreover have "list_all audit_edge (tr @ [x])" using p(2) audit_edge_step[OF step False x(2)] by simp
      moreover have "sorted_wrt (<) (map au_state_version (tr @ [x]))"
        using a(1) a' x(2) by (auto simp: sorted_wrt_append audit_of_def)
      moreover have "au_state_version y \<le> uint (req_state_version r')" if "y \<in> set (tr @ [x])" for y
        using that a' x(2) by (auto simp: audit_of_def less_imp_le)
      ultimately have "backed (tr @ [x]) es r'" by (rule backedI[OF _ _ _ _ e(1) e' r g'])
      then show ?thesis using x(1) by simp
    qed
  qed
qed

lemma backed_readied:
  assumes b: "backed tr es r" and ready: "mark_ready a r = (Inr (), r')"
    and au: "audit_of x r r'" and ev: "evidence_row e (req_id r) a (req_state_version r')"
  shows "backed (tr @ [x]) (es @ [e]) r'"
proof -
  have st: "req_status r \<noteq> req_status r'" using ready by (auto simp: mark_ready_ok_iff ready_gates_def)
  then have step: "version_step r r'" using ready_op.op_ok[OF ready] by auto
  have lt: "uint (req_state_version r) < uint (req_state_version r')" by (rule version_step_uint[OF step])
  have i: "req_id r' = req_id r" using step by (simp add: version_step_def)
  from b show ?thesis
  proof (rule backedE)
    fix g
    assume p: "audit_path ''Draft'' tr (persisted_status (req_status r))" "list_all audit_edge tr"
      and a: "sorted_wrt (<) (map au_state_version tr)" "\<And>a. a \<in> set tr \<Longrightarrow> au_state_version a \<le> uint (req_state_version r)"
      and e: "sorted_wrt (<) (map version_of es)" "\<And>e. e \<in> set es \<Longrightarrow> version_of e \<le> uint (req_state_version r)"
      and g: "reachable r g"
    have a': "au_state_version x < uint (req_state_version r')" if "x \<in> set tr" for x using a(2)[OF that] lt by linarith
    have e': "version_of x < uint (req_state_version r')" if "x \<in> set es" for x using e(2)[OF that] lt by linarith
    have v: "version_of e = uint (req_state_version r')" using ev by (simp add: evidence_row_def version_of_def)
    have "audit_path ''Draft'' (tr @ [x]) (persisted_status (req_status r'))"
      using p(1) au by (auto simp: audit_path_append audit_of_def)
    moreover have "list_all audit_edge (tr @ [x])" using p(2) audit_edge_step[OF step _ au] st by simp
    moreover have "sorted_wrt (<) (map au_state_version (tr @ [x]))"
      using a(1) a' au by (auto simp: sorted_wrt_append audit_of_def)
    moreover have "sorted_wrt (<) (map version_of (es @ [e]))" using e(1) e' v by (auto simp: sorted_wrt_append)
    moreover have "au_state_version y \<le> uint (req_state_version r')" if "y \<in> set (tr @ [x])" for y
      using that a' au by (auto simp: audit_of_def less_imp_le)
    moreover have "version_of y \<le> uint (req_state_version r')" if "y \<in> set (es @ [e])" for y
      using that e' v by (auto simp: less_imp_le)
    moreover have "case Some (a, req_state_version r') of None \<Rightarrow> es @ [e] = []
        | Some (a, v) \<Rightarrow> es @ [e] \<noteq> [] \<and> evidence_row (last (es @ [e])) (req_id r') a v" using ev i by simp
    ultimately show ?thesis using reach_ready[OF g ready] by (intro backedI)
  qed
qed

definition store_ok :: "server_db \<Rightarrow> bool" where
  "store_ok db \<longleftrightarrow>
     distinct (map rw_id (sv_requirements db))
     \<and> (\<forall>row\<in>set (sv_requirements db). \<exists>r. stores r row \<and> backed (trail (req_id r) db) (evidence_of (req_id r) db) r)
     \<and> (\<forall>a\<in>set (sv_audit db). au_requirement_id a \<in> rw_id ` set (sv_requirements db))
     \<and> (\<forall>e\<in>set (accepted_rows db). asr_requirement_id e \<in> Some ` rw_id ` set (sv_requirements db))"

lemma store_ok_rows: "store_ok db \<Longrightarrow> rows_ok db"
  by (auto simp: store_ok_def rows_ok_def)

lemma map_id_replaced: "map rw_id (replaced row' rows) = map rw_id rows"
  unfolding replaced_def by (induction rows) auto

lemma set_replaced:
  "distinct (map rw_id rows) \<Longrightarrow> x \<in> set (replaced row' rows) \<Longrightarrow> x = row' \<or> x \<in> set rows \<and> rw_id x \<noteq> rw_id row'"
proof (induction rows)
  case (Cons y rows)
  show ?case
  proof (cases "rw_id y = rw_id row'")
    case True
    then have "rw_id row' \<notin> rw_id ` set rows" using Cons.prems(1) by simp
    then show ?thesis using True Cons.prems(2) by (auto simp: replaced_def image_iff)
  next
    case False
    then show ?thesis using Cons by (auto simp: replaced_def)
  qed
qed (simp add: replaced_def)

text \<open>Replacing one row and adding audit rows and evidence of its requirement.\<close>

lemma store_ok_replace:
  assumes ok: "store_ok db" and found: "find_requirement (req_id r) db = Some row" and stored: "stores r' row'" "req_id r' = req_id r"
    and db': "sv_requirements db' = replaced row' (sv_requirements db)" "sv_audit db' = sv_audit db @ audits"
      "accepted_rows db' = accepted_rows db @ es"
    and own: "\<forall>a\<in>set audits. au_requirement_id a = req_id r" "\<forall>e\<in>set es. asr_requirement_id e = Some (req_id r)"
    and b: "backed (trail (req_id r) db @ audits) (evidence_of (req_id r) db @ es) r'"
  shows "store_ok db'"
proof -
  have ids: "rw_id ` set (sv_requirements db') = rw_id ` set (sv_requirements db)"
    unfolding db'(1) by (metis image_set map_id_replaced)
  have rid: "req_id r \<in> rw_id ` set (sv_requirements db)" using find_requirement_id[OF found] by (metis image_eqI)
  have new: "trail (req_id r) db' = trail (req_id r) db @ audits" "evidence_of (req_id r) db' = evidence_of (req_id r) db @ es"
    using own by (simp_all add: trail_def evidence_of_def db')
  have old: "trail i db' = trail i db" "evidence_of i db' = evidence_of i db" if "i \<noteq> req_id r" for i
    using own that by (auto simp: trail_def evidence_of_def db' filter_empty_conv)
  have "\<exists>q. stores q x \<and> backed (trail (req_id q) db') (evidence_of (req_id q) db') q" if x: "x \<in> set (sv_requirements db')" for x
  proof (cases "x = row'")
    case True
    then show ?thesis using stored b new by (intro exI[of _ r']) simp
  next
    case False
    then have m: "x \<in> set (sv_requirements db)" "rw_id x \<noteq> req_id r"
      using set_replaced[of "sv_requirements db" x row'] x ok stored unfolding db'(1) store_ok_def stores_def by auto
    then obtain q where q: "stores q x" "backed (trail (req_id q) db) (evidence_of (req_id q) db) q" using ok unfolding store_ok_def by blast
    then have "req_id q \<noteq> req_id r" using m(2) by (simp add: stores_def)
    then show ?thesis using q old by (intro exI[of _ q]) simp
  qed
  moreover have "distinct (map rw_id (sv_requirements db'))" unfolding db'(1) map_id_replaced using ok by (simp add: store_ok_def)
  moreover have "\<forall>a\<in>set (sv_audit db'). au_requirement_id a \<in> rw_id ` set (sv_requirements db')"
    using ok own(1) rid unfolding ids db'(2) store_ok_def by auto
  moreover have "\<forall>e\<in>set (accepted_rows db'). asr_requirement_id e \<in> Some ` rw_id ` set (sv_requirements db')"
    using ok own(2) rid unfolding ids db'(3) store_ok_def by auto
  ultimately show ?thesis unfolding store_ok_def by blast
qed

lemma store_step_ok:
  assumes "store_step db db'" "store_ok db"
  shows "store_ok db'"
  using assms
proof (induction rule: store_step.induct)
  case (step_quiet db' db)
  then show ?case by (simp add: store_ok_def trail_def evidence_of_def)
next
  case (step_created row db i t d c db')
  let ?r = "new_requirement i t d c"
  have new: "rw_id row \<notin> rw_id ` set (sv_requirements db)"
    using step_created.hyps(1) by (auto simp: find_requirement_def find_None_iff)
  have i: "req_id ?r = rw_id row" using step_created.hyps(2) by (simp add: stores_def)
  have same: "trail j db' = trail j db" "evidence_of j db' = evidence_of j db" for j
    using step_created.hyps by (simp_all add: trail_def evidence_of_def)
  have refs: "\<forall>a\<in>set (sv_audit db). au_requirement_id a \<in> rw_id ` set (sv_requirements db)"
    "\<forall>e\<in>set (accepted_rows db). asr_requirement_id e \<in> Some ` rw_id ` set (sv_requirements db)"
    using step_created.prems by (simp_all add: store_ok_def)
  have "trail (rw_id row) db = []" using new refs(1) unfolding trail_def filter_empty_conv by metis
  moreover have "evidence_of (rw_id row) db = []" using new refs(2) unfolding evidence_of_def filter_empty_conv by (metis imageE option.inject)
  ultimately have "backed (trail (req_id ?r) db') (evidence_of (req_id ?r) db') ?r"
    unfolding same i using backed_new by simp
  then have "\<forall>x\<in>set (sv_requirements db'). \<exists>q. stores q x \<and> backed (trail (req_id q) db') (evidence_of (req_id q) db') q"
    using step_created.prems step_created.hyps(2,3) unfolding same store_ok_def by auto
  moreover have "distinct (map rw_id (sv_requirements db'))"
    using step_created.prems new unfolding step_created.hyps(3) store_ok_def by simp
  ultimately show ?case using refs step_created.hyps(3,4,5) unfolding store_ok_def by simp
next
  case (step_moved r db row op r' row' db' audits)
  obtain q where q: "stores q row" "backed (trail (req_id q) db) (evidence_of (req_id q) db) q"
    using step_moved.prems find_requirement_id[OF step_moved.hyps(1)] unfolding store_ok_def by blast
  then have b: "backed (trail (req_id r) db) (evidence_of (req_id r) db) r" using stores_inject[OF step_moved.hyps(2)] by blast
  have "req_id r' = req_id r" using step_moved.hyps(4,5) run_op_cases[of op r] by (auto simp: version_step_def)
  moreover have "\<forall>a\<in>set audits. au_requirement_id a = req_id r"
    using step_moved.hyps(9) by (auto simp: audit_of_def split: if_splits)
  ultimately show ?case
    using store_ok_replace[OF step_moved.prems step_moved.hyps(1,6) _ step_moved.hyps(7,8), of "[]"]
      backed_moved[OF b step_moved.hyps(3,4,5,9)] step_moved.hyps(10) by simp
next
  case (step_readied r db row a r' row' db' x e)
  obtain q where q: "stores q row" "backed (trail (req_id q) db) (evidence_of (req_id q) db) q"
    using step_readied.prems find_requirement_id[OF step_readied.hyps(1)] unfolding store_ok_def by blast
  then have b: "backed (trail (req_id r) db) (evidence_of (req_id r) db) r" using stores_inject[OF step_readied.hyps(2)] by blast
  have "req_id r' = req_id r" using step_readied.hyps(3) by (simp add: mark_ready_ok_iff)
  then show ?case
    using store_ok_replace[OF step_readied.prems step_readied.hyps(1,4) _ step_readied.hyps(5,6,9)]
      backed_readied[OF b step_readied.hyps(3,7,10)] step_readied.hyps(7,10)
    by (simp add: audit_of_def evidence_row_def)
qed

context store_operation
begin

lemma keeps_store: "store_ok db \<Longrightarrow> op db = (res, db') \<Longrightarrow> store_ok db'"
  using contract store_step_ok store_ok_rows by blast

end

end
