(* ===== verification/Review_Safety.thy ===== *)
theory Review_Safety
  imports Review_History
begin

text \<open>
  What the requirement and readiness transactions guarantee over every history of a database that
  started empty: the audit is a complete path through the lifecycle, a review packet exists exactly
  for a requirement that is \<open>Ready\<close>, a review decision needs the current packet, and an
  assessment event is taken once.
\<close>

section \<open>Histories\<close>

text \<open>Other transactions may change the other tables between two of these.\<close>

inductive store_history :: "store_env \<Rightarrow> server_db \<Rightarrow> bool" for env where
  hist_start: "\<lbrakk>sv_requirements db = []; sv_audit db = []; sv_assessments db = []\<rbrakk> \<Longrightarrow> store_history env db"
| hist_other: "\<lbrakk>store_history env db; same_store db db'\<rbrakk> \<Longrightarrow> store_history env db'"
| hist_create: "\<lbrakk>store_history env db; create_requirement env rnd1 rnd2 title description created_by now db = (res, db')\<rbrakk>
    \<Longrightarrow> store_history env db'"
| hist_transition: "\<lbrakk>store_history env db;
     transition_requirement_with_feedback env rid expected actor t feedback aid now db = (res, db')\<rbrakk>
    \<Longrightarrow> store_history env db'"
| hist_edit: "\<lbrakk>store_history env db; edit_requirement_with_actor env rid expected actor edit now db = (res, db')\<rbrakk>
    \<Longrightarrow> store_history env db'"
| hist_assess: "\<lbrakk>store_history env db;
     record_readiness_assessment_with_event_digest env rnd now ev rid a digest db = (res', db')\<rbrakk>
    \<Longrightarrow> store_history env db'"
| hist_clarify: "\<lbrakk>store_history env db; start_clarification cenv build rnd1 rnd2 now i db = (started, db')\<rbrakk>
    \<Longrightarrow> store_history env db'"

lemma store_history_ok: "store_history env db \<Longrightarrow> store_ok db"
proof (induction rule: store_history.induct)
  case (hist_start db)
  then show ?case by (simp add: store_ok_def accepted_rows_def)
next
  case (hist_other db db')
  then show ?case using store_step_ok store_step_cong store_step_refl by blast
qed (blast intro: create_tx.keeps_store transition_store.keeps_store edit_store.keeps_store readiness_store.keeps_store
    start_store.keeps_store)+

lemma found_backed:
  assumes "store_ok db" "find_requirement rid db = Some row"
  obtains r where "stores r row" "to_domain row = Inr r" "req_id r = rid" "backed (trail rid db) (evidence_of rid db) r"
proof -
  obtain r where "stores r row" "backed (trail (req_id r) db) (evidence_of (req_id r) db) r"
    using assms find_requirement_id[OF assms(2)] unfolding store_ok_def by blast
  moreover have "req_id r = rid" using calculation(1) find_requirement_id[OF assms(2)] by (simp add: stores_def)
  ultimately show thesis using that to_domain_stored by blast
qed

section \<open>Evidence\<close>

lemma reachable_version:
  "reachable r g \<Longrightarrow> g = Some (a, v) \<Longrightarrow> v \<le> req_state_version r \<and> (v = req_state_version r \<longrightarrow> req_status r = Ready)"
proof (induction rule: reachable.induct)
  case (reach_ready r g b r')
  then show ?case by (auto simp: mark_ready_ok_iff)
next
  case (reach_op r g op)
  show ?case
  proof (cases "run_op op r = r")
    case True
    then show ?thesis using reach_op by simp
  next
    case False
    then have "req_state_version r < req_state_version (run_op op r)" using run_op_cases[of op r] version_step_sv by blast
    then show ?thesis using reach_op by auto
  qed
qed simp

lemma current_evidence_filter:
  "filter (current_evidence rid revision version) (sv_assessments db)
     = filter (\<lambda>e. asr_requirement_revision e = revision \<and> asr_accepted_state_version e = Some version \<and> \<not> asr_generation_unknown e)
         (evidence_of rid db)"
  by (auto simp: evidence_of_def accepted_rows_def current_evidence_def intro!: filter_cong)

lemma filter_unique_last:
  assumes "sorted_wrt (<) (map f (xs @ [x]))" "p x" "\<And>y. p y \<Longrightarrow> f y = (f x :: int)"
  shows "filter p (xs @ [x]) = [x]"
proof -
  have "f y < f x" if "y \<in> set xs" for y using assms(1) that by (simp add: sorted_wrt_append)
  then have "\<not> p y" if "y \<in> set xs" for y using that assms(3) by (metis less_irrefl)
  then have "filter p xs = []" by (simp add: filter_empty_conv)
  then show ?thesis using assms(2) by simp
qed

lemma current_evidence_cases:
  assumes b: "backed tr (evidence_of rid db) r" and i: "req_id r = rid"
  shows "req_status r = Ready \<Longrightarrow> \<exists>e a. filter (current_evidence rid (uint (req_revision r)) (uint (req_state_version r))) (sv_assessments db) = [e]
      \<and> evidence_row e rid a (req_state_version r) \<and> rests_on r (a, req_state_version r)"
    and "req_status r \<noteq> Ready \<Longrightarrow> filter (current_evidence rid (uint (req_revision r)) (uint (req_state_version r))) (sv_assessments db) = []"
proof -
  let ?p = "\<lambda>e. asr_requirement_revision e = uint (req_revision r) \<and> asr_accepted_state_version e = Some (uint (req_state_version r))
    \<and> \<not> asr_generation_unknown e"
  obtain g where s: "sorted_wrt (<) (map version_of (evidence_of rid db))" and g: "reachable r g"
    "case g of None \<Rightarrow> evidence_of rid db = []
     | Some (a, v) \<Rightarrow> evidence_of rid db \<noteq> [] \<and> evidence_row (last (evidence_of rid db)) rid a v"
    using b i by (elim backedE) blast
  have pv: "?p y \<Longrightarrow> version_of y = uint (req_state_version r)" for y by (simp add: version_of_def)
  show "\<exists>e a. filter (current_evidence rid (uint (req_revision r)) (uint (req_state_version r))) (sv_assessments db) = [e]
      \<and> evidence_row e rid a (req_state_version r) \<and> rests_on r (a, req_state_version r)" if rd: "req_status r = Ready"
  proof -
    obtain av where av: "g = Some av" "rests_on r av" using ready_has_evidence[OF g(1) rd] by blast
    obtain a v where [simp]: "av = (a, v)" by (cases av)
    have v: "v = req_state_version r" using av(2) by (simp add: rests_on_def)
    obtain xs e where es: "evidence_of rid db = xs @ [e]" "evidence_row e rid a v"
      using g(2) av(1) by (cases "evidence_of rid db" rule: rev_cases) auto
    have "?p e" using es(2) av(2) v by (simp add: evidence_row_def rests_on_def)
    then have "filter ?p (xs @ [e]) = [e]"
      using s pv unfolding es(1) by (intro filter_unique_last[of version_of]) auto
    then show ?thesis using es av(2) v unfolding current_evidence_filter by auto
  qed
  show "filter (current_evidence rid (uint (req_revision r)) (uint (req_state_version r))) (sv_assessments db) = []"
    if nr: "req_status r \<noteq> Ready"
  proof (cases g)
    case None
    then show ?thesis using g(2) unfolding current_evidence_filter by simp
  next
    case (Some av)
    obtain a v where av: "av = (a, v)" by (cases av)
    obtain xs e where es: "evidence_of rid db = xs @ [e]" "evidence_row e rid a v"
      using g(2) Some av by (cases "evidence_of rid db" rule: rev_cases) auto
    have "v < req_state_version r" using reachable_version[OF g(1), of a v] Some av nr by (auto simp: order_le_less)
    then have "version_of e < uint (req_state_version r)"
      using es(2) by (simp add: evidence_row_def version_of_def word_less_def)
    then have "version_of y < uint (req_state_version r)" if "y \<in> set (xs @ [e])" for y
      using s that unfolding es(1) by (auto simp: sorted_wrt_append)
    then have "\<not> ?p y" if "y \<in> set (xs @ [e])" for y using that pv by (metis less_irrefl)
    then show ?thesis unfolding current_evidence_filter es(1) by (auto simp: filter_empty_conv)
  qed
qed

lemma review_packet_ready:
  assumes "find_requirement rid db = Some row" "stores r row" "req_status r = Ready"
    and "filter (current_evidence rid (uint (req_revision r)) (uint (req_state_version r))) (sv_assessments db) = [e]"
    and "evidence_row e rid a (req_state_version r)" "rests_on r (a, req_state_version r)"
  obtains p where "review_packet_for rid db = Inr p" "project_packet r (evidence (asr_id e) (a, req_state_version r)) = Inr p"
proof -
  obtain p where p: "project_packet r (evidence (asr_id e) (a, req_state_version r)) = Inr p"
    using assms(3,5,6) project_packet_Inr_iff by (metis evidence_row_def)
  obtain rec where rec: "assessment_into_record e = Inr rec" "ar_id rec = asr_id e" "ar_assessment rec = a"
    "ar_accepted_state_version rec = Some (req_state_version r)"
    using assms(5) unfolding evidence_row_def by blast
  have max: "i64_try x (req_revision r) = Inr (uint (req_revision r))" "i64_try x (req_state_version r) = Inr (uint (req_state_version r))" for x :: readiness_error
    using assms(2) by (simp_all add: stores_def)
  have "review_packet_for rid db = Inr p"
    using assms(1,3,4) p rec
    by (simp add: review_packet_for_def lock_requirement_def to_domain_stored[OF assms(2)] max newest_def evidence_def)
  then show thesis using that p by blast
qed

lemma find_replaced:
  "find (\<lambda>x. rw_id x = rid) rows = Some row \<Longrightarrow> rw_id row' = rid \<Longrightarrow> find (\<lambda>x. rw_id x = rid) (replaced row' rows) = Some row'"
  unfolding replaced_def by (induction rows) (auto split: if_splits)

section \<open>Properties\<close>

text \<open>C11. The transition audit is complete. In every history, the audit rows of a requirement form a path
  from \<open>Draft\<close> to its present status along edges of the lifecycle, with strictly ascending state
  versions up to the present one: no change of status goes unrecorded, and none is recorded that did not happen.\<close>

theorem audit_trail_complete:
  assumes "store_history env db" "find_requirement rid db = Some row"
  shows "\<exists>r. to_domain row = Inr r \<and> audit_path ''Draft'' (trail rid db) (persisted_status (req_status r))
    \<and> list_all audit_edge (trail rid db) \<and> sorted_wrt (<) (map au_state_version (trail rid db))
    \<and> (\<forall>a\<in>set (trail rid db). au_state_version a \<le> uint (req_state_version r))"
  using found_backed[OF store_history_ok[OF assms(1)] assms(2)] unfolding backed_def by metis

text \<open>C9. A review packet exists exactly for a requirement that is \<open>Ready\<close>. In every history, a stored
  requirement is a requirement of a domain history; while it is \<open>Ready\<close> exactly one accepted assessment
  is current, and the packet is the projection of the requirement with it; otherwise
  no assessment is current and the packet is refused.\<close>

theorem review_packet_iff_ready:
  assumes "store_history env db" "find_requirement rid db = Some row" "to_domain row = Inr r"
  shows "(\<exists>g. reachable r g)
    \<and> (if req_status r = Ready
       then \<exists>e a p. filter (current_evidence rid (uint (req_revision r)) (uint (req_state_version r))) (sv_assessments db) = [e]
          \<and> review_packet_for rid db = Inr p \<and> project_packet r (evidence (asr_id e) (a, req_state_version r)) = Inr p
          \<and> (\<exists>rec. assessment_into_record e = Inr rec \<and> ar_assessment rec = a)
       else filter (current_evidence rid (uint (req_revision r)) (uint (req_state_version r))) (sv_assessments db) = []
          \<and> review_packet_for rid db = Inl RdNotReady)"
proof -
  obtain r' where s: "stores r' row" "to_domain row = Inr r'" "req_id r' = rid" "backed (trail rid db) (evidence_of rid db) r'"
    using found_backed[OF store_history_ok[OF assms(1)] assms(2)] by blast
  then have [simp]: "r' = r" using assms(3) by simp
  have "\<exists>g. reachable r g" using s(4) unfolding backed_def by auto
  moreover note c = current_evidence_cases[OF s(4,3)]
  have "review_packet_for rid db = Inl RdNotReady" if "req_status r \<noteq> Ready"
    using that assms(2,3) by (simp add: review_packet_for_def lock_requirement_def)
  moreover have "\<exists>e a p. filter (current_evidence rid (uint (req_revision r)) (uint (req_state_version r))) (sv_assessments db) = [e]
          \<and> review_packet_for rid db = Inr p \<and> project_packet r (evidence (asr_id e) (a, req_state_version r)) = Inr p
          \<and> (\<exists>rec. assessment_into_record e = Inr rec \<and> ar_assessment rec = a)" if rd: "req_status r = Ready"
  proof -
    obtain e a where e: "filter (current_evidence rid (uint (req_revision r)) (uint (req_state_version r))) (sv_assessments db) = [e]"
      "evidence_row e rid a (req_state_version r)" "rests_on r (a, req_state_version r)" using c(1) rd by auto
    obtain p where "review_packet_for rid db = Inr p" "project_packet r (evidence (asr_id e) (a, req_state_version r)) = Inr p"
      using review_packet_ready[OF assms(2) _ rd e] s(1) by auto
    then show ?thesis using e(1,2) unfolding evidence_row_def by blast
  qed
  ultimately show ?thesis using c(2) by auto
qed

text \<open>C10. A review decision needs the current packet, and the first decision wins. In every history, when an
  acceptance, a rejection or a request for changes succeeds, its assessment identity and state version
  are those of the review packet of that moment, it is audited with both, the requirement has
  the new status, and whoever decides next with the same state version is refused without effect.\<close>

theorem decision_needs_current_packet:
  assumes "store_history env db" "t \<in> {TAccept, TReject, TRequestChanges}"
    and "transition_requirement_with_feedback env rid expected actor t feedback aid now db = (Inr rec, db')"
  shows "\<exists>p. review_packet_for rid db = Inr p \<and> aid = Some (rp_assessment_id p) \<and> expected = rp_requirement_state_version p
    \<and> rcd_status rec = snd (transition_edge t)
    \<and> (\<exists>v. trail rid db' = trail rid db @
        [\<lparr>au_requirement_id = rid, au_actor_id = actor, au_transition = transition_as_str t,
          au_from_status = ''Ready'', au_to_status = persisted_status (rcd_status rec),
          au_feedback = feedback, au_assessment_id = aid, au_state_version = v\<rparr>])
    \<and> (\<forall>actor' t' feedback' aid' now'.
         transition_requirement_with_feedback env rid expected actor' t' feedback' aid' now' db' = (Inl ReqConflict, db'))"
proof -
  have ok: "store_ok db" by (rule store_history_ok[OF assms(1)])
  obtain row' where tx: "transition_requirement_tx env rid expected actor t feedback aid now db = Inr (row', db')"
    and rec: "into_record row' = Inr rec"
    using assms(3) by (auto simp: transition_requirement_with_feedback_def run_tx_def split: sum.splits prod.splits)
  from store_ok_rows[OF ok] tx show ?thesis
  proof (rule transition_tx_Inr)
    fix r row r'
    assume found: "find_requirement (req_id r) db = Some row" and stored: "stores r row" and i: "req_id r = rid"
      and v: "req_state_version r = expected" and c: "check_packet t aid r db = Inr ()"
      and ap: "apply_transition t r = (Inr (), r')" and s': "stores r' row'"
      and db': "db' = db\<lparr>sv_requirements := replaced row' (sv_requirements db), sv_audit := sv_audit db @
       [\<lparr>au_requirement_id = rid, au_actor_id = actor, au_transition = transition_as_str t,
         au_from_status = persisted_status (req_status r), au_to_status = persisted_status (req_status r'),
         au_feedback = feedback, au_assessment_id = aid, au_state_version = uint (req_state_version r')\<rparr>]\<rparr>"
    have rd: "req_status r = Ready" and st: "req_status r' = snd (transition_edge t)" and sv: "req_state_version r' \<noteq> expected"
      and i': "req_id r' = rid"
      using ap assms(2) v i by (auto simp: apply_transition_eq transition_edge_def split: if_splits)
    have f: "find_requirement rid db = Some row" using found i by simp
    obtain q where "stores q row" "backed (trail rid db) (evidence_of rid db) q" using found_backed[OF ok f] by blast
    then have b: "backed (trail rid db) (evidence_of rid db) r" using stores_inject[OF stored] by blast
    obtain e a where e: "filter (current_evidence rid (uint (req_revision r)) (uint (req_state_version r))) (sv_assessments db) = [e]"
      "evidence_row e rid a (req_state_version r)" "rests_on r (a, req_state_version r)"
      using current_evidence_cases(1)[OF b i rd] by blast
    obtain p where p: "review_packet_for rid db = Inr p" "project_packet r (evidence (asr_id e) (a, req_state_version r)) = Inr p"
      using review_packet_ready[OF f stored rd e] by blast
    obtain j where j: "aid = Some j" "current_review_assessment rid (req_revision r) (req_state_version r) j db = Inr ()"
      using c assms(2) i by (auto simp: check_packet_def split: option.splits if_splits)
    then obtain x where "x \<in> set (sv_assessments db)" "asr_id x = j"
      "current_evidence rid (uint (req_revision r)) (uint (req_state_version r)) x"
      by (auto simp: current_review_assessment_def and_then_Inr_iff list_ex_iff current_evidence_def split: if_splits)
    then have "x \<in> set [e]" unfolding e(1)[symmetric] by simp
    then have je: "j = asr_id e" using \<open>asr_id x = j\<close> by simp
    have packet: "rp_assessment_id p = asr_id e" "rp_requirement_state_version p = expected"
      using p(2) v by (auto simp: project_packet_def evidence_def Let_def split: if_splits)
    have rs: "rcd_status rec = snd (transition_edge t)" using rec into_record_stored[OF s'] st by (auto simp: record_of_def)
    have t': "trail rid db' = trail rid db @
        [\<lparr>au_requirement_id = rid, au_actor_id = actor, au_transition = transition_as_str t,
          au_from_status = ''Ready'', au_to_status = persisted_status (rcd_status rec),
          au_feedback = feedback, au_assessment_id = aid, au_state_version = uint (req_state_version r')\<rparr>]"
      using rd rs st by (simp add: db' trail_def persisted_status_def)
    have "find_requirement rid db' = Some row'"
      using f s' i' unfolding find_requirement_def db' by (simp add: find_replaced stores_def)
    then have "transition_requirement_with_feedback env rid expected actor' t' feedback' aid' now' db' = (Inl ReqConflict, db')"
      for actor' t' feedback' aid' now'
      using to_domain_stored[OF s'] sv
      by (simp add: transition_requirement_with_feedback_def run_tx_def transition_requirement_tx_def lock_requirement_def)
    then show ?thesis using p(1) packet j(1) je rs t' by (intro exI[of _ p] conjI) auto
  qed
qed

section \<open>Assessment events\<close>

lemma absorb_sparse_ge: "absorb_sparse n sparse = (through, sparse') \<Longrightarrow> n \<le> i64_max \<Longrightarrow> n \<le> through"
proof (induction n sparse rule: absorb_sparse.induct)
  case (1 n sparse)
  show ?case
  proof (cases "i64_sat_inc n \<in> set sparse")
    case True
    then have "absorb_sparse (i64_sat_inc n) (remove1 (i64_sat_inc n) sparse) = (through, sparse')"
      using "1.prems"(1) by (simp add: absorb_sparse.simps[of n] Let_def)
    moreover have "n \<le> i64_sat_inc n" "i64_sat_inc n \<le> i64_max" using "1.prems"(2) by (auto simp: i64_sat_inc_def)
    ultimately show ?thesis using "1.IH"[OF refl True] by linarith
  next
    case False
    then show ?thesis using "1.prems"(1) by (simp add: absorb_sparse.simps[of n] Let_def)
  qed
qed

text \<open>What is known of an event after its assessment has been settled.\<close>

definition handled :: "assessment_event \<Rightarrow> string \<Rightarrow> readiness_assessment \<Rightarrow> string \<Rightarrow> readiness_assessment_record \<Rightarrow> server_db \<Rightarrow> bool" where
  "handled ev rid a digest rec db \<longleftrightarrow>
     (\<exists>x. readiness_event_by_id (ae_event_id ev) db = Some x \<and> ev_session_id x = ae_session_id ev
          \<and> ev_daemon_event_seq x = uint (ae_daemon_event_seq ev) \<and> ev_payload_digest x = digest)
     \<and> (\<exists>row. assessment_by_event (ae_event_id ev) db = Some row \<and> assessment_into_record row = Inr rec)
     \<and> ar_session_id rec = ae_session_id ev \<and> ar_daemon_event_seq rec = ae_daemon_event_seq ev
     \<and> ar_event_requirement_id rec = rid \<and> ar_assessment rec = a
     \<and> (\<exists>session. map_of (sv_sessions db) (ae_session_id ev) = Some session \<and> es_requirement_id session = Some rid
          \<and> uint (ae_daemon_event_seq ev) \<le> es_event_ack_through_seq session)"

lemma finished_event:
  assumes "insert_event_dedupe ev seq digest out reason db = Inr db1"
    and "advance_session_watermark (ae_session_id ev) seq (on_session (ae_session_id ev) g db1) = Inr db'"
    and "map_of (sv_sessions db) (ae_session_id ev) = Some session" "seq \<le> i64_max" "es_event_ack_through_seq session \<le> i64_max"
    and g: "\<And>x. es_requirement_id (g x) = es_requirement_id x" "\<And>x. es_event_ack_through_seq (g x) = es_event_ack_through_seq x"
  shows "\<exists>x. readiness_event_by_id (ae_event_id ev) db' = Some x \<and> ev_session_id x = ae_session_id ev
      \<and> ev_daemon_event_seq x = seq \<and> ev_payload_digest x = digest"
    and "\<exists>s'. map_of (sv_sessions db') (ae_session_id ev) = Some s' \<and> es_requirement_id s' = es_requirement_id session
      \<and> seq \<le> es_event_ack_through_seq s'"
    and "sv_assessments db' = sv_assessments db"
proof -
  define x where "x = \<lparr>ev_event_id = ae_event_id ev, ev_session_id = ae_session_id ev, ev_daemon_event_seq = seq,
               ev_payload_digest = digest, ev_payload = digest, ev_outcome = assessment_outcome_as_str out,
               ev_rejection_reason = reason\<rparr>"
  have new: "\<not> list_ex (\<lambda>r. ev_event_id r = ae_event_id ev) (sv_events db)" and db1: "db1 = db\<lparr>sv_events := sv_events db @ [x]\<rparr>"
    using assms(1) by (auto simp: insert_event_dedupe_def x_def list_ex_iff split: if_splits)
  let ?c = "g session"
  obtain through sparse where ab: "absorb_sparse (max (es_event_ack_through_seq ?c) seq) (es_event_ack_sparse ?c) = (through, sparse)"
    by (cases "absorb_sparse (max (es_event_ack_through_seq ?c) seq) (es_event_ack_sparse ?c)")
  have m: "map_of (sv_sessions (on_session (ae_session_id ev) g db1)) (ae_session_id ev) = Some ?c"
    using assms(3) by (simp add: map_of_on_session db1)
  have db': "db' = on_session (ae_session_id ev) (\<lambda>x. x\<lparr>es_event_ack_through_seq := through,
      es_event_ack_sparse := filter (\<lambda>v. through < v) sparse\<rparr>) (on_session (ae_session_id ev) g db1)"
    using assms(2) m ab by (simp add: advance_session_watermark_def)
  have ev': "sv_events db' = sv_events db @ [x]" "sv_assessments db' = sv_assessments db" by (simp_all add: db' on_session_def db1)
  then show "\<exists>x. readiness_event_by_id (ae_event_id ev) db' = Some x \<and> ev_session_id x = ae_session_id ev
      \<and> ev_daemon_event_seq x = seq \<and> ev_payload_digest x = digest" "sv_assessments db' = sv_assessments db"
    using find_snoc_new[OF new, of x] by (simp_all add: readiness_event_by_id_def x_def)
  have "seq \<le> through" using absorb_sparse_ge[OF ab] assms(4,5) g(2) by simp
  then show "\<exists>s'. map_of (sv_sessions db') (ae_session_id ev) = Some s' \<and> es_requirement_id s' = es_requirement_id session
      \<and> seq \<le> es_event_ack_through_seq s'"
    using assms(3) by (simp add: db' map_of_on_session g(1) db1)
qed

lemma promote_other_tables:
  "promote_requirement env r expected event_id aid now db = Inr db'
   \<Longrightarrow> sv_events db' = sv_events db \<and> sv_sessions db' = sv_sessions db \<and> sv_assessments db' = sv_assessments db"
  by (auto simp: promote_requirement_def update_requirement_def insert_audit_def and_then_Inr_iff map_err_Inr_iff Let_def
      split: option.splits if_splits)

lemma on_session_id: "on_session s id db = db"
proof -
  have "map (\<lambda>(k, x). if k = s then (k, id x) else (k, x)) xs = xs" for xs :: "(string \<times> execution_session) list"
    by (induction xs) auto
  then show ?thesis by (simp add: on_session_def)
qed

lemma settled_handled:
  assumes input: "assessment_input_ok ev digest a" and seq: "seq = uint (ae_daemon_event_seq ev)" "seq \<le> i64_max"
    and session: "map_of (sv_sessions db) (ae_session_id ev) = Some session" "es_requirement_id session = Some rid"
      "es_event_ack_through_seq session \<le> i64_max"
    and new: "assessment_by_event (ae_event_id ev) db = None"
    and tx: "settle_assessment env rnd now ev seq rid a digest session db = Inr (row, db')"
  obtains rec where "assessment_into_record row = Inr rec" "handled ev rid a digest rec db'"
proof -
  note result = that
  have fresh: "\<not> list_ex (\<lambda>x. asr_event_id x = ae_event_id ev) (sv_assessments db)"
    using new by (auto simp: assessment_by_event_def find_None_iff list_ex_iff)
  have main: thesis
    if ins: "insert_assessment rnd now i db = Inr (row, db1)" and ai: "ai_event i = ev" "ai_assessment i = a" "ai_event_requirement_id i = rid"
      and keep: "sv_events db2 = sv_events db1" "sv_sessions db2 = sv_sessions db1" "sv_assessments db2 = sv_assessments db1"
      and ded: "insert_event_dedupe ev seq digest out reason db2 = Inr db3"
      and adv: "advance_session_watermark (ae_session_id ev) seq (on_session (ae_session_id ev) g db3) = Inr db'"
      and g: "\<And>x. es_requirement_id (g x) = es_requirement_id x" "\<And>x. es_event_ack_through_seq (g x) = es_event_ack_through_seq x"
    for i db1 db2 db3 out reason g
  proof -
    note r = insert_assessment_Inr[OF ins, of ev digest, unfolded ai, OF input]
    have "map_of (sv_sessions db2) (ae_session_id ev) = Some session" using keep(2) r(1) session(1) by simp
    note f = finished_event[OF ded adv this seq(2) session(3) g]
    have "assessment_by_event (ae_event_id ev) db' = Some row"
      using f(3) keep(3) r(1) find_snoc_new[OF fresh, of row] r(5) by (simp add: assessment_by_event_def)
    then show thesis
      using result[OF r(7)] f(1,2) r(7) session(2) seq(1) unfolding handled_def by auto
  qed
  show thesis
  proof (cases "find_requirement rid db")
    case None
    then obtain db1 db2 where "insert_assessment rnd now
      \<lparr>ai_event = ev, ai_event_requirement_id = rid, ai_requirement_id = None, ai_assessment = a,
       ai_outcome = OutcomeRejected, ai_accepted_state_version = None,
       ai_rejection_reason = Some ''requirement_not_found''\<rparr> db = Inr (row, db1)"
      and "insert_event_dedupe ev seq digest OutcomeRejected (Some ''requirement_not_found'') db1 = Inr db2"
      and "advance_session_watermark (ae_session_id ev) seq db2 = Inr db'"
      using tx by (auto simp: settle_assessment_def lock_requirement_def finish_event_def and_then_Inr_iff)
    then show ?thesis using main[of _ db1 db1 _ _ db2 id] by (simp add: on_session_id)
  next
    case (Some locked)
    obtain r where dom: "to_domain locked = Inr r"
      using tx Some by (auto simp: settle_assessment_def lock_requirement_def and_then_Inr_iff map_err_Inr_iff)
    obtain out reason r' where j: "judge_assessment session a r db = (out, reason, r')" by (metis prod.collapse)
    obtain db1 db2 db3 where "insert_assessment rnd now
         \<lparr>ai_event = ev, ai_event_requirement_id = rid, ai_requirement_id = Some rid, ai_assessment = a,
          ai_outcome = out, ai_accepted_state_version = (if out = OutcomeAccepted then Some (req_state_version r') else None),
          ai_rejection_reason = reason\<rparr> db = Inr (row, db1)"
      and pr: "(if out = OutcomeAccepted
                then promote_requirement env r' (req_state_version r) (ae_event_id ev) (asr_id row) now db1
                else Inr db1) = Inr db2"
      and "insert_event_dedupe ev seq digest out reason db2 = Inr db3"
      and "advance_session_watermark (ae_session_id ev) seq
              (on_session (ae_session_id ev) (\<lambda>s. s\<lparr>es_updated_at := now, es_last_activity_at := now\<rparr>) db3) = Inr db'"
      using tx Some dom j by (auto simp: settle_assessment_def lock_requirement_def and_then_Inr_iff)
    moreover have "sv_events db2 = sv_events db1 \<and> sv_sessions db2 = sv_sessions db1 \<and> sv_assessments db2 = sv_assessments db1"
      using pr promote_other_tables by (auto split: if_splits)
    ultimately show ?thesis using main by force
  qed
qed

lemma handled_duplicate:
  assumes "handled ev rid a digest rec db" "assessment_input_ok ev digest a" "uint (ae_daemon_event_seq ev) \<le> i64_max"
  shows "record_assessment_tx env rnd now ev rid a digest db = Inr (Inl rec, db)"
  using assms unfolding handled_def
  by (auto simp: record_assessment_tx_def i64_try_def same_assessment_content_def)

lemma handled_conflict:
  assumes h: "handled ev rid a digest rec db" and same: "ae_event_id ev' = ae_event_id ev"
    and diff: "ae_session_id ev' \<noteq> ae_session_id ev \<or> ae_daemon_event_seq ev' \<noteq> ae_daemon_event_seq ev \<or> rid' \<noteq> rid
      \<or> (digest' \<noteq> digest \<and> ae_event_id ev \<notin> set (sv_legacy_events db)) \<or> \<not> same_assessment_content a a'"
  shows "\<exists>e. record_assessment_tx env rnd now ev' rid' a' digest' db = Inl e"
proof (rule ccontr)
  assume "\<nexists>e. record_assessment_tx env rnd now ev' rid' a' digest' db = Inl e"
  then obtain v db' where tx: "record_assessment_tx env rnd now ev' rid' a' digest' db = Inr (v, db')"
    by (metis old.sum.exhaust surj_pair)
  obtain x row where x: "readiness_event_by_id (ae_event_id ev) db = Some x" "ev_session_id x = ae_session_id ev"
      "ev_daemon_event_seq x = uint (ae_daemon_event_seq ev)" "ev_payload_digest x = digest"
    and row: "assessment_by_event (ae_event_id ev) db = Some row" "assessment_into_record row = Inr rec"
    and rec: "ar_session_id rec = ae_session_id ev" "ar_daemon_event_seq rec = ae_daemon_event_seq ev"
      "ar_event_requirement_id rec = rid" "ar_assessment rec = a"
    using h unfolding handled_def by blast
  show False
    using tx diff x row rec same
    by (auto simp: record_assessment_tx_def and_then_Inr_iff split: if_splits option.splits)
qed

text \<open>C12. An assessment event is taken once. When an assessment has been recorded, the session's watermark
  covers its event; delivering it again, at any time and with any fresh identities, returns the
  same record as a duplicate and changes nothing; and the event identity cannot be used again for another session,
  sequence number, requirement, payload or content.\<close>

theorem assessment_taken_once:
  assumes "record_readiness_assessment_with_event_digest env rnd now ev rid a digest db = (Inr result, db')"
    and "\<not> rar_duplicate result" "list_all (\<lambda>(_, s). es_event_ack_through_seq s \<le> i64_max) (sv_sessions db)"
  shows "(\<exists>s. map_of (sv_sessions db') (ae_session_id ev) = Some s \<and> uint (ae_daemon_event_seq ev) \<le> es_event_ack_through_seq s)
    \<and> record_readiness_assessment_with_event_digest env' rnd' now' ev rid a digest db'
        = (Inr (result\<lparr>rar_duplicate := True\<rparr>), db')
    \<and> (ae_event_id ev' = ae_event_id ev
        \<and> (ae_session_id ev' \<noteq> ae_session_id ev \<or> ae_daemon_event_seq ev' \<noteq> ae_daemon_event_seq ev \<or> rid' \<noteq> rid
           \<or> (digest' \<noteq> digest \<and> ae_event_id ev \<notin> set (sv_legacy_events db')) \<or> \<not> same_assessment_content a a')
       \<longrightarrow> (\<exists>e. record_readiness_assessment_with_event_digest env' rnd' now' ev' rid' a' digest' db' = (Inl e, db')))"
proof -
  obtain v where tx: "record_assessment_tx env rnd now ev rid a digest db = Inr (v, db')" and res: "assessment_result v = Inr result"
    using assms(1) by (auto simp: record_readiness_assessment_with_event_digest_def run_tx_def split: sum.splits prod.splits)
  obtain row where v: "v = Inr row" using res assms(2) by (cases v) (auto simp: assessment_result_def)
  have input: "assessment_input_ok ev digest a" and seq: "uint (ae_daemon_event_seq ev) \<le> i64_max"
    using tx by (auto simp: record_assessment_tx_def and_then_Inr_iff split: if_splits)
  obtain session where s: "map_of (sv_sessions db) (ae_session_id ev) = Some session" "es_requirement_id session = Some rid"
    and new: "assessment_by_event (ae_event_id ev) db = None"
    and settle: "settle_assessment env rnd now ev (uint (ae_daemon_event_seq ev)) rid a digest session db = Inr (row, db')"
    using tx v by (auto simp: record_assessment_tx_def and_then_Inr_iff map_sum_Inr_iff split: if_splits option.splits)
  have "es_event_ack_through_seq session \<le> i64_max" using assms(3) map_of_SomeD[OF s(1)] by (auto simp: list_all_iff)
  then obtain rec where rec: "assessment_into_record row = Inr rec" and h: "handled ev rid a digest rec db'"
    using settled_handled[OF input refl seq s _ new settle] by blast
  have result: "result = \<lparr>rar_record = rec, rar_duplicate = False\<rparr>" using res v rec by (simp add: assessment_result_def)
  have "record_readiness_assessment_with_event_digest env' rnd' now' ev rid a digest db' = (Inr (result\<lparr>rar_duplicate := True\<rparr>), db')"
    using handled_duplicate[OF h input seq] result
    by (simp add: record_readiness_assessment_with_event_digest_def run_tx_def assessment_result_def)
  moreover have "\<exists>e. record_readiness_assessment_with_event_digest env' rnd' now' ev' rid' a' digest' db' = (Inl e, db')"
    if "ae_event_id ev' = ae_event_id ev" "ae_session_id ev' \<noteq> ae_session_id ev \<or> ae_daemon_event_seq ev' \<noteq> ae_daemon_event_seq ev
      \<or> rid' \<noteq> rid \<or> (digest' \<noteq> digest \<and> ae_event_id ev \<notin> set (sv_legacy_events db')) \<or> \<not> same_assessment_content a a'"
    using handled_conflict[OF h that, where env = env' and rnd = rnd' and now = now']
    by (auto simp: record_readiness_assessment_with_event_digest_def run_tx_def)
  ultimately show ?thesis using h unfolding handled_def by auto
qed

section \<open>A sample history\<close>

definition open_env :: store_env where
  "open_env = \<lparr>st_row_ok = (\<lambda>_. True), st_feedback_ok = (\<lambda>_. True), st_ilike = (\<lambda>_ _. True)\<rparr>"

definition sample_rid :: string where
  "sample_rid = random_hex 16 (\<lambda>_. 0)"

definition sample_session :: execution_session where
  "sample_session = \<lparr>es_daemon_id = Some ''d1'', es_requirement_id = Some sample_rid, es_state = ''Running'',
     es_start_message_id = None, es_start_context = None, es_start_command_id = None, es_cancel_command_id = None,
     es_cancel_requested = False, es_runtime_id = None, es_terminal_summary = None, es_failure_class = None,
     es_failure_reason = None, es_attempt_count = 0, es_max_attempts = 3, es_next_retry_at = None,
     es_current_attempt_id = None, es_command_ack_through_seq = 0, es_event_ack_through_seq = 0, es_event_ack_sparse = [],
     es_repository_ids = [], es_repository_context_initialized = False, es_started_at = None, es_created_at = 0, es_updated_at = 0, es_last_activity_at = 0\<rparr>"

definition store_db0 :: server_db where
  "store_db0 = \<lparr>sv_requirements = [], sv_conversations = [], sv_audit = [], sv_assessments = [],
     sv_sessions = [(''s1'', sample_session)], sv_events = [], sv_legacy_events = [], sv_repositories = [],
     sv_attempts = [], sv_outbox = [], sv_tombstones = [], sv_messages = [], sv_message_map = [], sv_activities = [],
     sv_daemons = []\<rparr>"

definition assessment_event1 :: assessment_event where
  "assessment_event1 = \<lparr>ae_event_id = ''e1'', ae_session_id = ''s1'', ae_daemon_event_seq = 1\<rparr>"

definition store_db1 :: server_db where
  "store_db1 = snd (create_requirement open_env (\<lambda>_. 0) (\<lambda>_. 1) ''Login page'' ''Email-code login.'' ''u1'' 1 store_db0)"

definition store_db2 :: server_db where
  "store_db2 = snd (transition_requirement_with_feedback open_env sample_rid 1 ''u1'' TBeginDiscussion None None 2 store_db1)"

definition store_db3 :: server_db where
  "store_db3 = snd (edit_requirement_with_actor open_env sample_rid 2 ''u1'' sample_edit 3 store_db2)"

definition store_db4 :: server_db where
  "store_db4 = snd (record_readiness_assessment_with_event_digest open_env (\<lambda>_. 2) 4 assessment_event1 sample_rid sample_assessment ''d1'' store_db3)"

definition store_db5 :: server_db where
  "store_db5 = snd (transition_requirement_with_feedback open_env sample_rid 4 ''u2'' TAccept None (Some (random_hex 16 (\<lambda>_. 2))) 5 store_db4)"

lemma store_db0_history: "store_history open_env store_db0"
  by (rule hist_start) (simp_all add: store_db0_def)

lemma store_db3_history: "store_history open_env store_db3"
proof -
  have "store_history open_env store_db1"
    unfolding store_db1_def by (rule hist_create[OF store_db0_history surjective_pairing])
  then have "store_history open_env store_db2"
    unfolding store_db2_def by (rule hist_transition[OF _ surjective_pairing])
  then show ?thesis unfolding store_db3_def by (rule hist_edit[OF _ surjective_pairing])
qed

lemma store_db4_history: "store_history open_env store_db4"
  unfolding store_db4_def by (rule hist_assess[OF store_db3_history surjective_pairing])

lemma sample_recorded:
  "\<exists>result. record_readiness_assessment_with_event_digest open_env (\<lambda>_. 2) 4 assessment_event1 sample_rid sample_assessment ''d1'' store_db3
     = (Inr result, store_db4) \<and> \<not> rar_duplicate result"
proof -
  have "case fst (record_readiness_assessment_with_event_digest open_env (\<lambda>_. 2) 4 assessment_event1 sample_rid sample_assessment ''d1'' store_db3)
     of Inl _ \<Rightarrow> False | Inr result \<Rightarrow> \<not> rar_duplicate result"
    by code_simp
  then show ?thesis
    unfolding store_db4_def
    by (cases "record_readiness_assessment_with_event_digest open_env (\<lambda>_. 2) 4 assessment_event1 sample_rid sample_assessment ''d1'' store_db3")
      (auto split: sum.splits)
qed

lemma sample_row4: "\<exists>row r. find_requirement sample_rid store_db4 = Some row \<and> to_domain row = Inr r \<and> req_status r = Ready"
proof -
  have "case find_requirement sample_rid store_db4 of None \<Rightarrow> False
    | Some row \<Rightarrow> (case to_domain row of Inl _ \<Rightarrow> False | Inr r \<Rightarrow> req_status r = Ready)" by code_simp
  then show ?thesis by (auto split: option.splits sum.splits)
qed

theorem audit_trail_complete_witness:
  "\<exists>row r. find_requirement sample_rid store_db4 = Some row \<and> to_domain row = Inr r
     \<and> audit_path ''Draft'' (trail sample_rid store_db4) (persisted_status (req_status r)) \<and> length (trail sample_rid store_db4) = 2"
proof -
  obtain row where f: "find_requirement sample_rid store_db4 = Some row" using sample_row4 by blast
  have "length (trail sample_rid store_db4) = 2" by code_simp
  then show ?thesis using audit_trail_complete[OF store_db4_history f] f by blast
qed

theorem review_packet_iff_ready_witness:
  "(\<exists>p. review_packet_for sample_rid store_db4 = Inr p) \<and> review_packet_for sample_rid store_db3 = Inl RdNotReady"
proof -
  obtain row r where f: "find_requirement sample_rid store_db4 = Some row" "to_domain row = Inr r" "req_status r = Ready"
    using sample_row4 by blast
  have "case find_requirement sample_rid store_db3 of None \<Rightarrow> False
    | Some row \<Rightarrow> (case to_domain row of Inl _ \<Rightarrow> False | Inr r \<Rightarrow> req_status r = Discussing)" by code_simp
  then obtain row' r' where f': "find_requirement sample_rid store_db3 = Some row'" "to_domain row' = Inr r'" "req_status r' = Discussing"
    by (auto split: option.splits sum.splits)
  show ?thesis
    using review_packet_iff_ready[OF store_db4_history f(1,2)] f(3)
      review_packet_iff_ready[OF store_db3_history f'(1,2)] f'(3) by auto
qed

theorem decision_needs_current_packet_witness:
  "\<exists>p. review_packet_for sample_rid store_db4 = Inr p \<and> rp_requirement_state_version p = 4
     \<and> transition_requirement_with_feedback open_env sample_rid 4 ''u3'' TReject None (Some (rp_assessment_id p)) 6 store_db5
         = (Inl ReqConflict, store_db5)"
proof -
  have "case fst (transition_requirement_with_feedback open_env sample_rid 4 ''u2'' TAccept None (Some (random_hex 16 (\<lambda>_. 2))) 5 store_db4)
    of Inl _ \<Rightarrow> False | Inr _ \<Rightarrow> True" by code_simp
  then obtain rec where t: "transition_requirement_with_feedback open_env sample_rid 4 ''u2'' TAccept None
      (Some (random_hex 16 (\<lambda>_. 2))) 5 store_db4 = (Inr rec, store_db5)"
    unfolding store_db5_def by (metis (no_types, lifting) prod.collapse sum.case(1) sum.exhaust_sel)
  show ?thesis using decision_needs_current_packet[OF store_db4_history _ t] by auto
qed

theorem assessment_taken_once_witness:
  "\<exists>result. record_readiness_assessment_with_event_digest open_env (\<lambda>_. 9) 10 assessment_event1 sample_rid sample_assessment ''d1'' store_db4
      = (Inr result, store_db4) \<and> rar_duplicate result"
proof -
  obtain result where r: "record_readiness_assessment_with_event_digest open_env (\<lambda>_. 2) 4 assessment_event1 sample_rid
      sample_assessment ''d1'' store_db3 = (Inr result, store_db4)" "\<not> rar_duplicate result"
    using sample_recorded by blast
  have "list_all (\<lambda>(_, s). es_event_ack_through_seq s \<le> i64_max) (sv_sessions store_db3)" by code_simp
  from assessment_taken_once[OF r this, of open_env "\<lambda>_. 9" 10]
  show ?thesis by (intro exI[of _ "result\<lparr>rar_duplicate := True\<rparr>"]) simp
qed

end
