(* ===== verification/Clarification_Runs.thy ===== *)
theory Clarification_Runs
  imports Review_History
begin

text \<open>
  Clarification runs as a state machine. \<open>run_step\<close> is what a transaction does to one run: its session
  and its attempts. \<open>run_ok\<close> is its invariant: attempts are numbered without gaps, only the last may be open
  and then it is the current one, and the states fit. \<open>table_step\<close> lifts a step to the tables; the locale
  \<open>run_operation\<close> is the contract of the transactions.
\<close>

section \<open>Steps of a run\<close>

definition same_run :: "execution_session \<Rightarrow> execution_session \<Rightarrow> bool" where
  "same_run s s' \<longleftrightarrow>
     es_state s' = es_state s \<and> es_daemon_id s' = es_daemon_id s \<and> es_current_attempt_id s' = es_current_attempt_id s
     \<and> es_attempt_count s' = es_attempt_count s \<and> es_max_attempts s' = es_max_attempts s
     \<and> es_cancel_requested s' = es_cancel_requested s \<and> es_next_retry_at s' = es_next_retry_at s
     \<and> es_requirement_id s' = es_requirement_id s \<and> es_start_message_id s' = es_start_message_id s"

definition opened :: "attempt_row \<Rightarrow> bool" where
  "opened a \<longleftrightarrow> at_outcome a = None"

definition closes :: "(attempt_row \<Rightarrow> attempt_row) \<Rightarrow> bool" where
  "closes g \<longleftrightarrow> (\<forall>a. at_outcome (g a) \<noteq> None \<and> at_id (g a) = at_id a \<and> at_session_id (g a) = at_session_id a
     \<and> at_attempt_number (g a) = at_attempt_number a \<and> at_command_id (g a) = at_command_id a)"

inductive run_step :: "execution_session \<Rightarrow> attempt_row list \<Rightarrow> execution_session \<Rightarrow> attempt_row list \<Rightarrow> bool" where
  run_keep: "same_run s s' \<Longrightarrow> run_step s as s' as"
| run_assign: "\<lbrakk>es_state s = ''Idle''; es_daemon_id s = None; \<not> es_cancel_requested s; opened a; at_attempt_number a = 1;
     same_run (s\<lparr>es_daemon_id := Some d, es_attempt_count := 1, es_current_attempt_id := Some (at_id a)\<rparr>) s'\<rbrakk>
    \<Longrightarrow> run_step s as s' (as @ [a])"
| run_started: "\<lbrakk>\<not> is_terminal (es_state s); es_daemon_id s \<noteq> None; es_current_attempt_id s \<noteq> None;
     same_run (s\<lparr>es_state := ''Running'', es_next_retry_at := None\<rparr>) s'\<rbrakk>
    \<Longrightarrow> run_step s as s' as"
| run_closed: "\<lbrakk>\<not> is_terminal (es_state s); es_daemon_id s \<noteq> None; es_current_attempt_id s = Some c; closes g;
     is_terminal st \<and> retry = None
       \<or> st = ''Retrying'' \<and> retry \<noteq> None \<and> \<not> es_cancel_requested s \<and> es_attempt_count s < es_max_attempts s;
     same_run (s\<lparr>es_state := st, es_current_attempt_id := None, es_next_retry_at := retry\<rparr>) s'\<rbrakk>
    \<Longrightarrow> run_step s as s' (map (\<lambda>a. if at_id a = c \<and> opened a then g a else a) as)"
| run_cancelled: "\<lbrakk>\<not> is_terminal (es_state s); same_run (cancelled_session now s) s'\<rbrakk> \<Longrightarrow> run_step s as s' as"
| run_expired: "\<lbrakk>es_state s = ''Retrying'';
     same_run (s\<lparr>es_state := ''Failed'', es_next_retry_at := None, es_current_attempt_id := None\<rparr>) s'\<rbrakk>
    \<Longrightarrow> run_step s as s' as"
| run_resumed: "\<lbrakk>es_state s = ''Retrying''; es_daemon_id s \<noteq> None; \<not> es_cancel_requested s; es_attempt_count s < es_max_attempts s;
     opened a; at_attempt_number a = es_attempt_count s + 1;
     same_run (s\<lparr>es_state := ''Running'', es_attempt_count := es_attempt_count s + 1, es_current_attempt_id := Some (at_id a),
       es_next_retry_at := None\<rparr>) s'\<rbrakk>
    \<Longrightarrow> run_step s as s' (as @ [a])"

definition current_ok :: "string option \<Rightarrow> attempt_row list \<Rightarrow> bool" where
  "current_ok current as \<longleftrightarrow>
     (case current of
        None \<Rightarrow> list_all (\<lambda>a. \<not> opened a) as
      | Some c \<Rightarrow> as \<noteq> [] \<and> at_id (last as) = c \<and> opened (last as) \<and> list_all (\<lambda>a. \<not> opened a) (butlast as))"

definition numbered :: "attempt_row list \<Rightarrow> bool" where
  "numbered as \<longleftrightarrow> map at_attempt_number as = map int [1..<Suc (length as)]"

definition run_ok :: "execution_session \<Rightarrow> attempt_row list \<Rightarrow> bool" where
  "run_ok s as \<longleftrightarrow>
     es_requirement_id s \<noteq> None \<and> es_start_message_id s \<noteq> None
     \<and> numbered as \<and> es_attempt_count s = int (length as)
     \<and> es_max_attempts s = DEFAULT_MAX_ATTEMPTS \<and> es_attempt_count s \<le> es_max_attempts s
     \<and> current_ok (es_current_attempt_id s) as
     \<and> es_state s \<in> {''Idle'', ''Running'', ''Retrying'', ''Completed'', ''Failed''}
     \<and> (es_daemon_id s = None \<longrightarrow> as = [] \<and> es_current_attempt_id s = None \<and> es_state s \<in> {''Idle'', ''Failed''})
     \<and> (es_daemon_id s \<noteq> None \<and> es_state s \<in> {''Idle'', ''Running''} \<longrightarrow> es_current_attempt_id s \<noteq> None)
     \<and> (es_state s = ''Retrying'' \<longrightarrow> es_current_attempt_id s = None \<and> es_next_retry_at s \<noteq> None \<and> \<not> es_cancel_requested s
          \<and> es_attempt_count s < es_max_attempts s)
     \<and> (is_terminal (es_state s) \<longrightarrow> es_current_attempt_id s = None)"

lemma is_terminal_cases: "is_terminal st \<Longrightarrow> (st = ''Completed'' \<Longrightarrow> P) \<Longrightarrow> (st = ''Failed'' \<Longrightarrow> P) \<Longrightarrow> P"
  by (auto simp: is_terminal_def)

lemma run_ok_cong: "same_run s s' \<Longrightarrow> run_ok s' as \<longleftrightarrow> run_ok s as"
  by (simp add: same_run_def run_ok_def)

lemma current_ok_snoc: "current_ok None as \<Longrightarrow> opened a \<Longrightarrow> current_ok (Some (at_id a)) (as @ [a])"
  by (simp add: current_ok_def)

lemma numbered_Nil [simp]: "numbered []"
  by (simp add: numbered_def)

lemma numbered_snoc: "numbered as \<Longrightarrow> at_attempt_number a = int (length as) + 1 \<Longrightarrow> numbered (as @ [a])"
  by (simp add: numbered_def)

lemma closed_attempts:
  assumes "current_ok (Some c) as" "closes g"
  defines "as' \<equiv> map (\<lambda>a. if at_id a = c \<and> opened a then g a else a) as"
  shows "current_ok None as'" "numbered as' = numbered as" "map at_id as' = map at_id as"
    "map at_command_id as' = map at_command_id as" "butlast as' = butlast as"
proof -
  obtain bs a where as: "as = bs @ [a]" "at_id a = c" "opened a" "list_all (\<lambda>a. \<not> opened a) bs"
    using assms(1) by (cases as rule: rev_cases) (auto simp: current_ok_def)
  have "map (\<lambda>a. if at_id a = c \<and> opened a then g a else a) bs = bs"
    using as(4) by (intro map_idI) (auto simp: list_all_iff)
  then have as': "as' = bs @ [g a]" using as by (simp add: as'_def)
  show "current_ok None as'" using as(4) assms(2) by (simp add: as' current_ok_def opened_def closes_def)
  show "numbered as' = numbered as" "map at_id as' = map at_id as"
    "map at_command_id as' = map at_command_id as" "butlast as' = butlast as"
    using assms(2) by (simp_all add: as' as(1) closes_def numbered_def)
qed

lemma closed_run_ok:
  assumes "run_ok s as" "es_daemon_id s \<noteq> None"
    "is_terminal st \<and> retry = None
     \<or> st = ''Retrying'' \<and> retry \<noteq> None \<and> \<not> es_cancel_requested s \<and> es_attempt_count s < es_max_attempts s"
    "length as' = length as" "current_ok None as'" "numbered as' = numbered as"
  shows "run_ok (s\<lparr>es_state := st, es_current_attempt_id := None, es_next_retry_at := retry\<rparr>) as'"
proof -
  obtain d where d: "es_daemon_id s = Some d" using assms(2) by blast
  from assms(3) show ?thesis
  proof (elim disjE conjE)
    assume "is_terminal st" "retry = None"
    then show ?thesis using assms(1,4-6) d by (elim is_terminal_cases) (simp_all add: run_ok_def is_terminal_def)
  next
    assume "st = ''Retrying''" "retry \<noteq> None" "\<not> es_cancel_requested s" "es_attempt_count s < es_max_attempts s"
    then show ?thesis using assms(1,4-6) d by (simp add: run_ok_def is_terminal_def)
  qed
qed

lemma run_step_ok:
  assumes "run_step s as s' as'" "run_ok s as"
  shows "run_ok s' as'"
  using assms
proof (induction rule: run_step.induct)
  case (run_keep s s' as)
  then show ?case using run_ok_cong by blast
next
  case (run_assign s a d s' as)
  have "as = []" using run_assign.prems run_assign.hyps(2) by (simp add: run_ok_def)
  then have "run_ok (s\<lparr>es_daemon_id := Some d, es_attempt_count := 1, es_current_attempt_id := Some (at_id a)\<rparr>) (as @ [a])"
    using run_assign.prems run_assign.hyps
    by (simp add: run_ok_def numbered_def current_ok_def is_terminal_def DEFAULT_MAX_ATTEMPTS_def)
  then show ?case using run_ok_cong[OF run_assign.hyps(6)] by blast
next
  case (run_started s s' as)
  have "run_ok (s\<lparr>es_state := ''Running'', es_next_retry_at := None\<rparr>) as"
    using run_started.prems run_started.hyps by (auto simp: run_ok_def is_terminal_def)
  then show ?case using run_ok_cong[OF run_started.hyps(4)] by blast
next
  case (run_closed s c g st retry s' as)
  have c: "current_ok (Some c) as" using run_closed.prems run_closed.hyps(3) by (simp add: run_ok_def)
  note k = closed_attempts[OF c run_closed.hyps(4)]
  have "run_ok (s\<lparr>es_state := st, es_current_attempt_id := None, es_next_retry_at := retry\<rparr>)
      (map (\<lambda>a. if at_id a = c \<and> opened a then g a else a) as)"
    by (rule closed_run_ok[OF run_closed.prems run_closed.hyps(2,5) length_map k(1,2)])
  then show ?case using run_ok_cong[OF run_closed.hyps(6)] by blast
next
  case (run_cancelled s now s' as)
  have "run_ok (cancelled_session now s) as"
    using run_cancelled.prems run_cancelled.hyps(1) by (auto simp: run_ok_def cancelled_session_def is_terminal_def)
  then show ?case using run_ok_cong[OF run_cancelled.hyps(2)] by blast
next
  case (run_expired s s' as)
  have "run_ok (s\<lparr>es_state := ''Failed'', es_next_retry_at := None, es_current_attempt_id := None\<rparr>) as"
    using run_expired.prems run_expired.hyps(1) by (auto simp: run_ok_def is_terminal_def)
  then show ?case using run_ok_cong[OF run_expired.hyps(2)] by blast
next
  case (run_resumed s a s' as)
  have n: "numbered (as @ [a])"
    using run_resumed.prems run_resumed.hyps(6) by (intro numbered_snoc) (simp_all add: run_ok_def)
  have c: "current_ok (Some (at_id a)) (as @ [a])"
    using run_resumed.prems run_resumed.hyps(1,5) by (intro current_ok_snoc) (auto simp: run_ok_def)
  have "run_ok (s\<lparr>es_state := ''Running'', es_attempt_count := es_attempt_count s + 1, es_current_attempt_id := Some (at_id a),
       es_next_retry_at := None\<rparr>) (as @ [a])"
    using run_resumed.prems run_resumed.hyps n c by (auto simp: run_ok_def is_terminal_def)
  then show ?case using run_ok_cong[OF run_resumed.hyps(7)] by blast
qed

lemma run_step_final:
  "run_step s as s' as' \<Longrightarrow> is_terminal (es_state s) \<Longrightarrow> same_run s s' \<and> as' = as"
  by (induction rule: run_step.induct) (auto simp: is_terminal_def)

lemma run_step_keeps:
  "run_step s as s' as' \<Longrightarrow> es_requirement_id s' = es_requirement_id s \<and> es_start_message_id s' = es_start_message_id s
     \<and> (es_cancel_requested s \<longrightarrow> es_cancel_requested s')"
  by (induction rule: run_step.induct) (auto simp: same_run_def cancelled_session_def split: if_splits)

lemma run_step_slot: "run_step s as s' as' \<Longrightarrow> in_slot rid s' \<Longrightarrow> in_slot rid s"
  using run_step_keeps[of s as s' as'] run_step_final[of s as s' as'] by (auto simp: in_slot_def same_run_def)

section \<open>Steps of the tables\<close>

definition attempts_of :: "string \<Rightarrow> server_db \<Rightarrow> attempt_row list" where
  "attempts_of sid db = filter (\<lambda>a. at_session_id a = sid) (sv_attempts db)"

inductive table_step :: "server_db \<Rightarrow> server_db \<Rightarrow> bool" where
  tables_kept: "\<lbrakk>sv_sessions db' = sv_sessions db; sv_attempts db' = sv_attempts db\<rbrakk> \<Longrightarrow> table_step db db'"
| run_moved: "\<lbrakk>map_of (sv_sessions db) sid = Some s; sv_sessions db' = sv_sessions (on_session sid f db);
     es_start_message_id (f s) = es_start_message_id s;
     es_start_message_id s \<noteq> None \<Longrightarrow> run_step s (attempts_of sid db) (f s) (attempts_of sid db');
     \<forall>k. k \<noteq> sid \<longrightarrow> attempts_of k db' = attempts_of k db\<rbrakk>
    \<Longrightarrow> table_step db db'"
| run_opened: "\<lbrakk>map_of (sv_sessions db) sid = None; sv_sessions db' = sv_sessions db @ [(sid, s)]; run_ok s as;
     \<forall>rid. in_slot rid s \<longrightarrow> (\<forall>(_, x)\<in>set (sv_sessions db). \<not> in_slot rid x);
     attempts_of sid db' = attempts_of sid db @ as;
     \<forall>k. k \<noteq> sid \<longrightarrow> attempts_of k db' = attempts_of k db\<rbrakk>
    \<Longrightarrow> table_step db db'"
| session_added: "\<lbrakk>map_of (sv_sessions db) sid = None; sv_sessions db' = sv_sessions db @ [(sid, s)];
     es_start_message_id s = None; sv_attempts db' = sv_attempts db\<rbrakk>
    \<Longrightarrow> table_step db db'"

definition runs_ok :: "server_db \<Rightarrow> bool" where
  "runs_ok db \<longleftrightarrow>
     distinct (map fst (sv_sessions db))
     \<and> (\<forall>a\<in>set (sv_attempts db). at_session_id a \<in> fst ` set (sv_sessions db))
     \<and> (\<forall>(sid, s)\<in>set (sv_sessions db). es_start_message_id s \<noteq> None \<longrightarrow> run_ok s (attempts_of sid db))
     \<and> (\<forall>rid. length (filter (\<lambda>(_, s). in_slot rid s) (sv_sessions db)) \<le> 1)"

lemma map_fst_on_session: "map fst (sv_sessions (on_session sid f db)) = map fst (sv_sessions db)"
  by (simp add: on_session_def comp_def) (auto intro!: map_cong)

lemma slot_on_session:
  assumes "map_of xs sid = Some s" "distinct (map fst xs)" "in_slot rid (f s) \<Longrightarrow> in_slot rid s"
  shows "length (filter (\<lambda>(_, s). in_slot rid s) (map (\<lambda>(k, x). if k = sid then (k, f x) else (k, x)) xs))
    \<le> length (filter (\<lambda>(_, s). in_slot rid s) xs)"
  using assms
proof (induction xs)
  case (Cons x xs)
  obtain k y where x: "x = (k, y)" by (cases x)
  show ?case
  proof (cases "k = sid")
    case True
    then have eq: "map (\<lambda>(k, x). if k = sid then (k, f x) else (k, x)) xs = xs"
      using Cons.prems(2) x by (intro map_idI) (auto simp: image_iff split: if_splits)
    have "y = s" using Cons.prems(1) x True by simp
    then show ?thesis using Cons.prems(3) x True by (simp add: eq del: length_filter_map)
  next
    case False
    then show ?thesis using Cons x by simp
  qed
qed simp

lemma attempt_sessions:
  assumes "\<forall>a\<in>set (sv_attempts db). at_session_id a \<in> K" "\<forall>k. k \<noteq> sid \<longrightarrow> attempts_of k db' = attempts_of k db"
  shows "\<forall>a\<in>set (sv_attempts db'). at_session_id a \<in> insert sid K"
proof
  fix a
  assume a: "a \<in> set (sv_attempts db')"
  show "at_session_id a \<in> insert sid K"
  proof (cases "at_session_id a = sid")
    case False
    have "a \<in> set (attempts_of (at_session_id a) db')" using a by (simp add: attempts_of_def)
    then have "a \<in> set (attempts_of (at_session_id a) db)" using assms(2) False by simp
    then show ?thesis using assms(1) by (simp add: attempts_of_def)
  qed simp
qed

lemma table_step_ok:
  assumes "table_step db db'" "runs_ok db"
  shows "runs_ok db'"
  using assms
proof (induction rule: table_step.induct)
  case (tables_kept db' db)
  then show ?case by (simp add: runs_ok_def attempts_of_def)
next
  case (run_moved db sid s db' f)
  have d: "distinct (map fst (sv_sessions db))" and slot: "length (filter (\<lambda>(_, s). in_slot rid s) (sv_sessions db)) \<le> 1" for rid
    using run_moved.prems by (simp_all add: runs_ok_def)
  have ok: "run_ok x (attempts_of k db)" if "(k, x) \<in> set (sv_sessions db)" "es_start_message_id x \<noteq> None" for k x
    using run_moved.prems that by (auto simp: runs_ok_def)
  have in_s: "(sid, s) \<in> set (sv_sessions db)" by (rule map_of_SomeD[OF run_moved.hyps(1)])
  have keys: "map fst (sv_sessions db') = map fst (sv_sessions db)" unfolding run_moved.hyps(2) by (rule map_fst_on_session)
  then have dom: "fst ` set (sv_sessions db') = fst ` set (sv_sessions db)" by (metis list.set_map)
  have "in_slot rid (f s) \<Longrightarrow> in_slot rid s" for rid
    using run_moved.hyps(3,4) run_step_slot by (auto simp: in_slot_def)
  then have "length (filter (\<lambda>(_, s). in_slot rid s) (sv_sessions db')) \<le> 1" for rid
    using slot_on_session[OF run_moved.hyps(1) d, of rid f] slot[of rid] unfolding run_moved.hyps(2) on_session_def by simp
  moreover have "run_ok x (attempts_of k db')" if x: "(k, x) \<in> set (sv_sessions db')" "es_start_message_id x \<noteq> None" for k x
  proof (cases "k = sid")
    case True
    then obtain y where "(sid, y) \<in> set (sv_sessions db)" "x = f y" using x(1) unfolding run_moved.hyps(2) on_session_def by (auto split: if_splits)
    then have "x = f s" using d in_s by (metis eq_key_imp_eq_value)
    then show ?thesis using run_step_ok[OF run_moved.hyps(4) ok[OF in_s]] x(2) run_moved.hyps(3) True by simp
  next
    case False
    then have "(k, x) \<in> set (sv_sessions db)" using x(1) unfolding run_moved.hyps(2) on_session_def by (auto split: if_splits)
    then show ?thesis using ok x(2) run_moved.hyps(5) False by simp
  qed
  moreover have "\<forall>a\<in>set (sv_attempts db'). at_session_id a \<in> insert sid (fst ` set (sv_sessions db))"
    using attempt_sessions[OF _ run_moved.hyps(5)] run_moved.prems unfolding runs_ok_def by blast
  moreover have "insert sid (fst ` set (sv_sessions db)) = fst ` set (sv_sessions db)" using in_s by force
  ultimately show ?case unfolding runs_ok_def using d keys dom by auto
next
  case (run_opened db sid db' s as)
  have new: "sid \<notin> fst ` set (sv_sessions db)" using run_opened.hyps(1) by (simp add: map_of_eq_None_iff)
  then have "attempts_of sid db = []" using run_opened.prems unfolding runs_ok_def attempts_of_def filter_empty_conv by blast
  then have "run_ok s (attempts_of sid db')" using run_opened.hyps(3,5) by simp
  moreover have "run_ok x (attempts_of k db')" if "(k, x) \<in> set (sv_sessions db)" "es_start_message_id x \<noteq> None" for k x
  proof -
    have "k \<noteq> sid" using new that(1) by force
    then show ?thesis using run_opened.prems run_opened.hyps(6) that by (auto simp: runs_ok_def)
  qed
  moreover have "\<forall>a\<in>set (sv_attempts db'). at_session_id a \<in> insert sid (fst ` set (sv_sessions db))"
    using attempt_sessions[OF _ run_opened.hyps(6)] run_opened.prems unfolding runs_ok_def by blast
  moreover have "length (filter (\<lambda>(_, s). in_slot rid s) (sv_sessions db')) \<le> 1" for rid
  proof (cases "in_slot rid s")
    case True
    then have "filter (\<lambda>(_, s). in_slot rid s) (sv_sessions db) = []" using run_opened.hyps(4) by (auto simp: filter_empty_conv)
    then show ?thesis by (simp add: run_opened.hyps(2))
  next
    case False
    then show ?thesis using run_opened.prems by (simp add: run_opened.hyps(2) runs_ok_def)
  qed
  ultimately show ?case using run_opened.prems new unfolding runs_ok_def run_opened.hyps(2) by auto
next
  case (session_added db sid db' s)
  have new: "sid \<notin> fst ` set (sv_sessions db)" using session_added.hyps(1) by (simp add: map_of_eq_None_iff)
  have "attempts_of k db' = attempts_of k db" for k by (simp add: attempts_of_def session_added.hyps(4))
  moreover have "\<not> in_slot rid s" for rid using session_added.hyps(3) by (simp add: in_slot_def)
  ultimately show ?case
    using session_added.prems new session_added.hyps(3) unfolding runs_ok_def session_added.hyps(2,4) by auto
qed

section \<open>The contract of the transactions\<close>

locale run_operation =
  fixes op :: "server_db \<Rightarrow> 'r \<times> server_db"
  assumes run_contract: "distinct (map fst (sv_sessions db)) \<Longrightarrow> op db = (res, db') \<Longrightarrow> table_step\<^sup>*\<^sup>* db db'"
begin

lemma keeps_runs: "runs_ok db \<Longrightarrow> op db = (res, db') \<Longrightarrow> runs_ok db'"
proof -
  assume ok: "runs_ok db" and "op db = (res, db')"
  then have "table_step\<^sup>*\<^sup>* db db'" using run_contract by (simp add: runs_ok_def)
  then show ?thesis by (induction rule: rtranclp_induct) (use ok table_step_ok in auto)
qed

end

lemma run_tx_contract:
  assumes "\<And>db a db'. distinct (map fst (sv_sessions db)) \<Longrightarrow> tx db = Inr (a, db') \<Longrightarrow> table_step\<^sup>*\<^sup>* db db'"
  shows "run_operation (run_tx tx after)"
proof
  fix db res db'
  assume "distinct (map fst (sv_sessions db))" "run_tx tx after db = (res, db')"
  then show "table_step\<^sup>*\<^sup>* db db'"
    using assms by (cases "tx db") (auto simp: run_tx_def split: prod.splits)
qed

lemma same_run_refl [simp]: "same_run s s"
  by (simp add: same_run_def)

lemma run_kept:
  assumes "map_of (sv_sessions db) sid = Some s" "sv_sessions db' = sv_sessions (on_session sid f db)" "same_run s (f s)"
    "sv_attempts db' = sv_attempts db"
  shows "table_step db db'"
proof (rule run_moved[OF assms(1,2)])
  show "run_step s (attempts_of sid db) (f s) (attempts_of sid db')"
    using run_keep[OF assms(3)] assms(4) by (simp add: attempts_of_def)
qed (use assms(3,4) in \<open>simp_all add: same_run_def attempts_of_def\<close>)

text \<open>A step that adds an attempt to its run.\<close>

lemma run_attempted:
  assumes "map_of (sv_sessions db) sid = Some s" "sv_sessions db' = sv_sessions (on_session sid f db)"
    "es_start_message_id (f s) = es_start_message_id s" "sv_attempts db' = sv_attempts db @ [a]" "at_session_id a = sid"
    "run_step s (attempts_of sid db) (f s) (attempts_of sid db @ [a])"
  shows "table_step db db'"
  by (rule run_moved[OF assms(1-3)]) (use assms(4-6) in \<open>simp_all add: attempts_of_def\<close>)

lemma insert_command_Inr:
  "insert_command env cid sid did seq payload db = Inr db' \<Longrightarrow> sv_sessions db' = sv_sessions db \<and> sv_attempts db' = sv_attempts db
     \<and> same_store db db'"
  by (auto simp: insert_command_def and_then_Inr_iff same_store_def split: if_splits)

lemma insert_execution_attempt_Inr:
  assumes "insert_execution_attempt attempt_id sid number cid kind db = Inr db'"
  obtains a where "db' = db\<lparr>sv_attempts := sv_attempts db @ [a]\<rparr>" "at_id a = attempt_id" "at_session_id a = sid"
    "at_attempt_number a = number" "at_command_id a = cid" "opened a"
  using assms by (auto simp: insert_execution_attempt_def opened_def split: if_splits)

lemma into_run_Inr:
  assumes "into_run now sid s db = Inr run"
  shows "clr_daemon_id run = es_daemon_id s" "clr_cancel_requested run = es_cancel_requested s"
    "clr_current_attempt_id run = es_current_attempt_id s" "clr_phase run = PhaseTerminal \<longleftrightarrow> is_terminal (es_state s)"
    "es_daemon_id s = None \<Longrightarrow> es_state s = ''Idle'' \<or> is_terminal (es_state s)"
    "clr_start_command_id run = es_start_command_id s" "clr_cancel_command_id run = es_cancel_command_id s"
  using assms by (auto simp: into_run_def and_then_Inr_iff Let_def split: option.splits if_splits)

subsection \<open>Starting\<close>

lemma newest_session_mem: "newest_session xs = Some x \<Longrightarrow> x \<in> set xs"
proof -
  assume n: "newest_session xs = Some x"
  let ?ys = "sort_key (\<lambda>(_, s). es_created_at s) (sort_key fst xs)"
  have "xs \<noteq> []" using n by (auto simp: newest_session_def)
  moreover have "set ?ys = set xs" by simp
  ultimately have "?ys \<noteq> []" by fastforce
  then have "last ?ys \<in> set ?ys" by (rule last_in_set)
  moreover have "x = last ?ys" using n by (auto simp: newest_session_def split: list.splits)
  ultimately show ?thesis by simp
qed

lemma slot_occupant_Some:
  assumes "slot_occupant rid db = Some (sid, s)" "distinct (map fst (sv_sessions db))"
  shows "map_of (sv_sessions db) sid = Some s" "in_slot rid s"
  using newest_session_mem[OF assms(1)[unfolded slot_occupant_def]] assms(2) by simp_all

lemma dispatch_start_Inr:
  assumes "dispatch_start env cid sid did seq payload db = Inr db'"
  obtains a where "sv_sessions db' = sv_sessions db" "sv_attempts db' = sv_attempts db @ [a]" "at_id a = execution_attempt_id env sid 1"
    "at_session_id a = sid" "at_attempt_number a = 1" "opened a" "same_store db db'"
proof -
  obtain db1 where c: "insert_command env cid sid did seq payload db = Inr db1"
    and e: "insert_execution_attempt (execution_attempt_id env sid 1) sid 1 cid ''session.start'' db1 = Inr db'"
    using assms by (auto simp: dispatch_start_def and_then_Inr_iff)
  from e show thesis
    by (rule insert_execution_attempt_Inr) (use insert_command_Inr[OF c] that in \<open>auto simp: same_store_def\<close>)
qed

lemma assign_occupant_step:
  assumes s: "map_of (sv_sessions db) sid = Some s" "es_state s = ''Idle''" "es_daemon_id s = None" "\<not> es_cancel_requested s"
    and tx: "assign_occupant env build rnd now did sid s db = Inr (cid, db')"
  shows "table_step db db'"
proof -
  define f where "f = (\<lambda>s :: execution_session. s\<lparr>es_daemon_id := Some did, es_start_command_id := Some cid, es_attempt_count := 1,
     es_current_attempt_id := Some (execution_attempt_id env sid 1), es_updated_at := now, es_last_activity_at := now\<rparr>)"
  obtain seq payload db1 where d: "dispatch_start env cid sid did seq payload db = Inr db1" and db': "db' = on_session sid f db1"
    using tx by (auto simp: assign_occupant_def f_def and_then_Inr_iff Let_def split: option.splits)
  from d show ?thesis
  proof (rule dispatch_start_Inr)
    fix a
    assume a: "sv_sessions db1 = sv_sessions db" "sv_attempts db1 = sv_attempts db @ [a]" "at_id a = execution_attempt_id env sid 1"
      "at_session_id a = sid" "at_attempt_number a = 1" "opened a"
    have st: "run_step s (attempts_of sid db) (f s) (attempts_of sid db @ [a])"
      by (rule run_assign[OF s(2-4) a(6,5), of did]) (simp add: f_def a(3) same_run_def)
    show ?thesis
      by (rule run_attempted[where f = f, OF s(1) _ _ _ a(4) st]) (use a in \<open>simp_all add: db' on_session_def f_def\<close>)
  qed
qed

lemma start_occupied_steps:
  assumes s: "map_of (sv_sessions db) sid = Some s" "in_slot rid s"
    and tx: "start_occupied env build rnd now i sid s db = Inr (r, db')"
  shows "table_step\<^sup>*\<^sup>* db db'"
proof -
  obtain run where run: "into_run now sid s db = Inr run"
    using tx by (auto simp: start_occupied_def and_then_Inr_iff split: if_splits)
  note ir = into_run_Inr[OF run]
  consider "db' = db" | did cid where "es_daemon_id s = None" "\<not> es_cancel_requested s"
      "assign_occupant env build rnd now did sid s db = Inr (cid, db')"
    using tx run ir by (auto simp: start_occupied_def and_then_Inr_iff split: if_splits option.splits)
  then show ?thesis
  proof cases
    case 2
    then have "es_state s = ''Idle''" using ir(5) s(2) by (simp add: in_slot_def)
    then show ?thesis using assign_occupant_step[OF s(1) _ 2] by blast
  qed simp
qed

lemma open_discussion_kept:
  "open_discussion env now r expected db = Inr db' \<Longrightarrow> sv_sessions db' = sv_sessions db \<and> sv_attempts db' = sv_attempts db"
  by (auto simp: open_discussion_def update_requirement_def insert_audit_def and_then_Inr_iff map_err_Inr_iff Let_def
      split: if_splits prod.splits sum.splits option.splits)

lemma new_session_ok: "run_ok (new_session now None None i) []"
  by (simp add: run_ok_def new_session_def current_ok_def DEFAULT_MAX_ATTEMPTS_def is_terminal_def)

lemma assigned_session_ok:
  "opened a \<Longrightarrow> at_attempt_number a = 1 \<Longrightarrow>
   run_ok ((new_session now (Some did) (Some cid) i)\<lparr>es_attempt_count := 1, es_current_attempt_id := Some (at_id a)\<rparr>) [a]"
  by (simp add: run_ok_def new_session_def current_ok_def DEFAULT_MAX_ATTEMPTS_def is_terminal_def numbered_def)

lemma insert_session_Inr:
  assumes "insert_session sid s db = Inr db'"
  shows "map_of (sv_sessions db) sid = None" "db' = db\<lparr>sv_sessions := sv_sessions db @ [(sid, s)]\<rparr>"
    "\<forall>rid. in_slot rid s \<longrightarrow> (\<forall>(_, x)\<in>set (sv_sessions db). \<not> in_slot rid x)"
  using assms by (auto simp: insert_session_def list_ex_iff in_slot_def split: if_splits)

lemma on_session_appended:
  "map_of (sv_sessions db) sid = None \<Longrightarrow> sv_sessions db' = sv_sessions db @ [(sid, s)]
   \<Longrightarrow> sv_sessions (on_session sid f db') = sv_sessions db @ [(sid, f s)]"
proof -
  assume n: "map_of (sv_sessions db) sid = None" and db': "sv_sessions db' = sv_sessions db @ [(sid, s)]"
  have "map (\<lambda>(k, x). if k = sid then (k, f x) else (k, x)) (sv_sessions db) = sv_sessions db"
    using n by (intro map_idI) (auto simp: map_of_eq_None_iff image_iff split: if_splits)
  then show ?thesis by (simp add: on_session_def db')
qed

lemma start_fresh_step:
  assumes tx: "start_fresh env build rnd1 rnd2 now i r db = Inr (res, db')"
  shows "table_step db db'"
proof -
  let ?sid = "random_hex 16 rnd1" and ?cid = "random_hex 16 rnd2"
  obtain db1 where o: "open_discussion env now r (csi_expected_state_version i) db = Inr db1"
    using tx by (auto simp: start_fresh_def and_then_Inr_iff split: if_splits)
  note k = open_discussion_kept[OF o]
  then have at: "attempts_of j db1 = attempts_of j db" for j by (simp add: attempts_of_def)
  show ?thesis
  proof (cases "choose_eligible_daemon env now (csi_required_capabilities i) db1")
    case None
    then have ins: "insert_session ?sid (new_session now None None i) db1 = Inr db'"
      using tx o by (auto simp: start_fresh_def and_then_Inr_iff Let_def split: if_splits)
    note n = insert_session_Inr[OF ins]
    show ?thesis
      by (rule run_opened[where sid = ?sid, OF _ _ new_session_ok[of now i]])
        (use n k at in \<open>simp_all add: attempts_of_def\<close>)
  next
    case (Some did)
    define f where "f = (\<lambda>s :: execution_session. s\<lparr>es_attempt_count := 1, es_current_attempt_id := Some (execution_attempt_id env ?sid 1)\<rparr>)"
    obtain payload db2 db3 where ins: "insert_session ?sid (new_session now (Some did) (Some ?cid) i) db1 = Inr db2"
      and d: "dispatch_start env ?cid ?sid did 1 payload db2 = Inr db3" and db': "db' = on_session ?sid f db3"
      using tx o Some by (auto simp: start_fresh_def f_def and_then_Inr_iff Let_def split: if_splits)
    note n = insert_session_Inr[OF ins]
    from d show ?thesis
    proof (rule dispatch_start_Inr)
      fix a
      assume a: "sv_sessions db3 = sv_sessions db2" "sv_attempts db3 = sv_attempts db2 @ [a]" "at_id a = execution_attempt_id env ?sid 1"
        "at_session_id a = ?sid" "at_attempt_number a = 1" "opened a"
      have ok: "run_ok (f (new_session now (Some did) (Some ?cid) i)) [a]"
        using assigned_session_ok[OF a(6,5), of now did ?cid i] by (simp add: f_def a(3))
      have ss: "sv_sessions db' = sv_sessions db @ [(?sid, f (new_session now (Some did) (Some ?cid) i))]"
        unfolding db' using on_session_appended[OF n(1)] n(2) k a(1) by simp
      have sa: "sv_attempts db' = sv_attempts db @ [a]" using n(2) k a(2) by (simp add: db' on_session_def)
      have "in_slot rid (f (new_session now (Some did) (Some ?cid) i)) = in_slot rid (new_session now (Some did) (Some ?cid) i)" for rid
        by (simp add: f_def in_slot_def)
      then show ?thesis
        using n(1,3) k sa a(4) by (intro run_opened[OF _ ss ok]) (simp_all add: attempts_of_def)
    qed
  qed
qed

lemma start_clarification_steps:
  assumes "distinct (map fst (sv_sessions db))" "start_clarification_tx env build rnd1 rnd2 now i db = Inr (r, db')"
  shows "table_step\<^sup>*\<^sup>* db db'"
proof (cases "slot_occupant (csi_requirement_id i) db")
  case None
  then obtain q where "start_fresh env build rnd1 rnd2 now i q db = Inr (r, db')"
    using assms(2) by (auto simp: start_clarification_tx_def and_then_Inr_iff split: if_splits)
  then show ?thesis using start_fresh_step by blast
next
  case (Some x)
  obtain sid s where x: "x = (sid, s)" by (cases x)
  then have "start_occupied env build rnd1 now i sid s db = Inr (r, db')"
    using assms(2) Some by (auto simp: start_clarification_tx_def and_then_Inr_iff split: if_splits)
  then show ?thesis using start_occupied_steps slot_occupant_Some[OF Some[unfolded x] assms(1)] by blast
qed

interpretation start_run: run_operation "start_clarification env build rnd1 rnd2 now i"
  unfolding start_clarification_def by (rule run_tx_contract) (rule start_clarification_steps)

subsection \<open>Messages and cancellation\<close>

interpretation message_run: run_operation "dispatch_clarification_message env build rnd now rid sid mid"
  unfolding dispatch_clarification_message_def
proof (rule run_tx_contract)
  fix db r db'
  assume "dispatch_message_tx env build rnd now rid sid mid db = Inr (r, db')"
  then have "sv_sessions db' = sv_sessions db \<and> sv_attempts db' = sv_attempts db"
    by (auto simp: dispatch_message_tx_def and_then_Inr_iff Let_def dest!: insert_command_Inr split: option.splits if_splits)
  then show "table_step\<^sup>*\<^sup>* db db'" by (blast intro: tables_kept)
qed

lemma on_session_twice: "on_session sid g (on_session sid f db) = on_session sid (\<lambda>s. g (f s)) db"
  by (simp add: on_session_def comp_def) (auto intro!: arg_cong[where f = "\<lambda>x. sv_sessions_update x db"] map_cong)

lemma run_session_Some: "run_session rid sid db = Some s \<Longrightarrow> map_of (sv_sessions db) sid = Some s"
  by (auto simp: run_session_def split: option.splits if_splits)

lemma cancel_effect:
  assumes tx: "cancel_clarification_tx env build rnd now rid sid db = Inr (r, db')" and s: "run_session rid sid db = Some s"
  shows "is_terminal (es_state s) \<and> es_cancel_requested s \<and> db' = db
    \<or> \<not> is_terminal (es_state s) \<and> sv_attempts db' = sv_attempts db
      \<and> (\<exists>c. sv_sessions db' = sv_sessions (on_session sid (\<lambda>s. (cancelled_session now s)\<lparr>es_cancel_command_id := c s\<rparr>) db))"
proof -
  obtain run where run: "into_run now sid s db = Inr run"
    using tx s by (auto simp: cancel_clarification_tx_def and_then_Inr_iff)
  note ir = into_run_Inr[OF run]
  show ?thesis
  proof (cases "is_terminal (es_state s)")
    case True
    then show ?thesis using tx s run ir by (auto simp: cancel_clarification_tx_def split: if_splits)
  next
    case False
    have k: "on_session sid (cancelled_session now) db = on_session sid (\<lambda>s. (cancelled_session now s)\<lparr>es_cancel_command_id := es_cancel_command_id s\<rparr>) db"
      by (rule arg_cong[where f = "\<lambda>f. on_session sid f db"]) (auto simp: cancelled_session_def)
    consider "db' = on_session sid (cancelled_session now) db"
      | did seq payload db1 cid where "insert_command env cid sid did seq payload (on_session sid (cancelled_session now) db) = Inr db1"
          "db' = on_session sid (\<lambda>s. s\<lparr>es_cancel_command_id := Some cid, es_updated_at := now, es_last_activity_at := now\<rparr>) db1"
      using tx s run ir False
      by (auto simp: cancel_clarification_tx_def and_then_Inr_iff Let_def split: if_splits option.splits)
    then show ?thesis
    proof cases
      case 1
      then show ?thesis using False k by (auto simp: on_session_def)
    next
      case 2
      have "sv_sessions db' = sv_sessions (on_session sid (\<lambda>s. (cancelled_session now s)\<lparr>es_cancel_command_id := Some cid\<rparr>) db)"
        using insert_command_Inr[OF 2(1)] by (simp add: 2(2) on_session_def) (auto simp: cancelled_session_def)
      moreover have "sv_attempts db' = sv_attempts db" using insert_command_Inr[OF 2(1)] by (simp add: 2(2) on_session_def)
      ultimately show ?thesis using False by (auto intro: exI[of _ "\<lambda>_. Some cid"])
    qed
  qed
qed

interpretation cancel_run: run_operation "cancel_clarification env build rnd now rid sid"
  unfolding cancel_clarification_def
proof (rule run_tx_contract)
  fix db r db'
  assume tx: "cancel_clarification_tx env build rnd now rid sid db = Inr (r, db')"
  then obtain s where s: "run_session rid sid db = Some s" by (auto simp: cancel_clarification_tx_def split: option.splits)
  from cancel_effect[OF tx s] show "table_step\<^sup>*\<^sup>* db db'"
  proof (elim disjE conjE exE)
    fix c
    let ?f = "\<lambda>s. (cancelled_session now s)\<lparr>es_cancel_command_id := c s\<rparr>"
    assume t: "\<not> is_terminal (es_state s)" and a: "sv_attempts db' = sv_attempts db"
      and ss: "sv_sessions db' = sv_sessions (on_session sid ?f db)"
    have st: "run_step s (attempts_of sid db) (?f s) (attempts_of sid db)"
      by (rule run_cancelled[OF t, of now]) (simp add: same_run_def)
    have "table_step db db'"
      by (rule run_moved[where f = ?f, OF run_session_Some[OF s] ss])
        (use st a in \<open>simp_all add: attempts_of_def cancelled_session_def\<close>)
    then show ?thesis by blast
  qed simp
qed

subsection \<open>Events\<close>

lemma failure_verdict_cases:
  assumes "failure_verdict s reason jitter db = (state, delay, class)"
  shows "state = ''Failed'' \<and> delay = None
    \<or> state = ''Retrying'' \<and> delay \<noteq> None \<and> \<not> es_cancel_requested s \<and> es_attempt_count s < es_max_attempts s"
  using assms by (auto simp: failure_verdict_def Let_def split: if_splits)

lemma close_attempt_Inr:
  assumes "close_attempt c sid g db = Inr db'"
  shows "db' = db\<lparr>sv_attempts := map (\<lambda>a. if at_id a = c \<and> at_session_id a = sid \<and> opened a then g a else a) (sv_attempts db)\<rparr>"
  using assms by (auto simp: close_attempt_def opened_def Let_def split: if_splits)

lemma closed_attempts_of:
  assumes "sv_attempts db' = map (\<lambda>a. if at_id a = c \<and> at_session_id a = sid \<and> opened a then g a else a) (sv_attempts db)" "closes g"
  shows "attempts_of sid db' = map (\<lambda>a. if at_id a = c \<and> opened a then g a else a) (attempts_of sid db)"
    and "k \<noteq> sid \<Longrightarrow> attempts_of k db' = attempts_of k db"
proof -
  let ?h = "\<lambda>a. if at_id a = c \<and> at_session_id a = sid \<and> opened a then g a else a"
  have "at_session_id (?h a) = at_session_id a" for a using assms(2) by (auto simp: closes_def)
  then have "attempts_of k db' = map ?h (attempts_of k db)" for k
    unfolding attempts_of_def assms(1) by (simp add: filter_map comp_def)
  moreover have "map ?h (attempts_of sid db) = map (\<lambda>a. if at_id a = c \<and> opened a then g a else a) (attempts_of sid db)"
    by (auto simp: attempts_of_def)
  moreover have "map ?h (attempts_of k db) = attempts_of k db" if "k \<noteq> sid"
    using that by (intro map_idI) (auto simp: attempts_of_def)
  ultimately show "attempts_of sid db' = map (\<lambda>a. if at_id a = c \<and> opened a then g a else a) (attempts_of sid db)"
    "k \<noteq> sid \<Longrightarrow> attempts_of k db' = attempts_of k db" by metis+
qed

text \<open>Closing the current attempt of a run.\<close>

lemma run_closing:
  assumes s: "map_of (sv_sessions db) sid = Some s" "\<not> is_terminal (es_state s)" "es_daemon_id s \<noteq> None" "es_current_attempt_id s = Some c"
    and close: "close_attempt c sid g db = Inr db1" "closes g" and db': "sv_sessions db' = sv_sessions (on_session sid f db1)" "sv_attempts db' = sv_attempts db1"
    and to: "is_terminal st \<and> retry = None
       \<or> st = ''Retrying'' \<and> retry \<noteq> None \<and> \<not> es_cancel_requested s \<and> es_attempt_count s < es_max_attempts s"
    and f: "same_run (s\<lparr>es_state := st, es_current_attempt_id := None, es_next_retry_at := retry\<rparr>) (f s)"
  shows "table_step db db'"
proof -
  have db1: "sv_sessions db1 = sv_sessions db"
    "sv_attempts db' = map (\<lambda>a. if at_id a = c \<and> at_session_id a = sid \<and> opened a then g a else a) (sv_attempts db)"
    using close_attempt_Inr[OF close(1)] db'(2) by simp_all
  note a = closed_attempts_of[OF db1(2) close(2)]
  have "sv_sessions db' = sv_sessions (on_session sid f db)" using db'(1) db1(1) by (simp add: on_session_def)
  then show ?thesis
    by (rule run_moved[OF s(1)])
      (use f a run_closed[OF s(2-4) close(2) to f] in \<open>simp_all add: same_run_def\<close>)
qed

lemma apply_event_step:
  assumes s: "map_of (sv_sessions db) sid = Some s" and ok: "projection_refusal s ev = None"
    and tx: "apply_event env jitter now event_id sid s ev db = Inr db'"
  shows "table_step db db'"
proof -
  have t: "\<not> is_terminal (es_state s)" "es_daemon_id s \<noteq> None" "es_current_attempt_id s \<noteq> None"
    using ok by (auto simp: projection_refusal_def split: if_splits)
  show ?thesis
  proof (cases ev)
    case (EvSessionStarted runtime_id)
    define f where "f = (\<lambda>s :: execution_session. s\<lparr>es_state := ''Running'', es_runtime_id := Some runtime_id, es_next_retry_at := None,
             es_failure_class := None, es_failure_reason := None,
             es_started_at := (case es_started_at s of None \<Rightarrow> Some now | t \<Rightarrow> t),
             es_updated_at := now, es_last_activity_at := now\<rparr>)"
    have db': "db' = on_session sid f db" using tx EvSessionStarted by (simp add: apply_event_def f_def)
    have "run_step s (attempts_of sid db) (f s) (attempts_of sid db)"
      by (rule run_started[OF t]) (simp add: f_def same_run_def)
    then show ?thesis
      by (intro run_moved[where f = f, OF s]) (simp_all add: db' attempts_of_def on_session_def f_def)
  next
    case (EvAgentMessage message_id body)
    then show ?thesis
      using tx by (intro run_kept[where f = "\<lambda>s. s\<lparr>es_updated_at := now, es_last_activity_at := now\<rparr>", OF s])
        (auto simp: apply_event_def touch_session_def on_session_def same_run_def split: option.splits if_splits)
  next
    case (EvActivity activity)
    then show ?thesis
      using tx by (intro run_kept[where f = "\<lambda>s. s\<lparr>es_updated_at := now, es_last_activity_at := now\<rparr>", OF s])
        (auto simp: apply_event_def touch_session_def on_session_def same_run_def split: if_splits)
  next
    case (EvCompleted summary)
    define f where "f = (\<lambda>s :: execution_session. s\<lparr>es_state := ''Completed'', es_terminal_summary := Some summary,
                  es_current_attempt_id := None, es_next_retry_at := None, es_failure_class := None,
                  es_failure_reason := None, es_updated_at := now, es_last_activity_at := now\<rparr>)"
    obtain c db1 where c: "es_current_attempt_id s = Some c" and cl: "close_attempt c sid (\<lambda>a. a\<lparr>at_outcome := Some ''completed''\<rparr>) db = Inr db1"
      and db': "db' = on_session sid f db1"
      using tx EvCompleted by (auto simp: apply_event_def f_def and_then_Inr_iff split: option.splits)
    show ?thesis
      by (rule run_closing[where f = f and st = "''Completed''" and retry = None, OF s t(1,2) c cl])
        (simp_all add: closes_def db' is_terminal_def f_def same_run_def on_session_def)
  next
    case (EvFailed x reason)
    obtain st delay cls where v: "failure_verdict s reason jitter db = (st, delay, cls)" by (metis prod.collapse)
    define f where "f = (\<lambda>s :: execution_session. s\<lparr>es_state := st, es_runtime_id := None, es_current_attempt_id := None,
                       es_next_retry_at := map_option (\<lambda>d. now + nat d * 1000000) delay,
                       es_failure_class := Some cls, es_failure_reason := Some cls,
                       es_updated_at := now, es_last_activity_at := now\<rparr>)"
    obtain c db1 where c: "es_current_attempt_id s = Some c"
      and cl: "close_attempt c sid (\<lambda>a. a\<lparr>at_outcome := Some ''failed'', at_failure_event_id := Some event_id,
                        at_failure_class := Some cls, at_failure_reason := Some cls\<rparr>) db = Inr db1"
      and db': "db' = on_session sid f db1"
      using tx EvFailed v by (auto simp: apply_event_def f_def and_then_Inr_iff split: option.splits)
    show ?thesis
      by (rule run_closing[where f = f and st = st and retry = "map_option (\<lambda>d. now + nat d * 1000000) delay", OF s t(1,2) c cl])
        (use failure_verdict_cases[OF v] in \<open>auto simp: closes_def db' is_terminal_def f_def same_run_def on_session_def\<close>)
  qed
qed

lemma advance_clarification_step:
  assumes "advance_clarification_watermark sid seq db = Inr db'"
  shows "table_step db db'"
proof -
  obtain s through sparse where s: "map_of (sv_sessions db) sid = Some s"
    and db': "db' = on_session sid (\<lambda>s. s\<lparr>es_event_ack_through_seq := through, es_event_ack_sparse := sparse\<rparr>) db"
    using assms by (auto simp: advance_clarification_watermark_def split: option.splits prod.splits)
  show ?thesis
    by (rule run_kept[where f = "\<lambda>s. s\<lparr>es_event_ack_through_seq := through, es_event_ack_sparse := sparse\<rparr>", OF s])
      (simp_all add: db' on_session_def same_run_def)
qed

text \<open>What a projection that records a new event goes through.\<close>

lemma project_event_fresh:
  assumes "project_event_tx env jitter now event_id sid n digest payload ev db = Inr (Inr rc, db')"
  obtains s db1 db2 where "map_of (sv_sessions db) sid = Some s"
    "(if projection_refusal s ev = None then apply_event env jitter now event_id sid s ev db else Inr db) = Inr db1"
    "insert_generic_event_dedupe (event_row event_id sid (uint n) digest payload (projection_refusal s ev)) db1 = Inr db2"
    "advance_clarification_watermark sid (uint n) db2 = Inr db'"
    "find (\<lambda>r. ev_event_id r = event_id) (sv_events db) = None" "es_start_message_id s \<noteq> None"
    "es_event_ack_through_seq s < uint n" "uint n \<le> i64_max" "event_input_ok env event_id sid n digest payload ev = Inr ()"
    "rc = \<lparr>rc_event_id = event_id, rc_session_id = sid, rc_daemon_event_seq = n,
        rc_outcome = (if projection_refusal s ev = None then ReceiptAccepted else ReceiptRejected),
        rc_rejection_reason = projection_refusal s ev, rc_duplicate = False\<rparr>"
  using assms
  by (auto simp: project_event_tx_def and_then_Inr_iff Let_def split: option.splits if_splits)

lemma project_event_steps:
  assumes "project_event_tx env jitter now event_id sid n digest payload ev db = Inr (v, db')"
  shows "table_step\<^sup>*\<^sup>* db db'"
proof (cases v)
  case (Inl x)
  then have "db' = db"
    using assms by (auto simp: project_event_tx_def and_then_Inr_iff Let_def split: option.splits if_splits)
  then show ?thesis by simp
next
  case (Inr rc)
  from assms[unfolded Inr] show ?thesis
  proof (rule project_event_fresh)
    fix s db1 db2
    assume s: "map_of (sv_sessions db) sid = Some s"
      and ap: "(if projection_refusal s ev = None then apply_event env jitter now event_id sid s ev db else Inr db) = Inr db1"
      and d: "insert_generic_event_dedupe (event_row event_id sid (uint n) digest payload (projection_refusal s ev)) db1 = Inr db2"
      and w: "advance_clarification_watermark sid (uint n) db2 = Inr db'"
    have "table_step\<^sup>*\<^sup>* db db1" using ap apply_event_step[OF s] by (auto split: if_splits)
    moreover have "table_step db1 db2"
      using d by (intro tables_kept) (auto simp: insert_generic_event_dedupe_def split: if_splits)
    ultimately show ?thesis using advance_clarification_step[OF w] by (meson rtranclp.rtrancl_into_rtrancl)
  qed
qed

interpretation project_run: run_operation "project_clarification_event env jitter now event_id sid seq digest payload ev"
  unfolding project_clarification_event_def by (rule run_tx_contract) (rule project_event_steps)

subsection \<open>Retries\<close>

definition resumed_run :: "execution_session \<Rightarrow> attempt_row list \<Rightarrow> execution_session \<Rightarrow> attempt_row list \<Rightarrow> bool" where
  "resumed_run s as s' as' \<longleftrightarrow> es_state s' = ''Running'' \<and> es_attempt_count s' = es_attempt_count s + 1
     \<and> (\<exists>a. as' = as @ [a] \<and> at_outcome a = None \<and> es_current_attempt_id s' = Some (at_id a)
          \<and> at_attempt_number a = es_attempt_count s + 1)"

lemma claim_retry_effect:
  assumes s: "map_of (sv_sessions db) sid = Some s" "es_state s = ''Retrying''"
    and tx: "claim_retry env build rnd now sid db = Inr (w, db')"
  obtains f where "table_step db db'" "sv_sessions db' = sv_sessions (on_session sid f db)"
    "terminal_class s db \<noteq> None \<Longrightarrow> es_state (f s) = ''Failed'' \<and> rk_command w = None \<and> sv_attempts db' = sv_attempts db"
    "terminal_class s db = None \<Longrightarrow> resumed_run s (attempts_of sid db) (f s) (attempts_of sid db') \<and> rk_command w \<noteq> None"
proof (cases "terminal_class s db")
  case (Some cls)
  define f where "f = (\<lambda>s :: execution_session. s\<lparr>es_state := ''Failed'', es_next_retry_at := None, es_current_attempt_id := None,
                       es_failure_class := Some cls, es_failure_reason := Some cls, es_updated_at := now,
                       es_last_activity_at := now\<rparr>)"
  have db': "db' = on_session sid f db" and w: "rk_command w = None" using tx s Some by (auto simp: claim_retry_def f_def)
  have st: "run_step s (attempts_of sid db) (f s) (attempts_of sid db)"
    by (rule run_expired[OF s(2)]) (simp add: f_def same_run_def)
  have "table_step db db'"
    by (rule run_moved[where f = f, OF s(1)]) (use st in \<open>simp_all add: db' on_session_def f_def attempts_of_def\<close>)
  then show thesis using that[of f] Some w by (simp add: db' on_session_def f_def)
next
  case None
  then have c: "\<not> es_cancel_requested s" "es_attempt_count s < es_max_attempts s"
    by (auto simp: terminal_class_def split: if_splits)
  define n where "n = (word_of_int (es_attempt_count s + 1) :: u64)"
  define f where "f = (\<lambda>x :: execution_session. x\<lparr>es_state := ''Running'', es_attempt_count := es_attempt_count s + 1,
                           es_current_attempt_id := Some (execution_attempt_id env sid (unat n)), es_next_retry_at := None, es_runtime_id := None,
                           es_failure_class := None, es_failure_reason := None, es_updated_at := now,
                           es_last_activity_at := now\<rparr>)"
  have fs: "es_state (f s) = ''Running'' \<and> es_attempt_count (f s) = es_attempt_count s + 1" by (simp add: f_def)
  obtain did seq payload db1 db2 where d: "es_daemon_id s = Some did"
    and n: "0 \<le> es_attempt_count s + 1" "es_attempt_count s + 1 < 2 ^ 64"
    and ic: "insert_command env (random_hex 16 (rnd sid)) sid did seq payload db = Inr db1"
    and ie: "insert_execution_attempt (execution_attempt_id env sid (unat n)) sid (uint n) (random_hex 16 (rnd sid)) ''session.resume'' db1 = Inr db2"
    and db': "db' = on_session sid f db2" and w: "rk_command w \<noteq> None"
    using tx s None
    by (auto simp: claim_retry_def f_def n_def u64_try_def and_then_Inr_iff Let_def i64_max_def split: option.splits if_splits)
  have un: "uint n = es_attempt_count s + 1" using n unfolding n_def by (simp only: uint_word_of_int) simp
  note k = insert_command_Inr[OF ic]
  from ie show thesis
  proof (rule insert_execution_attempt_Inr)
    fix a
    assume a: "db2 = db1\<lparr>sv_attempts := sv_attempts db1 @ [a]\<rparr>" "at_id a = execution_attempt_id env sid (unat n)" "at_session_id a = sid"
      "at_attempt_number a = uint n" "opened a"
    have st: "run_step s (attempts_of sid db) (f s) (attempts_of sid db @ [a])"
      by (rule run_resumed[OF s(2) _ c a(5)]) (use d a un in \<open>simp_all add: f_def same_run_def\<close>)
    have "table_step db db'"
      by (rule run_attempted[where f = f, OF s(1) _ _ _ a(3) st]) (use a(1) k in \<open>simp_all add: db' on_session_def f_def\<close>)
    moreover have "sv_sessions db' = sv_sessions (on_session sid f db)" using a(1) k by (simp add: db' on_session_def)
    moreover have "resumed_run s (attempts_of sid db) (f s) (attempts_of sid db')"
      using a k un fs by (simp add: resumed_run_def db' on_session_def attempts_of_def opened_def f_def)
    ultimately show thesis using that None w by blast
  qed
qed

lemma claim_retries_steps:
  assumes "claim_retries env build rnd now sids db = Inr (ws, db')" "distinct sids"
    "\<forall>sid\<in>set sids. \<exists>s. map_of (sv_sessions db) sid = Some s \<and> es_state s = ''Retrying''"
  shows "table_step\<^sup>*\<^sup>* db db'"
  using assms
proof (induction sids arbitrary: db ws)
  case (Cons sid sids)
  obtain s where s: "map_of (sv_sessions db) sid = Some s" "es_state s = ''Retrying''" using Cons.prems(3) by auto
  obtain w db1 ws' where c: "claim_retry env build rnd now sid db = Inr (w, db1)"
    and r: "claim_retries env build rnd now sids db1 = Inr (ws', db')"
    using Cons.prems(1) by (auto simp: and_then_Inr_iff)
  from s c show ?case
  proof (rule claim_retry_effect)
    fix f
    assume t: "table_step db db1" and ss: "sv_sessions db1 = sv_sessions (on_session sid f db)"
    have "\<forall>k\<in>set sids. \<exists>x. map_of (sv_sessions db1) k = Some x \<and> es_state x = ''Retrying''"
      using Cons.prems(2,3) unfolding ss map_of_on_session by auto
    then have "table_step\<^sup>*\<^sup>* db1 db'" using Cons.IH[OF r] Cons.prems(2) by simp
    then show ?thesis using t by (meson converse_rtranclp_into_rtranclp)
  qed
qed simp

lemma due_retries_sound:
  assumes "distinct (map fst (sv_sessions db))"
  shows "distinct (due_retries now locked limit db)"
    and "sid \<in> set (due_retries now locked limit db) \<Longrightarrow> \<exists>s. map_of (sv_sessions db) sid = Some s \<and> es_state s = ''Retrying''"
proof -
  let ?due = "filter (\<lambda>(sid, s). es_state s = ''Retrying'' \<and> es_current_attempt_id s = None \<and> sid \<notin> locked
          \<and> (case es_next_retry_at s of None \<Rightarrow> False | Some t \<Rightarrow> t \<le> now)) (sv_sessions db)"
  let ?ys = "sort_key (\<lambda>(_, s). case es_next_retry_at s of None \<Rightarrow> 0 | Some t \<Rightarrow> t) (sort_key fst ?due)"
  have m: "mset (map fst ?ys) = mset (map fst ?due)" by simp
  have "distinct (map fst ?due)" using assms by (rule distinct_map_filter)
  then have "distinct (map fst ?ys)" unfolding mset_eq_imp_distinct_iff[OF m] .
  then show "distinct (due_retries now locked limit db)" unfolding due_retries_def by (rule distinct_take)
  show "\<exists>s. map_of (sv_sessions db) sid = Some s \<and> es_state s = ''Retrying''" if "sid \<in> set (due_retries now locked limit db)"
  proof -
    have "sid \<in> set (map fst ?ys)" by (rule in_set_takeD[OF that[unfolded due_retries_def]])
    moreover have "set (map fst ?ys) = fst ` set ?due" by simp
    ultimately obtain s where "(sid, s) \<in> set ?due" unfolding image_iff by auto
    then have "(sid, s) \<in> set (sv_sessions db)" "es_state s = ''Retrying''" by simp_all
    then show ?thesis using map_of_is_SomeI[OF assms] by blast
  qed
qed

interpretation claim_run: run_operation "claim_due_retries env build rnd now locked limit"
  unfolding claim_due_retries_def
proof (rule run_tx_contract)
  fix db ws db'
  assume d: "distinct (map fst (sv_sessions db))"
    and "(if limit < 1 \<or> 1000 < limit then Inl ClInvalidContext
          else claim_retries env build rnd now (due_retries now locked (nat limit) db) db) = Inr (ws, db')"
  then have "claim_retries env build rnd now (due_retries now locked (nat limit) db) db = Inr (ws, db')" by (auto split: if_splits)
  then show "table_step\<^sup>*\<^sup>* db db'" by (rule claim_retries_steps) (use due_retries_sound[OF d] in blast)+
qed

subsection \<open>The other transactions of the store\<close>

interpretation create_run: run_operation "create_requirement env rnd1 rnd2 title description created_by now"
  unfolding create_requirement_def
proof (rule run_tx_contract)
  fix db a db'
  assume "create_requirement_tx env rnd1 rnd2 title description created_by now db = Inr (a, db')"
  then have "sv_sessions db' = sv_sessions db \<and> sv_attempts db' = sv_attempts db"
    by (auto simp: create_requirement_tx_def insert_requirement_def insert_conversation_def and_then_Inr_iff Let_def split: if_splits)
  then show "table_step\<^sup>*\<^sup>* db db'" by (blast intro: tables_kept)
qed

lemma update_requirement_kept:
  "update_requirement env r expected now db = Inr (row, db') \<Longrightarrow> sv_sessions db' = sv_sessions db \<and> sv_attempts db' = sv_attempts db"
  by (auto simp: update_requirement_def and_then_Inr_iff Let_def split: option.splits if_splits)

lemma insert_audit_kept: "insert_audit env a db = Inr db' \<Longrightarrow> sv_sessions db' = sv_sessions db \<and> sv_attempts db' = sv_attempts db"
  by (auto simp: insert_audit_def split: if_splits)

interpretation transition_run: run_operation "transition_requirement_with_feedback env rid expected actor t feedback aid now"
  unfolding transition_requirement_with_feedback_def
proof (rule run_tx_contract)
  fix db a db'
  assume "transition_requirement_tx env rid expected actor t feedback aid now db = Inr (a, db')"
  then have "sv_sessions db' = sv_sessions db \<and> sv_attempts db' = sv_attempts db"
    by (auto simp: transition_requirement_tx_def and_then_Inr_iff dest!: update_requirement_kept insert_audit_kept
        split: if_splits prod.splits sum.splits)
  then show "table_step\<^sup>*\<^sup>* db db'" by (blast intro: tables_kept)
qed

interpretation edit_run: run_operation "edit_requirement_with_actor env rid expected actor edit now"
  unfolding edit_requirement_with_actor_def
proof (rule run_tx_contract)
  fix db a db'
  assume "edit_requirement_tx env rid expected actor edit now db = Inr (a, db')"
  then have "sv_sessions db' = sv_sessions db \<and> sv_attempts db' = sv_attempts db"
    by (auto simp: edit_requirement_tx_def and_then_Inr_iff dest!: update_requirement_kept insert_audit_kept
        split: if_splits prod.splits sum.splits)
  then show "table_step\<^sup>*\<^sup>* db db'" by (blast intro: tables_kept)
qed

end
