(* ===== verification/Clarification_Safety.thy ===== *)
theory Clarification_Safety
  imports Clarification_Runs "HOL-Library.Code_Target_Nat"
begin

text \<open>
  What the clarification transactions guarantee over every history of the server's database: the attempts
  of a run, the slot of a requirement, cancellation, retries and the projection of events.
\<close>

section \<open>Readiness events and runs\<close>

lemma on_session_kept:
  assumes "\<And>x. same_run x (f x)"
  shows "table_step db (on_session sid f db)"
proof (cases "map_of (sv_sessions db) sid")
  case None
  then have "map (\<lambda>(k, x). if k = sid then (k, f x) else (k, x)) (sv_sessions db) = sv_sessions db"
    by (intro map_idI) (auto simp: map_of_eq_None_iff image_iff split: if_splits)
  then show ?thesis by (intro tables_kept) (simp_all add: on_session_def)
next
  case (Some s)
  show ?thesis by (rule run_kept[where f = f, OF Some _ assms]) (simp_all add: on_session_def)
qed

lemma advance_session_step: "advance_session_watermark sid seq db = Inr db' \<Longrightarrow> table_step db db'"
  by (auto simp: advance_session_watermark_def Let_def same_run_def intro!: on_session_kept split: option.splits prod.splits)

lemma insert_event_dedupe_step: "insert_event_dedupe ev seq digest out reason db = Inr db' \<Longrightarrow> table_step db db'"
  by (auto simp: insert_event_dedupe_def intro!: tables_kept split: if_splits)

lemma insert_assessment_step: "insert_assessment rnd now i db = Inr (row, db') \<Longrightarrow> table_step db db'"
  by (intro tables_kept) (auto simp: insert_assessment_def and_then_Inr_iff Let_def split: if_splits)

lemma promote_step: "promote_requirement env r expected event_id aid now db = Inr db' \<Longrightarrow> table_step db db'"
  by (intro tables_kept)
    (auto simp: promote_requirement_def and_then_Inr_iff map_err_Inr_iff dest!: update_requirement_kept insert_audit_kept)

lemma settle_steps:
  assumes "settle_assessment env rnd now ev seq rid a digest session db = Inr (row, db')"
  shows "table_step\<^sup>*\<^sup>* db db'"
proof (cases "find_requirement rid db")
  case None
  then obtain i db1 db2 where "insert_assessment rnd now i db = Inr (row, db1)"
    "insert_event_dedupe ev seq digest OutcomeRejected (Some ''requirement_not_found'') db1 = Inr db2"
    "advance_session_watermark (ae_session_id ev) seq db2 = Inr db'"
    using assms by (auto simp: settle_assessment_def lock_requirement_def finish_event_def and_then_Inr_iff)
  then show ?thesis
    by (meson insert_assessment_step insert_event_dedupe_step advance_session_step r_into_rtranclp rtranclp.rtrancl_into_rtrancl)
next
  case (Some locked)
  let ?touch = "\<lambda>s :: execution_session. s\<lparr>es_updated_at := now, es_last_activity_at := now\<rparr>"
  obtain r where "to_domain locked = Inr r"
    using assms Some by (auto simp: settle_assessment_def lock_requirement_def and_then_Inr_iff map_err_Inr_iff)
  moreover obtain out reason r' where "judge_assessment session a r db = (out, reason, r')" by (metis prod.collapse)
  ultimately obtain i db1 db2 db3 where "insert_assessment rnd now i db = Inr (row, db1)"
    and p: "(if out = OutcomeAccepted
             then promote_requirement env r' (req_state_version r) (ae_event_id ev) (asr_id row) now db1 else Inr db1) = Inr db2"
    and "insert_event_dedupe ev seq digest out reason db2 = Inr db3"
    and "advance_session_watermark (ae_session_id ev) seq (on_session (ae_session_id ev) ?touch db3) = Inr db'"
    using assms Some by (auto simp: settle_assessment_def lock_requirement_def and_then_Inr_iff)
  moreover have "table_step\<^sup>*\<^sup>* db1 db2" using p promote_step by (auto split: if_splits)
  moreover have "table_step db3 (on_session (ae_session_id ev) ?touch db3)" by (rule on_session_kept) (simp add: same_run_def)
  ultimately show ?thesis
    by (meson insert_assessment_step insert_event_dedupe_step advance_session_step converse_rtranclp_into_rtranclp
        rtranclp.rtrancl_into_rtrancl)
qed

interpretation readiness_run: run_operation "record_readiness_assessment_with_event_digest env rnd now ev rid a digest"
  unfolding record_readiness_assessment_with_event_digest_def
proof (rule run_tx_contract)
  fix db v db'
  assume "record_assessment_tx env rnd now ev rid a digest db = Inr (v, db')"
  then have "db' = db \<or> (\<exists>seq session row. settle_assessment env rnd now ev seq rid a digest session db = Inr (row, db'))"
    by (auto simp: record_assessment_tx_def and_then_Inr_iff map_sum_Inr_iff split: if_splits option.splits)
  then show "table_step\<^sup>*\<^sup>* db db'" using settle_steps by blast
qed

section \<open>Histories\<close>

text \<open>The transactions on the database. \<open>call_other\<close> stands for those that are in other theories or are not
  modelled: they leave the runs as they are, but may move a session's cursors and timestamps
  and add sessions that are no clarification runs. One call of the code is left out on purpose:
  \<open>start_session_with_command_for_requirement_and_repositories\<close> of \<open>daemon.rs\<close> could name a daemon for a clarification run that has
  none. It is reached through \<open>persist_and_dispatch_command\<close> only, which the server never calls for such a run (its callers are
  tests); it would change the owner of that run and no attempt, state or counter.\<close>

inductive server_call :: "clarification_env \<Rightarrow> server_db \<Rightarrow> server_db \<Rightarrow> bool" for env where
  call_start: "start_clarification env build rnd1 rnd2 now i db = (res, db') \<Longrightarrow> server_call env db db'"
| call_message: "dispatch_clarification_message env build' rnd now rid sid mid db = (res', db') \<Longrightarrow> server_call env db db'"
| call_cancel: "cancel_clarification env build'' rnd now rid sid db = (res', db') \<Longrightarrow> server_call env db db'"
| call_project: "project_clarification_event env jitter now event_id sid seq digest payload ev db = (rc, db') \<Longrightarrow> server_call env db db'"
| call_claim: "claim_due_retries env build'' rnds now locked limit db = (ws, db') \<Longrightarrow> server_call env db db'"
| call_create: "create_requirement (cl_store env) rnd1 rnd2 title description created_by now db = (rec, db') \<Longrightarrow> server_call env db db'"
| call_transition: "transition_requirement_with_feedback (cl_store env) rid expected actor t feedback aid now db = (rec, db')
    \<Longrightarrow> server_call env db db'"
| call_edit: "edit_requirement_with_actor (cl_store env) rid expected actor edit now db = (rec, db') \<Longrightarrow> server_call env db db'"
| call_assess: "record_readiness_assessment_with_event_digest (cl_store env) rnd now aev rid a digest db = (ar, db') \<Longrightarrow> server_call env db db'"
| call_other: "\<lbrakk>sv_attempts db' = sv_attempts db;
     sv_sessions db' = sv_sessions (on_session sid f db) @ new; \<forall>s. same_run s (f s);
     new = [] \<or> (\<exists>k s. new = [(k, s)] \<and> map_of (sv_sessions db) k = None \<and> es_start_message_id s = None)\<rbrakk>
    \<Longrightarrow> server_call env db db'"

inductive run_history :: "clarification_env \<Rightarrow> server_db \<Rightarrow> bool" for env where
  runs_start: "\<lbrakk>sv_sessions db = []; sv_attempts db = []\<rbrakk> \<Longrightarrow> run_history env db"
| runs_call: "\<lbrakk>run_history env db; server_call env db db'\<rbrakk> \<Longrightarrow> run_history env db'"

lemma other_steps:
  assumes "sv_attempts db' = sv_attempts db" "sv_sessions db' = sv_sessions (on_session sid f db) @ new" "\<forall>s. same_run s (f s)"
    "new = [] \<or> (\<exists>k s. new = [(k, s)] \<and> map_of (sv_sessions db) k = None \<and> es_start_message_id s = None)"
  shows "table_step\<^sup>*\<^sup>* db db'"
proof -
  let ?db1 = "on_session sid f db"
  have 1: "table_step db ?db1" by (rule on_session_kept) (use assms(3) in blast)
  have a: "sv_attempts ?db1 = sv_attempts db" by (simp add: on_session_def)
  from assms(4) have "table_step ?db1 db'"
  proof (elim disjE exE conjE)
    assume "new = []"
    then show ?thesis using assms(1,2) a by (intro tables_kept) simp_all
  next
    fix k s
    assume n: "new = [(k, s)]" "map_of (sv_sessions db) k = None" "es_start_message_id s = None"
    show ?thesis
      by (rule session_added[of _ k _ s]) (use n assms(1,2) a in \<open>simp_all add: map_of_on_session\<close>)
  qed
  with 1 show ?thesis by (meson r_into_rtranclp rtranclp.rtrancl_into_rtrancl)
qed

lemma server_call_steps:
  assumes "server_call env db db'" "distinct (map fst (sv_sessions db))"
  shows "table_step\<^sup>*\<^sup>* db db'"
  using assms(1)
  by cases
    (blast intro: start_run.run_contract[OF assms(2)] message_run.run_contract[OF assms(2)] cancel_run.run_contract[OF assms(2)]
      project_run.run_contract[OF assms(2)] claim_run.run_contract[OF assms(2)] create_run.run_contract[OF assms(2)]
      transition_run.run_contract[OF assms(2)] edit_run.run_contract[OF assms(2)] readiness_run.run_contract[OF assms(2)]
      other_steps)+

lemma table_steps_ok: "table_step\<^sup>*\<^sup>* db db' \<Longrightarrow> runs_ok db \<Longrightarrow> runs_ok db'"
  by (induction rule: rtranclp_induct) (auto intro: table_step_ok)

lemma runs_ok_distinct: "runs_ok db \<Longrightarrow> distinct (map fst (sv_sessions db))"
  by (simp add: runs_ok_def)

lemma server_call_ok: "server_call env db db' \<Longrightarrow> runs_ok db \<Longrightarrow> runs_ok db'"
  using server_call_steps runs_ok_distinct table_steps_ok by blast

lemma run_history_ok: "run_history env db \<Longrightarrow> runs_ok db"
  by (induction rule: run_history.induct) (simp add: runs_ok_def, rule server_call_ok)

lemma server_calls_steps:
  assumes "(server_call env)\<^sup>*\<^sup>* db db'" "runs_ok db"
  shows "table_step\<^sup>*\<^sup>* db db'"
  using assms(1)
proof (induction rule: rtranclp_induct)
  case (step y z)
  then have "runs_ok y" using table_steps_ok assms(2) by blast
  then show ?case using step.IH server_call_steps[OF step.hyps(2)] runs_ok_distinct by (meson rtranclp_trans)
qed simp

lemma run_follows:
  assumes "table_step db db'" "distinct (map fst (sv_sessions db))" "map_of (sv_sessions db) sid = Some s" "es_start_message_id s \<noteq> None"
  shows "\<exists>s'. map_of (sv_sessions db') sid = Some s' \<and> run_step s (attempts_of sid db) s' (attempts_of sid db')"
  using assms
proof (induction rule: table_step.induct)
  case (tables_kept db' db)
  then show ?case using run_keep[of s s] by (simp add: attempts_of_def)
next
  case (run_moved db k x db' f)
  show ?case
  proof (cases "k = sid")
    case True
    then show ?thesis using run_moved unfolding run_moved.hyps(2) map_of_on_session by auto
  next
    case False
    then show ?thesis
      using run_moved.hyps(5) run_moved.prems(2) run_keep[of s s] unfolding run_moved.hyps(2) map_of_on_session by auto
  qed
next
  case (run_opened db k db' x as)
  then have "k \<noteq> sid" by auto
  then show ?case using run_opened.hyps(6) run_opened.prems(2) run_keep[of s s] unfolding run_opened.hyps(2) by auto
next
  case (session_added db k db' x)
  then have "k \<noteq> sid" by auto
  then show ?case
    using session_added.hyps(4) session_added.prems(2) run_keep[of s s] unfolding session_added.hyps(2) by (auto simp: attempts_of_def)
qed

text \<open>What every step of a run keeps, every history keeps.\<close>

lemma run_always:
  assumes steps: "table_step\<^sup>*\<^sup>* db db'" and ok: "runs_ok db" and s: "map_of (sv_sessions db) sid = Some s" "es_start_message_id s \<noteq> None"
    and start: "P s (attempts_of sid db)"
    and keeps: "\<And>s as s' as'. run_step s as s' as' \<Longrightarrow> run_ok s as \<Longrightarrow> P s as \<Longrightarrow> P s' as'"
  shows "\<exists>s'. map_of (sv_sessions db') sid = Some s' \<and> es_start_message_id s' \<noteq> None \<and> P s' (attempts_of sid db')"
  using steps
proof (induction rule: rtranclp_induct)
  case base
  then show ?case using s start by blast
next
  case (step y z)
  then obtain x where x: "map_of (sv_sessions y) sid = Some x" "es_start_message_id x \<noteq> None" "P x (attempts_of sid y)" by blast
  have y: "runs_ok y" using table_steps_ok[OF step.hyps(1) ok] .
  obtain x' where x': "map_of (sv_sessions z) sid = Some x'" "run_step x (attempts_of sid y) x' (attempts_of sid z)"
    using run_follows[OF step.hyps(2) runs_ok_distinct[OF y] x(1,2)] by blast
  have "run_ok x (attempts_of sid y)" using y map_of_SomeD[OF x(1)] x(2) by (auto simp: runs_ok_def)
  then show ?case using keeps[OF x'(2) _ x(3)] x' run_step_keeps[OF x'(2)] x(2) by auto
qed

definition cancelled_run :: "string list \<Rightarrow> execution_session \<Rightarrow> attempt_row list \<Rightarrow> bool" where
  "cancelled_run ids s as \<longleftrightarrow> es_cancel_requested s \<and> es_state s \<noteq> ''Retrying'' \<and> map at_id as = ids"

lemma cancelled_run_keeps:
  "run_step s as s' as' \<Longrightarrow> cancelled_run ids s as \<Longrightarrow> cancelled_run ids s' as'"
proof (induction rule: run_step.induct)
  case (run_closed s c g st retry s' as)
  have "map at_id (map (\<lambda>a. if at_id a = c \<and> opened a then g a else a) as) = map at_id as"
    using run_closed.hyps(4) by (auto simp: closes_def)
  then show ?case using run_closed by (auto simp: cancelled_run_def same_run_def is_terminal_def)
qed (auto simp: cancelled_run_def same_run_def cancelled_session_def split: if_splits)

definition final_run :: "execution_session \<Rightarrow> attempt_row list \<Rightarrow> execution_session \<Rightarrow> attempt_row list \<Rightarrow> bool" where
  "final_run s0 as0 s as \<longleftrightarrow> is_terminal (es_state s) \<and> es_state s = es_state s0 \<and> as = as0 \<and> es_attempt_count s = es_attempt_count s0"

lemma final_run_keeps: "run_step s as s' as' \<Longrightarrow> final_run s0 as0 s as \<Longrightarrow> final_run s0 as0 s' as'"
  using run_step_final[of s as s' as'] by (auto simp: final_run_def same_run_def)

section \<open>Properties\<close>

lemma history_run:
  assumes "run_history env db" "run_session rid sid db = Some s"
  shows "runs_ok db" "map_of (sv_sessions db) sid = Some s" "es_start_message_id s \<noteq> None" "run_ok s (attempts_of sid db)"
proof -
  show ok: "runs_ok db" by (rule run_history_ok[OF assms(1)])
  show m: "map_of (sv_sessions db) sid = Some s" by (rule run_session_Some[OF assms(2)])
  show st: "es_start_message_id s \<noteq> None" using assms(2) by (auto simp: run_session_def split: option.splits if_splits)
  show "run_ok s (attempts_of sid db)" using ok map_of_SomeD[OF m] st by (auto simp: runs_ok_def)
qed

lemma current_ok_unique:
  assumes "current_ok current as" "a \<in> set as" "opened a"
  shows "a = last as" "current = Some (at_id a)"
proof -
  obtain c where c: "current = Some c" "as \<noteq> []" "at_id (last as) = c" "list_all (\<lambda>a. \<not> opened a) (butlast as)"
    using assms by (auto simp: current_ok_def list_all_iff split: option.splits)
  have "a \<notin> set (butlast as)" using c(4) assms(3) by (auto simp: list_all_iff)
  moreover have "set as = insert (last as) (set (butlast as))" using c(2) by (metis append_butlast_last_id list.simps(15) rotate1.simps(2) set_rotate1)
  ultimately show "a = last as" using assms(2) by auto
  then show "current = Some (at_id a)" using c by simp
qed

lemma single_member: "length (filter p xs) \<le> 1 \<Longrightarrow> x \<in> set xs \<Longrightarrow> p x \<Longrightarrow> y \<in> set xs \<Longrightarrow> p y \<Longrightarrow> x = y"
proof -
  assume l: "length (filter p xs) \<le> 1" and "x \<in> set xs" "p x" "y \<in> set xs" "p y"
  then have "x \<in> set (filter p xs)" "y \<in> set (filter p xs)" by simp_all
  then show "x = y" using l by (cases "filter p xs") auto
qed

text \<open>C19. The attempts of a clarification run. In every history, the attempts of a run are numbered from one
  without gaps, there are as many as the run counts and never more than three; at most the last is open, and it
  is the one the run names as current; a run that waits for a retry or has ended has none; and a requirement has at
  most one run that has not ended.\<close>

theorem clarification_runs_ordered:
  assumes "run_history env db" "run_session rid sid db = Some s"
  shows "map at_attempt_number (attempts_of sid db) = map int [1..<Suc (length (attempts_of sid db))]
    \<and> es_attempt_count s = int (length (attempts_of sid db)) \<and> length (attempts_of sid db) \<le> 3
    \<and> (\<forall>a\<in>set (attempts_of sid db). at_outcome a = None \<longrightarrow> a = last (attempts_of sid db) \<and> es_current_attempt_id s = Some (at_id a))
    \<and> (es_state s \<in> {''Retrying'', ''Completed'', ''Failed''} \<longrightarrow> (\<forall>a\<in>set (attempts_of sid db). at_outcome a \<noteq> None))
    \<and> (\<forall>k x. run_session rid k db = Some x \<and> \<not> is_terminal (es_state x) \<and> \<not> is_terminal (es_state s) \<longrightarrow> k = sid)"
proof (intro conjI)
  note h = history_run[OF assms]
  have c: "current_ok (es_current_attempt_id s) (attempts_of sid db)" using h(4) by (simp add: run_ok_def)
  show "map at_attempt_number (attempts_of sid db) = map int [1..<Suc (length (attempts_of sid db))]"
    "es_attempt_count s = int (length (attempts_of sid db))" "length (attempts_of sid db) \<le> 3"
    using h(4) by (simp_all only: run_ok_def numbered_def DEFAULT_MAX_ATTEMPTS_def) auto
  show "\<forall>a\<in>set (attempts_of sid db). at_outcome a = None \<longrightarrow> a = last (attempts_of sid db) \<and> es_current_attempt_id s = Some (at_id a)"
    using current_ok_unique[OF c] by (simp add: opened_def)
  show "es_state s \<in> {''Retrying'', ''Completed'', ''Failed''} \<longrightarrow> (\<forall>a\<in>set (attempts_of sid db). at_outcome a \<noteq> None)"
  proof
    assume "es_state s \<in> {''Retrying'', ''Completed'', ''Failed''}"
    then have "es_state s = ''Retrying'' \<or> is_terminal (es_state s)" by (auto simp: is_terminal_def)
    then have "es_current_attempt_id s = None" using h(4) unfolding run_ok_def by blast
    then show "\<forall>a\<in>set (attempts_of sid db). at_outcome a \<noteq> None" using c by (simp add: current_ok_def list_all_iff opened_def)
  qed
  show "\<forall>k x. run_session rid k db = Some x \<and> \<not> is_terminal (es_state x) \<and> \<not> is_terminal (es_state s) \<longrightarrow> k = sid"
  proof (intro allI impI, elim conjE)
    fix k x
    assume x: "run_session rid k db = Some x" "\<not> is_terminal (es_state x)" and s: "\<not> is_terminal (es_state s)"
    have "(k, x) = (sid, s)"
      by (rule single_member[of "\<lambda>(_, s). in_slot rid s" "sv_sessions db"])
        (use h(1) x s assms(2) in \<open>auto simp: runs_ok_def in_slot_def run_session_def split: option.splits if_splits dest: map_of_SomeD\<close>)
    then show "k = sid" by simp
  qed
qed

text \<open>Every run can be read. In every history, the query of a run by its identity succeeds; its phase is that of
  its state and its owner, and its status is terminal exactly when its phase is.\<close>

theorem run_always_readable:
  assumes "run_history env db" "run_session rid sid db = Some s"
  shows "\<exists>run. clarification_run_by_id now rid sid db = Inr run \<and> clr_run_id run = sid \<and> clr_requirement_id run = rid
    \<and> clr_phase run = (if is_terminal (es_state s) then PhaseTerminal else if es_daemon_id s = None then AwaitingAssignment else PhaseActive)
    \<and> (clr_phase run = PhaseTerminal \<longleftrightarrow> clr_status run \<in> {RunCompleted, RunFailed})
    \<and> (clr_phase run = AwaitingAssignment \<longrightarrow> clr_status run = RunUnavailable \<and> clr_attempt_count run = 0)
    \<and> unat (clr_attempt_count run) = length (attempts_of sid db)"
proof -
  note h = history_run[OF assms]
  have r: "es_requirement_id s = Some rid" using assms(2) by (auto simp: run_session_def split: option.splits if_splits)
  obtain mid where m: "es_start_message_id s = Some mid" using h(3) by blast
  have n: "es_attempt_count s = int (length (attempts_of sid db))" "length (attempts_of sid db) \<le> 3"
    using h(4) by (simp_all add: run_ok_def DEFAULT_MAX_ATTEMPTS_def)
  then have u: "u64_try ClInvalidSessionState (es_attempt_count s) = Inr (of_nat (length (attempts_of sid db)))"
    "unat (of_nat (length (attempts_of sid db)) :: u64) = length (attempts_of sid db)"
    by (simp_all add: u64_try_def unat_of_nat)
  have st: "es_state s \<in> {''Idle'', ''Running'', ''Retrying'', ''Completed'', ''Failed''}"
    and un: "es_daemon_id s = None \<Longrightarrow> attempts_of sid db = [] \<and> es_state s \<in> {''Idle'', ''Failed''}"
    using h(4) by (simp_all add: run_ok_def)
  show ?thesis
    unfolding clarification_run_by_id_def using assms(2) r m u st un
    by (cases "es_daemon_id s") (auto simp: into_run_def Let_def is_terminal_def)
qed

text \<open>C20. Cancellation is final. In every history, once a cancellation has succeeded, no attempt is ever added to
  the run and it never waits for a retry again, whatever transactions follow; a run that had no attempt in progress
  has ended at once and stays so, with the same attempts.\<close>

theorem cancelled_run_never_resumes:
  assumes "run_history env db" "run_session rid sid db = Some s"
    and "cancel_clarification env build rnd now rid sid db = (Inr result, db')" "(server_call env)\<^sup>*\<^sup>* db' db''"
  shows "\<exists>s''. run_session rid sid db'' = Some s'' \<and> es_cancel_requested s'' \<and> es_state s'' \<noteq> ''Retrying''
    \<and> map at_id (attempts_of sid db'') = map at_id (attempts_of sid db)
    \<and> (es_current_attempt_id s = None \<longrightarrow> is_terminal (es_state s'') \<and> attempts_of sid db'' = attempts_of sid db)"
proof -
  note h = history_run[OF assms(1,2)]
  have tx: "cancel_clarification_tx env build rnd now rid sid db = Inr (result, db')"
    using assms(3) by (auto simp: cancel_clarification_def run_tx_def split: sum.splits prod.splits)
  have ok': "runs_ok db'" using cancel_run.keeps_runs[OF h(1) assms(3)] .
  have rid: "es_requirement_id s = Some rid" using assms(2) by (auto simp: run_session_def split: option.splits if_splits)
  obtain s' where s': "map_of (sv_sessions db') sid = Some s'" "es_start_message_id s' \<noteq> None" "es_requirement_id s' = Some rid"
    and c: "es_cancel_requested s'" "es_current_attempt_id s = None \<longrightarrow> is_terminal (es_state s')" "es_state s' \<noteq> ''Retrying''"
    and a: "attempts_of sid db' = attempts_of sid db"
    using cancel_effect[OF tx assms(2)]
  proof (elim disjE conjE exE)
    fix c
    assume t: "\<not> is_terminal (es_state s)" and at: "sv_attempts db' = sv_attempts db"
      and ss: "sv_sessions db' = sv_sessions (on_session sid (\<lambda>s. (cancelled_session now s)\<lparr>es_cancel_command_id := c s\<rparr>) db)"
    show thesis
      by (rule that[of "(cancelled_session now s)\<lparr>es_cancel_command_id := c s\<rparr>"])
        (use h ss at t rid in \<open>auto simp: map_of_on_session cancelled_session_def attempts_of_def is_terminal_def run_ok_def\<close>)
  next
    assume "is_terminal (es_state s)" "es_cancel_requested s" "db' = db"
    then show thesis using that[of s] h rid by (auto simp: is_terminal_def)
  qed
  note steps = server_calls_steps[OF assms(4) ok']
  define P where "P x as \<longleftrightarrow> cancelled_run (map at_id (attempts_of sid db)) x as \<and> es_requirement_id x = Some rid
      \<and> (es_current_attempt_id s = None \<longrightarrow> final_run s' (attempts_of sid db) x as)" for x as
  have start: "P s' (attempts_of sid db')" using c a s'(3) by (simp add: P_def cancelled_run_def final_run_def)
  have "P y bs" if "run_step x as y bs" "P x as" for x as y bs
    using that(2) cancelled_run_keeps[OF that(1)] final_run_keeps[OF that(1)] run_step_keeps[OF that(1)] unfolding P_def by simp
  then obtain s'' where "map_of (sv_sessions db'') sid = Some s''" "es_start_message_id s'' \<noteq> None" "P s'' (attempts_of sid db'')"
    using run_always[OF steps ok' s'(1,2), of P] start by blast
  then show ?thesis by (intro exI[of _ s'']) (auto simp: run_session_def cancelled_run_def final_run_def P_def)
qed

section \<open>Retries\<close>

lemma claim_retry_other:
  assumes "claim_retry env build rnd now sid db = Inr (w, db1)"
  shows "sv_daemons db1 = sv_daemons db
    \<and> (k \<noteq> sid \<longrightarrow> map_of (sv_sessions db1) k = map_of (sv_sessions db) k \<and> attempts_of k db1 = attempts_of k db)"
proof -
  consider f where "db1 = on_session sid f db"
    | did cid seq payload db2 aid n db3 f where "insert_command env cid sid did seq payload db = Inr db2"
      "insert_execution_attempt aid sid n cid ''session.resume'' db2 = Inr db3" "db1 = on_session sid f db3"
    using assms by (auto simp: claim_retry_def and_then_Inr_iff Let_def split: option.splits if_splits)
  then show ?thesis
  proof cases
    case 1
    have "sv_daemons db1 = sv_daemons db" "sv_attempts db1 = sv_attempts db" using 1 by (simp_all add: on_session_def)
    then show ?thesis using 1 by (simp add: map_of_on_session option.map_id attempts_of_def)
  next
    case 2
    have d2: "sv_daemons db2 = sv_daemons db" using 2(1) by (auto simp: insert_command_def and_then_Inr_iff split: if_splits)
    from 2(2) obtain a where a: "db3 = db2\<lparr>sv_attempts := sv_attempts db2 @ [a]\<rparr>" "at_session_id a = sid"
      by (rule insert_execution_attempt_Inr) blast
    note c = insert_command_Inr[OF 2(1)]
    have "sv_daemons db1 = sv_daemons db" "sv_attempts db1 = sv_attempts db @ [a]" using 2(3) a(1) c d2 by (simp_all add: on_session_def)
    then show ?thesis using 2(3) a c by (simp add: map_of_on_session option.map_id attempts_of_def)
  qed
qed

lemma terminal_class_daemons: "sv_daemons db1 = sv_daemons db \<Longrightarrow> terminal_class s db1 = terminal_class s db"
  by (simp add: terminal_class_def owner_valid_def)

lemma claim_retries_other:
  assumes "claim_retries env build rnd now sids db = Inr (ws, db')"
  shows "k \<notin> set sids \<Longrightarrow> map_of (sv_sessions db') k = map_of (sv_sessions db) k \<and> attempts_of k db' = attempts_of k db"
    "length ws = length sids"
  using assms
proof (induction sids arbitrary: db ws)
  case (Cons sid sids)
  { case 1 then show ?case using Cons.IH(1) claim_retry_other by (fastforce simp: and_then_Inr_iff) }
  { case 2 then show ?case using Cons.IH(2) by (fastforce simp: and_then_Inr_iff) }
qed auto

lemma claim_retries_settle:
  assumes "claim_retries env build rnd now sids db = Inr (ws, db')" "distinct sids" "sid \<in> set sids"
    "map_of (sv_sessions db) sid = Some s" "es_state s = ''Retrying''"
  shows "\<exists>s'. map_of (sv_sessions db') sid = Some s'
    \<and> (if terminal_class s db = None then resumed_run s (attempts_of sid db) s' (attempts_of sid db')
       else es_state s' = ''Failed'' \<and> attempts_of sid db' = attempts_of sid db)"
  using assms
proof (induction sids arbitrary: db ws)
  case (Cons k sids)
  obtain w db1 ws' where c: "claim_retry env build rnd now k db = Inr (w, db1)"
    and r: "claim_retries env build rnd now sids db1 = Inr (ws', db')"
    using Cons.prems(1) by (auto simp: and_then_Inr_iff)
  show ?case
  proof (cases "sid = k")
    case False
    then have e: "map_of (sv_sessions db1) sid = Some s" "terminal_class s db1 = terminal_class s db" "attempts_of sid db1 = attempts_of sid db"
      using claim_retry_other[OF c, of sid] Cons.prems(4) terminal_class_daemons[of db1 db] by simp_all
    show ?thesis using Cons.IH[OF r _ _ e(1) Cons.prems(5), unfolded e(2,3)] Cons.prems(2,3) False by fastforce
  next
    case True
    have o: "map_of (sv_sessions db') sid = map_of (sv_sessions db1) sid \<and> attempts_of sid db' = attempts_of sid db1"
      by (rule claim_retries_other(1)[OF r]) (use True Cons.prems(2) in simp)
    from Cons.prems(4,5) c[folded True] show ?thesis
    proof (rule claim_retry_effect)
      fix f
      assume f: "sv_sessions db1 = sv_sessions (on_session sid f db)"
        "terminal_class s db \<noteq> None \<Longrightarrow> es_state (f s) = ''Failed'' \<and> rk_command w = None \<and> sv_attempts db1 = sv_attempts db"
        "terminal_class s db = None \<Longrightarrow> resumed_run s (attempts_of sid db) (f s) (attempts_of sid db1) \<and> rk_command w \<noteq> None"
      have "map_of (sv_sessions db') sid = Some (f s)" using o Cons.prems(4) by (simp add: f(1) map_of_on_session)
      moreover have "attempts_of sid db' = attempts_of sid db" if "terminal_class s db \<noteq> None" using o f(2)[OF that] by (simp add: attempts_of_def)
      ultimately show ?thesis using f(2,3) o by auto
    qed
  qed
qed simp

text \<open>C21. A retry that is due is settled by the sweep. In every history, when the sweep succeeds, each run it
  selected is either resumed with exactly one new attempt, which is open and current and whose number is at most
  three, or has failed with the attempts it had (when it is cancelled, exhausted or its owner is
  gone); none of them is due again, and the sweep reports one piece of work for each.\<close>

theorem due_retry_settled:
  assumes "run_history env db" "claim_due_retries env build rnd now locked limit db = (Inr ws, db')"
    and "sid \<in> set (due_retries now locked (nat limit) db)" "run_session rid sid db = Some s"
  shows "\<exists>s'. run_session rid sid db' = Some s'
    \<and> (if terminal_class s db = None
       then resumed_run s (attempts_of sid db) s' (attempts_of sid db') \<and> length (attempts_of sid db') \<le> 3
       else es_state s' = ''Failed'' \<and> attempts_of sid db' = attempts_of sid db)
    \<and> sid \<notin> set (due_retries now' locked' n db') \<and> length ws = length (due_retries now locked (nat limit) db)"
proof -
  note h = history_run[OF assms(1,4)]
  let ?due = "due_retries now locked (nat limit) db"
  have c: "claim_retries env build rnd now ?due db = Inr (ws, db')"
    using assms(2) by (auto simp: claim_due_retries_def run_tx_def split: sum.splits prod.splits if_splits)
  note d = due_retries_sound[OF runs_ok_distinct[OF h(1)]]
  have st: "es_state s = ''Retrying''" using d(2)[OF assms(3)] h(2) by simp
  obtain s' where s': "map_of (sv_sessions db') sid = Some s'"
    and e: "if terminal_class s db = None then resumed_run s (attempts_of sid db) s' (attempts_of sid db')
       else es_state s' = ''Failed'' \<and> attempts_of sid db' = attempts_of sid db"
    using claim_retries_settle[OF c d(1) assms(3) h(2) st] by blast
  have ok': "runs_ok db'" using claim_run.keeps_runs[OF h(1) assms(2)] .
  have steps: "table_step\<^sup>*\<^sup>* db db'" using claim_run.run_contract[OF runs_ok_distinct[OF h(1)] assms(2)] .
  have "es_requirement_id s = Some rid" using assms(4) by (auto simp: run_session_def split: option.splits if_splits)
  then obtain x where x: "map_of (sv_sessions db') sid = Some x" "es_start_message_id x \<noteq> None" "es_requirement_id x = Some rid"
    using run_always[OF steps h(1-3), of "\<lambda>x _. es_requirement_id x = Some rid"] run_step_keeps by auto
  then have run': "run_session rid sid db' = Some s'" using s' by (simp add: run_session_def)
  have "run_ok s' (attempts_of sid db')" using ok' map_of_SomeD[OF s'] x s' by (auto simp: runs_ok_def)
  then have "length (attempts_of sid db') \<le> 3" by (simp add: run_ok_def DEFAULT_MAX_ATTEMPTS_def)
  moreover have "es_state s' \<noteq> ''Retrying''" using e by (auto simp: resumed_run_def split: if_splits)
  then have "sid \<notin> set (due_retries now' locked' n db')"
    using due_retries_sound(2)[OF runs_ok_distinct[OF ok']] s' by fastforce
  ultimately show ?thesis using run' e claim_retries_other(2)[OF c] by auto
qed

section \<open>Events\<close>

lemma shift_one_small: "0 \<le> k \<Longrightarrow> k \<le> 6 \<Longrightarrow> shift_one k = 2 ^ nat k"
proof -
  assume k: "0 \<le> k" "k \<le> 6"
  then have "nat (k mod 2 ^ 32) mod 64 = nat k" by simp
  then show ?thesis using k by (simp add: shift_one_def Let_def)
qed

lemma i64_saturate_id: "- (2 ^ 63) \<le> n \<Longrightarrow> n \<le> i64_max \<Longrightarrow> i64_saturate n = n"
  by (simp add: i64_saturate_def)

lemma retry_delay_eq:
  assumes "1 \<le> n" "n \<le> 2 ^ 62" "0 \<le> j" "j \<le> 25"
  shows "retry_delay_seconds n j = (let base = min (5 * 2 ^ nat (min (n - 1) 6)) 300 in min (base + base * j div 100) 300)"
proof -
  define e where "e = min (n - 1) 6"
  define q where "q = (2 :: int) ^ nat e"
  define b where "b = min (5 * q) (300 :: int)"
  have "i64_saturate (n - 1) = n - 1" using assms(1,2) by (intro i64_saturate_id) (simp_all add: i64_max_def)
  then have e: "0 \<le> e" "e \<le> 6" "min (i64_saturate (n - 1)) 6 = e" using assms(1) by (simp_all add: e_def)
  have "q \<le> 2 ^ 6" unfolding q_def by (rule power_increasing) (use e(2) in simp_all)
  moreover have "1 \<le> q" by (simp add: q_def)
  ultimately have b: "0 \<le> b" "b \<le> 300" and sq: "i64_saturate (5 * q) = 5 * q"
    by (auto simp: b_def i64_max_def intro!: i64_saturate_id)
  have bj: "0 \<le> b * j" "b * j \<le> 300 * 25" using b assms(3,4) by (simp, intro mult_mono) auto
  have sj: "i64_saturate (b * j) = b * j" by (rule i64_saturate_id) (use bj in \<open>simp_all add: i64_max_def\<close>)
  have "i64_saturate (b + b * j div 100) = b + b * j div 100" by (rule i64_saturate_id) (use b bj in \<open>simp_all add: i64_max_def\<close>)
  then show ?thesis
    unfolding retry_delay_seconds_def Let_def e(3) shift_one_small[OF e(1,2)] RETRY_BASE_SECONDS_def RETRY_MAX_SECONDS_def
      e_def[symmetric] q_def[symmetric] sq
    using sj bj by (simp add: div_trunc_def flip: b_def)
qed

lemma retry_delay_bounds:
  assumes "1 \<le> n" "n \<le> 2 ^ 62" "0 \<le> j" "j \<le> 25"
  shows "5 \<le> retry_delay_seconds n j" "retry_delay_seconds n j \<le> 300"
proof -
  define b where "b = min (5 * 2 ^ nat (min (n - 1) 6)) (300 :: int)"
  have "(1 :: int) \<le> 2 ^ nat (min (n - 1) 6)" by simp
  then have "5 \<le> b" by (simp add: b_def)
  moreover from this have "0 \<le> b * j div 100" using assms(3) by (intro pos_imp_zdiv_nonneg_iff[THEN iffD2]) auto
  ultimately show "5 \<le> retry_delay_seconds n j" "retry_delay_seconds n j \<le> 300"
    unfolding retry_delay_eq[OF assms] Let_def b_def[symmetric] by auto
qed

lemma projected_fresh:
  assumes "project_clarification_event env jitter now event_id sid n digest payload ev db = (Inr rc, db')" "\<not> rc_duplicate rc"
  shows "project_event_tx env jitter now event_id sid n digest payload ev db = Inr (Inr rc, db')"
proof -
  obtain v where tx: "project_event_tx env jitter now event_id sid n digest payload ev db = Inr (v, db')"
    and rc: "case_sum (receipt_of_row True) Inr v = Inr rc"
    using assms(1) by (auto simp: project_clarification_event_def run_tx_def split: sum.splits prod.splits)
  have "v = Inr rc" using rc assms(2) by (cases v) (auto simp: receipt_of_row_def and_then_Inr_iff)
  then show ?thesis using tx by simp
qed

lemma advanced_session:
  assumes "advance_clarification_watermark sid seq db = Inr db'" "map_of (sv_sessions db) sid = Some s"
  obtains through sparse where "advance_cursor seq (es_event_ack_through_seq s) (es_event_ack_sparse s) = (through, sparse)"
    "map_of (sv_sessions db') sid = Some (s\<lparr>es_event_ack_through_seq := through, es_event_ack_sparse := sparse\<rparr>)"
    "sv_attempts db' = sv_attempts db" "sv_events db' = sv_events db"
proof -
  obtain through sparse where c: "advance_cursor seq (es_event_ack_through_seq s) (es_event_ack_sparse s) = (through, sparse)"
    by (metis prod.collapse)
  then have db': "db' = on_session sid (\<lambda>s. s\<lparr>es_event_ack_through_seq := through, es_event_ack_sparse := sparse\<rparr>) db"
    using assms by (simp add: advance_clarification_watermark_def)
  have "sv_attempts db' = sv_attempts db" "sv_events db' = sv_events db" by (simp_all add: db' on_session_def)
  then show thesis using that[OF c] assms(2) by (simp add: db' map_of_on_session)
qed

lemma insert_generic_Inr:
  "insert_generic_event_dedupe r db = Inr db' \<Longrightarrow> db' = db\<lparr>sv_events := sv_events db @ [r]\<rparr>
     \<and> \<not> list_ex (\<lambda>x. ev_event_id x = ev_event_id r) (sv_events db)"
  by (auto simp: insert_generic_event_dedupe_def list_ex_iff split: if_splits)

text \<open>C22. What a failed attempt leads to. In every history, a failure that is accepted closes the attempt in
  progress; the run waits for a retry, due between five seconds and five minutes from now, exactly when
  no cancellation is requested, the failure is not of unknown outcome, the owning daemon is not revoked and an
  attempt is left; otherwise it has failed.\<close>

theorem failed_attempt_verdict:
  assumes "run_history env db" "run_session rid sid db = Some s" "0 \<le> jitter" "jitter \<le> 25"
    and "project_clarification_event env jitter now event_id sid n digest payload (EvFailed b reason) db = (Inr rc, db')"
    and "rc_outcome rc = ReceiptAccepted" "\<not> rc_duplicate rc"
  shows "\<exists>s'. run_session rid sid db' = Some s' \<and> es_current_attempt_id s' = None
    \<and> (\<forall>a\<in>set (attempts_of sid db'). at_outcome a \<noteq> None)
    \<and> (if \<not> es_cancel_requested s \<and> \<not> is_unknown_failure reason \<and> owner_valid (es_daemon_id s) db \<and> es_attempt_count s < 3
       then es_state s' = ''Retrying''
         \<and> (\<exists>t. es_next_retry_at s' = Some t \<and> now + 5 * 1000000 \<le> t \<and> t \<le> now + 300 * 1000000)
       else es_state s' = ''Failed'' \<and> es_next_retry_at s' = None)"
  using projected_fresh[OF assms(5,7)]
proof (rule project_event_fresh)
  fix s0 db1 db2
  assume s0: "map_of (sv_sessions db) sid = Some s0"
    and ap: "(if projection_refusal s0 (EvFailed b reason) = None
         then apply_event env jitter now event_id sid s0 (EvFailed b reason) db else Inr db) = Inr db1"
    and d: "insert_generic_event_dedupe (event_row event_id sid (uint n) digest payload (projection_refusal s0 (EvFailed b reason))) db1 = Inr db2"
    and w: "advance_clarification_watermark sid (uint n) db2 = Inr db'"
    and rc: "rc = \<lparr>rc_event_id = event_id, rc_session_id = sid, rc_daemon_event_seq = n,
        rc_outcome = (if projection_refusal s0 (EvFailed b reason) = None then ReceiptAccepted else ReceiptRejected),
        rc_rejection_reason = projection_refusal s0 (EvFailed b reason), rc_duplicate = False\<rparr>"
  note h = history_run[OF assms(1,2)]
  have [simp]: "s0 = s" using h(2) s0 by simp
  have ref: "projection_refusal s (EvFailed b reason) = None" using rc assms(6) by (auto split: if_splits)
  then obtain c where c: "es_current_attempt_id s = Some c" by (auto simp: projection_refusal_def split: if_splits)
  have ok: "run_ok s (attempts_of sid db)" by (rule h(4))
  then have cnt: "1 \<le> es_attempt_count s" "es_attempt_count s \<le> 3" "es_max_attempts s = 3"
    using c by (auto simp: run_ok_def current_ok_def DEFAULT_MAX_ATTEMPTS_def Suc_le_eq)
  obtain st delay cls where v: "failure_verdict s reason jitter db = (st, delay, cls)" by (metis prod.collapse)
  define f where "f = (\<lambda>s :: execution_session. s\<lparr>es_state := st, es_runtime_id := None, es_current_attempt_id := None,
                       es_next_retry_at := map_option (\<lambda>d. now + nat d * 1000000) delay,
                       es_failure_class := Some cls, es_failure_reason := Some cls,
                       es_updated_at := now, es_last_activity_at := now\<rparr>)"
  obtain g db0 where cl: "close_attempt c sid g db = Inr db0" and cg: "closes g" and db1: "db1 = on_session sid f db0"
    using ap ref c v by (auto simp: apply_event_def f_def closes_def and_then_Inr_iff)
  have m1: "map_of (sv_sessions db2) sid = Some (f s)"
    using insert_generic_Inr[OF d] db1 close_attempt_Inr[OF cl] h(2) by (simp add: map_of_on_session)
  obtain through sparse where m': "map_of (sv_sessions db') sid = Some ((f s)\<lparr>es_event_ack_through_seq := through, es_event_ack_sparse := sparse\<rparr>)"
    and a': "sv_attempts db' = sv_attempts db2"
    using advanced_session[OF w m1] by metis
  have at: "sv_attempts db' = map (\<lambda>a. if at_id a = c \<and> at_session_id a = sid \<and> opened a then g a else a) (sv_attempts db)"
    using a' insert_generic_Inr[OF d] db1 close_attempt_Inr[OF cl] by (simp add: on_session_def)
  have "current_ok None (attempts_of sid db')"
    unfolding closed_attempts_of(1)[OF at cg] using closed_attempts(1)[OF _ cg] ok c by (simp add: run_ok_def)
  then have closed: "\<forall>a\<in>set (attempts_of sid db'). at_outcome a \<noteq> None" by (auto simp: current_ok_def list_all_iff opened_def)
  have delay: "5 \<le> retry_delay_seconds (es_attempt_count s) jitter" "retry_delay_seconds (es_attempt_count s) jitter \<le> 300"
    using retry_delay_bounds[of "es_attempt_count s" jitter] cnt assms(3,4) by simp_all
  let ?s' = "(f s)\<lparr>es_event_ack_through_seq := through, es_event_ack_sparse := sparse\<rparr>"
  have "run_session rid sid db' = Some ?s'" using m' assms(2) h(2) by (auto simp: run_session_def f_def split: option.splits if_splits)
  then show ?thesis
    using closed v cnt delay
    by (intro exI[of _ ?s']) (auto simp: f_def failure_verdict_def Let_def split: if_splits)
qed

lemma absorb_next_ge: "absorb_next through sparse = (t, sp) \<Longrightarrow> through \<le> t"
proof (induction through sparse rule: absorb_next.induct)
  case (1 through sparse)
  then show ?case by (cases "through + 1 \<in> set sparse") (auto simp: absorb_next.simps[of through])
qed

lemma advance_cursor_covers: "advance_cursor seq through sparse = (t, sp) \<Longrightarrow> through < seq \<Longrightarrow> seq \<le> t \<or> seq \<in> set sp"
  using absorb_next_ge[of seq sparse t sp] by (auto simp: advance_cursor_def split: if_splits)

text \<open>An event is projected once. When the projection of an event has been recorded, accepted or refused, the
  session's cursor covers its sequence number; delivering it again returns the recorded receipt as a duplicate
  and changes nothing, whatever the payload would do to the run now; and its identity cannot be used
  for another session, sequence number or payload digest.\<close>

theorem event_projected_once:
  assumes "project_clarification_event env jitter now event_id sid n digest payload ev db = (Inr rc, db')" "\<not> rc_duplicate rc"
  shows "(\<exists>s. map_of (sv_sessions db') sid = Some s \<and> (uint n \<le> es_event_ack_through_seq s \<or> uint n \<in> set (es_event_ack_sparse s)))
    \<and> project_clarification_event env jitter' now' event_id sid n digest payload ev db' = (Inr (rc\<lparr>rc_duplicate := True\<rparr>), db')
    \<and> (sid' \<noteq> sid \<or> n' \<noteq> n \<or> digest' \<noteq> digest \<longrightarrow>
        (\<exists>e. project_clarification_event env' jitter' now' event_id sid' n' digest' payload' ev' db' = (Inl e, db')))"
  using projected_fresh[OF assms]
proof (rule project_event_fresh)
  fix s db1 db2
  assume s: "map_of (sv_sessions db) sid = Some s"
    and ap: "(if projection_refusal s ev = None then apply_event env jitter now event_id sid s ev db else Inr db) = Inr db1"
    and d: "insert_generic_event_dedupe (event_row event_id sid (uint n) digest payload (projection_refusal s ev)) db1 = Inr db2"
    and w: "advance_clarification_watermark sid (uint n) db2 = Inr db'"
    and st: "es_start_message_id s \<noteq> None" and lt: "es_event_ack_through_seq s < uint n" "uint n \<le> i64_max"
    and input: "event_input_ok env event_id sid n digest payload ev = Inr ()"
    and rc: "rc = \<lparr>rc_event_id = event_id, rc_session_id = sid, rc_daemon_event_seq = n,
        rc_outcome = (if projection_refusal s ev = None then ReceiptAccepted else ReceiptRejected),
        rc_rejection_reason = projection_refusal s ev, rc_duplicate = False\<rparr>"
  let ?x = "event_row event_id sid (uint n) digest payload (projection_refusal s ev)"
  have "\<exists>s1. map_of (sv_sessions db1) sid = Some s1 \<and> es_start_message_id s1 = es_start_message_id s
      \<and> es_event_ack_through_seq s1 = es_event_ack_through_seq s"
    using ap s
    by (auto simp: apply_event_def touch_session_def map_of_on_session and_then_Inr_iff dest!: close_attempt_Inr
        split: if_splits clarification_event.splits option.splits prod.splits)
  then obtain s1 where s1: "map_of (sv_sessions db2) sid = Some s1" "es_start_message_id s1 \<noteq> None" "es_event_ack_through_seq s1 < uint n"
    using insert_generic_Inr[OF d] st lt by auto
  from w s1(1) obtain through sparse where c: "advance_cursor (uint n) (es_event_ack_through_seq s1) (es_event_ack_sparse s1) = (through, sparse)"
    and m': "map_of (sv_sessions db') sid = Some (s1\<lparr>es_event_ack_through_seq := through, es_event_ack_sparse := sparse\<rparr>)"
    and e': "sv_events db' = sv_events db2" by (rule advanced_session)
  have f: "find (\<lambda>r. ev_event_id r = event_id) (sv_events db') = Some ?x"
  proof -
    have "\<not> list_ex (\<lambda>x. ev_event_id x = event_id) (sv_events db1)" using insert_generic_Inr[OF d] by (simp add: event_row_def)
    then have "find (\<lambda>r. ev_event_id r = event_id) (sv_events db1 @ [?x]) = Some ?x"
      by (rule find_snoc_new) (simp add: event_row_def)
    then show ?thesis using e' insert_generic_Inr[OF d] by simp
  qed
  have x: "ev_session_id ?x = sid" "ev_daemon_event_seq ?x = uint n" "ev_payload_digest ?x = digest" by (simp_all add: event_row_def)
  have "project_event_tx env jitter' now' event_id sid n digest payload ev db' = Inr (Inl ?x, db')"
    using input lt(2) m' s1(2) f x by (simp add: project_event_tx_def i64_try_def)
  moreover have "receipt_of_row True ?x = Inr (rc\<lparr>rc_duplicate := True\<rparr>)"
    by (simp add: receipt_of_row_def event_row_def rc)
  ultimately have again: "project_clarification_event env jitter' now' event_id sid n digest payload ev db' = (Inr (rc\<lparr>rc_duplicate := True\<rparr>), db')"
    by (simp add: project_clarification_event_def run_tx_def)
  have "\<exists>e. project_event_tx env' jitter' now' event_id sid' n' digest' payload' ev' db' = Inl e"
    if diff: "sid' \<noteq> sid \<or> n' \<noteq> n \<or> digest' \<noteq> digest"
  proof (rule ccontr)
    assume "\<nexists>e. project_event_tx env' jitter' now' event_id sid' n' digest' payload' ev' db' = Inl e"
    then obtain v where "project_event_tx env' jitter' now' event_id sid' n' digest' payload' ev' db' = Inr v"
      by (metis old.sum.exhaust)
    moreover have "sid' \<noteq> sid \<or> uint n' \<noteq> uint n \<or> digest' \<noteq> digest" using diff by (simp add: word_uint_eq_iff)
    ultimately show False using f
      by (auto simp: project_event_tx_def and_then_Inr_iff event_row_def split: option.splits if_splits)
  qed
  then show ?thesis
    using again m' advance_cursor_covers[OF c s1(3)] by (auto simp: project_clarification_event_def run_tx_def)
qed

section \<open>A sample history\<close>

definition run_digests :: digest_env where
  "run_digests = \<lparr>dg_from_str = \<lambda>_. Some JNull, dg_to_vec = \<lambda>_. Some ''null'', dg_md5_hex = id, dg_sha256_hex = id\<rparr>"

definition run_env :: clarification_env where
  "run_env = \<lparr>cl_store = \<lparr>st_row_ok = (\<lambda>_. True), st_feedback_ok = (\<lambda>_. True), st_ilike = (\<lambda>_ _. True)\<rparr>,
     cl_digests = run_digests, cl_capabilities = (\<lambda>c. Some [c]), cl_message_ok = (\<lambda>_. True), cl_retention_seconds = 60\<rparr>"

definition run_db0 :: server_db where
  "run_db0 = \<lparr>sv_requirements = [\<lparr>rw_id = ''r1'', rw_title = ''Login'', rw_description = ''Email code'', rw_summary = [],
       rw_acceptance_criteria = [], rw_assumptions = [], rw_open_questions = [], rw_status = ''Draft'', rw_revision = 1,
       rw_state_version = 1, rw_created_by = ''u1'', rw_created_at = 0, rw_updated_at = 0\<rparr>],
     sv_conversations = [(''c1'', ''r1'')], sv_audit = [], sv_assessments = [], sv_sessions = [], sv_events = [],
     sv_legacy_events = [], sv_repositories = [], sv_attempts = [], sv_outbox = [], sv_tombstones = [],
     sv_messages = [\<lparr>mg_id = ''m1'', mg_conversation_id = ''c1'', mg_author_user_id = Some ''u1'', mg_kind = ''requester'',
       mg_body = ''Please clarify'', mg_source_event_id = None\<rparr>],
     sv_message_map = [], sv_activities = [],
     sv_daemons = [\<lparr>dn_daemon_id = ''d1'', dn_capabilities = ''clarify'', dn_protocol_version = ''0.1'', dn_connected = True,
       dn_revoked = False, dn_last_seen_at = Some 10\<rparr>]\<rparr>"

definition run_input :: clarification_start_input where
  "run_input = \<lparr>csi_requirement_id = ''r1'', csi_start_message_id = ''m1'', csi_expected_state_version = 1,
     csi_context = JObject [(''requirement'', JObject [(''id'', JString ''r1''), (''revision'', JNumber ''1'')]),
       (''conversation'', JObject [(''excerpt'', JArray [JObject [(''message_id'', JString ''m1'')]])]),
       (''repositories'', JArray [])],
     csi_context_requirement_revision = 1, csi_repository_ids = [], csi_required_capabilities = [''clarify'']\<rparr>"

definition run_sid :: string where
  "run_sid = random_hex 16 (\<lambda>_. 1)"

definition run_db1 :: server_db where
  "run_db1 = snd (start_clarification run_env (\<lambda>_ _ _ _ _. Some ''start'') (\<lambda>_. 1) (\<lambda>_. 2) 20 run_input run_db0)"

definition fail_sample :: "server_db \<Rightarrow> (clarification_event_error + event_receipt) \<times> server_db" where
  "fail_sample = project_clarification_event run_env 10 30 ''e1'' run_sid 1 ''null'' ''p'' (EvFailed False ''exit'')"

definition run_db2 :: server_db where
  "run_db2 = snd (fail_sample run_db1)"

definition claim_sample :: "server_db \<Rightarrow> (clarification_error + retry_work list) \<times> server_db" where
  "claim_sample = claim_due_retries run_env (\<lambda>_ _ _ _. Some ''resume'') (\<lambda>_ _. 3) 9000000 {} 10"

definition run_db3 :: server_db where
  "run_db3 = snd (claim_sample run_db2)"

definition cancel_sample :: "server_db \<Rightarrow> (clarification_error + clarification_command_result) \<times> server_db" where
  "cancel_sample = cancel_clarification run_env (\<lambda>_ _ _ _. Some ''cancel'') (\<lambda>_. 4) 40 ''r1'' run_sid"

lemma run_db_history: "run_history run_env run_db1" "run_history run_env run_db2" "run_history run_env run_db3"
proof -
  have "run_history run_env run_db0" by (rule runs_start) (simp_all add: run_db0_def)
  then show 1: "run_history run_env run_db1" unfolding run_db1_def by (rule runs_call) (rule call_start[OF surjective_pairing])
  then show 2: "run_history run_env run_db2" unfolding run_db2_def fail_sample_def by (rule runs_call) (rule call_project[OF surjective_pairing])
  then show "run_history run_env run_db3" unfolding run_db3_def claim_sample_def by (rule runs_call) (rule call_claim[OF surjective_pairing])
qed

lemma sample_runs:
  "\<exists>s. run_session ''r1'' run_sid run_db1 = Some s \<and> es_attempt_count s = 1 \<and> \<not> es_cancel_requested s \<and> owner_valid (es_daemon_id s) run_db1"
  "\<exists>s. run_session ''r1'' run_sid run_db2 = Some s \<and> es_state s = ''Retrying'' \<and> terminal_class s run_db2 = None"
  "\<exists>s. run_session ''r1'' run_sid run_db3 = Some s \<and> es_attempt_count s = 2"
proof -
  have "case run_session ''r1'' run_sid run_db1 of None \<Rightarrow> False
    | Some s \<Rightarrow> es_attempt_count s = 1 \<and> \<not> es_cancel_requested s \<and> owner_valid (es_daemon_id s) run_db1" by code_simp
  then show "\<exists>s. run_session ''r1'' run_sid run_db1 = Some s \<and> es_attempt_count s = 1 \<and> \<not> es_cancel_requested s \<and> owner_valid (es_daemon_id s) run_db1"
    by (auto split: option.splits)
  have "case run_session ''r1'' run_sid run_db2 of None \<Rightarrow> False
    | Some s \<Rightarrow> es_state s = ''Retrying'' \<and> terminal_class s run_db2 = None" by code_simp
  then show "\<exists>s. run_session ''r1'' run_sid run_db2 = Some s \<and> es_state s = ''Retrying'' \<and> terminal_class s run_db2 = None"
    by (auto split: option.splits)
  have "case run_session ''r1'' run_sid run_db3 of None \<Rightarrow> False | Some s \<Rightarrow> es_attempt_count s = 2" by code_simp
  then show "\<exists>s. run_session ''r1'' run_sid run_db3 = Some s \<and> es_attempt_count s = 2" by (auto split: option.splits)
qed

lemma sample_failed: "\<exists>rc. fail_sample run_db1 = (Inr rc, run_db2) \<and> rc_outcome rc = ReceiptAccepted \<and> \<not> rc_duplicate rc"
proof -
  have "case fst (fail_sample run_db1) of Inl _ \<Rightarrow> False | Inr rc \<Rightarrow> rc_outcome rc = ReceiptAccepted \<and> \<not> rc_duplicate rc" by code_simp
  then show ?thesis unfolding run_db2_def by (cases "fail_sample run_db1") (auto split: sum.splits)
qed

theorem clarification_runs_ordered_witness:
  "map at_attempt_number (attempts_of run_sid run_db3) = map int [1..<Suc (length (attempts_of run_sid run_db3))]
   \<and> length (attempts_of run_sid run_db3) = 2"
proof -
  obtain s where s: "run_session ''r1'' run_sid run_db3 = Some s" "es_attempt_count s = 2" using sample_runs(3) by blast
  then show ?thesis using clarification_runs_ordered[OF run_db_history(3) s(1)] by simp
qed

theorem run_always_readable_witness:
  "\<exists>run. clarification_run_by_id 50 ''r1'' run_sid run_db2 = Inr run \<and> clr_run_id run = run_sid"
proof -
  obtain s where s: "run_session ''r1'' run_sid run_db2 = Some s" using sample_runs(2) by blast
  then show ?thesis using run_always_readable[OF run_db_history(2) s, of 50] by blast
qed

theorem cancelled_run_never_resumes_witness:
  "\<exists>s. run_session ''r1'' run_sid (snd (cancel_sample run_db2)) = Some s \<and> is_terminal (es_state s)"
proof -
  obtain s where s: "run_session ''r1'' run_sid run_db2 = Some s" "es_state s = ''Retrying''" using sample_runs(2) by blast
  have "es_current_attempt_id s = None" using history_run(4)[OF run_db_history(2) s(1)] s(2) by (simp add: run_ok_def)
  moreover have "case fst (cancel_sample run_db2) of Inl _ \<Rightarrow> False | Inr _ \<Rightarrow> True" by code_simp
  then obtain r where "cancel_sample run_db2 = (Inr r, snd (cancel_sample run_db2))" by (cases "cancel_sample run_db2") (auto split: sum.splits)
  ultimately show ?thesis
    using cancelled_run_never_resumes[OF run_db_history(2) s(1) _ rtranclp.rtrancl_refl] unfolding cancel_sample_def by blast
qed

theorem due_retry_settled_witness:
  "\<exists>s s'. run_session ''r1'' run_sid run_db2 = Some s \<and> run_session ''r1'' run_sid run_db3 = Some s'
     \<and> resumed_run s (attempts_of run_sid run_db2) s' (attempts_of run_sid run_db3)"
proof -
  obtain s where s: "run_session ''r1'' run_sid run_db2 = Some s" "terminal_class s run_db2 = None" using sample_runs(2) by blast
  have "case fst (claim_sample run_db2) of Inl _ \<Rightarrow> False | Inr _ \<Rightarrow> True" by code_simp
  then obtain ws where ws: "claim_sample run_db2 = (Inr ws, run_db3)"
    unfolding run_db3_def by (cases "claim_sample run_db2") (auto split: sum.splits)
  have "list_ex (\<lambda>k. k = run_sid) (due_retries 9000000 {} 10 run_db2)" by code_simp
  then have d: "run_sid \<in> set (due_retries 9000000 {} (nat 10) run_db2)" by (simp add: list_ex_iff)
  from due_retry_settled[OF run_db_history(2) ws[unfolded claim_sample_def] d s(1), of 0 "{}" 0] show ?thesis using s by auto
qed

theorem failed_attempt_verdict_witness:
  "\<exists>s t. run_session ''r1'' run_sid run_db2 = Some s \<and> es_state s = ''Retrying'' \<and> es_next_retry_at s = Some t
     \<and> 30 + 5 * 1000000 \<le> t \<and> t \<le> 30 + 300 * 1000000"
proof -
  obtain s where s: "run_session ''r1'' run_sid run_db1 = Some s" "es_attempt_count s = 1" "\<not> es_cancel_requested s"
    "owner_valid (es_daemon_id s) run_db1" using sample_runs(1) by blast
  obtain rc where rc: "fail_sample run_db1 = (Inr rc, run_db2)" "rc_outcome rc = ReceiptAccepted" "\<not> rc_duplicate rc"
    using sample_failed by blast
  have "\<not> is_unknown_failure ''exit''" by code_simp
  then show ?thesis
    using failed_attempt_verdict[OF run_db_history(1) s(1) _ _ rc(1)[unfolded fail_sample_def] rc(2,3)] s(2-4) by auto
qed

theorem event_projected_once_witness:
  "\<exists>rc. fail_sample run_db2 = (Inr rc, run_db2) \<and> rc_duplicate rc"
proof -
  obtain rc where rc: "fail_sample run_db1 = (Inr rc, run_db2)" "\<not> rc_duplicate rc" using sample_failed by blast
  from event_projected_once[OF rc(1)[unfolded fail_sample_def] rc(2), of 10 30]
  show ?thesis unfolding fail_sample_def by (intro exI[of _ "rc\<lparr>rc_duplicate := True\<rparr>"]) simp
qed

end
