(* ===== verification/Auth_Safety.thy ===== *)
theory Auth_Safety
  imports Auth_Store "HOL-Library.Code_Target_Nat"
begin

text \<open>
  What the sign-in transactions guarantee: the key parser, the binding of a code's MAC to its email, its
  identity and its digits, the bound on guesses, the single use of a code, and sessions.
\<close>

section \<open>The key\<close>

lemma hex_value_Some_iff: "hex_value c \<noteq> None \<longleftrightarrow> is_ascii_hexdigit c"
  by (auto simp: hex_value_def is_ascii_hexdigit_def is_ascii_digit_def)

lemma hex_pairs_Inr_iff: "even (length s) \<Longrightarrow> (\<exists>b. hex_pairs s = Inr b) \<longleftrightarrow> list_all is_ascii_hexdigit s"
  by (induction s rule: hex_pairs.induct)
    (auto simp: and_then_Inr_iff hex_value_Some_iff[symmetric] split: option.splits)

lemma hex_digit_value: "k < 16 \<Longrightarrow> hex_value (''0123456789abcdef'' ! k) = Some k"
proof -
  assume "k < 16"
  then have "k \<in> set [0..<16]" by simp
  moreover have "list_all (\<lambda>k. hex_value (''0123456789abcdef'' ! k) = Some k) [0..<16]" by code_simp
  ultimately show ?thesis by (simp only: list_all_iff)
qed

lemma hex_pairs_bytes: "list_all (\<lambda>b. b < 256) bs \<Longrightarrow> hex_pairs (concat (map hex_byte bs)) = Inr bs"
proof (induction bs)
  case (Cons b bs)
  have "b div 16 < 16" using Cons.prems by auto
  then show ?case using Cons by (simp add: hex_byte_def hex_digit_value)
qed simp

lemma length_hex_bytes: "length (concat (map hex_byte bs)) = 2 * length bs"
  by (induction bs) (simp_all add: hex_byte_def)

section \<open>Binding of the MAC\<close>

lemma length_be_bytes [simp]: "length (be_bytes k n) = k"
  by (induction k arbitrary: n) simp_all

lemma be_bytes_inject: "n < 256 ^ k \<Longrightarrow> m < 256 ^ k \<Longrightarrow> be_bytes k n = be_bytes k m \<Longrightarrow> n = m"
proof (induction k arbitrary: n m)
  case (Suc k)
  have "be_bytes k (n div 256) = be_bytes k (m div 256)" and c: "char_of (n mod 256) = (char_of (m mod 256) :: char)"
    using Suc.prems(3) by simp_all
  then have "n div 256 = m div 256" using Suc.IH Suc.prems(1,2) by (simp add: less_mult_imp_div_less mult.commute)
  moreover have "n mod 256 = m mod 256" using c by (metis char_of_eq_iff mod_mod_trivial of_char_of)
  ultimately show ?case by (metis div_mult_mod_eq)
qed simp

lemma len_prefixed_inject:
  assumes "be_bytes 4 (length a) @ a @ r = be_bytes 4 (length b) @ b @ r'" "length a < 2 ^ 32" "length b < 2 ^ 32"
  shows "a = b \<and> r = r'"
proof -
  have "be_bytes 4 (length a) = be_bytes 4 (length b)" and rest: "a @ r = b @ r'"
    using assms(1) by (simp_all add: append_eq_append_conv)
  then have "length a = length b" using be_bytes_inject[of "length a" 4 "length b"] assms(2,3) by simp
  then show ?thesis using rest by simp
qed

lemma otp_message_Some:
  "otp_message email cid code = Some m \<longleftrightarrow> 0 \<le> cid \<and> length email < 2 ^ 32 \<and> length code < 2 ^ 32
     \<and> m = otp_context @ be_bytes 4 (length email) @ email @ be_bytes 8 (nat cid) @ be_bytes 4 (length code) @ code"
  by (auto simp: otp_message_def append_len_prefixed_def)

lemma otp_message_inject:
  assumes "otp_message e i c = Some m" "otp_message e' i' c' = Some m" "i < 2 ^ 64" "i' < 2 ^ 64"
  shows "e = e' \<and> i = i' \<and> c = c'"
proof -
  note a = assms(1)[unfolded otp_message_Some] and b = assms(2)[unfolded otp_message_Some]
  have "be_bytes 4 (length e) @ e @ be_bytes 8 (nat i) @ be_bytes 4 (length c) @ c
      = be_bytes 4 (length e') @ e' @ be_bytes 8 (nat i') @ be_bytes 4 (length c') @ c'"
    using a b by simp
  then have 1: "e = e'" "be_bytes 8 (nat i) @ be_bytes 4 (length c) @ c = be_bytes 8 (nat i') @ be_bytes 4 (length c') @ c'"
    using len_prefixed_inject a b by blast+
  then have 2: "be_bytes 8 (nat i) = be_bytes 8 (nat i')" "be_bytes 4 (length c) @ c @ [] = be_bytes 4 (length c') @ c' @ []"
    by (simp_all add: append_eq_append_conv)
  have "(256 :: nat) ^ 8 = 2 ^ 64" by simp
  then have "nat i = nat i'" using be_bytes_inject[OF _ _ 2(1)] assms(3,4) by (simp add: nat_less_iff a b)
  then have "i = i'" using a b by (simp add: nat_eq_iff)
  moreover have "c = c'" using len_prefixed_inject[OF 2(2)] a b by blast
  ultimately show ?thesis using 1(1) by blast
qed

section \<open>Traces\<close>

text \<open>
  A trace is the list of the calls' labels. A verification is a guess when the code it was compared with
  was usable and the caller learnt the result; a verification dropped by the database is none.
\<close>

datatype auth_label = Issued string | Guessed string | LoggedOut string | Idle

definition answers :: "auth_fault + authenticated_session \<Rightarrow> bool" where
  "answers r = (case r of Inl e \<Rightarrow> e = Refused InvalidCode | Inr _ \<Rightarrow> True)"

definition issue_label :: "string \<Rightarrow> auth_fault + unit \<Rightarrow> auth_label" where
  "issue_label email r = (case r of Inl _ \<Rightarrow> Idle | Inr _ \<Rightarrow> Issued email)"

definition verify_label :: "nat \<Rightarrow> string \<Rightarrow> auth_db \<Rightarrow> auth_fault + authenticated_session \<Rightarrow> auth_label" where
  "verify_label now email db r = (if active_code now email db \<noteq> None \<and> answers r then Guessed email else Idle)"

inductive auth_call :: "auth_env \<Rightarrow> auth_label \<Rightarrow> auth_db \<Rightarrow> auth_db \<Rightarrow> bool" for env where
  call_issue: "issue_code env now email code db = (r, db') \<Longrightarrow> auth_call env (issue_label email r) db db'"
| call_verify: "verify_code env rnd1 rnd2 rnd3 now email code db = (r, db') \<Longrightarrow> auth_call env (verify_label now email db r) db db'"
| call_role: "update_user_role uid new_role db = (u, db') \<Longrightarrow> auth_call env Idle db db'"
| call_logout: "auth_call env (LoggedOut token) db (invalidate_session env now token db)"

inductive call_trace :: "(auth_label \<Rightarrow> auth_db \<Rightarrow> auth_db \<Rightarrow> bool) \<Rightarrow> auth_label list \<Rightarrow> auth_db \<Rightarrow> auth_db \<Rightarrow> bool" for op where
  trace_nil: "call_trace op [] db db"
| trace_snoc: "call_trace op ls db db' \<Longrightarrow> op l db' db'' \<Longrightarrow> call_trace op (ls @ [l]) db db''"

definition empty_auth :: auth_db where
  "empty_auth = \<lparr>ad_codes = [], ad_next_code_id = 1, ad_users = [], ad_sessions = [], ad_owner_user_id = None\<rparr>"

section \<open>Invariant\<close>

definition unused :: "string \<Rightarrow> verification_code_row \<Rightarrow> bool" where
  "unused email c \<longleftrightarrow> vc_email c = email \<and> vc_used_at c = None"

definition code_ok :: "int \<Rightarrow> verification_code_row \<Rightarrow> bool" where
  "code_ok n c \<longleftrightarrow> 0 < vc_id c \<and> vc_id c < n \<and> 0 \<le> vc_failed_attempts c \<and> (vc_used_at c = None \<longrightarrow> vc_failed_attempts c < 5)"

definition codes_ok :: "int \<Rightarrow> verification_code_row list \<Rightarrow> bool" where
  "codes_ok n cs \<longleftrightarrow> 0 < n \<and> distinct (map vc_id cs) \<and> list_all (code_ok n) cs \<and> (\<forall>email. length (filter (unused email) cs) \<le> 1)"

definition valid_role :: "string \<Rightarrow> bool" where
  "valid_role r \<longleftrightarrow> r \<in> {''Owner'', ''Admin'', ''RequirementManager'', ''Requester''}"

definition users_ok :: "user_row list \<Rightarrow> bool" where
  "users_ok us \<longleftrightarrow> distinct (map ur_id us) \<and> distinct (map ur_email us) \<and> list_all (valid_role \<circ> ur_role) us"

definition sessions_ok :: "user_row list \<Rightarrow> auth_session_row list \<Rightarrow> bool" where
  "sessions_ok us ss \<longleftrightarrow> distinct (map ss_token_hash ss) \<and> list_all (\<lambda>s. ss_user_id s \<in> ur_id ` set us) ss"

definition owner_ok :: "auth_db \<Rightarrow> bool" where
  "owner_ok db = (case ad_owner_user_id db of None \<Rightarrow> ad_users db = [] | Some uid \<Rightarrow> uid \<in> ur_id ` set (ad_users db))"

definition auth_ok :: "auth_db \<Rightarrow> bool" where
  "auth_ok db \<longleftrightarrow> codes_ok (ad_next_code_id db) (ad_codes db) \<and> users_ok (ad_users db)
     \<and> sessions_ok (ad_users db) (ad_sessions db) \<and> owner_ok db"

text \<open>A row operation that keeps the identity, the email and the date of a code and only spends its tries.\<close>

definition spends :: "verification_code_row list \<Rightarrow> (verification_code_row \<Rightarrow> verification_code_row) \<Rightarrow> bool" where
  "spends cs f \<longleftrightarrow> (\<forall>c\<in>set cs. vc_id (f c) = vc_id c \<and> vc_email (f c) = vc_email c \<and> vc_created_at (f c) = vc_created_at c
     \<and> vc_code_hash (f c) = vc_code_hash c \<and> vc_expires_at (f c) = vc_expires_at c
     \<and> (vc_used_at (f c) = None \<longrightarrow> vc_used_at c = None \<and> vc_failed_attempts (f c) < 5)
     \<and> vc_failed_attempts c \<le> vc_failed_attempts (f c))"

lemma spendsD:
  assumes "spends cs f" "c \<in> set cs"
  shows "vc_id (f c) = vc_id c" "vc_email (f c) = vc_email c" "vc_created_at (f c) = vc_created_at c"
    "vc_failed_attempts c \<le> vc_failed_attempts (f c)" "vc_used_at (f c) = None \<Longrightarrow> vc_used_at c = None"
    "vc_used_at (f c) = None \<Longrightarrow> vc_failed_attempts (f c) < 5"
    "vc_code_hash (f c) = vc_code_hash c" "vc_expires_at (f c) = vc_expires_at c"
  using assms by (auto simp: spends_def)

lemma unused_map_le: "spends cs f \<Longrightarrow> length (filter (unused email) (map f cs)) \<le> length (filter (unused email) cs)"
  by (induction cs) (auto simp: spends_def unused_def le_SucI)

lemma codes_ok_map:
  assumes ok: "codes_ok n cs" and f: "spends cs f"
  shows "codes_ok n (map f cs)"
proof -
  have "map vc_id (map f cs) = map vc_id cs" using f by (simp add: spends_def)
  then have "distinct (map vc_id (map f cs))" using ok by (simp only: codes_ok_def)
  moreover have "length (filter (unused email) (map f cs)) \<le> 1" for email
    using unused_map_le[OF f, of email] ok unfolding codes_ok_def by (meson order_trans)
  moreover have "code_ok n (f c)" if "c \<in> set cs" for c
    using ok that spendsD[OF f that] by (fastforce simp: codes_ok_def list_all_iff code_ok_def)
  ultimately show ?thesis using ok by (simp add: codes_ok_def list_all_iff)
qed

lemma codes_okD:
  assumes "codes_ok n cs"
  shows "0 < n" "distinct (map vc_id cs)" "c \<in> set cs \<Longrightarrow> code_ok n c" "length (filter (unused email) cs) \<le> 1"
  using assms by (auto simp: codes_ok_def list_all_iff)

lemma code_ok_next: "code_ok n c \<Longrightarrow> code_ok (n + 1) c"
  by (simp add: code_ok_def)

lemma codes_ok_next: "codes_ok n cs \<Longrightarrow> codes_ok (n + 1) cs"
  by (auto simp: codes_ok_def list_all_iff intro: code_ok_next)

lemma codes_ok_snoc:
  assumes ok: "codes_ok n cs" and none: "filter (unused email) cs = []"
  shows "codes_ok (n + 1) (cs @ [new_code now email n digest])"
proof -
  let ?new = "new_code now email n digest"
  have new: "vc_id ?new = n" "code_ok (n + 1) ?new" "unused e ?new \<longleftrightarrow> e = email" for e
    using codes_okD(1)[OF ok] by (auto simp: new_code_def code_ok_def unused_def)
  have "length (filter (unused e) (cs @ [?new])) \<le> 1" for e
    using none codes_okD(4)[OF ok, of e] by (cases "e = email") (simp_all add: new(3))
  moreover have "n \<notin> vc_id ` set cs" using codes_okD(3)[OF ok] by (auto simp: code_ok_def)
  then have "distinct (map vc_id (cs @ [?new]))" using codes_okD(2)[OF ok] by (simp add: new(1))
  moreover have "list_all (code_ok (n + 1)) (cs @ [?new])" using codes_okD(3)[OF ok] new(2) by (simp add: list_all_iff code_ok_next)
  ultimately show ?thesis using codes_okD(1)[OF ok] unfolding codes_ok_def by simp
qed

lemma spends_supersede: "codes_ok n cs \<Longrightarrow> spends cs (supersede now email)"
  by (auto simp: spends_def supersede_def code_ok_def dest: codes_okD(3))

lemma unused_supersede: "\<not> unused email (supersede now email c)"
  by (simp add: unused_def supersede_def)

lemma filter_supersede: "filter (unused email) (map (supersede now email) cs) = []"
  by (induction cs) (simp_all add: unused_supersede)

lemma codes_ok_id_inject: "codes_ok n cs \<Longrightarrow> c \<in> set cs \<Longrightarrow> d \<in> set cs \<Longrightarrow> vc_id c = vc_id d \<Longrightarrow> c = d"
  by (auto simp: codes_ok_def distinct_map inj_on_def)

lemma spends_fail:
  assumes ok: "codes_ok n cs" and row: "row \<in> set cs"
  shows "spends cs (fail_code now row)"
  unfolding spends_def
proof
  fix c assume c: "c \<in> set cs"
  have "vc_failed_attempts c < 5 \<and> c = row" if "vc_id c = vc_id row" "vc_used_at c = None"
    using that codes_ok_id_inject[OF ok c row] codes_okD(3)[OF ok c] by (simp add: code_ok_def)
  then show "vc_id (fail_code now row c) = vc_id c \<and> vc_email (fail_code now row c) = vc_email c
    \<and> vc_created_at (fail_code now row c) = vc_created_at c
    \<and> vc_code_hash (fail_code now row c) = vc_code_hash c \<and> vc_expires_at (fail_code now row c) = vc_expires_at c
    \<and> (vc_used_at (fail_code now row c) = None \<longrightarrow> vc_used_at c = None \<and> vc_failed_attempts (fail_code now row c) < 5)
    \<and> vc_failed_attempts c \<le> vc_failed_attempts (fail_code now row c)"
    using codes_okD(3)[OF ok c]
    by (auto simp: fail_code_def Let_def i32_saturating_inc_def VERIFICATION_CODE_MAX_ATTEMPTS_def code_ok_def)
qed

lemma spends_consume: "codes_ok n cs \<Longrightarrow> spends cs (consume_code now row)"
  by (auto simp: spends_def consume_code_def code_ok_def dest: codes_okD(3))

lemma active_code_Some:
  assumes "active_code now email db = Some row"
  shows "row \<in> set (ad_codes db)" "unused email row" "now < vc_expires_at row"
proof -
  have "row \<in> set (filter (usable now email) (ad_codes db))"
    using assms last_in_set[of "sort_key vc_created_at (filter (usable now email) (ad_codes db))"]
    by (auto simp: active_code_def split: list.splits)
  then show "row \<in> set (ad_codes db)" "unused email row" "now < vc_expires_at row" by (auto simp: usable_def unused_def)
qed

lemma active_code_None: "filter (unused email) (ad_codes db) = [] \<Longrightarrow> active_code now email db = None"
proof -
  assume "filter (unused email) (ad_codes db) = []"
  then have "filter (usable now email) (ad_codes db) = []" by (auto simp: filter_empty_conv unused_def usable_def)
  then show ?thesis by (simp add: active_code_def)
qed

section \<open>Steps of the code table\<close>

text \<open>What a call may do to the codes: draw an identity, spend tries, or issue the one code of its label.\<close>

inductive codes_step :: "auth_label \<Rightarrow> auth_db \<Rightarrow> auth_db \<Rightarrow> bool" where
  spent: "spends (ad_codes db) f \<Longrightarrow> ad_codes db' = map f (ad_codes db)
    \<Longrightarrow> ad_next_code_id db \<le> ad_next_code_id db' \<Longrightarrow> (\<And>email. l \<noteq> Issued email)
    \<Longrightarrow> (\<And>email. l = Guessed email \<Longrightarrow> \<exists>c\<in>set (ad_codes db). unused email c
          \<and> (vc_used_at (f c) = None \<longrightarrow> vc_failed_attempts c < vc_failed_attempts (f c))) \<Longrightarrow> codes_step l db db'"
| issued: "\<not> recently_requested now email db \<Longrightarrow> otp_digest env email (ad_next_code_id db) code = Some digest
    \<Longrightarrow> ad_codes db' = map (supersede now email) (ad_codes db) @ [new_code now email (ad_next_code_id db) digest]
    \<Longrightarrow> ad_next_code_id db' = ad_next_code_id db + 1 \<Longrightarrow> codes_step (Issued email) db db'"

lemma spends_id: "codes_ok n cs \<Longrightarrow> spends cs id"
  by (auto simp: spends_def code_ok_def dest: codes_okD(3))

lemma codes_ok_mono: "codes_ok n cs \<Longrightarrow> n \<le> m \<Longrightarrow> codes_ok m cs"
  by (auto simp: codes_ok_def list_all_iff code_ok_def)

lemma codes_step_ok:
  assumes "codes_step l db db'" "codes_ok (ad_next_code_id db) (ad_codes db)"
  shows "codes_ok (ad_next_code_id db') (ad_codes db')"
  using assms
proof cases
  case (spent f)
  then show ?thesis using codes_ok_mono[OF codes_ok_map[OF assms(2)]] by simp
next
  case (issued now email env code digest)
  then show ?thesis using codes_ok_snoc[OF codes_ok_map[OF assms(2) spends_supersede[OF assms(2)]] filter_supersede] by simp
qed

lemma codes_kept:
  assumes "codes_ok (ad_next_code_id db) (ad_codes db)" "ad_codes db' = ad_codes db" "ad_next_code_id db \<le> ad_next_code_id db'"
    and "l = Idle \<or> l = LoggedOut token"
  shows "codes_step l db db'"
  by (rule spent[OF spends_id[OF assms(1)]]) (use assms in auto)

lemma issue_code_step:
  assumes ok: "codes_ok (ad_next_code_id db) (ad_codes db)" and c: "issue_code env now email code db = (r, db')"
  shows "codes_step (issue_label email r) db db'"
proof (cases r)
  case (Inl e)
  then have "ad_codes db' = ad_codes db" "ad_next_code_id db \<le> ad_next_code_id db'"
    using c by (auto simp: issue_code_def Let_def split: if_splits option.splits)
  then show ?thesis using Inl codes_kept[OF ok] by (simp add: issue_label_def)
next
  case (Inr u)
  then show ?thesis using c by (auto simp: issue_code_def Let_def issue_label_def split: if_splits option.splits intro: issued)
qed

text \<open>The four outcomes of a verification.\<close>

lemma open_session_codes:
  assumes "open_session env rnd1 rnd2 rnd3 now email db = Inr (s, db')"
  shows "ad_codes db' = ad_codes db" "ad_next_code_id db' = ad_next_code_id db"
  using assms
  by (auto simp: open_session_def ensure_user_def claim_owner_def insert_auth_session_def Let_def and_then_Inr_iff
      split: option.splits if_splits prod.splits)

lemma user_into_domain_Inl: "user_into_domain u = Inl e \<Longrightarrow> e \<noteq> InvalidCode"
  by (auto simp: user_into_domain_def and_then_def split: if_splits sum.splits)

lemma open_session_Inl: "open_session env rnd1 rnd2 rnd3 now email db = Inl e \<Longrightarrow> e \<noteq> Refused InvalidCode"
  by (auto simp: open_session_def ensure_user_def claim_owner_def insert_auth_session_def Let_def and_then_def map_err_def
      dest!: user_into_domain_Inl split: option.splits if_splits prod.splits sum.splits)

lemma verify_code_cases:
  assumes "verify_code env rnd1 rnd2 rnd3 now email code db = (r, db')"
  obtains (dropped) e where "r = Inl e" "db' = db" "active_code now email db = None \<or> \<not> answers r
      \<or> (\<exists>row. active_code now email db = Some row \<and> length (filter (\<lambda>c. vc_id c = vc_id row \<and> vc_used_at c = None) (ad_codes db)) \<noteq> 1)"
  | (wrong) row where "r = Inl (Refused InvalidCode)" "active_code now email db = Some row"
      "otp_digest env (vc_email row) (vc_id row) code \<noteq> Some (vc_code_hash row)"
      "db' = db\<lparr>ad_codes := map (fail_code now row) (ad_codes db)\<rparr>"
  | (right) row s where "r = Inr s" "active_code now email db = Some row"
      "otp_digest env (vc_email row) (vc_id row) code = Some (vc_code_hash row)"
      "open_session env rnd1 rnd2 rnd3 now email (db\<lparr>ad_codes := map (consume_code now row) (ad_codes db)\<rparr>) = Inr (s, db')"
proof -
  show ?thesis
  proof (cases "verify_code_tx env rnd1 rnd2 rnd3 now email code db")
    case (Inl e)
    then have "r = Inl e" "db' = db" using assms by (auto simp: verify_code_def auth_tx_def)
    moreover have "active_code now email db = None \<or> \<not> answers r
      \<or> (\<exists>row. active_code now email db = Some row \<and> length (filter (\<lambda>c. vc_id c = vc_id row \<and> vc_used_at c = None) (ad_codes db)) \<noteq> 1)"
      using Inl open_session_Inl \<open>r = Inl e\<close>
      by (auto simp: verify_code_tx_def answers_def and_then_def split: option.splits if_splits sum.splits)
    ultimately show ?thesis by (rule dropped)
  next
    case (Inr p)
    then show ?thesis using assms wrong right
      by (cases p) (auto simp: verify_code_def auth_tx_def verify_code_tx_def and_then_Inr_iff split: option.splits if_splits)
  qed
qed

lemma code_row_alone:
  assumes ok: "codes_ok n cs" and row: "row \<in> set cs" "vc_used_at row = None"
  shows "length (filter (\<lambda>c. vc_id c = vc_id row \<and> vc_used_at c = None) cs) = 1"
proof -
  have "(\<lambda>c. vc_id c = vc_id row \<and> vc_used_at c = None) c \<longleftrightarrow> c = row" if "c \<in> set cs" for c
    using codes_ok_id_inject[OF ok that row(1)] row by auto
  then have "set (filter (\<lambda>c. vc_id c = vc_id row \<and> vc_used_at c = None) cs) = {row}" using row by auto
  moreover have "distinct (filter (\<lambda>c. vc_id c = vc_id row \<and> vc_used_at c = None) cs)" using codes_okD(2)[OF ok] by (simp add: distinct_map)
  ultimately show ?thesis using distinct_card by fastforce
qed

lemma verify_code_step:
  assumes ok: "codes_ok (ad_next_code_id db) (ad_codes db)" and c: "verify_code env rnd1 rnd2 rnd3 now email code db = (r, db')"
  shows "codes_step (verify_label now email db r) db db'"
  using c
proof (cases rule: verify_code_cases)
  case (dropped e)
  then have "verify_label now email db r = Idle"
    using code_row_alone[OF ok] active_code_Some by (fastforce simp: verify_label_def unused_def)
  then show ?thesis using codes_kept[OF ok] dropped by simp
next
  case (wrong row)
  have "vc_failed_attempts row < 5" "0 \<le> vc_failed_attempts row" "vc_used_at row = None"
    using codes_okD(3)[OF ok active_code_Some(1)[OF wrong(2)]] active_code_Some(2)[OF wrong(2)] by (auto simp: code_ok_def unused_def)
  then have "vc_failed_attempts row < vc_failed_attempts (fail_code now row row)"
    by (simp add: fail_code_def Let_def i32_saturating_inc_def)
  then show ?thesis
    by (intro spent[OF spends_fail[OF ok active_code_Some(1)[OF wrong(2)], of now]])
      (use wrong active_code_Some[OF wrong(2)] in \<open>auto simp: verify_label_def split: if_splits\<close>)
next
  case (right row s)
  have "vc_used_at (consume_code now row row) \<noteq> None"
    using active_code_Some(2)[OF right(2)] by (simp add: consume_code_def unused_def)
  then show ?thesis
    by (intro spent[OF spends_consume[OF ok, of now row]])
      (use right active_code_Some[OF right(2)] open_session_codes[OF right(4)] in \<open>auto simp: verify_label_def split: if_splits\<close>)
qed

lemma role_step:
  assumes "codes_ok (ad_next_code_id db) (ad_codes db)" "update_user_role uid new_role db = (u, db')"
  shows "codes_step Idle db db'"
  by (rule codes_kept[OF assms(1)]) (use assms(2) in \<open>auto simp: update_user_role_def Let_def\<close>)

lemma logout_step:
  assumes "codes_ok (ad_next_code_id db) (ad_codes db)"
  shows "codes_step (LoggedOut token) db (invalidate_session env now token db)"
  by (rule codes_kept[OF assms, where token = token]) (simp_all add: invalidate_session_def)

section \<open>Users and sessions\<close>

text \<open>
  What a call may do to the users, the sessions and the owner: the users keep their identities and emails, a
  session is opened under a fresh token, or sessions of one token are closed.
\<close>

definition session_kept :: "auth_env \<Rightarrow> auth_label \<Rightarrow> auth_session_row \<Rightarrow> auth_session_row \<Rightarrow> bool" where
  "session_kept env l s s' \<longleftrightarrow> ss_token_hash s' = ss_token_hash s \<and> ss_user_id s' = ss_user_id s \<and> ss_expires_at s' = ss_expires_at s
     \<and> (ss_invalidated_at s \<noteq> None \<longrightarrow> ss_invalidated_at s' \<noteq> None)
     \<and> ((\<forall>token. l = LoggedOut token \<longrightarrow> hash_secret env token \<noteq> ss_token_hash s) \<longrightarrow> s' = s)"

definition users_kept :: "auth_db \<Rightarrow> auth_db \<Rightarrow> bool" where
  "users_kept db db' \<longleftrightarrow> (\<forall>u\<in>set (ad_users db). \<exists>u'\<in>set (ad_users db'). ur_id u' = ur_id u \<and> ur_email u' = ur_email u)
     \<and> (\<forall>uid. ad_owner_user_id db = Some uid \<longrightarrow> ad_owner_user_id db' = Some uid)"

definition sessions_kept :: "auth_env \<Rightarrow> auth_label \<Rightarrow> auth_db \<Rightarrow> auth_db \<Rightarrow> bool" where
  "sessions_kept env l db db' \<longleftrightarrow> (\<forall>s\<in>set (ad_sessions db). \<exists>s'\<in>set (ad_sessions db'). session_kept env l s s')"

lemma session_kept_refl [simp]: "session_kept env l s s"
  by (simp add: session_kept_def)

lemma ensure_user_Inr:
  assumes "ensure_user uid email db = Inr db'" "users_ok (ad_users db)"
  obtains us where "db' = db\<lparr>ad_users := ad_users db @ us\<rparr>" "users_ok (ad_users db @ us)" "\<exists>u\<in>set (ad_users db @ us). ur_email u = email"
proof (cases "list_ex (\<lambda>u. ur_email u = email) (ad_users db)")
  case True
  then show ?thesis using assms that[of "[]"] by (auto simp: ensure_user_def list_ex_iff)
next
  case False
  then show ?thesis
    using assms that[of "[\<lparr>ur_id = uid, ur_email = email, ur_role = ''Requester''\<rparr>]"]
    by (auto simp: ensure_user_def list_ex_iff users_ok_def valid_role_def split: if_splits)
qed

lemma user_into_domain_ok:
  assumes "valid_role (ur_role u)"
  obtains r where "user_into_domain u = Inr \<lparr>us_id = ur_id u, us_email = ur_email u, us_role = r\<rparr>" "persisted_role r = ur_role u"
  using assms by (auto simp: user_into_domain_def valid_role_def persisted_role_def)

abbreviation set_role :: "string \<Rightarrow> string \<Rightarrow> user_row list \<Rightarrow> user_row list" where
  "set_role uid r us \<equiv> map (\<lambda>u. if ur_id u = uid then u\<lparr>ur_role := r\<rparr> else u) us"

lemma set_role_keys: "map ur_id (set_role uid r us) = map ur_id us" "map ur_email (set_role uid r us) = map ur_email us"
    "ur_id ` set (set_role uid r us) = ur_id ` set us"
  by (induction us) auto

lemma users_ok_set_role: "users_ok us \<Longrightarrow> valid_role r \<Longrightarrow> users_ok (set_role uid r us)"
  unfolding users_ok_def set_role_keys by (auto simp: list_all_iff)

lemma valid_persisted_role: "valid_role (persisted_role r)"
  by (cases r) (simp_all add: valid_role_def persisted_role_def)

lemma set_role_member: "u \<in> set us \<Longrightarrow> \<exists>u'\<in>set (set_role uid r us). ur_id u' = ur_id u \<and> ur_email u' = ur_email u"
  by (rule bexI[of _ "if ur_id u = uid then u\<lparr>ur_role := r\<rparr> else u"]) auto

text \<open>A session that is opened: the user of the email, the owner when there was none, and a row under a fresh hash.\<close>

lemma open_session_Inr:
  assumes o: "open_session env rnd1 rnd2 rnd3 now email db = Inr (s, db')" and ok: "users_ok (ad_users db)"
  obtains us u where "users_ok (ad_users db @ us)" "u \<in> set (ad_users db @ us)" "ur_email u = email"
    "us_id (au_user s) = ur_id u" "us_email (au_user s) = email" "au_token s = random_hex 32 rnd2"
    "ad_sessions db' = ad_sessions db @ [\<lparr>ss_id = random_hex 16 rnd3, ss_user_id = ur_id u,
       ss_token_hash = hash_secret env (au_token s), ss_expires_at = now + SESSION_TTL_SECONDS * 1000000, ss_invalidated_at = None\<rparr>]"
    "hash_secret env (au_token s) \<notin> ss_token_hash ` set (ad_sessions db)"
    "ad_owner_user_id db' = (case ad_owner_user_id db of None \<Rightarrow> Some (ur_id u) | Some w \<Rightarrow> Some w)"
    "ad_users db' = (case ad_owner_user_id db of None \<Rightarrow> set_role (ur_id u) ''Owner'' (ad_users db @ us) | Some w \<Rightarrow> ad_users db @ us)"
    "persisted_role (us_role (au_user s)) = (case ad_owner_user_id db of None \<Rightarrow> ''Owner'' | Some w \<Rightarrow> ur_role u)"
proof -
  from o obtain db1 where e: "ensure_user (random_hex 16 rnd1) email db = Inr db1"
    by (auto simp: open_session_def and_then_Inr_iff)
  then obtain us where us: "db1 = db\<lparr>ad_users := ad_users db @ us\<rparr>" "users_ok (ad_users db @ us)" "\<exists>u\<in>set (ad_users db @ us). ur_email u = email"
    using ensure_user_Inr ok by blast
  then obtain u where u: "find (\<lambda>u. ur_email u = email) (ad_users db @ us) = Some u"
    by (cases "find (\<lambda>u. ur_email u = email) (ad_users db @ us)") (auto simp: find_None_iff)
  then have mem: "u \<in> set (ad_users db @ us)" "ur_email u = email" by (auto simp: find_Some_iff set_conv_nth)
  then have "valid_role (ur_role u)" using us(2) by (auto simp: users_ok_def list_all_iff)
  then obtain r where r: "user_into_domain u = Inr \<lparr>us_id = ur_id u, us_email = ur_email u, us_role = r\<rparr>" "persisted_role r = ur_role u"
    by (rule user_into_domain_ok)
  show ?thesis
    by (rule that[OF us(2) mem])
      (use o in \<open>simp_all add: open_session_def e us(1) u r mem(2) claim_owner_def insert_auth_session_def Let_def persisted_role_def
        split: option.splits if_splits, auto simp: list_ex_iff r(2)[unfolded persisted_role_def]\<close>)
qed

definition people_step :: "auth_env \<Rightarrow> auth_label \<Rightarrow> auth_db \<Rightarrow> auth_db \<Rightarrow> bool" where
  "people_step env l db db' \<longleftrightarrow> users_ok (ad_users db') \<and> sessions_ok (ad_users db') (ad_sessions db') \<and> owner_ok db'
     \<and> users_kept db db' \<and> sessions_kept env l db db'"

lemma auth_okD:
  assumes "auth_ok db"
  shows "codes_ok (ad_next_code_id db) (ad_codes db)" "users_ok (ad_users db)" "sessions_ok (ad_users db) (ad_sessions db)" "owner_ok db"
  using assms by (auto simp: auth_ok_def)

lemma people_same:
  assumes "auth_ok db" "ad_users db' = ad_users db" "ad_sessions db' = ad_sessions db" "ad_owner_user_id db' = ad_owner_user_id db"
  shows "people_step env l db db'"
proof -
  have "users_kept db db'" "sessions_kept env l db db'" using assms by (auto simp: users_kept_def sessions_kept_def intro: session_kept_refl)
  moreover have "owner_ok db'" using auth_okD(4)[OF assms(1)] by (simp only: owner_ok_def assms(2-4))
  ultimately show ?thesis using auth_okD(2,3)[OF assms(1)] assms(2,3) by (simp add: people_step_def)
qed

lemma people_role:
  assumes ok: "auth_ok db" and c: "update_user_role uid new_role db = (u, db')"
  shows "people_step env l db db'"
proof -
  have db': "ad_users db' = set_role uid (persisted_role new_role) (ad_users db)" "ad_sessions db' = ad_sessions db"
      "ad_owner_user_id db' = ad_owner_user_id db"
    using c by (auto simp: update_user_role_def Let_def)
  have "users_ok (ad_users db')" unfolding db' by (rule users_ok_set_role[OF auth_okD(2)[OF ok] valid_persisted_role])
  moreover have "sessions_ok (ad_users db') (ad_sessions db')" "owner_ok db'"
    using auth_okD(3,4)[OF ok] unfolding sessions_ok_def owner_ok_def db' set_role_keys(3) by (auto split: option.splits)
  moreover have "users_kept db db'" unfolding users_kept_def db' using set_role_member by blast
  moreover have "sessions_kept env l db db'" using db'(2) by (auto simp: sessions_kept_def intro: session_kept_refl)
  ultimately show ?thesis by (simp add: people_step_def)
qed

lemma people_logout:
  assumes ok: "auth_ok db"
  shows "people_step env (LoggedOut token) db (invalidate_session env now token db)"
proof -
  let ?f = "\<lambda>s. if ss_token_hash s = hash_secret env token \<and> ss_invalidated_at s = None then s\<lparr>ss_invalidated_at := Some now\<rparr> else s"
  have f: "ss_token_hash (?f s) = ss_token_hash s" "ss_user_id (?f s) = ss_user_id s" "session_kept env (LoggedOut token) s (?f s)" for s
    by (auto simp: session_kept_def)
  have map_hash: "map ss_token_hash (map ?f ss) = map ss_token_hash ss" for ss using f(1) by (induction ss) simp_all
  have "distinct (map ss_token_hash (map ?f (ad_sessions db)))" unfolding map_hash using auth_okD(3)[OF ok] by (simp add: sessions_ok_def)
  then have "sessions_ok (ad_users db) (map ?f (ad_sessions db))"
    using auth_okD(3)[OF ok] f(2) by (auto simp: sessions_ok_def list_all_iff)
  moreover have "sessions_kept env (LoggedOut token) db (invalidate_session env now token db)"
  proof -
    have "?f s \<in> set (ad_sessions (invalidate_session env now token db))" if "s \<in> set (ad_sessions db)" for s
      unfolding invalidate_session_def using imageI[OF that, of ?f] by simp
    then show ?thesis unfolding sessions_kept_def using f(3) by blast
  qed
  ultimately show ?thesis using auth_okD[OF ok]
    by (auto simp: people_step_def invalidate_session_def users_kept_def owner_ok_def split: option.splits)
qed

lemma people_open:
  assumes opened: "open_session env rnd1 rnd2 rnd3 now email db = Inr (s, db')"
    and ok: "users_ok (ad_users db)" "sessions_ok (ad_users db) (ad_sessions db)" "owner_ok db"
  shows "people_step env l db db'"
proof (rule open_session_Inr[OF opened ok(1)])
  fix us u
  assume us: "users_ok (ad_users db @ us)" and u: "u \<in> set (ad_users db @ us)"
    and s: "ad_sessions db' = ad_sessions db @ [\<lparr>ss_id = random_hex 16 rnd3, ss_user_id = ur_id u,
      ss_token_hash = hash_secret env (au_token s), ss_expires_at = now + SESSION_TTL_SECONDS * 1000000, ss_invalidated_at = None\<rparr>]"
    and h: "hash_secret env (au_token s) \<notin> ss_token_hash ` set (ad_sessions db)"
    and w: "ad_owner_user_id db' = (case ad_owner_user_id db of None \<Rightarrow> Some (ur_id u) | Some w \<Rightarrow> Some w)"
    and us': "ad_users db' = (case ad_owner_user_id db of None \<Rightarrow> set_role (ur_id u) ''Owner'' (ad_users db @ us) | Some w \<Rightarrow> ad_users db @ us)"
  have ids: "ur_id ` set (ad_users db') = ur_id ` set (ad_users db @ us)"
    using us' set_role_keys(3)[of "ur_id u" "''Owner''" "ad_users db @ us"] by (cases "ad_owner_user_id db") simp_all
  have "users_ok (ad_users db')"
    using us us' users_ok_set_role[OF us, of "''Owner''" "ur_id u"] by (cases "ad_owner_user_id db") (simp_all add: valid_role_def)
  moreover have "sessions_ok (ad_users db') (ad_sessions db')"
    using s h u ok(2) by (auto simp: sessions_ok_def ids list_all_iff)
  moreover have "owner_ok db'" unfolding owner_ok_def ids using w u ok(3)
    by (cases "ad_owner_user_id db") (auto simp: owner_ok_def)
  moreover have "users_kept db db'" unfolding users_kept_def
    using w us' set_role_member[of _ "ad_users db @ us" "ur_id u" "''Owner''"] by (cases "ad_owner_user_id db") auto
  moreover have "sessions_kept env l db db'" unfolding sessions_kept_def using s by (auto intro: session_kept_refl)
  ultimately show ?thesis by (simp add: people_step_def)
qed

lemma people_verify:
  assumes ok: "auth_ok db" and c: "verify_code env rnd1 rnd2 rnd3 now email code db = (r, db')"
  shows "people_step env l db db'"
  using c
proof (cases rule: verify_code_cases)
  case (right row s)
  have "people_step env l (db\<lparr>ad_codes := map (consume_code now row) (ad_codes db)\<rparr>) db'"
    by (rule people_open[OF right(4)]) (use auth_okD[OF ok] in \<open>simp_all add: owner_ok_def split: option.splits\<close>)
  then show ?thesis by (simp add: people_step_def users_kept_def sessions_kept_def)
qed (auto intro: people_same[OF ok])

lemma people_issue:
  assumes "auth_ok db" "issue_code env now email code db = (r, db')"
  shows "people_step env l db db'"
  by (rule people_same[OF assms(1)]) (use assms(2) in \<open>auto simp: issue_code_def Let_def split: if_splits option.splits\<close>)

section \<open>The contract of a call\<close>

fun tries :: "string \<Rightarrow> verification_code_row list \<Rightarrow> nat" where
  "tries email [] = 0"
| "tries email (c # cs) = (if unused email c then nat (5 - vc_failed_attempts c) else 0) + tries email cs"

definition guesses :: "string \<Rightarrow> auth_label list \<Rightarrow> nat" where
  "guesses email ls = count_list ls (Guessed email)"

definition issues :: "string \<Rightarrow> auth_label list \<Rightarrow> nat" where
  "issues email ls = count_list ls (Issued email)"

lemma tries_append [simp]: "tries email (cs @ ds) = tries email cs + tries email ds"
  by (induction cs) simp_all

lemma tries_none: "filter (unused email) cs = [] \<Longrightarrow> tries email cs = 0"
  by (induction cs) (auto split: if_splits)

lemma tries_zero: "codes_ok n cs \<Longrightarrow> tries email cs = 0 \<Longrightarrow> filter (unused email) cs = []"
proof -
  have "list_all (code_ok n) cs \<Longrightarrow> tries email cs = 0 \<Longrightarrow> filter (unused email) cs = []"
    by (induction cs) (auto simp: code_ok_def unused_def split: if_splits)
  then show "codes_ok n cs \<Longrightarrow> tries email cs = 0 \<Longrightarrow> filter (unused email) cs = []" by (simp add: codes_ok_def)
qed

lemma tries_spent: "spends cs f \<Longrightarrow> tries email (map f cs) \<le> tries email cs"
  by (induction cs) (auto simp: spends_def unused_def intro!: add_mono)

lemma tries_spent_less:
  assumes "spends cs f" "c \<in> set cs" "unused email c" "vc_failed_attempts c < 5"
    and "vc_used_at (f c) = None \<longrightarrow> vc_failed_attempts c < vc_failed_attempts (f c)"
  shows "tries email (map f cs) < tries email cs"
  using assms
proof (induction cs)
  case (Cons d cs)
  have f: "spends cs f" using Cons.prems(1) by (simp add: spends_def)
  have d: "(if unused email (f d) then nat (5 - vc_failed_attempts (f d)) else 0) \<le> (if unused email d then nat (5 - vc_failed_attempts d) else 0)"
    using spendsD[OF Cons.prems(1), of d] by (auto simp: unused_def)
  show ?case
  proof (cases "c = d")
    case True
    then have "(if unused email (f d) then nat (5 - vc_failed_attempts (f d)) else 0) < (if unused email d then nat (5 - vc_failed_attempts d) else 0)"
      using Cons.prems by (auto simp: unused_def)
    then show ?thesis using tries_spent[OF f, of email] by simp
  next
    case False
    then show ?thesis using Cons.IH[OF f] Cons.prems d by simp
  qed
qed simp

definition same_code :: "verification_code_row \<Rightarrow> verification_code_row \<Rightarrow> bool" where
  "same_code c d \<longleftrightarrow> vc_id d = vc_id c \<and> vc_email d = vc_email c \<and> vc_created_at d = vc_created_at c
     \<and> vc_code_hash d = vc_code_hash c \<and> vc_expires_at d = vc_expires_at c"

lemma spends_same: "spends cs f \<Longrightarrow> c \<in> set cs \<Longrightarrow> same_code c (f c)"
  by (simp add: spends_def same_code_def)

lemma codes_step_keeps:
  assumes "codes_step l db db'" "codes_ok (ad_next_code_id db) (ad_codes db)" "c \<in> set (ad_codes db)"
  shows "\<exists>c'\<in>set (ad_codes db'). same_code c c'"
  using assms(1)
proof cases
  case (spent f)
  then show ?thesis using spends_same[OF _ assms(3)] assms(3) by auto
next
  case (issued now email env code digest)
  then show ?thesis using spends_same[OF spends_supersede[OF assms(2)] assms(3), of now email] assms(3) by auto
qed

lemma codes_step_unused:
  assumes "codes_step l db db'" "codes_ok (ad_next_code_id db) (ad_codes db)" "l \<noteq> Issued email" "c' \<in> set (ad_codes db')" "unused email c'"
  shows "\<exists>c\<in>set (ad_codes db). unused email c \<and> same_code c c'"
  using assms(1)
proof cases
  case (spent f)
  then obtain c where "c \<in> set (ad_codes db)" "c' = f c" using assms(4) by auto
  then show ?thesis using spends_same[OF spent(1)] spendsD[OF spent(1)] assms(5) by (auto simp: unused_def)
next
  case (issued now e env code digest)
  then have "c' \<noteq> new_code now e (ad_next_code_id db) digest" using assms(3,5) by (auto simp: unused_def new_code_def)
  then obtain c where "c \<in> set (ad_codes db)" "c' = supersede now e c" using assms(4) issued(4) by auto
  then show ?thesis using spends_same[OF spends_supersede[OF assms(2)]] spendsD[OF spends_supersede[OF assms(2)]] assms(5)
    by (auto simp: unused_def)
qed

lemma tries_step:
  assumes step: "codes_step l db db'" and ok: "codes_ok (ad_next_code_id db) (ad_codes db)"
  shows "tries email (ad_codes db') + guesses email [l] \<le> tries email (ad_codes db) + 5 * issues email [l]"
  using step
proof cases
  case (spent f)
  show ?thesis
  proof (cases "l = Guessed email")
    case True
    obtain c where c: "c \<in> set (ad_codes db)" "unused email c" "vc_used_at (f c) = None \<longrightarrow> vc_failed_attempts c < vc_failed_attempts (f c)"
      by (rule bexE[OF spent(5)[OF True]]) simp
    moreover have "vc_failed_attempts c < 5" using codes_okD(3)[OF ok c(1)] c(2) by (simp add: code_ok_def unused_def)
    ultimately show ?thesis using tries_spent_less[OF spent(1)] spent(2) True by (simp add: guesses_def issues_def Suc_le_eq)
  next
    case False
    then show ?thesis using tries_spent[OF spent(1), of email] spent(2) by (simp add: guesses_def)
  qed
next
  case (issued now e env code digest)
  have "tries email (map (supersede now e) (ad_codes db)) \<le> tries email (ad_codes db)" by (rule tries_spent[OF spends_supersede[OF ok]])
  moreover have "tries e (map (supersede now e) (ad_codes db)) = 0" by (rule tries_none[OF filter_supersede])
  moreover have "tries email [new_code now e (ad_next_code_id db) digest] = (if e = email then 5 else 0)" by (simp add: new_code_def unused_def)
  ultimately show ?thesis unfolding issued(1,4) tries_append by (cases "e = email") (simp_all add: guesses_def issues_def)
qed

text \<open>
  The interface between a call and the histories it appears in: on a sound state it makes a step of the code
  table and a step of the users and sessions, both described by its label.
\<close>

locale auth_operation =
  fixes env :: auth_env
    and op :: "auth_label \<Rightarrow> auth_db \<Rightarrow> auth_db \<Rightarrow> bool"
  assumes codes: "auth_ok db \<Longrightarrow> op l db db' \<Longrightarrow> codes_step l db db'"
    and people: "auth_ok db \<Longrightarrow> op l db db' \<Longrightarrow> people_step env l db db'"
begin

lemma keeps_ok:
  assumes "auth_ok db" "op l db db'"
  shows "auth_ok db'"
  using codes_step_ok[OF codes[OF assms] auth_okD(1)[OF assms(1)]] people[OF assms] by (simp add: auth_ok_def people_step_def)

lemma trace_ok: "call_trace op ls db db' \<Longrightarrow> auth_ok db \<Longrightarrow> auth_ok db'"
  by (induction rule: call_trace.induct) (auto intro: keeps_ok)

lemma trace_tries:
  assumes "call_trace op ls db db'" "auth_ok db"
  shows "tries email (ad_codes db') + guesses email ls \<le> tries email (ad_codes db) + 5 * issues email ls"
  using assms
proof (induction rule: call_trace.induct)
  case (trace_snoc ls db db' l db'')
  have ok: "auth_ok db'" using trace_ok trace_snoc by blast
  have "tries email (ad_codes db'') + guesses email [l] \<le> tries email (ad_codes db') + 5 * issues email [l]"
    by (rule tries_step[OF codes[OF ok trace_snoc(2)] auth_okD(1)[OF ok]])
  then show ?case using trace_snoc.IH[OF trace_snoc.prems] by (simp add: guesses_def issues_def)
qed (simp add: guesses_def)

lemma trace_spent:
  assumes "call_trace op ls db db'" "auth_ok db" "filter (unused email) (ad_codes db) = []" "Issued email \<notin> set ls"
  shows "filter (unused email) (ad_codes db') = []"
proof -
  have "issues email ls = 0" using assms(4) by (simp add: issues_def count_list_0_iff)
  then have "tries email (ad_codes db') = 0" using trace_tries[OF assms(1,2), of email] tries_none[OF assms(3)] by simp
  then show ?thesis using tries_zero auth_okD(1)[OF trace_ok[OF assms(1,2)]] by blast
qed

lemma trace_code_kept:
  assumes "call_trace op ls db db'" "auth_ok db" "c \<in> set (ad_codes db)"
  shows "\<exists>c'\<in>set (ad_codes db'). same_code c c'"
  using assms
proof (induction rule: call_trace.induct)
  case (trace_snoc ls db db' l db'')
  then have ok: "auth_ok db'" using trace_ok by blast
  show ?case using trace_snoc.IH[OF trace_snoc.prems] codes_step_keeps[OF codes[OF ok trace_snoc(2)] auth_okD(1)[OF ok]]
    by (force simp: same_code_def)
qed (auto simp: same_code_def)

lemma trace_unused_from:
  assumes "call_trace op ls db db'" "auth_ok db" "Issued email \<notin> set ls" "c' \<in> set (ad_codes db')" "unused email c'"
  shows "\<exists>c\<in>set (ad_codes db). unused email c \<and> same_code c c'"
  using assms
proof (induction arbitrary: c' rule: call_trace.induct)
  case (trace_snoc ls db db' l db'')
  then have ok: "auth_ok db'" using trace_ok by blast
  have "l \<noteq> Issued email" using trace_snoc.prems by auto
  then obtain c where "c \<in> set (ad_codes db')" "unused email c" "same_code c c'"
    using codes_step_unused[OF codes[OF ok trace_snoc(2)] auth_okD(1)[OF ok] _ trace_snoc.prems(3,4)] by blast
  then show ?case using trace_snoc.IH[of c] trace_snoc.prems by (force simp: same_code_def)
qed (auto simp: same_code_def)

lemma trace_users:
  assumes "call_trace op ls db db'" "auth_ok db" "u \<in> set (ad_users db)"
  shows "\<exists>u'\<in>set (ad_users db'). ur_id u' = ur_id u \<and> ur_email u' = ur_email u"
  using assms
proof (induction rule: call_trace.induct)
  case (trace_snoc ls db db' l db'')
  then have "users_kept db' db''" using people trace_ok by (auto simp: people_step_def)
  then show ?case using trace_snoc.IH[OF trace_snoc.prems] unfolding users_kept_def by metis
qed blast

lemma trace_owner: "call_trace op ls db db' \<Longrightarrow> auth_ok db \<Longrightarrow> ad_owner_user_id db = Some uid \<Longrightarrow> ad_owner_user_id db' = Some uid"
proof (induction rule: call_trace.induct)
  case (trace_snoc ls db db' l db'')
  then have "users_kept db' db''" using people trace_ok by (auto simp: people_step_def)
  then show ?case using trace_snoc by (simp add: users_kept_def)
qed

lemma trace_session:
  assumes "call_trace op ls db db'" "auth_ok db" "s \<in> set (ad_sessions db)"
  shows "\<exists>s'\<in>set (ad_sessions db'). ss_token_hash s' = ss_token_hash s \<and> ss_user_id s' = ss_user_id s \<and> ss_expires_at s' = ss_expires_at s
    \<and> (ss_invalidated_at s \<noteq> None \<longrightarrow> ss_invalidated_at s' \<noteq> None)
    \<and> ((\<forall>token. LoggedOut token \<in> set ls \<longrightarrow> hash_secret env token \<noteq> ss_token_hash s) \<longrightarrow> s' = s)"
  using assms
proof (induction rule: call_trace.induct)
  case (trace_snoc ls db db' l db'')
  then obtain s' where s': "s' \<in> set (ad_sessions db')" "ss_token_hash s' = ss_token_hash s" "ss_user_id s' = ss_user_id s"
      "ss_expires_at s' = ss_expires_at s" "ss_invalidated_at s \<noteq> None \<longrightarrow> ss_invalidated_at s' \<noteq> None"
      "(\<forall>token. LoggedOut token \<in> set ls \<longrightarrow> hash_secret env token \<noteq> ss_token_hash s) \<longrightarrow> s' = s" by blast
  have "sessions_kept env l db' db''" using people trace_ok trace_snoc by (auto simp: people_step_def)
  then obtain s'' where "s'' \<in> set (ad_sessions db'')" "session_kept env l s' s''" using s'(1) by (auto simp: sessions_kept_def)
  then show ?case using s'(2-6) by (auto simp: session_kept_def)
qed auto

end

interpretation issue_op: auth_operation env "\<lambda>l db db'. \<exists>now email code r. issue_code env now email code db = (r, db') \<and> l = issue_label email r"
  for env by unfold_locales (auto intro: issue_code_step auth_okD people_issue)

interpretation verify_op: auth_operation env
    "\<lambda>l db db'. \<exists>rnd1 rnd2 rnd3 now email code r. verify_code env rnd1 rnd2 rnd3 now email code db = (r, db') \<and> l = verify_label now email db r"
  for env by unfold_locales (auto intro: verify_code_step auth_okD people_verify)

interpretation role_op: auth_operation env "\<lambda>l db db'. \<exists>uid new_role u. update_user_role uid new_role db = (u, db') \<and> l = Idle"
  for env by unfold_locales (auto intro: role_step auth_okD people_role)

interpretation logout_op: auth_operation env "\<lambda>l db db'. \<exists>now token. db' = invalidate_session env now token db \<and> l = LoggedOut token"
  for env by unfold_locales (auto intro: logout_step auth_okD people_logout)

interpretation call: auth_operation env "auth_call env" for env
proof
  fix l db db'
  assume ok: "auth_ok db" and c: "auth_call env l db db'"
  from c show "codes_step l db db'"
  proof cases
    case (call_role uid new_role u)
    then show ?thesis using role_op.codes[OF ok] by blast
  next
    case (call_logout token now)
    then show ?thesis using logout_op.codes[OF ok] by blast
  qed (use issue_op.codes[OF ok] verify_op.codes[OF ok] in blast)+
  from c show "people_step env l db db'"
  proof cases
    case (call_role uid new_role u)
    then show ?thesis using role_op.people[OF ok] by blast
  next
    case (call_logout token now)
    then show ?thesis using logout_op.people[OF ok] by blast
  qed (use issue_op.people[OF ok] verify_op.people[OF ok] in blast)+
qed

section \<open>Properties\<close>

lemma auth_ok_empty: "auth_ok empty_auth"
  by (simp add: auth_ok_def empty_auth_def codes_ok_def users_ok_def sessions_ok_def owner_ok_def)

lemmas reachable_ok = call.trace_ok[OF _ auth_ok_empty]

definition demo_env :: auth_env where
  "demo_env = \<lparr>ax_hmac = (\<lambda>k m. m), ax_sha256 = (\<lambda>s. s), ax_key = []\<rparr>"

text \<open>The sign-in of the witnesses: one code, one wrong guess, the right one.\<close>

definition demo_email :: string where "demo_email = ''ada@north.dev''"
definition demo_db1 :: auth_db where "demo_db1 = snd (issue_code demo_env 0 demo_email ''314159'' empty_auth)"
definition demo_db2 :: auth_db where
  "demo_db2 = snd (verify_code demo_env (\<lambda>i. i) (\<lambda>i. i) (\<lambda>i. i) 1000000 demo_email ''271828'' demo_db1)"
definition demo_db3 :: auth_db where
  "demo_db3 = snd (verify_code demo_env (\<lambda>i. i) (\<lambda>i. i) (\<lambda>i. i) 2000000 demo_email ''314159'' demo_db2)"
definition demo_session :: authenticated_session where
  "demo_session = projr (fst (verify_code demo_env (\<lambda>i. i) (\<lambda>i. i) (\<lambda>i. i) 2000000 demo_email ''314159'' demo_db2))"

lemma demo_issue: "issue_code demo_env 0 demo_email ''314159'' empty_auth = (Inr (), demo_db1)"
proof -
  have "fst (issue_code demo_env 0 demo_email ''314159'' empty_auth) = Inr ()" by code_simp
  then show ?thesis by (simp add: demo_db1_def prod_eq_iff)
qed

lemma demo_wrong: "verify_code demo_env (\<lambda>i. i) (\<lambda>i. i) (\<lambda>i. i) 1000000 demo_email ''271828'' demo_db1 = (Inl (Refused InvalidCode), demo_db2)"
proof -
  have "fst (verify_code demo_env (\<lambda>i. i) (\<lambda>i. i) (\<lambda>i. i) 1000000 demo_email ''271828'' demo_db1) = Inl (Refused InvalidCode)" by code_simp
  then show ?thesis by (simp add: demo_db2_def prod_eq_iff)
qed

lemma demo_right: "verify_code demo_env (\<lambda>i. i) (\<lambda>i. i) (\<lambda>i. i) 2000000 demo_email ''314159'' demo_db2 = (Inr demo_session, demo_db3)"
proof -
  have "isl (fst (verify_code demo_env (\<lambda>i. i) (\<lambda>i. i) (\<lambda>i. i) 2000000 demo_email ''314159'' demo_db2)) = False" by code_simp
  then show ?thesis by (simp add: demo_db3_def demo_session_def prod_eq_iff)
qed

lemma demo_labels: "verify_label 1000000 demo_email demo_db1 (Inl (Refused InvalidCode)) = Guessed demo_email"
    "verify_label 2000000 demo_email demo_db2 (Inr demo_session) = Guessed demo_email"
  by code_simp+

lemma demo_step:
  "call_trace (auth_call env) ls db db' \<Longrightarrow> auth_call env l db' db'' \<Longrightarrow> l = m \<Longrightarrow> call_trace (auth_call env) (ls @ [m]) db db''"
  by (auto intro: trace_snoc)

lemma demo_trace1: "call_trace (auth_call demo_env) ([] @ [Issued demo_email]) empty_auth demo_db1"
  by (rule demo_step[OF trace_nil call_issue[OF demo_issue]]) (simp add: issue_label_def)

lemma demo_trace12: "call_trace (auth_call demo_env) ([] @ [Guessed demo_email]) demo_db1 demo_db2"
  by (rule demo_step[OF trace_nil call_verify[OF demo_wrong] demo_labels(1)])

lemma demo_trace2: "call_trace (auth_call demo_env) (([] @ [Issued demo_email]) @ [Guessed demo_email]) empty_auth demo_db2"
  by (rule demo_step[OF demo_trace1 call_verify[OF demo_wrong] demo_labels(1)])

text \<open>A code works once: after a successful verification no code of that email is accepted until one is issued again,
  whatever calls come in between, and the refused verification changes nothing.\<close>

theorem code_single_use:
  assumes history: "call_trace (auth_call env) ls0 empty_auth db"
    and success: "verify_code env rnd1 rnd2 rnd3 now email code db = (Inr s, db')"
    and later: "call_trace (auth_call env) ls db' db''" "Issued email \<notin> set ls"
  shows "verify_code env rnd4 rnd5 rnd6 now' email code' db'' = (Inl (Refused InvalidCode), db'')"
proof -
  have ok: "auth_ok db" "auth_ok db'" using reachable_ok[OF history] verify_op.keeps_ok success by blast+
  from success have "filter (unused email) (ad_codes db') = []"
  proof (cases rule: verify_code_cases)
    case (right row s')
    have "\<not> unused email (consume_code now row c)" if "c \<in> set (ad_codes db)" for c
    proof
      assume "unused email (consume_code now row c)"
      then have c: "unused email c" "vc_id c \<noteq> vc_id row" by (auto simp: unused_def consume_code_def split: if_splits)
      then have "{c, row} \<subseteq> set (filter (unused email) (ad_codes db))" "c \<noteq> row" using active_code_Some[OF right(2)] that by auto
      then have "2 \<le> length (filter (unused email) (ad_codes db))" using card_mono[of "set (filter (unused email) (ad_codes db))" "{c, row}"]
        card_length[of "filter (unused email) (ad_codes db)"] by (simp add: card_insert_if)
      then show False using codes_okD(4)[OF auth_okD(1)[OF ok(1)], of email] by simp
    qed
    then show ?thesis using open_session_codes(1)[OF right(4)] by (auto simp: filter_empty_conv)
  qed simp_all
  then have "filter (unused email) (ad_codes db'') = []" by (rule call.trace_spent[OF later(1) ok(2) _ later(2)])
  then show ?thesis using active_code_None by (simp add: verify_code_def auth_tx_def verify_code_tx_def)
qed

theorem code_single_use_witness:
  "verify_code demo_env id id id 3000000 demo_email ''314159'' demo_db3 = (Inl (Refused InvalidCode), demo_db3)"
  using code_single_use[OF demo_trace2 demo_right trace_nil] by simp

lemma otp_message_code: "otp_message e i c = Some m \<Longrightarrow> otp_message e i c' = Some m \<Longrightarrow> c = c'"
  using len_prefixed_inject[of c "[]" c' "[]"] by (auto simp: otp_message_Some)

lemma issue_code_Inr:
  assumes "issue_code env now email code db = (Inr (), db')"
  obtains digest where "\<not> recently_requested now email db" "otp_digest env email (ad_next_code_id db) code = Some digest"
    "ad_codes db' = map (supersede now email) (ad_codes db) @ [new_code now email (ad_next_code_id db) digest]"
    "new_code now email (ad_next_code_id db) digest \<in> set (ad_codes db')"
  using assms by (auto simp: issue_code_def Let_def split: if_splits option.splits)

lemma issued_row_unused:
  assumes "issue_code env now email code db = (Inr (), db')" "c \<in> set (ad_codes db')" "unused email c"
  obtains digest where "otp_digest env email (ad_next_code_id db) code = Some digest" "c = new_code now email (ad_next_code_id db) digest"
proof (rule issue_code_Inr[OF assms(1)])
  fix digest
  assume d: "otp_digest env email (ad_next_code_id db) code = Some digest"
    and cs: "ad_codes db' = map (supersede now email) (ad_codes db) @ [new_code now email (ad_next_code_id db) digest]"
  have "c = new_code now email (ad_next_code_id db) digest" using assms(2,3) unfolding cs by (auto simp: unused_supersede)
  then show thesis using that d by blast
qed

text \<open>C16. Only the issued code opens a session, and only for ten minutes: a verification that succeeds before
  another code is issued for that email presented the very code that was issued, provided the MAC has no
  collision between the two messages.\<close>

theorem only_issued_code_opens:
  assumes history: "call_trace (auth_call env) ls0 empty_auth db"
    and issue: "issue_code env t email code db = (Inr (), db')"
    and later: "call_trace (auth_call env) ls db' db''" "Issued email \<notin> set ls"
    and success: "verify_code env rnd1 rnd2 rnd3 t' email code' db'' = (Inr s, db3)"
    and collision_free: "\<And>m m'. otp_message email (ad_next_code_id db) code = Some m
      \<Longrightarrow> otp_message email (ad_next_code_id db) code' = Some m' \<Longrightarrow> ax_hmac env (ax_key env) m = ax_hmac env (ax_key env) m' \<Longrightarrow> m = m'"
  shows "code' = code \<and> t' < t + VERIFICATION_CODE_TTL_SECONDS * 1000000"
proof -
  have ok: "auth_ok db'" using reachable_ok[OF history] issue_op.keeps_ok issue by blast
  obtain row where row: "active_code t' email db'' = Some row" "otp_digest env (vc_email row) (vc_id row) code' = Some (vc_code_hash row)"
    using success by (cases rule: verify_code_cases) auto
  obtain c where c: "c \<in> set (ad_codes db')" "unused email c" "same_code c row"
    using call.trace_unused_from[OF later(1) ok later(2) active_code_Some(1,2)[OF row(1)]] by blast
  then obtain digest where d: "otp_digest env email (ad_next_code_id db) code = Some digest" "c = new_code t email (ad_next_code_id db) digest"
    using issued_row_unused[OF issue] by blast
  then have "otp_digest env email (ad_next_code_id db) code' = otp_digest env email (ad_next_code_id db) code"
    using row(2) c(3) by (simp add: same_code_def new_code_def)
  then have "code' = code" using d(1) collision_free otp_message_code by (auto simp: otp_digest_def)
  moreover have "t' < t + VERIFICATION_CODE_TTL_SECONDS * 1000000"
    using active_code_Some(3)[OF row(1)] c(3) d(2) by (simp add: same_code_def new_code_def)
  ultimately show ?thesis by blast
qed

theorem only_issued_code_opens_witness:
  "''314159'' = ''314159'' \<and> (2000000 :: nat) < 0 + VERIFICATION_CODE_TTL_SECONDS * 1000000"
  by (rule only_issued_code_opens[OF trace_nil demo_issue demo_trace12 _ demo_right]) simp_all

text \<open>Codes of one email are at least a minute apart: after a code was issued, every later request before
  the minute is over is refused and changes nothing.\<close>

theorem issues_spaced:
  assumes "call_trace (auth_call env) ls0 empty_auth db" "issue_code env t email code db = (Inr (), db')"
    and "call_trace (auth_call env) ls db' db''" "t' < t + CODE_REQUEST_COOLDOWN_SECONDS * 1000000"
  shows "issue_code env t' email code' db'' = (Inl (Refused RateLimited), db'')"
proof -
  have ok: "auth_ok db'" using reachable_ok[OF assms(1)] issue_op.keeps_ok assms(2) by blast
  obtain digest where "new_code t email (ad_next_code_id db) digest \<in> set (ad_codes db')" using assms(2) by (rule issue_code_Inr)
  then obtain c where "c \<in> set (ad_codes db'')" "same_code (new_code t email (ad_next_code_id db) digest) c"
    using call.trace_code_kept[OF assms(3) ok] by blast
  then have "recently_requested t' email db''"
    using assms(4) unfolding recently_requested_def list_ex_iff by (intro bexI[of _ c]) (simp_all add: same_code_def new_code_def)
  then show ?thesis by (simp add: issue_code_def)
qed

theorem issues_spaced_witness: "issue_code demo_env 59000000 demo_email ''161803'' demo_db2 = (Inl (Refused RateLimited), demo_db2)"
  by (rule issues_spaced[OF trace_nil demo_issue demo_trace12]) (simp add: CODE_REQUEST_COOLDOWN_SECONDS_def)

lemma find_only:
  assumes "\<And>x. x \<in> set xs \<Longrightarrow> P x \<Longrightarrow> x = y" "y \<in> set xs"
  shows "find P xs = (if P y then Some y else None)"
proof (cases "find P xs")
  case None
  then show ?thesis using assms(2) by (auto simp: find_None_iff)
next
  case (Some z)
  then have "z \<in> set xs" "P z" by (auto simp: find_Some_iff)
  then show ?thesis using Some assms(1)[of z] by simp
qed

definition session_answer :: "nat \<Rightarrow> auth_session_row \<Rightarrow> auth_db \<Rightarrow> persistence_error + user_record option" where
  "session_answer now s db =
    (if ss_invalidated_at s = None \<and> now < ss_expires_at s
     then (case find (\<lambda>u. ur_id u = ss_user_id s) (ad_users db) of None \<Rightarrow> Inr None | Some u \<Rightarrow> map_sum id Some (user_into_domain u))
     else Inr None)"

lemma user_for_session_row:
  assumes ok: "auth_ok db" and s: "s \<in> set (ad_sessions db)" "ss_token_hash s = hash_secret env token"
  shows "user_for_session env now token db = session_answer now s db"
proof -
  have "ss_user_id s \<in> ur_id ` set (ad_users db)" using auth_okD(3)[OF ok] s(1) by (simp add: sessions_ok_def list_all_iff)
  then have user: "list_ex (\<lambda>u. ur_id u = ss_user_id s) (ad_users db)" unfolding list_ex_iff by (metis imageE)
  have "x = s" if "x \<in> set (ad_sessions db)" "ss_token_hash x = hash_secret env token" for x
    using that s auth_okD(3)[OF ok] by (auto simp: sessions_ok_def distinct_map inj_on_def)
  then have "find (\<lambda>x. ss_token_hash x = hash_secret env token \<and> ss_invalidated_at x = None \<and> now < ss_expires_at x
              \<and> list_ex (\<lambda>u. ur_id u = ss_user_id x) (ad_users db)) (ad_sessions db)
    = (if ss_invalidated_at s = None \<and> now < ss_expires_at s then Some s else None)"
    by (subst find_only[OF _ s(1)]) (use s(2) user in simp_all)
  then show ?thesis by (simp add: user_for_session_def session_answer_def)
qed

lemma session_answer_live:
  assumes ok: "auth_ok db" and u: "u \<in> set (ad_users db)" "ss_user_id s = ur_id u" "ss_invalidated_at s = None" "now < ss_expires_at s"
  obtains r where "session_answer now s db = Inr (Some \<lparr>us_id = ur_id u, us_email = ur_email u, us_role = r\<rparr>)" "persisted_role r = ur_role u"
proof -
  have "distinct (map ur_id (ad_users db))" "valid_role (ur_role u)" using auth_okD(2)[OF ok] u(1) by (auto simp: users_ok_def list_all_iff)
  then have "find (\<lambda>x. ur_id x = ss_user_id s) (ad_users db) = Some u"
    using find_only[OF _ u(1), of "\<lambda>x. ur_id x = ss_user_id s"] u(1,2) by (auto simp: distinct_map inj_on_def)
  moreover obtain r where "user_into_domain u = Inr \<lparr>us_id = ur_id u, us_email = ur_email u, us_role = r\<rparr>" "persisted_role r = ur_role u"
    by (rule user_into_domain_ok[OF \<open>valid_role (ur_role u)\<close>])
  ultimately show ?thesis using that u(3,4) by (simp add: session_answer_def)
qed

lemma verify_code_session:
  assumes ok: "auth_ok db" and success: "verify_code env rnd1 rnd2 rnd3 now email code db = (Inr s, db')"
  obtains row u where "row \<in> set (ad_sessions db')" "ss_token_hash row = hash_secret env (au_token s)" "ss_invalidated_at row = None"
    "ss_expires_at row = now + SESSION_TTL_SECONDS * 1000000" "ss_user_id row = us_id (au_user s)"
    "u \<in> set (ad_users db')" "ur_id u = us_id (au_user s)" "ur_email u = email" "us_email (au_user s) = email"
    "ur_role u = persisted_role (us_role (au_user s))"
  using success
proof (cases rule: verify_code_cases)
  case (right row s')
  have s: "s' = s" using right(1) by simp
  have users: "users_ok (ad_users (db\<lparr>ad_codes := map (consume_code now row) (ad_codes db)\<rparr>))" using auth_okD(2)[OF ok] by simp
  show ?thesis
  proof (rule open_session_Inr[OF right(4)[unfolded s] users])
    fix us u
    assume u: "u \<in> set (ad_users (db\<lparr>ad_codes := map (consume_code now row) (ad_codes db)\<rparr>) @ us)" "ur_email u = email"
        "us_id (au_user s) = ur_id u" "us_email (au_user s) = email"
      and ss: "ad_sessions db' = ad_sessions (db\<lparr>ad_codes := map (consume_code now row) (ad_codes db)\<rparr>) @ [\<lparr>ss_id = random_hex 16 rnd3, ss_user_id = ur_id u,
        ss_token_hash = hash_secret env (au_token s), ss_expires_at = now + SESSION_TTL_SECONDS * 1000000, ss_invalidated_at = None\<rparr>]"
      and us': "ad_users db' = (case ad_owner_user_id (db\<lparr>ad_codes := map (consume_code now row) (ad_codes db)\<rparr>) of
        None \<Rightarrow> set_role (ur_id u) ''Owner'' (ad_users (db\<lparr>ad_codes := map (consume_code now row) (ad_codes db)\<rparr>) @ us)
        | Some w \<Rightarrow> ad_users (db\<lparr>ad_codes := map (consume_code now row) (ad_codes db)\<rparr>) @ us)"
      and r: "persisted_role (us_role (au_user s)) = (case ad_owner_user_id (db\<lparr>ad_codes := map (consume_code now row) (ad_codes db)\<rparr>) of None \<Rightarrow> ''Owner'' | Some w \<Rightarrow> ur_role u)"
    define u' where "u' = (if ad_owner_user_id db = None then u\<lparr>ur_role := ''Owner''\<rparr> else u)"
    have "u' \<in> set (ad_users db')" "ur_role u' = persisted_role (us_role (au_user s))"
      using u(1) us' r by (cases "ad_owner_user_id db"; auto simp: u'_def image_iff)+
    then show thesis
      by (intro that[of "\<lparr>ss_id = random_hex 16 rnd3, ss_user_id = ur_id u, ss_token_hash = hash_secret env (au_token s),
          ss_expires_at = now + SESSION_TTL_SECONDS * 1000000, ss_invalidated_at = None\<rparr>" u'])
        (use u ss in \<open>simp_all add: u'_def\<close>)
  qed
qed simp_all

text \<open>What a logout does to the session of its token, and that no later call undoes it.\<close>

lemma logout_closes:
  assumes "auth_call env (LoggedOut token) db db'" "row \<in> set (ad_sessions db)" "ss_token_hash row = hash_secret env token"
  shows "\<exists>row'\<in>set (ad_sessions db'). ss_token_hash row' = ss_token_hash row \<and> ss_invalidated_at row' \<noteq> None"
  using assms(1)
proof cases
  case (call_logout t)
  define closed where "closed = (if ss_invalidated_at row = None then row\<lparr>ss_invalidated_at := Some t\<rparr> else row)"
  have "closed \<in> set (ad_sessions db')" "ss_token_hash closed = ss_token_hash row" "ss_invalidated_at closed \<noteq> None"
    using call_logout assms(2,3) by (auto simp: closed_def invalidate_session_def image_iff intro!: bexI[of _ row])
  then show ?thesis by blast
qed (simp_all add: issue_label_def verify_label_def split: sum.splits if_splits)

lemma logged_out_closed:
  assumes "call_trace (auth_call env) ls db db'" "auth_ok db" "row \<in> set (ad_sessions db)"
    and "LoggedOut token \<in> set ls" "hash_secret env token = ss_token_hash row"
  shows "\<exists>row'\<in>set (ad_sessions db'). ss_token_hash row' = ss_token_hash row \<and> ss_invalidated_at row' \<noteq> None"
  using assms
proof (induction rule: call_trace.induct)
  case (trace_snoc ls db db' l db'')
  have ok: "auth_ok db'" by (rule call.trace_ok[OF trace_snoc(1,4)])
  show ?case
  proof (cases "l = LoggedOut token")
    case True
    obtain row' where "row' \<in> set (ad_sessions db')" "ss_token_hash row' = ss_token_hash row"
      using call.trace_session[OF trace_snoc(1,4,5)] by blast
    then show ?thesis using logout_closes[of env token db' db'' row'] trace_snoc(2,7) True by simp
  next
    case False
    then obtain row' where row': "row' \<in> set (ad_sessions db')" "ss_token_hash row' = ss_token_hash row" "ss_invalidated_at row' \<noteq> None"
      using trace_snoc by auto
    have "call_trace (auth_call env) ([] @ [l]) db' db''" using trace_nil trace_snoc(2) by (rule call_trace.trace_snoc)
    then show ?thesis using call.trace_session[of env _ db' db'' row'] ok row' by metis
  qed
qed simp

text \<open>C17. A session lives exactly until its logout or its thirty days. Whatever calls follow the sign-in: once one
  of them is a logout with the token (or a token of the same hash), the token names nobody any more; as long as none is, the
  token is answered with the user who signed in, at his present role, and not at all from the thirtieth day on.\<close>

theorem session_lifetime:
  assumes history: "call_trace (auth_call env) ls0 empty_auth db"
    and success: "verify_code env rnd1 rnd2 rnd3 t email code db = (Inr s, db')"
    and later: "call_trace (auth_call env) ls db' db''"
  shows "if \<exists>token. LoggedOut token \<in> set ls \<and> hash_secret env token = hash_secret env (au_token s)
    then user_for_session env t' (au_token s) db'' = Inr None
    else if t' < t + SESSION_TTL_SECONDS * 1000000
    then \<exists>u. user_for_session env t' (au_token s) db'' = Inr (Some u) \<and> us_id u = us_id (au_user s) \<and> us_email u = email
      \<and> user_by_id (us_id u) db'' = Inr (Some u)
    else user_for_session env t' (au_token s) db'' = Inr None"
proof (rule verify_code_session[OF reachable_ok[OF history] success])
  fix row u
  assume row: "row \<in> set (ad_sessions db')" "ss_token_hash row = hash_secret env (au_token s)" "ss_invalidated_at row = None"
      "ss_expires_at row = t + SESSION_TTL_SECONDS * 1000000" "ss_user_id row = us_id (au_user s)"
    and u: "u \<in> set (ad_users db')" "ur_id u = us_id (au_user s)" "ur_email u = email"
  have ok: "auth_ok db'" "auth_ok db''"
    using verify_op.keeps_ok[OF reachable_ok[OF history]] success call.trace_ok[OF later] by blast+
  note answer = user_for_session_row[OF ok(2), where token = "au_token s" and env = env]
  show ?thesis
  proof (cases "\<exists>token. LoggedOut token \<in> set ls \<and> hash_secret env token = hash_secret env (au_token s)")
    case True
    then obtain row' where "row' \<in> set (ad_sessions db'')" "ss_token_hash row' = hash_secret env (au_token s)" "ss_invalidated_at row' \<noteq> None"
      using logged_out_closed[OF later ok(1) row(1)] row(2) by metis
    then have "user_for_session env t' (au_token s) db'' = Inr None" using answer[of row'] by (auto simp: session_answer_def)
    then show ?thesis using True by simp
  next
    case open_session: False
    have "row \<in> set (ad_sessions db'')" using call.trace_session[OF later ok(1) row(1)] open_session row(2) by auto
    then have answer: "user_for_session env t' (au_token s) db'' = session_answer t' row db''" using answer row(2) by blast
    show ?thesis
    proof (cases "t' < t + SESSION_TTL_SECONDS * 1000000")
      case True
      obtain u' where u': "u' \<in> set (ad_users db'')" "ur_id u' = ur_id u" "ur_email u' = ur_email u"
        using call.trace_users[OF later ok(1) u(1)] by blast
      obtain r where r: "session_answer t' row db'' = Inr (Some \<lparr>us_id = ur_id u', us_email = ur_email u', us_role = r\<rparr>)"
        by (rule session_answer_live[OF ok(2) u'(1)]) (use row u u' True in auto)
      then have "user_by_id (ur_id u') db'' = Inr (Some \<lparr>us_id = ur_id u', us_email = ur_email u', us_role = r\<rparr>)"
        using row(3-5) True u(2) u'(2) by (simp add: session_answer_def user_by_id_def)
      then show ?thesis using open_session True r answer u u' by simp
    next
      case False
      then show ?thesis using open_session answer row(4) by (simp add: session_answer_def)
    qed
  qed
qed

lemma demo_logout:
  "call_trace (auth_call demo_env) ([] @ [LoggedOut (au_token demo_session)]) demo_db3 (invalidate_session demo_env 3000000 (au_token demo_session) demo_db3)"
  using trace_nil call_logout by (rule trace_snoc)

theorem session_lifetime_witness:
  "(\<exists>u. user_for_session demo_env 3000000 (au_token demo_session) demo_db3 = Inr (Some u) \<and> us_email u = demo_email)
   \<and> user_for_session demo_env (2000000 + SESSION_TTL_SECONDS * 1000000) (au_token demo_session) demo_db3 = Inr None
   \<and> user_for_session demo_env 3000000 (au_token demo_session) (invalidate_session demo_env 3000000 (au_token demo_session) demo_db3) = Inr None"
  using session_lifetime[OF demo_trace2 demo_right trace_nil, of 3000000]
    session_lifetime[OF demo_trace2 demo_right trace_nil, of "2000000 + SESSION_TTL_SECONDS * 1000000"]
    session_lifetime[OF demo_trace2 demo_right demo_logout, of 3000000]
  by (auto simp: SESSION_TTL_SECONDS_def)

text \<open>A logout is final: once a token that opened a session is logged out, it names nobody in any later state.\<close>

theorem logout_is_final:
  assumes history: "call_trace (auth_call env) ls0 empty_auth db"
    and success: "verify_code env rnd1 rnd2 rnd3 t email code db = (Inr s, db1)"
    and between: "call_trace (auth_call env) ls1 db1 db2"
    and later: "call_trace (auth_call env) ls2 (invalidate_session env t2 (au_token s) db2) db3"
  shows "user_for_session env t3 (au_token s) db3 = Inr None"
proof (rule verify_code_session[OF reachable_ok[OF history] success])
  fix row
  assume row: "row \<in> set (ad_sessions db1)" "ss_token_hash row = hash_secret env (au_token s)"
  have ok1: "auth_ok db1" using verify_op.keeps_ok[OF reachable_ok[OF history]] success by blast
  have ok2: "auth_ok db2" by (rule call.trace_ok[OF between ok1])
  obtain row2 where row2: "row2 \<in> set (ad_sessions db2)" "ss_token_hash row2 = hash_secret env (au_token s)"
    using call.trace_session[OF between ok1 row(1)] row(2) by auto
  define closed where "closed = (if ss_invalidated_at row2 = None then row2\<lparr>ss_invalidated_at := Some t2\<rparr> else row2)"
  have closed: "closed \<in> set (ad_sessions (invalidate_session env t2 (au_token s) db2))" "ss_token_hash closed = hash_secret env (au_token s)"
      "ss_invalidated_at closed \<noteq> None"
    using row2 by (auto simp: closed_def invalidate_session_def image_iff intro!: bexI[of _ row2])
  have ok2': "auth_ok (invalidate_session env t2 (au_token s) db2)" using logout_op.keeps_ok[OF ok2] by blast
  obtain row3 where row3: "row3 \<in> set (ad_sessions db3)" "ss_token_hash row3 = hash_secret env (au_token s)" "ss_invalidated_at row3 \<noteq> None"
    using call.trace_session[OF later ok2' closed(1)] closed(2,3) by auto
  then show ?thesis using user_for_session_row[OF call.trace_ok[OF later ok2'] row3(1,2)] by (auto simp: session_answer_def)
qed

theorem logout_is_final_witness:
  "user_for_session demo_env 4000000 (au_token demo_session) (invalidate_session demo_env 3000000 (au_token demo_session) demo_db3) = Inr None"
  by (rule logout_is_final[OF demo_trace2 demo_right trace_nil trace_nil])

lemma active_code_issued:
  assumes "auth_ok db" "issue_code env t email code db = (Inr (), db')" "t' < t + VERIFICATION_CODE_TTL_SECONDS * 1000000"
    and "otp_digest env email (ad_next_code_id db) code = Some digest"
  shows "active_code t' email db' = Some (new_code t email (ad_next_code_id db) digest)"
proof -
  let ?new = "new_code t email (ad_next_code_id db) digest"
  have cs: "ad_codes db' = map (supersede t email) (ad_codes db) @ [?new]"
    using assms(2,4) by (auto simp: issue_code_def Let_def split: if_splits)
  have "\<not> usable t' email (supersede t email c)" for c using unused_supersede[of email t c] by (simp add: usable_def unused_def)
  then have "filter (usable t' email) (map (supersede t email) (ad_codes db)) = []" by (simp add: filter_empty_conv)
  moreover have "usable t' email ?new" using assms(3) by (simp add: usable_def new_code_def)
  ultimately show ?thesis by (simp add: active_code_def cs)
qed

text \<open>A draw of random bytes is fresh when no row carries the identities and the hash it makes.\<close>

definition fresh_ids :: "auth_env \<Rightarrow> (nat \<Rightarrow> nat) \<Rightarrow> (nat \<Rightarrow> nat) \<Rightarrow> (nat \<Rightarrow> nat) \<Rightarrow> auth_db \<Rightarrow> bool" where
  "fresh_ids env rnd1 rnd2 rnd3 db \<longleftrightarrow> \<not> list_ex (\<lambda>u. ur_id u = random_hex 16 rnd1) (ad_users db)
     \<and> \<not> list_ex (\<lambda>x. ss_id x = random_hex 16 rnd3 \<or> ss_token_hash x = hash_secret env (random_hex 32 rnd2)) (ad_sessions db)"

lemma open_session_fresh:
  assumes ok: "users_ok (ad_users db)" and fresh: "fresh_ids env rnd1 rnd2 rnd3 db"
  shows "\<exists>s db'. open_session env rnd1 rnd2 rnd3 now email db = Inr (s, db')"
proof -
  have "\<exists>db1. ensure_user (random_hex 16 rnd1) email db = Inr db1" using fresh by (simp add: ensure_user_def fresh_ids_def)
  then obtain db1 where e: "ensure_user (random_hex 16 rnd1) email db = Inr db1" by blast
  then obtain us where us: "db1 = db\<lparr>ad_users := ad_users db @ us\<rparr>" "users_ok (ad_users db @ us)" "\<exists>u\<in>set (ad_users db @ us). ur_email u = email"
    using ensure_user_Inr ok by blast
  then obtain u where u: "find (\<lambda>u. ur_email u = email) (ad_users db @ us) = Some u"
    by (cases "find (\<lambda>u. ur_email u = email) (ad_users db @ us)") (auto simp: find_None_iff)
  then have "u \<in> set (ad_users db @ us)" by (auto simp: find_Some_iff set_conv_nth)
  then have "valid_role (ur_role u)" using us(2) by (auto simp: users_ok_def list_all_iff)
  then obtain r where "user_into_domain u = Inr \<lparr>us_id = ur_id u, us_email = ur_email u, us_role = r\<rparr>" by (rule user_into_domain_ok)
  then show ?thesis using fresh
    by (simp add: open_session_def e us(1) u claim_owner_def insert_auth_session_def Let_def fresh_ids_def)
qed

text \<open>A code that was issued is accepted within its ten minutes, when the drawn identities
  are fresh; the session it opens is that of its email and is recognised at once.\<close>

lemma issued_code_signs_in:
  assumes start: "auth_ok db"
    and issue: "issue_code env t email code db = (Inr (), db')"
    and in_time: "t' < t + VERIFICATION_CODE_TTL_SECONDS * 1000000"
    and fresh: "fresh_ids env rnd1 rnd2 rnd3 db'"
  shows "\<exists>s db''. verify_code env rnd1 rnd2 rnd3 t' email code db' = (Inr s, db'') \<and> us_email (au_user s) = email
    \<and> au_token s = random_hex 32 rnd2 \<and> user_for_session env t' (au_token s) db'' = Inr (Some (au_user s))"
proof (rule issue_code_Inr[OF issue])
  fix digest
  assume d: "otp_digest env email (ad_next_code_id db) code = Some digest"
  let ?row = "new_code t email (ad_next_code_id db) digest"
  let ?db = "db'\<lparr>ad_codes := map (consume_code t' ?row) (ad_codes db')\<rparr>"
  have ok: "auth_ok db'" using issue_op.keeps_ok[OF start] issue by blast
  have active: "active_code t' email db' = Some ?row" by (rule active_code_issued[OF start issue in_time d])
  have "users_ok (ad_users ?db)" "fresh_ids env rnd1 rnd2 rnd3 ?db" using auth_okD(2)[OF ok] fresh by (simp_all add: fresh_ids_def)
  then obtain s db'' where opened: "open_session env rnd1 rnd2 rnd3 t' email ?db = Inr (s, db'')" using open_session_fresh by blast
  have "length (filter (\<lambda>c. vc_id c = vc_id ?row \<and> vc_used_at c = None) (ad_codes db')) = 1"
    using code_row_alone[OF auth_okD(1)[OF ok] active_code_Some(1)[OF active]] active_code_Some(2)[OF active] by (simp add: unused_def)
  then have v: "verify_code env rnd1 rnd2 rnd3 t' email code db' = (Inr s, db'')"
    using opened d by (simp add: verify_code_def auth_tx_def verify_code_tx_def active) (simp add: new_code_def)
  show ?thesis
  proof (rule verify_code_session[OF ok v])
    fix row u
    assume row: "row \<in> set (ad_sessions db'')" "ss_token_hash row = hash_secret env (au_token s)" "ss_invalidated_at row = None"
      "ss_expires_at row = t' + SESSION_TTL_SECONDS * 1000000" "ss_user_id row = us_id (au_user s)"
      and u: "u \<in> set (ad_users db'')" "ur_id u = us_id (au_user s)" "ur_email u = email" "us_email (au_user s) = email"
      "ur_role u = persisted_role (us_role (au_user s))"
    have ok'': "auth_ok db''" using verify_op.keeps_ok[OF ok] v by blast
    obtain r where r: "session_answer t' row db'' = Inr (Some \<lparr>us_id = ur_id u, us_email = ur_email u, us_role = r\<rparr>)" "persisted_role r = ur_role u"
      by (rule session_answer_live[OF ok'' u(1)]) (use row u in \<open>auto simp: SESSION_TTL_SECONDS_def\<close>)
    have "r = us_role (au_user s)" using r(2) u(5) by (cases r; cases "us_role (au_user s)") (simp_all add: persisted_role_def)
    then have "user_for_session env t' (au_token s) db'' = Inr (Some (au_user s))"
      using user_for_session_row[OF ok'' row(1,2)] r(1) u by simp
    moreover have "au_token s = random_hex 32 rnd2" by (rule open_session_Inr[OF opened \<open>users_ok (ad_users ?db)\<close>])
    ultimately show ?thesis using v u(4) by blast
  qed
qed

lemma new_user_requester:
  assumes "open_session env rnd1 rnd2 rnd3 now email db = Inr (s, db')" "ad_owner_user_id db = Some w" "email \<notin> ur_email ` set (ad_users db)"
  shows "us_role (au_user s) = Requester"
proof -
  have "\<not> list_ex (\<lambda>u. ur_email u = email) (ad_users db)" "find (\<lambda>u. ur_email u = email) (ad_users db) = None"
    using assms(3) by (auto simp: list_ex_iff find_None_iff)
  moreover have "find p (xs @ [x]) = Some x" if "find p xs = None" "p x" for p xs and x :: user_row
    using that by (induction xs) (auto split: if_splits)
  ultimately show ?thesis using assms(1,2)
    by (auto simp: open_session_def ensure_user_def claim_owner_def insert_auth_session_def Let_def and_then_Inr_iff
        user_into_domain_def split: if_splits option.splits)
qed

text \<open>C18. The first user who signs in owns the instance and nobody after him: the verification that creates the first
  user makes him the owner, every later one leaves all roles as they are and starts a new user as a requester,
  and the recorded owner never changes.\<close>

theorem first_user_owns:
  assumes history: "call_trace (auth_call env) ls0 empty_auth db"
    and success: "verify_code env rnd1 rnd2 rnd3 t email code db = (Inr s, db')"
    and later: "call_trace (auth_call env) ls db' db''"
  shows "if ad_users db = [] then us_role (au_user s) = Owner \<and> ad_owner_user_id db'' = Some (us_id (au_user s))
    else set (ad_users db) \<subseteq> set (ad_users db') \<and> ad_owner_user_id db'' = ad_owner_user_id db
      \<and> (email \<notin> ur_email ` set (ad_users db) \<longrightarrow> us_role (au_user s) = Requester)"
  using success
proof (cases rule: verify_code_cases)
  case (right row s')
  have s: "s' = s" using right(1) by simp
  let ?db = "db\<lparr>ad_codes := map (consume_code t row) (ad_codes db)\<rparr>"
  have ok: "auth_ok db" "auth_ok db'" using reachable_ok[OF history] verify_op.keeps_ok success by blast+
  have users: "users_ok (ad_users ?db)" using auth_okD(2)[OF ok(1)] by simp
  show ?thesis
  proof (rule open_session_Inr[OF right(4)[unfolded s] users])
    fix us u
    assume id: "us_id (au_user s) = ur_id u"
      and w: "ad_owner_user_id db' = (case ad_owner_user_id ?db of None \<Rightarrow> Some (ur_id u) | Some w \<Rightarrow> Some w)"
      and us': "ad_users db' = (case ad_owner_user_id ?db of None \<Rightarrow> set_role (ur_id u) ''Owner'' (ad_users ?db @ us) | Some w \<Rightarrow> ad_users ?db @ us)"
      and r: "persisted_role (us_role (au_user s)) = (case ad_owner_user_id ?db of None \<Rightarrow> ''Owner'' | Some w \<Rightarrow> ur_role u)"
    show ?thesis
    proof (cases "ad_owner_user_id db")
      case None
      then have "ad_users db = []" using auth_okD(4)[OF ok(1)] by (simp add: owner_ok_def)
      moreover have "ad_owner_user_id db'' = Some (ur_id u)" using call.trace_owner[OF later ok(2)] w None by simp
      moreover have "us_role (au_user s) = Owner" using r None by (cases "us_role (au_user s)") (simp_all add: persisted_role_def)
      ultimately show ?thesis using id by simp
    next
      case (Some w')
      then have "ad_users db \<noteq> []" using auth_okD(4)[OF ok(1)] by (auto simp: owner_ok_def)
      moreover have "ad_owner_user_id db'' = ad_owner_user_id db" using call.trace_owner[OF later ok(2)] w Some by simp
      moreover have "us_role (au_user s) = Requester" if "email \<notin> ur_email ` set (ad_users db)"
        using new_user_requester[OF right(4)[unfolded s]] that Some by simp
      ultimately show ?thesis using us' Some by auto
    qed
  qed
qed simp_all

theorem first_user_owns_witness: "us_role (au_user demo_session) = Owner \<and> ad_owner_user_id demo_db3 = Some (us_id (au_user demo_session))"
proof -
  have "ad_users demo_db2 = []" by code_simp
  then show ?thesis using first_user_owns[OF demo_trace2 demo_right trace_nil] by simp
qed

end
