(* ===== verification/Client_Identity.thy ===== *)
theory Client_Identity
  imports Rust_Ip
begin

unbundle bit_operations_syntax

text \<open>
  The first half of \<open>north-server/src/public_abuse.rs\<close>: IP networks in canonical form and the identity of
  a client behind trusted proxies, from which the keys of the rate limiter are made.

  \<^item> An \<open>Ipv4Addr\<close> is a 32-bit word and an \<open>Ipv6Addr\<close> a 128-bit word, as \<open>u32::from\<close> and \<open>u128::from\<close> read
    them; shifts and masks are those of the code.
  \<^item> The header map is an argument: for each \<open>X-Forwarded-For\<close> value what \<open>HeaderValue::to_str\<close> gives,
    \<open>None\<close> for a value that is not visible ASCII.
  \<^item> \<open>parse::<IpAddr>()\<close>, \<open>parse::<u8>()\<close> and the \<open>Display\<close> of addresses are those of the standard library.
\<close>

type_synonym u128 = "128 word"

section \<open>Addresses\<close>

datatype ip_addr = V4 u32 | V6 u128

definition ipv4_of :: "nat \<times> nat \<times> nat \<times> nat \<Rightarrow> u32" where
  "ipv4_of q = (case q of (a, b, c, d) \<Rightarrow> ((of_nat a * 256 + of_nat b) * 256 + of_nat c) * 256 + of_nat d)"

definition ipv6_of :: "nat list \<Rightarrow> u128" where
  "ipv6_of groups = foldl (\<lambda>acc g. acc * 65536 + of_nat g) 0 groups"

text \<open>\<open>IpAddr::from_str\<close>: an IPv4 address, else an IPv6 address, and nothing after it.\<close>

definition parse_ip :: "string \<Rightarrow> ip_addr option" where
  "parse_ip s =
     (case (case read_ipv4_addr s of
              Some (q, r) \<Rightarrow> Some (V4 (ipv4_of q), r)
            | None \<Rightarrow> (case read_ipv6_addr s of Some (gs, r) \<Rightarrow> Some (V6 (ipv6_of gs), r) | None \<Rightarrow> None)) of
        Some (a, []) \<Rightarrow> Some a
      | _ \<Rightarrow> None)"

text \<open>\<open>u8::from_str\<close>: an optional plus sign and at least one digit, at most 255.\<close>

definition parse_u8 :: "string \<Rightarrow> nat option" where
  "parse_u8 s =
     (let digits = (if starts_with ''+'' s then drop 1 s else s)
      in if digits = [] \<or> \<not> list_all is_ascii_digit digits then None
         else (let v = foldl (\<lambda>acc c. acc * 10 + (of_char c - 48)) 0 digits in if v \<le> 255 then Some v else None))"

definition segments :: "u128 \<Rightarrow> u16 list" where
  "segments a = map (\<lambda>i. ucast (drop_bit (16 * (7 - i)) a)) [0..<8]"

text \<open>\<open>Ipv6Addr::to_ipv4\<close> on the compatible and the mapped addresses.\<close>

definition to_ipv4 :: "u128 \<Rightarrow> u32 option" where
  "to_ipv4 a =
     (if take 5 (segments a) = replicate 5 0 \<and> (segments a ! 5 = 0 \<or> segments a ! 5 = 0xffff)
      then Some (ucast a) else None)"

definition mapped_ipv4 :: "u128 \<Rightarrow> u32 option" where
  "mapped_ipv4 a =
     (if take 5 (segments a) = replicate 5 0 \<and> segments a ! 5 = 0xffff then to_ipv4 a else None)"

definition normalize_ip :: "ip_addr \<Rightarrow> ip_addr" where
  "normalize_ip address =
     (case address of
        V4 a \<Rightarrow> V4 a
      | V6 a \<Rightarrow> (case mapped_ipv4 a of Some v4 \<Rightarrow> V4 v4 | None \<Rightarrow> V6 a))"

definition mask_ip :: "ip_addr \<Rightarrow> nat \<Rightarrow> ip_addr" where
  "mask_ip address prefix_len =
     (case address of
        V4 a \<Rightarrow> V4 (a AND (if prefix_len = 0 then 0 else push_bit (32 - prefix_len) (- 1)))
      | V6 a \<Rightarrow> V6 (a AND (if prefix_len = 0 then 0 else push_bit (128 - prefix_len) (- 1))))"

section \<open>Networks\<close>

datatype cidr_parse_error = CidrParseError

record ip_cidr =
  ic_network :: ip_addr
  ic_prefix_len :: nat

definition new_cidr :: "ip_addr \<Rightarrow> nat \<Rightarrow> cidr_parse_error + ip_cidr" where
  "new_cidr network prefix_len =
     (let network = normalize_ip network;
          max_prefix = (case network of V4 _ \<Rightarrow> 32 | V6 _ \<Rightarrow> 128)
      in if prefix_len > max_prefix then Inl CidrParseError
         else Inr \<lparr>ic_network = mask_ip network prefix_len, ic_prefix_len = prefix_len\<rparr>)"

definition cidr_contains :: "ip_cidr \<Rightarrow> ip_addr \<Rightarrow> bool" where
  "cidr_contains net address =
     (case (ic_network net, normalize_ip address) of
        (V4 network, V4 a) \<Rightarrow> mask_ip (V4 a) (ic_prefix_len net) = V4 network
      | (V6 network, V6 a) \<Rightarrow> mask_ip (V6 a) (ic_prefix_len net) = V6 network
      | _ \<Rightarrow> False)"

text \<open>\<open>primary_key\<close> ends in \<open>expect\<close>; its prefix lengths never make \<open>new\<close> fail (\<open>primary_cidr_exact\<close>).\<close>

definition primary_cidr :: "ip_addr \<Rightarrow> cidr_parse_error + ip_cidr" where
  "primary_cidr address =
     (let address = normalize_ip address;
          prefix_len = (case address of V4 _ \<Rightarrow> 32 | V6 _ \<Rightarrow> 64)
      in new_cidr address prefix_len)"

definition cidr_from_str :: "string \<Rightarrow> cidr_parse_error + ip_cidr" where
  "cidr_from_str value =
     (case split_once CHR ''/'' value of
        None \<Rightarrow> Inl CidrParseError
      | Some (address, prefix) \<Rightarrow>
          (case parse_ip address of
             None \<Rightarrow> Inl CidrParseError
           | Some original \<Rightarrow>
               (case parse_u8 prefix of
                  None \<Rightarrow> Inl CidrParseError
                | Some prefix_len \<Rightarrow>
                    (case original of
                       V6 a \<Rightarrow>
                         (case mapped_ipv4 a of
                            Some v4 \<Rightarrow> if prefix_len < 96 then Inl CidrParseError else new_cidr (V4 v4) (prefix_len - 96)
                          | None \<Rightarrow> new_cidr (V6 a) prefix_len)
                     | V4 a \<Rightarrow> new_cidr (normalize_ip (V4 a)) prefix_len))))"

section \<open>Client identity\<close>

definition trusted :: "ip_cidr list \<Rightarrow> ip_addr \<Rightarrow> bool" where
  "trusted nets a = list_ex (\<lambda>network. cidr_contains network a) nets"

fun parse_tokens :: "string list \<Rightarrow> ip_addr list option" where
  "parse_tokens [] = Some []"
| "parse_tokens (t # ts) =
     (let t = trim t
      in if t = [] then None
         else (case parse_ip t of
                 None \<Rightarrow> None
               | Some a \<Rightarrow> map_option (\<lambda>as. normalize_ip a # as) (parse_tokens ts)))"

fun parse_values :: "string option list \<Rightarrow> ip_addr list option" where
  "parse_values [] = Some []"
| "parse_values (None # vs) = None"
| "parse_values (Some v # vs) =
     (case parse_tokens (split_on CHR '','' v) of
        None \<Rightarrow> None
      | Some as \<Rightarrow> map_option (\<lambda>bs. as @ bs) (parse_values vs))"

definition parse_forwarded_chain :: "string option list \<Rightarrow> ip_addr list option" where
  "parse_forwarded_chain headers =
     (case parse_values headers of
        None \<Rightarrow> None
      | Some chain \<Rightarrow> if headers \<noteq> [] \<and> chain \<noteq> [] then Some chain else None)"

definition client_address :: "ip_addr \<Rightarrow> string option list \<Rightarrow> ip_cidr list \<Rightarrow> ip_addr" where
  "client_address peer headers nets =
     (let immediate_peer = normalize_ip peer
      in if trusted nets immediate_peer
         then (case Option.bind (parse_forwarded_chain headers) (\<lambda>chain. find (\<lambda>a. \<not> trusted nets a) (rev chain)) of
                 Some a \<Rightarrow> a
               | None \<Rightarrow> immediate_peer)
         else immediate_peer)"

section \<open>Printing\<close>

definition hex_digit :: "nat \<Rightarrow> char" where
  "hex_digit d = (if d < 10 then char_of (48 + d) else char_of (87 + d))"

fun show_hex :: "nat \<Rightarrow> string" where
  "show_hex n = (if n < 16 then [hex_digit n] else show_hex (n div 16) @ [hex_digit (n mod 16)])"

declare show_hex.simps [simp del]

definition show_ipv4 :: "u32 \<Rightarrow> string" where
  "show_ipv4 a =
     show_nat (unat (drop_bit 24 a)) @ ''.'' @ show_nat (unat (drop_bit 16 a AND 255)) @ ''.''
     @ show_nat (unat (drop_bit 8 a AND 255)) @ ''.'' @ show_nat (unat (a AND 255))"

fun join_hex :: "u16 list \<Rightarrow> string" where
  "join_hex [] = []"
| "join_hex [g] = show_hex (unat g)"
| "join_hex (g # gs) = show_hex (unat g) @ '':'' @ join_hex gs"

text \<open>The first longest run of zero groups: position and length, scanned from the left.\<close>

fun longest_zeros :: "u16 list \<Rightarrow> nat \<Rightarrow> nat \<times> nat \<Rightarrow> nat \<times> nat \<Rightarrow> nat \<times> nat" where
  "longest_zeros [] i current longest = longest"
| "longest_zeros (g # gs) i current longest =
     (if g = 0
      then (let current = (if snd current = 0 then (i, 1) else (fst current, snd current + 1));
                longest = (if snd current > snd longest then current else longest)
            in longest_zeros gs (Suc i) current longest)
      else longest_zeros gs (Suc i) (0, 0) longest)"

definition show_ipv6 :: "u128 \<Rightarrow> string" where
  "show_ipv6 a =
     (case mapped_ipv4 a of
        Some v4 \<Rightarrow> ''::ffff:'' @ show_ipv4 v4
      | None \<Rightarrow>
          (case longest_zeros (segments a) 0 (0, 0) (0, 0) of
             (start, len) \<Rightarrow>
               if len > 1
               then join_hex (take start (segments a)) @ ''::'' @ join_hex (drop (start + len) (segments a))
               else join_hex (segments a)))"

definition show_cidr :: "ip_cidr \<Rightarrow> string" where
  "show_cidr net =
     (case ic_network net of V4 a \<Rightarrow> show_ipv4 a | V6 a \<Rightarrow> show_ipv6 a) @ ''/'' @ show_nat (ic_prefix_len net)"

record client_identity =
  ci_address :: ip_addr
  ci_primary_key :: string

definition resolve_client_identity ::
  "ip_addr \<Rightarrow> string option list \<Rightarrow> ip_cidr list \<Rightarrow> cidr_parse_error + client_identity" where
  "resolve_client_identity peer headers nets =
     (let a = client_address peer headers nets
      in and_then (primary_cidr a) (\<lambda>net. Inr \<lparr>ci_address = a, ci_primary_key = show_cidr net\<rparr>))"

section \<open>Networks are bit prefixes\<close>

lemma masked_eq_iff:
  fixes a b :: "'a :: len word"
  assumes "0 < p" "p \<le> LENGTH('a)"
  shows "a AND push_bit (LENGTH('a) - p) (- 1) = b AND push_bit (LENGTH('a) - p) (- 1)
    \<longleftrightarrow> (\<forall>i < p. bit a (LENGTH('a) - 1 - i) = bit b (LENGTH('a) - 1 - i))"
proof -
  have "a AND push_bit (LENGTH('a) - p) (- 1) = b AND push_bit (LENGTH('a) - p) (- 1)
      \<longleftrightarrow> (\<forall>j < LENGTH('a). LENGTH('a) - p \<le> j \<longrightarrow> bit a j = bit b j)"
    by (auto simp: bit_eq_iff possible_bit_word bit_and_iff bit_not_iff bit_mask_iff)
  also have "\<dots> \<longleftrightarrow> (\<forall>i < p. bit a (LENGTH('a) - 1 - i) = bit b (LENGTH('a) - 1 - i))"
  proof
    assume top: "\<forall>i < p. bit a (LENGTH('a) - 1 - i) = bit b (LENGTH('a) - 1 - i)"
    show "\<forall>j < LENGTH('a). LENGTH('a) - p \<le> j \<longrightarrow> bit a j = bit b j"
    proof (rule allI, rule impI, rule impI)
      fix j assume "j < LENGTH('a)" "LENGTH('a) - p \<le> j"
      then have "LENGTH('a) - 1 - j < p" "LENGTH('a) - 1 - (LENGTH('a) - 1 - j) = j" using assms(2) by auto
      with top show "bit a j = bit b j" by metis
    qed
  qed (use assms in auto)
  finally show ?thesis .
qed

text \<open>Two addresses of one family agree on the leading \<open>p\<close> bits.\<close>

definition same_prefix :: "nat \<Rightarrow> ip_addr \<Rightarrow> ip_addr \<Rightarrow> bool" where
  "same_prefix p x y =
     (case (x, y) of
        (V4 a, V4 b) \<Rightarrow> (\<forall>i < p. bit a (31 - i) = bit b (31 - i))
      | (V6 a, V6 b) \<Rightarrow> (\<forall>i < p. bit a (127 - i) = bit b (127 - i))
      | _ \<Rightarrow> False)"

lemma mask_ip_eq_iff:
  assumes "p \<le> (case x of V4 _ \<Rightarrow> 32 | V6 _ \<Rightarrow> 128)"
  shows "mask_ip y p = mask_ip x p \<longleftrightarrow> same_prefix p y x"
  using assms masked_eq_iff[of p, where 'a = 32] masked_eq_iff[of p, where 'a = 128]
  by (cases "p = 0"; cases x; cases y) (auto simp: mask_ip_def same_prefix_def)

lemma normalize_idem [simp]: "normalize_ip (normalize_ip a) = normalize_ip a"
  by (auto simp: normalize_ip_def split: ip_addr.splits option.splits)

lemma primary_cidr_exact:
  "primary_cidr y = (case normalize_ip y of
      V4 a \<Rightarrow> Inr \<lparr>ic_network = mask_ip (V4 a) 32, ic_prefix_len = 32\<rparr>
    | V6 a \<Rightarrow> Inr \<lparr>ic_network = mask_ip (V6 a) 64, ic_prefix_len = 64\<rparr>)"
proof (cases "normalize_ip y")
  case (V4 a)
  then have "normalize_ip (V4 a) = V4 a" using normalize_idem[of y] by simp
  then show ?thesis using V4 by (simp add: primary_cidr_def new_cidr_def)
next
  case (V6 a)
  then have "normalize_ip (V6 a) = V6 a" using normalize_idem[of y] by simp
  then show ?thesis using V6 by (simp add: primary_cidr_def new_cidr_def)
qed

lemma cidr_contains_iff:
  assumes "new_cidr x p = Inr net"
  shows "cidr_contains net y \<longleftrightarrow> same_prefix p (normalize_ip y) (normalize_ip x)"
proof -
  have p: "p \<le> (case normalize_ip x of V4 _ \<Rightarrow> 32 | V6 _ \<Rightarrow> 128)"
    and net: "net = \<lparr>ic_network = mask_ip (normalize_ip x) p, ic_prefix_len = p\<rparr>"
    using assms by (auto simp: new_cidr_def Let_def split: if_splits)
  have "cidr_contains net y \<longleftrightarrow> mask_ip (normalize_ip y) p = mask_ip (normalize_ip x) p"
    by (cases "normalize_ip x"; cases "normalize_ip y") (auto simp: cidr_contains_def net mask_ip_def)
  then show ?thesis using mask_ip_eq_iff[OF p] by simp
qed

text \<open>A network contains exactly the addresses with its prefix. For a network made from an address and a
  prefix length, an address belongs to it if and only if, after IPv4-mapped addresses are read as IPv4,
  both are of the same family and agree on the leading bits; and two clients get the same limiter
  network if and only if they are the same IPv4 address or share the first 64 bits of IPv6.\<close>

theorem cidr_contains_prefix:
  assumes "new_cidr x p = Inr net"
  shows "(cidr_contains net y \<longleftrightarrow> same_prefix p (normalize_ip y) (normalize_ip x))
    \<and> (primary_cidr y = primary_cidr z
        \<longleftrightarrow> (case (normalize_ip y, normalize_ip z) of
              (V4 a, V4 b) \<Rightarrow> a = b
            | (V6 a, V6 b) \<Rightarrow> drop_bit 64 a = drop_bit 64 b
            | _ \<Rightarrow> False))"
proof -
  have v4: "same_prefix 32 (V4 a) (V4 b) \<longleftrightarrow> a = b" for a b
  proof -
    have "a AND push_bit (32 - 32) (- 1) = b AND push_bit (32 - 32) (- 1) \<longleftrightarrow> same_prefix 32 (V4 a) (V4 b)"
      using masked_eq_iff[of 32 a b] by (simp add: same_prefix_def)
    then show ?thesis by simp
  qed
  have v6: "same_prefix 64 (V6 a) (V6 b) \<longleftrightarrow> drop_bit 64 a = drop_bit 64 b" for a b
  proof -
    have "same_prefix 64 (V6 a) (V6 b) \<longleftrightarrow> (\<forall>j < 128. 64 \<le> j \<longrightarrow> bit a j = bit b j)"
      using masked_eq_iff[of 64 a b] by (auto simp: same_prefix_def bit_eq_iff possible_bit_word bit_and_iff bit_not_iff bit_mask_iff)
    also have "\<dots> \<longleftrightarrow> drop_bit 64 a = drop_bit 64 b"
    proof
      assume high: "\<forall>j < 128. 64 \<le> j \<longrightarrow> bit a j = bit b j"
      show "drop_bit 64 a = drop_bit 64 b"
      proof (rule bit_word_eqI)
        fix n assume "n < LENGTH(128)"
        show "bit (drop_bit 64 a) n = bit (drop_bit 64 b) n"
          using high bit_imp_le_length[of a "64 + n"] bit_imp_le_length[of b "64 + n"]
          by (cases "64 + n < 128") (auto simp: bit_drop_bit_eq)
      qed
    next
      assume eq: "drop_bit 64 a = drop_bit 64 b"
      have "bit a j = bit b j" if "64 \<le> j" for j
        using arg_cong[OF eq, of "\<lambda>w. bit w (j - 64)"] that by (simp add: bit_drop_bit_eq)
      then show "\<forall>j < 128. 64 \<le> j \<longrightarrow> bit a j = bit b j" by blast
    qed
    finally show ?thesis .
  qed
  have m4: "mask_ip (V4 a) 32 = mask_ip (V4 b) 32 \<longleftrightarrow> a = b" for a b using mask_ip_eq_iff[of 32 "V4 b" "V4 a"] v4 by simp
  have m6: "mask_ip (V6 a) 64 = mask_ip (V6 b) 64 \<longleftrightarrow> drop_bit 64 a = drop_bit 64 b" for a b
    using mask_ip_eq_iff[of 64 "V6 b" "V6 a"] v6 by simp
  have "primary_cidr y = primary_cidr z \<longleftrightarrow> (case (normalize_ip y, normalize_ip z) of
      (V4 a, V4 b) \<Rightarrow> a = b | (V6 a, V6 b) \<Rightarrow> drop_bit 64 a = drop_bit 64 b | _ \<Rightarrow> False)"
    using m4 m6 by (cases "normalize_ip y"; cases "normalize_ip z") (auto simp: primary_cidr_exact mask_ip_def)
  then show ?thesis using cidr_contains_iff[OF assms] by simp
qed

section \<open>The client behind trusted proxies\<close>

lemma split_on_nonempty: "split_on d s \<noteq> []"
  by (induction d s rule: split_on.induct) (auto split: list.split)

lemma split_on_append: "split_on d (p @ d # q) = split_on d p @ split_on d q"
proof (induction p)
  case Nil
  then show ?case by simp
next
  case (Cons c p)
  obtain x xs where "split_on d p = x # xs" using split_on_nonempty by (cases "split_on d p") auto
  then show ?case using Cons by simp
qed

lemma parse_tokens_append:
  "parse_tokens (xs @ ys) = Option.bind (parse_tokens xs) (\<lambda>as. map_option (\<lambda>bs. as @ bs) (parse_tokens ys))"
  by (induction xs) (cases "parse_tokens ys"; auto simp: Let_def split: option.split bind_split)+

lemma parse_values_append:
  "parse_values (xs @ ys) = Option.bind (parse_values xs) (\<lambda>as. map_option (\<lambda>bs. as @ bs) (parse_values ys))"
  by (induction xs rule: parse_values.induct) (cases "parse_values ys"; auto split: option.split bind_split)+

lemma parse_values_prefixed:
  assumes "parse_values (atk @ Some (p @ '','' @ q) # own) = Some chain"
  shows "\<exists>xs ys. chain = xs @ ys \<and> parse_values (Some q # own) = Some ys"
proof -
  obtain xs ts rest where x: "parse_values atk = Some xs" "parse_tokens (split_on CHR '','' (p @ '','' @ q)) = Some ts"
    "parse_values own = Some rest" "chain = xs @ ts @ rest"
    using assms by (auto simp: parse_values_append bind_eq_Some_conv split: option.splits)
  have "split_on CHR '','' (p @ '','' @ q) = split_on CHR '','' p @ split_on CHR '','' q"
    using split_on_append[of "CHR '',''" p q] by simp
  then obtain us vs where "parse_tokens (split_on CHR '','' q) = Some vs" "ts = us @ vs"
    using x(2) by (auto simp: parse_tokens_append bind_eq_Some_conv)
  then show ?thesis using x(3,4) by auto
qed

lemma find_rev_append:
  "(\<exists>a \<in> set ys. P a) \<Longrightarrow> find P (rev (xs @ ys)) = find P (rev ys)"
proof -
  assume "\<exists>a \<in> set ys. P a"
  then have "\<exists>a \<in> set (rev ys). P a" by simp
  moreover have "\<exists>a \<in> set zs. P a \<Longrightarrow> find P (zs @ ws) = find P zs" for zs ws by (induction zs) auto
  ultimately show ?thesis by simp
qed

text \<open>C36. A client cannot choose its identity. Without a trusted peer the headers are ignored. Behind a trusted
  peer, let the proxies have appended \<open>q\<close> and the values \<open>own\<close>, naming some address that is not a
  trusted proxy: whatever header values \<open>atk\<close> and whatever beginning \<open>p\<close> of the value the client sends,
  it is identified by the address that the proxies' part alone gives as long as the whole header still parses, and by the
  address of the peer, the trusted proxy itself, exactly when the client's part makes the header malformed. The address the client
  writes is never used. The identity always exists: the \<open>expect\<close> never panics.\<close>

theorem client_identity_not_spoofable:
  "(\<not> trusted nets (normalize_ip peer) \<longrightarrow> client_address peer headers nets = normalize_ip peer)
   \<and> (\<forall>atk p q own chain. parse_values (Some q # own) = Some chain \<and> (\<exists>a \<in> set chain. \<not> trusted nets a) \<longrightarrow>
        client_address peer (atk @ Some (p @ '','' @ q) # own) nets
          = (if parse_values (atk @ Some (p @ '','' @ q) # own) = None then normalize_ip peer
             else client_address peer (Some q # own) nets))
   \<and> (\<exists>ident. resolve_client_identity peer headers nets = Inr ident \<and> ci_address ident = client_address peer headers nets)"
proof (intro conjI allI impI)
  fix atk p q own chain
  assume c: "parse_values (Some q # own) = Some chain \<and> (\<exists>a \<in> set chain. \<not> trusted nets a)"
  let ?headers = "atk @ Some (p @ '','' @ q) # own"
  show "client_address peer ?headers nets
    = (if parse_values ?headers = None then normalize_ip peer else client_address peer (Some q # own) nets)"
  proof (cases "parse_values ?headers")
    case None
    then have "parse_forwarded_chain ?headers = None" by (simp add: parse_forwarded_chain_def)
    then show ?thesis using None by (simp add: client_address_def Let_def)
  next
    case (Some full)
    then obtain xs where full: "full = xs @ chain" using parse_values_prefixed c by force
    have "chain \<noteq> []" using c by auto
    then have "parse_forwarded_chain ?headers = Some full" "parse_forwarded_chain (Some q # own) = Some chain"
      using Some c full by (simp_all add: parse_forwarded_chain_def del: parse_values.simps)
    moreover have "find (\<lambda>a. \<not> trusted nets a) (rev full) = find (\<lambda>a. \<not> trusted nets a) (rev chain)"
      unfolding full by (rule find_rev_append) (use c in blast)
    ultimately show ?thesis using Some by (simp add: client_address_def Let_def)
  qed
next
  obtain net where "primary_cidr (client_address peer headers nets) = Inr net"
    by (cases "normalize_ip (client_address peer headers nets)") (auto simp: primary_cidr_exact)
  then show "\<exists>ident. resolve_client_identity peer headers nets = Inr ident \<and> ci_address ident = client_address peer headers nets"
    by (simp add: resolve_client_identity_def Let_def)
qed (simp add: client_address_def Let_def)

text \<open>A proxy network, a client that claims another address in front of its own, and one that sends a malformed part.\<close>

definition sample_net :: ip_cidr where
  "sample_net = \<lparr>ic_network = V4 0x0A000000, ic_prefix_len = 8\<rparr>"

lemma sample_parsed: "parse_values [Some ''1.2.3.4,9.9.9.9''] \<noteq> None"
proof -
  have tokens: "parse_tokens [''1.2.3.4''] = Some [V4 0x01020304]" "parse_tokens [''9.9.9.9''] = Some [V4 0x09090909]"
    by code_simp+
  have "split_on CHR '','' ''1.2.3.4,9.9.9.9'' = [''1.2.3.4''] @ [''9.9.9.9'']" by code_simp
  then have "parse_tokens (split_on CHR '','' ''1.2.3.4,9.9.9.9'') = Some [V4 0x01020304, V4 0x09090909]"
    unfolding parse_tokens_append[of "[''1.2.3.4'']"] by (simp only: tokens parse_tokens_append) simp
  then show ?thesis by simp
qed

lemma sample_malformed: "parse_values [Some '',9.9.9.9''] = None"
  by code_simp

lemma sample_net_parsed: "cidr_from_str ''10.0.0.0/8'' = Inr sample_net"
  by code_simp

theorem client_identity_not_spoofable_witness:
  "client_address (V4 0x0A000001) [Some ''1.2.3.4,9.9.9.9''] [sample_net] = client_address (V4 0x0A000001) [Some ''9.9.9.9''] [sample_net]
   \<and> client_address (V4 0x0A000001) [Some '',9.9.9.9''] [sample_net] = normalize_ip (V4 0x0A000001)"
proof -
  have own: "parse_values [Some ''9.9.9.9''] = Some [V4 0x09090909] \<and> (\<exists>a \<in> set [V4 0x09090909]. \<not> trusted [sample_net] a)"
    by code_simp
  have "client_address (V4 0x0A000001) ([] @ Some (p @ '','' @ ''9.9.9.9'') # []) [sample_net]
     = (if parse_values ([] @ Some (p @ '','' @ ''9.9.9.9'') # []) = None then normalize_ip (V4 0x0A000001)
        else client_address (V4 0x0A000001) (Some ''9.9.9.9'' # []) [sample_net])" for p
    using client_identity_not_spoofable[of "[sample_net]" "V4 0x0A000001" "[]"] own by blast
  from this[of "''1.2.3.4''"] this[of "[]"] show ?thesis
    using sample_parsed sample_malformed by (simp del: parse_values.simps)
qed

theorem cidr_contains_prefix_witness:
  "\<exists>net. new_cidr (V4 0x0A000000) 8 = Inr net
     \<and> (cidr_contains net (V4 0x0A010203) \<longleftrightarrow> same_prefix 8 (normalize_ip (V4 0x0A010203)) (normalize_ip (V4 0x0A000000)))"
proof -
  have net: "new_cidr (V4 0x0A000000) 8 = Inr sample_net" by code_simp
  then show ?thesis using cidr_contains_prefix[OF net] by blast
qed

end
