(* ===== verification/Rate_Limiter.thy ===== *)
theory Rate_Limiter
  imports Client_Identity Complex_Main "HOL-Library.AList"
begin

text \<open>
  The second half of \<open>north-server/src/public_abuse.rs\<close>: the token buckets that limit the public endpoints.

  \<^item> A finite \<open>f64\<close> is a rational number. An arithmetic operation is the exact operation followed by
    the rounding \<open>lc_round\<close> to the nearest \<open>f64\<close>, which is a parameter; \<open>ieee_rounding\<close> states what the
    standard says of it: it is monotone and exact on the integers up to \<open>2 ^ 53\<close>. Comparisons,
    \<open>min\<close> and \<open>ceil\<close> are exact.
  \<^item> An \<open>Instant\<close> and a \<open>Duration\<close> are counted in nanoseconds; \<open>saturating_duration_since\<close> is the
    subtraction of natural numbers. The clock is the argument \<open>now\<close>.
  \<^item> The bucket map is an association list; \<open>retain\<close> is \<open>filter\<close> after \<open>map\<close>.
\<close>

section \<open>State\<close>

datatype public_endpoint = RequestCode | DaemonSetup

definition endpoint_as_str :: "public_endpoint \<Rightarrow> string" where
  "endpoint_as_str e = (case e of RequestCode \<Rightarrow> ''request_code'' | DaemonSetup \<Rightarrow> ''daemon_setup'')"

record bucket_key =
  bk_endpoint :: public_endpoint
  bk_primary_key :: string

record token_bucket =
  tb_tokens :: rat
  tb_updated_at :: nat
  tb_last_accessed :: nat

record limiter =
  lc_round :: "rat \<Rightarrow> rat"
  lc_capacity :: rat
  lc_refill_interval :: nat
  lc_max_entries :: nat

type_synonym limiter_state = "(bucket_key \<times> token_bucket) list"

text \<open>\<open>with_clock_and_max_entries\<close>: \<open>None\<close> when an assertion panics.\<close>

definition new_limiter :: "(rat \<Rightarrow> rat) \<Rightarrow> u32 \<Rightarrow> nat \<Rightarrow> nat \<Rightarrow> (limiter \<times> limiter_state) option" where
  "new_limiter rnd capacity refill_interval max_entries =
     (if capacity > 0 \<and> refill_interval > 0 \<and> max_entries > 0
      then Some (\<lparr>lc_round = rnd, lc_capacity = of_nat (unat capacity), lc_refill_interval = refill_interval,
                  lc_max_entries = max_entries\<rparr>, [])
      else None)"

definition ieee_rounding :: "(rat \<Rightarrow> rat) \<Rightarrow> bool" where
  "ieee_rounding rnd \<longleftrightarrow> mono rnd \<and> (\<forall>n :: int. \<bar>n\<bar> \<le> 2 ^ 53 \<longrightarrow> rnd (of_int n) = of_int n)"

section \<open>Operations\<close>

definition as_secs :: "nat \<Rightarrow> nat" where
  "as_secs d = d div 1000000000"

definition as_secs_f64 :: "(rat \<Rightarrow> rat) \<Rightarrow> nat \<Rightarrow> rat" where
  "as_secs_f64 rnd d = rnd (rnd (of_nat (as_secs d)) + rnd (of_nat (d mod 1000000000) / 1000000000))"

definition refill :: "limiter \<Rightarrow> nat \<Rightarrow> token_bucket \<Rightarrow> token_bucket" where
  "refill l now b =
     (let elapsed = now - tb_updated_at b
      in if elapsed = 0 then b
         else b\<lparr>tb_tokens := min (lc_round l (tb_tokens b
                    + lc_round l (as_secs_f64 (lc_round l) elapsed / as_secs_f64 (lc_round l) (lc_refill_interval l))))
                  (lc_capacity l),
                tb_updated_at := now\<rparr>)"

definition evictable :: "limiter \<Rightarrow> nat \<Rightarrow> token_bucket \<Rightarrow> bool" where
  "evictable l now b \<longleftrightarrow> tb_tokens b \<ge> lc_capacity l \<and> now - tb_last_accessed b \<ge> lc_refill_interval l"

definition evict_safe_buckets :: "limiter \<Rightarrow> nat \<Rightarrow> limiter_state \<Rightarrow> limiter_state" where
  "evict_safe_buckets l now st =
     filter (\<lambda>(_, b). \<not> evictable l now b) (map (\<lambda>(k, b). (k, refill l now b)) st)"

definition endpoint_entries :: "public_endpoint \<Rightarrow> limiter_state \<Rightarrow> nat" where
  "endpoint_entries e st = length (filter (\<lambda>(k, _). bk_endpoint k = e) st)"

text \<open>The cast \<open>as u64\<close> saturates.\<close>

definition f64_as_u64 :: "rat \<Rightarrow> nat" where
  "f64_as_u64 x = min (nat \<lceil>x\<rceil>) (2 ^ 64 - 1)"

definition consume :: "limiter \<Rightarrow> nat \<Rightarrow> token_bucket \<Rightarrow> (nat + unit) \<times> token_bucket" where
  "consume l now b =
     (let b = b\<lparr>tb_last_accessed := now\<rparr>
      in if tb_tokens b \<ge> 1 then (Inr (), b\<lparr>tb_tokens := lc_round l (tb_tokens b - 1)\<rparr>)
         else (Inl (max (f64_as_u64 (of_int \<lceil>lc_round l (lc_round l (1 - tb_tokens b)
                            * as_secs_f64 (lc_round l) (lc_refill_interval l))\<rceil>)) 1), b))"

definition new_bucket :: "limiter \<Rightarrow> nat \<Rightarrow> token_bucket" where
  "new_bucket l now = \<lparr>tb_tokens = lc_capacity l, tb_updated_at = now, tb_last_accessed = now\<rparr>"

definition try_consume :: "limiter \<Rightarrow> bucket_key \<Rightarrow> nat \<Rightarrow> limiter_state \<Rightarrow> (nat + unit) \<times> limiter_state" where
  "try_consume l key now st =
     (let st = evict_safe_buckets l now st
      in case map_of st key of
           Some b \<Rightarrow>
             (case consume l now (refill l now b) of (r, b') \<Rightarrow> (r, AList.update key b' st))
         | None \<Rightarrow>
             if endpoint_entries (bk_endpoint key) st \<ge> lc_max_entries l
             then (Inl (max (as_secs (lc_refill_interval l)) 1), st)
             else (case consume l now (new_bucket l now) of (r, b') \<Rightarrow> (r, AList.update key b' st)))"

text \<open>The requests of a run: the key and the time of each.\<close>

fun limiter_run :: "limiter \<Rightarrow> (bucket_key \<times> nat) list \<Rightarrow> limiter_state \<Rightarrow> (nat + unit) list \<times> limiter_state" where
  "limiter_run l [] st = ([], st)"
| "limiter_run l ((k, now) # reqs) st =
     (case try_consume l k now st of (r, st') \<Rightarrow>
      case limiter_run l reqs st' of (rs, st'') \<Rightarrow> (r # rs, st''))"

section \<open>Reference: buckets that are never dropped\<close>

text \<open>Every key has a bucket, full at first; each request refills all buckets and consumes from its own.\<close>

type_synonym ideal_state = "bucket_key \<Rightarrow> token_bucket"

definition ideal_consume :: "limiter \<Rightarrow> bucket_key \<Rightarrow> nat \<Rightarrow> ideal_state \<Rightarrow> (nat + unit) \<times> ideal_state" where
  "ideal_consume l key now f =
     (let f = (\<lambda>k. refill l now (f k))
      in case consume l now (f key) of (r, b) \<Rightarrow> (r, f(key := b)))"

fun ideal_run :: "limiter \<Rightarrow> (bucket_key \<times> nat) list \<Rightarrow> ideal_state \<Rightarrow> (nat + unit) list \<times> ideal_state" where
  "ideal_run l [] f = ([], f)"
| "ideal_run l ((k, now) # reqs) f =
     (case ideal_consume l k now f of (r, f') \<Rightarrow>
      case ideal_run l reqs f' of (rs, f'') \<Rightarrow> (r # rs, f''))"

section \<open>The limiter refines the reference\<close>

text \<open>A limiter as \<open>with_clock_and_max_entries\<close> makes it.\<close>

definition limiter_ok :: "limiter \<Rightarrow> bool" where
  "limiter_ok l \<longleftrightarrow> ieee_rounding (lc_round l) \<and> (\<exists>c :: u32. 0 < c \<and> lc_capacity l = of_nat (unat c)) \<and> lc_max_entries l > 0"

lemma new_limiter_ok: "ieee_rounding rnd \<Longrightarrow> new_limiter rnd c d m = Some (l, st) \<Longrightarrow> limiter_ok l \<and> st = []"
  by (auto simp: new_limiter_def limiter_ok_def split: if_splits)

lemma round_nat: "limiter_ok l \<Longrightarrow> n \<le> 2 ^ 53 \<Longrightarrow> lc_round l (of_nat n) = of_nat n"
  unfolding limiter_ok_def ieee_rounding_def by (metis of_nat_le_iff of_int_of_nat_eq abs_of_nat of_nat_numeral of_nat_power)

lemma round_mono: "limiter_ok l \<Longrightarrow> x \<le> y \<Longrightarrow> lc_round l x \<le> lc_round l y"
  by (auto simp: limiter_ok_def ieee_rounding_def dest: monoD)

lemma round_capacity: "limiter_ok l \<Longrightarrow> lc_round l (lc_capacity l) = lc_capacity l"
proof -
  assume ok: "limiter_ok l"
  then obtain c :: u32 where c: "lc_capacity l = of_nat (unat c)" unfolding limiter_ok_def by blast
  have "unat c < 2 ^ 32" using unsigned_less[of c] by simp
  then show ?thesis using round_nat[OF ok, of "unat c"] c by simp
qed

lemma round_nonneg: "limiter_ok l \<Longrightarrow> 0 \<le> x \<Longrightarrow> 0 \<le> lc_round l x"
  using round_mono[of l 0 x] round_nat[of l 0] by simp

lemma as_secs_nonneg: "limiter_ok l \<Longrightarrow> 0 \<le> as_secs_f64 (lc_round l) d"
  by (simp add: as_secs_f64_def round_nonneg)

lemma refill_fields [simp]: "tb_last_accessed (refill l now b) = tb_last_accessed b"
  by (simp add: refill_def Let_def)

lemma refill_updated: "tb_updated_at b \<le> now \<Longrightarrow> tb_updated_at (refill l now b) = now"
  by (simp add: refill_def Let_def)

lemma refill_now: "now \<le> tb_updated_at b \<Longrightarrow> refill l now b = b"
  by (simp add: refill_def)

lemma refill_le: "tb_tokens b \<le> lc_capacity l \<Longrightarrow> tb_tokens (refill l now b) \<le> lc_capacity l"
  by (simp add: refill_def Let_def)

lemma refill_full:
  assumes "limiter_ok l" "tb_tokens b = lc_capacity l"
  shows "tb_tokens (refill l now b) = lc_capacity l"
proof -
  let ?x = "lc_round l (as_secs_f64 (lc_round l) (now - tb_updated_at b) / as_secs_f64 (lc_round l) (lc_refill_interval l))"
  have "0 \<le> ?x" using assms(1) by (simp add: round_nonneg as_secs_nonneg)
  then have "lc_capacity l \<le> lc_round l (tb_tokens b + ?x)"
    using round_mono[OF assms(1), of "lc_capacity l" "tb_tokens b + ?x"] round_capacity[OF assms(1)] assms(2) by simp
  then show ?thesis using assms(2) by (simp add: refill_def Let_def)
qed

lemma consume_le:
  assumes "limiter_ok l" "tb_tokens b \<le> lc_capacity l" "consume l now b = (r, b')"
  shows "tb_tokens b' \<le> lc_capacity l" "tb_updated_at b' = tb_updated_at b"
proof -
  have "lc_round l (tb_tokens b - 1) \<le> lc_capacity l"
    using round_mono[OF assms(1), of "tb_tokens b - 1" "lc_capacity l"] round_capacity[OF assms(1)] assms(2) by simp
  then show "tb_tokens b' \<le> lc_capacity l" "tb_updated_at b' = tb_updated_at b"
    using assms(2,3) by (auto simp: consume_def Let_def split: if_splits)
qed

lemma consume_access: "consume l now (b\<lparr>tb_last_accessed := x\<rparr>) = consume l now b"
  by (simp add: consume_def)

text \<open>The buckets that exist are those of the reference; the others are full there.\<close>

definition simulates :: "limiter \<Rightarrow> nat \<Rightarrow> limiter_state \<Rightarrow> ideal_state \<Rightarrow> bool" where
  "simulates l t st f \<longleftrightarrow> distinct (map fst st)
     \<and> (\<forall>k. tb_tokens (f k) \<le> lc_capacity l \<and> tb_updated_at (f k) \<le> t)
     \<and> (\<forall>k. case map_of st k of Some b \<Rightarrow> f k = b | None \<Rightarrow> tb_tokens (f k) = lc_capacity l)"

lemma map_of_evict:
  assumes "distinct (map fst st)"
  shows "map_of (evict_safe_buckets l now st) k =
    (case map_of st k of None \<Rightarrow> None
     | Some b \<Rightarrow> if evictable l now (refill l now b) then None else Some (refill l now b))"
  using assms
proof (induction st)
  case (Cons p st)
  have "map_of st (fst p) = None" using Cons.prems by (simp add: map_of_eq_None_iff)
  then show ?case using Cons by (cases p) (auto simp: evict_safe_buckets_def split: option.split)
qed (simp add: evict_safe_buckets_def)

lemma distinct_evict: "distinct (map fst st) \<Longrightarrow> distinct (map fst (evict_safe_buckets l now st))"
proof -
  assume "distinct (map fst st)"
  moreover have "map fst (map (\<lambda>(k, b). (k, refill l now b)) st) = map fst st" by (simp add: case_prod_beta comp_def)
  ultimately show ?thesis unfolding evict_safe_buckets_def by (metis distinct_map_filter)
qed

lemma simulates_evict:
  assumes "limiter_ok l" "simulates l t st f" "t \<le> now"
  shows "simulates l now (evict_safe_buckets l now st) (\<lambda>k. refill l now (f k))"
proof -
  have d: "distinct (map fst st)" using assms(2) by (simp add: simulates_def)
  have f: "tb_tokens (f k) \<le> lc_capacity l" "tb_updated_at (f k) \<le> now" for k
    using assms(2,3) unfolding simulates_def by (meson order_trans)+
  have "case map_of (evict_safe_buckets l now st) k of Some b \<Rightarrow> refill l now (f k) = b
      | None \<Rightarrow> tb_tokens (refill l now (f k)) = lc_capacity l" for k
  proof (cases "map_of st k")
    case None
    then have "tb_tokens (f k) = lc_capacity l" using assms(2) by (auto simp: simulates_def dest: spec[of _ k])
    then show ?thesis using None refill_full[OF assms(1)] by (simp add: map_of_evict[OF d])
  next
    case (Some b)
    then have b: "f k = b" using assms(2) by (auto simp: simulates_def dest: spec[of _ k])
    have "tb_tokens (refill l now b) \<le> lc_capacity l" using refill_le f(1)[of k] b by simp
    then show ?thesis using Some b by (auto simp: map_of_evict[OF d] evictable_def)
  qed
  then show ?thesis using distinct_evict[OF d] refill_le[OF f(1)] refill_updated[OF f(2)] by (simp add: simulates_def)
qed

text \<open>A request that is not turned away for lack of room behaves as in the reference.\<close>

definition has_room :: "limiter \<Rightarrow> bucket_key \<Rightarrow> nat \<Rightarrow> limiter_state \<Rightarrow> bool" where
  "has_room l key now st \<longleftrightarrow> map_of (evict_safe_buckets l now st) key \<noteq> None
     \<or> endpoint_entries (bk_endpoint key) (evict_safe_buckets l now st) < lc_max_entries l"

lemma try_consume_simulates:
  assumes ok: "limiter_ok l" and sim: "simulates l t st f" and now: "t \<le> now" and room: "has_room l key now st"
  shows "\<exists>r st' f'. try_consume l key now st = (r, st') \<and> ideal_consume l key now f = (r, f') \<and> simulates l now st' f'"
proof -
  define st1 where "st1 = evict_safe_buckets l now st"
  define f1 where "f1 = (\<lambda>k. refill l now (f k))"
  have sim1: "simulates l now st1 f1" unfolding st1_def f1_def by (rule simulates_evict[OF ok sim now])
  have up: "tb_updated_at (f1 key) = now" using sim now refill_updated unfolding f1_def simulates_def by (meson order_trans)
  obtain b where b: "try_consume l key now st = (fst (consume l now b), AList.update key (snd (consume l now b)) st1)"
    "consume l now b = consume l now (f1 key)"
  proof (cases "map_of st1 key")
    case (Some c)
    then have "f1 key = c" using sim1 by (auto simp: simulates_def dest: spec[of _ key])
    then have "refill l now c = f1 key" using up refill_now by simp
    then show ?thesis
      using that[of "refill l now c"] Some by (simp add: try_consume_def Let_def flip: st1_def) (simp add: case_prod_beta)
  next
    case None
    have full: "tb_tokens (f1 key) = lc_capacity l" using sim1 None by (auto simp: simulates_def dest: spec[of _ key])
    have "new_bucket l now = (f1 key)\<lparr>tb_last_accessed := now\<rparr>" using full up by (simp add: new_bucket_def)
    then have "consume l now (new_bucket l now) = consume l now (f1 key)" by (simp add: consume_access)
    then show ?thesis
      using that[of "new_bucket l now"] None room
      by (simp add: try_consume_def Let_def has_room_def flip: st1_def) (simp add: case_prod_beta)
  qed
  obtain r b' where c: "consume l now (f1 key) = (r, b')" by (cases "consume l now (f1 key)")
  have le: "tb_tokens (f1 key) \<le> lc_capacity l" using sim1 by (simp add: simulates_def)
  have "simulates l now (AList.update key b' st1) (f1(key := b'))"
    unfolding simulates_def
  proof (intro conjI allI)
    fix k
    show "case map_of (AList.update key b' st1) k of Some b \<Rightarrow> (f1(key := b')) k = b
        | None \<Rightarrow> tb_tokens ((f1(key := b')) k) = lc_capacity l"
      using sim1 by (cases "k = key"; cases "map_of st1 k") (auto simp: simulates_def update_conv' dest: spec[of _ k])
  qed (use sim1 consume_le[OF ok le c] up in \<open>auto simp: simulates_def distinct_update\<close>)
  moreover have "ideal_consume l key now f = (r, f1(key := b'))" using c by (simp add: ideal_consume_def f1_def)
  ultimately show ?thesis using b c by auto
qed

text \<open>The entries are keys that have been asked for.\<close>

lemma evict_keys: "set (map fst (evict_safe_buckets l now st)) \<subseteq> set (map fst st)"
  by (auto simp: evict_safe_buckets_def image_iff) (metis fst_conv)

lemma try_consume_keys:
  assumes "distinct (map fst st)" "try_consume l key now st = (r, st')"
  shows "distinct (map fst st')" "set (map fst st') \<subseteq> insert key (set (map fst st))"
    "endpoint_entries e st \<le> lc_max_entries l \<Longrightarrow> endpoint_entries e st' \<le> lc_max_entries l"
proof -
  define st1 where "st1 = evict_safe_buckets l now st"
  have d: "distinct (map fst st1)" unfolding st1_def by (rule distinct_evict[OF assms(1)])
  have sub: "set (map fst st1) \<subseteq> set (map fst st)" unfolding st1_def by (rule evict_keys)
  have entries: "endpoint_entries e xs = length (filter (\<lambda>k. bk_endpoint k = e) (map fst xs))" for e xs
    by (simp add: endpoint_entries_def filter_map comp_def case_prod_unfold)
  have less: "endpoint_entries e st1 \<le> endpoint_entries e st"
  proof -
    have "endpoint_entries e (map (\<lambda>(k, b). (k, refill l now b)) st) = endpoint_entries e st"
      by (simp add: entries comp_def case_prod_beta)
    moreover have "endpoint_entries e (filter P xs) \<le> endpoint_entries e xs" for P xs
      by (induction xs) (auto simp: endpoint_entries_def)
    ultimately show ?thesis unfolding st1_def evict_safe_buckets_def by metis
  qed
  have st': "st' = st1 \<or> (\<exists>b. st' = AList.update key b st1 \<and> (map_of st1 key \<noteq> None \<or> endpoint_entries (bk_endpoint key) st1 < lc_max_entries l))"
    using assms(2) by (auto simp: try_consume_def Let_def split: option.splits if_splits prod.splits simp flip: st1_def)
  then show "distinct (map fst st')" using d by (auto simp: distinct_update)
  have keys: "map fst (AList.update key b st1) = (if key \<in> set (map fst st1) then map fst st1 else map fst st1 @ [key])" for b
    by (simp add: update_keys)
  show "set (map fst st') \<subseteq> insert key (set (map fst st))" using st' sub by (auto simp: keys simp del: set_map split: if_splits)
  show "endpoint_entries e st' \<le> lc_max_entries l" if "endpoint_entries e st \<le> lc_max_entries l"
  proof -
    have "endpoint_entries e (AList.update key b st1) = endpoint_entries e st1
        + (if key \<notin> set (map fst st1) \<and> bk_endpoint key = e then 1 else 0)" for b
      unfolding entries keys by simp
    moreover have "map_of st1 key \<noteq> None \<longleftrightarrow> key \<in> set (map fst st1)" by (auto simp: map_of_eq_None_iff)
    ultimately show ?thesis using st' that less by (auto simp del: set_map)
  qed
qed

lemma limiter_run_entries:
  "\<lbrakk>limiter_run l reqs st = (rs, st'); distinct (map fst st); endpoint_entries e st \<le> lc_max_entries l\<rbrakk>
   \<Longrightarrow> endpoint_entries e st' \<le> lc_max_entries l"
proof (induction l reqs st arbitrary: rs st' rule: limiter_run.induct)
  case (2 l k now reqs st)
  obtain r st1 where one: "try_consume l k now st = (r, st1)" by (cases "try_consume l k now st")
  obtain rs1 where "limiter_run l reqs st1 = (rs1, st')" using "2.prems"(1) one by (auto split: prod.splits)
  then show ?case using "2.IH"[OF one[symmetric]] try_consume_keys[OF "2.prems"(2) one] "2.prems"(3) by blast
qed simp

section \<open>Properties\<close>

definition keys_of :: "(bucket_key \<times> nat) list \<Rightarrow> public_endpoint \<Rightarrow> bucket_key set" where
  "keys_of reqs e = {k \<in> fst ` set reqs. bk_endpoint k = e}"

lemma enough_room:
  assumes "distinct (map fst st)" "set (map fst st) \<subseteq> K" "key \<in> K" "finite K"
    and "card {k \<in> K. bk_endpoint k = bk_endpoint key} \<le> lc_max_entries l"
  shows "has_room l key now st"
proof (cases "map_of (evict_safe_buckets l now st) key")
  case None
  let ?ks = "filter (\<lambda>k. bk_endpoint k = bk_endpoint key) (map fst (evict_safe_buckets l now st))"
  have "key \<notin> set (map fst (evict_safe_buckets l now st))" using None by (simp add: map_of_eq_None_iff)
  then have "set ?ks \<subset> {k \<in> K. bk_endpoint k = bk_endpoint key}"
    using assms(2,3) evict_keys[of l now st] by (auto simp del: set_map)
  then have "card (set ?ks) < card {k \<in> K. bk_endpoint k = bk_endpoint key}"
    using assms(4) by (intro psubset_card_mono) auto
  moreover have "card (set ?ks) = length ?ks"
    using distinct_evict[OF assms(1), of l now] by (intro distinct_card distinct_filter)
  moreover have "endpoint_entries (bk_endpoint key) (evict_safe_buckets l now st) = length ?ks"
    by (simp add: endpoint_entries_def filter_map comp_def case_prod_unfold)
  ultimately show ?thesis using assms(5) by (simp add: has_room_def)
qed (simp add: has_room_def)

lemma limiter_run_simulates:
  "\<lbrakk>limiter_ok l; simulates l t st f; sorted (t # map snd reqs); set (map fst st) \<union> fst ` set reqs \<subseteq> K; finite K;
    \<forall>e. card {k \<in> K. bk_endpoint k = e} \<le> lc_max_entries l\<rbrakk>
   \<Longrightarrow> fst (limiter_run l reqs st) = fst (ideal_run l reqs f)"
proof (induction reqs arbitrary: t st f)
  case (Cons q reqs)
  obtain key now where q: "q = (key, now)" by (cases q)
  have d: "distinct (map fst st)" using Cons.prems(2) by (simp add: simulates_def)
  have "key \<in> K" "set (map fst st) \<subseteq> K" using Cons.prems(4) q by auto
  then have "has_room l key now st" using enough_room[OF d] Cons.prems(5,6) by blast
  moreover have "t \<le> now" using Cons.prems(3) q by simp
  ultimately obtain r st' f' where s: "try_consume l key now st = (r, st')" "ideal_consume l key now f = (r, f')" "simulates l now st' f'"
    using try_consume_simulates[OF Cons.prems(1,2)] by blast
  have "set (map fst st') \<subseteq> K"
    using try_consume_keys(2)[OF d s(1)] \<open>key \<in> K\<close> \<open>set (map fst st) \<subseteq> K\<close> by (meson insert_subset order_trans)
  moreover have "fst ` set reqs \<subseteq> K" using Cons.prems(4) by simp
  ultimately have "set (map fst st') \<union> fst ` set reqs \<subseteq> K" by (rule Un_least)
  moreover have "sorted (now # map snd reqs)" using Cons.prems(3) q by simp
  ultimately have "fst (limiter_run l reqs st') = fst (ideal_run l reqs f')"
    using Cons.IH[OF Cons.prems(1) s(3)] Cons.prems(5,6) by blast
  then show ?case using q s(1,2) by (simp add: case_prod_beta)
qed simp

lemma simulates_start: "limiter_ok l \<Longrightarrow> simulates l 0 [] (\<lambda>_. new_bucket l 0)"
  by (simp add: simulates_def new_bucket_def)

lemma limiter_refines:
  assumes "ieee_rounding rnd" "new_limiter rnd capacity interval entries = Some (l, st)"
    and "sorted (map snd reqs)" "\<forall>e. card (keys_of reqs e) \<le> entries"
  shows "fst (limiter_run l reqs st) = fst (ideal_run l reqs (\<lambda>_. new_bucket l 0))"
proof -
  have ok: "limiter_ok l" "st = []" using new_limiter_ok[OF assms(1,2)] by simp_all
  have "lc_max_entries l = entries" using assms(2) by (auto simp: new_limiter_def split: if_splits)
  then show ?thesis
    using limiter_run_simulates[OF ok(1) simulates_start[OF ok(1)], of reqs "fst ` set reqs"] assms(3,4) ok(2)
    by (simp add: keys_of_def)
qed

definition successes :: "bucket_key \<Rightarrow> (bucket_key \<times> nat) list \<Rightarrow> (nat + unit) list \<Rightarrow> nat" where
  "successes key reqs rs = length (filter (\<lambda>((k, _), r). k = key \<and> r = Inr ()) (zip reqs rs))"

lemma successes_Nil [simp]: "successes key [] rs = 0"
  by (simp add: successes_def)

lemma successes_Cons [simp]:
  "successes key ((k, t) # reqs) (r # rs) = (if k = key \<and> r = Inr () then 1 else 0) + successes key reqs rs"
  by (simp add: successes_def)

text \<open>One bucket of whole tokens pays for that many requests.\<close>

lemma consume_whole:
  assumes "limiter_ok l" "tb_tokens b = of_nat m" "m \<le> 2 ^ 53" "consume l now b = (r, b')"
  shows "r = Inr () \<longleftrightarrow> m > 0" "tb_tokens b' = of_nat (m - 1)" "tb_updated_at b' = tb_updated_at b"
proof -
  have c: "(r, b') = (if tb_tokens b \<ge> 1 then (Inr (), b\<lparr>tb_last_accessed := now, tb_tokens := lc_round l (tb_tokens b - 1)\<rparr>)
      else (Inl (max (f64_as_u64 (of_int \<lceil>lc_round l (lc_round l (1 - tb_tokens b)
                            * as_secs_f64 (lc_round l) (lc_refill_interval l))\<rceil>)) 1), b\<lparr>tb_last_accessed := now\<rparr>))"
    using assms(4) by (auto simp: consume_def Let_def split: if_splits)
  have "(tb_tokens b \<ge> 1) = (m > 0)" using assms(2) by (cases m) simp_all
  moreover have "lc_round l (tb_tokens b - 1) = of_nat (m - 1)" if "m > 0"
    using round_nat[OF assms(1), of "m - 1"] assms(2,3) that by (simp add: of_nat_diff)
  ultimately show "r = Inr () \<longleftrightarrow> m > 0" "tb_tokens b' = of_nat (m - 1)" "tb_updated_at b' = tb_updated_at b"
    using c assms(2) by (cases "m > 0"; simp)+
qed

lemma ideal_burst:
  "\<lbrakk>limiter_ok l; \<forall>k. tb_updated_at (f k) \<le> now; tb_tokens (refill l now (f key)) = of_nat m; m \<le> 2 ^ 53\<rbrakk>
   \<Longrightarrow> successes key (map (\<lambda>k. (k, now)) ks) (fst (ideal_run l (map (\<lambda>k. (k, now)) ks) f)) = min (count_list ks key) m"
proof (induction ks arbitrary: f m)
  case (Cons k ks)
  define f1 where "f1 = (\<lambda>k. refill l now (f k))"
  have up: "tb_updated_at (f1 j) = now" for j using Cons.prems(2) by (simp add: f1_def refill_updated)
  have same: "refill l now (f1 j) = f1 j" for j using up by (simp add: refill_now)
  obtain r b where c: "consume l now (f1 k) = (r, b)" by (cases "consume l now (f1 k)")
  define g where "g = f1(k := b)"
  have run: "ideal_consume l k now f = (r, g)" using c by (simp add: ideal_consume_def g_def f1_def)
  have bu: "tb_updated_at b = now" using c up[of k] by (auto simp: consume_def Let_def split: if_splits)
  then have gu: "\<forall>j. tb_updated_at (g j) \<le> now" using up by (simp add: g_def)
  show ?case
  proof (cases "k = key")
    case False
    then have "tb_tokens (refill l now (g key)) = of_nat m" using Cons.prems(3) same by (simp add: g_def f1_def)
    from Cons.IH[OF Cons.prems(1) gu this Cons.prems(4)] show ?thesis using False run by (simp add: case_prod_beta)
  next
    case True
    have t: "tb_tokens (f1 k) = of_nat m" using Cons.prems(3) True by (simp add: f1_def)
    note w = consume_whole[OF Cons.prems(1) t Cons.prems(4) c]
    have "tb_tokens (refill l now (g key)) = of_nat (m - 1)" using w(2) True bu by (simp add: g_def refill_now)
    from Cons.IH[OF Cons.prems(1) gu this] Cons.prems(4)
    have "successes key (map (\<lambda>k. (k, now)) ks) (fst (ideal_run l (map (\<lambda>k. (k, now)) ks) g)) = min (count_list ks key) (m - 1)"
      by simp
    then show ?thesis using True run w(1) by (auto simp: case_prod_beta)
  qed
qed simp

text \<open>C37. Dropping buckets is invisible. As long as the keys of each endpoint fit into the limiter, a run of
  requests in the order of time gets exactly the answers of the reference limiter, which keeps a bucket
  for every key for ever: a bucket is only dropped when it is full again, and a new one starts full.
  Whatever the rounding does, within the laws of IEEE 754.\<close>

theorem limiter_refines_reference:
  assumes "ieee_rounding rnd" "new_limiter rnd capacity interval entries = Some (l, st)"
    and "sorted (map snd reqs)" "\<forall>e. card (keys_of reqs e) \<le> entries"
  shows "fst (limiter_run l reqs st) = fst (ideal_run l reqs (\<lambda>_. new_bucket l 0))"
  using assms by (rule limiter_refines)

lemma exact_rounding: "ieee_rounding id"
  by (simp add: ieee_rounding_def monoI)

definition sample_limiter :: limiter where
  "sample_limiter = \<lparr>lc_round = id, lc_capacity = 2, lc_refill_interval = 1000000000, lc_max_entries = 1\<rparr>"

definition sample_key :: bucket_key where
  "sample_key = \<lparr>bk_endpoint = RequestCode, bk_primary_key = ''192.0.2.1''\<rparr>"

lemma sample_limiter_new: "new_limiter id 2 1000000000 1 = Some (sample_limiter, [])"
  by (simp add: new_limiter_def sample_limiter_def)

lemma sample_keys: "fst ` set reqs \<subseteq> {sample_key} \<Longrightarrow> card (keys_of reqs e) \<le> Suc 0"
proof -
  assume "fst ` set reqs \<subseteq> {sample_key}"
  then have "keys_of reqs e \<subseteq> {sample_key}" by (auto simp: keys_of_def)
  then show ?thesis using card_mono[of "{sample_key}"] by simp
qed

theorem limiter_refines_reference_witness:
  "fst (limiter_run sample_limiter [(sample_key, 5), (sample_key, 3000000005)] [])
     = fst (ideal_run sample_limiter [(sample_key, 5), (sample_key, 3000000005)] (\<lambda>_. new_bucket sample_limiter 0))"
  by (rule limiter_refines_reference[OF exact_rounding sample_limiter_new]) (auto intro: sample_keys)

text \<open>The limits hold exactly. Requests that arrive at one instant at a fresh limiter with room for
  their keys succeed for each key as often as they are made, up to the capacity; and whatever
  the requests and their times are, no endpoint ever has more than \<open>max_entries\<close> buckets.\<close>

theorem limiter_bounds:
  assumes "ieee_rounding rnd" "new_limiter rnd capacity interval entries = Some (l, st)"
  shows "((\<forall>e. card (keys_of (map (\<lambda>k. (k, now)) ks) e) \<le> entries) \<longrightarrow>
      successes key (map (\<lambda>k. (k, now)) ks) (fst (limiter_run l (map (\<lambda>k. (k, now)) ks) st)) = min (count_list ks key) (unat capacity))
    \<and> endpoint_entries e (snd (limiter_run l reqs st)) \<le> entries"
proof (intro conjI impI)
  have ok: "limiter_ok l" "st = []" using new_limiter_ok[OF assms] by simp_all
  have l: "lc_max_entries l = entries" "lc_capacity l = of_nat (unat capacity)"
    using assms(2) by (auto simp: new_limiter_def split: if_splits)
  show "endpoint_entries e (snd (limiter_run l reqs st)) \<le> entries"
    using limiter_run_entries[of l reqs st _ _ e] ok(2) l(1)
    by (cases "limiter_run l reqs st") (auto simp: endpoint_entries_def)
  have "unat capacity < 2 ^ 32" using unsigned_less[of capacity] by simp
  then have "unat capacity \<le> 2 ^ 53" by simp
  moreover have "tb_tokens (refill l now (new_bucket l 0)) = of_nat (unat capacity)"
    using refill_full[OF ok(1)] l(2) by (simp add: new_bucket_def)
  moreover have "sorted (map snd (map (\<lambda>k. (k, now)) ks))" by (simp add: comp_def sorted_iff_nth_mono)
  moreover assume "\<forall>e. card (keys_of (map (\<lambda>k. (k, now)) ks) e) \<le> entries"
  ultimately show "successes key (map (\<lambda>k. (k, now)) ks) (fst (limiter_run l (map (\<lambda>k. (k, now)) ks) st))
      = min (count_list ks key) (unat capacity)"
    using limiter_refines[OF assms] ideal_burst[OF ok(1), of "\<lambda>_. new_bucket l 0" now key "unat capacity" ks]
    by (simp add: new_bucket_def)
qed

theorem limiter_bounds_witness:
  "successes sample_key (map (\<lambda>k. (k, 7)) (replicate 3 sample_key))
      (fst (limiter_run sample_limiter (map (\<lambda>k. (k, 7)) (replicate 3 sample_key)) [])) = 2
   \<and> endpoint_entries RequestCode (snd (limiter_run sample_limiter [(sample_key, 5)] [])) \<le> 1"
proof -
  have "\<forall>e. card (keys_of (map (\<lambda>k. (k, 7)) (replicate 3 sample_key)) e) \<le> 1" by (auto intro: sample_keys)
  moreover have "min (count_list (replicate 3 sample_key) sample_key) (unat (2 :: u32)) = 2" by (simp add: count_list_eq_length_filter)
  ultimately show ?thesis
    using limiter_bounds[OF exact_rounding sample_limiter_new, of 7 "replicate 3 sample_key" sample_key RequestCode "[(sample_key, 5)]"]
    by argo
qed

end
