(* ===== verification/Auth_Http.thy ===== *)
theory Auth_Http
  imports Auth_Safety Rate_Limiter
begin

text \<open>
  The HTTP boundary of sign-in and roles: \<open>north-server/src/auth.rs\<close> and \<open>north-server/src/roles.rs\<close>.

  \<^item> A handler is a function from the request's parts and the server's state to an answer and the new state;
    the answer is \<open>None\<close> when the handler panics and the connection is dropped. Requests run one after the other.
  \<^item> A body is \<open>None\<close> when the JSON extractor rejects it. A header is given as \<open>to_str\<close> reads it.
  \<^item> \<open>hx_delivers\<close> is the \<open>CodeDelivery\<close> trait, \<open>hx_header_value\<close> says which strings \<open>HeaderValue::from_str\<close>
    accepts. The number \<open>draw\<close> is that of \<open>random_range(0..1_000_000)\<close>.
\<close>

section \<open>Answers\<close>

datatype public_endpoint_outcome = Allowed | Rejected

datatype public_endpoint_category = ClientBucket | EmailCooldown | PendingSetup

record http_env =
  hx_auth :: auth_env
  hx_limiter :: limiter
  hx_proxies :: "ip_cidr list"
  hx_delivers :: "string \<Rightarrow> string \<Rightarrow> bool"
  hx_header_value :: "string \<Rightarrow> bool"

record server =
  sv_db :: auth_db
  sv_buckets :: limiter_state
  sv_observed :: "(public_endpoint \<times> public_endpoint_outcome \<times> public_endpoint_category) list"
  sv_mail :: "(string \<times> string) list"

record user_response =
  ue_id :: string
  ue_email :: string
  ue_role :: string

datatype http_body = NoBody | PublicMessage string | ErrorBody string | UserBody user_response | UsersBody "user_response list"

record http_response =
  hr_status :: nat
  hr_set_cookie :: "string option"
  hr_retry_after :: "nat option"
  hr_body :: http_body

datatype auth_http_error = BadRequest | HttpInvalidCode | HttpRateLimited nat | Unauthorized | HttpInternal

definition message :: "auth_http_error \<Rightarrow> string" where
  "message e = (case e of BadRequest \<Rightarrow> ''invalid authentication request''
     | HttpInvalidCode \<Rightarrow> ''invalid or expired verification code''
     | HttpRateLimited _ \<Rightarrow> ''verification code request rate limited''
     | Unauthorized \<Rightarrow> ''authentication required''
     | HttpInternal \<Rightarrow> ''authentication service unavailable'')"

definition auth_error_from :: "persistence_error \<Rightarrow> auth_http_error" where
  "auth_error_from e = (case e of InvalidCode \<Rightarrow> HttpInvalidCode | RateLimited \<Rightarrow> HttpRateLimited CODE_REQUEST_COOLDOWN_SECONDS
     | _ \<Rightarrow> HttpInternal)"

definition plain_response :: "nat \<Rightarrow> http_body \<Rightarrow> http_response" where
  "plain_response status body = \<lparr>hr_status = status, hr_set_cookie = None, hr_retry_after = None, hr_body = body\<rparr>"

definition rate_limited_response :: "http_env \<Rightarrow> nat \<Rightarrow> http_response" where
  "rate_limited_response env retry_after =
     (plain_response 429 (ErrorBody ''rate_limited''))
       \<lparr>hr_retry_after := (if hx_header_value env (show_nat (max retry_after 1)) then Some (max retry_after 1) else None)\<rparr>"

definition auth_error_response :: "http_env \<Rightarrow> auth_http_error \<Rightarrow> http_response" where
  "auth_error_response env e =
     (case e of HttpRateLimited retry_after \<Rightarrow> rate_limited_response env retry_after
      | BadRequest \<Rightarrow> plain_response 400 (PublicMessage (message e))
      | HttpInvalidCode \<Rightarrow> plain_response 401 (PublicMessage (message e))
      | Unauthorized \<Rightarrow> plain_response 401 (PublicMessage (message e))
      | HttpInternal \<Rightarrow> plain_response 500 (PublicMessage (message e)))"

text \<open>\<open>Result<Response, AuthHttpError>\<close> as a response.\<close>

definition into_response :: "http_env \<Rightarrow> auth_http_error + http_response \<Rightarrow> http_response" where
  "into_response env r = (case r of Inl e \<Rightarrow> auth_error_response env e | Inr x \<Rightarrow> x)"

section \<open>Parsing\<close>

definition VERIFICATION_CODE_LENGTH :: nat where "VERIFICATION_CODE_LENGTH = 6"
definition SESSION_COOKIE_NAME :: string where "SESSION_COOKIE_NAME = ''north_session''"

definition normalize_email :: "string \<Rightarrow> string option" where
  "normalize_email email =
     (let email = to_ascii_lowercase (trim email) in
      case split_once CHR ''@'' email of
        None \<Rightarrow> None
      | Some (local, domain) \<Rightarrow>
          if 254 < length email \<or> local = [] \<or> domain = [] \<or> hd domain = CHR ''.'' \<or> last domain = CHR ''.'' \<or> CHR ''.'' \<notin> set domain
          then None else Some email)"

definition generate_code :: "nat \<Rightarrow> string" where
  "generate_code draw = replicate (VERIFICATION_CODE_LENGTH - length (show_nat draw)) CHR ''0'' @ show_nat draw"

definition valid_code :: "string \<Rightarrow> bool" where
  "valid_code code \<longleftrightarrow> length code = VERIFICATION_CODE_LENGTH \<and> list_all is_ascii_digit code"

fun find_token :: "string list \<Rightarrow> string option" where
  "find_token [] = None"
| "find_token (part # parts) =
     (case split_once CHR ''='' (trim part) of
        None \<Rightarrow> find_token parts
      | Some (name, value) \<Rightarrow> if name = SESSION_COOKIE_NAME \<and> value \<noteq> [] then Some value else find_token parts)"

definition session_token :: "string option \<Rightarrow> string option" where
  "session_token cookies = Option.bind cookies (\<lambda>s. find_token (split_on CHR '';'' s))"

definition session_cookie :: "http_env \<Rightarrow> authenticated_session \<Rightarrow> auth_http_error + string" where
  "session_cookie env s =
     (let cookie = SESSION_COOKIE_NAME @ ''='' @ au_token s @ ''; Path=/; HttpOnly; Secure; SameSite=Lax; Max-Age='' @ show_nat SESSION_TTL_SECONDS
      in if hx_header_value env cookie then Inr cookie else Inl HttpInternal)"

definition clear_session_cookie :: "http_env \<Rightarrow> auth_http_error + string" where
  "clear_session_cookie env =
     (let cookie = ''north_session=; Path=/; HttpOnly; Secure; SameSite=Lax; Max-Age=0''
      in if hx_header_value env cookie then Inr cookie else Inl HttpInternal)"

section \<open>Sign-in handlers\<close>

definition observe :: "public_endpoint \<Rightarrow> public_endpoint_outcome \<Rightarrow> public_endpoint_category \<Rightarrow> server \<Rightarrow> server" where
  "observe endpoint outcome category sv = sv\<lparr>sv_observed := sv_observed sv @ [(endpoint, outcome, category)]\<rparr>"

text \<open>\<open>now\<close> is the limiter's clock and \<open>db_now\<close> the database's.\<close>

definition request_code ::
  "http_env \<Rightarrow> nat \<Rightarrow> nat \<Rightarrow> nat \<Rightarrow> ip_addr \<Rightarrow> string option list \<Rightarrow> string option \<Rightarrow> server \<Rightarrow> (auth_http_error + http_response) option \<times> server" where
  "request_code env draw now db_now peer forwarded payload sv =
     (case payload of
        None \<Rightarrow> (Some (Inl BadRequest), sv)
      | Some raw \<Rightarrow>
     (case normalize_email raw of
        None \<Rightarrow> (Some (Inl BadRequest), sv)
      | Some email \<Rightarrow>
     (case resolve_client_identity peer forwarded (hx_proxies env) of
        Inl _ \<Rightarrow> (None, sv)
      | Inr identity \<Rightarrow>
     (case try_consume (hx_limiter env) \<lparr>bk_endpoint = RequestCode, bk_primary_key = ci_primary_key identity\<rparr> now (sv_buckets sv) of
        (Inl retry_after, buckets) \<Rightarrow>
          (Some (Inl (HttpRateLimited retry_after)), observe RequestCode Rejected ClientBucket (sv\<lparr>sv_buckets := buckets\<rparr>))
      | (Inr _, buckets) \<Rightarrow>
          (let code = generate_code draw; sv = sv\<lparr>sv_buckets := buckets\<rparr> in
           case issue_code (hx_auth env) db_now email code (sv_db sv) of
             (Inl Panicked, db) \<Rightarrow> (None, sv\<lparr>sv_db := db\<rparr>)
           | (Inl (Refused e), db) \<Rightarrow>
               if e = RateLimited
               then (Some (Inl (HttpRateLimited CODE_REQUEST_COOLDOWN_SECONDS)),
                     observe RequestCode Rejected EmailCooldown (sv\<lparr>sv_db := db\<rparr>))
               else (Some (Inl (auth_error_from e)), sv\<lparr>sv_db := db\<rparr>)
           | (Inr _, db) \<Rightarrow>
               (let sv = observe RequestCode Allowed ClientBucket (sv\<lparr>sv_db := db\<rparr>) in
                if hx_delivers env email code
                then (Some (Inr (plain_response 202 (PublicMessage ''verification code requested''))), sv\<lparr>sv_mail := sv_mail sv @ [(email, code)]\<rparr>)
                else (Some (Inl HttpInternal), sv)))))))"

definition verify_code_http ::
  "http_env \<Rightarrow> (nat \<Rightarrow> nat) \<Rightarrow> (nat \<Rightarrow> nat) \<Rightarrow> (nat \<Rightarrow> nat) \<Rightarrow> nat \<Rightarrow> (string \<times> string) option \<Rightarrow> server
   \<Rightarrow> (auth_http_error + http_response) option \<times> server" where
  "verify_code_http env rnd1 rnd2 rnd3 now payload sv =
     (case payload of
        None \<Rightarrow> (Some (Inl BadRequest), sv)
      | Some (raw, code) \<Rightarrow>
     (case normalize_email raw of
        None \<Rightarrow> (Some (Inl BadRequest), sv)
      | Some email \<Rightarrow>
          if \<not> valid_code code then (Some (Inl HttpInvalidCode), sv)
          else
            (case verify_code (hx_auth env) rnd1 rnd2 rnd3 now email code (sv_db sv) of
               (Inl Panicked, db) \<Rightarrow> (None, sv\<lparr>sv_db := db\<rparr>)
             | (Inl (Refused e), db) \<Rightarrow> (Some (Inl (auth_error_from e)), sv\<lparr>sv_db := db\<rparr>)
             | (Inr session, db) \<Rightarrow>
                 (Some (and_then (session_cookie env session) (\<lambda>cookie. Inr ((plain_response 204 NoBody)\<lparr>hr_set_cookie := Some cookie\<rparr>))),
                  sv\<lparr>sv_db := db\<rparr>))))"

definition logout :: "http_env \<Rightarrow> nat \<Rightarrow> string option \<Rightarrow> server \<Rightarrow> (auth_http_error + http_response) \<times> server" where
  "logout env now cookies sv =
     (case session_token cookies of
        None \<Rightarrow> (Inl Unauthorized, sv)
      | Some token \<Rightarrow>
          (and_then (clear_session_cookie env) (\<lambda>cookie. Inr ((plain_response 204 NoBody)\<lparr>hr_set_cookie := Some cookie\<rparr>)),
           sv\<lparr>sv_db := invalidate_session (hx_auth env) now token (sv_db sv)\<rparr>))"

text \<open>The middleware answers with a bare status or hands the user to the protected handler.\<close>

definition auth_middleware ::
  "http_env \<Rightarrow> nat \<Rightarrow> string option \<Rightarrow> (user_record \<Rightarrow> server \<Rightarrow> http_response \<times> server) \<Rightarrow> server \<Rightarrow> http_response \<times> server" where
  "auth_middleware env now cookies handler sv =
     (case session_token cookies of
        None \<Rightarrow> (plain_response 401 NoBody, sv)
      | Some token \<Rightarrow>
          (case user_for_session (hx_auth env) now token (sv_db sv) of
             Inl _ \<Rightarrow> (plain_response 500 NoBody, sv)
           | Inr None \<Rightarrow> (plain_response 401 NoBody, sv)
           | Inr (Some user) \<Rightarrow> handler user sv))"

section \<open>Roles\<close>

datatype role_http_error = PermissionDenied | HttpSelfModification | HttpOwnerGrantRequiresOwner | HttpNotAuthorized
  | HttpInvalidRole | UserNotFound | RoleInternal

definition role_error_status :: "role_http_error \<Rightarrow> nat" where
  "role_error_status e = (case e of HttpSelfModification \<Rightarrow> 400 | HttpInvalidRole \<Rightarrow> 400
     | PermissionDenied \<Rightarrow> 403 | HttpOwnerGrantRequiresOwner \<Rightarrow> 403 | HttpNotAuthorized \<Rightarrow> 403
     | UserNotFound \<Rightarrow> 404 | RoleInternal \<Rightarrow> 500)"

definition role_error_code :: "role_http_error \<Rightarrow> string" where
  "role_error_code e = (case e of PermissionDenied \<Rightarrow> ''permission_denied'' | HttpSelfModification \<Rightarrow> ''self_modification''
     | HttpOwnerGrantRequiresOwner \<Rightarrow> ''owner_grant_requires_owner'' | HttpNotAuthorized \<Rightarrow> ''not_authorized''
     | HttpInvalidRole \<Rightarrow> ''invalid_role'' | UserNotFound \<Rightarrow> ''user_not_found'' | RoleInternal \<Rightarrow> ''internal_error'')"

definition role_response :: "role_http_error + http_body \<Rightarrow> http_response" where
  "role_response r = (case r of Inl e \<Rightarrow> plain_response (role_error_status e) (ErrorBody (role_error_code e)) | Inr b \<Rightarrow> plain_response 200 b)"

definition role_error_from :: "role_error \<Rightarrow> role_http_error" where
  "role_error_from e = (case e of SelfModification \<Rightarrow> HttpSelfModification | OwnerGrantRequiresOwner \<Rightarrow> HttpOwnerGrantRequiresOwner
     | NotAuthorized \<Rightarrow> HttpNotAuthorized)"

definition role_name :: "role \<Rightarrow> string" where
  "role_name r = (case r of Owner \<Rightarrow> ''Owner'' | Admin \<Rightarrow> ''Admin'' | RequirementManager \<Rightarrow> ''RequirementManager'' | Requester \<Rightarrow> ''Requester'')"

definition parse_role :: "string \<Rightarrow> role_http_error + role" where
  "parse_role s = (if s = ''Owner'' then Inr Owner else if s = ''Admin'' then Inr Admin
     else if s = ''RequirementManager'' then Inr RequirementManager else if s = ''Requester'' then Inr Requester
     else Inl HttpInvalidRole)"

definition user_response_from :: "user_record \<Rightarrow> user_response" where
  "user_response_from u = \<lparr>ue_id = us_id u, ue_email = us_email u, ue_role = role_name (us_role u)\<rparr>"

definition require_review :: "user_record \<Rightarrow> role_http_error + unit" where
  "require_review u = (if can_review (us_role u) then Inr () else Inl PermissionDenied)"

definition require_admin :: "user_record \<Rightarrow> role_http_error + unit" where
  "require_admin u = (if can_administer (us_role u) then Inr () else Inl PermissionDenied)"

definition authorize_role_assignment :: "user_record \<Rightarrow> string \<Rightarrow> role \<Rightarrow> role_http_error + unit" where
  "authorize_role_assignment actor target_id new_role =
     and_then (require_admin actor) (\<lambda>_. map_err role_error_from (assign_role (us_role actor) (us_id actor = target_id) new_role))"

definition current_user :: "user_record \<Rightarrow> server \<Rightarrow> http_response \<times> server" where
  "current_user user sv = (plain_response 200 (UserBody (user_response_from user)), sv)"

definition list_users_http :: "user_record \<Rightarrow> server \<Rightarrow> http_response \<times> server" where
  "list_users_http user sv =
     (role_response (and_then (require_admin user) (\<lambda>_.
        and_then (map_err (\<lambda>_. RoleInternal) (list_users (sv_db sv))) (\<lambda>us. Inr (UsersBody (map user_response_from us))))), sv)"

definition assign_user_role :: "string \<Rightarrow> string \<Rightarrow> user_record \<Rightarrow> server \<Rightarrow> http_response \<times> server" where
  "assign_user_role target_id role_text actor sv =
     (case and_then (require_admin actor) (\<lambda>_.
           and_then (parse_role role_text) (\<lambda>new_role.
           and_then (authorize_role_assignment actor target_id new_role) (\<lambda>_.
           and_then (map_err (\<lambda>_. RoleInternal) (user_by_id target_id (sv_db sv))) (\<lambda>target.
           (case target of None \<Rightarrow> Inl UserNotFound | Some u \<Rightarrow> Inr (u, new_role)))))) of
        Inl e \<Rightarrow> (role_response (Inl e), sv)
      | Inr (target, new_role) \<Rightarrow>
          (case update_user_role (us_id target) new_role (sv_db sv) of
             (r, db) \<Rightarrow>
               (role_response (and_then (map_err (\<lambda>_. RoleInternal) r)
                  (\<lambda>u. case u of None \<Rightarrow> Inl UserNotFound | Some u \<Rightarrow> Inr (UserBody (user_response_from u)))),
                sv\<lparr>sv_db := db\<rparr>)))"

section \<open>Routes\<close>

text \<open>The routes of \<open>auth::router\<close> and \<open>roles::router\<close>: the first two are public, the others pass the middleware.\<close>

datatype http_request =
    RequestCodeReq nat nat nat ip_addr "string option list" "string option"
  | VerifyReq "nat \<Rightarrow> nat" "nat \<Rightarrow> nat" "nat \<Rightarrow> nat" nat "(string \<times> string) option"
  | LogoutReq nat "string option"
  | MeReq nat "string option"
  | UsersReq nat "string option"
  | RoleReq nat "string option" string string

definition answer :: "http_env \<Rightarrow> (auth_http_error + http_response) option \<times> server \<Rightarrow> http_response option \<times> server" where
  "answer env r = (map_option (into_response env) (fst r), snd r)"

definition serve :: "http_env \<Rightarrow> http_request \<Rightarrow> server \<Rightarrow> http_response option \<times> server" where
  "serve env req sv =
     (case req of
        RequestCodeReq draw now db_now peer forwarded payload \<Rightarrow> answer env (request_code env draw now db_now peer forwarded payload sv)
      | VerifyReq rnd1 rnd2 rnd3 now payload \<Rightarrow> answer env (verify_code_http env rnd1 rnd2 rnd3 now payload sv)
      | LogoutReq now cookies \<Rightarrow> apfst Some (auth_middleware env now cookies (\<lambda>_ sv. apfst (into_response env) (logout env now cookies sv)) sv)
      | MeReq now cookies \<Rightarrow> apfst Some (auth_middleware env now cookies current_user sv)
      | UsersReq now cookies \<Rightarrow> apfst Some (auth_middleware env now cookies list_users_http sv)
      | RoleReq now cookies target_id role_text \<Rightarrow> apfst Some (auth_middleware env now cookies (assign_user_role target_id role_text) sv))"

fun serve_all :: "http_env \<Rightarrow> http_request list \<Rightarrow> server \<Rightarrow> server" where
  "serve_all env [] sv = sv"
| "serve_all env (req # reqs) sv = serve_all env reqs (snd (serve env req sv))"

definition empty_server :: server where
  "empty_server = \<lparr>sv_db = empty_auth, sv_buckets = [], sv_observed = [], sv_mail = []\<rparr>"

section \<open>Requests are calls of the store\<close>

text \<open>A request makes at most one call that changes the tables.\<close>

definition served :: "http_env \<Rightarrow> auth_label \<Rightarrow> auth_db \<Rightarrow> auth_db \<Rightarrow> bool" where
  "served env l db db' \<longleftrightarrow> auth_call (hx_auth env) l db db' \<or> l = Idle \<and> db' = db"

interpretation http: auth_operation "hx_auth env" "served env" for env
proof
  fix l db db'
  assume ok: "auth_ok db" and s: "served env l db db'"
  show "codes_step l db db'" using s call.codes[OF ok] codes_kept[OF auth_okD(1)[OF ok], of db Idle] by (auto simp: served_def)
  show "people_step (hx_auth env) l db db'" using s call.people[OF ok] people_same[OF ok] by (auto simp: served_def)
qed

lemma served_idle: "\<exists>l. served env l db db"
  by (auto simp: served_def)

lemma served_issue: "issue_code (hx_auth env) now email code db = (r, db') \<Longrightarrow> \<exists>l. served env l db db'"
  by (auto simp: served_def dest: call_issue)

lemma served_verify: "verify_code (hx_auth env) rnd1 rnd2 rnd3 now email code db = (r, db') \<Longrightarrow> \<exists>l. served env l db db'"
  by (auto simp: served_def dest: call_verify)

lemma request_code_served: "\<exists>l. served env l (sv_db sv) (sv_db (snd (request_code env draw now db_now peer forwarded payload sv)))"
proof -
  have "request_code env draw now db_now peer forwarded payload sv = (r, sv') \<Longrightarrow> \<exists>l. served env l (sv_db sv) (sv_db sv')" for r sv'
    unfolding request_code_def Let_def observe_def
    by (auto split: option.splits sum.splits prod.splits auth_fault.splits if_splits intro: served_idle served_issue)
  then show ?thesis by (metis prod.collapse)
qed

lemma verify_code_served:
  "\<exists>l. served env l (sv_db sv) (sv_db (snd (verify_code_http env rnd1 rnd2 rnd3 now payload sv)))"
proof -
  have "verify_code_http env rnd1 rnd2 rnd3 now payload sv = (r, sv') \<Longrightarrow> \<exists>l. served env l (sv_db sv) (sv_db sv')" for r sv'
    unfolding verify_code_http_def
    by (auto split: option.splits sum.splits prod.splits auth_fault.splits if_splits intro: served_idle served_verify)
  then show ?thesis by (metis prod.collapse)
qed

lemma auth_middleware_cases:
  obtains (refused) "auth_middleware env now cookies handler sv = (plain_response 401 NoBody, sv)"
  | (failed) "auth_middleware env now cookies handler sv = (plain_response 500 NoBody, sv)"
  | (passed) token user where "session_token cookies = Some token" "user_for_session (hx_auth env) now token (sv_db sv) = Inr (Some user)"
      "auth_middleware env now cookies handler sv = handler user sv"
proof (cases "session_token cookies")
  case None
  then show ?thesis using refused by (simp add: auth_middleware_def)
next
  case (Some token)
  then show ?thesis
  proof (cases "user_for_session (hx_auth env) now token (sv_db sv)")
    case (Inr u)
    then show ?thesis using Some refused passed by (cases u) (simp_all add: auth_middleware_def)
  qed (simp add: auth_middleware_def failed)
qed

lemma assign_user_role_cases:
  obtains (refused) e where "assign_user_role target_id role_text actor sv = (role_response (Inl e), sv)"
  | (assigned) target new_role resp u db where "can_administer (us_role actor)" "parse_role role_text = Inr new_role"
      "assign_role (us_role actor) (us_id actor = target_id) new_role = Inr ()"
      "user_by_id target_id (sv_db sv) = Inr (Some target)" "update_user_role (us_id target) new_role (sv_db sv) = (u, db)"
      "assign_user_role target_id role_text actor sv = (resp, sv\<lparr>sv_db := db\<rparr>)"
proof (cases "snd (assign_user_role target_id role_text actor sv) = sv \<and> (\<exists>e. fst (assign_user_role target_id role_text actor sv) = role_response (Inl e))")
  case True
  then show ?thesis using refused by (metis prod.collapse)
next
  case False
  then show ?thesis using assigned
    by (auto simp: assign_user_role_def require_admin_def authorize_role_assignment_def and_then_def map_err_def
        split: sum.splits if_splits option.splits prod.splits)
qed

lemma assign_user_role_served: "\<exists>l. served env l (sv_db sv) (sv_db (snd (assign_user_role target_id role_text actor sv)))"
  by (cases rule: assign_user_role_cases[of target_id role_text actor sv])
    (auto simp: served_def dest: call_role)

lemma serve_served: "\<exists>l. served env l (sv_db sv) (sv_db (snd (serve env req sv)))"
proof (cases req)
  case (LogoutReq now cookies)
  show ?thesis unfolding LogoutReq serve_def
    by (cases rule: auth_middleware_cases[of env now cookies "\<lambda>_ sv. apfst (into_response env) (logout env now cookies sv)" sv])
      (auto simp: served_idle logout_def served_def apfst_def map_prod_def intro: call_logout split: option.splits)
next
  case (MeReq now cookies)
  show ?thesis unfolding MeReq serve_def
    by (cases rule: auth_middleware_cases[of env now cookies current_user sv]) (simp_all add: served_idle current_user_def)
next
  case (UsersReq now cookies)
  show ?thesis unfolding UsersReq serve_def
    by (cases rule: auth_middleware_cases[of env now cookies list_users_http sv]) (simp_all add: served_idle list_users_http_def)
next
  case (RoleReq now cookies target_id role_text)
  show ?thesis unfolding RoleReq serve_def
    by (cases rule: auth_middleware_cases[of env now cookies "assign_user_role target_id role_text" sv])
      (simp_all add: served_idle assign_user_role_served)
qed (simp_all add: serve_def answer_def request_code_served verify_code_served)

lemma serve_ok: "auth_ok (sv_db sv) \<Longrightarrow> auth_ok (sv_db (snd (serve env req sv)))"
  using serve_served http.keeps_ok by blast

lemma serve_all_ok: "auth_ok (sv_db sv) \<Longrightarrow> auth_ok (sv_db (serve_all env reqs sv))"
  by (induction reqs arbitrary: sv) (simp_all add: serve_ok)

lemma server_ok: "auth_ok (sv_db (serve_all env reqs empty_server))"
  by (rule serve_all_ok) (simp add: empty_server_def auth_ok_empty)

section \<open>Guesses over HTTP\<close>

text \<open>A guess is a verification request, compared with a usable code of its email, that was answered with success or refusal.\<close>

definition http_guess :: "http_env \<Rightarrow> string \<Rightarrow> http_request \<Rightarrow> server \<Rightarrow> bool" where
  "http_guess env email req sv =
     (case req of
        VerifyReq rnd1 rnd2 rnd3 now (Some (raw, code)) \<Rightarrow>
          normalize_email raw = Some email \<and> valid_code code \<and> active_code now email (sv_db sv) \<noteq> None
          \<and> map_option hr_status (fst (serve env req sv)) \<in> {Some 204, Some 401}
      | _ \<Rightarrow> False)"

fun http_guesses :: "http_env \<Rightarrow> string \<Rightarrow> http_request list \<Rightarrow> server \<Rightarrow> nat" where
  "http_guesses env email [] sv = 0"
| "http_guesses env email (req # reqs) sv =
     (if http_guess env email req sv then 1 else 0) + http_guesses env email reqs (snd (serve env req sv))"

definition codes_issued :: "string \<Rightarrow> auth_db \<Rightarrow> nat" where
  "codes_issued email db = length (filter (\<lambda>c. vc_email c = email) (ad_codes db))"

lemma codes_issued_map: "spends cs f \<Longrightarrow> length (filter (\<lambda>c. vc_email c = email) (map f cs)) = length (filter (\<lambda>c. vc_email c = email) cs)"
  by (induction cs) (auto simp: spends_def)

lemma codes_issued_step:
  assumes "codes_step l db db'" "codes_ok (ad_next_code_id db) (ad_codes db)"
  shows "codes_issued email db' = codes_issued email db + issues email [l]"
  using assms(1)
proof cases
  case (spent f)
  then show ?thesis using codes_issued_map[OF spent(1)] by (simp add: codes_issued_def issues_def)
next
  case (issued now e env code digest)
  have "vc_email (new_code now e (ad_next_code_id db) digest) = e" by (simp add: new_code_def)
  then show ?thesis unfolding codes_issued_def issued(1,4)
    using codes_issued_map[OF spends_supersede[OF assms(2)], of email now e] by (simp add: issues_def)
qed

lemma auth_error_status:
  "hr_status (into_response env (Inl (auth_error_from e))) \<in> {204, 401} \<Longrightarrow> e = InvalidCode"
  by (cases e) (simp_all add: into_response_def auth_error_from_def auth_error_response_def plain_response_def rate_limited_response_def)

lemma http_guess_label:
  assumes "http_guess env email req sv"
  shows "served env (Guessed email) (sv_db sv) (sv_db (snd (serve env req sv)))"
proof -
  obtain rnd1 rnd2 rnd3 now raw code where req: "req = VerifyReq rnd1 rnd2 rnd3 now (Some (raw, code))"
      and g: "normalize_email raw = Some email" "valid_code code" "active_code now email (sv_db sv) \<noteq> None"
        "map_option hr_status (fst (serve env req sv)) \<in> {Some 204, Some 401}"
    using assms by (auto simp: http_guess_def split: http_request.splits option.splits)
  obtain r db' where v: "verify_code (hx_auth env) rnd1 rnd2 rnd3 now email code (sv_db sv) = (r, db')" by (rule prod.exhaust)
  have "answers r"
  proof (cases r)
    case (Inl e)
    then show ?thesis using g v auth_error_status
      by (cases e) (auto simp: req serve_def answer_def verify_code_http_def answers_def)
  qed (simp add: answers_def)
  then have "verify_label now email (sv_db sv) r = Guessed email" using g(3) by (simp add: verify_label_def)
  moreover have "sv_db (snd (serve env req sv)) = db'" using g(1,2) v
    by (auto simp: req serve_def answer_def verify_code_http_def split: sum.splits auth_fault.splits)
  ultimately show ?thesis using call_verify[OF v] by (simp add: served_def)
qed

lemma http_guesses_run:
  "auth_ok (sv_db sv) \<Longrightarrow> tries email (ad_codes (sv_db (serve_all env reqs sv))) + http_guesses env email reqs sv + 5 * codes_issued email (sv_db sv)
     \<le> tries email (ad_codes (sv_db sv)) + 5 * codes_issued email (sv_db (serve_all env reqs sv))"
proof (induction reqs arbitrary: sv)
  case (Cons req reqs)
  let ?sv = "snd (serve env req sv)"
  obtain l where l: "served env l (sv_db sv) (sv_db ?sv)" "http_guess env email req sv \<Longrightarrow> l = Guessed email"
    using http_guess_label serve_served by metis
  note step = http.codes[OF Cons.prems l(1)] and ok = auth_okD(1)[OF Cons.prems]
  have "(if http_guess env email req sv then 1 else 0) \<le> guesses email [l]" using l(2) by (simp add: guesses_def)
  then show ?case using Cons.IH[OF serve_ok[OF Cons.prems], of env req] tries_step[OF step ok, of email] codes_issued_step[OF step ok, of email] by simp
qed simp

section \<open>Texts\<close>

definition plain :: "char \<Rightarrow> bool" where
  "plain c \<longleftrightarrow> CHR ''!'' \<le> c \<and> c \<le> CHR ''~''"

lemma ws_not_plain: "p \<in> set str_ws \<Longrightarrow> \<not> plain (hd p) \<and> \<not> plain (last p)"
proof -
  have "list_all (\<lambda>p. \<not> plain (hd p) \<and> \<not> plain (last p)) str_ws" by code_simp
  then show "p \<in> set str_ws \<Longrightarrow> \<not> plain (hd p) \<and> \<not> plain (last p)" by (simp add: list_all_iff)
qed

lemma starts_with_hd: "starts_with p s \<Longrightarrow> p \<noteq> [] \<Longrightarrow> s \<noteq> [] \<and> hd s = hd p"
  by (cases p; cases s) (auto simp: starts_with_def)

lemma trim_plain:
  assumes "list_all plain s"
  shows "trim s = s"
proof -
  have "\<not> starts_with p s" if "p \<in> set str_ws" "p \<noteq> []" for p
    using starts_with_hd[of p s] ws_not_plain[OF that(1)] that(2) assms by (cases s) auto
  then have "trim_start s = s" by (simp add: trim_start_def trim_by_fixed)
  moreover have "\<not> starts_with (rev p) (rev s)" if "p \<in> set str_ws" "p \<noteq> []" for p
    using starts_with_hd[of "rev p" "rev s"] ws_not_plain[OF that(1)] that(2) assms
    by (cases s rule: rev_cases) (auto simp: hd_rev)
  then have "trim_by (map rev str_ws) (rev s) = rev s" by (auto simp: trim_by_fixed)
  then have "trim_end s = s" by (simp add: trim_end_def)
  ultimately show ?thesis by (simp add: trim_def)
qed

lemma length_show_nat: "n < 10 ^ Suc k \<Longrightarrow> length (show_nat n) \<le> Suc k"
proof (induction k arbitrary: n)
  case (Suc k)
  have "n div 10 < 10 ^ Suc k" using Suc.prems by (simp add: less_mult_imp_div_less)
  then show ?case using Suc.IH[of "n div 10"] by (simp add: show_nat.simps[of n])
qed (simp add: show_nat.simps)

lemma digit_char: "k < 10 \<Longrightarrow> is_ascii_digit (char_of (48 + k :: nat))"
proof -
  assume "k < 10"
  then have "k \<in> set [0..<10]" by simp
  moreover have "list_all (\<lambda>k. is_ascii_digit (char_of (48 + k :: nat))) [0..<10]" by code_simp
  ultimately show ?thesis by (simp only: list_all_iff)
qed

lemma show_nat_digits: "list_all is_ascii_digit (show_nat n)"
proof (induction n rule: show_nat.induct)
  case (1 n)
  then show ?case using digit_char[of n] digit_char[of "n mod 10"] by (simp add: show_nat.simps[of n])
qed

lemma generated_code_valid: "draw < 1000000 \<Longrightarrow> valid_code (generate_code draw)"
proof -
  assume "draw < 1000000"
  then have "length (show_nat draw) \<le> 6" using length_show_nat[of draw 5] by simp
  moreover have "is_ascii_digit CHR ''0''" by code_simp
  ultimately show ?thesis using show_nat_digits[of draw]
    by (auto simp: valid_code_def generate_code_def VERIFICATION_CODE_LENGTH_def list_all_iff)
qed

lemma normalize_email_length: "normalize_email raw = Some email \<Longrightarrow> length email \<le> 254"
  by (auto simp: normalize_email_def Let_def split: option.splits if_splits)

lemma hex_byte_plain: "b < 256 \<Longrightarrow> list_all (\<lambda>c. plain c \<and> c \<noteq> CHR '';'' \<and> c \<noteq> CHR ''='') (hex_byte b)"
proof -
  have digit: "k < 16 \<Longrightarrow> plain (''0123456789abcdef'' ! k) \<and> ''0123456789abcdef'' ! k \<noteq> CHR '';'' \<and> ''0123456789abcdef'' ! k \<noteq> CHR ''=''" for k
  proof -
    assume "k < 16"
    then have "k \<in> set [0..<16]" by simp
    moreover have "list_all (\<lambda>k. plain (''0123456789abcdef'' ! k) \<and> ''0123456789abcdef'' ! k \<noteq> CHR '';'' \<and> ''0123456789abcdef'' ! k \<noteq> CHR ''='') [0..<16]"
      by code_simp
    ultimately show ?thesis unfolding list_all_iff by blast
  qed
  assume "b < 256"
  then have "b div 16 < 16" "b mod 16 < 16" by auto
  then show ?thesis using digit by (simp add: hex_byte_def)
qed

lemma random_hex_plain:
  assumes "\<And>i. rnd i < 256"
  shows "list_all (\<lambda>c. plain c \<and> c \<noteq> CHR '';'' \<and> c \<noteq> CHR ''='') (random_hex n rnd)"
  using hex_byte_plain[OF assms] by (auto simp: random_hex_def list_all_iff)

lemma length_random_hex: "length (random_hex n rnd) = 2 * n"
  by (induction n) (simp_all add: random_hex_def hex_byte_def)

lemma takeWhile_until: "\<forall>c\<in>set xs. c \<noteq> d \<Longrightarrow> takeWhile (\<lambda>c. c \<noteq> d) (xs @ d # ys) = xs"
  by (induction xs) auto

lemma split_on_absent: "d \<notin> set s \<Longrightarrow> split_on d s = [s]"
  by (induction s) auto

lemma session_token_pair:
  assumes "list_all (\<lambda>c. plain c \<and> c \<noteq> CHR '';'') token" "token \<noteq> []"
  shows "session_token (Some (SESSION_COOKIE_NAME @ ''='' @ token)) = Some token"
proof -
  let ?pair = "SESSION_COOKIE_NAME @ ''='' @ token"
  have name: "list_all (\<lambda>c. plain c \<and> c \<noteq> CHR '';'') (SESSION_COOKIE_NAME @ ''='')" by code_simp
  then have "list_all plain ?pair" "CHR '';'' \<notin> set ?pair" using assms(1) by (auto simp: list_all_iff)
  then have "trim ?pair = ?pair" "split_on CHR '';'' ?pair = [?pair]"
    using trim_plain split_on_absent by blast+
  moreover have "CHR ''='' \<notin> set SESSION_COOKIE_NAME" by code_simp
  then have "split_once CHR ''='' ?pair = Some (SESSION_COOKIE_NAME, token)" by (simp add: split_once_Some_iff)
  ultimately show ?thesis using assms(2) by (simp add: session_token_def)
qed

section \<open>Properties\<close>

text \<open>The server of the witnesses: one owner, one requester, both signed in.\<close>

definition demo_http :: http_env where
  "demo_http = \<lparr>hx_auth = \<lparr>ax_hmac = (\<lambda>k m. drop (length m - 6) m), ax_sha256 = take 2, ax_key = []\<rparr>, hx_limiter = sample_limiter\<lparr>lc_max_entries := 2\<rparr>, hx_proxies = [], hx_delivers = (\<lambda>_ _. True), hx_header_value = (\<lambda>_. True)\<rparr>"

definition demo_pair :: "nat \<Rightarrow> string" where
  "demo_pair k = SESSION_COOKIE_NAME @ ''='' @ random_hex 32 (\<lambda>_. k)"

definition demo_requests :: "http_request list" where
  "demo_requests =
     [RequestCodeReq 314159 0 0 (V4 0) [] (Some '' Ada@North.dev ''),
      VerifyReq (\<lambda>_. 1) (\<lambda>_. 1) (\<lambda>_. 1) 1000000 (Some (''ada@north.dev'', ''314159'')),
      RequestCodeReq 271828 0 0 (V4 1) [] (Some ''bob@north.dev''),
      VerifyReq (\<lambda>_. 2) (\<lambda>_. 2) (\<lambda>_. 2) 1000000 (Some (''bob@north.dev'', ''271828''))]"

definition demo_server :: server where
  "demo_server = serve_all demo_http demo_requests empty_server"

definition demo_role_req :: http_request where
  "demo_role_req = RoleReq 2000000 (Some (demo_pair 1)) (random_hex 16 (\<lambda>_. 2)) ''Admin''"

definition demo_users :: "server \<Rightarrow> user_row list" where "demo_users sv = ad_users (sv_db sv)"

definition demo_promotes :: "server \<Rightarrow> bool" where
  "demo_promotes sv =
     (case demo_users sv of [a, u] \<Rightarrow>
      (case demo_users (snd (serve demo_http demo_role_req sv)) of [a', u'] \<Rightarrow> ur_id u' = ur_id u \<and> ur_role u' \<noteq> ur_role u | _ \<Rightarrow> False)
      | _ \<Rightarrow> False)"

lemma demo_promoted: "demo_promotes demo_server"
  by code_simp

text \<open>C13. Guessing over HTTP is bounded whatever requests are sent in whatever order: for every email, the verification
  requests that were compared with a usable code and answered are at most five for each code row of that email.\<close>

theorem http_guesses_bounded:
  "http_guesses env email reqs empty_server \<le> 5 * codes_issued email (sv_db (serve_all env reqs empty_server))"
  using http_guesses_run[of empty_server email env reqs] auth_ok_empty by (simp add: empty_server_def empty_auth_def codes_issued_def)

lemma users_ok_id_inject: "users_ok us \<Longrightarrow> u \<in> set us \<Longrightarrow> v \<in> set us \<Longrightarrow> ur_id u = ur_id v \<Longrightarrow> u = v"
  by (auto simp: users_ok_def distinct_map inj_on_def)

lemma verify_keeps_roles:
  assumes ok: "auth_ok db" and v: "verify_code env rnd1 rnd2 rnd3 now email code db = (r, db')"
    and u: "u \<in> set (ad_users db)" "u' \<in> set (ad_users db')" "ur_id u' = ur_id u"
  shows "ur_role u' = ur_role u"
  using v
proof (cases rule: verify_code_cases)
  case (right row s)
  let ?db = "db\<lparr>ad_codes := map (consume_code now row) (ad_codes db)\<rparr>"
  obtain w where w: "ad_owner_user_id db = Some w" using auth_okD(4)[OF ok] u(1) by (cases "ad_owner_user_id db") (auto simp: owner_ok_def)
  have users: "users_ok (ad_users ?db)" using auth_okD(2)[OF ok] by simp
  obtain us where us: "users_ok (ad_users db @ us)" "ad_users db' = ad_users db @ us"
    by (rule open_session_Inr[OF right(4) users]) (simp add: w)
  then show ?thesis using users_ok_id_inject[OF us(1), of u u'] u by simp
qed (use users_ok_id_inject[OF auth_okD(2)[OF ok] u(1), of u'] u in auto)

lemma parse_role_Inr: "parse_role text = Inr r \<longleftrightarrow> text = persisted_role r"
  by (cases r) (auto simp: parse_role_def persisted_role_def)

lemma assign_role_Inr: "assign_role actor same new_role = Inr () \<Longrightarrow> \<not> same \<and> can_administer actor \<and> (new_role = Owner \<longrightarrow> actor = Owner)"
  by (cases actor) (auto simp: assign_role_def split: if_splits)

lemma request_code_users: "ad_users (sv_db (snd (request_code env draw now db_now peer forwarded payload sv))) = ad_users (sv_db sv)"
proof -
  have "issue_code env' t e c db = (r, db') \<Longrightarrow> ad_users db' = ad_users db" for env' t e c db r db'
    by (auto simp: issue_code_def Let_def split: if_splits option.splits)
  then have "request_code env draw now db_now peer forwarded payload sv = (r, sv') \<Longrightarrow> ad_users (sv_db sv') = ad_users (sv_db sv)" for r sv'
    unfolding request_code_def Let_def observe_def
    by (auto split: option.splits sum.splits prod.splits auth_fault.splits if_splits)
  then show ?thesis by (metis prod.collapse)
qed

lemma assigned_role:
  assumes ok: "auth_ok (sv_db sv)" and u: "u \<in> set (ad_users (sv_db sv))" "u' \<in> set (ad_users (sv_db (snd (assign_user_role target_id role_text actor sv))))"
      "ur_id u' = ur_id u" "ur_role u' \<noteq> ur_role u"
  shows "target_id = ur_id u \<and> role_text = ur_role u' \<and> can_administer (us_role actor) \<and> us_id actor \<noteq> ur_id u
    \<and> (ur_role u' = ''Owner'' \<longrightarrow> us_role actor = Owner)"
proof (cases rule: assign_user_role_cases[of target_id role_text actor sv])
  case (refused e)
  then show ?thesis using users_ok_id_inject[OF auth_okD(2)[OF ok] u(1), of u'] u by simp
next
  case (assigned target new_role resp v db)
  have t: "us_id target = target_id" using assigned(4)
    by (auto simp: user_by_id_def find_Some_iff user_into_domain_def and_then_def split: option.splits if_splits sum.splits)
  have "ad_users db = set_role target_id (persisted_role new_role) (ad_users (sv_db sv))"
    using assigned(5) t by (auto simp: update_user_role_def Let_def)
  then obtain x where x: "x \<in> set (ad_users (sv_db sv))" "u' = (if ur_id x = target_id then x\<lparr>ur_role := persisted_role new_role\<rparr> else x)"
    using u(2) assigned(6) by auto
  then have "ur_id x = ur_id u" using u(3) by (simp split: if_splits)
  then have "x = u" using users_ok_id_inject[OF auth_okD(2)[OF ok] x(1) u(1)] by simp
  then have c: "ur_id u = target_id" "ur_role u' = persisted_role new_role" using x(2) u(4) by (auto split: if_splits)
  moreover have "persisted_role new_role = ''Owner'' \<longrightarrow> new_role = Owner" by (cases new_role) (simp_all add: persisted_role_def)
  ultimately show ?thesis using assign_role_Inr[OF assigned(3)] assigned(1,2) by (auto simp: parse_role_Inr)
qed

text \<open>C14. A role changes only by an administrator's request: when any request, in any state the server can reach, leaves a
  known user with another role, it is a role request for that user and that role, with the cookie of a live
  session whose user is an Admin or the Owner and somebody else, and an Owner when the new role is Owner.\<close>

theorem roles_change_only_by_admins:
  assumes sv: "sv = serve_all env reqs empty_server" and step: "serve env req sv = (resp, sv')"
    and u: "u \<in> set (ad_users (sv_db sv))" "u' \<in> set (ad_users (sv_db sv'))" "ur_id u' = ur_id u" "ur_role u' \<noteq> ur_role u"
  shows "\<exists>now cookies token actor. req = RoleReq now cookies (ur_id u) (ur_role u') \<and> session_token cookies = Some token
    \<and> user_for_session (hx_auth env) now token (sv_db sv) = Inr (Some actor) \<and> can_administer (us_role actor)
    \<and> us_id actor \<noteq> ur_id u \<and> (ur_role u' = ''Owner'' \<longrightarrow> us_role actor = Owner)"
proof -
  have ok: "auth_ok (sv_db sv)" unfolding sv by (rule server_ok)
  have changed: "ad_users (sv_db sv') \<noteq> ad_users (sv_db sv)" using users_ok_id_inject[OF auth_okD(2)[OF ok] u(1), of u'] u by auto
  show ?thesis
  proof (cases req)
    case (RequestCodeReq draw now db_now peer forwarded payload)
    then show ?thesis using step changed request_code_users by (auto simp: serve_def answer_def)
  next
    case (VerifyReq rnd1 rnd2 rnd3 now payload)
    have "ad_users (sv_db sv') = ad_users (sv_db sv) \<or> (\<exists>email code r. verify_code (hx_auth env) rnd1 rnd2 rnd3 now email code (sv_db sv) = (r, sv_db sv'))"
      using step unfolding VerifyReq
      by (auto simp: serve_def answer_def verify_code_http_def split: option.splits prod.splits if_splits sum.splits auth_fault.splits)
    then show ?thesis using verify_keeps_roles[OF ok _ u(1-3)] changed u(4) by blast
  next
    case (LogoutReq now cookies)
    then show ?thesis using step changed
      by (cases rule: auth_middleware_cases[of env now cookies "\<lambda>_ sv. apfst (into_response env) (logout env now cookies sv)" sv])
        (auto simp: serve_def logout_def apfst_def map_prod_def invalidate_session_def split: option.splits)
  next
    case (MeReq now cookies)
    then show ?thesis using step changed
      by (cases rule: auth_middleware_cases[of env now cookies current_user sv]) (auto simp: serve_def current_user_def)
  next
    case (UsersReq now cookies)
    then show ?thesis using step changed
      by (cases rule: auth_middleware_cases[of env now cookies list_users_http sv]) (auto simp: serve_def list_users_http_def)
  next
    case (RoleReq now cookies target_id role_text)
    show ?thesis
    proof (cases rule: auth_middleware_cases[of env now cookies "assign_user_role target_id role_text" sv])
      case (passed token actor)
      then have "sv' = snd (assign_user_role target_id role_text actor sv)" using arg_cong[OF step, of snd] by (simp add: serve_def RoleReq)
      then show ?thesis using assigned_role[OF ok u(1) _ u(3,4)] u(2) passed(1,2) RoleReq by blast
    qed (use step changed RoleReq in \<open>auto simp: serve_def\<close>)
  qed
qed

theorem roles_change_only_by_admins_witness:
  "\<exists>u (u' :: user_row) now cookies token actor. u \<in> set (demo_users demo_server) \<and> ur_role u' \<noteq> ur_role u
    \<and> demo_role_req = RoleReq now cookies (ur_id u) (ur_role u') \<and> session_token cookies = Some token
    \<and> user_for_session (hx_auth demo_http) now token (sv_db demo_server) = Inr (Some actor) \<and> can_administer (us_role actor)"
proof -
  let ?sv = "snd (serve demo_http demo_role_req demo_server)"
  obtain a u a' u' where u: "demo_users demo_server = [a, u]" "demo_users ?sv = [a', u']" "ur_id u' = ur_id u" "ur_role u' \<noteq> ur_role u"
    using demo_promoted by (auto simp: demo_promotes_def split: list.splits)
  then have m: "u \<in> set (ad_users (sv_db demo_server))" "u' \<in> set (ad_users (sv_db ?sv))" by (simp_all add: demo_users_def)
  obtain now cookies token actor where "demo_role_req = RoleReq now cookies (ur_id u) (ur_role u')" "session_token cookies = Some token"
      "user_for_session (hx_auth demo_http) now token (sv_db demo_server) = Inr (Some actor)" "can_administer (us_role actor)"
    using roles_change_only_by_admins[OF demo_server_def prod.collapse[symmetric] m u(3,4)] by blast
  then show ?thesis using m(1) u(4) unfolding demo_users_def by blast
qed

lemma issue_code_blind:
  assumes ok: "auth_ok db" and len: "length email \<le> 254" "length code = 6" "length code' = 6"
  shows "fst (issue_code env t email code db) = fst (issue_code env t email code' db)"
    "\<exists>r db'. issue_code env t email code db = (r, db') \<and> (r = Inr () \<or> r = Inl (Refused RateLimited))"
proof -
  let ?n = "ad_next_code_id db"
  have n: "0 \<le> ?n" "\<not> list_ex (\<lambda>c. vc_id c = ?n) (map (supersede t email) (ad_codes db))"
  proof -
    have "vc_id c \<noteq> ?n" if "c \<in> set (ad_codes db)" for c using codes_okD(3)[OF auth_okD(1)[OF ok] that] by (simp add: code_ok_def)
    moreover have "vc_id (supersede t email c) = vc_id c" for c by (simp add: supersede_def)
    ultimately show "\<not> list_ex (\<lambda>c. vc_id c = ?n) (map (supersede t email) (ad_codes db))" by (simp add: list_ex_iff)
  qed (use codes_okD(1)[OF auth_okD(1)[OF ok]] in simp)
  have digest: "\<exists>d. otp_digest env email ?n c = Some d" if "length c = 6" for c
    using n(1) len(1) that by (simp add: otp_digest_def otp_message_def append_len_prefixed_def)
  obtain d d' where d: "otp_digest env email ?n code = Some d" "otp_digest env email ?n code' = Some d'"
    using digest len(2,3) by blast
  then show "fst (issue_code env t email code db) = fst (issue_code env t email code' db)"
    "\<exists>r db'. issue_code env t email code db = (r, db') \<and> (r = Inr () \<or> r = Inl (Refused RateLimited))"
    using n(2) by (simp_all add: issue_code_def Let_def)
qed

lemma generated_code_length: "draw < 1000000 \<Longrightarrow> length (generate_code draw) = 6"
  using generated_code_valid[of draw] by (simp add: valid_code_def VERIFICATION_CODE_LENGTH_def)

text \<open>The answer to a request for a code says nothing about the code: with any other draw the server gives the same
  answer, leaves the same buckets and makes the same observations, when the delivery's success does not
  depend on the code.\<close>

theorem request_code_answer_blind:
  assumes sv: "sv = serve_all env reqs empty_server" and draws: "draw < 1000000" "draw' < 1000000"
    and delivery: "\<And>email. hx_delivers env email (generate_code draw) = hx_delivers env email (generate_code draw')"
    and answers: "request_code env draw now db_now peer forwarded payload sv = (r, sv1)"
      "request_code env draw' now db_now peer forwarded payload sv = (r', sv2)"
  shows "r' = r \<and> sv_buckets sv2 = sv_buckets sv1 \<and> sv_observed sv2 = sv_observed sv1
    \<and> map fst (sv_mail sv2) = map fst (sv_mail sv1)"
proof -
  have ok: "auth_ok (sv_db sv)" unfolding sv by (rule server_ok)
  show ?thesis
  proof (cases "payload = None \<or> normalize_email (the payload) = None")
    case True
    then show ?thesis using answers by (cases payload) (auto simp: request_code_def)
  next
    case False
    then obtain raw email where e: "payload = Some raw" "normalize_email raw = Some email" by auto
    note len = normalize_email_length[OF e(2)] generated_code_length[OF draws(1)] generated_code_length[OF draws(2)]
    obtain q db1 db2 where i: "issue_code (hx_auth env) db_now email (generate_code draw) (sv_db sv) = (q, db1)"
        "issue_code (hx_auth env) db_now email (generate_code draw') (sv_db sv) = (q, db2)" "q = Inr () \<or> q = Inl (Refused RateLimited)"
      using issue_code_blind[OF ok len, of "hx_auth env" db_now]
      by (metis fst_conv prod.collapse)
    show ?thesis using answers i delivery[of email]
      by (auto simp: request_code_def e observe_def Let_def split: sum.splits prod.splits if_splits)
  qed
qed

theorem request_code_answer_blind_witness:
  "fst (request_code demo_http 271828 0 0 (V4 0) [] (Some ''ada@north.dev'') empty_server)
     = fst (request_code demo_http 314159 0 0 (V4 0) [] (Some ''ada@north.dev'') empty_server)"
proof -
  have "empty_server = serve_all demo_http [] empty_server" by simp
  from request_code_answer_blind[OF this, of 314159 271828 0 0 "V4 0" "[]" "Some ''ada@north.dev''"] show ?thesis
    by (simp add: demo_http_def prod_eq_iff)
qed

text \<open>C15. Signing in over HTTP works from end to end: when a request for a code is accepted, the code is delivered to the
  normalized address; sending it back within ten minutes is answered with a cookie, when the drawn identities are
  fresh and the header accepts printable text; and the pair of that cookie, sent back, is recognised as the user of
  that address.\<close>

theorem http_sign_in:
  assumes sv: "sv = serve_all env reqs empty_server" and draw: "draw < 1000000" "\<And>i. rnd2 i < 256"
    and request: "request_code env draw now t peer forwarded (Some raw) sv = (Some (Inr resp), sv1)"
    and in_time: "t' < t + VERIFICATION_CODE_TTL_SECONDS * 1000000"
    and fresh: "fresh_ids (hx_auth env) rnd1 rnd2 rnd3 (sv_db sv1)"
    and header: "\<And>s. list_all (\<lambda>c. plain c \<or> c = CHR '' '') s \<Longrightarrow> hx_header_value env s"
  shows "\<exists>email cookie sv2 u. normalize_email raw = Some email \<and> sv_mail sv1 = sv_mail sv @ [(email, generate_code draw)]
    \<and> serve env (VerifyReq rnd1 rnd2 rnd3 t' (Some (raw, generate_code draw))) sv1
        = (Some \<lparr>hr_status = 204, hr_set_cookie = Some cookie, hr_retry_after = None, hr_body = NoBody\<rparr>, sv2)
    \<and> serve env (MeReq t' (Some (takeWhile (\<lambda>c. c \<noteq> CHR '';'') cookie))) sv2 = (Some (plain_response 200 (UserBody u)), sv2)
    \<and> ue_email u = email"
proof -
  have ok: "auth_ok (sv_db sv)" unfolding sv by (rule server_ok)
  from request obtain email db1 where e: "normalize_email raw = Some email" "sv_db sv1 = db1" "sv_mail sv1 = sv_mail sv @ [(email, generate_code draw)]"
      and i: "issue_code (hx_auth env) t email (generate_code draw) (sv_db sv) = (Inr (), db1)"
    by (auto simp: request_code_def Let_def observe_def split: option.splits sum.splits prod.splits auth_fault.splits if_splits)
  obtain s db2 where v: "verify_code (hx_auth env) rnd1 rnd2 rnd3 t' email (generate_code draw) db1 = (Inr s, db2)"
      "us_email (au_user s) = email" "au_token s = random_hex 32 rnd2" "user_for_session (hx_auth env) t' (au_token s) db2 = Inr (Some (au_user s))"
    using issued_code_signs_in[OF ok i in_time] fresh e(2) by blast
  let ?pair = "SESSION_COOKIE_NAME @ ''='' @ au_token s"
  let ?rest = "'' Path=/; HttpOnly; Secure; SameSite=Lax; Max-Age='' @ show_nat SESSION_TTL_SECONDS"
  let ?cookie = "?pair @ CHR '';'' # ?rest"
  have "length (au_token s) = 64" unfolding v(3) length_random_hex by simp
  moreover have "list_all (\<lambda>c. plain c \<and> c \<noteq> CHR '';'') (au_token s)"
    using random_hex_plain[of rnd2 32, OF draw(2)] unfolding v(3) list_all_iff by blast
  ultimately have token: "list_all (\<lambda>c. plain c \<and> c \<noteq> CHR '';'') (au_token s)" "au_token s \<noteq> []" by auto
  have printable: "list_all (\<lambda>c. plain c \<and> c \<noteq> CHR '';'') (SESSION_COOKIE_NAME @ ''='')" "list_all (\<lambda>c. plain c \<or> c = CHR '' '') (CHR '';'' # ?rest)"
    by code_simp+
  have "hx_header_value env ?cookie" by (rule header) (use printable token(1) in \<open>auto simp: list_all_iff\<close>)
  then have set_cookie: "session_cookie env s = Inr ?cookie" by (simp add: session_cookie_def)
  have "\<forall>c\<in>set ?pair. c \<noteq> CHR '';''" using printable(1) token(1) by (auto simp: list_all_iff)
  then have pair: "takeWhile (\<lambda>c. c \<noteq> CHR '';'') ?cookie = ?pair" by (rule takeWhile_until)
  define sv2 where "sv2 = sv1\<lparr>sv_db := db2\<rparr>"
  have "serve env (VerifyReq rnd1 rnd2 rnd3 t' (Some (raw, generate_code draw))) sv1
        = (Some \<lparr>hr_status = 204, hr_set_cookie = Some ?cookie, hr_retry_after = None, hr_body = NoBody\<rparr>, sv2)"
    using v(1) e(1,2) generated_code_valid[OF draw(1)] set_cookie
    by (simp add: serve_def answer_def verify_code_http_def into_response_def plain_response_def sv2_def)
  moreover have "serve env (MeReq t' (Some (takeWhile (\<lambda>c. c \<noteq> CHR '';'') ?cookie))) sv2
      = (Some (plain_response 200 (UserBody (user_response_from (au_user s)))), sv2)"
    unfolding pair using session_token_pair[OF token] v(4)
    by (simp add: serve_def auth_middleware_def current_user_def sv2_def)
  moreover have "ue_email (user_response_from (au_user s)) = email" by (simp add: user_response_from_def v(2))
  ultimately show ?thesis using e(1,3) by blast
qed

theorem http_sign_in_witness:
  "\<exists>email cookie sv2 u. normalize_email '' Ada@North.dev '' = Some email
    \<and> serve demo_http (VerifyReq id (\<lambda>_. 7) id 1000000 (Some ('' Ada@North.dev '', generate_code 314159)))
         (snd (request_code demo_http 314159 0 0 (V4 0) [] (Some '' Ada@North.dev '') empty_server))
        = (Some \<lparr>hr_status = 204, hr_set_cookie = Some cookie, hr_retry_after = None, hr_body = NoBody\<rparr>, sv2)
    \<and> serve demo_http (MeReq 1000000 (Some (takeWhile (\<lambda>c. c \<noteq> CHR '';'') cookie))) sv2 = (Some (plain_response 200 (UserBody u)), sv2)
    \<and> ue_email u = email"
proof -
  let ?r = "request_code demo_http 314159 0 0 (V4 0) [] (Some '' Ada@North.dev '') empty_server"
  have sv: "empty_server = serve_all demo_http [] empty_server" by simp
  have "fst ?r = Some (Inr (plain_response 202 (PublicMessage ''verification code requested'')))" by code_simp
  then have r: "?r = (Some (Inr (plain_response 202 (PublicMessage ''verification code requested''))), snd ?r)" by (simp add: prod_eq_iff)
  have "ad_users (sv_db (snd ?r)) = [] \<and> ad_sessions (sv_db (snd ?r)) = []" by code_simp
  then have fresh: "fresh_ids (hx_auth demo_http) id (\<lambda>_. 7) id (sv_db (snd ?r))" by (simp add: fresh_ids_def)
  have "(1000000 :: nat) < 0 + VERIFICATION_CODE_TTL_SECONDS * 1000000" by (simp add: VERIFICATION_CODE_TTL_SECONDS_def)
  from http_sign_in[OF sv _ _ r this fresh] show ?thesis by (simp add: demo_http_def) blast
qed

end
