(* ===== verification/Spec2Isabelle.thy ===== *)
theory Spec2Isabelle
  imports Requirement_Domain Daemon_Loop Daemon_Transport Daemon_Pairing Daemon_Sessions Event_Handling Review_Safety Clarification_Safety Auth_Http
begin

text \<open>
  North: a self-hosted requirement management server with a local execution daemon.

  \<^bold>\<open>The program.\<close> Users sign in to the server with codes sent by mail and write requirements. An agent
  clarifies a requirement in a conversation and judges whether it is ready for review; people with a
  reviewing role then accept it, reject it or ask for changes. The agent does not run on the server: a daemon
  on a user's machine connects to it by a WebSocket, receives commands, runs the agent and reports events.
  Commands and events are numbered per session and journaled on both sides, so that a lost connection, a
  repeated delivery or a crash neither loses nor repeats work.

  \<^item> \<open>crates/north-domain\<close>: roles, the lifecycle of a requirement, review packets, repository metadata.
  \<^item> \<open>crates/north-protocol\<close>: the frames of the WebSocket and their validation.
  \<^item> \<open>crates/north-daemon\<close>: the journal, the coordinator, the scheduler of the runtime, the main loop, the
    connection supervisor, the agent runtime and the inspection of repositories.
  \<^item> \<open>crates/north-persistence\<close>: the transactions of the server on its PostgreSQL tables.
  \<^item> \<open>crates/north-server\<close>: HTTP routes, authentication, abuse control of the public endpoints and the server's
    side of the WebSocket.

  \<^bold>\<open>How the code is modelled.\<close> A struct is a record with the same fields, an enum a datatype with the same
  constructors, both with a prefix where HOL needs one; a method is a definition with the source's name. A
  \<open>Result\<close> is a sum, \<open>Inl\<close> the error; a fallible method that changes its object returns the error and the object
  it leaves behind. \<open>u16\<close>, \<open>u32\<close>, \<open>u64\<close> are words, and saturating and checked arithmetic is written out; a string
  is the list of its UTF-8 bytes. A table is the list of its rows with its unique keys checked on insert, a
  transaction a function from the tables to an error or a value and new tables; transactions run one after
  the other. Time, random bytes and the answers of the operating system are arguments.

  \<^bold>\<open>Theories.\<close>

  \<^item> \<open>North_Prelude\<close>: Rust's results, strings, integers and vectors, and the lemmas the other theories share.
  \<^item> \<open>Role_Status\<close>, \<open>Requirement_Domain\<close> (\<open>role.rs\<close>, \<open>status.rs\<close>, \<open>requirement.rs\<close>, \<open>readiness.rs\<close>): the requirement with
    its two version tokens. The lemmas show what each operation does on each branch and, over every history,
    that a \<open>Ready\<close> requirement is exactly one with a current review packet.
  \<^item> \<open>Rust_Ip\<close>, \<open>Repository_Url\<close> (\<open>repository.rs\<close>): the recogniser of Git locations, shown equal to a grammar.
  \<^item> \<open>Wire_Protocol\<close> (\<open>north-protocol/src/lib.rs\<close>): every frame, its validation, and the round trip of the codec.
  \<^item> \<open>Journal_Model\<close> (\<open>journal.rs\<close>): every method of \<open>Journal\<close> with rollback and the file on disk; \<open>Journal_Trace\<close> the
    interleavings of its critical sections with failed writes and restarts; \<open>Journal_Inbox\<close> and \<open>Journal_Outbox\<close> the
    ledgers of commands and of events with their locales; \<open>Journal_Dispatch\<close> and \<open>Journal_Events\<close> what holds in
    every interleaving: at most one dispatch, order, bounds, no lost event, and where the watermark loops
    return and where they do not.
  \<^item> \<open>Coordination\<close> (\<open>coordination.rs\<close>): handshake, frames, completion, recovery; at most once over restarts.
  \<^item> \<open>Scheduler\<close>, \<open>Scheduler_Safety\<close>, \<open>Scheduler_Runs\<close> (\<open>scheduler.rs\<close>): workers, permits, queues and cancellation, with
    shared controls as addresses of a store; bounds, cancellation and completion of all work.
  \<^item> \<open>Daemon_Loop\<close> (\<open>main.rs\<close>): the event loop over coordinator and scheduler; it never fails to schedule.
  \<^item> \<open>Transport_Model\<close> (\<open>transport.rs\<close>): the connection supervisor. Its three tasks are program points, the bounded channels
    between them lists, and \<open>link_step\<close> any next move of any task, of the socket or of the host. Every frame that is written to a
    socket is recorded with its source. Invariants are proved once per task in the locale \<open>connection_invariant\<close>, a sublocale of
    \<open>link_invariant\<close>. \<open>Daemon_Transport\<close>: the order of the handshake, the order of frames over reconnections, what each error that
    ends the supervisor goes back to, and the backoff.
  \<^item> \<open>Server_Delivery\<close> (\<open>delivery.rs\<close>): the server's ledger of commands and events.
  \<^item> \<open>Requirement_Store\<close>, \<open>Readiness_Store\<close> (\<open>requirements.rs\<close>, \<open>readiness.rs\<close>); \<open>Review_History\<close> the contract of their
    transactions as a locale, and \<open>Review_Safety\<close> the refinement of the domain by the tables, audit and decisions.
  \<^item> \<open>Clarification_Store\<close> (\<open>clarification.rs\<close>); \<open>Clarification_Runs\<close> a run as a state machine, with a locale
    interpreted for every transaction; \<open>Clarification_Safety\<close> attempts, retries, cancellation, projection.
  \<^item> \<open>Daemon_Registry\<close> (\<open>north-persistence/src/daemon.rs\<close>): pairing requests, registrations and connection leases;
    \<open>Daemon_Pairing\<close> the contract of the calls as a locale, what holds over every history, and the lease as a fold over it.
    \<open>Daemon_Sessions\<close> (the rest of that file): the start of sessions with their commands; owners, numbers, repeated calls.
  \<^item> \<open>Event_Handling\<close> (\<open>north-server/src/daemon.rs\<close>, \<open>assessment.rs\<close>, \<open>events.rs\<close>): the handling of a daemon's events and the
    dispatch of commands; an answer is for its event, a command goes to the owner of its session, and the retry of a compacted
    command is refused unless its row kept the payload.
  \<^item> \<open>Client_Identity\<close>, \<open>Rate_Limiter\<close> (\<open>public_abuse.rs\<close>): who a request comes from and how many are let through.
  \<^item> \<open>Auth_Store\<close> (\<open>north-persistence/src/lib.rs\<close>): codes, users, sessions; \<open>Auth_Safety\<close> a locale for the calls and what
    holds over every trace of them; \<open>Auth_Http\<close> (\<open>auth.rs\<close>, \<open>roles.rs\<close>) the handlers and their composition.

  \<^bold>\<open>Parameters and hypotheses.\<close> Code outside the repository is an argument. Where a theorem relies on it, the
  hypothesis has a name: \<open>serde_roundtrip\<close> (JSON that was written is read back), \<open>collision_free\<close> (a digest determines
  what it was taken of, for the inputs compared), \<open>disk_writable\<close>, \<open>ieee_rounding\<close> (rounding is monotone and exact on
  small integers), and the records \<open>journal_env\<close>, \<open>store_env\<close>, \<open>clarification_env\<close>, \<open>auth_env\<close>, \<open>http_env\<close>, \<open>registry_env\<close>, \<open>link_env\<close>,
  \<open>host_env\<close>. Each theorem with a hypothesis has a witness at a concrete instance.

  \<^bold>\<open>Loops.\<close> Loops over data are structural recursion. The two watermark loops of the journal may run forever and
  are partial functions, \<open>None\<close> where they do not return; termination is proved where it holds. The drain loop of
  the scheduler recurses on the number of queued commands. No fuel is used.

  \<^bold>\<open>Not modelled.\<close> The agent runtime and the inspection of repositories drive child processes and the file system;
  the connection loop of the server's WebSocket, the other routes and the remaining tables (repositories, conversations,
  retention) are outside. Failures of the database itself, and two requests that interleave between
  the statements of one handler, are not modelled. The histories of \<open>Clarification_Safety\<close> leave out that \<open>daemon.rs\<close>
  could name a daemon for an unassigned clarification run; only tests call it in that way.
\<close>

end
